(* ===== verification/Prelude.thy ===== *)
theory Prelude
  imports Main "HOL-Library.Word"
begin

text \<open>
  Shared ground of the development: the machine integer types the sources use, the error
  type of \<^verbatim>\<open>expected.h\<close>, and the generic facts on words, lists and options that the
  component theories rely on. The named collection \<open>octet_bits\<close> turns an equation between
  octet expressions into eight equations between single bits, which the simplifier decides.
\<close>

unbundle bit_operations_syntax

section \<open>Machine integers\<close>

type_synonym u8 = "8 word"
type_synonym u16 = "16 word"
type_synonym u32 = "32 word"
type_synonym u64 = "64 word"
type_synonym bytes = "u8 list"

section \<open>Errors as values\<close>

text \<open>
  \<^verbatim>\<open>Expected<T>\<close> holds either a value or a \<^verbatim>\<open>ParseError\<close>. Of the error the model keeps the
  code and the message, which every call site gives literally; the result type is a sum with
  the error on the left.
\<close>

datatype ErrorCode =
    Ok
  | TruncatedInput
  | InvalidPD
  | InvalidMTI
  | LengthMismatch
  | InvalidIE
  | InvalidValue
  | UnsupportedFeature
  | SourceExhausted
  | BufferTooSmall

record ParseError =
  code :: ErrorCode
  message :: string

type_synonym 'a Expected = "ParseError + 'a"

definition perr :: "ErrorCode \<Rightarrow> string \<Rightarrow> 'a Expected" where
  "perr c m = Inl \<lparr>code = c, message = m\<rparr>"

lemma perr_simps [simp]:
  "perr c m = Inl e \<longleftrightarrow> e = \<lparr>code = c, message = m\<rparr>"
  "perr c m \<noteq> Inr x"
  "Inr x \<noteq> perr c m"
  by (auto simp: perr_def)

lemma perr_isl [simp]: "isl (perr c m)"
  by (simp add: perr_def)

section \<open>Octets, bit by bit\<close>

named_theorems octet_bits \<open>rules that reduce an equation of octets to its bits\<close>

lemma less_8_iff:
  "(n :: nat) < 8 \<longleftrightarrow> n = 0 \<or> n = 1 \<or> n = 2 \<or> n = 3 \<or> n = 4 \<or> n = 5 \<or> n = 6 \<or> n = 7"
  by auto

lemma u8_eqI:
  "(\<And>n. n \<in> {0, 1, 2, 3, 4, 5, 6, 7} \<Longrightarrow> bit x n = bit y n) \<Longrightarrow> x = (y :: u8)"
  by (rule bit_word_eqI) (simp add: less_8_iff)

lemma u8_eq_iff [octet_bits]:
  "x = (y :: u8) \<longleftrightarrow>
     bit x 0 = bit y 0 \<and> bit x 1 = bit y 1 \<and> bit x 2 = bit y 2 \<and> bit x 3 = bit y 3 \<and>
     bit x 4 = bit y 4 \<and> bit x 5 = bit y 5 \<and> bit x 6 = bit y 6 \<and> bit x 7 = bit y 7"
  (is "_ \<longleftrightarrow> ?bits")
proof
  assume "x = y"
  then show "?bits" by simp
next
  assume "?bits"
  then show "x = y" by (intro u8_eqI) (elim conjE insertE emptyE, simp_all)
qed

lemma bit_times_2 [octet_bits]:
  "bit (w * 2 :: u8) n \<longleftrightarrow> 0 < n \<and> n < 8 \<and> bit w (n - 1)"
  using bit_double_iff [of w n] by (auto simp: mult.commute)

declare bit_simps [octet_bits]

lemma bit_index_2 [octet_bits]: "Suc (Suc 0) = 2"
  by simp

lemma u8_and_7_bound: "unat (x AND 7 :: u8) < 8"
proof -
  have "x AND 7 = take_bit 3 x" by (simp add: take_bit_eq_mask mask_eq_exp_minus_1)
  then have "unat (x AND 7) = take_bit 3 (unat x)" by (simp only: unsigned_take_bit_eq)
  also have "\<dots> < 2 ^ 3" by (rule take_bit_nat_less_exp)
  finally show ?thesis by simp
qed

lemma and_7_idem [simp]: "(x AND 7) AND 7 = (x AND 7 :: u8)"
  by (simp add: and.assoc)

lemma suc_mod8_neq: "(x + 1) AND 7 \<noteq> (x :: u8)"
proof
  assume eq: "(x + 1) AND 7 = x"
  have "even (x AND 7) = even x" by (simp add: even_and_iff)
  moreover have "even ((x + 1) AND 7) = even (x + 1)" by (simp add: even_and_iff)
  ultimately show False using eq by simp
qed

section \<open>Lists\<close>

lemma take_drop_append_split:
  "a \<le> b \<Longrightarrow> take (b - a) (drop a xs) @ drop b xs = drop a xs"
  by (metis append_take_drop_id drop_drop le_add_diff_inverse2)

text \<open>A search through the slots of an array.\<close>

lemma find_upt_Some:
  "List.find P [0..<n] = Some i \<longleftrightarrow> i < n \<and> P i \<and> (\<forall>j < i. \<not> P j)"
  by (auto simp: find_Some_iff)

lemma find_upt_None: "List.find P [0..<n] = None \<longleftrightarrow> (\<forall>i < n. \<not> P i)"
  by (auto simp: find_None_iff)

end
