(* ===== verification/Gsm_Types.thy ===== *)
theory Gsm_Types
  imports Prelude
begin

text \<open>
  The enumerations of \<^verbatim>\<open>types.h\<close> that the protocol components share. A scoped enumeration with
  an underlying type can hold any value of that type after a cast, so where the code casts a
  field of a received octet the datatype has a constructor for the values without a name.
\<close>

section \<open>Service access points\<close>

datatype SAPI = SAPI0 | SAPI3 | SAPI_Undefined | SAPI_unnamed u8

definition u8_of_SAPI :: "SAPI \<Rightarrow> u8" where
  "u8_of_SAPI s = (case s of SAPI0 \<Rightarrow> 0 | SAPI3 \<Rightarrow> 3 | SAPI_Undefined \<Rightarrow> 16 | SAPI_unnamed v \<Rightarrow> v)"

definition SAPI_of_u8 :: "u8 \<Rightarrow> SAPI" where
  "SAPI_of_u8 v =
     (if v = 0 then SAPI0 else if v = 3 then SAPI3 else if v = 16 then SAPI_Undefined
      else SAPI_unnamed v)"

lemma u8_of_SAPI_simps [simp]:
  "u8_of_SAPI SAPI0 = 0" "u8_of_SAPI SAPI3 = 3" "u8_of_SAPI SAPI_Undefined = 16"
  "u8_of_SAPI (SAPI_unnamed v) = v"
  by (simp_all add: u8_of_SAPI_def)

lemma u8_of_SAPI_of_u8 [simp]: "u8_of_SAPI (SAPI_of_u8 v) = v"
  by (simp add: SAPI_of_u8_def)

section \<open>Interlayer primitives\<close>

datatype Primitive =
    L2_DATA
  | L3_DATA
  | L3_DATA_CONFIRM
  | L3_UNIT_DATA
  | L3_ESTABLISH_REQUEST
  | L3_ESTABLISH_INDICATION
  | L3_ESTABLISH_CONFIRM
  | L3_RELEASE_REQUEST
  | L3_RELEASE_CONFIRM
  | L3_HARDRELEASE_REQUEST
  | MDL_ERROR_INDICATION
  | L3_RELEASE_INDICATION
  | PH_CONNECT
  | HANDOVER_ACCESS

section \<open>Protocol discriminators\<close>

text \<open>
  \<^verbatim>\<open>L3PD\<close> is a signed eight-bit enumeration; the values 2, 4 and 7 of the four-bit field have no
  name.
\<close>

datatype L3PD =
    GroupCallControl
  | BroadcastCallControl
  | CallControl
  | MobilityManagement
  | RadioResource
  | GPRSMobilityManagement
  | PD_SMS
  | GPRSSessionManagement
  | NonCallSS
  | PD_Location
  | PacketDomainSupplementaryServices1
  | PacketDomainSupplementaryServices2
  | TestProcedure
  | PD_Undefined
  | PD_unnamed nat

definition L3PD_of_nibble :: "u8 \<Rightarrow> L3PD" where
  "L3PD_of_nibble v =
     (if v = 0x00 then GroupCallControl else if v = 0x01 then BroadcastCallControl
      else if v = 0x03 then CallControl else if v = 0x05 then MobilityManagement
      else if v = 0x06 then RadioResource else if v = 0x08 then GPRSMobilityManagement
      else if v = 0x09 then PD_SMS else if v = 0x0A then GPRSSessionManagement
      else if v = 0x0B then NonCallSS else if v = 0x0C then PD_Location
      else if v = 0x0D then PacketDomainSupplementaryServices1
      else if v = 0x0E then PacketDomainSupplementaryServices2
      else if v = 0x0F then TestProcedure else PD_unnamed (unat v))"

section \<open>What the stack reads of a parsed message\<close>

text \<open>
  \<^verbatim>\<open>ParsedMessage\<close> is a variant over all message classes. The protocol stack looks at it through
  \<^verbatim>\<open>messagePD\<close>, \<^verbatim>\<open>messageMTI\<close> and \<^verbatim>\<open>messageTI\<close> (\<^verbatim>\<open>visitor.h\<close>), and through \<^verbatim>\<open>tryGet\<close> at one field of
  four classes: the signed response, the request reference, the transaction identifier of a SETUP
  and the CM service type. The model of a message is the record of these values; the body is
  \<open>OtherBody\<close> when the alternative held is none of the four, so that \<^verbatim>\<open>tryGet\<close> gives a null pointer.
\<close>

datatype MessageBody =
    AuthenticationResponseBody u32
  | ChannelRequestBody u8
  | SetupBody u8
  | CMServiceRequestBody u8
  | OtherBody

record ParsedMessage =
  messagePD :: L3PD
  messageMTI :: int
  messageTI :: u8
  messageBody :: MessageBody

end
