(* ===== verification/Lapdm_Frame.thy ===== *)
theory Lapdm_Frame
  imports Gsm_Types
begin

text \<open>
  The LAPDm frame codec: \<^verbatim>\<open>lapdm_frame.h\<close> and \<^verbatim>\<open>lapdm_frame.cpp\<close>. Records and datatypes are the
  structs and enumerations of the header, \<open>decode\<close> is \<^verbatim>\<open>LAPDmFrame::decode\<close> and \<open>encodeFrame\<close>
  and \<open>encodeFrameToBuffer\<close> are the two encoders. A \<^verbatim>\<open>std::span\<close> over octets is the list of
  those octets. The lemmas show the codec lossless in both directions and that a frame whose
  information field does not fit the six length bits is rejected by the decoder.
\<close>

section \<open>Data\<close>

datatype LAPDmControlFormat = I_Format | S_Format | U_Format

datatype LAPDmUFrameType = UI | SABME | DM | DISC | UA

text \<open>The two-bit code 3 has no name in \<^verbatim>\<open>LAPDmSFrameType\<close>; a received octet can carry it.\<close>

datatype LAPDmSFrameType = RR | RNR | REJ | SType_unnamed

record LAPDmAddressField =
  sapi :: SAPI
  command :: bool
  ea :: bool

record LAPDmIControlField =
  ic_nr :: u8
  ic_ns :: u8
  ic_pf :: bool

record LAPDmSControlField =
  sc_nr :: u8
  sc_type :: LAPDmSFrameType
  sc_pf :: bool

record LAPDmLengthField =
  lf_more :: bool
  lf_length :: u8

record LAPDmFrame =
  address :: LAPDmAddressField
  format :: LAPDmControlFormat
  iCtrl :: LAPDmIControlField
  nr :: u8
  sType :: LAPDmSFrameType
  uType :: LAPDmUFrameType
  pf :: bool
  moreBit :: bool
  info :: bytes

section \<open>Single octets\<close>

definition addr_encode :: "LAPDmAddressField \<Rightarrow> u8" where
  "addr_encode a =
     push_bit 2 (u8_of_SAPI (sapi a) AND 0x07)
     OR (if command a then 0x02 else 0x00)
     OR (if ea a then 0x01 else 0x00)"

definition addr_decode :: "u8 \<Rightarrow> LAPDmAddressField" where
  "addr_decode b =
     \<lparr>sapi = SAPI_of_u8 (drop_bit 2 b AND 0x07), command = (b AND 0x02 \<noteq> 0),
      ea = (b AND 0x01 \<noteq> 0)\<rparr>"

definition mkIControl :: "u8 \<Rightarrow> u8 \<Rightarrow> bool \<Rightarrow> LAPDmIControlField" where
  "mkIControl n s p = \<lparr>ic_nr = n AND 0x07, ic_ns = s AND 0x07, ic_pf = p\<rparr>"

definition i_encode :: "LAPDmIControlField \<Rightarrow> u8" where
  "i_encode c =
     push_bit 5 (ic_nr c AND 0x07)
     OR (if ic_pf c then 0x10 else 0x00)
     OR push_bit 1 (ic_ns c AND 0x07)"

definition i_decode :: "u8 \<Rightarrow> LAPDmIControlField" where
  "i_decode b = mkIControl (drop_bit 5 b AND 0x07) (drop_bit 1 b AND 0x07) (b AND 0x10 \<noteq> 0)"

definition u8_of_SType :: "LAPDmSFrameType \<Rightarrow> u8" where
  "u8_of_SType t = (case t of RR \<Rightarrow> 0 | RNR \<Rightarrow> 1 | REJ \<Rightarrow> 2 | SType_unnamed \<Rightarrow> 3)"

definition SType_of_u8 :: "u8 \<Rightarrow> LAPDmSFrameType" where
  "SType_of_u8 v =
     (if v = 0 then RR else if v = 1 then RNR else if v = 2 then REJ else SType_unnamed)"

definition mkSControl :: "u8 \<Rightarrow> LAPDmSFrameType \<Rightarrow> bool \<Rightarrow> LAPDmSControlField" where
  "mkSControl n t p = \<lparr>sc_nr = n AND 0x07, sc_type = t, sc_pf = p\<rparr>"

definition s_encode :: "LAPDmSControlField \<Rightarrow> u8" where
  "s_encode c =
     push_bit 5 (sc_nr c AND 0x07)
     OR (if sc_pf c then 0x10 else 0x00)
     OR push_bit 2 (u8_of_SType (sc_type c))
     OR 0x01"

definition s_decode :: "u8 \<Rightarrow> LAPDmSControlField" where
  "s_decode b =
     mkSControl (drop_bit 5 b AND 0x07) (SType_of_u8 (drop_bit 2 b AND 0x03)) (b AND 0x10 \<noteq> 0)"

definition mkLength :: "bool \<Rightarrow> u8 \<Rightarrow> LAPDmLengthField" where
  "mkLength m l = \<lparr>lf_more = m, lf_length = l AND 0x3F\<rparr>"

definition len_encode :: "LAPDmLengthField \<Rightarrow> u8" where
  "len_encode f =
     push_bit 2 (lf_length f AND 0x3F) OR (if lf_more f then 0x02 else 0x00) OR 0x01"

definition len_decode :: "u8 \<Rightarrow> LAPDmLengthField" where
  "len_decode b = mkLength (b AND 0x02 \<noteq> 0) (drop_bit 2 b AND 0x3F)"

section \<open>The U-frame control table\<close>

fun uTypeIndex :: "LAPDmUFrameType \<Rightarrow> nat" where
  "uTypeIndex UI = 0"
| "uTypeIndex SABME = 1"
| "uTypeIndex DM = 2"
| "uTypeIndex DISC = 3"
| "uTypeIndex UA = 4"

definition uTypes :: "LAPDmUFrameType list" where
  "uTypes = [UI, SABME, DM, DISC, UA]"

definition kUControl :: "u8 list list" where
  "kUControl = [[0x03, 0x13], [0x2F, 0x3F], [0x0F, 0x1F], [0x43, 0x53], [0x63, 0x73]]"

definition uFrameControlByte :: "LAPDmUFrameType \<Rightarrow> bool \<Rightarrow> u8" where
  "uFrameControlByte t p = kUControl ! uTypeIndex t ! (if p then 1 else 0)"

text \<open>
  \<^verbatim>\<open>detail::matchUControl\<close> scans the table row by row and answers the position
  \<open>2 * type + pf\<close>, or \<open>-1\<close>, here \<open>None\<close>.
\<close>

fun scanRow :: "u8 \<Rightarrow> nat \<Rightarrow> u8 list \<Rightarrow> nat option" where
  "scanRow c k [] = None"
| "scanRow c k (x # xs) = (if x = c then Some k else scanRow c (Suc k) xs)"

definition matchUControl :: "u8 \<Rightarrow> nat option" where
  "matchUControl c = scanRow c 0 (concat kUControl)"

section \<open>Frames\<close>

text \<open>The default member initialisers of \<^verbatim>\<open>LAPDmFrame\<close>.\<close>

definition frame0 :: LAPDmFrame where
  "frame0 =
     \<lparr>address = \<lparr>sapi = SAPI_Undefined, command = False, ea = True\<rparr>, format = U_Format,
      iCtrl = \<lparr>ic_nr = 0, ic_ns = 0, ic_pf = False\<rparr>, nr = 0, sType = RR, uType = UI,
      pf = False, moreBit = False, info = []\<rparr>"

definition decode :: "bytes \<Rightarrow> LAPDmFrame Expected" where
  "decode data =
     (if length data < 3 then perr TruncatedInput ''LAPDm frame too short''
      else let b0 = data ! 0; ctrl = data ! 1; b2 = data ! 2 in
      if b0 AND 0xE0 \<noteq> 0 then perr InvalidValue ''Non-GSM service access point''
      else if b0 AND 0x01 = 0 then perr InvalidValue ''LAPDm EA bit not set''
      else let addr = addr_decode b0;
               rawSapi = drop_bit 2 b0 AND 0x07;
               addr' = (if rawSapi \<noteq> 0 \<and> rawSapi \<noteq> 3 then addr\<lparr>sapi := SAPI_Undefined\<rparr> else addr)
      in if b2 AND 0x01 = 0 then perr InvalidValue ''LAPDm header octet fixed bit not set''
      else let lenField = len_decode b2; payloadLen = unat (lf_length lenField)
      in if length data < 3 + payloadLen
         then perr TruncatedInput ''LAPDm info field shorter than declared length''
      else if length data > 3 + payloadLen
         then perr InvalidValue ''LAPDm frame has trailing bytes''
      else let frame = frame0\<lparr>address := addr', moreBit := lf_more lenField,
                              info := take payloadLen (drop 3 data)\<rparr>
      in if ctrl AND 0x03 = 0 \<or> ctrl AND 0x03 = 2
         then Inr (frame\<lparr>format := I_Format, iCtrl := i_decode ctrl\<rparr>)
      else if ctrl AND 0x03 = 1
         then (if b2 \<noteq> 0x01 then perr InvalidValue ''S-frame must have an empty header octet''
               else let sCtrl = s_decode ctrl in
                 Inr (frame\<lparr>format := S_Format, nr := sc_nr sCtrl, sType := sc_type sCtrl,
                           pf := sc_pf sCtrl\<rparr>))
      else (case matchUControl ctrl of
              None \<Rightarrow> perr InvalidValue ''Unknown U-frame control octet''
            | Some matched \<Rightarrow>
                let t = uTypes ! (matched div 2) in
                if (t = DM \<or> t = DISC) \<and> lf_length lenField \<noteq> 0
                then perr InvalidValue ''DM/DISC frames carry no info field''
                else Inr (frame\<lparr>format := U_Format, uType := t, pf := (matched mod 2 \<noteq> 0)\<rparr>)))"

definition encodedFrameSize :: "LAPDmFrame \<Rightarrow> nat" where
  "encodedFrameSize f = (if format f = S_Format then 3 else 3 + length (info f))"

text \<open>
  The octets \<^verbatim>\<open>encodeFrameToBuffer\<close> stores from offset 0 on, in order. The length octet gets
  the low eight bits of the size of the information field (the cast to \<^verbatim>\<open>uint8_t\<close>), of which
  the length field keeps six.
\<close>

definition frameOctets :: "LAPDmFrame \<Rightarrow> bytes" where
  "frameOctets f =
     addr_encode (address f)
     # (case format f of
          I_Format \<Rightarrow> i_encode (iCtrl f)
        | S_Format \<Rightarrow> s_encode (mkSControl (nr f) (sType f) (pf f))
        | U_Format \<Rightarrow> uFrameControlByte (uType f) (pf f))
     # (if format f = S_Format then [0x01]
        else len_encode (mkLength (moreBit f) (word_of_nat (length (info f)))) # info f)"

text \<open>
  The buffer version returns the number of octets written and the buffer, whose tail beyond the
  frame is untouched; with too small a buffer nothing is written.
\<close>

definition encodeFrameToBuffer :: "LAPDmFrame \<Rightarrow> bytes \<Rightarrow> nat \<times> bytes" where
  "encodeFrameToBuffer f out =
     (if length out < encodedFrameSize f then (0, out)
      else (length (frameOctets f), frameOctets f @ drop (length (frameOctets f)) out))"

definition encodeFrame :: "LAPDmFrame \<Rightarrow> bytes" where
  "encodeFrame f =
     (let out = replicate (encodedFrameSize f) 0; (n, out') = encodeFrameToBuffer f out
      in take n out')"

section \<open>Frame factories\<close>

definition makeUIFrame :: "SAPI \<Rightarrow> bool \<Rightarrow> bytes \<Rightarrow> LAPDmFrame" where
  "makeUIFrame s c d =
     frame0\<lparr>address := \<lparr>sapi = s, command = c, ea = True\<rparr>, format := U_Format, uType := UI,
            info := d\<rparr>"

definition makeSABMEFrame :: "SAPI \<Rightarrow> bool \<Rightarrow> bytes \<Rightarrow> LAPDmFrame" where
  "makeSABMEFrame s c d =
     frame0\<lparr>address := \<lparr>sapi = s, command = c, ea = True\<rparr>, format := U_Format, uType := SABME,
            pf := True, info := d\<rparr>"

definition makeUAFrame :: "SAPI \<Rightarrow> bool \<Rightarrow> bytes \<Rightarrow> LAPDmFrame" where
  "makeUAFrame s p d =
     frame0\<lparr>address := \<lparr>sapi = s, command = False, ea = True\<rparr>, format := U_Format, uType := UA,
            pf := p, info := d\<rparr>"

definition makeDMFrame :: "SAPI \<Rightarrow> bool \<Rightarrow> LAPDmFrame" where
  "makeDMFrame s p =
     frame0\<lparr>address := \<lparr>sapi = s, command = False, ea = True\<rparr>, format := U_Format, uType := DM,
            pf := p\<rparr>"

definition makeDISCFrame :: "SAPI \<Rightarrow> bool \<Rightarrow> LAPDmFrame" where
  "makeDISCFrame s c =
     frame0\<lparr>address := \<lparr>sapi = s, command = c, ea = True\<rparr>, format := U_Format, uType := DISC,
            pf := True\<rparr>"

definition makeIFrame :: "SAPI \<Rightarrow> bool \<Rightarrow> u8 \<Rightarrow> u8 \<Rightarrow> bool \<Rightarrow> bool \<Rightarrow> bytes \<Rightarrow> LAPDmFrame" where
  "makeIFrame s c n ns p m d =
     frame0\<lparr>address := \<lparr>sapi = s, command = c, ea = True\<rparr>, format := I_Format,
            iCtrl := mkIControl n ns p, moreBit := m, info := d\<rparr>"

definition makeRRFrame :: "SAPI \<Rightarrow> u8 \<Rightarrow> bool \<Rightarrow> LAPDmFrame" where
  "makeRRFrame s n p =
     frame0\<lparr>address := \<lparr>sapi = s, command = False, ea = True\<rparr>, format := S_Format,
            nr := n AND 0x07, pf := p, sType := RR\<rparr>"

definition makeRNRFrame :: "SAPI \<Rightarrow> u8 \<Rightarrow> bool \<Rightarrow> LAPDmFrame" where
  "makeRNRFrame s n p =
     frame0\<lparr>address := \<lparr>sapi = s, command = False, ea = True\<rparr>, format := S_Format,
            nr := n AND 0x07, pf := p, sType := RNR\<rparr>"

definition makeREJFrame :: "SAPI \<Rightarrow> u8 \<Rightarrow> bool \<Rightarrow> LAPDmFrame" where
  "makeREJFrame s n p =
     frame0\<lparr>address := \<lparr>sapi = s, command = False, ea = True\<rparr>, format := S_Format,
            nr := n AND 0x07, pf := p, sType := REJ\<rparr>"

section \<open>Octet round trips\<close>

lemma addr_decode_encode:
  assumes "sapi a = SAPI0 \<or> sapi a = SAPI3"
  shows "addr_decode (addr_encode a) = a"
proof -
  have "drop_bit 2 (addr_encode a) AND 7 = u8_of_SAPI (sapi a)"
    using assms by (auto simp: addr_encode_def octet_bits)
  moreover have "addr_encode a AND 2 \<noteq> 0 \<longleftrightarrow> command a" "addr_encode a AND 1 \<noteq> 0 \<longleftrightarrow> ea a"
    by (auto simp: addr_encode_def octet_bits)
  ultimately show ?thesis
    using assms by (auto simp: addr_decode_def SAPI_of_u8_def)
qed

lemma addr_encode_decode: "b AND 0xE0 = 0 \<Longrightarrow> addr_encode (addr_decode b) = b"
  by (auto simp: addr_encode_def addr_decode_def octet_bits)

lemma addr_encode_guards:
  "addr_encode a AND 0xE0 = 0"
  "addr_encode a AND 1 = 0 \<longleftrightarrow> \<not> ea a"
  "drop_bit 2 (addr_encode a) AND 7 = u8_of_SAPI (sapi a) AND 7"
  by (auto simp: addr_encode_def octet_bits)

lemma i_decode_encode: "i_decode (i_encode c) = mkIControl (ic_nr c) (ic_ns c) (ic_pf c)"
  by (auto simp: i_decode_def i_encode_def mkIControl_def octet_bits)

lemma i_encode_decode: "b AND 1 = 0 \<Longrightarrow> i_encode (i_decode b) = b"
  by (auto simp: i_decode_def i_encode_def mkIControl_def octet_bits)

lemma i_encode_low: "i_encode c AND 3 = 0 \<or> i_encode c AND 3 = 2"
  by (auto simp: i_encode_def octet_bits)

lemma SType_of_u8_of_SType [simp]: "SType_of_u8 (u8_of_SType t) = t"
  by (cases t) (simp_all add: SType_of_u8_def u8_of_SType_def)

lemma u8_of_SType_and_3 [simp]: "u8_of_SType t AND 3 = u8_of_SType t"
  by (cases t) (simp_all add: u8_of_SType_def)

lemma s_decode_encode: "s_decode (s_encode c) = mkSControl (sc_nr c) (sc_type c) (sc_pf c)"
proof -
  have "drop_bit 2 (s_encode c) AND 3 = u8_of_SType (sc_type c)"
    by (cases "sc_type c") (auto simp: s_encode_def u8_of_SType_def octet_bits)
  moreover have "drop_bit 5 (s_encode c) AND 7 = sc_nr c AND 7"
    by (cases "sc_type c") (auto simp: s_encode_def u8_of_SType_def octet_bits)
  moreover have "s_encode c AND 0x10 \<noteq> 0 \<longleftrightarrow> sc_pf c"
    by (cases "sc_type c") (auto simp: s_encode_def u8_of_SType_def octet_bits)
  ultimately show ?thesis by (simp add: s_decode_def mkSControl_def)
qed

lemma u8_of_SType_of_u8: "v AND 3 = v \<Longrightarrow> u8_of_SType (SType_of_u8 v) = v"
  by (auto simp: SType_of_u8_def u8_of_SType_def octet_bits)

lemma s_encode_decode: "b AND 3 = 1 \<Longrightarrow> s_encode (s_decode b) = b"
proof -
  assume low: "b AND 3 = 1"
  have "u8_of_SType (SType_of_u8 (drop_bit 2 b AND 3)) = drop_bit 2 b AND 3"
    by (rule u8_of_SType_of_u8) (simp add: and.assoc)
  then show ?thesis
    using low by (auto simp: s_encode_def s_decode_def mkSControl_def octet_bits)
qed

lemma s_encode_low: "s_encode c AND 3 = 1"
  by (cases "sc_type c") (auto simp: s_encode_def u8_of_SType_def octet_bits)

lemma len_decode_encode: "len_decode (len_encode f) = mkLength (lf_more f) (lf_length f)"
  by (auto simp: len_decode_def len_encode_def mkLength_def octet_bits)

lemma len_encode_decode: "b AND 1 \<noteq> 0 \<Longrightarrow> len_encode (len_decode b) = b"
  by (auto simp: len_decode_def len_encode_def mkLength_def octet_bits)

lemma len_encode_fixed: "len_encode f AND 1 = 1"
  by (auto simp: len_encode_def octet_bits)

lemma matchUControl_uFrame:
  "matchUControl (uFrameControlByte t p) = Some (2 * uTypeIndex t + (if p then 1 else 0))"
  by (cases t; cases p) (simp_all add: matchUControl_def uFrameControlByte_def kUControl_def)

lemma uFrameControlByte_low: "uFrameControlByte t p AND 3 = 3"
  by (cases t; cases p) (simp_all add: uFrameControlByte_def kUControl_def)

lemma uTypes_index [simp]: "uTypes ! uTypeIndex t = t"
  by (cases t) (simp_all add: uTypes_def)

lemma scanRow_Some: "scanRow c k xs = Some m \<Longrightarrow> k \<le> m \<and> m < k + length xs \<and> xs ! (m - k) = c"
proof (induction xs arbitrary: k)
  case (Cons x xs)
  show ?case
  proof (cases "x = c")
    case False
    then have "Suc k \<le> m \<and> m < Suc k + length xs \<and> xs ! (m - Suc k) = c"
      using Cons.IH [of "Suc k"] Cons.prems by simp
    then show ?thesis by (auto simp: nth_Cons')
  qed (use Cons in auto)
qed simp

lemma matchUControl_sound:
  assumes "matchUControl c = Some m"
  shows "uFrameControlByte (uTypes ! (m div 2)) (m mod 2 \<noteq> 0) = c"
proof -
  have m: "m < 10" "concat kUControl ! m = c"
    using scanRow_Some [of c 0 "concat kUControl" m] assms
    by (auto simp: matchUControl_def kUControl_def)
  then have "m \<in> {0, 1, 2, 3, 4, 5, 6, 7, 8, 9}" by auto
  then show ?thesis
    using m by (auto simp: uFrameControlByte_def uTypes_def kUControl_def)
qed

section \<open>The encoders\<close>

lemma length_frameOctets: "length (frameOctets f) = encodedFrameSize f"
  by (simp add: frameOctets_def encodedFrameSize_def)

lemma encodeFrame_eq: "encodeFrame f = frameOctets f"
  by (simp add: encodeFrame_def encodeFrameToBuffer_def length_frameOctets)

text \<open>
  \<open>frame_ok\<close> describes the frames the link layer sends: a defined SAPI, EA set, at most the
  information octets the six length bits can express, and the fields another format uses left
  at their defaults.
\<close>

definition frame_ok :: "LAPDmFrame \<Rightarrow> bool" where
  "frame_ok f \<longleftrightarrow>
     (sapi (address f) = SAPI0 \<or> sapi (address f) = SAPI3) \<and> ea (address f) \<and>
     length (info f) \<le> 63 \<and>
     (case format f of
        I_Format \<Rightarrow>
          iCtrl f = mkIControl (ic_nr (iCtrl f)) (ic_ns (iCtrl f)) (ic_pf (iCtrl f)) \<and>
          nr f = 0 \<and> sType f = RR \<and> uType f = UI \<and> \<not> pf f
      | S_Format \<Rightarrow>
          iCtrl f = iCtrl frame0 \<and> nr f AND 7 = nr f \<and> uType f = UI \<and> \<not> moreBit f \<and> info f = []
      | U_Format \<Rightarrow>
          iCtrl f = iCtrl frame0 \<and> nr f = 0 \<and> sType f = RR \<and>
          (uType f = DM \<or> uType f = DISC \<longrightarrow> info f = []))"

lemma len_octet_of_nat:
  "n \<le> 63 \<Longrightarrow> unat (word_of_nat n AND 63 :: u8) = n"
proof -
  assume n: "n \<le> 63"
  have "(word_of_nat n AND 63 :: u8) = take_bit 6 (word_of_nat n)"
    by (simp add: take_bit_eq_mask mask_eq_exp_minus_1)
  then have "unat (word_of_nat n AND 63 :: u8) = take_bit 6 (take_bit 8 n)"
    by (simp add: unsigned_take_bit_eq unsigned_of_nat)
  also have "\<dots> = n" using n by (simp add: take_bit_nat_eq_self)
  finally show ?thesis .
qed

lemma decode_octets:
  "decode (b0 # ctrl # b2 # rest) =
     (if b0 AND 0xE0 \<noteq> 0 then perr InvalidValue ''Non-GSM service access point''
      else if b0 AND 0x01 = 0 then perr InvalidValue ''LAPDm EA bit not set''
      else if b2 AND 0x01 = 0 then perr InvalidValue ''LAPDm header octet fixed bit not set''
      else let addr = addr_decode b0; raw = drop_bit 2 b0 AND 0x07;
               len = len_decode b2; n = unat (lf_length len);
               frame = frame0\<lparr>address := if raw \<noteq> 0 \<and> raw \<noteq> 3 then addr\<lparr>sapi := SAPI_Undefined\<rparr> else addr,
                              moreBit := lf_more len, info := rest\<rparr>
      in if length rest < n
         then perr TruncatedInput ''LAPDm info field shorter than declared length''
      else if length rest > n then perr InvalidValue ''LAPDm frame has trailing bytes''
      else if ctrl AND 0x03 = 0 \<or> ctrl AND 0x03 = 2
         then Inr (frame\<lparr>format := I_Format, iCtrl := i_decode ctrl\<rparr>)
      else if ctrl AND 0x03 = 1
         then (if b2 \<noteq> 0x01 then perr InvalidValue ''S-frame must have an empty header octet''
               else Inr (frame\<lparr>format := S_Format, nr := sc_nr (s_decode ctrl),
                           sType := sc_type (s_decode ctrl), pf := sc_pf (s_decode ctrl)\<rparr>))
      else (case matchUControl ctrl of
              None \<Rightarrow> perr InvalidValue ''Unknown U-frame control octet''
            | Some m \<Rightarrow>
                if (uTypes ! (m div 2) = DM \<or> uTypes ! (m div 2) = DISC) \<and> lf_length len \<noteq> 0
                then perr InvalidValue ''DM/DISC frames carry no info field''
                else Inr (frame\<lparr>format := U_Format, uType := uTypes ! (m div 2),
                                pf := (m mod 2 \<noteq> 0)\<rparr>)))"
  by (auto simp: decode_def Let_def split: option.split)

lemma decode_short: "length bs < 3 \<Longrightarrow> decode bs = perr TruncatedInput ''LAPDm frame too short''"
  by (simp add: decode_def)

text \<open>The address octet of a frame with a defined SAPI passes every guard of the decoder.\<close>

lemma decode_info_frame:
  assumes "sapi (address f) = SAPI0 \<or> sapi (address f) = SAPI3" "ea (address f)"
    and "length (info f) \<le> 63"
  shows "decode (addr_encode (address f) # ctrl
                 # len_encode (mkLength (moreBit f) (word_of_nat (length (info f)))) # info f) =
     (let frame = frame0\<lparr>address := address f, moreBit := moreBit f, info := info f\<rparr>;
          b2 = len_encode (mkLength (moreBit f) (word_of_nat (length (info f))))
      in if ctrl AND 0x03 = 0 \<or> ctrl AND 0x03 = 2
         then Inr (frame\<lparr>format := I_Format, iCtrl := i_decode ctrl\<rparr>)
      else if ctrl AND 0x03 = 1
         then (if b2 \<noteq> 0x01 then perr InvalidValue ''S-frame must have an empty header octet''
               else Inr (frame\<lparr>format := S_Format, nr := sc_nr (s_decode ctrl),
                           sType := sc_type (s_decode ctrl), pf := sc_pf (s_decode ctrl)\<rparr>))
      else (case matchUControl ctrl of
              None \<Rightarrow> perr InvalidValue ''Unknown U-frame control octet''
            | Some m \<Rightarrow>
                if (uTypes ! (m div 2) = DM \<or> uTypes ! (m div 2) = DISC) \<and> info f \<noteq> []
                then perr InvalidValue ''DM/DISC frames carry no info field''
                else Inr (frame\<lparr>format := U_Format, uType := uTypes ! (m div 2),
                                pf := (m mod 2 \<noteq> 0)\<rparr>)))"
proof -
  have raw: "drop_bit 2 (addr_encode (address f)) AND 7 = u8_of_SAPI (sapi (address f))"
    using assms(1) by (auto simp: addr_encode_guards)
  have len: "unat (lf_length (len_decode (len_encode
               (mkLength (moreBit f) (word_of_nat (length (info f))))))) = length (info f)"
    using assms(3) by (simp add: len_decode_encode) (simp add: mkLength_def len_octet_of_nat)
  have zero: "lf_length (len_decode (len_encode
               (mkLength (moreBit f) (word_of_nat (length (info f)))))) = 0 \<longleftrightarrow> info f = []"
    using len by (metis length_0_conv unat_eq_0)
  have m: "lf_more (len_decode (len_encode
               (mkLength (moreBit f) (word_of_nat (length (info f)))))) = moreBit f"
    by (simp add: len_decode_encode) (simp add: mkLength_def)
  show ?thesis
    unfolding decode_octets Let_def len zero m
    using assms raw
    by (auto simp: addr_encode_guards len_encode_fixed addr_decode_encode split: option.split)
qed

lemma decode_frameOctets:
  assumes ok: "frame_ok f"
  shows "decode (frameOctets f) = Inr f"
proof -
  have g: "sapi (address f) = SAPI0 \<or> sapi (address f) = SAPI3" "ea (address f)"
    "length (info f) \<le> 63"
    using ok by (auto simp: frame_ok_def)
  show ?thesis
  proof (cases "format f")
    case I_Format
    then show ?thesis
      using ok i_encode_low [of "iCtrl f"]
      by (auto simp: frameOctets_def decode_info_frame [OF g] frame_ok_def i_decode_encode
          frame0_def Let_def)
  next
    case S_Format
    then have "len_encode (mkLength (moreBit f) (word_of_nat (length (info f)))) = 1"
      using ok by (simp add: frame_ok_def mkLength_def len_encode_def)
    then show ?thesis
      using S_Format ok decode_info_frame [OF g]
      by (auto simp: frameOctets_def frame_ok_def s_encode_low s_decode_encode frame0_def
          mkSControl_def Let_def)
  next
    case U_Format
    then show ?thesis
      using ok
      by (auto simp: frameOctets_def decode_info_frame [OF g] frame_ok_def uFrameControlByte_low
          matchUControl_uFrame frame0_def Let_def)
  qed
qed

lemma unat_and_63_bound: "unat (x AND 63 :: u8) \<le> 63"
proof -
  have "x AND 63 = take_bit 6 x" by (simp add: take_bit_eq_mask mask_eq_exp_minus_1)
  then have "unat (x AND 63) = take_bit 6 (unat x)" by (simp only: unsigned_take_bit_eq)
  also have "\<dots> < 2 ^ 6" by (rule take_bit_nat_less_exp)
  finally show ?thesis by simp
qed

text \<open>What the guards common to the three formats establish about an accepted frame.\<close>

lemma decode_common:
  assumes dec: "decode bs = Inr f" and known: "sapi (address f) \<noteq> SAPI_Undefined"
  obtains b0 ctrl b2 where "bs = b0 # ctrl # b2 # info f" "addr_encode (address f) = b0"
    "sapi (address f) = SAPI0 \<or> sapi (address f) = SAPI3" "ea (address f)"
    "length (info f) \<le> 63"
    "len_encode (mkLength (moreBit f) (word_of_nat (length (info f)))) = b2"
    "moreBit f = lf_more (len_decode b2)" "length (info f) = unat (lf_length (len_decode b2))"
proof -
  have "\<not> length bs < 3" using dec by (auto simp: decode_short)
  then obtain b0 ctrl b2 rest where bs: "bs = b0 # ctrl # b2 # rest"
    by (cases bs rule: remdups_adj.cases; cases "tl (tl bs)") (auto simp: not_less)
  note d = dec [unfolded bs decode_octets Let_def]
  have i: "info f = rest" and m: "moreBit f = lf_more (len_decode b2)"
    and l: "length rest = unat (lf_length (len_decode b2))"
    and g: "b0 AND 0xE0 = 0" "b0 AND 1 \<noteq> 0" "b2 AND 1 \<noteq> 0"
    and a: "address f = (if drop_bit 2 b0 AND 7 \<noteq> 0 \<and> drop_bit 2 b0 AND 7 \<noteq> 3
                         then (addr_decode b0)\<lparr>sapi := SAPI_Undefined\<rparr> else addr_decode b0)"
    using d by (auto split: if_splits option.splits)
  have raw: "drop_bit 2 b0 AND 7 = 0 \<or> drop_bit 2 b0 AND 7 = 3"
    using a known by (auto split: if_splits)
  then have addr: "address f = addr_decode b0" using a by auto
  have sp: "sapi (address f) = SAPI0 \<or> sapi (address f) = SAPI3" and e: "ea (address f)"
    using raw g by (auto simp: addr addr_decode_def SAPI_of_u8_def)
  have le: "length rest \<le> 63"
    using l unat_and_63_bound by (simp add: len_decode_def mkLength_def and.assoc)
  have "mkLength (moreBit f) (word_of_nat (length rest)) = len_decode b2"
    by (simp add: l m) (simp add: len_decode_def mkLength_def and.assoc)
  then have "len_encode (mkLength (moreBit f) (word_of_nat (length rest))) = b2"
    by (simp add: len_encode_decode g)
  then show ?thesis
    using that [of b0 ctrl b2] bs i m l sp e le addr addr_encode_decode [OF g(1)] by simp
qed

lemma low_bits_cases:
  "(c AND 3 = 0 \<or> c AND 3 = 2) \<or> c AND 3 = 1 \<or> c AND 3 = (3 :: u8)"
  by (auto simp: octet_bits)

lemma low_bits_even: "c AND 3 = 0 \<or> c AND 3 = 2 \<Longrightarrow> c AND 1 = (0 :: u8)"
  by (auto simp: octet_bits)

lemma mkIControl_i_decode [simp]:
  "mkIControl (ic_nr (i_decode c)) (ic_ns (i_decode c)) (ic_pf (i_decode c)) = i_decode c"
  by (simp add: i_decode_def mkIControl_def and.assoc)

lemma mkSControl_s_decode [simp]:
  "mkSControl (sc_nr (s_decode c)) (sc_type (s_decode c)) (sc_pf (s_decode c)) = s_decode c"
  "sc_nr (s_decode c) AND 7 = sc_nr (s_decode c)"
  by (simp_all add: s_decode_def mkSControl_def and.assoc)

lemma frameOctets_decode:
  assumes dec: "decode bs = Inr f" and known: "sapi (address f) \<noteq> SAPI_Undefined"
  shows "frame_ok f \<and> frameOctets f = bs"
proof -
  obtain b0 ctrl b2 where bs: "bs = b0 # ctrl # b2 # info f" and a: "addr_encode (address f) = b0"
    and s: "sapi (address f) = SAPI0 \<or> sapi (address f) = SAPI3" "ea (address f)"
    and i: "length (info f) \<le> 63"
    and l: "len_encode (mkLength (moreBit f) (word_of_nat (length (info f)))) = b2"
    and m: "moreBit f = lf_more (len_decode b2)" "length (info f) = unat (lf_length (len_decode b2))"
    using decode_common [OF assms] .
  define rest where "rest = info f"
  note d = dec [unfolded bs decode_octets Let_def, folded rest_def]
  consider "ctrl AND 3 = 0 \<or> ctrl AND 3 = 2" | "ctrl AND 3 = 1" | "ctrl AND 3 = 3"
    using low_bits_cases by blast
  then show ?thesis
  proof cases
    case 1
    then have "format f = I_Format" "iCtrl f = i_decode ctrl" "nr f = 0" "sType f = RR"
      "uType f = UI" "\<not> pf f"
      using d by (auto simp: frame0_def split: if_splits)
    then show ?thesis
      using bs a s i l i_encode_decode [OF low_bits_even [OF 1]]
      by (simp add: frame_ok_def frameOctets_def)
  next
    case 2
    then have "format f = S_Format" "iCtrl f = iCtrl frame0" "nr f = sc_nr (s_decode ctrl)"
      "sType f = sc_type (s_decode ctrl)" "uType f = UI" "pf f = sc_pf (s_decode ctrl)" "b2 = 1"
      using d by (auto simp: frame0_def split: if_splits)
    moreover from \<open>b2 = 1\<close> have "\<not> moreBit f" "info f = []"
      using m by (auto simp: len_decode_def mkLength_def)
    ultimately show ?thesis
      using bs a s i s_encode_decode [OF 2] by (simp add: frame_ok_def frameOctets_def)
  next
    case 3
    then obtain k where k: "matchUControl ctrl = Some k"
      using d by (auto split: if_splits option.splits)
    have "format f = U_Format" "iCtrl f = iCtrl frame0" "nr f = 0" "sType f = RR"
      "uType f = uTypes ! (k div 2)" "pf f = (k mod 2 \<noteq> 0)"
      "uType f = DM \<or> uType f = DISC \<longrightarrow> lf_length (len_decode b2) = 0"
      using d 3 k by (auto simp: frame0_def split: if_splits)
    then show ?thesis
      using bs a s i l m matchUControl_sound [OF k] by (auto simp: frame_ok_def frameOctets_def)
  qed
qed

section \<open>Properties of the codec\<close>

text \<open>
  The contract of a frame codec as the link entity uses it: among the frames whose service
  access point is defined, the decoder accepts exactly the encodings of well-formed frames.
\<close>

locale frame_codec =
  fixes enc :: "'f \<Rightarrow> bytes" and dec :: "bytes \<Rightarrow> 'f Expected"
    and ok :: "'f \<Rightarrow> bool" and known :: "'f \<Rightarrow> bool"
  assumes dec_iff: "dec bs = Inr f \<and> known f \<longleftrightarrow> ok f \<and> bs = enc f"
begin

lemma dec_enc: "ok f \<Longrightarrow> dec (enc f) = Inr f"
  by (simp add: dec_iff [of "enc f" f, THEN iffD2, THEN conjunct1])

lemma enc_inj: "ok f \<Longrightarrow> ok g \<Longrightarrow> enc f = enc g \<Longrightarrow> f = g"
  by (drule arg_cong [of "enc f" "enc g" dec]) (simp add: dec_enc)

lemma accepted_unique: "dec bs = Inr f \<Longrightarrow> known f \<Longrightarrow> dec bs' = Inr f \<Longrightarrow> bs = bs'"
  using dec_iff [of bs f] dec_iff [of bs' f] by simp

end

lemma decode_iff:
  "decode bs = Inr f \<and> sapi (address f) \<noteq> SAPI_Undefined \<longleftrightarrow> frame_ok f \<and> bs = encodeFrame f"
proof
  assume "decode bs = Inr f \<and> sapi (address f) \<noteq> SAPI_Undefined"
  then show "frame_ok f \<and> bs = encodeFrame f"
    using frameOctets_decode by (auto simp: encodeFrame_eq)
next
  assume ok: "frame_ok f \<and> bs = encodeFrame f"
  then have "sapi (address f) \<noteq> SAPI_Undefined" by (auto simp: frame_ok_def)
  then show "decode bs = Inr f \<and> sapi (address f) \<noteq> SAPI_Undefined"
    using ok by (simp add: encodeFrame_eq decode_frameOctets)
qed

interpretation lapdm: frame_codec encodeFrame decode frame_ok "\<lambda>f. sapi (address f) \<noteq> SAPI_Undefined"
  by unfold_locales (rule decode_iff)

text \<open>
  C1. The frame codec is lossless and canonical: an octet string decodes to a frame with a
  defined SAPI exactly when that frame is well formed and the string is its encoding. Hence
  every well-formed frame survives encoding and decoding, and no two octet strings decode to
  the same frame.
\<close>

theorem codec_bijective:
  "(decode bs = Inr f \<and> sapi (address f) \<noteq> SAPI_Undefined) = (frame_ok f \<and> bs = encodeFrame f)"
  by (rule lapdm.dec_iff)

text \<open>
  C2. A frame whose information field has more octets than the six length bits can express
  (64 or more) is never accepted by the decoder: the encoder truncates the length modulo 64
  without an error, and the peer rejects the frame as carrying trailing octets.
\<close>

theorem oversized_frame_rejected:
  assumes "format f \<noteq> S_Format" and "64 \<le> length (info f)"
  shows "\<exists>e. decode (encodeFrame f) = Inl e \<and> code e = InvalidValue"
proof -
  obtain c b2 where oct: "encodeFrame f = addr_encode (address f) # c # b2 # info f"
    and b2: "b2 = len_encode (mkLength (moreBit f) (word_of_nat (length (info f))))"
    using assms(1) by (auto simp: encodeFrame_eq frameOctets_def)
  have "unat (lf_length (len_decode b2)) \<le> 63"
    using unat_and_63_bound by (simp add: len_decode_def mkLength_def and.assoc)
  then have "unat (lf_length (len_decode b2)) < length (info f)" using assms(2) by simp
  then show ?thesis
    by (auto simp: oct decode_octets Let_def addr_encode_guards b2 len_encode_fixed perr_def)
qed

theorem oversized_frame_rejected_witness:
  "\<exists>e. decode (encodeFrame (makeUIFrame SAPI0 True (replicate 70 0x2B))) = Inl e
       \<and> code e = InvalidValue"
  by (rule oversized_frame_rejected) (simp_all add: makeUIFrame_def)

text \<open>
  The buffer encoder writes all of a frame or nothing: with fewer octets than the frame
  needs it reports 0 and leaves the buffer as it was, otherwise it stores exactly the octets
  of \<open>encodeFrame\<close> at the front, reports their number, and leaves the rest of the buffer alone.
\<close>

lemma encodeFrameToBuffer_spec:
  "encodeFrameToBuffer f out =
     (if length out < length (encodeFrame f) then (0, out)
      else (length (encodeFrame f), encodeFrame f @ drop (length (encodeFrame f)) out))"
  by (simp add: encodeFrameToBuffer_def encodeFrame_eq length_frameOctets)

section \<open>The frame factories build well-formed frames\<close>

lemmas make_frame_defs =
  makeUIFrame_def makeSABMEFrame_def makeUAFrame_def makeDMFrame_def makeDISCFrame_def
  makeIFrame_def makeRRFrame_def makeRNRFrame_def makeREJFrame_def

lemma make_frames_ok:
  assumes "s = SAPI0 \<or> s = SAPI3"
  shows "length d \<le> 63 \<Longrightarrow> frame_ok (makeUIFrame s c d)"
    and "length d \<le> 63 \<Longrightarrow> frame_ok (makeSABMEFrame s c d)"
    and "length d \<le> 63 \<Longrightarrow> frame_ok (makeUAFrame s p d)"
    and "frame_ok (makeDMFrame s p)"
    and "frame_ok (makeDISCFrame s c)"
    and "length d \<le> 63 \<Longrightarrow> frame_ok (makeIFrame s c n ns p m d)"
    and "frame_ok (makeRRFrame s n p)"
    and "frame_ok (makeRNRFrame s n p)"
    and "frame_ok (makeREJFrame s n p)"
  using assms by (auto simp: make_frame_defs frame_ok_def frame0_def mkIControl_def)

lemmas decode_make_frame = make_frames_ok [THEN lapdm.dec_enc]

end
