(* ===== verification/Lapdm_Entity.thy ===== *)
theory Lapdm_Entity
  imports Lapdm_Frame
begin

text \<open>
  The LAPDm link entity: \<^verbatim>\<open>lapdm_entity.h\<close> and \<^verbatim>\<open>lapdm_entity.cpp\<close>. The record has the members of
  the class; every member function is a state transformer. The two callbacks of the entity are
  its only output: \<open>outputs\<close> is the sequence of calls made so far, frames handed to L1 and
  primitives handed to L3, in order. A callback does not call back into the entity.
\<close>

section \<open>State\<close>

datatype LAPDmState =
    Unused
  | LinkReleased
  | AwaitingEstablish
  | AwaitingRelease
  | LinkEstablished
  | ContentionResolution

datatype PendingKind = PendingNone | PendingIFrame | PendingSabme | PendingDisc

record LAPDmChannelProfile =
  n201 :: nat
  n200 :: u32
  t200Ms :: u32

definition profile_SDCCH :: LAPDmChannelProfile where
  "profile_SDCCH = \<lparr>n201 = 20, n200 = 23, t200Ms = 900\<rparr>"

definition profile_SACCH :: LAPDmChannelProfile where
  "profile_SACCH = \<lparr>n201 = 18, n200 = 5, t200Ms = 3600\<rparr>"

definition profile_FACCH :: LAPDmChannelProfile where
  "profile_FACCH = \<lparr>n201 = 20, n200 = 34, t200Ms = 900\<rparr>"

definition profile_FACCH_LM :: LAPDmChannelProfile where
  "profile_FACCH_LM = \<lparr>n201 = 20, n200 = 29, t200Ms = 900\<rparr>"

text \<open>One call of a callback: a frame for the physical layer or a primitive for layer 3.\<close>

datatype Output = L1_tx bytes | L3_rx SAPI Primitive bytes

text \<open>\<open>mL3Callback\<close> and \<open>mL1Callback\<close> say whether the callback pointer is set.\<close>

record LAPDmEntity =
  mProfile :: LAPDmChannelProfile
  mL3Callback :: bool
  mL1Callback :: bool
  mState :: LAPDmState
  mSapi :: SAPI
  mCommandBit :: bool
  mEstablishmentInProgress :: bool
  mVS :: u8
  mVA :: u8
  mVR :: u8
  mPending :: PendingKind
  mPendingNs :: u8
  mPendingMore :: bool
  mPendingInfo :: bytes
  mRC :: u32
  mT200Active :: bool
  mT200RemainingMs :: u32
  mReassemblyBuffer :: bytes
  mTxBuf :: bytes
  mTxQueue :: bytes
  mTxMsgEnds :: "nat list"
  mTxMsgIdx :: nat
  mTxQueuePos :: nat
  mContentionChecksum :: u32
  mFramesSent :: u32
  mFramesReceived :: u32
  mRetransmissions :: u32
  outputs :: "Output list"

definition mkLAPDmEntity :: "LAPDmChannelProfile \<Rightarrow> bool \<Rightarrow> bool \<Rightarrow> LAPDmEntity" where
  "mkLAPDmEntity p l3 l1 =
     \<lparr>mProfile = p, mL3Callback = l3, mL1Callback = l1, mState = Unused, mSapi = SAPI0,
      mCommandBit = True, mEstablishmentInProgress = False, mVS = 0, mVA = 0, mVR = 0,
      mPending = PendingNone, mPendingNs = 0, mPendingMore = False, mPendingInfo = [], mRC = 0,
      mT200Active = False, mT200RemainingMs = 0, mReassemblyBuffer = [], mTxBuf = [],
      mTxQueue = [], mTxMsgEnds = [], mTxMsgIdx = 0, mTxQueuePos = 0, mContentionChecksum = 0,
      mFramesSent = 0, mFramesReceived = 0, mRetransmissions = 0, outputs = []\<rparr>"

definition kMaxReassemblyBytes :: nat where
  "kMaxReassemblyBytes = 4096"

section \<open>Internal helpers\<close>

definition encodeToTxBuf :: "LAPDmFrame \<Rightarrow> LAPDmEntity \<Rightarrow> bytes \<times> LAPDmEntity" where
  "encodeToTxBuf f e =
     (let needed = 3 + length (info f);
          buf = (if length (mTxBuf e) < needed
                 then mTxBuf e @ replicate (needed - length (mTxBuf e)) 0 else mTxBuf e);
          (n, buf') = encodeFrameToBuffer f buf
      in (take n buf', e\<lparr>mTxBuf := buf'\<rparr>))"

definition sendFrame :: "bytes \<Rightarrow> LAPDmEntity \<Rightarrow> LAPDmEntity" where
  "sendFrame bs e =
     (let e' = (if mL1Callback e then e\<lparr>outputs := outputs e @ [L1_tx bs]\<rparr> else e)
      in e'\<lparr>mFramesSent := mFramesSent e' + 1\<rparr>)"

definition deliverL3 :: "Primitive \<Rightarrow> bytes \<Rightarrow> LAPDmEntity \<Rightarrow> LAPDmEntity" where
  "deliverL3 prim d e =
     (if mL3Callback e then e\<lparr>outputs := outputs e @ [L3_rx (mSapi e) prim d]\<rparr> else e)"

definition saveForRetransmission :: "PendingKind \<Rightarrow> bytes \<Rightarrow> LAPDmEntity \<Rightarrow> LAPDmEntity" where
  "saveForRetransmission kind bs e =
     (let e1 = sendFrame bs (e\<lparr>mPending := kind, mRC := 0\<rparr>)
      in e1\<lparr>mT200Active := True, mT200RemainingMs := t200Ms (mProfile e1)\<rparr>)"

text \<open>Encoding a frame into the transmit buffer and handing it to L1 is one idiom of the code.\<close>

definition emit :: "LAPDmFrame \<Rightarrow> LAPDmEntity \<Rightarrow> LAPDmEntity" where
  "emit f e = (let (bs, e') = encodeToTxBuf f e in sendFrame bs e')"

definition retransmitPending :: "LAPDmEntity \<Rightarrow> LAPDmEntity" where
  "retransmitPending e =
     (case mPending e of
        PendingIFrame \<Rightarrow>
          emit (makeIFrame (mSapi e) (mCommandBit e) (mVR e) (mPendingNs e) True (mPendingMore e)
                  (mPendingInfo e)) e
      | PendingSabme \<Rightarrow> emit (makeSABMEFrame (mSapi e) (mCommandBit e) (mPendingInfo e)) e
      | PendingDisc \<Rightarrow> emit (makeDISCFrame (mSapi e) (mCommandBit e)) e
      | PendingNone \<Rightarrow> e)"

definition clearCounters :: "LAPDmEntity \<Rightarrow> LAPDmEntity" where
  "clearCounters e =
     e\<lparr>mVS := 0, mVA := 0, mVR := 0, mRC := 0, mT200Active := False, mT200RemainingMs := 0,
       mReassemblyBuffer := [], mTxQueue := [], mTxMsgEnds := [], mTxQueuePos := 0,
       mTxMsgIdx := 0, mPending := PendingNone, mPendingInfo := []\<rparr>"

definition transitionTo :: "LAPDmState \<Rightarrow> LAPDmEntity \<Rightarrow> LAPDmEntity" where
  "transitionTo s e = e\<lparr>mState := s\<rparr>"

definition sendUA :: "bool \<Rightarrow> LAPDmEntity \<Rightarrow> LAPDmEntity" where
  "sendUA p e = emit (makeUAFrame (mSapi e) p []) e"

definition sendUAWithEcho :: "bytes \<Rightarrow> bool \<Rightarrow> LAPDmEntity \<Rightarrow> LAPDmEntity" where
  "sendUAWithEcho d p e = emit (makeUAFrame (mSapi e) p d) e"

definition sendDM :: "bool \<Rightarrow> LAPDmEntity \<Rightarrow> LAPDmEntity" where
  "sendDM p e = emit (makeDMFrame (mSapi e) p) e"

definition sendRR :: "bool \<Rightarrow> LAPDmEntity \<Rightarrow> LAPDmEntity" where
  "sendRR p e = emit (makeRRFrame (mSapi e) (mVR e) p) e"

definition sendREJ :: "bool \<Rightarrow> LAPDmEntity \<Rightarrow> LAPDmEntity" where
  "sendREJ p e = emit (makeREJFrame (mSapi e) (mVR e) p) e"

definition abnormalRelease :: "bool \<Rightarrow> LAPDmEntity \<Rightarrow> LAPDmEntity" where
  "abnormalRelease dm e =
     (let e1 = (if dm then sendDM True e else e);
          e2 = (clearCounters e1)\<lparr>mEstablishmentInProgress := False\<rparr>;
          e3 = transitionTo (if dm then Unused else LinkReleased) e2
      in deliverL3 MDL_ERROR_INDICATION [] e3)"

definition buildIFrame :: "bytes \<Rightarrow> bool \<Rightarrow> LAPDmEntity \<Rightarrow> LAPDmEntity" where
  "buildIFrame payload m e =
     (let ns = mVS e; n = mVR e;
          e1 = e\<lparr>mVS := (mVS e + 1) AND 0x07, mPendingNs := ns, mPendingMore := m,
                 mPendingInfo := payload\<rparr>;
          (bs, e2) = encodeToTxBuf (makeIFrame (mSapi e1) (mCommandBit e1) n ns False m payload) e1
      in saveForRetransmission PendingIFrame bs e2)"

text \<open>The bookkeeping after a segment of \<open>chunkSize\<close> octets has gone out.\<close>

definition advanceQueue :: "nat \<Rightarrow> nat \<Rightarrow> LAPDmEntity \<Rightarrow> LAPDmEntity" where
  "advanceQueue chunkSize msgEnd e =
     (let pos = mTxQueuePos e + chunkSize; idx = mTxMsgIdx e + 1
      in if pos \<ge> msgEnd
         then (if idx \<ge> length (mTxMsgEnds e)
               then e\<lparr>mTxQueue := [], mTxMsgEnds := [], mTxQueuePos := 0, mTxMsgIdx := 0\<rparr>
               else e\<lparr>mTxQueuePos := pos, mTxMsgIdx := idx\<rparr>)
         else e\<lparr>mTxQueuePos := pos\<rparr>)"

definition trySendNextSegment :: "LAPDmEntity \<Rightarrow> LAPDmEntity" where
  "trySendNextSegment e =
     (if mVS e \<noteq> mVA e then e
      else if mTxMsgIdx e \<ge> length (mTxMsgEnds e) then e
      else let msgEnd = mTxMsgEnds e ! mTxMsgIdx e;
               remaining = msgEnd - mTxQueuePos e;
               chunkSize = min remaining (n201 (mProfile e));
               m = (remaining > n201 (mProfile e))
           in advanceQueue chunkSize msgEnd
                (buildIFrame (take chunkSize (drop (mTxQueuePos e) (mTxQueue e))) m e))"

definition processAck :: "u8 \<Rightarrow> LAPDmEntity \<Rightarrow> LAPDmEntity" where
  "processAck n e =
     (let e1 = e\<lparr>mVA := n AND 0x07\<rparr>
      in if mVA e1 = mVS e1 then trySendNextSegment (e1\<lparr>mRC := 0, mT200Active := False\<rparr>) else e1)"

definition computeChecksum :: "bytes \<Rightarrow> u32" where
  "computeChecksum d = foldl (\<lambda>s b. s + ucast b) 0 d"

section \<open>Unnumbered frames\<close>

definition handleSABME :: "LAPDmFrame \<Rightarrow> LAPDmEntity \<Rightarrow> LAPDmEntity" where
  "handleSABME f e =
     (if \<not> pf f then e
      else case mState e of
        LinkReleased \<Rightarrow>
          let e1 = (clearCounters e)\<lparr>mEstablishmentInProgress := True\<rparr>;
              e2 = deliverL3 L3_ESTABLISH_INDICATION (if info f \<noteq> [] then info f else []) e1
          in if info f \<noteq> []
             then let e3 = e2\<lparr>mContentionChecksum := computeChecksum (info f)\<rparr>;
                      e4 = sendUAWithEcho (info f) (pf f) e3
                  in transitionTo (if mSapi e4 = SAPI0 then ContentionResolution
                                   else LinkEstablished) e4
             else sendUA (pf f) (transitionTo LinkEstablished e2)
      | AwaitingEstablish \<Rightarrow> sendUA (pf f) e
      | AwaitingRelease \<Rightarrow> sendDM (pf f) e
      | LinkEstablished \<Rightarrow>
          if mEstablishmentInProgress e
          then (if info f \<noteq> [] then sendUAWithEcho (info f) (pf f) e else sendUA (pf f) e)
          else if info f \<noteq> [] then abnormalRelease True e
          else clearCounters (sendUA (pf f) e)
      | ContentionResolution \<Rightarrow>
          if info f \<noteq> [] \<and> computeChecksum (info f) = mContentionChecksum e
          then transitionTo LinkEstablished (sendUAWithEcho (info f) (pf f) e)
          else e
      | Unused \<Rightarrow> e)"

definition handleUA :: "LAPDmFrame \<Rightarrow> LAPDmEntity \<Rightarrow> LAPDmEntity" where
  "handleUA f e =
     (if \<not> pf f then e
      else case mState e of
        AwaitingEstablish \<Rightarrow>
          deliverL3 L3_ESTABLISH_CONFIRM [] (transitionTo LinkEstablished (clearCounters e))
      | AwaitingRelease \<Rightarrow>
          deliverL3 L3_RELEASE_CONFIRM [] (transitionTo LinkReleased (clearCounters e))
      | _ \<Rightarrow> e)"

definition restartT200 :: "LAPDmEntity \<Rightarrow> LAPDmEntity" where
  "restartT200 e = e\<lparr>mT200Active := True, mT200RemainingMs := t200Ms (mProfile e)\<rparr>"

definition handleDM :: "LAPDmFrame \<Rightarrow> LAPDmEntity \<Rightarrow> LAPDmEntity" where
  "handleDM f e =
     (if \<not> pf f then e
      else case mState e of
        AwaitingEstablish \<Rightarrow> deliverL3 L3_RELEASE_INDICATION [] (restartT200 e)
      | AwaitingRelease \<Rightarrow>
          deliverL3 L3_RELEASE_CONFIRM [] (transitionTo LinkReleased (clearCounters e))
      | LinkEstablished \<Rightarrow> deliverL3 L3_RELEASE_INDICATION [] (restartT200 e)
      | ContentionResolution \<Rightarrow> deliverL3 L3_RELEASE_INDICATION [] (restartT200 e)
      | _ \<Rightarrow> e)"

definition handleDISC :: "LAPDmFrame \<Rightarrow> LAPDmEntity \<Rightarrow> LAPDmEntity" where
  "handleDISC f e0 =
     (let e = e0\<lparr>mEstablishmentInProgress := False\<rparr>
      in case mState e of
        LinkReleased \<Rightarrow> sendDM (pf f) e
      | AwaitingEstablish \<Rightarrow>
          deliverL3 L3_RELEASE_INDICATION [] (transitionTo LinkReleased (clearCounters e))
      | AwaitingRelease \<Rightarrow>
          deliverL3 L3_RELEASE_CONFIRM []
            (transitionTo LinkReleased (clearCounters (sendUA (pf f) e)))
      | LinkEstablished \<Rightarrow>
          deliverL3 L3_RELEASE_INDICATION []
            (transitionTo LinkReleased (clearCounters (sendUA (pf f) e)))
      | ContentionResolution \<Rightarrow>
          deliverL3 L3_RELEASE_INDICATION []
            (transitionTo LinkReleased (clearCounters (sendUA (pf f) e)))
      | Unused \<Rightarrow> e)"

definition handleUI :: "LAPDmFrame \<Rightarrow> LAPDmEntity \<Rightarrow> LAPDmEntity" where
  "handleUI f e = deliverL3 L3_UNIT_DATA (info f) e"

definition receiveUFrame :: "LAPDmFrame \<Rightarrow> LAPDmEntity \<Rightarrow> LAPDmEntity" where
  "receiveUFrame f e =
     (case uType f of
        SABME \<Rightarrow> handleSABME f e
      | UA \<Rightarrow> handleUA f e
      | DM \<Rightarrow> handleDM f e
      | DISC \<Rightarrow> handleDISC f e
      | UI \<Rightarrow> handleUI f e)"

section \<open>Information and supervisory frames\<close>

text \<open>The first frame after a contention resolution moves the link to the established state.\<close>

definition settle :: "LAPDmEntity \<Rightarrow> LAPDmEntity" where
  "settle e = (if mState e = ContentionResolution then transitionTo LinkEstablished e else e)"

definition receiveIFrame :: "LAPDmFrame \<Rightarrow> LAPDmEntity \<Rightarrow> LAPDmEntity" where
  "receiveIFrame f e0 =
     (let e1 = settle (e0\<lparr>mEstablishmentInProgress := False\<rparr>)
      in if mState e1 \<noteq> LinkEstablished then e1
      else let e2 = processAck (ic_nr (iCtrl f)) e1
      in if ic_ns (iCtrl f) \<noteq> mVR e2 then sendREJ (ic_pf (iCtrl f)) e2
      else let e3 = e2\<lparr>mVR := (mVR e2 + 1) AND 0x07\<rparr>
      in if length (info f) > n201 (mProfile e3)
            \<or> length (mReassemblyBuffer e3) + length (info f) > kMaxReassemblyBytes
         then abnormalRelease False e3
      else let e4 = (if info f \<noteq> [] then e3\<lparr>mReassemblyBuffer := mReassemblyBuffer e3 @ info f\<rparr>
                     else e3);
               e5 = (if \<not> moreBit f
                     then (deliverL3 L3_DATA (mReassemblyBuffer e4) e4)\<lparr>mReassemblyBuffer := []\<rparr>
                     else e4)
      in sendRR (ic_pf (iCtrl f)) e5)"

definition receiveSFrame :: "LAPDmFrame \<Rightarrow> LAPDmEntity \<Rightarrow> LAPDmEntity" where
  "receiveSFrame f e0 =
     (let e = e0\<lparr>mEstablishmentInProgress := False\<rparr>
      in case sType f of
        RR \<Rightarrow>
          let e1 = settle e
          in if mState e1 \<noteq> LinkEstablished then e1
          else let e2 = processAck (nr f) e1
               in if pf f \<and> command (address f) then sendRR True e2 else e2
      | RNR \<Rightarrow> abnormalRelease True e
      | REJ \<Rightarrow>
          let e1 = settle e
          in if mState e1 \<noteq> LinkEstablished then e1
          else let e2 = processAck (nr f) e1
               in if pf f then (if command (address f) then abnormalRelease True e2
                                else sendRR True e2)
                  else e2
      | SType_unnamed \<Rightarrow> e)"

section \<open>Public operations\<close>

definition lapdm_open :: "SAPI \<Rightarrow> bool \<Rightarrow> LAPDmEntity \<Rightarrow> LAPDmEntity" where
  "lapdm_open s c e = transitionTo LinkReleased (clearCounters (e\<lparr>mSapi := s, mCommandBit := c\<rparr>))"

definition receiveFrame :: "bytes \<Rightarrow> LAPDmEntity \<Rightarrow> LAPDmEntity" where
  "receiveFrame bs e0 =
     (case decode bs of
        Inl _ \<Rightarrow> e0
      | Inr f \<Rightarrow>
          let e = e0\<lparr>mFramesReceived := mFramesReceived e0 + 1\<rparr>
          in if sapi (address f) \<noteq> mSapi e then e
          else case format f of
              I_Format \<Rightarrow> receiveIFrame f e
            | S_Format \<Rightarrow> receiveSFrame f e
            | U_Format \<Rightarrow> receiveUFrame f e)"

definition sendUI :: "SAPI \<Rightarrow> bytes \<Rightarrow> LAPDmEntity \<Rightarrow> unit Expected \<times> LAPDmEntity" where
  "sendUI s d e = (Inr (), emit (makeUIFrame s (mCommandBit e) d) e)"

definition isEstablished :: "LAPDmEntity \<Rightarrow> bool" where
  "isEstablished e \<longleftrightarrow> mState e = LinkEstablished \<or> mState e = ContentionResolution"

definition sendData :: "bytes \<Rightarrow> LAPDmEntity \<Rightarrow> unit Expected \<times> LAPDmEntity" where
  "sendData d e =
     (if mState e \<noteq> LinkEstablished \<and> mState e \<noteq> ContentionResolution
      then (perr InvalidValue ''Link not established'', e)
      else if d = [] then (perr TruncatedInput ''Empty data'', e)
      else let e1 = e\<lparr>mTxQueue := mTxQueue e @ d\<rparr>;
               e2 = e1\<lparr>mTxMsgEnds := mTxMsgEnds e1 @ [length (mTxQueue e1)]\<rparr>
           in (Inr (), trySendNextSegment e2))"

definition sendSABME :: "bytes \<Rightarrow> LAPDmEntity \<Rightarrow> unit Expected \<times> LAPDmEntity" where
  "sendSABME d e =
     (if mState e = LinkEstablished \<or> mState e = ContentionResolution
      then (Inr (), deliverL3 L3_ESTABLISH_CONFIRM [] e)
      else if mState e \<noteq> LinkReleased
      then (perr InvalidValue ''Not in LinkReleased state'', e)
      else let e1 = e\<lparr>mPendingInfo := d\<rparr>;
               (bs, e2) = encodeToTxBuf (makeSABMEFrame (mSapi e1) (mCommandBit e1) d) e1
           in (Inr (), transitionTo AwaitingEstablish (saveForRetransmission PendingSabme bs e2)))"

definition sendDISC :: "LAPDmEntity \<Rightarrow> unit Expected \<times> LAPDmEntity" where
  "sendDISC e =
     (if mState e \<noteq> LinkEstablished \<and> mState e \<noteq> ContentionResolution
      then (perr InvalidValue ''Cannot DISC from current state'', e)
      else let (bs, e1) = encodeToTxBuf (makeDISCFrame (mSapi e) (mCommandBit e)) e
           in (Inr (), transitionTo AwaitingRelease (saveForRetransmission PendingDisc bs e1)))"

definition hardRelease :: "LAPDmEntity \<Rightarrow> LAPDmEntity" where
  "hardRelease e =
     transitionTo LinkReleased ((clearCounters e)\<lparr>mEstablishmentInProgress := False\<rparr>)"

text \<open>
  The elapsed time is the signed 64-bit count of a \<^verbatim>\<open>std::chrono::milliseconds\<close>; the remaining
  time is compared as a signed number and decremented modulo \<open>2 ^ 32\<close>.
\<close>

definition tickT200 :: "int \<Rightarrow> LAPDmEntity \<Rightarrow> bool \<times> LAPDmEntity" where
  "tickT200 elapsed e =
     (if \<not> mT200Active e then (False, e)
      else if elapsed < uint (mT200RemainingMs e)
      then (False, e\<lparr>mT200RemainingMs := mT200RemainingMs e - word_of_int elapsed\<rparr>)
      else let e1 = e\<lparr>mT200RemainingMs := 0, mT200Active := False\<rparr>
           in if mRC e1 \<le> n200 (mProfile e1)
              then let e2 = retransmitPending e1;
                       e3 = e2\<lparr>mRC := mRC e2 + 1, mRetransmissions := mRetransmissions e2 + 1\<rparr>
                   in (True, e3\<lparr>mT200Active := True, mT200RemainingMs := t200Ms (mProfile e3)\<rparr>)
              else (True, abnormalRelease False e1))"

definition hasOutstandingFrame :: "LAPDmEntity \<Rightarrow> bool" where
  "hasOutstandingFrame e \<longleftrightarrow> mVS e \<noteq> mVA e"

definition resetStats :: "LAPDmEntity \<Rightarrow> LAPDmEntity" where
  "resetStats e = e\<lparr>mFramesSent := 0, mFramesReceived := 0, mRetransmissions := 0\<rparr>"

section \<open>What a transmission changes\<close>

lemma encodeToTxBuf_eq:
  "\<exists>buf. encodeToTxBuf f e = (encodeFrame f, e\<lparr>mTxBuf := buf\<rparr>)"
proof -
  define buf where "buf = (if length (mTxBuf e) < 3 + length (info f)
    then mTxBuf e @ replicate (3 + length (info f) - length (mTxBuf e)) 0 else mTxBuf e)"
  have "\<not> length buf < encodedFrameSize f"
    by (simp add: buf_def encodedFrameSize_def)
  then have "encodeFrameToBuffer f buf =
      (length (encodeFrame f), encodeFrame f @ drop (length (encodeFrame f)) buf)"
    by (simp add: encodeFrameToBuffer_def encodeFrame_eq)
  then have "encodeToTxBuf f e =
      (encodeFrame f, e\<lparr>mTxBuf := encodeFrame f @ drop (length (encodeFrame f)) buf\<rparr>)"
    by (simp add: encodeToTxBuf_def buf_def [symmetric])
  then show ?thesis by blast
qed

lemma fst_encodeToTxBuf [simp]: "fst (encodeToTxBuf f e) = encodeFrame f"
  using encodeToTxBuf_eq [of f e] by auto

lemma emit_eq:
  obtains buf where
    "emit f e = e\<lparr>mTxBuf := buf, mFramesSent := mFramesSent e + 1,
       outputs := outputs e @ (if mL1Callback e then [L1_tx (encodeFrame f)] else [])\<rparr>"
proof -
  obtain buf where "encodeToTxBuf f e = (encodeFrame f, e\<lparr>mTxBuf := buf\<rparr>)"
    using encodeToTxBuf_eq by blast
  then show ?thesis using that [of buf] by (simp add: emit_def sendFrame_def)
qed

text \<open>
  The fields a transmission or a delivery leaves alone, and what it adds to the outputs.
\<close>

lemma emit_fields [simp]:
  "mProfile (emit f e) = mProfile e" "mL3Callback (emit f e) = mL3Callback e"
  "mL1Callback (emit f e) = mL1Callback e" "mState (emit f e) = mState e"
  "mSapi (emit f e) = mSapi e" "mCommandBit (emit f e) = mCommandBit e"
  "mEstablishmentInProgress (emit f e) = mEstablishmentInProgress e"
  "mVS (emit f e) = mVS e" "mVA (emit f e) = mVA e" "mVR (emit f e) = mVR e"
  "mPending (emit f e) = mPending e" "mPendingNs (emit f e) = mPendingNs e"
  "mPendingMore (emit f e) = mPendingMore e" "mPendingInfo (emit f e) = mPendingInfo e"
  "mRC (emit f e) = mRC e" "mT200Active (emit f e) = mT200Active e"
  "mT200RemainingMs (emit f e) = mT200RemainingMs e"
  "mReassemblyBuffer (emit f e) = mReassemblyBuffer e"
  "mTxQueue (emit f e) = mTxQueue e" "mTxMsgEnds (emit f e) = mTxMsgEnds e"
  "mTxMsgIdx (emit f e) = mTxMsgIdx e" "mTxQueuePos (emit f e) = mTxQueuePos e"
  "mContentionChecksum (emit f e) = mContentionChecksum e"
  "mFramesSent (emit f e) = mFramesSent e + 1"
  "mFramesReceived (emit f e) = mFramesReceived e"
  "mRetransmissions (emit f e) = mRetransmissions e"
  "outputs (emit f e) = outputs e @ (if mL1Callback e then [L1_tx (encodeFrame f)] else [])"
  by (rule emit_eq [of f e], simp)+

lemma deliverL3_fields [simp]:
  "mProfile (deliverL3 q d e) = mProfile e" "mL3Callback (deliverL3 q d e) = mL3Callback e"
  "mL1Callback (deliverL3 q d e) = mL1Callback e" "mState (deliverL3 q d e) = mState e"
  "mSapi (deliverL3 q d e) = mSapi e" "mCommandBit (deliverL3 q d e) = mCommandBit e"
  "mEstablishmentInProgress (deliverL3 q d e) = mEstablishmentInProgress e"
  "mVS (deliverL3 q d e) = mVS e" "mVA (deliverL3 q d e) = mVA e" "mVR (deliverL3 q d e) = mVR e"
  "mPending (deliverL3 q d e) = mPending e" "mPendingNs (deliverL3 q d e) = mPendingNs e"
  "mPendingMore (deliverL3 q d e) = mPendingMore e"
  "mPendingInfo (deliverL3 q d e) = mPendingInfo e"
  "mRC (deliverL3 q d e) = mRC e" "mT200Active (deliverL3 q d e) = mT200Active e"
  "mT200RemainingMs (deliverL3 q d e) = mT200RemainingMs e"
  "mReassemblyBuffer (deliverL3 q d e) = mReassemblyBuffer e"
  "mTxQueue (deliverL3 q d e) = mTxQueue e" "mTxMsgEnds (deliverL3 q d e) = mTxMsgEnds e"
  "mTxMsgIdx (deliverL3 q d e) = mTxMsgIdx e" "mTxQueuePos (deliverL3 q d e) = mTxQueuePos e"
  "mContentionChecksum (deliverL3 q d e) = mContentionChecksum e"
  "outputs (deliverL3 q d e) =
     outputs e @ (if mL3Callback e then [L3_rx (mSapi e) q d] else [])"
  by (simp_all add: deliverL3_def)

lemma saveForRetransmission_emit:
  "(let (bs, e') = encodeToTxBuf f e in saveForRetransmission k bs e') =
     restartT200 ((emit f e)\<lparr>mPending := k, mRC := 0\<rparr>)"
proof -
  obtain buf where "encodeToTxBuf f e = (encodeFrame f, e\<lparr>mTxBuf := buf\<rparr>)"
    using encodeToTxBuf_eq by blast
  then show ?thesis
    by (simp add: saveForRetransmission_def emit_def restartT200_def sendFrame_def)
qed

lemma buildIFrame_emit:
  "buildIFrame d m e =
     restartT200 ((emit (makeIFrame (mSapi e) (mCommandBit e) (mVR e) (mVS e) False m d)
                     (e\<lparr>mVS := (mVS e + 1) AND 0x07, mPendingNs := mVS e, mPendingMore := m,
                        mPendingInfo := d\<rparr>))\<lparr>mPending := PendingIFrame, mRC := 0\<rparr>)"
  unfolding saveForRetransmission_emit [symmetric] by (simp add: buildIFrame_def Let_def)

section \<open>The transmit queue as a list of messages\<close>

text \<open>
  The queue is one octet buffer with the end offsets of its messages. \<open>ends_ok lo hi xs\<close> says
  the offsets from the current message on increase strictly from \<open>lo\<close> and end at \<open>hi\<close>;
  \<open>slices\<close> reads the messages off. \<open>tx_msgs\<close> is the abstract queue: what is left of the
  current message, then the messages behind it.
\<close>

fun ends_ok :: "nat \<Rightarrow> nat \<Rightarrow> nat list \<Rightarrow> bool" where
  "ends_ok lo hi [] \<longleftrightarrow> lo = hi"
| "ends_ok lo hi (x # xs) \<longleftrightarrow> lo < x \<and> ends_ok x hi xs"

fun slices :: "bytes \<Rightarrow> nat \<Rightarrow> nat list \<Rightarrow> bytes list" where
  "slices q lo [] = []"
| "slices q lo (x # xs) = take (x - lo) (drop lo q) # slices q x xs"

definition tx_ok :: "LAPDmEntity \<Rightarrow> bool" where
  "tx_ok e \<longleftrightarrow>
     ends_ok (mTxQueuePos e) (length (mTxQueue e)) (drop (mTxMsgIdx e) (mTxMsgEnds e)) \<and>
     (length (mTxMsgEnds e) \<le> mTxMsgIdx e \<longrightarrow>
        mTxMsgEnds e = [] \<and> mTxQueue e = [] \<and> mTxMsgIdx e = 0 \<and> mTxQueuePos e = 0)"

definition tx_msgs :: "LAPDmEntity \<Rightarrow> bytes list" where
  "tx_msgs e = slices (mTxQueue e) (mTxQueuePos e) (drop (mTxMsgIdx e) (mTxMsgEnds e))"

lemma ends_ok_le: "ends_ok lo hi xs \<Longrightarrow> lo \<le> hi"
  by (induction xs arbitrary: lo) (auto intro: le_trans less_imp_le)

lemma ends_ok_append:
  "ends_ok lo hi xs \<Longrightarrow> hi < hi' \<Longrightarrow> ends_ok lo hi' (xs @ [hi'])"
  by (induction xs arbitrary: lo) auto

lemma slices_append:
  "ends_ok lo (length q) xs \<Longrightarrow> slices (q @ d) lo (xs @ [length q + length d]) = slices q lo xs @ [d]"
proof (induction xs arbitrary: lo)
  case (Cons x xs)
  then have "x \<le> length q" using ends_ok_le by auto
  then show ?case using Cons by simp
qed simp

lemma slices_nonempty: "ends_ok lo (length q) xs \<Longrightarrow> [] \<notin> set (slices q lo xs)"
proof (induction xs arbitrary: lo)
  case (Cons x xs)
  then have "x \<le> length q" using ends_ok_le by auto
  then show ?case using Cons by auto
qed simp

lemma tx_msgs_nonempty: "tx_ok e \<Longrightarrow> [] \<notin> set (tx_msgs e)"
  by (simp add: tx_ok_def tx_msgs_def slices_nonempty)

lemma tx_msgs_Nil_iff: "tx_msgs e = [] \<longleftrightarrow> length (mTxMsgEnds e) \<le> mTxMsgIdx e"
proof -
  have "slices q lo xs = [] \<longleftrightarrow> xs = []" for q lo xs by (cases xs) simp_all
  then show ?thesis by (simp add: tx_msgs_def)
qed

text \<open>
  One step of the sender on the abstract queue: the head message loses at most N201 octets,
  and leaves the queue with its last segment.
\<close>

fun next_queue :: "nat \<Rightarrow> bytes list \<Rightarrow> bytes list" where
  "next_queue n [] = []"
| "next_queue n (m # ms) = (if n < length m then drop n m # ms else ms)"

lemma buildIFrame_fields [simp]:
  "mProfile (buildIFrame d m e) = mProfile e" "mL3Callback (buildIFrame d m e) = mL3Callback e"
  "mL1Callback (buildIFrame d m e) = mL1Callback e" "mState (buildIFrame d m e) = mState e"
  "mSapi (buildIFrame d m e) = mSapi e" "mCommandBit (buildIFrame d m e) = mCommandBit e"
  "mEstablishmentInProgress (buildIFrame d m e) = mEstablishmentInProgress e"
  "mVS (buildIFrame d m e) = (mVS e + 1) AND 7" "mVA (buildIFrame d m e) = mVA e"
  "mVR (buildIFrame d m e) = mVR e"
  "mPending (buildIFrame d m e) = PendingIFrame" "mPendingNs (buildIFrame d m e) = mVS e"
  "mPendingMore (buildIFrame d m e) = m" "mPendingInfo (buildIFrame d m e) = d"
  "mRC (buildIFrame d m e) = 0" "mT200Active (buildIFrame d m e)"
  "mT200RemainingMs (buildIFrame d m e) = t200Ms (mProfile e)"
  "mReassemblyBuffer (buildIFrame d m e) = mReassemblyBuffer e"
  "mTxQueue (buildIFrame d m e) = mTxQueue e" "mTxMsgEnds (buildIFrame d m e) = mTxMsgEnds e"
  "mTxMsgIdx (buildIFrame d m e) = mTxMsgIdx e" "mTxQueuePos (buildIFrame d m e) = mTxQueuePos e"
  "mContentionChecksum (buildIFrame d m e) = mContentionChecksum e"
  "outputs (buildIFrame d m e) =
     outputs e @ (if mL1Callback e
                  then [L1_tx (encodeFrame (makeIFrame (mSapi e) (mCommandBit e) (mVR e) (mVS e)
                                              False m d))] else [])"
  by (simp_all add: buildIFrame_emit restartT200_def)

lemma trySend_idle: "mVS e \<noteq> mVA e \<or> tx_msgs e = [] \<Longrightarrow> trySendNextSegment e = e"
  by (auto simp: trySendNextSegment_def tx_msgs_Nil_iff)

text \<open>The offset bookkeeping of \<open>trySendNextSegment\<close> implements \<open>next_queue\<close>.\<close>

lemma trySend_head:
  assumes ok: "tx_ok e" and q: "tx_msgs e = m # ms" and free: "mVS e = mVA e"
  obtains q' ends' pos' idx' where
    "trySendNextSegment e =
       (buildIFrame (take (n201 (mProfile e)) m) (n201 (mProfile e) < length m) e)
         \<lparr>mTxQueue := q', mTxMsgEnds := ends', mTxQueuePos := pos', mTxMsgIdx := idx'\<rparr>"
    "tx_ok (trySendNextSegment e)"
    "tx_msgs (trySendNextSegment e) = next_queue (n201 (mProfile e)) (m # ms)"
proof -
  let ?n = "n201 (mProfile e)" and ?pos = "mTxQueuePos e" and ?idx = "mTxMsgIdx e"
  have idx: "?idx < length (mTxMsgEnds e)" using q tx_msgs_Nil_iff [of e] by auto
  define x where "x = mTxMsgEnds e ! ?idx"
  define xs where "xs = drop (Suc ?idx) (mTxMsgEnds e)"
  have drop: "drop ?idx (mTxMsgEnds e) = x # xs"
    using idx by (simp add: x_def xs_def Cons_nth_drop_Suc)
  have lt: "?pos < x" and rest: "ends_ok x (length (mTxQueue e)) xs"
    using ok by (simp_all add: tx_ok_def drop)
  have xq: "x \<le> length (mTxQueue e)" using rest by (rule ends_ok_le)
  have m: "m = take (x - ?pos) (drop ?pos (mTxQueue e))" and ms: "ms = slices (mTxQueue e) x xs"
    using q by (simp_all add: tx_msgs_def drop)
  have len: "length m = x - ?pos" using m xq by simp
  have chunk: "take (min (x - ?pos) ?n) (drop ?pos (mTxQueue e)) = take ?n m"
    by (simp add: m min.commute)
  let ?b = "buildIFrame (take ?n m) (?n < length m) e"
  have try_eq: "trySendNextSegment e =
      (if ?n < length m then ?b\<lparr>mTxQueuePos := ?pos + ?n\<rparr>
       else if xs = []
       then ?b\<lparr>mTxQueue := [], mTxMsgEnds := [], mTxQueuePos := 0, mTxMsgIdx := 0\<rparr>
       else ?b\<lparr>mTxQueuePos := x, mTxMsgIdx := Suc ?idx\<rparr>)"
  proof -
    have "trySendNextSegment e = advanceQueue (min (x - ?pos) ?n) x ?b"
      using idx free by (simp add: trySendNextSegment_def x_def [symmetric] Let_def chunk len)
    then have step: "trySendNextSegment e =
        (if x \<le> ?pos + min (x - ?pos) ?n
         then (if xs = []
               then ?b\<lparr>mTxQueue := [], mTxMsgEnds := [], mTxQueuePos := 0, mTxMsgIdx := 0\<rparr>
               else ?b\<lparr>mTxQueuePos := ?pos + min (x - ?pos) ?n, mTxMsgIdx := Suc ?idx\<rparr>)
         else ?b\<lparr>mTxQueuePos := ?pos + min (x - ?pos) ?n\<rparr>)"
      by (simp only: advanceQueue_def Let_def buildIFrame_fields xs_def drop_eq_Nil Suc_eq_plus1)
    show ?thesis
    proof (cases "?n < length m")
      case True
      then have "\<not> x \<le> ?pos + min (x - ?pos) ?n" "?pos + min (x - ?pos) ?n = ?pos + ?n"
        using lt len by linarith+
      then show ?thesis using True by (simp only: step if_True if_False)
    next
      case False
      then have "?pos + min (x - ?pos) ?n = x" using lt len by linarith
      then show ?thesis using False by (simp only: step if_False order_refl if_True)
    qed
  qed
  consider (more) "?n < length m" | (last) "\<not> ?n < length m" "xs = []"
    | (next_msg) "\<not> ?n < length m" "xs \<noteq> []" by blast
  then show ?thesis
  proof cases
    case more
    then have "tx_ok (trySendNextSegment e)"
      using rest idx by (simp add: try_eq tx_ok_def drop len less_diff_conv add.commute)
    moreover have "tx_msgs (trySendNextSegment e) = next_queue ?n (m # ms)"
      using more by (simp add: try_eq tx_msgs_def drop ms) (simp add: m drop_take add.commute)
    ultimately show ?thesis
      using that [of ?idx "?pos + ?n" "mTxMsgEnds e" "mTxQueue e"] more by (simp add: try_eq)
  next
    case last
    then show ?thesis
      using that [of 0 0 "[]" "[]"] by (simp add: try_eq tx_ok_def tx_msgs_def ms)
  next
    case next_msg
    moreover from this have "Suc ?idx < length (mTxMsgEnds e)" by (simp add: xs_def)
    ultimately show ?thesis
      using that [of "Suc ?idx" x "mTxMsgEnds e" "mTxQueue e"] rest
      by (simp add: try_eq tx_ok_def tx_msgs_def xs_def [symmetric] ms)
  qed
qed

lemma trySend_queue:
  assumes "tx_ok e"
  shows "tx_ok (trySendNextSegment e)"
    and "tx_msgs (trySendNextSegment e) =
           (if mVS e = mVA e then next_queue (n201 (mProfile e)) (tx_msgs e) else tx_msgs e)"
proof -
  have "tx_ok (trySendNextSegment e) \<and> tx_msgs (trySendNextSegment e) =
          (if mVS e = mVA e then next_queue (n201 (mProfile e)) (tx_msgs e) else tx_msgs e)"
  proof (cases "mVS e = mVA e \<and> tx_msgs e \<noteq> []")
    case True
    then obtain m ms where "tx_msgs e = m # ms" by (cases "tx_msgs e") auto
    then show ?thesis using True assms by (metis trySend_head)
  next
    case False
    then show ?thesis using assms trySend_idle [of e] by auto
  qed
  then show "tx_ok (trySendNextSegment e)"
    and "tx_msgs (trySendNextSegment e) =
           (if mVS e = mVA e then next_queue (n201 (mProfile e)) (tx_msgs e) else tx_msgs e)"
    by blast+
qed

text \<open>Queueing a message appends it to the abstract queue.\<close>

lemma enqueue_msg:
  assumes "tx_ok e" and "d \<noteq> []"
  shows "tx_ok (e\<lparr>mTxQueue := mTxQueue e @ d, mTxMsgEnds := mTxMsgEnds e @ [length (mTxQueue e) + length d]\<rparr>)"
    and "tx_msgs (e\<lparr>mTxQueue := mTxQueue e @ d, mTxMsgEnds := mTxMsgEnds e @ [length (mTxQueue e) + length d]\<rparr>)
           = tx_msgs e @ [d]"
proof -
  have le: "mTxMsgIdx e \<le> length (mTxMsgEnds e)"
    using assms(1) by (cases "length (mTxMsgEnds e) \<le> mTxMsgIdx e") (auto simp: tx_ok_def)
  then show "tx_ok (e\<lparr>mTxQueue := mTxQueue e @ d, mTxMsgEnds := mTxMsgEnds e @ [length (mTxQueue e) + length d]\<rparr>)"
    using assms by (auto simp: tx_ok_def intro!: ends_ok_append)
  show "tx_msgs (e\<lparr>mTxQueue := mTxQueue e @ d, mTxMsgEnds := mTxMsgEnds e @ [length (mTxQueue e) + length d]\<rparr>)
           = tx_msgs e @ [d]"
    using assms le by (simp add: tx_msgs_def slices_append tx_ok_def)
qed

end
