(* ===== verification/Lapdm_Invariant.thy ===== *)
theory Lapdm_Invariant
  imports Lapdm_Entity
begin

text \<open>
  What holds of a LAPDm entity at all times: the invariant \<open>entity_inv\<close>, its preservation by
  every public operation (any octets may arrive from the radio side), reachability as an
  inductive predicate over the operations, and the behaviour of the retransmission timer, of
  the send window and of the error paths.
\<close>

section \<open>The invariant\<close>

abbreviation seq_ok :: "u8 \<Rightarrow> bool" where
  "seq_ok x \<equiv> x AND 7 = x"

definition quiescent :: "LAPDmEntity \<Rightarrow> bool" where
  "quiescent e \<longleftrightarrow>
     mVS e = 0 \<and> mVA e = 0 \<and> mVR e = 0 \<and> mRC e = 0 \<and> \<not> mT200Active e \<and>
     mReassemblyBuffer e = [] \<and> mTxQueue e = [] \<and> mTxMsgEnds e = [] \<and> mPending e = PendingNone"

definition entity_inv :: "LAPDmEntity \<Rightarrow> bool" where
  "entity_inv e \<longleftrightarrow>
     seq_ok (mVS e) \<and> seq_ok (mVA e) \<and> seq_ok (mVR e) \<and>
     length (mReassemblyBuffer e) \<le> kMaxReassemblyBytes \<and>
     tx_ok e \<and>
     unat (mRC e) \<le> unat (n200 (mProfile e)) + 1 \<and>
     (mT200Active e \<longrightarrow> mT200RemainingMs e \<le> t200Ms (mProfile e)) \<and>
     (mState e = Unused \<or> mState e = LinkReleased \<longrightarrow> quiescent e) \<and>
     (mState e = AwaitingEstablish \<longleftrightarrow> mPending e = PendingSabme) \<and>
     (mState e = AwaitingRelease \<longleftrightarrow> mPending e = PendingDisc) \<and>
     (mState e = AwaitingEstablish \<or> mState e = AwaitingRelease \<longrightarrow> mT200Active e) \<and>
     (mPending e = PendingIFrame \<longrightarrow>
        seq_ok (mPendingNs e) \<and> length (mPendingInfo e) \<le> n201 (mProfile e)) \<and>
     (mState e = ContentionResolution \<longrightarrow> mSapi e = SAPI0)"

text \<open>Transmissions, deliveries and statistics do not touch what the invariant speaks about.\<close>

lemma tx_ok_frame [simp]:
  "tx_ok (emit f e) = tx_ok e" "tx_ok (deliverL3 q d e) = tx_ok e"
  "tx_ok (e\<lparr>mEstablishmentInProgress := b\<rparr>) = tx_ok e"
  "tx_ok (e\<lparr>mFramesReceived := k\<rparr>) = tx_ok e"
  "tx_ok (e\<lparr>mContentionChecksum := c\<rparr>) = tx_ok e"
  by (simp_all add: tx_ok_def)

lemma quiescent_frame [simp]:
  "quiescent (emit f e) = quiescent e" "quiescent (deliverL3 q d e) = quiescent e"
  "quiescent (e\<lparr>mEstablishmentInProgress := b\<rparr>) = quiescent e"
  "quiescent (e\<lparr>mFramesReceived := k\<rparr>) = quiescent e"
  "quiescent (e\<lparr>mContentionChecksum := c\<rparr>) = quiescent e"
  by (simp_all add: quiescent_def)

lemma entity_inv_frame [simp]:
  "entity_inv (emit f e) = entity_inv e" "entity_inv (deliverL3 q d e) = entity_inv e"
  "entity_inv (e\<lparr>mEstablishmentInProgress := b\<rparr>) = entity_inv e"
  "entity_inv (e\<lparr>mFramesReceived := k\<rparr>) = entity_inv e"
  "entity_inv (e\<lparr>mContentionChecksum := c\<rparr>) = entity_inv e"
  by (simp_all add: entity_inv_def)

lemmas responder_defs =
  sendUA_def sendUAWithEcho_def sendDM_def sendRR_def sendREJ_def

lemma entity_inv_responders [simp]:
  "entity_inv (sendUA p e) = entity_inv e" "entity_inv (sendUAWithEcho d p e) = entity_inv e"
  "entity_inv (sendDM p e) = entity_inv e" "entity_inv (sendRR p e) = entity_inv e"
  "entity_inv (sendREJ p e) = entity_inv e"
  by (simp_all add: responder_defs)

text \<open>Clearing the counters establishes the invariant in every state that waits for nothing.\<close>

lemma clearCounters_fields [simp]:
  "mState (clearCounters e) = mState e" "mSapi (clearCounters e) = mSapi e"
  "mProfile (clearCounters e) = mProfile e" "mCommandBit (clearCounters e) = mCommandBit e"
  "mL3Callback (clearCounters e) = mL3Callback e" "mL1Callback (clearCounters e) = mL1Callback e"
  "outputs (clearCounters e) = outputs e" "tx_ok (clearCounters e)" "quiescent (clearCounters e)"
  by (simp_all add: clearCounters_def tx_ok_def quiescent_def)

lemma transitionTo_fields [simp]:
  "mState (transitionTo s e) = s" "mSapi (transitionTo s e) = mSapi e"
  "mProfile (transitionTo s e) = mProfile e" "outputs (transitionTo s e) = outputs e"
  "mL3Callback (transitionTo s e) = mL3Callback e" "mL1Callback (transitionTo s e) = mL1Callback e"
  "mCommandBit (transitionTo s e) = mCommandBit e"
  by (simp_all add: transitionTo_def)

lemma entity_inv_fresh:
  assumes "quiescent e" "tx_ok e" "mState e \<noteq> AwaitingEstablish" "mState e \<noteq> AwaitingRelease"
    and "mState e = ContentionResolution \<Longrightarrow> mSapi e = SAPI0"
  shows "entity_inv e"
  using assms by (simp add: entity_inv_def quiescent_def)

lemma entity_inv_clear_to:
  assumes "s \<noteq> AwaitingEstablish" "s \<noteq> AwaitingRelease" "s \<noteq> ContentionResolution"
  shows "entity_inv (transitionTo s (clearCounters e))"
    and "entity_inv (transitionTo s ((clearCounters e)\<lparr>mEstablishmentInProgress := b\<rparr>))"
  using assms
  by (auto intro!: entity_inv_fresh simp: transitionTo_def clearCounters_def tx_ok_def quiescent_def)

lemma entity_inv_abnormalRelease [simp]: "entity_inv (abnormalRelease dm e)"
  by (simp add: abnormalRelease_def Let_def entity_inv_clear_to)

section \<open>Preservation\<close>

lemma seq_ok_and_7 [simp]: "seq_ok (x AND 7)"
  by simp

lemma entity_inv_settle: "entity_inv e \<Longrightarrow> entity_inv (settle e)"
  by (cases "mState e = ContentionResolution")
    (simp_all add: settle_def transitionTo_def entity_inv_def tx_ok_def)

text \<open>In an established link any received number may become V(A).\<close>

lemma entity_inv_processAck_pre:
  assumes "entity_inv e" "mState e = LinkEstablished"
  shows "entity_inv (e\<lparr>mVA := n AND 7\<rparr>)"
    and "entity_inv (e\<lparr>mVA := n AND 7, mRC := 0, mT200Active := False\<rparr>)"
  using assms by (simp_all add: entity_inv_def tx_ok_def)

lemma trySend_fields [simp]:
  "mState (trySendNextSegment e) = mState e" "mSapi (trySendNextSegment e) = mSapi e"
  "mProfile (trySendNextSegment e) = mProfile e" "mVR (trySendNextSegment e) = mVR e"
  "mReassemblyBuffer (trySendNextSegment e) = mReassemblyBuffer e"
  "mCommandBit (trySendNextSegment e) = mCommandBit e"
  "mL1Callback (trySendNextSegment e) = mL1Callback e"
  "mL3Callback (trySendNextSegment e) = mL3Callback e"
  by (simp_all add: trySendNextSegment_def advanceQueue_def Let_def)

lemma entity_inv_trySend:
  assumes inv: "entity_inv e" and st: "mState e = LinkEstablished \<or> mState e = ContentionResolution"
  shows "entity_inv (trySendNextSegment e)"
proof (cases "mVS e = mVA e \<and> tx_msgs e \<noteq> []")
  case True
  then obtain m ms where q: "tx_msgs e = m # ms" by (cases "tx_msgs e") auto
  have ok: "tx_ok e" using inv by (simp add: entity_inv_def)
  obtain q' ends' pos' idx' where eq: "trySendNextSegment e =
       (buildIFrame (take (n201 (mProfile e)) m) (n201 (mProfile e) < length m) e)
         \<lparr>mTxQueue := q', mTxMsgEnds := ends', mTxQueuePos := pos', mTxMsgIdx := idx'\<rparr>"
    and ok': "tx_ok (trySendNextSegment e)"
    using trySend_head [OF ok q] True by metis
  show ?thesis
    using inv st ok' unfolding eq entity_inv_def by (elim disjE) simp_all
next
  case False
  then show ?thesis using inv trySend_idle [of e] by auto
qed

lemma entity_inv_processAck:
  assumes "entity_inv e" "mState e = LinkEstablished"
  shows "entity_inv (processAck n e)"
proof (cases "n AND 7 = mVS e")
  case True
  then have "processAck n e = trySendNextSegment (e\<lparr>mVA := n AND 7, mRC := 0, mT200Active := False\<rparr>)"
    by (simp add: processAck_def)
  then show ?thesis
    using entity_inv_trySend [OF entity_inv_processAck_pre(2) [OF assms]] assms(2) by simp
next
  case False
  then show ?thesis
    using entity_inv_processAck_pre(1) [OF assms] by (simp add: processAck_def)
qed

lemma processAck_fields [simp]:
  "mState (processAck n e) = mState e" "mSapi (processAck n e) = mSapi e"
  "mProfile (processAck n e) = mProfile e" "mVR (processAck n e) = mVR e"
  "mReassemblyBuffer (processAck n e) = mReassemblyBuffer e"
  "mCommandBit (processAck n e) = mCommandBit e"
  "mL1Callback (processAck n e) = mL1Callback e" "mL3Callback (processAck n e) = mL3Callback e"
  by (simp_all add: processAck_def Let_def)

lemma entity_inv_clearCounters_est:
  "mState e = LinkEstablished \<Longrightarrow> entity_inv (clearCounters e)"
  by (rule entity_inv_fresh) simp_all

lemma entity_inv_restartT200:
  "entity_inv e \<Longrightarrow> mState e \<noteq> Unused \<Longrightarrow> mState e \<noteq> LinkReleased \<Longrightarrow> entity_inv (restartT200 e)"
  by (simp add: restartT200_def entity_inv_def tx_ok_def)

lemma handleSABME_inv:
  assumes inv: "entity_inv e"
  shows "entity_inv (handleSABME f e)"
proof (cases "mState e")
  case LinkReleased
  have "entity_inv (transitionTo (if mSapi e = SAPI0 then ContentionResolution else LinkEstablished)
      (sendUAWithEcho (info f) (pf f) ((deliverL3 L3_ESTABLISH_INDICATION (info f)
        ((clearCounters e)\<lparr>mEstablishmentInProgress := True\<rparr>))
          \<lparr>mContentionChecksum := computeChecksum (info f)\<rparr>)))"
    by (rule entity_inv_fresh)
      (simp_all add: transitionTo_def sendUAWithEcho_def clearCounters_def quiescent_def tx_ok_def
        split: if_splits)
  moreover have "entity_inv (transitionTo LinkEstablished (deliverL3 L3_ESTABLISH_INDICATION []
        ((clearCounters e)\<lparr>mEstablishmentInProgress := True\<rparr>)))"
    by (rule entity_inv_fresh)
      (simp_all add: transitionTo_def clearCounters_def quiescent_def tx_ok_def)
  ultimately show ?thesis
    using inv LinkReleased
    by (cases "mSapi e = SAPI0"; cases "pf f") (simp_all add: handleSABME_def Let_def sendUAWithEcho_def)
next
  case ContentionResolution
  have "entity_inv (transitionTo LinkEstablished (sendUAWithEcho (info f) (pf f) e))"
    using entity_inv_settle [of "sendUAWithEcho (info f) (pf f) e"] inv ContentionResolution
    by (simp add: settle_def sendUAWithEcho_def)
  then show ?thesis
    using inv ContentionResolution by (cases "pf f") (simp_all add: handleSABME_def)
next
  case LinkEstablished
  then show ?thesis
    using inv by (simp add: handleSABME_def sendUA_def entity_inv_clearCounters_est)
qed (use inv in \<open>simp_all add: handleSABME_def\<close>)

lemma handleUA_inv: "entity_inv e \<Longrightarrow> entity_inv (handleUA f e)"
  by (cases "mState e") (simp_all add: handleUA_def entity_inv_clear_to)

lemma handleDM_inv: "entity_inv e \<Longrightarrow> entity_inv (handleDM f e)"
  by (cases "mState e") (simp_all add: handleDM_def entity_inv_clear_to entity_inv_restartT200)

lemma handleDISC_inv: "entity_inv e \<Longrightarrow> entity_inv (handleDISC f e)"
  by (cases "mState e") (simp_all add: handleDISC_def Let_def entity_inv_clear_to)

lemma receiveUFrame_inv: "entity_inv e \<Longrightarrow> entity_inv (receiveUFrame f e)"
  by (cases "uType f")
    (simp_all add: receiveUFrame_def handleSABME_inv handleUA_inv handleDM_inv handleDISC_inv
      handleUI_def)

lemma entity_inv_receive:
  assumes "entity_inv e" "length b \<le> kMaxReassemblyBytes" "mState e = LinkEstablished"
  shows "entity_inv (e\<lparr>mVR := x AND 7, mReassemblyBuffer := b\<rparr>)"
  using assms by (simp add: entity_inv_def tx_ok_def)

text \<open>What an I-frame does in an established link, after its acknowledgement is processed.\<close>

definition acceptIFrame :: "LAPDmFrame \<Rightarrow> LAPDmEntity \<Rightarrow> LAPDmEntity" where
  "acceptIFrame f e =
     (let b = mReassemblyBuffer e @ info f
      in if ic_ns (iCtrl f) \<noteq> mVR e then sendREJ (ic_pf (iCtrl f)) e
      else if length (info f) > n201 (mProfile e) \<or> length b > kMaxReassemblyBytes
      then abnormalRelease False (e\<lparr>mVR := (mVR e + 1) AND 7\<rparr>)
      else let e4 = e\<lparr>mVR := (mVR e + 1) AND 7, mReassemblyBuffer := b\<rparr>
           in sendRR (ic_pf (iCtrl f))
                (if moreBit f then e4 else (deliverL3 L3_DATA b e4)\<lparr>mReassemblyBuffer := []\<rparr>))"

lemma receiveIFrame_established:
  assumes "mState e = LinkEstablished \<or> mState e = ContentionResolution"
  shows "receiveIFrame f e =
     acceptIFrame f (processAck (ic_nr (iCtrl f)) (settle (e\<lparr>mEstablishmentInProgress := False\<rparr>)))"
proof -
  define e1 where "e1 = settle (e\<lparr>mEstablishmentInProgress := False\<rparr>)"
  define e2 where "e2 = processAck (ic_nr (iCtrl f)) e1"
  have "mState e1 = LinkEstablished"
    using assms by (auto simp: e1_def settle_def transitionTo_def)
  then show ?thesis
    unfolding receiveIFrame_def acceptIFrame_def Let_def e1_def [symmetric] e2_def [symmetric]
    by simp
qed

lemma receiveIFrame_inv:
  assumes inv: "entity_inv e"
  shows "entity_inv (receiveIFrame f e)"
proof -
  define e1 where "e1 = settle (e\<lparr>mEstablishmentInProgress := False\<rparr>)"
  define e2 where "e2 = processAck (ic_nr (iCtrl f)) e1"
  have i1: "entity_inv e1" using inv by (simp add: e1_def entity_inv_settle)
  show ?thesis
  proof (cases "mState e = LinkEstablished \<or> mState e = ContentionResolution")
    case True
    then have i2: "entity_inv e2" "mState e2 = LinkEstablished"
      using i1 entity_inv_processAck [of e1]
      by (auto simp: e2_def e1_def settle_def transitionTo_def)
    have rx: "entity_inv (e2\<lparr>mVR := (mVR e2 + 1) AND 7, mReassemblyBuffer := b\<rparr>)"
      if "length b \<le> kMaxReassemblyBytes" for b
      using that by (rule entity_inv_receive [OF i2(1) _ i2(2)])
    have last: "entity_inv ((deliverL3 L3_DATA d
        (e2\<lparr>mVR := (mVR e2 + 1) AND 7, mReassemblyBuffer := b\<rparr>))\<lparr>mReassemblyBuffer := []\<rparr>)" for b d
      using rx [of "[]"] by (simp add: deliverL3_def entity_inv_def tx_ok_def quiescent_def)
    show ?thesis
      unfolding receiveIFrame_established [OF True] e1_def [symmetric] e2_def [symmetric]
        acceptIFrame_def Let_def
      using i2 rx last by simp
  next
    case False
    then show ?thesis
      using i1 by (simp add: receiveIFrame_def Let_def e1_def [symmetric])
        (simp add: e1_def settle_def)
  qed
qed

lemma receiveSFrame_inv:
  assumes "entity_inv e"
  shows "entity_inv (receiveSFrame f e)"
proof -
  have "entity_inv (settle (e\<lparr>mEstablishmentInProgress := False\<rparr>))"
    using assms by (simp add: entity_inv_settle)
  then show ?thesis
    using assms
    by (cases "sType f") (simp_all add: receiveSFrame_def Let_def entity_inv_processAck)
qed

lemma receiveFrame_inv: "entity_inv e \<Longrightarrow> entity_inv (receiveFrame bs e)"
  by (simp add: receiveFrame_def Let_def receiveIFrame_inv receiveSFrame_inv receiveUFrame_inv
      split: sum.split LAPDmControlFormat.split)

lemma lapdm_open_inv: "entity_inv (lapdm_open s c e)"
  by (simp add: lapdm_open_def entity_inv_clear_to)

lemma hardRelease_inv: "entity_inv (hardRelease e)"
  by (simp add: hardRelease_def entity_inv_clear_to)

lemma sendUI_inv: "entity_inv e \<Longrightarrow> entity_inv (snd (sendUI s d e))"
  by (simp add: sendUI_def)

lemma enqueue_inv:
  assumes "entity_inv e" "mState e = LinkEstablished \<or> mState e = ContentionResolution" "d \<noteq> []"
  shows "entity_inv (e\<lparr>mTxQueue := mTxQueue e @ d,
                       mTxMsgEnds := mTxMsgEnds e @ [length (mTxQueue e) + length d]\<rparr>)"
  using assms enqueue_msg(1) [of e d] by (elim disjE) (simp_all add: entity_inv_def)

lemma sendData_inv: "entity_inv e \<Longrightarrow> entity_inv (snd (sendData d e))"
  using enqueue_inv [of e d] by (auto simp: sendData_def Let_def intro!: entity_inv_trySend)

lemma sendSABME_emit:
  "mState e = LinkReleased \<Longrightarrow>
   sendSABME d e =
     (Inr (), transitionTo AwaitingEstablish (restartT200
        ((emit (makeSABMEFrame (mSapi e) (mCommandBit e) d) (e\<lparr>mPendingInfo := d\<rparr>))
           \<lparr>mPending := PendingSabme, mRC := 0\<rparr>)))"
  unfolding saveForRetransmission_emit [symmetric]
  by (simp add: sendSABME_def Let_def split: prod.split)

lemma sendDISC_emit:
  "mState e = LinkEstablished \<or> mState e = ContentionResolution \<Longrightarrow>
   sendDISC e =
     (Inr (), transitionTo AwaitingRelease (restartT200
        ((emit (makeDISCFrame (mSapi e) (mCommandBit e)) e)\<lparr>mPending := PendingDisc, mRC := 0\<rparr>)))"
  unfolding saveForRetransmission_emit [symmetric]
  by (auto simp: sendDISC_def Let_def split: prod.split)

lemma sendSABME_inv:
  assumes "entity_inv e"
  shows "entity_inv (snd (sendSABME d e))"
proof (cases "mState e = LinkReleased")
  case True
  then show ?thesis
    using assms
    by (simp add: sendSABME_emit transitionTo_def restartT200_def entity_inv_def tx_ok_def
        quiescent_def)
next
  case False
  then show ?thesis using assms by (simp add: sendSABME_def)
qed

lemma sendDISC_inv:
  assumes "entity_inv e"
  shows "entity_inv (snd (sendDISC e))"
proof (cases "mState e = LinkEstablished \<or> mState e = ContentionResolution")
  case True
  then show ?thesis
    using assms
    by (simp add: sendDISC_emit)
      (elim disjE; simp add: transitionTo_def restartT200_def entity_inv_def tx_ok_def)
next
  case False
  then show ?thesis using assms by (simp add: sendDISC_def)
qed

lemma retransmitPending_fields [simp]:
  "mProfile (retransmitPending e) = mProfile e" "mState (retransmitPending e) = mState e"
  "mRC (retransmitPending e) = mRC e" "mPending (retransmitPending e) = mPending e"
  "mSapi (retransmitPending e) = mSapi e" "mCommandBit (retransmitPending e) = mCommandBit e"
  "mPendingInfo (retransmitPending e) = mPendingInfo e" "mVR (retransmitPending e) = mVR e"
  "mPendingNs (retransmitPending e) = mPendingNs e"
  "mPendingMore (retransmitPending e) = mPendingMore e"
  "mL1Callback (retransmitPending e) = mL1Callback e"
  "mL3Callback (retransmitPending e) = mL3Callback e"
  "entity_inv (retransmitPending e) = entity_inv e"
  by (cases "mPending e"; simp add: retransmitPending_def)+

lemma unat_suc_le: "x \<le> (y :: u32) \<Longrightarrow> unat (x + 1) \<le> unat y + 1"
  by (cases "1 + x = 0") (simp_all add: add.commute unatSuc word_le_nat_alt)

text \<open>The retransmission counter decides whether an expiry retransmits or releases.\<close>

lemma tickT200_expiry:
  assumes "mT200Active e" "uint (mT200RemainingMs e) \<le> elapsed"
  shows "mRC e \<le> n200 (mProfile e) \<Longrightarrow> tickT200 elapsed e =
      (True, restartT200 ((retransmitPending (e\<lparr>mT200RemainingMs := 0, mT200Active := False\<rparr>))
         \<lparr>mRC := mRC e + 1,
          mRetransmissions := mRetransmissions (retransmitPending (e\<lparr>mT200RemainingMs := 0, mT200Active := False\<rparr>)) + 1\<rparr>))"
    and "\<not> mRC e \<le> n200 (mProfile e) \<Longrightarrow> tickT200 elapsed e =
      (True, abnormalRelease False (e\<lparr>mT200RemainingMs := 0, mT200Active := False\<rparr>))"
  using assms by (simp_all add: tickT200_def Let_def restartT200_def)

lemma sub_le_self: "(w :: u32) \<le> t \<Longrightarrow> 0 \<le> i \<Longrightarrow> i < uint w \<Longrightarrow> w - word_of_int i \<le> t"
proof -
  assume a: "w \<le> t" "0 \<le> i" "i < uint w"
  then have "uint (word_of_int i :: u32) = i"
    using uint_lt2p [of w] by (simp add: uint_word_of_int)
  then have "uint (w - word_of_int i) = uint w - i"
    using a by (simp add: uint_sub_if')
  then show ?thesis using a by (simp add: word_le_def)
qed

lemma retransmit_inv:
  assumes inv: "entity_inv e" and st: "mT200Active e" and rc: "mRC e \<le> n200 (mProfile e)"
  shows "entity_inv (restartT200 ((retransmitPending (e\<lparr>mT200RemainingMs := 0, mT200Active := False\<rparr>))
           \<lparr>mRC := mRC e + 1, mRetransmissions := k\<rparr>))"
proof -
  have "mState e \<noteq> Unused" "mState e \<noteq> LinkReleased"
    using inv st by (auto simp: entity_inv_def quiescent_def)
  then show ?thesis
    using inv st unat_suc_le [OF rc]
    by (cases "mPending e")
      (simp_all add: retransmitPending_def restartT200_def entity_inv_def tx_ok_def)
qed

lemma tickT200_inv:
  assumes inv: "entity_inv e" and pos: "0 \<le> elapsed"
  shows "entity_inv (snd (tickT200 elapsed e))"
proof -
  consider "\<not> mT200Active e" | "mT200Active e" "elapsed < uint (mT200RemainingMs e)"
    | "mT200Active e" "uint (mT200RemainingMs e) \<le> elapsed"
    by linarith
  then show ?thesis
  proof cases
    case 1
    then show ?thesis using inv by (simp add: tickT200_def)
  next
    case 2
    then show ?thesis
      using inv sub_le_self [OF _ pos, of "mT200RemainingMs e" "t200Ms (mProfile e)"]
      by (simp add: tickT200_def entity_inv_def tx_ok_def quiescent_def)
  next
    case 3
    then show ?thesis
      using inv retransmit_inv [OF inv 3(1)]
      by (cases "mRC e \<le> n200 (mProfile e)") (simp_all add: tickT200_expiry)
  qed
qed

section \<open>Reachable entities\<close>

text \<open>
  The public operations as the labels of a step relation. The elapsed time of a tick is not
  negative; every other argument is arbitrary, received octets in particular.
\<close>

datatype EntityOp =
    OpOpen SAPI bool
  | OpReceive bytes
  | OpSendUI SAPI bytes
  | OpSendData bytes
  | OpSendSABME bytes
  | OpSendDISC
  | OpHardRelease
  | OpTick nat
  | OpResetStats

inductive lapdm_step :: "LAPDmEntity \<Rightarrow> EntityOp \<Rightarrow> LAPDmEntity \<Rightarrow> bool" where
  step_open: "lapdm_step e (OpOpen s c) (lapdm_open s c e)"
| step_receive: "lapdm_step e (OpReceive bs) (receiveFrame bs e)"
| step_ui: "lapdm_step e (OpSendUI s d) (snd (sendUI s d e))"
| step_data: "lapdm_step e (OpSendData d) (snd (sendData d e))"
| step_sabme: "lapdm_step e (OpSendSABME d) (snd (sendSABME d e))"
| step_disc: "lapdm_step e OpSendDISC (snd (sendDISC e))"
| step_hard: "lapdm_step e OpHardRelease (hardRelease e)"
| step_tick: "lapdm_step e (OpTick t) (snd (tickT200 (int t) e))"
| step_reset: "lapdm_step e OpResetStats (resetStats e)"

inductive reachable :: "LAPDmChannelProfile \<Rightarrow> LAPDmEntity \<Rightarrow> bool" for p where
  reach_init: "reachable p (mkLAPDmEntity p l3 l1)"
| reach_step: "reachable p e \<Longrightarrow> lapdm_step e a e' \<Longrightarrow> reachable p e'"

inductive_cases step_dataE: "lapdm_step e (OpSendData d) e'"

inductive_simps step_receive_iff: "lapdm_step e (OpReceive bs) e'"

lemma resetStats_inv: "entity_inv e \<Longrightarrow> entity_inv (resetStats e)"
  by (simp add: resetStats_def entity_inv_def tx_ok_def quiescent_def)

lemma step_inv: "lapdm_step e a e' \<Longrightarrow> entity_inv e \<Longrightarrow> entity_inv e'"
  by (induction rule: lapdm_step.induct)
    (simp_all add: lapdm_open_inv receiveFrame_inv sendUI_inv sendData_inv sendSABME_inv
      sendDISC_inv hardRelease_inv tickT200_inv resetStats_inv)

lemma init_inv: "entity_inv (mkLAPDmEntity p l3 l1)"
  by (simp add: mkLAPDmEntity_def entity_inv_def tx_ok_def quiescent_def)

lemma reachable_inv: "reachable p e \<Longrightarrow> entity_inv e"
  by (induction rule: reachable.induct) (auto intro: init_inv step_inv)

text \<open>
  C3. Whatever sequence of operations is performed on an entity and whatever octets arrive, its
  state stays well formed: sequence numbers are below 8, the reassembly buffer never holds more
  than 4096 octets, the transmit queue offsets are consistent, at most N200+1 retransmissions
  are counted, a released or unused entity is quiescent (counters, timer, queue and buffers
  cleared), an entity that awaits establishment or release has exactly that command outstanding
  with T200 running, and contention resolution occurs only on SAPI 0.
\<close>

theorem lapdm_entity_invariant:
  assumes "reachable p e"
  shows "entity_inv e"
  using assms by (rule reachable_inv)

lemma sdcch_open_reachable:
  "reachable profile_SDCCH
     (receiveFrame [0x01, 0x3F, 0x01] (lapdm_open SAPI0 True (mkLAPDmEntity profile_SDCCH True True)))"
  by (intro reach_step [OF reach_step [OF reach_init step_open] step_receive])

theorem lapdm_entity_invariant_witness:
  "entity_inv
     (receiveFrame [0x01, 0x3F, 0x01] (lapdm_open SAPI0 True (mkLAPDmEntity profile_SDCCH True True)))"
  by (rule lapdm_entity_invariant [OF sdcch_open_reachable])

section \<open>The retransmission budget\<close>

definition pendingFrames :: "LAPDmEntity \<Rightarrow> LAPDmFrame list" where
  "pendingFrames e =
     (case mPending e of
        PendingIFrame \<Rightarrow> [makeIFrame (mSapi e) (mCommandBit e) (mVR e) (mPendingNs e) True
                            (mPendingMore e) (mPendingInfo e)]
      | PendingSabme \<Rightarrow> [makeSABMEFrame (mSapi e) (mCommandBit e) (mPendingInfo e)]
      | PendingDisc \<Rightarrow> [makeDISCFrame (mSapi e) (mCommandBit e)]
      | PendingNone \<Rightarrow> [])"

definition pendingOutput :: "LAPDmEntity \<Rightarrow> Output list" where
  "pendingOutput e = (if mL1Callback e then map (L1_tx \<circ> encodeFrame) (pendingFrames e) else [])"

text \<open>One full T200 period without an answer.\<close>

definition expireT200 :: "LAPDmEntity \<Rightarrow> LAPDmEntity" where
  "expireT200 e = snd (tickT200 (uint (t200Ms (mProfile e))) e)"

lemma outputs_retransmitPending: "outputs (retransmitPending e) = outputs e @ pendingOutput e"
  by (cases "mPending e") (simp_all add: retransmitPending_def pendingOutput_def pendingFrames_def)

lemma pendingOutput_cong:
  "mPending e' = mPending e \<Longrightarrow> mSapi e' = mSapi e \<Longrightarrow> mCommandBit e' = mCommandBit e \<Longrightarrow>
   mVR e' = mVR e \<Longrightarrow> mPendingNs e' = mPendingNs e \<Longrightarrow> mPendingMore e' = mPendingMore e \<Longrightarrow>
   mPendingInfo e' = mPendingInfo e \<Longrightarrow> mL1Callback e' = mL1Callback e \<Longrightarrow>
   pendingOutput e' = pendingOutput e"
  by (cases "mPending e") (simp_all add: pendingOutput_def pendingFrames_def)

lemma inv_T200_le:
  "entity_inv e \<Longrightarrow> mT200Active e \<Longrightarrow> uint (mT200RemainingMs e) \<le> uint (t200Ms (mProfile e))"
  by (simp add: entity_inv_def word_le_def)

lemma expire_within_budget:
  assumes inv: "entity_inv e" and act: "mT200Active e" and rc: "mRC e \<le> n200 (mProfile e)"
  shows "entity_inv (expireT200 e)" "mT200Active (expireT200 e)" "mState (expireT200 e) = mState e"
    "mProfile (expireT200 e) = mProfile e" "mRC (expireT200 e) = mRC e + 1"
    "mSapi (expireT200 e) = mSapi e" "mL3Callback (expireT200 e) = mL3Callback e"
    "outputs (expireT200 e) = outputs e @ pendingOutput e"
    "pendingOutput (expireT200 e) = pendingOutput e"
proof -
  let ?e = "e\<lparr>mT200RemainingMs := 0, mT200Active := False\<rparr>"
  have eq: "expireT200 e = restartT200 ((retransmitPending ?e)
         \<lparr>mRC := mRC e + 1, mRetransmissions := mRetransmissions (retransmitPending ?e) + 1\<rparr>)"
    using inv_T200_le [OF inv act] act rc by (simp add: expireT200_def tickT200_expiry)
  have po: "pendingOutput ?e = pendingOutput e" by (rule pendingOutput_cong) simp_all
  show "entity_inv (expireT200 e)" unfolding eq by (rule retransmit_inv [OF inv act rc])
  show "mT200Active (expireT200 e)" "mState (expireT200 e) = mState e"
    "mProfile (expireT200 e) = mProfile e" "mRC (expireT200 e) = mRC e + 1"
    "mSapi (expireT200 e) = mSapi e" "mL3Callback (expireT200 e) = mL3Callback e"
    "outputs (expireT200 e) = outputs e @ pendingOutput e"
    by (simp_all add: eq restartT200_def outputs_retransmitPending po)
  show "pendingOutput (expireT200 e) = pendingOutput e"
    by (rule pendingOutput_cong) (simp_all add: eq restartT200_def)
qed

lemma expire_iterate:
  assumes "entity_inv e" "mT200Active e" "mRC e = 0" "k \<le> unat (n200 (mProfile e)) + 1"
    and "unat (n200 (mProfile e)) + 1 < 2 ^ 32"
  shows "entity_inv ((expireT200 ^^ k) e) \<and> mT200Active ((expireT200 ^^ k) e) \<and>
     mState ((expireT200 ^^ k) e) = mState e \<and> mProfile ((expireT200 ^^ k) e) = mProfile e \<and>
     unat (mRC ((expireT200 ^^ k) e)) = k \<and> mSapi ((expireT200 ^^ k) e) = mSapi e \<and>
     mL3Callback ((expireT200 ^^ k) e) = mL3Callback e \<and>
     pendingOutput ((expireT200 ^^ k) e) = pendingOutput e \<and>
     outputs ((expireT200 ^^ k) e) = outputs e @ concat (replicate k (pendingOutput e))"
  using assms(4)
proof (induction k)
  case 0
  then show ?case using assms by simp
next
  case (Suc k)
  let ?e = "(expireT200 ^^ k) e"
  have IH: "entity_inv ?e" "mT200Active ?e" "mState ?e = mState e" "mProfile ?e = mProfile e"
    "unat (mRC ?e) = k" "mSapi ?e = mSapi e" "mL3Callback ?e = mL3Callback e"
    "pendingOutput ?e = pendingOutput e"
    "outputs ?e = outputs e @ concat (replicate k (pendingOutput e))"
    using Suc by simp_all
  have rc: "mRC ?e \<le> n200 (mProfile ?e)"
    using IH(4,5) Suc.prems by (simp add: word_le_nat_alt)
  have "unat (mRC ?e + 1) = Suc k"
    using IH(5) Suc.prems assms(5) by (simp add: unat_plus_if')
  moreover have "concat (replicate k xs) @ xs = xs @ concat (replicate k xs)" for xs :: "Output list"
    by (induction k) simp_all
  ultimately show ?case
    using expire_within_budget [OF IH(1,2) rc] IH by simp
qed

text \<open>
  C4. The retransmission budget: an outstanding frame that is never answered is retransmitted
  on each of the next N200+1 expiries of T200, the entity staying in its state, and the expiry
  after that releases the link: the entity is quiescent in LinkReleased and layer 3 gets
  \<open>MDL_ERROR_INDICATION\<close>. This holds alike for SABME, DISC and an I-frame, which goes out with
  the poll bit set and the current V(R).
\<close>

theorem retransmission_budget:
  assumes "entity_inv e" "mT200Active e" "mRC e = 0" "mL3Callback e"
    and "unat (n200 (mProfile e)) + 1 < 2 ^ 32"
  shows "(\<forall>k \<le> unat (n200 (mProfile e)) + 1.
            mState ((expireT200 ^^ k) e) = mState e \<and>
            outputs ((expireT200 ^^ k) e) = outputs e @ concat (replicate k (pendingOutput e))) \<and>
         (let final = (expireT200 ^^ (unat (n200 (mProfile e)) + 2)) e
          in mState final = LinkReleased \<and> quiescent final \<and>
             outputs final = outputs e
               @ concat (replicate (unat (n200 (mProfile e)) + 1) (pendingOutput e))
               @ [L3_rx (mSapi e) MDL_ERROR_INDICATION []])"
proof -
  let ?n = "unat (n200 (mProfile e)) + 1"
  let ?e = "(expireT200 ^^ ?n) e"
  note it = expire_iterate [OF assms(1-3) order_refl assms(5)]
  have "\<not> mRC ?e \<le> n200 (mProfile ?e)" using it by (simp add: word_le_nat_alt)
  then have rel: "expireT200 ?e = abnormalRelease False (?e\<lparr>mT200RemainingMs := 0, mT200Active := False\<rparr>)"
    using it inv_T200_le [of ?e] by (simp add: expireT200_def tickT200_expiry(2))
  have fin: "(expireT200 ^^ (unat (n200 (mProfile e)) + 2)) e = expireT200 ?e"
    by simp
  have "mState (expireT200 ?e) = LinkReleased" "quiescent (expireT200 ?e)"
    "outputs (expireT200 ?e) = outputs ?e @ [L3_rx (mSapi e) MDL_ERROR_INDICATION []]"
    unfolding rel using it assms(4)
    by (simp_all add: abnormalRelease_def transitionTo_def clearCounters_def quiescent_def)
  then show ?thesis
    unfolding fin Let_def
    using it expire_iterate [OF assms(1-3) _ assms(5)] by (simp only: append_assoc) blast
qed

text \<open>The budget of a SABME on an SDCCH, sent by the mobile station side.\<close>

theorem retransmission_budget_witness:
  "let e = snd (sendSABME [] (lapdm_open SAPI0 False (mkLAPDmEntity profile_SDCCH True True)))
   in mState ((expireT200 ^^ 25) e) = LinkReleased \<and>
      outputs ((expireT200 ^^ 25) e) =
        replicate 25 (L1_tx [0x01, 0x3F, 0x01]) @ [L3_rx SAPI0 MDL_ERROR_INDICATION []]"
proof -
  define e where "e = snd (sendSABME [] (lapdm_open SAPI0 False (mkLAPDmEntity profile_SDCCH True True)))"
  have rel: "mState (lapdm_open SAPI0 False (mkLAPDmEntity profile_SDCCH True True)) = LinkReleased"
    by (simp add: lapdm_open_def)
  have inv: "entity_inv e" by (simp add: e_def sendSABME_inv lapdm_open_inv)
  have fields: "mT200Active e" "mRC e = 0" "mL3Callback e" "mL1Callback e" "mProfile e = profile_SDCCH"
    "mSapi e = SAPI0" "mCommandBit e = False" "mPending e = PendingSabme" "mPendingInfo e = []"
    unfolding e_def sendSABME_emit [OF rel]
    by (simp_all add: transitionTo_def restartT200_def lapdm_open_def clearCounters_def
        mkLAPDmEntity_def)
  have sabme: "encodeFrame (makeSABMEFrame SAPI0 False []) = [0x01, 0x3F, 0x01]"
    by (simp add: encodeFrame_eq frameOctets_def makeSABMEFrame_def frame0_def addr_encode_def
        uFrameControlByte_def kUControl_def len_encode_def mkLength_def)
  have out: "outputs e = [L1_tx [0x01, 0x3F, 0x01]]"
    unfolding e_def sendSABME_emit [OF rel]
    by (simp add: transitionTo_def restartT200_def lapdm_open_def clearCounters_def
        mkLAPDmEntity_def sabme)
  have po: "pendingOutput e = [L1_tx [0x01, 0x3F, 0x01]]"
    using fields by (simp add: pendingOutput_def pendingFrames_def sabme)
  have n: "unat (n200 (mProfile e)) = 23" using fields by (simp add: profile_SDCCH_def)
  have "mState ((expireT200 ^^ 25) e) = LinkReleased \<and>
      outputs ((expireT200 ^^ 25) e) =
        outputs e @ concat (replicate 24 (pendingOutput e)) @ [L3_rx SAPI0 MDL_ERROR_INDICATION []]"
    using retransmission_budget [OF inv fields(1-3)] fields(6) by (simp add: n Let_def)
  moreover have "concat (replicate 24 [x]) = replicate 24 x" for x :: Output
    by (simp add: eval_nat_numeral)
  ultimately show ?thesis
    by (simp add: e_def [symmetric] out po) (simp add: eval_nat_numeral)
qed

section \<open>The send window\<close>

text \<open>
  C5. Sending data: an entity without a link or given no data reports the error and is left as
  it was. Otherwise the message joins the queue. With a frame outstanding nothing is transmitted
  (the window is one frame); with the line free exactly one I-frame goes out, numbered V(S), with
  the first N201 octets of the oldest queued message and M set exactly when more of that message
  remains, and then the line is busy.
\<close>

theorem sendData_spec:
  assumes inv: "entity_inv e"
  shows "(\<not> isEstablished e \<longrightarrow> sendData d e = (perr InvalidValue ''Link not established'', e)) \<and>
    (isEstablished e \<and> d = [] \<longrightarrow> sendData d e = (perr TruncatedInput ''Empty data'', e)) \<and>
    (isEstablished e \<and> d \<noteq> [] \<longrightarrow>
       (let e' = snd (sendData d e); queue = tx_msgs e @ [d]; n = n201 (mProfile e) in
        fst (sendData d e) = Inr () \<and> hasOutstandingFrame e' \<and>
        (if hasOutstandingFrame e then outputs e' = outputs e \<and> tx_msgs e' = queue
         else tx_msgs e' = next_queue n queue \<and>
              outputs e' = outputs e @
                (if mL1Callback e
                 then [L1_tx (encodeFrame (makeIFrame (mSapi e) (mCommandBit e) (mVR e) (mVS e)
                         False (n < length (hd queue)) (take n (hd queue))))] else []))))"
proof -
  have send: "fst (sendData d e) = Inr () \<and> hasOutstandingFrame (snd (sendData d e)) \<and>
        (if hasOutstandingFrame e
         then outputs (snd (sendData d e)) = outputs e \<and> tx_msgs (snd (sendData d e)) = tx_msgs e @ [d]
         else tx_msgs (snd (sendData d e)) = next_queue (n201 (mProfile e)) (tx_msgs e @ [d]) \<and>
              outputs (snd (sendData d e)) = outputs e @
                (if mL1Callback e
                 then [L1_tx (encodeFrame (makeIFrame (mSapi e) (mCommandBit e) (mVR e) (mVS e)
                         False (n201 (mProfile e) < length (hd (tx_msgs e @ [d])))
                         (take (n201 (mProfile e)) (hd (tx_msgs e @ [d])))))] else []))"
    if est: "isEstablished e" and d: "d \<noteq> []"
  proof -
    define q where "q = e\<lparr>mTxQueue := mTxQueue e @ d,
                          mTxMsgEnds := mTxMsgEnds e @ [length (mTxQueue e) + length d]\<rparr>"
    have sd: "sendData d e = (Inr (), trySendNextSegment q)"
      using est d by (auto simp: sendData_def isEstablished_def Let_def q_def)
    have ok: "tx_ok e" using inv by (simp add: entity_inv_def)
    have q: "tx_ok q" "tx_msgs q = tx_msgs e @ [d]"
      unfolding q_def by (rule enqueue_msg [OF ok d])+
    have qf: "mVS q = mVS e" "mVA q = mVA e" "outputs q = outputs e" "mProfile q = mProfile e"
      "mL1Callback q = mL1Callback e" "mSapi q = mSapi e" "mCommandBit q = mCommandBit e"
      "mVR q = mVR e"
      by (simp_all add: q_def)
    obtain m ms where ms: "tx_msgs e @ [d] = m # ms" by (cases "tx_msgs e @ [d]") auto
    show ?thesis
    proof (cases "mVS e = mVA e")
      case True
      then have free: "mVS q = mVA q" by (simp add: qf)
      obtain q' ends' pos' idx' where t: "trySendNextSegment q =
         (buildIFrame (take (n201 (mProfile q)) m) (n201 (mProfile q) < length m) q)
           \<lparr>mTxQueue := q', mTxMsgEnds := ends', mTxQueuePos := pos', mTxMsgIdx := idx'\<rparr>"
        "tx_msgs (trySendNextSegment q) = next_queue (n201 (mProfile q)) (m # ms)"
        using trySend_head [OF q(1) _ free] q(2) ms by metis
      then show ?thesis
        using True suc_mod8_neq [of "mVA e"] unfolding sd ms hasOutstandingFrame_def
        by (simp add: qf)
    next
      case False
      then show ?thesis
        using trySend_idle [of q] by (simp add: sd hasOutstandingFrame_def qf q(2))
    qed
  qed
  show ?thesis
    using send unfolding Let_def by (auto simp: sendData_def isEstablished_def)
qed

lemma sacch_established:
  "entity_inv (receiveFrame [0x01, 0x3F, 0x01] (lapdm_open SAPI0 True (mkLAPDmEntity profile_SACCH True True)))
   \<and> isEstablished (receiveFrame [0x01, 0x3F, 0x01] (lapdm_open SAPI0 True (mkLAPDmEntity profile_SACCH True True)))"
proof -
  let ?e = "lapdm_open SAPI0 True (mkLAPDmEntity profile_SACCH True True)"
  have "decode [0x01, 0x3F, 0x01] = Inr (makeSABMEFrame SAPI0 False [])"
    by code_simp
  then have "receiveFrame [0x01, 0x3F, 0x01] ?e =
      handleSABME (makeSABMEFrame SAPI0 False []) (?e\<lparr>mFramesReceived := mFramesReceived ?e + 1\<rparr>)"
    by (simp add: receiveFrame_def makeSABMEFrame_def frame0_def receiveUFrame_def lapdm_open_def
        transitionTo_def clearCounters_def mkLAPDmEntity_def)
  then have "isEstablished (receiveFrame [0x01, 0x3F, 0x01] ?e)"
    by (simp add: handleSABME_def makeSABMEFrame_def frame0_def lapdm_open_def isEstablished_def
        sendUA_def Let_def)
  then show ?thesis by (simp add: receiveFrame_inv lapdm_open_inv)
qed

theorem sendData_spec_witness:
  "let e = receiveFrame [0x01, 0x3F, 0x01] (lapdm_open SAPI0 True (mkLAPDmEntity profile_SACCH True True))
   in fst (sendData (replicate 30 0x2B) e) = Inr () \<and>
      hasOutstandingFrame (snd (sendData (replicate 30 0x2B) e))"
  using sendData_spec [OF conjunct1 [OF sacch_established], of "replicate 30 0x2B"]
    sacch_established
  by (simp add: Let_def)

section \<open>Received information frames\<close>

text \<open>
  C6. An I-frame whose N(S) is not the expected V(R) delivers nothing to layer 3 and leaves V(R)
  and the reassembly buffer alone: after its acknowledgement is processed the entity answers
  with REJ carrying V(R) in N(R), its F bit equal to the received P bit.
\<close>

theorem out_of_sequence_rejected:
  assumes "mState e = LinkEstablished" and "ic_ns (iCtrl f) \<noteq> mVR e"
  shows "let acked = processAck (ic_nr (iCtrl f)) (e\<lparr>mEstablishmentInProgress := False\<rparr>);
             e' = receiveIFrame f e
         in mVR e' = mVR e \<and> mReassemblyBuffer e' = mReassemblyBuffer e \<and> mState e' = LinkEstablished \<and>
            outputs e' = outputs acked @
              (if mL1Callback e
               then [L1_tx (encodeFrame (makeREJFrame (mSapi e) (mVR e) (ic_pf (iCtrl f))))] else [])"
proof -
  have "receiveIFrame f e = sendREJ (ic_pf (iCtrl f))
      (processAck (ic_nr (iCtrl f)) (e\<lparr>mEstablishmentInProgress := False\<rparr>))"
    using assms by (simp add: receiveIFrame_def Let_def settle_def)
  then show ?thesis using assms(1) by (simp add: sendREJ_def Let_def)
qed

theorem out_of_sequence_rejected_witness:
  "let e = (lapdm_open SAPI0 True (mkLAPDmEntity profile_SDCCH True True))\<lparr>mState := LinkEstablished\<rparr>;
       f = makeIFrame SAPI0 False 0 3 True False [0x55];
       acked = processAck 0 (e\<lparr>mEstablishmentInProgress := False\<rparr>)
   in mVR (receiveIFrame f e) = 0 \<and>
      outputs (receiveIFrame f e) =
        outputs acked @ [L1_tx (encodeFrame (makeREJFrame SAPI0 0 True))]"
  using out_of_sequence_rejected
    [of "(lapdm_open SAPI0 True (mkLAPDmEntity profile_SDCCH True True))\<lparr>mState := LinkEstablished\<rparr>"
        "makeIFrame SAPI0 False 0 3 True False [0x55]"]
  by (simp add: Let_def lapdm_open_def transitionTo_def clearCounters_def mkLAPDmEntity_def
      makeIFrame_def mkIControl_def)

section \<open>Every emitted frame can be decoded\<close>

definition out_ok :: "LAPDmEntity \<Rightarrow> bool" where
  "out_ok e \<longleftrightarrow>
     list_all (\<lambda>q. case q of L1_tx bs \<Rightarrow> (case decode bs of Inr f \<Rightarrow> frame_ok f | Inl _ \<Rightarrow> False)
                        | L3_rx _ _ _ \<Rightarrow> True) (outputs e)"

definition emits_ok :: "LAPDmEntity \<Rightarrow> bool" where
  "emits_ok e \<longleftrightarrow>
     n201 (mProfile e) \<le> 63 \<and> (mSapi e = SAPI0 \<or> mSapi e = SAPI3) \<and>
     length (mPendingInfo e) \<le> 63 \<and> out_ok e"

lemma emits_ok_emit: "emits_ok e \<Longrightarrow> frame_ok f \<Longrightarrow> emits_ok (emit f e)"
  by (simp add: emits_ok_def out_ok_def lapdm.dec_enc)

lemma emits_ok_frame [simp]:
  "emits_ok (deliverL3 q d e) = emits_ok e"
  "emits_ok (e\<lparr>mEstablishmentInProgress := b\<rparr>) = emits_ok e"
  "emits_ok (e\<lparr>mFramesReceived := k\<rparr>) = emits_ok e"
  "emits_ok (e\<lparr>mContentionChecksum := c\<rparr>) = emits_ok e"
  "emits_ok (e\<lparr>mReassemblyBuffer := r\<rparr>) = emits_ok e"
  "emits_ok (e\<lparr>mVR := v\<rparr>) = emits_ok e"
  "emits_ok (transitionTo s e) = emits_ok e"
  "emits_ok (settle e) = emits_ok e"
  "emits_ok (restartT200 e) = emits_ok e"
  "emits_ok (advanceQueue n m e) = emits_ok e"
  "emits_ok (resetStats e) = emits_ok e"
  "emits_ok (e\<lparr>mPending := pk, mRC := rc\<rparr>) = emits_ok e"
  "emits_ok (e\<lparr>mRC := rc, mRetransmissions := rt\<rparr>) = emits_ok e"
  "emits_ok (e\<lparr>mT200RemainingMs := t\<rparr>) = emits_ok e"
  "emits_ok (e\<lparr>mT200RemainingMs := t, mT200Active := a\<rparr>) = emits_ok e"
  "emits_ok (e\<lparr>mVA := v\<rparr>) = emits_ok e"
  "emits_ok (e\<lparr>mVA := v, mRC := rc, mT200Active := a\<rparr>) = emits_ok e"
  "emits_ok (e\<lparr>mTxQueue := q1, mTxMsgEnds := q2\<rparr>) = emits_ok e"
  by (simp_all add: emits_ok_def out_ok_def transitionTo_def restartT200_def advanceQueue_def
      resetStats_def settle_def Let_def)

lemma emits_ok_sapi: "emits_ok e \<Longrightarrow> mSapi e = SAPI0 \<or> mSapi e = SAPI3"
  by (simp add: emits_ok_def)

lemma emits_ok_clear: "emits_ok e \<Longrightarrow> emits_ok (clearCounters e)"
  by (simp add: emits_ok_def out_ok_def clearCounters_def)

lemma emits_ok_responders:
  assumes "emits_ok e"
  shows "emits_ok (sendUA p e)" "length d \<le> 63 \<Longrightarrow> emits_ok (sendUAWithEcho d p e)"
    "emits_ok (sendDM p e)" "emits_ok (sendRR p e)" "emits_ok (sendREJ p e)"
  using emits_ok_sapi [OF assms]
  by (simp_all add: responder_defs emits_ok_emit [OF assms] make_frames_ok)

lemma emits_ok_abnormalRelease: "emits_ok e \<Longrightarrow> emits_ok (abnormalRelease dm e)"
  by (simp add: abnormalRelease_def Let_def emits_ok_clear emits_ok_responders)

lemma emits_ok_buildIFrame:
  assumes "emits_ok e" "length d \<le> 63"
  shows "emits_ok (buildIFrame d m e)"
proof -
  have "emits_ok (e\<lparr>mVS := v, mPendingNs := s, mPendingMore := m, mPendingInfo := d\<rparr>)" for v s
    using assms by (simp add: emits_ok_def out_ok_def)
  then show ?thesis
    using assms emits_ok_sapi [OF assms(1)]
    by (simp add: buildIFrame_emit emits_ok_emit make_frames_ok)
qed

lemma emits_ok_trySend:
  assumes "emits_ok e"
  shows "emits_ok (trySendNextSegment e)"
proof -
  have "length (take (min k (n201 (mProfile e))) xs) \<le> 63" for k and xs :: bytes
    using assms by (auto simp: emits_ok_def)
  then have "emits_ok (buildIFrame (take (min k (n201 (mProfile e))) xs) m e)" for k xs m
    by (rule emits_ok_buildIFrame [OF assms])
  then show ?thesis using assms by (simp add: trySendNextSegment_def Let_def)
qed

lemma emits_ok_processAck: "emits_ok e \<Longrightarrow> emits_ok (processAck n e)"
  by (simp add: processAck_def Let_def emits_ok_trySend)

lemma emits_ok_retransmit:
  assumes "emits_ok e"
  shows "emits_ok (retransmitPending e)"
proof -
  have "length (mPendingInfo e) \<le> 63" using assms by (simp add: emits_ok_def)
  then show ?thesis
    using assms emits_ok_sapi [OF assms]
    by (cases "mPending e") (simp_all add: retransmitPending_def emits_ok_emit make_frames_ok)
qed

lemmas emits_ok_intros =
  emits_ok_clear emits_ok_responders emits_ok_abnormalRelease emits_ok_processAck

lemma emits_ok_receiveUFrame:
  "emits_ok e \<Longrightarrow> length (info f) \<le> 63 \<Longrightarrow> emits_ok (receiveUFrame f e)"
  by (cases "uType f"; cases "mState e")
    (simp_all add: receiveUFrame_def handleSABME_def handleUA_def handleDM_def handleDISC_def
      handleUI_def Let_def emits_ok_intros)

lemma emits_ok_receiveIFrame: "emits_ok e \<Longrightarrow> emits_ok (receiveIFrame f e)"
  by (simp add: receiveIFrame_def Let_def emits_ok_intros)

lemma emits_ok_receiveSFrame: "emits_ok e \<Longrightarrow> emits_ok (receiveSFrame f e)"
  by (cases "sType f") (simp_all add: receiveSFrame_def Let_def emits_ok_intros)

lemma emits_ok_receiveFrame:
  assumes "emits_ok e"
  shows "emits_ok (receiveFrame bs e)"
proof (cases "decode bs")
  case (Inr f)
  have "length (info f) \<le> 63" if "sapi (address f) = mSapi e"
    using that emits_ok_sapi [OF assms] lapdm.dec_iff [of bs f] Inr by (auto simp: frame_ok_def)
  then show ?thesis
    using assms Inr
    by (simp add: receiveFrame_def Let_def emits_ok_receiveIFrame emits_ok_receiveSFrame
        emits_ok_receiveUFrame split: LAPDmControlFormat.split)
qed (use assms in \<open>simp add: receiveFrame_def\<close>)

lemma emits_ok_tick:
  assumes "emits_ok e"
  shows "emits_ok (snd (tickT200 t e))"
proof -
  have "emits_ok (restartT200 ((retransmitPending (e\<lparr>mT200RemainingMs := 0, mT200Active := False\<rparr>))
          \<lparr>mRC := r, mRetransmissions := k\<rparr>))" for r k
    using assms by (simp add: emits_ok_retransmit)
  then show ?thesis
    using assms by (simp add: tickT200_def Let_def restartT200_def emits_ok_abnormalRelease)
qed

text \<open>The arguments for which the service user keeps within what a frame can carry.\<close>

fun op_ok :: "EntityOp \<Rightarrow> bool" where
  "op_ok (OpOpen s c) = (s = SAPI0 \<or> s = SAPI3)"
| "op_ok (OpSendUI s d) = ((s = SAPI0 \<or> s = SAPI3) \<and> length d \<le> 63)"
| "op_ok (OpSendSABME d) = (length d \<le> 63)"
| "op_ok _ = True"

lemma step_emits_ok: "lapdm_step e a e' \<Longrightarrow> op_ok a \<Longrightarrow> emits_ok e \<Longrightarrow> emits_ok e'"
proof (induction rule: lapdm_step.induct)
  case (step_open e s c)
  then show ?case
    by (simp add: lapdm_open_def emits_ok_clear) (simp add: emits_ok_def out_ok_def clearCounters_def)
next
  case (step_data e d)
  then show ?case by (simp add: sendData_def Let_def emits_ok_trySend)
next
  case (step_sabme e d)
  have "emits_ok (e\<lparr>mPendingInfo := d\<rparr>)"
    using step_sabme by (simp add: emits_ok_def out_ok_def)
  then show ?case
    using step_sabme emits_ok_sapi [of e]
    by (cases "mState e = LinkReleased")
      (simp_all add: sendSABME_emit emits_ok_emit make_frames_ok, simp add: sendSABME_def)
next
  case (step_disc e)
  then show ?case
    using emits_ok_sapi [of e]
    by (cases "mState e = LinkEstablished \<or> mState e = ContentionResolution")
      (simp_all add: sendDISC_emit emits_ok_emit make_frames_ok, simp add: sendDISC_def)
qed (simp_all add: emits_ok_receiveFrame sendUI_def emits_ok_emit make_frames_ok hardRelease_def
    emits_ok_clear emits_ok_tick)

inductive lapdm_exec :: "LAPDmEntity \<Rightarrow> EntityOp list \<Rightarrow> LAPDmEntity \<Rightarrow> bool" where
  exec_nil: "lapdm_exec e [] e"
| exec_cons: "lapdm_step e a e1 \<Longrightarrow> lapdm_exec e1 as e2 \<Longrightarrow> lapdm_exec e (a # as) e2"

lemma exec_emits_ok: "lapdm_exec e as e' \<Longrightarrow> list_all op_ok as \<Longrightarrow> emits_ok e \<Longrightarrow> emits_ok e'"
  by (induction rule: lapdm_exec.induct) (auto intro: step_emits_ok)

text \<open>
  C7. As long as the service user opens the entity on a defined SAPI and gives unnumbered frames
  at most 63 octets, every frame the entity ever hands to the physical layer, whatever it
  receives, is a well-formed frame that the peer's decoder accepts.
\<close>

theorem emitted_frames_decodable:
  assumes "lapdm_exec (mkLAPDmEntity p l3 l1) as e" and "list_all op_ok as" and "n201 p \<le> 63"
    and "L1_tx bs \<in> set (outputs e)"
  shows "\<exists>f. decode bs = Inr f \<and> frame_ok f"
proof -
  have "emits_ok (mkLAPDmEntity p l3 l1)"
    using assms(3) by (simp add: emits_ok_def out_ok_def mkLAPDmEntity_def)
  then have "out_ok e" using exec_emits_ok [OF assms(1,2)] by (simp add: emits_ok_def)
  then show ?thesis
    using assms(4) by (cases "decode bs") (auto simp: out_ok_def list_all_iff dest!: bspec)
qed

theorem emitted_frames_decodable_witness:
  "\<exists>f. decode [0x01, 0x3F, 0x01] = Inr f \<and> frame_ok f"
proof (rule emitted_frames_decodable)
  let ?e0 = "mkLAPDmEntity profile_SDCCH True True"
  let ?e1 = "lapdm_open SAPI0 False ?e0"
  let ?e2 = "snd (sendSABME [] ?e1)"
  show "lapdm_exec ?e0 [OpOpen SAPI0 False, OpSendSABME []] ?e2"
    by (intro exec_cons [OF step_open] exec_cons [OF step_sabme] exec_nil)
  have rel: "mState ?e1 = LinkReleased" by (simp add: lapdm_open_def)
  have "encodeFrame (makeSABMEFrame SAPI0 False []) = [0x01, 0x3F, 0x01]" by code_simp
  then show "L1_tx [0x01, 0x3F, 0x01] \<in> set (outputs ?e2)"
    unfolding sendSABME_emit [OF rel]
    by (simp add: transitionTo_def restartT200_def lapdm_open_def clearCounters_def
        mkLAPDmEntity_def)
qed (simp_all add: profile_SDCCH_def)

end
