(* ===== verification/Lapdm_Link.thy ===== *)
theory Lapdm_Link
  imports Lapdm_Invariant
begin

text \<open>
  Two LAPDm entities joined by two loss-free first-in first-out wires that carry encoded frames.
  One side sends layer 3 messages with \<open>sendData\<close>, at any time; the frames on the wires are
  delivered in any interleaving. The lemmas show that the receiving entity hands exactly the sent
  messages to its layer 3, in order, and that delivering what is on the wires completes the
  transfer.
\<close>

section \<open>The two ends and the wires between them\<close>

record Link =
  endA :: LAPDmEntity
  endB :: LAPDmEntity
  wireAB :: "bytes list"
  wireBA :: "bytes list"

definition l1_frames :: "Output list \<Rightarrow> bytes list" where
  "l1_frames xs = concat (map (\<lambda>x. case x of L1_tx bs \<Rightarrow> [bs] | L3_rx _ _ _ \<Rightarrow> []) xs)"

definition l3_data :: "Output list \<Rightarrow> bytes list" where
  "l3_data xs =
     concat (map (\<lambda>x. case x of L3_rx _ L3_DATA d \<Rightarrow> [d] | _ \<Rightarrow> []) xs)"

text \<open>The frames an operation put on the wire: what it added to the outputs.\<close>

definition emitted :: "LAPDmEntity \<Rightarrow> LAPDmEntity \<Rightarrow> bytes list" where
  "emitted e e' = l1_frames (drop (length (outputs e)) (outputs e'))"

definition link_send :: "bytes \<Rightarrow> Link \<Rightarrow> Link" where
  "link_send d l =
     (let a' = snd (sendData d (endA l))
      in l\<lparr>endA := a', wireAB := wireAB l @ emitted (endA l) a'\<rparr>)"

definition link_deliverAB :: "Link \<Rightarrow> Link" where
  "link_deliverAB l =
     (case wireAB l of
        [] \<Rightarrow> l
      | bs # w \<Rightarrow> let b' = receiveFrame bs (endB l)
                  in l\<lparr>endB := b', wireAB := w, wireBA := wireBA l @ emitted (endB l) b'\<rparr>)"

definition link_deliverBA :: "Link \<Rightarrow> Link" where
  "link_deliverBA l =
     (case wireBA l of
        [] \<Rightarrow> l
      | bs # w \<Rightarrow> let a' = receiveFrame bs (endA l)
                  in l\<lparr>endA := a', wireBA := w, wireAB := wireAB l @ emitted (endA l) a'\<rparr>)"

text \<open>
  \<open>link_runs l\<^sub>0 sent l\<close>: from \<open>l\<^sub>0\<close> the messages \<open>sent\<close> were given to the sender, in that order,
  interleaved with deliveries on either wire in any way, and the link is now in \<open>l\<close>.
\<close>

inductive link_runs :: "Link \<Rightarrow> bytes list \<Rightarrow> Link \<Rightarrow> bool" for l0 where
  run_start: "link_runs l0 [] l0"
| run_send: "link_runs l0 sent l \<Longrightarrow> d \<noteq> [] \<Longrightarrow> length d \<le> kMaxReassemblyBytes \<Longrightarrow>
             link_runs l0 (sent @ [d]) (link_send d l)"
| run_AB: "link_runs l0 sent l \<Longrightarrow> link_runs l0 sent (link_deliverAB l)"
| run_BA: "link_runs l0 sent l \<Longrightarrow> link_runs l0 sent (link_deliverBA l)"

section \<open>One hop\<close>

lemma l1_frames_simps [simp]:
  "l1_frames [] = []" "l1_frames (L1_tx bs # xs) = bs # l1_frames xs"
  "l1_frames (L3_rx s q d # xs) = l1_frames xs" "l1_frames (xs @ ys) = l1_frames xs @ l1_frames ys"
  by (simp_all add: l1_frames_def)

lemma l3_data_simps [simp]:
  "l3_data [] = []" "l3_data (L1_tx bs # xs) = l3_data xs"
  "l3_data (L3_rx s L3_DATA d # xs) = d # l3_data xs" "l3_data (xs @ ys) = l3_data xs @ l3_data ys"
  by (simp_all add: l3_data_def)

lemma emitted_append: "outputs e' = outputs e @ xs \<Longrightarrow> emitted e e' = l1_frames xs"
  by (simp add: emitted_def)

text \<open>
  \<open>idle_rx b\<close>: an established entity that has nothing to send itself. \<open>peer_sapi\<close> is the service
  access point both ends use.
\<close>

definition idle_rx :: "LAPDmEntity \<Rightarrow> bool" where
  "idle_rx b \<longleftrightarrow> mState b = LinkEstablished \<and> mL1Callback b \<and> mL3Callback b \<and>
     tx_msgs b = [] \<and> seq_ok (mVS b) \<and> (mSapi b = SAPI0 \<or> mSapi b = SAPI3)"

lemma tx_msgs_frame [simp]:
  "tx_msgs (emit f e) = tx_msgs e" "tx_msgs (deliverL3 q d e) = tx_msgs e"
  "tx_msgs (e\<lparr>mEstablishmentInProgress := b\<rparr>) = tx_msgs e"
  "tx_msgs (e\<lparr>mFramesReceived := k\<rparr>) = tx_msgs e"
  "tx_msgs (e\<lparr>mReassemblyBuffer := r\<rparr>) = tx_msgs e"
  "tx_msgs (e\<lparr>mVR := v\<rparr>) = tx_msgs e" "tx_msgs (e\<lparr>mVA := v\<rparr>) = tx_msgs e"
  "tx_msgs (e\<lparr>mVA := v, mRC := c, mT200Active := a\<rparr>) = tx_msgs e"
  by (simp_all add: tx_msgs_def)

lemma processAck_idle:
  "tx_msgs e = [] \<Longrightarrow> seq_ok (mVS e) \<Longrightarrow>
   processAck (mVS e) e = e\<lparr>mVA := mVS e, mRC := 0, mT200Active := False\<rparr>"
  by (simp add: processAck_def Let_def trySend_idle)

lemma receive_segment:
  fixes c m
  assumes idle: "idle_rx b" and len: "length d \<le> n201 (mProfile b)" "length d \<le> 63"
    and room: "length (mReassemblyBuffer b) + length d \<le> kMaxReassemblyBytes"
    and seq: "seq_ok (mVR b)"
  defines "b' \<equiv> receiveFrame (encodeFrame (makeIFrame (mSapi b) c (mVS b) (mVR b) False m d)) b"
  shows "idle_rx b'" "mVR b' = (mVR b + 1) AND 7" "mVS b' = mVS b" "mSapi b' = mSapi b"
    "mProfile b' = mProfile b"
    "mReassemblyBuffer b' = (if m then mReassemblyBuffer b @ d else [])"
    "outputs b' = outputs b
       @ (if m then [] else [L3_rx (mSapi b) L3_DATA (mReassemblyBuffer b @ d)])
       @ [L1_tx (encodeFrame (makeRRFrame (mSapi b) (mVR b + 1) False))]"
proof -
  let ?f = "makeIFrame (mSapi b) c (mVS b) (mVR b) False m d"
  define e1 where "e1 = b\<lparr>mFramesReceived := mFramesReceived b + 1, mEstablishmentInProgress := False\<rparr>"
  define e2 where "e2 = e1\<lparr>mVA := mVS e1, mRC := 0, mT200Active := False\<rparr>"
  define e4 where "e4 = e2\<lparr>mVR := (mVR b + 1) AND 7, mReassemblyBuffer := mReassemblyBuffer b @ d\<rparr>"
  note i = idle [unfolded idle_rx_def]
  have dec: "decode (encodeFrame ?f) = Inr ?f"
    using i len(2) by (simp add: decode_make_frame)
  have ack: "processAck (mVS b) e1 = e2"
    using processAck_idle [of e1] i by (simp add: e1_def e2_def tx_msgs_def)
  have "b' = receiveIFrame ?f (b\<lparr>mFramesReceived := mFramesReceived b + 1\<rparr>)"
    by (simp add: b'_def receiveFrame_def dec Let_def) (simp add: makeIFrame_def)
  also have "\<dots> = sendRR False (if m then e4 else (deliverL3 L3_DATA (mReassemblyBuffer e4) e4)\<lparr>mReassemblyBuffer := []\<rparr>)"
  proof -
    have "receiveIFrame ?f (b\<lparr>mFramesReceived := mFramesReceived b + 1\<rparr>) = acceptIFrame ?f e2"
      using i ack by (simp add: receiveIFrame_established settle_def e1_def makeIFrame_def mkIControl_def)
    then show ?thesis
      using i len room seq by (simp add: acceptIFrame_def Let_def makeIFrame_def mkIControl_def
          e4_def e2_def e1_def)
  qed
  finally have b': "b' = sendRR False (if m then e4
      else (deliverL3 L3_DATA (mReassemblyBuffer e4) e4)\<lparr>mReassemblyBuffer := []\<rparr>)" .
  have e4: "mSapi e4 = mSapi b" "mState e4 = LinkEstablished" "mL1Callback e4" "mL3Callback e4"
    "mVR e4 = (mVR b + 1) AND 7" "mVS e4 = mVS b" "mProfile e4 = mProfile b"
    "mReassemblyBuffer e4 = mReassemblyBuffer b @ d" "outputs e4 = outputs b" "tx_msgs e4 = []"
    using i by (simp_all add: e4_def e2_def e1_def tx_msgs_def)
  have rr: "makeRRFrame s ((v + 1) AND 7) False = makeRRFrame s (v + 1) False" for s v
    by (simp add: makeRRFrame_def)
  show "idle_rx b'" "mVR b' = (mVR b + 1) AND 7" "mVS b' = mVS b" "mSapi b' = mSapi b"
    "mProfile b' = mProfile b"
    "mReassemblyBuffer b' = (if m then mReassemblyBuffer b @ d else [])"
    "outputs b' = outputs b
       @ (if m then [] else [L3_rx (mSapi b) L3_DATA (mReassemblyBuffer b @ d)])
       @ [L1_tx (encodeFrame (makeRRFrame (mSapi b) (mVR b + 1) False))]"
    using i unfolding b' sendRR_def idle_rx_def by (simp_all add: e4 rr)
qed

definition sender_ok :: "LAPDmEntity \<Rightarrow> bool" where
  "sender_ok a \<longleftrightarrow> entity_inv a \<and> mState a = LinkEstablished \<and> mL1Callback a \<and>
     (mSapi a = SAPI0 \<or> mSapi a = SAPI3) \<and> 0 < n201 (mProfile a) \<and> n201 (mProfile a) \<le> 63"

abbreviation segment_frame :: "LAPDmEntity \<Rightarrow> u8 \<Rightarrow> bool \<Rightarrow> bytes \<Rightarrow> bytes" where
  "segment_frame a ns m d \<equiv>
     encodeFrame (makeIFrame (mSapi a) (mCommandBit a) (mVR a) ns False m d)"

text \<open>The fields of the sender that a transfer leaves alone.\<close>

definition same_tx_side :: "LAPDmEntity \<Rightarrow> LAPDmEntity \<Rightarrow> bool" where
  "same_tx_side a a' \<longleftrightarrow> mSapi a' = mSapi a \<and> mCommandBit a' = mCommandBit a \<and> mVR a' = mVR a \<and>
     mProfile a' = mProfile a"

lemma trySend_effect:
  assumes "tx_ok e"
  shows "mVA (trySendNextSegment e) = mVA e"
    and "mVS e = mVA e \<Longrightarrow> tx_msgs e = m # ms \<Longrightarrow>
      mVS (trySendNextSegment e) = (mVS e + 1) AND 7 \<and>
      outputs (trySendNextSegment e) = outputs e @
        (if mL1Callback e
         then [L1_tx (segment_frame e (mVS e) (n201 (mProfile e) < length m) (take (n201 (mProfile e)) m))]
         else [])"
proof -
  show "mVA (trySendNextSegment e) = mVA e"
    by (simp add: trySendNextSegment_def advanceQueue_def Let_def)
  assume "mVS e = mVA e" "tx_msgs e = m # ms"
  then obtain q' ends' pos' idx' where "trySendNextSegment e =
       (buildIFrame (take (n201 (mProfile e)) m) (n201 (mProfile e) < length m) e)
         \<lparr>mTxQueue := q', mTxMsgEnds := ends', mTxQueuePos := pos', mTxMsgIdx := idx'\<rparr>"
    using trySend_head [OF assms] by metis
  then show "mVS (trySendNextSegment e) = (mVS e + 1) AND 7 \<and>
      outputs (trySendNextSegment e) = outputs e @
        (if mL1Callback e
         then [L1_tx (segment_frame e (mVS e) (n201 (mProfile e) < length m) (take (n201 (mProfile e)) m))]
         else [])"
    by simp
qed

lemma send_message:
  assumes ok: "sender_ok a" and d: "d \<noteq> []"
  defines "a' \<equiv> snd (sendData d a)"
  shows "sender_ok a'" "same_tx_side a a'" "mVA a' = mVA a"
    "mVS a \<noteq> mVA a \<Longrightarrow> mVS a' = mVS a \<and> tx_msgs a' = tx_msgs a @ [d] \<and> emitted a a' = []"
    "mVS a = mVA a \<Longrightarrow> tx_msgs a = [] \<Longrightarrow>
       mVS a' = (mVS a + 1) AND 7 \<and> tx_msgs a' = next_queue (n201 (mProfile a)) [d] \<and>
       emitted a a' = [segment_frame a (mVS a) (n201 (mProfile a) < length d) (take (n201 (mProfile a)) d)]"
proof -
  note k = ok [unfolded sender_ok_def]
  define q where "q = a\<lparr>mTxQueue := mTxQueue a @ d,
                        mTxMsgEnds := mTxMsgEnds a @ [length (mTxQueue a) + length d]\<rparr>"
  have a': "a' = trySendNextSegment q"
    using k d by (simp add: a'_def sendData_def q_def Let_def)
  have okq: "tx_ok q" and msgs: "tx_msgs q = tx_msgs a @ [d]"
    unfolding q_def using k d enqueue_msg [of a d] by (simp_all add: entity_inv_def)
  have f: "mVS q = mVS a" "mVA q = mVA a" "outputs q = outputs a" "mProfile q = mProfile a"
    "mSapi q = mSapi a" "mCommandBit q = mCommandBit a" "mVR q = mVR a" "mState q = mState a"
    "mL1Callback q = mL1Callback a"
    by (simp_all add: q_def)
  show "sender_ok a'" "same_tx_side a a'" "mVA a' = mVA a"
    using k sendData_inv [of a d] trySend_effect(1) [OF okq]
    by (simp_all add: sender_ok_def same_tx_side_def a'_def [symmetric]) (simp_all add: a' f)
  show "mVS a' = mVS a \<and> tx_msgs a' = tx_msgs a @ [d] \<and> emitted a a' = []" if "mVS a \<noteq> mVA a"
    using that trySend_idle [of q] by (simp add: a' f msgs emitted_append)
  show "mVS a' = (mVS a + 1) AND 7 \<and> tx_msgs a' = next_queue (n201 (mProfile a)) [d] \<and>
       emitted a a' = [segment_frame a (mVS a) (n201 (mProfile a) < length d) (take (n201 (mProfile a)) d)]"
    if "mVS a = mVA a" "tx_msgs a = []"
    using that trySend_effect(2) [OF okq, of d "[]"] trySend_queue(2) [OF okq] k
    by (simp add: a' f msgs emitted_append)
qed

lemma receive_ack:
  assumes ok: "sender_ok a"
  defines "a' \<equiv> receiveFrame (encodeFrame (makeRRFrame (mSapi a) (mVS a) False)) a"
  shows "sender_ok a'" "same_tx_side a a'" "mVA a' = mVS a"
    "tx_msgs a = [] \<Longrightarrow> mVS a' = mVS a \<and> tx_msgs a' = [] \<and> emitted a a' = []"
    "tx_msgs a = m # ms \<Longrightarrow>
       mVS a' = (mVS a + 1) AND 7 \<and> tx_msgs a' = next_queue (n201 (mProfile a)) (m # ms) \<and>
       emitted a a' = [segment_frame a (mVS a) (n201 (mProfile a) < length m) (take (n201 (mProfile a)) m)]"
proof -
  note k = ok [unfolded sender_ok_def]
  have seq: "seq_ok (mVS a)" "tx_ok a" using k by (simp_all add: entity_inv_def)
  define e1 where "e1 = a\<lparr>mFramesReceived := mFramesReceived a + 1, mEstablishmentInProgress := False\<rparr>"
  define q where "q = e1\<lparr>mVA := mVS a, mRC := 0, mT200Active := False\<rparr>"
  have dec: "decode (encodeFrame (makeRRFrame (mSapi a) (mVS a) False)) = Inr (makeRRFrame (mSapi a) (mVS a) False)"
    using k by (simp add: decode_make_frame)
  have a'': "a' = receiveSFrame (makeRRFrame (mSapi a) (mVS a) False)
      (a\<lparr>mFramesReceived := mFramesReceived a + 1\<rparr>)"
    by (simp add: a'_def receiveFrame_def dec Let_def) (simp add: makeRRFrame_def)
  also have "\<dots> = processAck (mVS a) e1"
    using k seq by (simp add: receiveSFrame_def makeRRFrame_def settle_def Let_def e1_def)
  also have "\<dots> = trySendNextSegment q"
    using seq by (simp add: processAck_def q_def e1_def)
  finally have a': "a' = trySendNextSegment q" .
  have f: "mVS q = mVS a" "mVA q = mVS a" "outputs q = outputs a" "mProfile q = mProfile a"
    "mSapi q = mSapi a" "mCommandBit q = mCommandBit a" "mVR q = mVR a" "mState q = mState a"
    "mL1Callback q = mL1Callback a" "tx_msgs q = tx_msgs a"
    by (simp_all add: q_def e1_def tx_msgs_def)
  have okq: "tx_ok q" using seq by (simp add: q_def e1_def tx_ok_def)
  have "entity_inv a'" using k by (simp add: a'_def receiveFrame_inv)
  then show "sender_ok a'" "same_tx_side a a'" "mVA a' = mVS a"
    using k trySend_effect(1) [OF okq] by (simp_all add: sender_ok_def same_tx_side_def a' f)
  show "mVS a' = mVS a \<and> tx_msgs a' = [] \<and> emitted a a' = []" if "tx_msgs a = []"
    using that trySend_idle [of q] by (simp add: a' f emitted_append)
  show "mVS a' = (mVS a + 1) AND 7 \<and> tx_msgs a' = next_queue (n201 (mProfile a)) (m # ms) \<and>
       emitted a a' = [segment_frame a (mVS a) (n201 (mProfile a) < length m) (take (n201 (mProfile a)) m)]"
    if "tx_msgs a = m # ms"
    using that trySend_effect(2) [OF okq, of m ms] trySend_queue(2) [OF okq] k
    by (simp add: a' f emitted_append)
qed

section \<open>The transfer invariant\<close>

text \<open>
  \<open>glue r tx\<close>: the octets \<open>r\<close> that the receiver holds already, put before the rest of the
  message at the head of the sender's queue.
\<close>

fun glue :: "bytes \<Rightarrow> bytes list \<Rightarrow> bytes list" where
  "glue r [] = []"
| "glue r (m # ms) = (r @ m) # ms"

definition both_ok :: "Link \<Rightarrow> bool" where
  "both_ok l \<longleftrightarrow>
     sender_ok (endA l) \<and> idle_rx (endB l) \<and> mSapi (endB l) = mSapi (endA l) \<and>
     n201 (mProfile (endA l)) \<le> n201 (mProfile (endB l)) \<and>
     seq_ok (mVR (endB l)) \<and> mVS (endB l) = mVR (endA l)"

text \<open>Nothing on the wires and nothing to send: all messages have arrived.\<close>

definition link_idle :: "bytes list \<Rightarrow> Link \<Rightarrow> bool" where
  "link_idle todo l \<longleftrightarrow>
     wireAB l = [] \<and> wireBA l = [] \<and> mVS (endA l) = mVA (endA l) \<and> mVS (endA l) = mVR (endB l) \<and>
     tx_msgs (endA l) = [] \<and> mReassemblyBuffer (endB l) = [] \<and> todo = []"

text \<open>One segment on its way to the receiver, numbered as the receiver expects.\<close>

definition link_busy :: "bytes list \<Rightarrow> Link \<Rightarrow> bool" where
  "link_busy todo l \<longleftrightarrow>
     (\<exists>m d. wireAB l = [segment_frame (endA l) (mVR (endB l)) m d] \<and> wireBA l = [] \<and>
        mVS (endA l) = (mVR (endB l) + 1) AND 7 \<and> mVA (endA l) = mVR (endB l) \<and>
        d \<noteq> [] \<and> length d \<le> n201 (mProfile (endA l)) \<and> (m \<longrightarrow> tx_msgs (endA l) \<noteq> []) \<and>
        todo = (if m then glue (mReassemblyBuffer (endB l) @ d) (tx_msgs (endA l))
                else (mReassemblyBuffer (endB l) @ d) # tx_msgs (endA l)))"

text \<open>The acknowledgement on its way back.\<close>

definition link_acking :: "bytes list \<Rightarrow> Link \<Rightarrow> bool" where
  "link_acking todo l \<longleftrightarrow>
     wireAB l = [] \<and> wireBA l = [encodeFrame (makeRRFrame (mSapi (endA l)) (mVR (endB l)) False)] \<and>
     mVS (endA l) = mVR (endB l) \<and> mVA (endA l) \<noteq> mVS (endA l) \<and>
     (mReassemblyBuffer (endB l) \<noteq> [] \<longrightarrow> tx_msgs (endA l) \<noteq> []) \<and>
     todo = glue (mReassemblyBuffer (endB l)) (tx_msgs (endA l))"

definition link_inv :: "bytes list \<Rightarrow> bytes list \<Rightarrow> Link \<Rightarrow> bool" where
  "link_inv sent todo l \<longleftrightarrow>
     both_ok l \<and> list_all (\<lambda>x. length x \<le> kMaxReassemblyBytes) sent \<and>
     sent = l3_data (outputs (endB l)) @ todo \<and>
     (link_idle todo l \<or> link_busy todo l \<or> link_acking todo l)"

lemma link_invD:
  assumes "link_inv sent todo l"
  shows "both_ok l" "list_all (\<lambda>x. length x \<le> kMaxReassemblyBytes) sent"
    "sent = l3_data (outputs (endB l)) @ todo"
  using assms unfolding link_inv_def by blast+

lemma glue_append: "tx \<noteq> [] \<or> r = [] \<Longrightarrow> glue r (tx @ [d]) = glue r tx @ [d]"
  by (cases tx) auto

lemma glue_next: "n < length m \<Longrightarrow> glue (r @ take n m) (drop n m # ms) = (r @ m) # ms"
  by simp

lemma inv_send:
  assumes inv: "link_inv sent todo l" and d: "d \<noteq> []" "length d \<le> kMaxReassemblyBytes"
  shows "link_inv (sent @ [d]) (todo @ [d]) (link_send d l)"
proof -
  let ?a = "endA l" and ?n = "n201 (mProfile (endA l))"
  define a' where "a' = snd (sendData d ?a)"
  have ok: "sender_ok ?a" and bo: "both_ok l" using inv by (simp_all add: link_inv_def both_ok_def)
  note sm = send_message [OF ok d(1), folded a'_def]
  have l': "link_send d l = l\<lparr>endA := a', wireAB := wireAB l @ emitted ?a a'\<rparr>"
    by (simp add: link_send_def a'_def Let_def)
  have bo': "both_ok (link_send d l)"
    using bo sm(1,2) by (simp add: both_ok_def l' same_tx_side_def)
  have n0: "0 < ?n" using ok by (simp add: sender_ok_def)
  consider "link_idle todo l" | "link_busy todo l" | "link_acking todo l"
    using inv by (auto simp: link_inv_def)
  then have "link_idle (todo @ [d]) (link_send d l) \<or> link_busy (todo @ [d]) (link_send d l) \<or>
      link_acking (todo @ [d]) (link_send d l)"
  proof cases
    case 1
    then have "link_busy (todo @ [d]) (link_send d l)"
      using sm d n0 unfolding link_idle_def link_busy_def l'
      by (intro exI [of _ "?n < length d"] exI [of _ "take ?n d"]) (auto simp: same_tx_side_def)
    then show ?thesis by simp
  next
    case 2
    then have "mVS ?a \<noteq> mVA ?a"
      using suc_mod8_neq [of "mVR (endB l)"] unfolding link_busy_def by (elim exE conjE) simp
    with 2 have "link_busy (todo @ [d]) (link_send d l)"
      using sm unfolding link_busy_def l' same_tx_side_def
      by (elim exE conjE) (intro exI conjI, auto simp: glue_append)
    then show ?thesis by simp
  next
    case 3
    then have "mVS ?a \<noteq> mVA ?a" by (auto simp: link_acking_def)
    with 3 have "link_acking (todo @ [d]) (link_send d l)"
      using sm unfolding link_acking_def l' same_tx_side_def by (auto simp: glue_append)
    then show ?thesis by simp
  qed
  then show ?thesis
    using link_invD(2,3) [OF inv] d bo' by (simp only: link_inv_def list_all_append) (simp add: l')
qed

lemma inv_AB:
  assumes inv: "link_inv sent todo l"
  shows "\<exists>todo'. link_inv sent todo' (link_deliverAB l)"
    and "link_busy todo l \<Longrightarrow> \<exists>todo'. link_inv sent todo' (link_deliverAB l) \<and>
           link_acking todo' (link_deliverAB l) \<and> endA (link_deliverAB l) = endA l"
proof -
  show busy: "\<exists>todo'. link_inv sent todo' (link_deliverAB l) \<and>
           link_acking todo' (link_deliverAB l) \<and> endA (link_deliverAB l) = endA l"
    if flight: "link_busy todo l"
  proof -
    let ?a = "endA l" and ?b = "endB l" and ?r = "mReassemblyBuffer (endB l)"
    obtain m d where w: "wireAB l = [segment_frame ?a (mVR ?b) m d]" "wireBA l = []"
      and vs: "mVS ?a = (mVR ?b + 1) AND 7" "mVA ?a = mVR ?b"
      and d: "d \<noteq> []" "length d \<le> n201 (mProfile ?a)" and m: "m \<longrightarrow> tx_msgs ?a \<noteq> []"
      and todo: "todo = (if m then glue (?r @ d) (tx_msgs ?a) else (?r @ d) # tx_msgs ?a)"
      using flight unfolding link_busy_def by blast
    have bo: "both_ok l" using inv by (simp add: link_inv_def)
    then have b: "idle_rx ?b" "mSapi ?a = mSapi ?b" "mVR ?a = mVS ?b" "seq_ok (mVR ?b)"
      "length d \<le> n201 (mProfile ?b)" "length d \<le> 63"
      using d by (auto simp: both_ok_def sender_ok_def)
    have big: "length x \<le> kMaxReassemblyBytes" if "x \<in> set todo" for x
      using inv that by (auto simp: link_inv_def list_all_iff)
    note sz = link_invD(2) [OF inv]
    have room: "length ?r + length d \<le> kMaxReassemblyBytes"
      using big [of "hd todo"] todo m by (cases m; cases "tx_msgs ?a") auto
    define b' where "b' = receiveFrame (segment_frame ?a (mVR ?b) m d) ?b"
    note rs = receive_segment [OF b(1,5,6) room b(4), of "mCommandBit ?a" m,
        folded b(2,3), folded b'_def]
    have l': "link_deliverAB l = l\<lparr>endB := b', wireAB := [],
        wireBA := [encodeFrame (makeRRFrame (mSapi ?a) (mVR ?b + 1) False)]\<rparr>"
      using rs(7) by (simp add: link_deliverAB_def w b'_def [symmetric] emitted_append)
    have rr: "makeRRFrame s ((v + 1) AND 7) False = makeRRFrame s (v + 1) False" for s v
      by (simp add: makeRRFrame_def)
    define todo' where "todo' = glue (mReassemblyBuffer b') (tx_msgs ?a)"
    have glue_nil: "glue [] xs = xs" for xs by (cases xs) simp_all
    have "both_ok (link_deliverAB l)"
      using bo rs by (simp add: both_ok_def l')
    moreover have "l3_data (outputs b') @ todo' = sent"
      using inv rs(6,7) todo m
      by (cases m; cases "tx_msgs ?a") (auto simp: link_inv_def todo'_def glue_nil)
    moreover have "link_acking todo' (link_deliverAB l)"
      using rs(2,6) vs m suc_mod8_neq [of "mVR ?b"]
      by (auto simp: link_acking_def l' rr todo'_def)
    ultimately have "link_inv sent todo' (link_deliverAB l) \<and> link_acking todo' (link_deliverAB l)"
      using sz by (simp add: link_inv_def l')
    then show ?thesis by (auto simp: l')
  qed
  show "\<exists>todo'. link_inv sent todo' (link_deliverAB l)"
  proof (cases "link_busy todo l")
    case False
    then have "wireAB l = []" using inv by (auto simp: link_inv_def link_idle_def link_acking_def)
    then have "link_deliverAB l = l" by (simp add: link_deliverAB_def)
    then show ?thesis using inv by auto
  qed (use busy in blast)
qed

lemma inv_BA:
  assumes inv: "link_inv sent todo l"
  shows "\<exists>todo'. link_inv sent todo' (link_deliverBA l)"
    and "link_acking todo l \<Longrightarrow> \<exists>todo'. link_inv sent todo' (link_deliverBA l) \<and>
           (if tx_msgs (endA l) = [] then link_idle todo' (link_deliverBA l)
            else link_busy todo' (link_deliverBA l) \<and>
              tx_msgs (endA (link_deliverBA l)) = next_queue (n201 (mProfile (endA l))) (tx_msgs (endA l)) \<and>
              0 < n201 (mProfile (endA l)))"
proof -
  let ?a = "endA l" and ?b = "endB l" and ?n = "n201 (mProfile (endA l))"
  show ack: "\<exists>todo'. link_inv sent todo' (link_deliverBA l) \<and>
           (if tx_msgs (endA l) = [] then link_idle todo' (link_deliverBA l)
            else link_busy todo' (link_deliverBA l) \<and>
              tx_msgs (endA (link_deliverBA l)) = next_queue ?n (tx_msgs (endA l)) \<and> 0 < ?n)"
    if "link_acking todo l"
  proof -
    note g = that [unfolded link_acking_def]
    have bo: "both_ok l" and ok: "sender_ok ?a" using inv by (simp_all add: link_inv_def both_ok_def)
    have n0: "0 < ?n" using ok by (simp add: sender_ok_def)
    have ne: "[] \<notin> set (tx_msgs ?a)"
      using ok tx_msgs_nonempty [of ?a] by (simp add: sender_ok_def entity_inv_def)
    define a' where "a' = receiveFrame (encodeFrame (makeRRFrame (mSapi ?a) (mVS ?a) False)) ?a"
    note ra = receive_ack [OF ok, folded a'_def]
    have l': "link_deliverBA l = l\<lparr>endA := a', wireBA := [], wireAB := emitted ?a a'\<rparr>"
      using g by (simp add: link_deliverBA_def a'_def Let_def)
    have bo': "both_ok (link_deliverBA l)"
      using bo ra(1,2) by (simp add: both_ok_def l' same_tx_side_def)
    have "sent = l3_data (outputs (endB (link_deliverBA l))) @ todo"
      using link_invD(3) [OF inv] by (simp add: l')
    note rest = this link_invD(2) [OF inv]
    show ?thesis
    proof (cases "tx_msgs ?a")
      case Nil
      then have "link_idle todo (link_deliverBA l)"
        using g ra by (simp add: link_idle_def l')
      then show ?thesis using bo' rest Nil by (auto simp: link_inv_def)
    next
      case (Cons m ms)
      then have "m \<noteq> []" using ne by auto
      then have "link_busy todo (link_deliverBA l)"
        using g ra Cons n0 unfolding link_busy_def l'
        by (intro exI [of _ "?n < length m"] exI [of _ "take ?n m"]) (auto simp: same_tx_side_def)
      then show ?thesis using bo' rest Cons n0 ra(5) [OF Cons] by (auto simp: link_inv_def l')
    qed
  qed
  show "\<exists>todo'. link_inv sent todo' (link_deliverBA l)"
  proof (cases "link_acking todo l")
    case False
    then have "wireBA l = []" using inv by (auto simp: link_inv_def link_idle_def link_busy_def)
    then have "link_deliverBA l = l" by (simp add: link_deliverBA_def)
    then show ?thesis using inv by auto
  qed (use ack in blast)
qed

lemma runs_inv:
  assumes "link_runs l0 sent l" and "link_inv [] [] l0"
  shows "\<exists>todo. link_inv sent todo l"
  using assms(1)
proof (induction rule: link_runs.induct)
  case run_start
  then show ?case using assms(2) by blast
next
  case (run_send sent l d)
  then show ?case using inv_send by blast
next
  case (run_AB sent l)
  then show ?case using inv_AB(1) by blast
next
  case (run_BA sent l)
  then show ?case using inv_BA(1) by blast
qed

text \<open>
  The starting point: both ends established with the same SAPI and agreeing sequence numbers,
  nothing queued and nothing on the wires.
\<close>

definition link_start :: "Link \<Rightarrow> bool" where
  "link_start l \<longleftrightarrow> both_ok l \<and> link_idle [] l \<and> l3_data (outputs (endB l)) = []"

lemma start_inv: "link_start l \<Longrightarrow> link_inv [] [] l"
  by (simp add: link_start_def link_inv_def)

text \<open>
  C8. Transfer is in order, complete and uncorrupted under every interleaving: at any moment
  the messages the receiving entity has handed to its layer 3 are a prefix of the messages given
  to the sending entity, with segmentation, encoding, decoding and reassembly in between, whatever
  the order in which sends and deliveries on the two wires happen.
\<close>

theorem transfer_in_order:
  assumes "link_start l0" and "link_runs l0 sent l"
  shows "\<exists>todo. sent = l3_data (outputs (endB l)) @ todo"
  using runs_inv [OF assms(2) start_inv [OF assms(1)]] by (auto simp: link_inv_def)

section \<open>The transfer completes\<close>

definition link_round :: "Link \<Rightarrow> Link" where
  "link_round l = link_deliverBA (link_deliverAB l)"

lemma next_queue_smaller:
  "0 < n \<Longrightarrow> tx \<noteq> [] \<Longrightarrow> [] \<notin> set tx \<Longrightarrow>
   sum_list (map length (next_queue n tx)) < sum_list (map length tx)"
  by (cases tx) auto

lemma acking_to_idle:
  assumes "link_inv sent todo l" "link_acking todo l"
  shows "\<exists>k todo'. link_inv sent todo' ((link_round ^^ k) (link_deliverBA l)) \<and>
           link_idle todo' ((link_round ^^ k) (link_deliverBA l))"
  using assms
proof (induction "sum_list (map length (tx_msgs (endA l)))" arbitrary: l todo rule: less_induct)
  case less
  obtain todo' where t: "link_inv sent todo' (link_deliverBA l)"
    "if tx_msgs (endA l) = [] then link_idle todo' (link_deliverBA l)
     else link_busy todo' (link_deliverBA l) \<and>
       tx_msgs (endA (link_deliverBA l)) = next_queue (n201 (mProfile (endA l))) (tx_msgs (endA l)) \<and>
       0 < n201 (mProfile (endA l))"
    using inv_BA(2) [OF less.prems] by blast
  show ?case
  proof (cases "tx_msgs (endA l) = []")
    case True
    then show ?thesis using t by (intro exI [of _ 0] exI [of _ todo']) simp
  next
    case False
    let ?l1 = "link_deliverBA l"
    let ?l2 = "link_deliverAB ?l1"
    obtain todo2 where t2: "link_inv sent todo2 ?l2" "link_acking todo2 ?l2" "endA ?l2 = endA ?l1"
      using inv_AB(2) [OF t(1)] t(2) False by auto
    have "[] \<notin> set (tx_msgs (endA l))"
      using link_invD(1) [OF less.prems(1)] tx_msgs_nonempty [of "endA l"]
      by (simp add: both_ok_def sender_ok_def entity_inv_def)
    then have "sum_list (map length (tx_msgs (endA ?l2))) < sum_list (map length (tx_msgs (endA l)))"
      using False t(2) t2(3) by (simp add: next_queue_smaller)
    then obtain k todo' where "link_inv sent todo' ((link_round ^^ k) (link_deliverBA ?l2))"
      "link_idle todo' ((link_round ^^ k) (link_deliverBA ?l2))"
      using less.hyps t2(1,2) by blast
    then show ?thesis
      by (intro exI [of _ "Suc k"] exI [of _ todo']) (simp only: funpow_Suc_right o_apply link_round_def)
  qed
qed

lemma round_to_idle:
  assumes "link_inv sent todo l"
  shows "\<exists>k todo'. link_inv sent todo' ((link_round ^^ k) l) \<and> link_idle todo' ((link_round ^^ k) l)"
proof -
  consider "link_idle todo l" | "link_busy todo l" | "link_acking todo l"
    using assms by (auto simp: link_inv_def)
  then show ?thesis
  proof cases
    case 1
    then show ?thesis using assms by (intro exI [of _ 0] exI [of _ todo]) simp
  next
    case 2
    then obtain todo2 where "link_inv sent todo2 (link_deliverAB l)" "link_acking todo2 (link_deliverAB l)"
      using inv_AB(2) [OF assms] by blast
    from acking_to_idle [OF this] show ?thesis
      by (metis funpow_Suc_right link_round_def o_apply)
  next
    case 3
    then have "link_deliverAB l = l" by (simp add: link_acking_def link_deliverAB_def)
    with acking_to_idle [OF assms 3] show ?thesis
      by (metis funpow_Suc_right link_round_def o_apply)
  qed
qed

text \<open>
  C9. The transfer completes: from any point of any interleaving, delivering what is on the
  wires for finitely many rounds brings every message sent to the receiver's layer 3, empties
  both wires and the transmit queue, and leaves the line free.
\<close>

theorem transfer_completes:
  assumes "link_start l0" and "link_runs l0 sent l"
  shows "\<exists>k. let l' = (link_round ^^ k) l
             in l3_data (outputs (endB l')) = sent \<and> wireAB l' = [] \<and> wireBA l' = [] \<and>
                tx_msgs (endA l') = [] \<and> \<not> hasOutstandingFrame (endA l')"
proof -
  obtain todo where "link_inv sent todo l"
    using runs_inv [OF assms(2) start_inv [OF assms(1)]] by blast
  then obtain k todo' where k: "link_inv sent todo' ((link_round ^^ k) l)"
    "link_idle todo' ((link_round ^^ k) l)"
    using round_to_idle by blast
  then have "todo' = []" by (simp add: link_idle_def)
  then show ?thesis
    using k link_invD(3) [OF k(1)]
    by (intro exI [of _ k]) (simp add: Let_def link_idle_def hasOutstandingFrame_def)
qed

text \<open>
  A link set up by the handshake of the code: the mobile station sends SABME, the base station
  answers UA. Two messages are sent, the first of which needs two segments.
\<close>

definition ms_end :: LAPDmEntity where
  "ms_end = receiveFrame [0x01, 0x73, 0x01]
     (snd (sendSABME [] (lapdm_open SAPI0 False (mkLAPDmEntity profile_SDCCH True True))))"

definition bts_end :: LAPDmEntity where
  "bts_end = receiveFrame [0x01, 0x3F, 0x01] (lapdm_open SAPI0 True (mkLAPDmEntity profile_SDCCH True True))"

definition handshake_link :: Link where
  "handshake_link = \<lparr>endA = ms_end, endB = bts_end, wireAB = [], wireBA = []\<rparr>"

lemma handshake_link_start: "link_start handshake_link"
  by code_simp

lemma handshake_run:
  "link_runs handshake_link [replicate 30 0x2B, [0x05, 0x08]]
     (link_send [0x05, 0x08] (link_deliverAB (link_send (replicate 30 0x2B) handshake_link)))"
proof -
  have "link_runs handshake_link ([] @ [replicate 30 0x2B]) (link_send (replicate 30 0x2B) handshake_link)"
    by (rule run_send [OF run_start]) (simp_all add: kMaxReassemblyBytes_def)
  then have "link_runs handshake_link (([] @ [replicate 30 0x2B]) @ [[0x05, 0x08]])
     (link_send [0x05, 0x08] (link_deliverAB (link_send (replicate 30 0x2B) handshake_link)))"
    by (rule run_send [OF run_AB]) (simp_all add: kMaxReassemblyBytes_def)
  then show ?thesis by simp
qed

theorem transfer_in_order_witness:
  "\<exists>todo. [replicate 30 0x2B, [0x05, 0x08]] =
     l3_data (outputs (endB (link_send [0x05, 0x08]
        (link_deliverAB (link_send (replicate 30 0x2B) handshake_link))))) @ todo"
  by (rule transfer_in_order [OF handshake_link_start handshake_run])

theorem transfer_completes_witness:
  "\<exists>k. let l' = (link_round ^^ k) (link_send [0x05, 0x08]
               (link_deliverAB (link_send (replicate 30 0x2B) handshake_link)))
       in l3_data (outputs (endB l')) = [replicate 30 0x2B, [0x05, 0x08]] \<and>
          wireAB l' = [] \<and> wireBA l' = [] \<and>
          tx_msgs (endA l') = [] \<and> \<not> hasOutstandingFrame (endA l')"
  by (rule transfer_completes [OF handshake_link_start handshake_run])

section \<open>A stale outstanding frame\<close>

text \<open>
  C10. An acknowledgement frees the window but does not clear the record of the outstanding
  frame. A DM response with F set that arrives in an established link with nothing
  unacknowledged therefore starts T200, and when it expires the I-frame that the peer has
  acknowledged already is transmitted once more.
\<close>

theorem acknowledged_frame_retransmitted:
  assumes inv: "entity_inv e" and st: "mState e = LinkEstablished" "mSapi e = SAPI0 \<or> mSapi e = SAPI3"
    and acked: "\<not> hasOutstandingFrame e" "mPending e = PendingIFrame" "mRC e = 0"
    and cb: "mL1Callback e" "mL3Callback e"
  shows "outputs (expireT200 (receiveFrame (encodeFrame (makeDMFrame (mSapi e) True)) e)) =
     outputs e @ [L3_rx (mSapi e) L3_RELEASE_INDICATION [],
                  L1_tx (encodeFrame (makeIFrame (mSapi e) (mCommandBit e) (mVR e) (mPendingNs e)
                           True (mPendingMore e) (mPendingInfo e)))]"
proof -
  define e' where "e' = receiveFrame (encodeFrame (makeDMFrame (mSapi e) True)) e"
  have dec: "decode (encodeFrame (makeDMFrame (mSapi e) True)) = Inr (makeDMFrame (mSapi e) True)"
    using st(2) by (simp add: decode_make_frame)
  have e': "e' = deliverL3 L3_RELEASE_INDICATION []
      (restartT200 (e\<lparr>mFramesReceived := mFramesReceived e + 1\<rparr>))"
    using st(1) by (simp add: e'_def receiveFrame_def dec Let_def)
      (simp add: makeDMFrame_def frame0_def receiveUFrame_def handleDM_def)
  have "entity_inv e'" using inv by (simp add: e'_def receiveFrame_inv)
  moreover have "mT200Active e'" "mRC e' \<le> n200 (mProfile e')"
    using acked by (simp_all add: e' restartT200_def)
  ultimately have "outputs (expireT200 e') = outputs e' @ pendingOutput e'"
    by (rule expire_within_budget)
  then show ?thesis
    using acked cb by (simp add: e'_def [symmetric])
      (simp add: e' restartT200_def pendingOutput_def pendingFrames_def)
qed

theorem acknowledged_frame_retransmitted_witness:
  "let e = endA (link_round (link_send [0x05, 0x08] handshake_link))
   in \<not> hasOutstandingFrame e \<and>
      outputs (expireT200 (receiveFrame (encodeFrame (makeDMFrame (mSapi e) True)) e)) =
     outputs e @ [L3_rx (mSapi e) L3_RELEASE_INDICATION [],
                  L1_tx (encodeFrame (makeIFrame (mSapi e) (mCommandBit e) (mVR e) (mPendingNs e)
                           True (mPendingMore e) (mPendingInfo e)))]"
proof -
  let ?e = "endA (link_round (link_send [0x05, 0x08] handshake_link))"
  have "entity_inv ?e \<and> mState ?e = LinkEstablished \<and> mSapi ?e = SAPI0 \<and>
    \<not> hasOutstandingFrame ?e \<and> mPending ?e = PendingIFrame \<and> mRC ?e = 0 \<and>
    mL1Callback ?e \<and> mL3Callback ?e"
    by code_simp
  then have f: "entity_inv ?e" "mState ?e = LinkEstablished" "mSapi ?e = SAPI0 \<or> mSapi ?e = SAPI3"
    "\<not> hasOutstandingFrame ?e" "mPending ?e = PendingIFrame" "mRC ?e = 0"
    "mL1Callback ?e" "mL3Callback ?e"
    by blast+
  show ?thesis unfolding Let_def using f(4) acknowledged_frame_retransmitted [OF f] by (rule conjI)
qed

end
