(* ===== verification/L3_Header.thy ===== *)
theory L3_Header
  imports Gsm_Types
begin

text \<open>
  The two-octet layer 3 header: \<^verbatim>\<open>l3header.h\<close> and \<^verbatim>\<open>l3header.cpp\<close>.
\<close>

record L3Header =
  hd_pd :: L3PD
  hd_mti :: int
  hd_ti :: nat
  hd_tif :: bool

definition kRRTifShortBase :: int where
  "kRRTifShortBase = 0x100"

definition header_isValid :: "L3Header \<Rightarrow> bool" where
  "header_isValid h \<longleftrightarrow> hd_pd h \<noteq> PD_Undefined"

definition header_mti :: "L3PD \<Rightarrow> bool \<Rightarrow> u8 \<Rightarrow> int" where
  "header_mti p tif b1 =
     (if p = MobilityManagement \<or> p = CallControl \<or> p = NonCallSS \<or> p = BroadcastCallControl
         \<or> p = GroupCallControl
      then uint (b1 AND 0x3F)
      else if p = RadioResource \<and> tif then kRRTifShortBase OR uint (b1 AND 0x1F)
      else if p = PD_SMS then uint (b1 AND 0x1F)
      else uint b1)"

definition parseL3Header :: "bytes \<Rightarrow> L3Header Expected" where
  "parseL3Header data =
     (if length data < 2 then perr TruncatedInput ''L3 header requires at least 2 bytes''
      else let b0 = data ! 0; b1 = data ! 1; v = b0 AND 0x0F; p = L3PD_of_nibble v
      in if v = 0x02 \<or> v = 0x04 \<or> v = 0x07
         then perr InvalidPD ''Reserved Protocol Discriminator''
      else let tif = (drop_bit 4 b0 AND 0x01 \<noteq> 0)
      in Inr \<lparr>hd_pd = p, hd_mti = header_mti p tif b1, hd_ti = unat (drop_bit 5 b0 AND 0x07),
              hd_tif = tif\<rparr>)"

lemma short_mti: "0 \<le> n \<Longrightarrow> n < 32 \<Longrightarrow> 0x100 OR n = (0x100 + n :: int)"
proof -
  assume n: "0 \<le> n" "n < 32"
  have "0x100 AND n = (0 :: int)"
  proof (rule bit_eqI)
    fix k :: nat
    have "bit n k \<Longrightarrow> k < 5"
    proof (rule ccontr)
      assume "bit n k" "\<not> k < 5"
      moreover have "take_bit 5 n = n" using n by (simp add: take_bit_int_eq_self)
      ultimately show False by (metis bit_take_bit_iff)
    qed
    moreover have "bit (0x100 :: int) k \<Longrightarrow> k = 8"
      using bit_exp_iff [where ?'a = int, of 8 k] by simp
    ultimately show "bit (0x100 AND n) k = bit 0 k" by (auto simp: bit_and_iff)
  qed
  then show ?thesis by (simp add: disjunctive_add_eq_or)
qed

text \<open>
  The header parser on every input, in arithmetic on the two octets: what is an error, the discriminator in the low half of the
  first octet, above it the flag and the transaction identifier, and the message type of each form of the header. The types of
  short RR messages lie behind all others, so they collide neither with a type of one octet nor with the internal types
  0x181 and 0x182 of the length-framed RR messages.
\<close>

lemma octet_fields:
  "unat (x AND 0x0F :: u8) = unat x mod 16" "(drop_bit 4 x AND 0x01 \<noteq> (0 :: u8)) \<longleftrightarrow> odd (unat x div 16)"
  "unat (drop_bit 5 x AND 0x07 :: u8) = unat x div 32" "uint (x AND 0x3F :: u8) = uint x mod 64" "uint (x AND 0x1F :: u8) = uint x mod 32"
proof -
  have "x AND 0x0F = take_bit 4 x" "drop_bit 5 x AND 0x07 = take_bit 3 (drop_bit 5 x)" "x AND 0x3F = take_bit 6 x" "x AND 0x1F = take_bit 5 x"
      "drop_bit 4 x AND 0x01 = take_bit 1 (drop_bit 4 x)"
    by (simp_all add: take_bit_eq_mask mask_eq_exp_minus_1)
  note m = this
  show "unat (x AND 0x0F) = unat x mod 16" "uint (x AND 0x3F) = uint x mod 64" "uint (x AND 0x1F) = uint x mod 32"
    by (simp_all only: m unsigned_take_bit_eq) (simp_all add: take_bit_eq_mod)
  have lt: "unat x < 2 ^ LENGTH(8)" by (rule unsigned_less)
  then show "unat (drop_bit 5 x AND 0x07) = unat x div 32"
    by (simp only: m unsigned_take_bit_eq unsigned_drop_bit_eq) (simp add: drop_bit_eq_div take_bit_eq_mod)
  have "drop_bit 4 x AND 0x01 \<noteq> 0 \<longleftrightarrow> unat (take_bit 1 (drop_bit 4 x)) \<noteq> 0" by (simp only: m(5) unat_eq_0)
  with lt show "drop_bit 4 x AND 0x01 \<noteq> 0 \<longleftrightarrow> odd (unat x div 16)"
    by (simp only: unsigned_take_bit_eq unsigned_drop_bit_eq) (simp add: take_bit_eq_mod drop_bit_eq_div odd_iff_mod_2_eq_one)
qed

lemma parseL3Header_spec:
  "parseL3Header data =
     (if length data < 2 then perr TruncatedInput ''L3 header requires at least 2 bytes''
      else let a = unat (data ! 0); b = uint (data ! 1); p = L3PD_of_nibble (word_of_nat (a mod 16)); short = odd (a div 16)
      in if a mod 16 \<in> {2, 4, 7} then perr InvalidPD ''Reserved Protocol Discriminator''
         else Inr \<lparr>hd_pd = p,
           hd_mti = (if p \<in> {MobilityManagement, CallControl, NonCallSS, BroadcastCallControl, GroupCallControl} then b mod 64
                     else if p = RadioResource \<and> short then 0x100 + b mod 32 else if p = PD_SMS then b mod 32 else b),
           hd_ti = a div 32, hd_tif = short\<rparr>)"
proof -
  have nib: "word_of_nat (unat (data ! 0) mod 16) = data ! 0 AND 0x0F" by (simp flip: octet_fields(1))
  have r: "data ! 0 AND 0x0F = 0x02 \<longleftrightarrow> unat (data ! 0) mod 16 = 2" "data ! 0 AND 0x0F = 0x04 \<longleftrightarrow> unat (data ! 0) mod 16 = 4"
      "data ! 0 AND 0x0F = 0x07 \<longleftrightarrow> unat (data ! 0) mod 16 = 7"
    by (simp_all flip: octet_fields(1) add: word_unat_eq_iff)
  have mti: "header_mti p tif x = (if p \<in> {MobilityManagement, CallControl, NonCallSS, BroadcastCallControl, GroupCallControl} then uint x mod 64
      else if p = RadioResource \<and> tif then 0x100 + uint x mod 32 else if p = PD_SMS then uint x mod 32 else uint x)" for p tif x
    using short_mti [of "uint x mod 32"] by (simp add: header_mti_def kRRTifShortBase_def octet_fields(4,5))
  show ?thesis by (simp add: parseL3Header_def Let_def nib r mti octet_fields(2,3))
qed

end
