(* ===== verification/L3_Timer.thy ===== *)
theory L3_Timer
  imports Prelude
begin

text \<open>
  The protocol timers of \<^verbatim>\<open>stack/l3_timer.h\<close> and \<^verbatim>\<open>stack/l3_timer.cpp\<close>: the timer identifiers with
  their default durations, the single timer \<open>L3Timer\<close>, and the \<open>TimerManager\<close> with its 32 slots.
  Durations are the signed counts of \<^verbatim>\<open>std::chrono::milliseconds\<close>. The observer callback is modelled
  by the list of notifications it received.
\<close>

section \<open>Identifiers\<close>

datatype L3TimerId =
    T3101 | T3102 | T3103 | T3106 | T3108 | T3109 | T3111 | T3112 | T3113 | T3310 | T3311 | T3312
  | T3314 | T3315 | T3320 | T3321 | T3322 | T3334 | T3395 | Timer_Unknown

fun timer_index :: "L3TimerId \<Rightarrow> nat" where
  "timer_index T3101 = 0" | "timer_index T3102 = 1" | "timer_index T3103 = 2"
| "timer_index T3106 = 3" | "timer_index T3108 = 4" | "timer_index T3109 = 5"
| "timer_index T3111 = 6" | "timer_index T3112 = 7" | "timer_index T3113 = 8"
| "timer_index T3310 = 9" | "timer_index T3311 = 10" | "timer_index T3312 = 11"
| "timer_index T3314 = 12" | "timer_index T3315 = 13" | "timer_index T3320 = 14"
| "timer_index T3321 = 15" | "timer_index T3322 = 16" | "timer_index T3334 = 17"
| "timer_index T3395 = 18" | "timer_index Timer_Unknown = 255"

definition kDefaultDurations :: "int list" where
  "kDefaultDurations =
     [3000, 3000, 5000, 3000, 3000, 30000, 3000, 3000, 3000, 5000, 30000, 3000, 3000, 3000, 3000,
      3000, 3000, 3000, 3000]"

definition kTimerNames :: "string list" where
  "kTimerNames =
     [''T3101'', ''T3102'', ''T3103'', ''T3106'', ''T3108'', ''T3109'', ''T3111'', ''T3112'',
      ''T3113'', ''T3310'', ''T3311'', ''T3312'', ''T3314'', ''T3315'', ''T3320'', ''T3321'',
      ''T3322'', ''T3334'', ''T3395'']"

definition l3TimerDefault :: "L3TimerId \<Rightarrow> int" where
  "l3TimerDefault i =
     (if timer_index i < length kTimerNames then kDefaultDurations ! timer_index i else 3000)"

definition l3TimerName :: "L3TimerId \<Rightarrow> string" where
  "l3TimerName i =
     (if timer_index i < length kTimerNames then kTimerNames ! timer_index i else ''Unknown'')"

section \<open>A single timer\<close>

record L3Timer =
  tmId :: L3TimerId
  tmExpiry :: int
  tmRemaining :: int
  tmRunning :: bool

definition timer0 :: L3Timer where
  "timer0 = \<lparr>tmId = Timer_Unknown, tmExpiry = 0, tmRemaining = 0, tmRunning = False\<rparr>"

definition mkL3Timer :: "L3TimerId \<Rightarrow> int \<Rightarrow> L3Timer" where
  "mkL3Timer i d = \<lparr>tmId = i, tmExpiry = d, tmRemaining = d, tmRunning = False\<rparr>"

definition timer_start :: "L3Timer \<Rightarrow> bool \<times> L3Timer" where
  "timer_start t = (\<not> tmRunning t, t\<lparr>tmRunning := True, tmRemaining := tmExpiry t\<rparr>)"

definition timer_stop :: "L3Timer \<Rightarrow> L3Timer" where
  "timer_stop t = t\<lparr>tmRunning := False\<rparr>"

definition timer_tick :: "int \<Rightarrow> L3Timer \<Rightarrow> bool \<times> L3Timer" where
  "timer_tick delta t =
     (if \<not> tmRunning t then (False, t)
      else if tmRemaining t \<le> delta then (True, t\<lparr>tmRunning := False, tmRemaining := 0\<rparr>)
      else (False, t\<lparr>tmRemaining := tmRemaining t - delta\<rparr>))"

definition timer_remaining :: "L3Timer \<Rightarrow> int" where
  "timer_remaining t = (if tmRunning t then tmRemaining t else 0)"

definition timer_reconfigure :: "L3TimerId \<Rightarrow> int \<Rightarrow> L3Timer \<Rightarrow> L3Timer" where
  "timer_reconfigure i d t = t\<lparr>tmId := i, tmExpiry := d, tmRemaining := d, tmRunning := False\<rparr>"

section \<open>The timer manager\<close>

definition MAX_TIMERS :: nat where
  "MAX_TIMERS = 32"

text \<open>\<open>tmObserved\<close>: an observer is registered; \<open>tmNotes\<close>: the values it was called with.\<close>

record TimerManager =
  mTimers :: "L3Timer list"
  mInitialized :: "bool list"
  tmObserved :: bool
  tmNotes :: "bool list"

definition timers0 :: TimerManager where
  "timers0 = \<lparr>mTimers = replicate MAX_TIMERS timer0, mInitialized = replicate MAX_TIMERS False,
              tmObserved = False, tmNotes = []\<rparr>"

definition notifyActive :: "bool \<Rightarrow> TimerManager \<Rightarrow> TimerManager" where
  "notifyActive b m = (if tmObserved m then m\<lparr>tmNotes := tmNotes m @ [b]\<rparr> else m)"

definition slot_running :: "TimerManager \<Rightarrow> nat \<Rightarrow> bool" where
  "slot_running m i \<longleftrightarrow> mInitialized m ! i \<and> tmRunning (mTimers m ! i)"

definition runningCount :: "TimerManager \<Rightarrow> nat" where
  "runningCount m = length (filter (slot_running m) [0..<MAX_TIMERS])"

definition tm_start_with :: "L3TimerId \<Rightarrow> int \<Rightarrow> TimerManager \<Rightarrow> bool \<times> TimerManager" where
  "tm_start_with i d m =
     (let idx = timer_index i
      in if idx \<ge> MAX_TIMERS then (False, m)
      else let wasActive = runningCount m > 0;
               firstStart = (\<not> tmRunning (mTimers m ! idx));
               t = snd (timer_start (timer_reconfigure i d (mTimers m ! idx)));
               m1 = m\<lparr>mTimers := (mTimers m)[idx := t], mInitialized := (mInitialized m)[idx := True]\<rparr>
           in (firstStart, if \<not> wasActive \<and> runningCount m1 > 0 then notifyActive True m1 else m1))"

definition tm_start :: "L3TimerId \<Rightarrow> TimerManager \<Rightarrow> bool \<times> TimerManager" where
  "tm_start i m = tm_start_with i (l3TimerDefault i) m"

definition tm_stop :: "L3TimerId \<Rightarrow> TimerManager \<Rightarrow> TimerManager" where
  "tm_stop i m =
     (let idx = timer_index i
      in if idx < MAX_TIMERS \<and> mInitialized m ! idx
      then let wasActive = runningCount m > 0;
               m1 = m\<lparr>mTimers := (mTimers m)[idx := timer_stop (mTimers m ! idx)]\<rparr>
           in if wasActive \<and> runningCount m1 = 0 then notifyActive False m1 else m1
      else m)"

definition stop_slots :: "TimerManager \<Rightarrow> L3Timer list" where
  "stop_slots m =
     map (\<lambda>i. if mInitialized m ! i then timer_stop (mTimers m ! i) else mTimers m ! i)
       [0..<MAX_TIMERS]"

definition tm_stopAll :: "TimerManager \<Rightarrow> TimerManager" where
  "tm_stopAll m =
     (let wasActive = runningCount m > 0; m1 = m\<lparr>mTimers := stop_slots m\<rparr>
      in if wasActive \<and> runningCount m1 = 0 then notifyActive False m1 else m1)"

text \<open>
  The loop of the buffer version of \<^verbatim>\<open>tick\<close> from slot \<open>i\<close> on; \<open>cap\<close> is the size of the caller's
  buffer and \<open>out\<close> what is written to it so far.
\<close>

definition tick_slot :: "int \<Rightarrow> nat \<Rightarrow> nat \<Rightarrow> TimerManager \<times> L3TimerId list \<Rightarrow> TimerManager \<times> L3TimerId list" where
  "tick_slot delta cap i s =
     (case s of (m, out) \<Rightarrow>
        if slot_running m i
        then (case timer_tick delta (mTimers m ! i) of (expired, t) \<Rightarrow>
                if expired
                then (if length out < cap
                      then (m\<lparr>mTimers := (mTimers m)[i := t]\<rparr>, out @ [tmId t])
                      else (m\<lparr>mTimers := (mTimers m)[i := snd (timer_start (timer_reconfigure (tmId t) 1 t))]\<rparr>, out))
                else (m\<lparr>mTimers := (mTimers m)[i := t]\<rparr>, out))
        else (m, out))"

definition tm_tick :: "int \<Rightarrow> nat \<Rightarrow> TimerManager \<Rightarrow> L3TimerId list \<times> TimerManager" where
  "tm_tick delta cap m =
     (let wasActive = runningCount m > 0;
          (m1, out) = fold (tick_slot delta cap) [0..<MAX_TIMERS] (m, [])
      in (out, if wasActive \<and> runningCount m1 = 0 then notifyActive False m1 else m1))"

text \<open>
  The callback version takes a snapshot of the running slots first; the callback may change the
  manager.
\<close>

definition tick_cb_slot ::
  "int \<Rightarrow> (L3TimerId \<Rightarrow> TimerManager \<Rightarrow> TimerManager) \<Rightarrow> (nat \<Rightarrow> bool) \<Rightarrow> nat \<Rightarrow> TimerManager \<Rightarrow> TimerManager" where
  "tick_cb_slot delta onExpired running i m =
     (if running i
      then let tid = tmId (mTimers m ! i);
               (expired, t) = timer_tick delta (mTimers m ! i);
               m1 = m\<lparr>mTimers := (mTimers m)[i := t]\<rparr>
           in if expired then onExpired tid m1 else m1
      else m)"

definition tm_tick_cb ::
  "int \<Rightarrow> (L3TimerId \<Rightarrow> TimerManager \<Rightarrow> TimerManager) \<Rightarrow> TimerManager \<Rightarrow> TimerManager" where
  "tm_tick_cb delta onExpired m =
     (let wasActive = runningCount m > 0;
          running = (\<lambda>i. slot_running m i);
          m1 = fold (tick_cb_slot delta onExpired running) [0..<MAX_TIMERS] m
      in if wasActive \<and> runningCount m1 = 0 then notifyActive False m1 else m1)"

definition tm_isRunning :: "L3TimerId \<Rightarrow> TimerManager \<Rightarrow> bool" where
  "tm_isRunning i m = (timer_index i < MAX_TIMERS \<and> mInitialized m ! timer_index i
                         \<and> tmRunning (mTimers m ! timer_index i))"

definition tm_remaining :: "L3TimerId \<Rightarrow> TimerManager \<Rightarrow> int" where
  "tm_remaining i m =
     (if timer_index i < MAX_TIMERS \<and> mInitialized m ! timer_index i
      then timer_remaining (mTimers m ! timer_index i) else 0)"

definition tm_get :: "L3TimerId \<Rightarrow> TimerManager \<Rightarrow> L3Timer option" where
  "tm_get i m =
     (if timer_index i < MAX_TIMERS \<and> mInitialized m ! timer_index i
      then Some (mTimers m ! timer_index i) else None)"

section \<open>The invariant\<close>

text \<open>
  A slot that is in use holds the timer whose identifier has that index; an unused slot does not
  run. With an observer, the last notification tells whether a timer runs.
\<close>

definition tm_inv :: "TimerManager \<Rightarrow> bool" where
  "tm_inv m \<longleftrightarrow>
     length (mTimers m) = MAX_TIMERS \<and> length (mInitialized m) = MAX_TIMERS \<and>
     (\<forall>i < MAX_TIMERS.
        (mInitialized m ! i \<longrightarrow> timer_index (tmId (mTimers m ! i)) = i) \<and>
        (\<not> mInitialized m ! i \<longrightarrow> \<not> tmRunning (mTimers m ! i)))"

lemma timer_index_inj: "timer_index a = timer_index b \<Longrightarrow> a = b"
  by (cases a; cases b) simp_all

lemma timer_index_lt: "timer_index i < MAX_TIMERS \<longleftrightarrow> i \<noteq> Timer_Unknown"
  by (cases i) (simp_all add: MAX_TIMERS_def)

lemma runningCount_pos: "0 < runningCount m \<longleftrightarrow> (\<exists>i < MAX_TIMERS. slot_running m i)"
  by (auto simp: runningCount_def filter_empty_conv)

lemma runningCount_zero: "runningCount m = 0 \<longleftrightarrow> (\<forall>i < MAX_TIMERS. \<not> slot_running m i)"
  using runningCount_pos [of m] by auto

lemma notifyActive_fields [simp]:
  "mTimers (notifyActive b m) = mTimers m" "mInitialized (notifyActive b m) = mInitialized m"
  "tmObserved (notifyActive b m) = tmObserved m"
  by (simp_all add: notifyActive_def)

lemma slot_running_notify [simp]: "slot_running (notifyActive b m) = slot_running m"
  by (auto simp: slot_running_def)

lemma runningCount_notify [simp]: "runningCount (notifyActive b m) = runningCount m"
  by (simp add: runningCount_def)

lemma tm_inv_notify [simp]: "tm_inv (notifyActive b m) = tm_inv m"
  by (simp add: tm_inv_def)

lemma timers0_inv: "tm_inv timers0"
  by (simp add: tm_inv_def timers0_def timer0_def)

section \<open>One pass over the slots\<close>

definition due :: "int \<Rightarrow> TimerManager \<Rightarrow> nat \<Rightarrow> bool" where
  "due delta m i \<longleftrightarrow> slot_running m i \<and> tmRemaining (mTimers m ! i) \<le> delta"

definition due_ids :: "int \<Rightarrow> TimerManager \<Rightarrow> L3TimerId list" where
  "due_ids delta m = map (\<lambda>i. tmId (mTimers m ! i)) (filter (due delta m) [0..<MAX_TIMERS])"

text \<open>How many timers expire before slot \<open>i\<close> is looked at.\<close>

definition rank :: "int \<Rightarrow> TimerManager \<Rightarrow> nat \<Rightarrow> nat" where
  "rank delta m i = length (filter (due delta m) [0..<i])"

text \<open>The timer in slot \<open>i\<close> after the pass.\<close>

definition slot_after :: "int \<Rightarrow> nat \<Rightarrow> TimerManager \<Rightarrow> nat \<Rightarrow> L3Timer" where
  "slot_after delta cap m i =
     (let t = mTimers m ! i
      in if \<not> slot_running m i then t
         else if \<not> due delta m i then t\<lparr>tmRemaining := tmRemaining t - delta\<rparr>
         else if rank delta m i < cap then t\<lparr>tmRunning := False, tmRemaining := 0\<rparr>
         else t\<lparr>tmExpiry := 1, tmRemaining := 1, tmRunning := True\<rparr>)"

lemma tick_pass:
  assumes len: "length (mTimers m) = MAX_TIMERS" and k: "k \<le> MAX_TIMERS"
  shows "fold (tick_slot delta cap) [0..<k] (m, []) =
     (m\<lparr>mTimers := map (slot_after delta cap m) [0..<k] @ drop k (mTimers m)\<rparr>,
      take cap (map (\<lambda>i. tmId (mTimers m ! i)) (filter (due delta m) [0..<k])))"
  using k
proof (induction k)
  case 0
  then show ?case by simp
next
  case (Suc k)
  define ts where "ts = map (slot_after delta cap m) [0..<k] @ drop k (mTimers m)"
  define out where "out = take cap (map (\<lambda>i. tmId (mTimers m ! i)) (filter (due delta m) [0..<k]))"
  have kl: "k < length (mTimers m)" using Suc.prems len by simp
  have at: "ts ! k = mTimers m ! k" using kl by (simp add: ts_def nth_append)
  have upd: "ts[k := t] = map (slot_after delta cap m) [0..<k] @ t # drop (Suc k) (mTimers m)" for t
    using kl by (simp add: ts_def list_update_append Cons_nth_drop_Suc [symmetric])
  have step: "fold (tick_slot delta cap) [0..<Suc k] (m, []) = tick_slot delta cap k (m\<lparr>mTimers := ts\<rparr>, out)"
    using Suc by (simp add: ts_def out_def)
  have run: "slot_running (m\<lparr>mTimers := ts\<rparr>) k = slot_running m k"
    by (simp add: slot_running_def at)
  have same: "ts[k := mTimers m ! k] = ts" using kl by (simp add: ts_def nth_append list_update_append Cons_nth_drop_Suc [symmetric])
  have rank: "length out < cap \<longleftrightarrow> rank delta m k < cap"
    by (auto simp: out_def rank_def min_def)
  have room: "rank delta m k < cap \<Longrightarrow> take cap (xs @ [y]) = take cap xs @ [y]"
    and full: "\<not> rank delta m k < cap \<Longrightarrow> take cap (xs @ [y]) = take cap xs"
    if "length xs = rank delta m k" for xs :: "L3TimerId list" and y
    using that by simp_all
  consider "\<not> slot_running m k" | "slot_running m k" "\<not> due delta m k"
    | "slot_running m k" "due delta m k" by blast
  then show ?case
  proof cases
    case 1
    then have "slot_after delta cap m k = mTimers m ! k" "\<not> due delta m k"
      by (simp_all add: slot_after_def due_def)
    moreover have "tick_slot delta cap k (m\<lparr>mTimers := ts\<rparr>, out) = (m\<lparr>mTimers := ts\<rparr>, out)"
      using 1 run by (simp add: tick_slot_def)
    moreover have "ts = map (slot_after delta cap m) [0..<k] @ mTimers m ! k # drop (Suc k) (mTimers m)"
      using upd [of "mTimers m ! k"] same by simp
    ultimately show ?thesis by (simp only: step) (simp add: out_def)
  next
    case 2
    then have t: "timer_tick delta (mTimers m ! k) =
        (False, (mTimers m ! k)\<lparr>tmRemaining := tmRemaining (mTimers m ! k) - delta\<rparr>)"
      by (simp add: timer_tick_def due_def slot_running_def)
    show ?thesis
      using 2 upd unfolding step
      by (simp add: tick_slot_def run at t slot_after_def Let_def out_def)
  next
    case 3
    then have t: "timer_tick delta (mTimers m ! k) = (True, (mTimers m ! k)\<lparr>tmRunning := False, tmRemaining := 0\<rparr>)"
      by (simp add: timer_tick_def due_def slot_running_def)
    show ?thesis
      using 3 upd room full unfolding step
      by (cases "rank delta m k < cap")
        (simp_all add: tick_slot_def run at t rank slot_after_def Let_def timer_start_def
          timer_reconfigure_def out_def rank_def)
  qed
qed

lemma tm_tick_eq:
  assumes "tm_inv m"
  shows "fst (tm_tick delta cap m) = take cap (due_ids delta m)"
    and "mTimers (snd (tm_tick delta cap m)) = map (slot_after delta cap m) [0..<MAX_TIMERS]"
    and "mInitialized (snd (tm_tick delta cap m)) = mInitialized m"
  using assms tick_pass [of m MAX_TIMERS delta cap]
  by (simp_all add: tm_tick_def due_ids_def tm_inv_def Let_def)

lemma set_take_single: "set (take k [y]) = (if 0 < k then {y} else {})"
  by (cases k) auto

lemma take_filter_rank:
  "i \<in> set (take c (filter P [0..<n])) \<longleftrightarrow> i < n \<and> P i \<and> length (filter P [0..<i]) < c"
proof (induction n)
  case (Suc n)
  then show ?case
    by (cases "i = n") (auto simp: set_take_single less_Suc_eq split: if_splits)
qed simp

lemma slot_id:
  assumes "tm_inv m" "i < MAX_TIMERS" "mInitialized m ! i"
  shows "tmId (mTimers m ! i) = j \<longleftrightarrow> timer_index j = i"
  using assms timer_index_inj by (auto simp: tm_inv_def)

lemma reported_iff:
  assumes inv: "tm_inv m"
  shows "j \<in> set (take cap (due_ids delta m)) \<longleftrightarrow>
     timer_index j < MAX_TIMERS \<and> due delta m (timer_index j) \<and> rank delta m (timer_index j) < cap"
proof -
  have "set (take cap (due_ids delta m)) =
      (\<lambda>i. tmId (mTimers m ! i)) ` {i. i < MAX_TIMERS \<and> due delta m i \<and> rank delta m i < cap}"
    by (auto simp: due_ids_def take_map take_filter_rank rank_def)
  also have "j \<in> \<dots> \<longleftrightarrow> timer_index j < MAX_TIMERS \<and> due delta m (timer_index j) \<and> rank delta m (timer_index j) < cap"
  proof
    assume "j \<in> (\<lambda>i. tmId (mTimers m ! i)) ` {i. i < MAX_TIMERS \<and> due delta m i \<and> rank delta m i < cap}"
    then obtain i where i: "i < MAX_TIMERS" "due delta m i" "rank delta m i < cap"
      and j: "tmId (mTimers m ! i) = j" by auto
    then have "timer_index j = i"
      using slot_id [OF inv, of i j] by (simp add: due_def slot_running_def)
    then show "timer_index j < MAX_TIMERS \<and> due delta m (timer_index j) \<and> rank delta m (timer_index j) < cap"
      using i by simp
  next
    assume r: "timer_index j < MAX_TIMERS \<and> due delta m (timer_index j) \<and> rank delta m (timer_index j) < cap"
    then have "tmId (mTimers m ! timer_index j) = j"
      using slot_id [OF inv, of "timer_index j" j] by (simp add: due_def slot_running_def)
    then show "j \<in> (\<lambda>i. tmId (mTimers m ! i)) ` {i. i < MAX_TIMERS \<and> due delta m i \<and> rank delta m i < cap}"
      using r by (intro image_eqI [of _ _ "timer_index j"]) simp_all
  qed
  finally show ?thesis .
qed

lemma rank_le: "i \<le> MAX_TIMERS \<Longrightarrow> rank delta m i \<le> length (due_ids delta m)"
proof -
  assume i: "i \<le> MAX_TIMERS"
  have "[0..<MAX_TIMERS] = [0..<i] @ [i..<MAX_TIMERS]"
    using i upt_add_eq_append [of 0 i "MAX_TIMERS - i"] by simp
  then show ?thesis by (simp add: rank_def due_ids_def)
qed

text \<open>All timers, in the order of their slots.\<close>

definition timer_ids :: "L3TimerId list" where
  "timer_ids = [T3101, T3102, T3103, T3106, T3108, T3109, T3111, T3112, T3113, T3310, T3311, T3312, T3314, T3315, T3320, T3321,
     T3322, T3334, T3395]"

lemma due_ids_order:
  assumes inv: "tm_inv m"
  shows "due_ids delta m = filter (\<lambda>i. tm_isRunning i m \<and> tm_remaining i m \<le> delta) timer_ids"
proof -
  have ids: "map timer_index timer_ids = [0..<19]" "length timer_ids = 19" by (simp_all add: timer_ids_def upt_rec)
  then have n: "\<forall>i < 19. timer_index (timer_ids ! i) = i" by (metis nth_map nth_upt add_0 diff_zero)
  have bound: "timer_index j < MAX_TIMERS \<Longrightarrow> timer_index j < 19" for j by (cases j) (simp_all add: MAX_TIMERS_def)
  have id: "i < 19 \<and> tmId (mTimers m ! i) = timer_ids ! i" if "i < MAX_TIMERS" "due delta m i" for i
  proof -
    have i: "timer_index (tmId (mTimers m ! i)) = i" using inv that by (auto simp: tm_inv_def due_def slot_running_def)
    then have "i < 19" using bound [of "tmId (mTimers m ! i)"] that(1) by simp
    then show ?thesis using i n timer_index_inj by simp
  qed
  have "[0..<MAX_TIMERS] = [0..<19] @ [19..<MAX_TIMERS]" using upt_add_eq_append [of 0 19 13] by (simp add: MAX_TIMERS_def)
  moreover have "filter (due delta m) [19..<MAX_TIMERS] = []" using id by (fastforce simp: filter_empty_conv)
  ultimately have "due_ids delta m = map (\<lambda>i. tmId (mTimers m ! i)) (filter (due delta m) [0..<19])" by (simp add: due_ids_def)
  also have "\<dots> = map ((!) timer_ids) (filter (due delta m) [0..<19])" using id by (intro map_cong) (auto simp: MAX_TIMERS_def)
  also have "filter (due delta m) [0..<19] = filter (\<lambda>i. tm_isRunning (timer_ids ! i) m \<and> tm_remaining (timer_ids ! i) m \<le> delta) [0..<19]"
    using n by (intro filter_cong refl)
      (auto simp: due_def slot_running_def tm_isRunning_def tm_remaining_def timer_remaining_def MAX_TIMERS_def)
  also have "map ((!) timer_ids) \<dots> = filter (\<lambda>i. tm_isRunning i m \<and> tm_remaining i m \<le> delta) (map ((!) timer_ids) [0..<19])"
    by (simp add: filter_map comp_def)
  also have "map ((!) timer_ids) [0..<19] = timer_ids"
    using map_nth [of timer_ids] ids(2) by simp
  finally show ?thesis .
qed

lemma tick_each_timer:
  assumes inv: "tm_inv m"
  shows "let (out, m') = tm_tick delta cap m in
    (tm_isRunning j m \<and> delta < tm_remaining j m \<longrightarrow>
       tm_isRunning j m' \<and> tm_remaining j m' = tm_remaining j m - delta \<and> j \<notin> set out) \<and>
    (tm_isRunning j m \<and> tm_remaining j m \<le> delta \<longrightarrow>
       j \<in> set out \<and> \<not> tm_isRunning j m' \<or>
       j \<notin> set out \<and> length out = cap \<and> tm_isRunning j m' \<and> tm_remaining j m' = 1) \<and>
    (\<not> tm_isRunning j m \<longrightarrow> j \<notin> set out \<and> \<not> tm_isRunning j m')"
proof -
  let ?i = "timer_index j"
  obtain out m' where t: "tm_tick delta cap m = (out, m')" by force
  have out: "out = take cap (due_ids delta m)" and init: "mInitialized m' = mInitialized m"
    and slot: "?i < MAX_TIMERS \<Longrightarrow> mTimers m' ! ?i = slot_after delta cap m ?i"
    using tm_tick_eq [OF inv, of delta cap] t by simp_all
  have rep: "j \<in> set out \<longleftrightarrow> ?i < MAX_TIMERS \<and> due delta m ?i \<and> rank delta m ?i < cap"
    unfolding out by (rule reported_iff [OF inv])
  have full: "length out = cap" if "?i < MAX_TIMERS" "\<not> rank delta m ?i < cap"
    using rank_le [of ?i delta m] that by (simp add: out)
  show ?thesis
  proof (cases "tm_isRunning j m")
    case True
    then have r: "?i < MAX_TIMERS" "slot_running m ?i" "mInitialized m ! ?i"
      "tm_remaining j m = tmRemaining (mTimers m ! ?i)" "tmRunning (mTimers m ! ?i)"
      by (auto simp: tm_isRunning_def slot_running_def tm_remaining_def timer_remaining_def)
    then have d: "due delta m ?i \<longleftrightarrow> tm_remaining j m \<le> delta" by (simp add: due_def)
    show ?thesis
      using True r d rep full slot init
      by (auto simp: t tm_isRunning_def tm_remaining_def timer_remaining_def slot_after_def Let_def)
  next
    case False
    then have "?i < MAX_TIMERS \<Longrightarrow> \<not> slot_running m ?i" by (simp add: tm_isRunning_def slot_running_def)
    then show ?thesis
      using False rep slot init
      by (auto simp: t due_def tm_isRunning_def slot_after_def Let_def slot_running_def)
  qed
qed

text \<open>
  C11. No expiry is lost, and the first to expire are reported: the output is the longest prefix that fits the buffer of
  the list of due timers in slot order. When the manager advances by \<open>delta\<close> with a buffer for \<open>cap\<close>
  identifiers, a running timer with more time left keeps running with its time reduced and is not
  reported. A timer that is due is either reported and stopped, or, only when the buffer is full,
  left running with one millisecond, so that the next tick reports it. A timer that does not run
  is not reported and stays stopped.
\<close>

theorem tick_loses_no_expiry:
  assumes inv: "tm_inv m"
  shows "let (out, m') = tm_tick delta cap m in
    out = take cap (filter (\<lambda>i. tm_isRunning i m \<and> tm_remaining i m \<le> delta) timer_ids) \<and>
    (tm_isRunning j m \<and> delta < tm_remaining j m \<longrightarrow>
       tm_isRunning j m' \<and> tm_remaining j m' = tm_remaining j m - delta \<and> j \<notin> set out) \<and>
    (tm_isRunning j m \<and> tm_remaining j m \<le> delta \<longrightarrow>
       j \<in> set out \<and> \<not> tm_isRunning j m' \<or>
       j \<notin> set out \<and> length out = cap \<and> tm_isRunning j m' \<and> tm_remaining j m' = 1) \<and>
    (\<not> tm_isRunning j m \<longrightarrow> j \<notin> set out \<and> \<not> tm_isRunning j m')"
  using tick_each_timer [OF inv, of delta cap j] tm_tick_eq(1) [OF inv, of delta cap] due_ids_order [OF inv, of delta]
  by (cases "tm_tick delta cap m") simp

theorem tick_loses_no_expiry_witness:
  "let m = snd (tm_start T3103 (snd (tm_start T3101 timers0))); (out, m') = tm_tick 5000 1 m
   in out = [T3101] \<and> tm_isRunning T3103 m' \<and> tm_remaining T3103 m' = 1"
proof -
  let ?m = "snd (tm_start T3103 (snd (tm_start T3101 timers0)))"
  have "tm_inv ?m \<and> tm_isRunning T3103 ?m \<and> tm_remaining T3103 ?m \<le> 5000 \<and>
      fst (tm_tick 5000 1 ?m) = [T3101]"
    by code_simp
  then show ?thesis
    using tick_loses_no_expiry [of ?m 5000 1 T3103] by (cases "tm_tick 5000 1 ?m") (simp add: Let_def)
qed

section \<open>Starting and stopping\<close>

lemma configured_and_started:
  "snd (timer_start (timer_reconfigure i d t)) = \<lparr>tmId = i, tmExpiry = d, tmRemaining = d, tmRunning = True\<rparr>"
  by (cases t) (simp add: timer_start_def timer_reconfigure_def)

lemma start_with_eq:
  assumes "timer_index i < MAX_TIMERS"
  shows "mTimers (snd (tm_start_with i d m)) =
       (mTimers m)[timer_index i := \<lparr>tmId = i, tmExpiry = d, tmRemaining = d, tmRunning = True\<rparr>]"
    and "mInitialized (snd (tm_start_with i d m)) = (mInitialized m)[timer_index i := True]"
    and "fst (tm_start_with i d m) = (\<not> tmRunning (mTimers m ! timer_index i))"
  using assms
  by (simp_all add: tm_start_with_def Let_def configured_and_started)

lemma start_invalid: "tm_start_with Timer_Unknown d m = (False, m)"
  by (simp add: tm_start_with_def MAX_TIMERS_def)

lemma start_with_inv:
  assumes "tm_inv m"
  shows "tm_inv (snd (tm_start_with i d m))"
proof (cases "timer_index i < MAX_TIMERS")
  case True
  then show ?thesis using assms by (auto simp: tm_inv_def start_with_eq nth_list_update)
next
  case False
  then show ?thesis using assms by (simp add: tm_start_with_def)
qed

lemma stop_eq:
  "mTimers (tm_stop i m) =
     (if timer_index i < MAX_TIMERS \<and> mInitialized m ! timer_index i
      then (mTimers m)[timer_index i := timer_stop (mTimers m ! timer_index i)] else mTimers m)"
  "mInitialized (tm_stop i m) = mInitialized m"
  by (simp_all add: tm_stop_def Let_def)

lemma stop_inv: "tm_inv m \<Longrightarrow> tm_inv (tm_stop i m)"
  by (auto simp: tm_inv_def stop_eq nth_list_update timer_stop_def)

lemma stopAll_eq:
  "mTimers (tm_stopAll m) = stop_slots m" "mInitialized (tm_stopAll m) = mInitialized m"
  by (simp_all add: tm_stopAll_def Let_def)

lemma stopAll_inv: "tm_inv m \<Longrightarrow> tm_inv (tm_stopAll m)"
  by (auto simp: tm_inv_def stopAll_eq stop_slots_def timer_stop_def)

lemma tick_inv:
  assumes "tm_inv m"
  shows "tm_inv (snd (tm_tick delta cap m))"
  using assms by (auto simp: tm_inv_def tm_tick_eq [OF assms] slot_after_def Let_def slot_running_def)

text \<open>
  The timer service as the protocol procedures see it: identifiers are started and stopped
  independently of each other, and a started timer runs with the duration it was given.
\<close>

locale timer_service =
  fixes inv :: "'s \<Rightarrow> bool" and start :: "L3TimerId \<Rightarrow> int \<Rightarrow> 's \<Rightarrow> 's" and stop :: "L3TimerId \<Rightarrow> 's \<Rightarrow> 's"
    and running :: "L3TimerId \<Rightarrow> 's \<Rightarrow> bool" and left :: "L3TimerId \<Rightarrow> 's \<Rightarrow> int"
  assumes start_keeps: "inv s \<Longrightarrow> inv (start i d s)"
    and stop_keeps: "inv s \<Longrightarrow> inv (stop i s)"
    and running_start: "inv s \<Longrightarrow> i \<noteq> Timer_Unknown \<Longrightarrow> running j (start i d s) \<longleftrightarrow> j = i \<or> running j s"
    and left_start: "inv s \<Longrightarrow> i \<noteq> Timer_Unknown \<Longrightarrow> left j (start i d s) = (if j = i then d else left j s)"
    and running_stop: "inv s \<Longrightarrow> running j (stop i s) \<longleftrightarrow> j \<noteq> i \<and> running j s"
    and left_stop: "inv s \<Longrightarrow> left j (stop i s) = (if j = i then 0 else left j s)"
begin

lemma stop_start: "inv s \<Longrightarrow> i \<noteq> Timer_Unknown \<Longrightarrow> \<not> running i (stop i (start i d s))"
  by (simp add: running_stop start_keeps)

lemma restart: "inv s \<Longrightarrow> i \<noteq> Timer_Unknown \<Longrightarrow> left i (start i d (start i d' s)) = d"
  by (simp add: left_start start_keeps)

lemma handover:
  "inv s \<Longrightarrow> i \<noteq> Timer_Unknown \<Longrightarrow> k \<noteq> i \<Longrightarrow>
   running j (start i d (stop k s)) \<longleftrightarrow> j = i \<or> j \<noteq> k \<and> running j s"
  by (simp add: running_start running_stop stop_keeps)

end

lemma not_init_not_running:
  "tm_inv m \<Longrightarrow> i < MAX_TIMERS \<Longrightarrow> \<not> mInitialized m ! i \<Longrightarrow> \<not> tmRunning (mTimers m ! i)"
  by (simp add: tm_inv_def)

interpretation tmr: timer_service tm_inv "\<lambda>i d m. snd (tm_start_with i d m)" tm_stop tm_isRunning tm_remaining
proof
  fix m i j d
  assume inv: "tm_inv m"
  have len: "length (mTimers m) = MAX_TIMERS" "length (mInitialized m) = MAX_TIMERS"
    using inv by (simp_all add: tm_inv_def)
  show "tm_inv (snd (tm_start_with i d m))" using inv by (rule start_with_inv)
  show "tm_inv (tm_stop i m)" using inv by (rule stop_inv)
  have neq: "j \<noteq> i \<Longrightarrow> timer_index i \<noteq> timer_index j" using timer_index_inj by metis
  show "tm_isRunning j (snd (tm_start_with i d m)) \<longleftrightarrow> j = i \<or> tm_isRunning j m"
    if "i \<noteq> Timer_Unknown"
    using that len neq
    by (cases "j = i") (simp_all add: tm_isRunning_def timer_index_lt [symmetric] start_with_eq)
  show "tm_remaining j (snd (tm_start_with i d m)) = (if j = i then d else tm_remaining j m)"
    if "i \<noteq> Timer_Unknown"
    using that len neq
    by (cases "j = i")
      (simp_all add: tm_remaining_def timer_remaining_def timer_index_lt [symmetric] start_with_eq)
  show "tm_isRunning j (tm_stop i m) \<longleftrightarrow> j \<noteq> i \<and> tm_isRunning j m"
    using len neq not_init_not_running [OF inv]
    by (cases "j = i") (auto simp: tm_isRunning_def stop_eq timer_stop_def)
  show "tm_remaining j (tm_stop i m) = (if j = i then 0 else tm_remaining j m)"
    using len neq by (cases "j = i") (auto simp: tm_remaining_def stop_eq timer_stop_def timer_remaining_def)
qed

section \<open>Notifications\<close>

definition notes_ok :: "TimerManager \<Rightarrow> bool" where
  "notes_ok m \<longleftrightarrow>
     (tmObserved m \<longrightarrow> (tmNotes m \<noteq> [] \<and> last (tmNotes m)) = (0 < runningCount m))"

text \<open>
  Every operation decides on its notification by comparing before and after: it notifies exactly when the activity changed.
\<close>

definition notes_exact :: "TimerManager \<Rightarrow> TimerManager \<Rightarrow> bool" where
  "notes_exact m m' \<longleftrightarrow> tmObserved m' = tmObserved m \<and>
     tmNotes m' = tmNotes m @
       (if tmObserved m \<and> (0 < runningCount m') \<noteq> (0 < runningCount m) then [0 < runningCount m'] else [])"

lemma notes_exact_refl [simp]: "notes_exact m m"
  by (simp add: notes_exact_def)

lemma notes_exact_ok: "notes_ok m \<Longrightarrow> notes_exact m m' \<Longrightarrow> notes_ok m'"
  by (auto simp: notes_ok_def notes_exact_def split: if_splits)

lemma tmNotes_notify: "tmNotes (notifyActive b m) = tmNotes m @ (if tmObserved m then [b] else [])"
  by (simp add: notifyActive_def)

lemma notes_exact_started:
  assumes "tmNotes m1 = tmNotes m" "tmObserved m1 = tmObserved m" "0 < runningCount m1"
  shows "notes_exact m (if \<not> 0 < runningCount m \<and> 0 < runningCount m1 then notifyActive True m1 else m1)"
  using assms by (auto simp: notes_exact_def tmNotes_notify)

lemma notes_exact_stopped:
  assumes "tmNotes m1 = tmNotes m" "tmObserved m1 = tmObserved m" and "runningCount m = 0 \<Longrightarrow> runningCount m1 = 0"
  shows "notes_exact m (if 0 < runningCount m \<and> runningCount m1 = 0 then notifyActive False m1 else m1)"
  using assms by (cases "runningCount m = 0"; cases "runningCount m1 = 0") (simp_all add: notes_exact_def tmNotes_notify)

lemma start_exact:
  assumes inv: "tm_inv m"
  shows "notes_exact m (snd (tm_start_with i d m))"
proof (cases "timer_index i < MAX_TIMERS")
  case True
  define m1 where "m1 = m\<lparr>mTimers := (mTimers m)[timer_index i := snd (timer_start (timer_reconfigure i d (mTimers m ! timer_index i)))],
                          mInitialized := (mInitialized m)[timer_index i := True]\<rparr>"
  have "snd (tm_start_with i d m) = (if \<not> 0 < runningCount m \<and> 0 < runningCount m1 then notifyActive True m1 else m1)"
    using True by (simp add: tm_start_with_def Let_def m1_def)
  moreover have "slot_running m1 (timer_index i)"
    using True inv by (simp add: slot_running_def m1_def tm_inv_def configured_and_started)
  then have "0 < runningCount m1" using True runningCount_pos by blast
  ultimately show ?thesis
    using notes_exact_started [of m1 m] by (simp add: m1_def)
next
  case False
  then show ?thesis by (simp add: tm_start_with_def)
qed

lemma stop_exact:
  assumes inv: "tm_inv m"
  shows "notes_exact m (tm_stop i m)"
proof (cases "timer_index i < MAX_TIMERS \<and> mInitialized m ! timer_index i")
  case True
  define m1 where "m1 = m\<lparr>mTimers := (mTimers m)[timer_index i := timer_stop (mTimers m ! timer_index i)]\<rparr>"
  have "tm_stop i m = (if 0 < runningCount m \<and> runningCount m1 = 0 then notifyActive False m1 else m1)"
    using True by (simp add: tm_stop_def Let_def m1_def)
  moreover have "slot_running m1 k \<Longrightarrow> slot_running m k" if "k < MAX_TIMERS" for k
    using that inv by (cases "k = timer_index i") (auto simp: slot_running_def m1_def tm_inv_def timer_stop_def)
  then have "runningCount m = 0 \<Longrightarrow> runningCount m1 = 0"
    unfolding runningCount_zero by blast
  ultimately show ?thesis using notes_exact_stopped [of m1 m] by (simp add: m1_def)
next
  case False
  then show ?thesis by (auto simp: tm_stop_def Let_def)
qed

lemma stopAll_exact:
  assumes inv: "tm_inv m"
  shows "notes_exact m (tm_stopAll m)"
proof -
  define m1 where "m1 = m\<lparr>mTimers := stop_slots m\<rparr>"
  have "slot_running m1 k \<Longrightarrow> slot_running m k" if "k < MAX_TIMERS" for k
    using that by (auto simp: slot_running_def m1_def stop_slots_def timer_stop_def)
  then have "runningCount m = 0 \<Longrightarrow> runningCount m1 = 0"
    unfolding runningCount_zero by blast
  moreover have "tm_stopAll m =
      (if 0 < runningCount m \<and> runningCount m1 = 0 then notifyActive False m1 else m1)"
    by (simp add: tm_stopAll_def Let_def m1_def)
  ultimately show ?thesis
    using notes_exact_stopped [of m1 m] by (simp add: m1_def)
qed

lemma tick_exact:
  assumes inv: "tm_inv m"
  shows "notes_exact m (snd (tm_tick delta cap m))"
proof -
  define m1 where "m1 = m\<lparr>mTimers := map (slot_after delta cap m) [0..<MAX_TIMERS]\<rparr>"
  have "slot_running m1 k \<Longrightarrow> slot_running m k" if "k < MAX_TIMERS" for k
    using that by (cases "slot_running m k") (auto simp: slot_running_def m1_def slot_after_def)
  then have "runningCount m = 0 \<Longrightarrow> runningCount m1 = 0"
    unfolding runningCount_zero by blast
  moreover have "snd (tm_tick delta cap m) =
      (if 0 < runningCount m \<and> runningCount m1 = 0 then notifyActive False m1 else m1)"
    using inv tick_pass [of m MAX_TIMERS delta cap] by (simp add: tm_tick_def Let_def m1_def tm_inv_def)
  ultimately show ?thesis
    using notes_exact_stopped [of m1 m] by (simp add: m1_def)
qed

lemmas timer_exact = start_exact stop_exact stopAll_exact tick_exact

lemma start_notes: "tm_inv m \<Longrightarrow> notes_ok m \<Longrightarrow> notes_ok (snd (tm_start_with i d m))"
  and stop_notes: "tm_inv m \<Longrightarrow> notes_ok m \<Longrightarrow> notes_ok (tm_stop i m)"
  and stopAll_notes: "tm_inv m \<Longrightarrow> notes_ok m \<Longrightarrow> notes_ok (tm_stopAll m)"
  and tick_notes: "tm_inv m \<Longrightarrow> notes_ok m \<Longrightarrow> notes_ok (snd (tm_tick delta cap m))"
  by (blast intro: notes_exact_ok timer_exact)+

datatype timer_op = TmStart L3TimerId int | TmStop L3TimerId | TmStopAll | TmTick int nat

fun timer_step :: "timer_op \<Rightarrow> TimerManager \<Rightarrow> TimerManager" where
  "timer_step (TmStart i d) m = snd (tm_start_with i d m)"
| "timer_step (TmStop i) m = tm_stop i m"
| "timer_step TmStopAll m = tm_stopAll m"
| "timer_step (TmTick delta cap) m = snd (tm_tick delta cap m)"

lemma timer_step_exact: "tm_inv m \<Longrightarrow> tm_inv (timer_step opn m) \<and> notes_exact m (timer_step opn m)"
  by (cases opn) (simp_all add: timer_exact start_with_inv stop_inv stopAll_inv tick_inv)

text \<open>
  The observer hears of every change and of nothing else: over every run of starts, stops and ticks of a manager with an
  observer, the next operation adds exactly one notification, the new activity, when some timer ran before and none
  runs after or the other way round, and no notification otherwise.
\<close>

theorem observer_tracks_activity:
  "let m = fold timer_step ops (timers0\<lparr>tmObserved := True\<rparr>); m' = timer_step opn m
   in tmNotes m' = tmNotes m @ (if (0 < runningCount m') = (0 < runningCount m) then [] else [0 < runningCount m'])"
proof -
  have "tm_inv (fold timer_step ops m) \<and> tmObserved (fold timer_step ops m)" if "tm_inv m" "tmObserved m" for m
    using that
  proof (induction ops arbitrary: m)
    case (Cons a ops)
    then show ?case using timer_step_exact [of m a] by (simp add: notes_exact_def)
  qed simp
  from this [of "timers0\<lparr>tmObserved := True\<rparr>"] show ?thesis
    using timers0_inv timer_step_exact by (auto simp: Let_def notes_exact_def tm_inv_def)
qed

text \<open>
  Timers are independent: starting one sets its time to the given duration and makes it run
  without touching any other, and stopping one stops exactly that one. An identifier outside the
  slots is refused without a change.
\<close>

lemma timers_independent:
  assumes "tm_inv m"
  shows "(i \<noteq> Timer_Unknown \<longrightarrow>
            tm_isRunning j (snd (tm_start_with i d m)) = (j = i \<or> tm_isRunning j m) \<and>
            tm_remaining j (snd (tm_start_with i d m)) = (if j = i then d else tm_remaining j m)) \<and>
         (i = Timer_Unknown \<longrightarrow> tm_start_with i d m = (False, m)) \<and>
         tm_isRunning j (tm_stop i m) = (j \<noteq> i \<and> tm_isRunning j m) \<and>
         tm_remaining j (tm_stop i m) = (if j = i then 0 else tm_remaining j m)"
  using tmr.running_start [OF assms] tmr.left_start [OF assms] tmr.running_stop [OF assms]
    tmr.left_stop [OF assms] start_invalid
  by auto

theorem timers_independent_witness:
  "tm_isRunning T3101 (snd (tm_start_with T3106 3000 (snd (tm_start T3101 timers0)))) \<and>
   tm_remaining T3106 (snd (tm_start_with T3106 3000 (snd (tm_start T3101 timers0)))) = 3000 \<and>
   \<not> tm_isRunning T3101 (tm_stop T3101 (snd (tm_start T3101 timers0)))"
proof -
  have r: "tm_isRunning T3101 (snd (tm_start T3101 timers0))" by code_simp
  have inv: "tm_inv (snd (tm_start T3101 timers0))"
    by (simp add: tm_start_def start_with_inv timers0_inv)
  show ?thesis
    using timers_independent [OF inv, of T3106 T3101 3000] timers_independent [OF inv, of T3106 T3106 3000]
      timers_independent [OF inv, of T3101 T3101 3000] r
    by simp
qed

end
