(* ===== verification/Transaction.thy ===== *)
theory Transaction
  imports L3_Header L3_Timer
begin

text \<open>
  Pending transactions: \<^verbatim>\<open>stack/transaction.h\<close> and \<^verbatim>\<open>stack/transaction.cpp\<close>. The fixed arrays are
  lists of their length; a pointer to a transaction is the number of its slot. The creation time,
  which only diagnostics read, is left out.
\<close>

section \<open>Data\<close>

datatype TransactionState = Tx_Pending | Tx_Completed | Tx_Expired | Tx_Cancelled

record Transaction =
  tx_pd :: L3PD
  tx_mti :: int
  tx_ti :: u8
  tx_timer :: L3TimerId
  tx_state :: TransactionState

definition mkTransaction :: "L3PD \<Rightarrow> int \<Rightarrow> u8 \<Rightarrow> L3TimerId \<Rightarrow> Transaction" where
  "mkTransaction p m t i = \<lparr>tx_pd = p, tx_mti = m, tx_ti = t, tx_timer = i, tx_state = Tx_Pending\<rparr>"

definition tx_complete :: "Transaction \<Rightarrow> Transaction" where
  "tx_complete t = t\<lparr>tx_state := Tx_Completed\<rparr>"

definition tx_expire :: "Transaction \<Rightarrow> Transaction" where
  "tx_expire t = t\<lparr>tx_state := Tx_Expired\<rparr>"

definition tx_cancel :: "Transaction \<Rightarrow> Transaction" where
  "tx_cancel t = t\<lparr>tx_state := Tx_Cancelled\<rparr>"

definition dialog_pd :: "L3PD \<Rightarrow> bool" where
  "dialog_pd p \<longleftrightarrow> p = CallControl \<or> p = NonCallSS"

definition tx_matches_ti :: "ParsedMessage \<Rightarrow> u8 \<Rightarrow> Transaction \<Rightarrow> bool" where
  "tx_matches_ti msg ti t =
     (if tx_state t \<noteq> Tx_Pending then False
      else if dialog_pd (messagePD msg) then tx_pd t = messagePD msg \<and> tx_ti t = ti
      else tx_pd t = messagePD msg \<and> tx_mti t = messageMTI msg)"

definition tx_matches :: "ParsedMessage \<Rightarrow> Transaction \<Rightarrow> bool" where
  "tx_matches msg t =
     (if tx_state t \<noteq> Tx_Pending then False
      else tx_pd t = messagePD msg \<and> tx_mti t = messageMTI msg)"

section \<open>The transaction manager\<close>

definition MAX_TRANSACTIONS :: nat where
  "MAX_TRANSACTIONS = 16"

record TransactionManager =
  mTransactions :: "Transaction list"
  mOccupied :: "bool list"
  mTiIndex :: "nat option list"
  mCount :: nat

text \<open>The contents of a slot that is not occupied are never read.\<close>

definition transactions0 :: TransactionManager where
  "transactions0 =
     \<lparr>mTransactions = replicate MAX_TRANSACTIONS (mkTransaction PD_Undefined 0 0 Timer_Unknown),
      mOccupied = replicate MAX_TRANSACTIONS False, mTiIndex = replicate 8 None, mCount = 0\<rparr>"

definition pending_slot :: "TransactionManager \<Rightarrow> nat \<Rightarrow> bool" where
  "pending_slot m i \<longleftrightarrow> mOccupied m ! i \<and> tx_state (mTransactions m ! i) = Tx_Pending"

definition rebuild_slot :: "TransactionManager \<Rightarrow> nat \<Rightarrow> nat option list \<Rightarrow> nat option list" where
  "rebuild_slot m slot idx =
     (if \<not> mOccupied m ! slot then idx
      else let t = mTransactions m ! slot
      in if tx_state t \<noteq> Tx_Pending then idx
      else if dialog_pd (tx_pd t)
      then (let ti = unat (tx_ti t) in if ti < 8 \<and> idx ! ti = None then idx[ti := Some slot] else idx)
      else idx)"

definition rebuildTiIndex :: "TransactionManager \<Rightarrow> TransactionManager" where
  "rebuildTiIndex m =
     m\<lparr>mTiIndex := fold (rebuild_slot m) [0..<MAX_TRANSACTIONS] (replicate 8 None)\<rparr>"

definition findSlot :: "TransactionManager \<Rightarrow> nat option" where
  "findSlot m =
     (case List.find (\<lambda>i. \<not> mOccupied m ! i) [0..<MAX_TRANSACTIONS] of
        Some i \<Rightarrow> Some i
      | None \<Rightarrow>
          List.find (\<lambda>i. mOccupied m ! i \<and> tx_state (mTransactions m ! i) \<noteq> Tx_Pending)
            [0..<MAX_TRANSACTIONS])"

definition txm_create ::
  "L3PD \<Rightarrow> int \<Rightarrow> u8 \<Rightarrow> L3TimerId \<Rightarrow> TransactionManager \<Rightarrow> u32 option \<times> TransactionManager" where
  "txm_create p mti ti timer m =
     (case findSlot m of
        None \<Rightarrow> (None, m)
      | Some slot \<Rightarrow>
          let old = mTransactions m ! slot;
              idx1 = (if mOccupied m ! slot \<and> dialog_pd (tx_pd old) \<and> unat (tx_ti old) < 8
                         \<and> mTiIndex m ! unat (tx_ti old) = Some slot
                      then (mTiIndex m)[unat (tx_ti old) := None] else mTiIndex m);
              wasFree = (\<not> mOccupied m ! slot);
              idx2 = (if dialog_pd p \<and> unat ti < 8 then idx1[unat ti := Some slot] else idx1)
          in (Some (word_of_nat slot + 1),
              m\<lparr>mTransactions := (mTransactions m)[slot := mkTransaction p mti ti timer],
                mOccupied := (mOccupied m)[slot := True],
                mTiIndex := idx2,
                mCount := (if wasFree then mCount m + 1 else mCount m)\<rparr>))"

text \<open>The identifier 0 wraps around to the largest index and is refused.\<close>

definition txm_get :: "u32 \<Rightarrow> TransactionManager \<Rightarrow> nat option" where
  "txm_get i m =
     (let slot = unat (i - 1)
      in if slot \<ge> MAX_TRANSACTIONS then None
      else if \<not> mOccupied m ! slot then None
      else if tx_state (mTransactions m ! slot) \<noteq> Tx_Pending then None
      else Some slot)"

definition match_dialog :: "L3PD \<Rightarrow> u8 \<Rightarrow> TransactionManager \<Rightarrow> nat option" where
  "match_dialog p ti m =
     (if unat ti < 8
      then (case mTiIndex m ! unat ti of
              Some slot \<Rightarrow>
                if mOccupied m ! slot \<and> tx_state (mTransactions m ! slot) = Tx_Pending
                   \<and> tx_pd (mTransactions m ! slot) = p \<and> tx_ti (mTransactions m ! slot) = ti
                then Some slot else None
            | None \<Rightarrow> None)
      else None)"

definition match_scan :: "ParsedMessage \<Rightarrow> TransactionManager \<Rightarrow> nat option" where
  "match_scan msg m =
     List.find (\<lambda>i. mOccupied m ! i \<and> tx_state (mTransactions m ! i) = Tx_Pending
                    \<and> tx_matches msg (mTransactions m ! i)) [0..<MAX_TRANSACTIONS]"

definition match_header :: "L3Header \<Rightarrow> ParsedMessage \<Rightarrow> TransactionManager \<Rightarrow> nat option" where
  "match_header h msg m =
     (if dialog_pd (hd_pd h) then match_dialog (hd_pd h) (word_of_nat (hd_ti h)) m
      else match_scan msg m)"

definition match_msg :: "ParsedMessage \<Rightarrow> TransactionManager \<Rightarrow> nat option" where
  "match_msg msg m =
     (if dialog_pd (messagePD msg) then match_dialog (messagePD msg) (messageTI msg) m
      else match_scan msg m)"

definition expire_slot :: "L3TimerId \<Rightarrow> TransactionManager \<Rightarrow> nat \<Rightarrow> Transaction" where
  "expire_slot i m k =
     (let t = mTransactions m ! k
      in if mOccupied m ! k \<and> tx_state t = Tx_Pending \<and> tx_timer t = i then tx_expire t else t)"

definition txm_onTimerExpired :: "L3TimerId \<Rightarrow> TransactionManager \<Rightarrow> TransactionManager" where
  "txm_onTimerExpired i m = m\<lparr>mTransactions := map (expire_slot i m) [0..<MAX_TRANSACTIONS]\<rparr>"

definition finished_slot :: "TransactionManager \<Rightarrow> nat \<Rightarrow> bool" where
  "finished_slot m i \<longleftrightarrow> mOccupied m ! i \<and> tx_state (mTransactions m ! i) \<noteq> Tx_Pending"

definition txm_cleanup :: "TransactionManager \<Rightarrow> nat \<times> TransactionManager" where
  "txm_cleanup m =
     (let removed = length (filter (finished_slot m) [0..<MAX_TRANSACTIONS]);
          occ = map (\<lambda>i. mOccupied m ! i \<and> \<not> finished_slot m i) [0..<MAX_TRANSACTIONS]
      in (removed, rebuildTiIndex (m\<lparr>mOccupied := occ, mCount := mCount m - removed\<rparr>)))"

definition txm_pendingCount :: "TransactionManager \<Rightarrow> nat" where
  "txm_pendingCount m = length (filter (pending_slot m) [0..<MAX_TRANSACTIONS])"

text \<open>What a caller does through the pointer it got: finish the transaction of a slot.\<close>

definition txm_update :: "(Transaction \<Rightarrow> Transaction) \<Rightarrow> nat \<Rightarrow> TransactionManager \<Rightarrow> TransactionManager" where
  "txm_update f i m = m\<lparr>mTransactions := (mTransactions m)[i := f (mTransactions m ! i)]\<rparr>"

section \<open>The invariant\<close>

definition txm_inv :: "TransactionManager \<Rightarrow> bool" where
  "txm_inv m \<longleftrightarrow>
     length (mTransactions m) = MAX_TRANSACTIONS \<and> length (mOccupied m) = MAX_TRANSACTIONS \<and>
     length (mTiIndex m) = 8 \<and>
     mCount m = length (filter (\<lambda>i. mOccupied m ! i) [0..<MAX_TRANSACTIONS]) \<and>
     (\<forall>ti < 8. case mTiIndex m ! ti of
        None \<Rightarrow> True
      | Some slot \<Rightarrow> slot < MAX_TRANSACTIONS \<and> mOccupied m ! slot \<and>
                     dialog_pd (tx_pd (mTransactions m ! slot)) \<and>
                     unat (tx_ti (mTransactions m ! slot)) = ti)"

lemma findSlot_None: "findSlot m = None \<longleftrightarrow> (\<forall>i < MAX_TRANSACTIONS. pending_slot m i)"
  by (auto simp: findSlot_def find_upt_None find_upt_Some pending_slot_def split: option.split)

lemma findSlot_Some:
  assumes "findSlot m = Some i"
  shows "i < MAX_TRANSACTIONS" "\<not> pending_slot m i"
  using assms by (auto simp: findSlot_def find_upt_Some pending_slot_def split: option.splits)

lemma count_update:
  assumes "k < n" "\<not> P k"
  shows "length (filter (\<lambda>i. i = k \<or> P i) [0..<n]) = Suc (length (filter P [0..<n]))"
proof -
  have "[0..<n] = [0..<k] @ k # [Suc k..<n]"
    using assms(1) by (metis less_imp_add_positive upt_add_eq_append upt_conv_Cons zero_le less_or_eq_imp_le le_add_diff_inverse)
  then show ?thesis
    using assms(2) by (auto intro!: arg_cong2 [where f = "(+)"] arg_cong [where f = length] filter_cong)
qed

lemma txm_invD:
  assumes "txm_inv m"
  shows "length (mTransactions m) = MAX_TRANSACTIONS" "length (mOccupied m) = MAX_TRANSACTIONS"
    "length (mTiIndex m) = 8"
    "mCount m = length (filter (\<lambda>i. mOccupied m ! i) [0..<MAX_TRANSACTIONS])"
    "ti < 8 \<Longrightarrow> mTiIndex m ! ti = Some slot \<Longrightarrow>
       slot < MAX_TRANSACTIONS \<and> mOccupied m ! slot \<and> dialog_pd (tx_pd (mTransactions m ! slot)) \<and>
       unat (tx_ti (mTransactions m ! slot)) = ti"
  using assms unfolding txm_inv_def by (auto split: option.splits)

text \<open>The index after a creation in slot \<open>k\<close>.\<close>

definition index_after :: "L3PD \<Rightarrow> u8 \<Rightarrow> nat \<Rightarrow> TransactionManager \<Rightarrow> nat option list" where
  "index_after p ti k m =
     (let old = mTransactions m ! k;
          idx1 = (if mOccupied m ! k \<and> dialog_pd (tx_pd old) \<and> unat (tx_ti old) < 8
                     \<and> mTiIndex m ! unat (tx_ti old) = Some k
                  then (mTiIndex m)[unat (tx_ti old) := None] else mTiIndex m)
      in if dialog_pd p \<and> unat ti < 8 then idx1[unat ti := Some k] else idx1)"

lemma create_eq:
  assumes "findSlot m = Some k"
  shows "txm_create p mti ti timer m =
     (Some (word_of_nat k + 1),
      m\<lparr>mTransactions := (mTransactions m)[k := mkTransaction p mti ti timer],
        mOccupied := (mOccupied m)[k := True], mTiIndex := index_after p ti k m,
        mCount := (if mOccupied m ! k then mCount m else mCount m + 1)\<rparr>)"
  using assms by (simp add: txm_create_def index_after_def Let_def)

lemma index_after_entry:
  assumes inv: "txm_inv m" and t: "t < 8" "index_after p ti k m ! t = Some s"
  shows "dialog_pd p \<and> unat ti = t \<and> s = k \<or> s \<noteq> k \<and> mTiIndex m ! t = Some s"
proof (cases "dialog_pd p \<and> unat ti = t")
  case True
  then show ?thesis
    using t txm_invD(3) [OF inv] by (simp add: index_after_def Let_def split: if_splits)
next
  case False
  then have old: "mTiIndex m ! t = Some s \<and>
      \<not> (mOccupied m ! k \<and> dialog_pd (tx_pd (mTransactions m ! k)) \<and>
         unat (tx_ti (mTransactions m ! k)) = t \<and> mTiIndex m ! t = Some k)"
    using t txm_invD(3) [OF inv]
    by (auto simp: index_after_def Let_def nth_list_update split: if_splits)
  then have "s \<noteq> k" using txm_invD(5) [OF inv t(1), of s] by auto
  then show ?thesis using old by simp
qed

lemma length_index_after: "length (index_after p ti k m) = length (mTiIndex m)"
  by (simp add: index_after_def Let_def)

lemma create_inv:
  assumes inv: "txm_inv m"
  shows "txm_inv (snd (txm_create p mti ti timer m))"
proof (cases "findSlot m")
  case None
  then show ?thesis using inv by (simp add: txm_create_def)
next
  case (Some k)
  note d = txm_invD [OF inv]
  have k: "k < MAX_TRANSACTIONS" using findSlot_Some [OF Some] by simp
  have "mCount m + (if mOccupied m ! k then 0 else 1) =
      length (filter (\<lambda>i. (mOccupied m)[k := True] ! i) [0..<MAX_TRANSACTIONS])"
  proof (cases "mOccupied m ! k")
    case True
    then have "(mOccupied m)[k := True] = mOccupied m" by (metis list_update_id)
    then show ?thesis using d(4) True by simp
  next
    case False
    have "filter (\<lambda>i. (mOccupied m)[k := True] ! i) [0..<MAX_TRANSACTIONS] =
        filter (\<lambda>i. i = k \<or> mOccupied m ! i) [0..<MAX_TRANSACTIONS]"
      using d(2) k by (intro filter_cong) (auto simp: nth_list_update)
    then show ?thesis using d(4) False count_update [OF k, of "\<lambda>i. mOccupied m ! i"] by simp
  qed
  moreover have "case index_after p ti k m ! t of None \<Rightarrow> True
      | Some s \<Rightarrow> s < MAX_TRANSACTIONS \<and> (mOccupied m)[k := True] ! s \<and>
          dialog_pd (tx_pd ((mTransactions m)[k := mkTransaction p mti ti timer] ! s)) \<and>
          unat (tx_ti ((mTransactions m)[k := mkTransaction p mti ti timer] ! s)) = t"
    if "t < 8" for t
  proof (cases "index_after p ti k m ! t")
    case (Some s)
    then show ?thesis
      using index_after_entry [OF inv that Some] d(1,2) d(5) [OF that, of s] k
      by (auto simp: mkTransaction_def nth_list_update)
  qed simp
  ultimately show ?thesis
    using d k
    by (cases "mOccupied m ! k")
      (simp_all add: create_eq [OF Some] txm_inv_def length_index_after cong: option.case_cong)
qed

lemma update_inv:
  assumes "txm_inv m" and "\<And>t. tx_pd (f t) = tx_pd t \<and> tx_ti (f t) = tx_ti t"
  shows "txm_inv (txm_update f i m)"
proof -
  have "tx_pd ((mTransactions m)[i := f (mTransactions m ! i)] ! s) = tx_pd (mTransactions m ! s) \<and>
      tx_ti ((mTransactions m)[i := f (mTransactions m ! i)] ! s) = tx_ti (mTransactions m ! s)" for s
    using assms(2)
    by (cases "s = i"; cases "i < length (mTransactions m)") (simp_all add: list_update_beyond)
  then show ?thesis
    using assms(1) by (simp add: txm_inv_def txm_update_def cong: option.case_cong)
qed

lemma onTimerExpired_inv:
  assumes "txm_inv m"
  shows "txm_inv (txm_onTimerExpired i m)"
proof -
  have "tx_pd (expire_slot i m s) = tx_pd (mTransactions m ! s) \<and>
      tx_ti (expire_slot i m s) = tx_ti (mTransactions m ! s)" for s
    by (simp add: expire_slot_def tx_expire_def Let_def)
  then show ?thesis
    using assms by (auto simp: txm_inv_def txm_onTimerExpired_def split: option.splits)
qed

text \<open>The rebuilt index names, for each TI, the first slot with a pending dialog of that TI.\<close>

definition dialog_slot :: "TransactionManager \<Rightarrow> nat \<Rightarrow> nat \<Rightarrow> bool" where
  "dialog_slot m ti i \<longleftrightarrow> pending_slot m i \<and> dialog_pd (tx_pd (mTransactions m ! i)) \<and>
     unat (tx_ti (mTransactions m ! i)) = ti"

lemma rebuild_slot_nth:
  assumes "length idx = 8" "ti < 8"
  shows "rebuild_slot m n idx ! ti = (if dialog_slot m ti n \<and> idx ! ti = None then Some n else idx ! ti)"
proof -
  let ?t = "mTransactions m ! n"
  have "rebuild_slot m n idx =
      (if dialog_slot m (unat (tx_ti ?t)) n \<and> unat (tx_ti ?t) < 8 \<and> idx ! unat (tx_ti ?t) = None
       then idx[unat (tx_ti ?t) := Some n] else idx)"
    by (simp add: rebuild_slot_def Let_def dialog_slot_def pending_slot_def)
  moreover have "dialog_slot m ti n \<Longrightarrow> unat (tx_ti ?t) = ti"
    "unat (tx_ti ?t) = ti \<Longrightarrow> dialog_slot m (unat (tx_ti ?t)) n = dialog_slot m ti n"
    by (simp_all add: dialog_slot_def)
  ultimately show ?thesis
    using assms by (cases "unat (tx_ti ?t) = ti") auto
qed

lemma find_snoc:
  "List.find P (xs @ [y]) = (case List.find P xs of None \<Rightarrow> if P y then Some y else None | Some r \<Rightarrow> Some r)"
  by (induction xs) auto

lemma rebuild_fold:
  "length (fold (rebuild_slot m) [0..<n] (replicate 8 None)) = 8 \<and>
   (\<forall>ti < 8. fold (rebuild_slot m) [0..<n] (replicate 8 None) ! ti = List.find (dialog_slot m ti) [0..<n])"
proof (induction n)
  case (Suc n)
  define idx where "idx = fold (rebuild_slot m) [0..<n] (replicate 8 None)"
  have idx: "length idx = 8" "\<And>ti. ti < 8 \<Longrightarrow> idx ! ti = List.find (dialog_slot m ti) [0..<n]"
    using Suc by (simp_all add: idx_def)
  have "rebuild_slot m n idx ! ti = List.find (dialog_slot m ti) ([0..<n] @ [n])" if "ti < 8" for ti
    using rebuild_slot_nth [OF idx(1) that] idx(2) [OF that] by (simp add: find_snoc split: option.split)
  moreover have "length (rebuild_slot m n idx) = 8"
    using idx(1) by (simp add: rebuild_slot_def Let_def)
  ultimately show ?case by (simp add: idx_def)
qed simp

lemma rebuild_entry:
  "ti < 8 \<Longrightarrow> mTiIndex (rebuildTiIndex m) ! ti = List.find (dialog_slot m ti) [0..<MAX_TRANSACTIONS]"
  "length (mTiIndex (rebuildTiIndex m)) = 8"
  using rebuild_fold [of m MAX_TRANSACTIONS] by (simp_all add: rebuildTiIndex_def)

lemma count_split:
  "length (filter P xs) = length (filter (\<lambda>x. P x \<and> \<not> Q x) xs) + length (filter (\<lambda>x. P x \<and> Q x) xs)"
  by (induction xs) auto

lemma cleanup_inv:
  assumes inv: "txm_inv m"
  shows "txm_inv (snd (txm_cleanup m))"
proof -
  define occ where "occ = map (\<lambda>i. mOccupied m ! i \<and> \<not> finished_slot m i) [0..<MAX_TRANSACTIONS]"
  define removed where "removed = length (filter (finished_slot m) [0..<MAX_TRANSACTIONS])"
  define m1 where "m1 = m\<lparr>mOccupied := occ, mCount := mCount m - removed\<rparr>"
  have c: "snd (txm_cleanup m) = rebuildTiIndex m1"
    by (simp add: txm_cleanup_def Let_def m1_def occ_def removed_def)
  have "filter (\<lambda>i. mOccupied m ! i \<and> finished_slot m i) [0..<MAX_TRANSACTIONS] =
      filter (finished_slot m) [0..<MAX_TRANSACTIONS]"
    by (intro filter_cong) (auto simp: finished_slot_def)
  moreover have "filter (\<lambda>i. occ ! i) [0..<MAX_TRANSACTIONS] =
      filter (\<lambda>i. mOccupied m ! i \<and> \<not> finished_slot m i) [0..<MAX_TRANSACTIONS]"
    by (intro filter_cong) (auto simp: occ_def)
  ultimately have "mCount m - removed = length (filter (\<lambda>i. occ ! i) [0..<MAX_TRANSACTIONS])"
    using txm_invD(4) [OF inv]
      count_split [of "\<lambda>i. mOccupied m ! i" "[0..<MAX_TRANSACTIONS]" "finished_slot m"]
    by (simp add: removed_def)
  moreover have "case mTiIndex (rebuildTiIndex m1) ! ti of None \<Rightarrow> True
      | Some s \<Rightarrow> s < MAX_TRANSACTIONS \<and> occ ! s \<and> dialog_pd (tx_pd (mTransactions m ! s)) \<and>
          unat (tx_ti (mTransactions m ! s)) = ti" if "ti < 8" for ti
    unfolding rebuild_entry(1) [OF that]
  proof (cases "List.find (dialog_slot m1 ti) [0..<MAX_TRANSACTIONS]")
    case (Some s)
    then have "s < MAX_TRANSACTIONS" "dialog_slot m1 ti s" by (simp_all add: find_upt_Some)
    then show "case List.find (dialog_slot m1 ti) [0..<MAX_TRANSACTIONS] of None \<Rightarrow> True
      | Some s \<Rightarrow> s < MAX_TRANSACTIONS \<and> occ ! s \<and> dialog_pd (tx_pd (mTransactions m ! s)) \<and>
          unat (tx_ti (mTransactions m ! s)) = ti"
      by (simp add: Some) (simp add: dialog_slot_def pending_slot_def m1_def)
  qed simp
  moreover have "mTransactions (rebuildTiIndex m1) = mTransactions m" "mOccupied (rebuildTiIndex m1) = occ"
    "mCount (rebuildTiIndex m1) = mCount m - removed"
    by (simp_all add: rebuildTiIndex_def m1_def)
  ultimately show ?thesis
    using txm_invD(1) [OF inv] rebuild_entry(2) [of m1]
    by (simp add: c txm_inv_def cong: option.case_cong) (simp add: occ_def)
qed

lemma transactions0_inv: "txm_inv transactions0"
  by code_simp

section \<open>Properties\<close>

lemma slot_id_roundtrip: "k < MAX_TRANSACTIONS \<Longrightarrow> unat ((word_of_nat k + 1) - 1 :: u32) = k"
  by (simp add: MAX_TRANSACTIONS_def unat_of_nat)

text \<open>
  C12. Creating a transaction fails exactly when all sixteen slots hold pending transactions, and
  then changes nothing. Otherwise it returns the number of a slot that held no pending
  transaction, plus one; that identifier finds the new transaction; every other slot, so every
  live transaction and its identifier, is as before.
\<close>

theorem create_spec:
  assumes inv: "txm_inv m"
  shows "case txm_create p mti ti timer m of
      (None, m') \<Rightarrow> m' = m \<and> (\<forall>i < MAX_TRANSACTIONS. pending_slot m i)
    | (Some n, m') \<Rightarrow>
        (\<exists>k < MAX_TRANSACTIONS. unat n = k + 1 \<and> \<not> pending_slot m k \<and> txm_get n m' = Some k \<and>
           mTransactions m' ! k = mkTransaction p mti ti timer \<and>
           (\<forall>i < MAX_TRANSACTIONS. i \<noteq> k \<longrightarrow>
              mTransactions m' ! i = mTransactions m ! i \<and> mOccupied m' ! i = mOccupied m ! i \<and>
              txm_get (word_of_nat i + 1) m' = txm_get (word_of_nat i + 1) m))"
proof (cases "findSlot m")
  case None
  then show ?thesis using findSlot_None [of m] by (simp add: txm_create_def)
next
  case (Some k)
  have k: "k < MAX_TRANSACTIONS" "\<not> pending_slot m k" using findSlot_Some [OF Some] .
  then have "unat (word_of_nat k + 1 :: u32) = k + 1"
    by (simp add: MAX_TRANSACTIONS_def unat_word_ariths unat_of_nat)
  then show ?thesis
    using k txm_invD(1,2) [OF inv] slot_id_roundtrip
    by (auto simp: create_eq [OF Some] txm_get_def Let_def mkTransaction_def not_le)
qed

theorem create_spec_witness:
  "case txm_create CallControl 5 3 T3101 transactions0 of
     (Some n, m') \<Rightarrow> (\<exists>k < MAX_TRANSACTIONS. unat n = k + 1 \<and> txm_get n m' = Some k)
   | (None, _) \<Rightarrow> False"
proof -
  have "fst (txm_create CallControl 5 3 T3101 transactions0) = Some 1" by code_simp
  then show ?thesis
    using create_spec [OF transactions0_inv, of CallControl 5 3 T3101]
    by (cases "txm_create CallControl 5 3 T3101 transactions0") auto
qed

section \<open>Runs\<close>

text \<open>
  What happens to a manager: the application creates transactions, finishes one through its pointer, reports timers and
  cleans up.
\<close>

datatype tx_op =
    TxCreate L3PD int u8 L3TimerId | TxComplete nat | TxExpire nat | TxCancel nat | TxTimer L3TimerId | TxCleanup

fun tx_step :: "tx_op \<Rightarrow> TransactionManager \<Rightarrow> TransactionManager" where
  "tx_step (TxCreate p mti ti timer) m = snd (txm_create p mti ti timer m)"
| "tx_step (TxComplete i) m = txm_update tx_complete i m"
| "tx_step (TxExpire i) m = txm_update tx_expire i m"
| "tx_step (TxCancel i) m = txm_update tx_cancel i m"
| "tx_step (TxTimer timer) m = txm_onTimerExpired timer m"
| "tx_step TxCleanup m = snd (txm_cleanup m)"

definition tx_run :: "tx_op list \<Rightarrow> TransactionManager" where
  "tx_run ops = fold tx_step ops transactions0"

lemma tx_step_inv: "txm_inv m \<Longrightarrow> txm_inv (tx_step opn m)"
  by (cases opn) (simp_all add: create_inv update_inv onTimerExpired_inv cleanup_inv tx_complete_def tx_expire_def tx_cancel_def)

lemma tx_steps_inv: "txm_inv m \<Longrightarrow> txm_inv (fold tx_step ops m)"
  by (induction ops arbitrary: m) (simp_all add: tx_step_inv)

lemma tx_run_inv: "txm_inv (tx_run ops)"
  by (simp add: tx_run_def tx_steps_inv transactions0_inv)

text \<open>A cleanup keeps the pending transactions and names the first of each TI in the index.\<close>

lemma cleanup_spec:
  assumes inv: "txm_inv m"
  shows "mTransactions (snd (txm_cleanup m)) = mTransactions m"
    and "k < MAX_TRANSACTIONS \<Longrightarrow> mOccupied (snd (txm_cleanup m)) ! k = pending_slot m k"
    and "k < MAX_TRANSACTIONS \<Longrightarrow> pending_slot (snd (txm_cleanup m)) k = pending_slot m k"
    and "mCount (snd (txm_cleanup m)) = txm_pendingCount m"
    and "ti < 8 \<Longrightarrow> mTiIndex (snd (txm_cleanup m)) ! ti = List.find (dialog_slot m ti) [0..<MAX_TRANSACTIONS]"
proof -
  let ?occ = "map (\<lambda>i. mOccupied m ! i \<and> \<not> finished_slot m i) [0..<MAX_TRANSACTIONS]"
  let ?removed = "length (filter (finished_slot m) [0..<MAX_TRANSACTIONS])"
  define m1 where "m1 = m\<lparr>mOccupied := ?occ, mCount := mCount m - ?removed\<rparr>"
  have c: "snd (txm_cleanup m) = rebuildTiIndex m1" by (simp add: txm_cleanup_def Let_def m1_def)
  have fields: "mTransactions (rebuildTiIndex m1) = mTransactions m" "mOccupied (rebuildTiIndex m1) = ?occ"
    "mCount (rebuildTiIndex m1) = mCount m - ?removed"
    by (simp_all add: rebuildTiIndex_def m1_def)
  have occ: "?occ ! k = pending_slot m k" if "k < MAX_TRANSACTIONS" for k
    using that by (auto simp: pending_slot_def finished_slot_def)
  have pend: "pending_slot m1 k = pending_slot m k" if "k < MAX_TRANSACTIONS" for k
    using that by (auto simp: pending_slot_def finished_slot_def m1_def)
  show "mTransactions (snd (txm_cleanup m)) = mTransactions m" by (simp add: c fields)
  show "k < MAX_TRANSACTIONS \<Longrightarrow> mOccupied (snd (txm_cleanup m)) ! k = pending_slot m k" by (simp only: c fields occ)
  show "k < MAX_TRANSACTIONS \<Longrightarrow> pending_slot (snd (txm_cleanup m)) k = pending_slot m k"
    by (simp add: c pending_slot_def [of "rebuildTiIndex m1"] fields) (auto simp: pending_slot_def finished_slot_def)
  have "filter (\<lambda>i. mOccupied m ! i \<and> finished_slot m i) [0..<MAX_TRANSACTIONS] = filter (finished_slot m) [0..<MAX_TRANSACTIONS]"
    by (intro filter_cong) (auto simp: finished_slot_def)
  moreover have "filter (\<lambda>i. mOccupied m ! i \<and> \<not> finished_slot m i) [0..<MAX_TRANSACTIONS] = filter (pending_slot m) [0..<MAX_TRANSACTIONS]"
    by (intro filter_cong) (auto simp: finished_slot_def pending_slot_def)
  ultimately have "mCount m = txm_pendingCount m + ?removed"
    using count_split [of "\<lambda>i. mOccupied m ! i" "[0..<MAX_TRANSACTIONS]" "finished_slot m"] txm_invD(4) [OF inv]
    by (simp add: txm_pendingCount_def)
  then show "mCount (snd (txm_cleanup m)) = txm_pendingCount m" by (simp add: c fields)
  have "List.find (dialog_slot m1 ti) [0..<MAX_TRANSACTIONS] = List.find (dialog_slot m ti) [0..<MAX_TRANSACTIONS]" for ti
    by (intro find_cong refl) (simp add: dialog_slot_def pend, simp add: m1_def)
  then show "ti < 8 \<Longrightarrow> mTiIndex (snd (txm_cleanup m)) ! ti = List.find (dialog_slot m ti) [0..<MAX_TRANSACTIONS]"
    by (simp add: c rebuild_entry(1))
qed

text \<open>
  C13. The manager's bookkeeping, after every run: the number of tracked transactions is the number of occupied slots; an
  entry of the TI index names an occupied slot with a call control or supplementary service dialog of that TI; a dialog that is
  created with a TI below 8 is the one its TI leads to; a cleanup keeps exactly the pending transactions, counts them, and makes each TI lead to
  the first pending dialog that has it, and to nothing when there is none.
\<close>

theorem transaction_bookkeeping:
  "let m = tx_run ops in
     mCount m = card {k. k < MAX_TRANSACTIONS \<and> mOccupied m ! k} \<and>
     (\<forall>ti k. ti < 8 \<and> mTiIndex m ! ti = Some k \<longrightarrow> k < MAX_TRANSACTIONS \<and> mOccupied m ! k \<and>
        dialog_pd (tx_pd (mTransactions m ! k)) \<and> unat (tx_ti (mTransactions m ! k)) = ti) \<and>
     (\<forall>p mti ti timer n m'. dialog_pd p \<and> unat ti < 8 \<and> txm_create p mti ti timer m = (Some n, m') \<longrightarrow>
        mTiIndex m' ! unat ti = Some (unat n - 1)) \<and>
     (let m' = snd (txm_cleanup m) in
        mCount m' = txm_pendingCount m \<and> (\<forall>k < MAX_TRANSACTIONS. mOccupied m' ! k = pending_slot m k) \<and>
        (\<forall>ti < 8. mTiIndex m' ! ti = List.find (dialog_slot m ti) [0..<MAX_TRANSACTIONS]))"
proof -
  define m where "m = tx_run ops"
  have inv: "txm_inv m" by (simp add: m_def tx_run_inv)
  have "{k. k < MAX_TRANSACTIONS \<and> mOccupied m ! k} = set (filter (\<lambda>i. mOccupied m ! i) [0..<MAX_TRANSACTIONS])" by auto
  also have "card \<dots> = length (filter (\<lambda>i. mOccupied m ! i) [0..<MAX_TRANSACTIONS])" by (intro distinct_card) simp
  finally have count: "mCount m = card {k. k < MAX_TRANSACTIONS \<and> mOccupied m ! k}" using txm_invD(4) [OF inv] by simp
  have "mTiIndex m' ! unat ti = Some (unat n - 1)"
    if c: "dialog_pd p" "unat ti < 8" "txm_create p mti ti timer m = (Some n, m')" for p mti ti timer n m'
  proof -
    obtain k where k: "findSlot m = Some k" using c(3) by (cases "findSlot m") (simp_all add: txm_create_def)
    have "k < MAX_TRANSACTIONS" using findSlot_Some [OF k] by simp
    then have "unat (word_of_nat k + 1 :: u32) = k + 1" by (simp add: MAX_TRANSACTIONS_def unat_word_ariths unat_of_nat)
    moreover have "n = word_of_nat k + 1" "mTiIndex m' = index_after p ti k m" using c(3) by (auto simp: create_eq [OF k])
    ultimately show ?thesis using c(1,2) txm_invD(3) [OF inv] by (simp add: index_after_def Let_def)
  qed
  moreover note cleanup_spec [OF inv] txm_invD(5) [OF inv]
  ultimately show ?thesis using count unfolding m_def [symmetric] Let_def by blast
qed

theorem transaction_bookkeeping_witness:
  "let m = tx_run [TxCreate CallControl 5 3 T3101, TxCreate NonCallSS 6 4 T3101, TxComplete 1]
   in mTiIndex m ! 4 = Some 1 \<and> mCount m = 2 \<and> mCount (snd (txm_cleanup m)) = 1 \<and>
      mTiIndex (snd (txm_cleanup m)) ! 3 = Some 0 \<and> mTiIndex (snd (txm_cleanup m)) ! 4 = None"
proof -
  let ?m = "tx_run [TxCreate CallControl 5 3 T3101, TxCreate NonCallSS 6 4 T3101, TxComplete 1]"
  have "mTiIndex ?m ! 4 = Some 1 \<and> mCount ?m = 2 \<and> txm_pendingCount ?m = 1 \<and>
      List.find (dialog_slot ?m 3) [0..<MAX_TRANSACTIONS] = Some 0 \<and> List.find (dialog_slot ?m 4) [0..<MAX_TRANSACTIONS] = None"
    by code_simp
  then show ?thesis
    using transaction_bookkeeping [of "[TxCreate CallControl 5 3 T3101, TxCreate NonCallSS 6 4 T3101, TxComplete 1]"]
    by (simp add: Let_def)
qed

section \<open>The index and the scan\<close>

text \<open>
  The scope in which the index is complete: a dialog is only created with a TI below eight that no pending dialog, of
  either protocol, has.
\<close>

fun ti_unique :: "tx_op list \<Rightarrow> TransactionManager \<Rightarrow> bool" where
  "ti_unique [] m \<longleftrightarrow> True"
| "ti_unique (opn # ops) m \<longleftrightarrow>
     (case opn of
        TxCreate p mti ti timer \<Rightarrow> dialog_pd p \<longrightarrow> unat ti < 8 \<and> list_all (\<lambda>k. \<not> dialog_slot m (unat ti) k) [0..<MAX_TRANSACTIONS]
      | _ \<Rightarrow> True) \<and> ti_unique ops (tx_step opn m)"

definition index_complete :: "TransactionManager \<Rightarrow> bool" where
  "index_complete m \<longleftrightarrow> (\<forall>k < MAX_TRANSACTIONS. \<forall>ti. dialog_slot m ti k \<longrightarrow> ti < 8 \<and> mTiIndex m ! ti = Some k)"

lemma index_complete_fewer:
  assumes "index_complete m" "mTiIndex m' = mTiIndex m" "\<And>k ti. k < MAX_TRANSACTIONS \<Longrightarrow> dialog_slot m' ti k \<Longrightarrow> dialog_slot m ti k"
  shows "index_complete m'"
  using assms by (simp add: index_complete_def)

lemma update_fewer:
  assumes "\<And>t. tx_state (f t) \<noteq> Tx_Pending" "txm_inv m" "k < MAX_TRANSACTIONS" "dialog_slot (txm_update f i m) ti k"
  shows "dialog_slot m ti k"
  using assms txm_invD(1) [OF assms(2)]
  by (cases "k = i") (auto simp: dialog_slot_def pending_slot_def txm_update_def)

lemma create_complete:
  assumes inv: "txm_inv m" and ok: "index_complete m"
    and new: "dialog_pd p \<longrightarrow> unat ti < 8 \<and> (\<forall>k < MAX_TRANSACTIONS. \<not> dialog_slot m (unat ti) k)"
  shows "index_complete (snd (txm_create p mti ti timer m))"
proof (cases "findSlot m")
  case None
  then show ?thesis using ok by (simp add: txm_create_def)
next
  case (Some k)
  note d = txm_invD [OF inv]
  have k: "k < MAX_TRANSACTIONS" "\<not> pending_slot m k" using findSlot_Some [OF Some] by auto
  let ?m = "snd (txm_create p mti ti timer m)"
  have own: "dialog_slot ?m t k \<longleftrightarrow> dialog_pd p \<and> unat ti = t" for t
    using k d(1,2) by (simp add: create_eq [OF Some] dialog_slot_def pending_slot_def mkTransaction_def)
  have other: "dialog_slot ?m t j \<longleftrightarrow> dialog_slot m t j" if "j \<noteq> k" for j t
    using that by (simp add: create_eq [OF Some] dialog_slot_def pending_slot_def)
  have entry: "mTiIndex ?m ! t = (if dialog_pd p \<and> unat ti = t then Some k
      else if mTiIndex m ! t = Some k then mTiIndex ?m ! t else mTiIndex m ! t)" if "t < 8" for t
    using that d(3) by (auto simp: create_eq [OF Some] index_after_def Let_def nth_list_update)
  show ?thesis unfolding index_complete_def
  proof (intro allI impI)
    fix j t
    assume j: "j < MAX_TRANSACTIONS" "dialog_slot ?m t j"
    show "t < 8 \<and> mTiIndex ?m ! t = Some j"
    proof (cases "j = k")
      case True
      then show ?thesis using j own [of t] new entry [of t] by simp
    next
      case False
      then have old: "dialog_slot m t j" "t < 8" "mTiIndex m ! t = Some j" using j other ok by (auto simp: index_complete_def)
      then have "\<not> (dialog_pd p \<and> unat ti = t)" using new j(1) by auto
      then show ?thesis using entry [OF old(2)] old False by auto
    qed
  qed
qed

lemma tx_step_complete:
  assumes inv: "txm_inv m" and ok: "index_complete m" and unique: "ti_unique (opn # ops) m"
  shows "index_complete (tx_step opn m)"
proof (cases opn)
  case (TxCreate p mti ti timer)
  then show ?thesis using create_complete [OF inv ok] unique by (simp add: list_all_iff)
next
  case (TxTimer timer)
  show ?thesis unfolding TxTimer tx_step.simps
    by (rule index_complete_fewer [OF ok])
      (auto simp: txm_onTimerExpired_def dialog_slot_def pending_slot_def expire_slot_def tx_expire_def Let_def split: if_splits)
next
  case TxCleanup
  note c = cleanup_spec [OF inv]
  have same: "dialog_slot (tx_step opn m) ti k = dialog_slot m ti k" if "k < MAX_TRANSACTIONS" for ti k
    using that c(3) by (simp add: dialog_slot_def TxCleanup c(1))
  show ?thesis unfolding index_complete_def
  proof (intro allI impI)
    fix k ti
    assume k: "k < MAX_TRANSACTIONS" "dialog_slot (tx_step opn m) ti k"
    then have "dialog_slot m ti k" using same by simp
    then have ti: "ti < 8" "mTiIndex m ! ti = Some k" using ok k(1) by (simp_all add: index_complete_def)
    then have only: "j = k" if "j < MAX_TRANSACTIONS" "dialog_slot m ti j" for j
      using that ok ti(2) by (simp add: index_complete_def)
    have "\<not> dialog_slot m ti j" if "j < k" for j using only [of j] that k(1) by auto
    then have "List.find (dialog_slot m ti) [0..<MAX_TRANSACTIONS] = Some k"
      using k(1) \<open>dialog_slot m ti k\<close> by (simp add: find_upt_Some)
    then show "ti < 8 \<and> mTiIndex (tx_step opn m) ! ti = Some k" using c(5) ti(1) TxCleanup by simp
  qed
qed (auto intro!: index_complete_fewer [OF ok] update_fewer [OF _ inv] simp: txm_update_def tx_complete_def tx_expire_def tx_cancel_def)

lemma tx_steps_complete:
  "txm_inv m \<Longrightarrow> index_complete m \<Longrightarrow> ti_unique ops m \<Longrightarrow> index_complete (fold tx_step ops m)"
proof (induction ops arbitrary: m)
  case (Cons opn ops)
  then show ?case using tx_step_complete [OF Cons.prems] tx_step_inv by simp
qed simp

text \<open>
  C14. Correlation through the TI index is correlation by search: when each dialog is created with a TI below 8 that no pending
  dialog has, a message finds the transaction that a search through the slots in order finds, the first pending transaction of the message's protocol
  with its TI (call control, supplementary services) or its message type (all others), and finds nothing when the search does.
\<close>

theorem match_spec:
  assumes "ti_unique ops transactions0"
  shows "match_msg msg (tx_run ops) =
    List.find (\<lambda>k. let t = mTransactions (tx_run ops) ! k in
       pending_slot (tx_run ops) k \<and> tx_pd t = messagePD msg \<and>
       (if dialog_pd (messagePD msg) then tx_ti t = messageTI msg else tx_mti t = messageMTI msg)) [0..<MAX_TRANSACTIONS]"
proof -
  define m where "m = tx_run ops"
  define P where "P k \<longleftrightarrow> (let t = mTransactions m ! k in pending_slot m k \<and> tx_pd t = messagePD msg \<and>
       (if dialog_pd (messagePD msg) then tx_ti t = messageTI msg else tx_mti t = messageMTI msg))" for k
  have inv: "txm_inv m" by (simp add: m_def tx_run_inv)
  have "\<not> dialog_slot transactions0 ti k" if "k < MAX_TRANSACTIONS" for ti k
    using that by (simp add: dialog_slot_def pending_slot_def transactions0_def)
  then have complete: "index_complete m"
    unfolding m_def tx_run_def using assms by (intro tx_steps_complete transactions0_inv) (simp_all add: index_complete_def)
  have "match_msg msg m = List.find P [0..<MAX_TRANSACTIONS]"
  proof (cases "dialog_pd (messagePD msg)")
    case False
    then show ?thesis
      by (simp add: match_msg_def match_scan_def) (intro find_cong refl, auto simp: P_def Let_def pending_slot_def tx_matches_def)
  next
    case True
    have slot: "dialog_slot m (unat (messageTI msg)) k" if "P k" for k
      using that True by (auto simp: P_def Let_def dialog_slot_def)
    have found: "match_msg msg m = Some k" if k: "k < MAX_TRANSACTIONS" "P k" for k
      using complete slot [OF k(2)] k True
      by (auto simp: index_complete_def match_msg_def match_dialog_def P_def Let_def pending_slot_def)
    show ?thesis
    proof (cases "List.find P [0..<MAX_TRANSACTIONS]")
      case None
      then have "\<forall>k < MAX_TRANSACTIONS. \<not> P k" by (simp add: find_upt_None)
      then have "match_msg msg m = None"
        using True txm_invD(5) [OF inv, of "unat (messageTI msg)"]
        by (auto simp: match_msg_def match_dialog_def P_def Let_def pending_slot_def split: option.splits)
      then show ?thesis using None by simp
    next
      case (Some k)
      then have "k < MAX_TRANSACTIONS" "P k" by (simp_all add: find_upt_Some)
      then show ?thesis using found Some by simp
    qed
  qed
  then show ?thesis by (simp add: P_def [abs_def] m_def)
qed

theorem match_spec_witness:
  "let msg = \<lparr>messagePD = NonCallSS, messageMTI = 7, messageTI = 4, messageBody = OtherBody\<rparr>
   in match_msg msg (tx_run [TxCreate CallControl 5 3 T3101, TxCreate NonCallSS 6 4 T3101]) = Some 1"
proof -
  let ?ops = "[TxCreate CallControl 5 3 T3101, TxCreate NonCallSS 6 4 T3101]"
  let ?msg = "\<lparr>messagePD = NonCallSS, messageMTI = 7, messageTI = 4, messageBody = OtherBody\<rparr>"
  have u: "ti_unique ?ops transactions0" by code_simp
  have "List.find (\<lambda>k. let t = mTransactions (tx_run ?ops) ! k in
       pending_slot (tx_run ?ops) k \<and> tx_pd t = messagePD ?msg \<and>
       (if dialog_pd (messagePD ?msg) then tx_ti t = messageTI ?msg else tx_mti t = messageMTI ?msg)) [0..<MAX_TRANSACTIONS] = Some 1"
    by code_simp
  then show ?thesis using match_spec [OF u, of ?msg] by (simp only: Let_def)
qed

text \<open>
  C15. Two dialogs of different protocols that share a TI are not kept apart: while a call control
  transaction with some TI is pending, creating a supplementary service transaction with the same
  TI takes over the index entry, and a response of the call control dialog then finds nothing,
  although its transaction is still pending.
\<close>

theorem shared_ti_loses_dialog:
  assumes inv: "txm_inv m" and msg: "messagePD msg = CallControl" "unat (messageTI msg) < 8"
    and pend: "k < MAX_TRANSACTIONS" "pending_slot m k" "tx_pd (mTransactions m ! k) = CallControl"
      "tx_ti (mTransactions m ! k) = messageTI msg"
    and room: "\<not> (\<forall>i < MAX_TRANSACTIONS. pending_slot m i)"
  shows "let m' = snd (txm_create NonCallSS mti (messageTI msg) timer m)
         in pending_slot m' k \<and> mTransactions m' ! k = mTransactions m ! k \<and> match_msg msg m' = None"
proof -
  obtain j where j: "findSlot m = Some j" using room findSlot_None [of m] by (cases "findSlot m") auto
  have jk: "j < MAX_TRANSACTIONS" "j \<noteq> k" using findSlot_Some [OF j] pend by auto
  have "index_after NonCallSS (messageTI msg) j m ! unat (messageTI msg) = Some j"
    using msg txm_invD(3) [OF inv] by (simp add: index_after_def Let_def dialog_pd_def)
  then show ?thesis
    using jk pend msg txm_invD(1,2) [OF inv]
    by (simp add: create_eq [OF j] match_msg_def match_dialog_def dialog_pd_def mkTransaction_def
        pending_slot_def Let_def)
qed

theorem shared_ti_loses_dialog_witness:
  "let m = snd (txm_create CallControl 5 3 T3101 transactions0);
       m' = snd (txm_create NonCallSS 0x3B 3 T3101 m)
   in pending_slot m' 0 \<and> match_msg \<lparr>messagePD = CallControl, messageMTI = 7, messageTI = 3, messageBody = OtherBody\<rparr> m' = None"
proof -
  let ?m = "snd (txm_create CallControl 5 3 T3101 transactions0)"
  let ?msg = "\<lparr>messagePD = CallControl, messageMTI = 7, messageTI = 3, messageBody = OtherBody\<rparr>"
  have "pending_slot ?m 0 \<and> tx_pd (mTransactions ?m ! 0) = CallControl \<and>
      tx_ti (mTransactions ?m ! 0) = messageTI ?msg \<and> \<not> pending_slot ?m 1"
    by code_simp
  then have f: "pending_slot ?m 0" "tx_pd (mTransactions ?m ! 0) = CallControl"
      "tx_ti (mTransactions ?m ! 0) = messageTI ?msg" and free: "\<not> pending_slot ?m 1"
    by blast+
  have "\<not> (\<forall>i < MAX_TRANSACTIONS. pending_slot ?m i)"
    using free by (intro notI) (drule spec [of _ 1], simp add: MAX_TRANSACTIONS_def)
  then show ?thesis
    using shared_ti_loses_dialog [OF create_inv [OF transactions0_inv] _ _ _ f(1), of ?msg "0x3B" T3101]
      f(2,3)
    by (simp add: Let_def MAX_TRANSACTIONS_def)
qed

end
