(* ===== verification/State_Machine.thy ===== *)
theory State_Machine
  imports L3_Header L3_Timer "HOL-Library.Sublist"
begin

text \<open>
  The protocol state machines of \<^verbatim>\<open>stack/state_machine.h\<close> and \<^verbatim>\<open>stack/state_machine.cpp\<close>: radio
  resource, mobility management and call control. A state is an integer, as in the code; the
  enumerators are abbreviations. The common base class is the locale \<open>protocol_machine\<close>.
\<close>

section \<open>Results and the base class\<close>

datatype SMAction =
    SM_None | SM_Transition | SM_SendResponse | SM_Reject | SM_ReleaseChannel | SM_PushSubstate
  | SM_PopSubstate

record SMResult =
  sm_action :: SMAction
  sm_next :: "int option"

definition causesTransition :: "SMResult \<Rightarrow> bool" where
  "causesTransition r \<longleftrightarrow> sm_action r = SM_Transition \<or> sm_action r = SM_SendResponse"

abbreviation sm_result :: "SMAction \<Rightarrow> int option \<Rightarrow> SMResult" where
  "sm_result a n \<equiv> \<lparr>sm_action = a, sm_next = n\<rparr>"

definition sm_apply :: "SMResult \<Rightarrow> int \<Rightarrow> int" where
  "sm_apply r s = (case sm_next r of Some n \<Rightarrow> if causesTransition r then n else s | None \<Rightarrow> s)"

definition processMessage :: "(int \<Rightarrow> ParsedMessage \<Rightarrow> SMResult) \<Rightarrow> ParsedMessage \<Rightarrow> int \<Rightarrow> SMResult \<times> int" where
  "processMessage h msg s = (let r = h s msg in (r, sm_apply r s))"

definition processTimer :: "(int \<Rightarrow> L3TimerId \<Rightarrow> SMResult) \<Rightarrow> L3TimerId \<Rightarrow> int \<Rightarrow> SMResult \<times> int" where
  "processTimer h i s = (let r = h s i in (r, sm_apply r s))"

section \<open>Message types the machines look at\<close>

abbreviation MTI_CMServiceAccept :: int where "MTI_CMServiceAccept \<equiv> 0x21"
abbreviation MTI_CMServiceRequest :: int where "MTI_CMServiceRequest \<equiv> 0x24"
abbreviation MTI_IdentityResponse :: int where "MTI_IdentityResponse \<equiv> 0x19"
abbreviation MTI_AuthenticationResponse :: int where "MTI_AuthenticationResponse \<equiv> 0x14"
abbreviation MTI_LocationUpdatingRequest :: int where "MTI_LocationUpdatingRequest \<equiv> 0x08"
abbreviation MTI_ChannelRequest :: int where "MTI_ChannelRequest \<equiv> 0x181"
abbreviation MTI_PagingResponse :: int where "MTI_PagingResponse \<equiv> 0x27"
abbreviation MTI_CipheringModeComplete :: int where "MTI_CipheringModeComplete \<equiv> 0x32"
abbreviation MTI_ChannelRelease :: int where "MTI_ChannelRelease \<equiv> 0x0D"
abbreviation MTI_MeasurementReport :: int where "MTI_MeasurementReport \<equiv> 0x15"
abbreviation MTI_HandoverCommand :: int where "MTI_HandoverCommand \<equiv> 0x2B"
abbreviation MTI_Alerting :: int where "MTI_Alerting \<equiv> 0x01"
abbreviation MTI_Setup :: int where "MTI_Setup \<equiv> 0x05"
abbreviation MTI_Connect :: int where "MTI_Connect \<equiv> 0x07"
abbreviation MTI_CallConfirmed :: int where "MTI_CallConfirmed \<equiv> 0x08"
abbreviation MTI_ConnectAcknowledge :: int where "MTI_ConnectAcknowledge \<equiv> 0x0F"
abbreviation MTI_Disconnect :: int where "MTI_Disconnect \<equiv> 0x25"
abbreviation MTI_Release :: int where "MTI_Release \<equiv> 0x2D"

section \<open>Radio resource\<close>

abbreviation RR_IDLE :: int where "RR_IDLE \<equiv> 0"
abbreviation RR_CHANNEL_REQUESTED :: int where "RR_CHANNEL_REQUESTED \<equiv> 1"
abbreviation RR_CHANNEL_ASSIGNED :: int where "RR_CHANNEL_ASSIGNED \<equiv> 2"
abbreviation RR_LINK_ESTABLISHED :: int where "RR_LINK_ESTABLISHED \<equiv> 3"
abbreviation RR_WAITING_MM :: int where "RR_WAITING_MM \<equiv> 4"
abbreviation RR_ACTIVE :: int where "RR_ACTIVE \<equiv> 5"
abbreviation RR_CIPHER_MODE :: int where "RR_CIPHER_MODE \<equiv> 6"
abbreviation RR_HANDOVER :: int where "RR_HANDOVER \<equiv> 7"
abbreviation RR_CHANNEL_RELEASE :: int where "RR_CHANNEL_RELEASE \<equiv> 8"

definition rr_foreign :: "int \<Rightarrow> L3PD \<Rightarrow> int \<Rightarrow> SMResult" where
  "rr_foreign s p mti =
     (if s = RR_LINK_ESTABLISHED \<and> p = MobilityManagement
      then sm_result SM_Transition (Some RR_WAITING_MM)
      else if s = RR_WAITING_MM \<and> p = MobilityManagement \<and> mti = MTI_CMServiceAccept
      then sm_result SM_Transition (Some RR_ACTIVE)
      else if s = RR_WAITING_MM \<and> p = MobilityManagement \<and> mti = MTI_CMServiceRequest
      then sm_result SM_SendResponse (Some RR_ACTIVE)
      else if s = RR_ACTIVE \<and> p = CallControl \<and> mti = MTI_Setup
      then sm_result SM_SendResponse (Some RR_ACTIVE)
      else sm_result SM_None None)"

text \<open>
  In the radio resource branch the discriminator is \<open>RadioResource\<close>, so the two cases of the code
  that test for a mobility management message there cannot be taken; they are kept as written.
\<close>

definition rr_handle_message :: "int \<Rightarrow> ParsedMessage \<Rightarrow> SMResult" where
  "rr_handle_message s msg =
     (let p = messagePD msg; mti = messageMTI msg
      in if p \<noteq> RadioResource then rr_foreign s p mti
      else if s = RR_IDLE \<and> mti = MTI_ChannelRequest
      then sm_result SM_SendResponse (Some RR_CHANNEL_REQUESTED)
      else if s = RR_CHANNEL_ASSIGNED \<and> mti = MTI_PagingResponse
      then sm_result SM_Transition (Some RR_WAITING_MM)
      else if s = RR_LINK_ESTABLISHED \<and> p = MobilityManagement
      then sm_result SM_Transition (Some RR_WAITING_MM)
      else if s = RR_WAITING_MM \<and> p = MobilityManagement \<and> mti = MTI_CMServiceAccept
      then sm_result SM_Transition (Some RR_ACTIVE)
      else if s = RR_WAITING_MM \<and> p = MobilityManagement \<and> mti = MTI_CMServiceRequest
      then sm_result SM_SendResponse (Some RR_ACTIVE)
      else if s = RR_ACTIVE \<and> mti = MTI_CipheringModeComplete then sm_result SM_None None
      else if s = RR_ACTIVE \<and> mti = MTI_ChannelRelease
      then sm_result SM_SendResponse (Some RR_CHANNEL_RELEASE)
      else if s = RR_ACTIVE \<and> mti = MTI_MeasurementReport then sm_result SM_None None
      else if s = RR_ACTIVE \<and> mti = MTI_HandoverCommand
      then sm_result SM_Transition (Some RR_HANDOVER)
      else if s = RR_CIPHER_MODE \<and> mti = MTI_CipheringModeComplete
      then sm_result SM_Transition (Some RR_ACTIVE)
      else if s = RR_CHANNEL_RELEASE then sm_result SM_ReleaseChannel None
      else sm_result SM_None None)"

definition rr_handle_timer :: "int \<Rightarrow> L3TimerId \<Rightarrow> SMResult" where
  "rr_handle_timer s i =
     (if i = T3109 \<and> (s = RR_CHANNEL_ASSIGNED \<or> s = RR_WAITING_MM)
      then sm_result SM_Transition (Some RR_CHANNEL_RELEASE) else sm_result SM_None None)"

section \<open>Mobility management\<close>

abbreviation MM_DEREGISTERED :: int where "MM_DEREGISTERED \<equiv> 0"
abbreviation MM_SERVICE_REQUEST :: int where "MM_SERVICE_REQUEST \<equiv> 1"
abbreviation MM_WAITING_IDENTITY :: int where "MM_WAITING_IDENTITY \<equiv> 2"
abbreviation MM_IDENTITY_VERIFIED :: int where "MM_IDENTITY_VERIFIED \<equiv> 3"
abbreviation MM_AUTHENTICATION :: int where "MM_AUTHENTICATION \<equiv> 4"
abbreviation MM_AUTHENTICATED :: int where "MM_AUTHENTICATED \<equiv> 5"
abbreviation MM_LOCATION_UPDATE :: int where "MM_LOCATION_UPDATE \<equiv> 6"
abbreviation MM_REGISTERED :: int where "MM_REGISTERED \<equiv> 7"

definition mm_handle_message :: "int \<Rightarrow> ParsedMessage \<Rightarrow> SMResult" where
  "mm_handle_message s msg =
     (let mti = messageMTI msg
      in if messagePD msg \<noteq> MobilityManagement then sm_result SM_None None
      else if s = MM_DEREGISTERED \<and> mti = MTI_CMServiceRequest
      then sm_result SM_SendResponse (Some MM_WAITING_IDENTITY)
      else if s = MM_SERVICE_REQUEST \<and> mti = MTI_IdentityResponse
      then sm_result SM_SendResponse (Some MM_IDENTITY_VERIFIED)
      else if s = MM_WAITING_IDENTITY \<and> mti = MTI_IdentityResponse
      then sm_result SM_SendResponse (Some MM_IDENTITY_VERIFIED)
      else if s = MM_IDENTITY_VERIFIED \<and> mti = MTI_AuthenticationResponse
      then sm_result SM_SendResponse (Some MM_AUTHENTICATED)
      else if s = MM_AUTHENTICATION \<and> mti = MTI_AuthenticationResponse
      then sm_result SM_SendResponse (Some MM_AUTHENTICATED)
      else if s = MM_AUTHENTICATED \<and> mti = MTI_LocationUpdatingRequest
      then sm_result SM_Transition (Some MM_LOCATION_UPDATE)
      else if s = MM_LOCATION_UPDATE \<and> mti = MTI_CMServiceAccept
      then sm_result SM_SendResponse (Some MM_REGISTERED)
      else sm_result SM_None None)"

definition mm_handle_timer :: "int \<Rightarrow> L3TimerId \<Rightarrow> SMResult" where
  "mm_handle_timer s i =
     (if (i = T3101 \<or> i = T3102) \<and> (s = MM_SERVICE_REQUEST \<or> s = MM_WAITING_IDENTITY)
      then sm_result SM_Transition (Some MM_DEREGISTERED)
      else if i = T3106 \<and> s = MM_AUTHENTICATION
      then sm_result SM_Transition (Some MM_DEREGISTERED)
      else sm_result SM_None None)"

section \<open>Call control\<close>

abbreviation CC_IDLE :: int where "CC_IDLE \<equiv> 0"
abbreviation CC_SETUP_RECEIVED :: int where "CC_SETUP_RECEIVED \<equiv> 1"
abbreviation CC_PROCEEDING :: int where "CC_PROCEEDING \<equiv> 2"
abbreviation CC_ALERTING :: int where "CC_ALERTING \<equiv> 3"
abbreviation CC_CONNECT :: int where "CC_CONNECT \<equiv> 4"
abbreviation CC_ACTIVE :: int where "CC_ACTIVE \<equiv> 5"
abbreviation CC_DISCONNECT_RECEIVED :: int where "CC_DISCONNECT_RECEIVED \<equiv> 6"
abbreviation CC_RELEASE :: int where "CC_RELEASE \<equiv> 7"

definition cc_handle_message :: "int \<Rightarrow> ParsedMessage \<Rightarrow> SMResult" where
  "cc_handle_message s msg =
     (let mti = messageMTI msg
      in if messagePD msg \<noteq> CallControl then sm_result SM_None None
      else if s = CC_IDLE \<and> mti = MTI_Setup then sm_result SM_Transition (Some CC_SETUP_RECEIVED)
      else if s = CC_SETUP_RECEIVED then sm_result SM_SendResponse (Some CC_PROCEEDING)
      else if s = CC_PROCEEDING \<and> mti = MTI_Alerting then sm_result SM_SendResponse (Some CC_ALERTING)
      else if s = CC_ALERTING \<and> mti = MTI_Connect then sm_result SM_SendResponse (Some CC_CONNECT)
      else if s = CC_CONNECT \<and> mti = MTI_CallConfirmed then sm_result SM_Transition (Some CC_ACTIVE)
      else if s = CC_ACTIVE \<and> mti = MTI_Disconnect
      then sm_result SM_SendResponse (Some CC_DISCONNECT_RECEIVED)
      else if s = CC_ACTIVE \<and> mti = MTI_ConnectAcknowledge then sm_result SM_Transition (Some CC_ACTIVE)
      else if s = CC_DISCONNECT_RECEIVED then sm_result SM_SendResponse (Some CC_RELEASE)
      else if s = CC_RELEASE \<and> mti = MTI_Release then sm_result SM_SendResponse (Some CC_IDLE)
      else sm_result SM_None None)"

definition cc_handle_timer :: "int \<Rightarrow> L3TimerId \<Rightarrow> SMResult" where
  "cc_handle_timer s i =
     (if i = T3101 \<and> (s = CC_SETUP_RECEIVED \<or> s = CC_PROCEEDING \<or> s = CC_ALERTING)
      then sm_result SM_Transition (Some CC_IDLE) else sm_result SM_None None)"

section \<open>Runs of a machine\<close>

datatype SMEvent = MsgEvent ParsedMessage | TimerEvent L3TimerId

definition sm_step :: "(int \<Rightarrow> ParsedMessage \<Rightarrow> SMResult) \<Rightarrow> (int \<Rightarrow> L3TimerId \<Rightarrow> SMResult) \<Rightarrow> SMEvent \<Rightarrow> int \<Rightarrow> int" where
  "sm_step hm ht ev s =
     (case ev of MsgEvent msg \<Rightarrow> snd (processMessage hm msg s) | TimerEvent i \<Rightarrow> snd (processTimer ht i s))"

definition sm_run :: "(int \<Rightarrow> ParsedMessage \<Rightarrow> SMResult) \<Rightarrow> (int \<Rightarrow> L3TimerId \<Rightarrow> SMResult) \<Rightarrow> SMEvent list \<Rightarrow> int \<Rightarrow> int" where
  "sm_run hm ht evs s = fold (sm_step hm ht) evs s"

lemma sm_run_simps [simp]:
  "sm_run hm ht [] s = s" "sm_run hm ht (ev # evs) s = sm_run hm ht evs (sm_step hm ht ev s)"
  by (simp_all add: sm_run_def)

text \<open>The types of the messages of one protocol in a run, in order.\<close>

definition seen_types :: "L3PD \<Rightarrow> SMEvent list \<Rightarrow> int list" where
  "seen_types p evs = concat (map (\<lambda>ev. case ev of
       MsgEvent msg \<Rightarrow> if messagePD msg = p then [messageMTI msg] else [] | TimerEvent i \<Rightarrow> []) evs)"

text \<open>
  A machine and the states it must stay in. \<open>milestones s\<close> lists the message types of the
  protocol \<open>pd\<close> that still have to come, in this order, before the machine can be in its goal:
  a step either consumes the first of them or does not shorten the list.
\<close>

locale protocol_machine =
  fixes hm :: "int \<Rightarrow> ParsedMessage \<Rightarrow> SMResult" and ht :: "int \<Rightarrow> L3TimerId \<Rightarrow> SMResult"
    and valid :: "int \<Rightarrow> bool" and pd :: L3PD and goal :: int and milestones :: "int \<Rightarrow> int list"
  assumes msg_valid: "valid s \<Longrightarrow> valid (sm_apply (hm s msg) s)"
    and timer_valid: "valid s \<Longrightarrow> valid (sm_apply (ht s i) s)"
    and at_goal: "milestones goal = []"
    and msg_step: "valid s \<Longrightarrow> subseq (milestones s) (milestones (sm_apply (hm s msg) s)) \<or>
      messagePD msg = pd \<and> milestones s = messageMTI msg # milestones (sm_apply (hm s msg) s)"
    and timer_step: "valid s \<Longrightarrow> subseq (milestones s) (milestones (sm_apply (ht s i) s))"
begin

lemma step_valid: "valid s \<Longrightarrow> valid (sm_step hm ht ev s)"
  by (simp add: sm_step_def processMessage_def processTimer_def Let_def msg_valid timer_valid split: SMEvent.split)

lemma run_valid: "valid s \<Longrightarrow> valid (sm_run hm ht evs s)"
  by (induction evs arbitrary: s) (simp_all add: step_valid)

lemma goal_needs_milestones:
  "valid s \<Longrightarrow> sm_run hm ht evs s = goal \<Longrightarrow> subseq (milestones s) (seen_types pd evs)"
proof (induction evs arbitrary: s)
  case Nil
  then show ?case by (simp add: at_goal)
next
  case (Cons ev evs)
  let ?s = "sm_step hm ht ev s"
  have IH: "subseq (milestones ?s) (seen_types pd evs)" using Cons by (simp add: step_valid)
  show ?case
  proof (cases ev)
    case (MsgEvent msg)
    have s: "?s = sm_apply (hm s msg) s"
      by (simp add: MsgEvent sm_step_def processMessage_def Let_def)
    have "seen_types pd (ev # evs) = (if messagePD msg = pd then [messageMTI msg] else []) @ seen_types pd evs"
      by (simp add: seen_types_def MsgEvent)
    moreover from msg_step [OF Cons.prems(1), of msg, folded s] IH
    have "subseq (milestones s) (seen_types pd evs) \<or>
        messagePD msg = pd \<and> (\<exists>ms. milestones s = messageMTI msg # ms \<and> subseq ms (seen_types pd evs))"
      by (metis subseq_order.trans)
    ultimately show ?thesis by (auto intro: list_emb_append2)
  next
    case (TimerEvent i)
    then show ?thesis
      using timer_step [OF Cons.prems(1), of i] IH
      by (simp add: sm_step_def processTimer_def Let_def seen_types_def)
  qed
qed

end

section \<open>The three machines\<close>

definition mm_milestones :: "int \<Rightarrow> int list" where
  "mm_milestones s =
     (if s = MM_DEREGISTERED
      then [MTI_CMServiceRequest, MTI_IdentityResponse, MTI_AuthenticationResponse,
            MTI_LocationUpdatingRequest, MTI_CMServiceAccept]
      else if s = MM_SERVICE_REQUEST \<or> s = MM_WAITING_IDENTITY
      then [MTI_IdentityResponse, MTI_AuthenticationResponse, MTI_LocationUpdatingRequest,
            MTI_CMServiceAccept]
      else if s = MM_IDENTITY_VERIFIED \<or> s = MM_AUTHENTICATION
      then [MTI_AuthenticationResponse, MTI_LocationUpdatingRequest, MTI_CMServiceAccept]
      else if s = MM_AUTHENTICATED then [MTI_LocationUpdatingRequest, MTI_CMServiceAccept]
      else if s = MM_LOCATION_UPDATE then [MTI_CMServiceAccept]
      else [])"

definition cc_milestones :: "int \<Rightarrow> int list" where
  "cc_milestones s =
     (if s = CC_IDLE then [MTI_Setup, MTI_Alerting, MTI_Connect, MTI_CallConfirmed]
      else if s = CC_SETUP_RECEIVED \<or> s = CC_PROCEEDING then [MTI_Alerting, MTI_Connect, MTI_CallConfirmed]
      else if s = CC_ALERTING then [MTI_Connect, MTI_CallConfirmed]
      else if s = CC_CONNECT then [MTI_CallConfirmed]
      else if s = CC_ACTIVE then []
      else [MTI_Release, MTI_Setup, MTI_Alerting, MTI_Connect, MTI_CallConfirmed])"

lemmas sm_defs = sm_apply_def causesTransition_def Let_def

lemma state_cases:
  "0 \<le> s \<and> s \<le> 7 \<Longrightarrow> s = 0 \<or> s = 1 \<or> s = 2 \<or> s = 3 \<or> s = 4 \<or> s = 5 \<or> s = 6 \<or> s = (7 :: int)"
  by presburger

lemma mm_milestone_step:
  "0 \<le> s \<and> s \<le> 7 \<Longrightarrow> subseq (mm_milestones s) (mm_milestones (sm_apply (mm_handle_message s msg) s)) \<or>
      messagePD msg = MobilityManagement \<and>
      mm_milestones s = messageMTI msg # mm_milestones (sm_apply (mm_handle_message s msg) s)"
  by (drule state_cases) (elim disjE; simp add: mm_handle_message_def mm_milestones_def sm_defs)

lemma cc_milestone_step:
  "0 \<le> s \<and> s \<le> 7 \<Longrightarrow> subseq (cc_milestones s) (cc_milestones (sm_apply (cc_handle_message s msg) s)) \<or>
      messagePD msg = CallControl \<and>
      cc_milestones s = messageMTI msg # cc_milestones (sm_apply (cc_handle_message s msg) s)"
  by (drule state_cases) (elim disjE; simp add: cc_handle_message_def cc_milestones_def sm_defs)

lemma mm_timer_step:
  "0 \<le> s \<and> s \<le> 7 \<Longrightarrow> subseq (mm_milestones s) (mm_milestones (sm_apply (mm_handle_timer s i) s))"
  by (drule state_cases) (elim disjE; simp add: mm_handle_timer_def mm_milestones_def sm_defs)

lemma cc_timer_step:
  "0 \<le> s \<and> s \<le> 7 \<Longrightarrow> subseq (cc_milestones s) (cc_milestones (sm_apply (cc_handle_timer s i) s))"
  by (drule state_cases) (elim disjE; simp add: cc_handle_timer_def cc_milestones_def sm_defs)

lemma mm_next_valid:
  "0 \<le> s \<and> s \<le> 7 \<Longrightarrow>
   0 \<le> sm_apply (mm_handle_message s msg) s \<and> sm_apply (mm_handle_message s msg) s \<le> 7"
  "0 \<le> s \<and> s \<le> 7 \<Longrightarrow>
   0 \<le> sm_apply (mm_handle_timer s i) s \<and> sm_apply (mm_handle_timer s i) s \<le> 7"
  by (drule state_cases, elim disjE; simp add: mm_handle_message_def mm_handle_timer_def sm_defs)+

lemma cc_next_valid:
  "0 \<le> s \<and> s \<le> 7 \<Longrightarrow>
   0 \<le> sm_apply (cc_handle_message s msg) s \<and> sm_apply (cc_handle_message s msg) s \<le> 7"
  "0 \<le> s \<and> s \<le> 7 \<Longrightarrow>
   0 \<le> sm_apply (cc_handle_timer s i) s \<and> sm_apply (cc_handle_timer s i) s \<le> 7"
  by (drule state_cases, elim disjE; simp add: cc_handle_message_def cc_handle_timer_def sm_defs)+

interpretation mm: protocol_machine mm_handle_message mm_handle_timer "\<lambda>s. 0 \<le> s \<and> s \<le> 7"
  MobilityManagement MM_REGISTERED mm_milestones
  by (rule protocol_machine.intro; (rule mm_next_valid mm_milestone_step mm_timer_step, assumption)?)
    (simp add: mm_milestones_def)

interpretation cc: protocol_machine cc_handle_message cc_handle_timer "\<lambda>s. 0 \<le> s \<and> s \<le> 7"
  CallControl CC_ACTIVE cc_milestones
  by (rule protocol_machine.intro; (rule cc_next_valid cc_milestone_step cc_timer_step, assumption)?)
    (simp add: cc_milestones_def)

lemma rr_state_cases:
  "0 \<le> s \<and> s \<le> 8 \<Longrightarrow>
   s = 0 \<or> s = 1 \<or> s = 2 \<or> s = 3 \<or> s = 4 \<or> s = 5 \<or> s = 6 \<or> s = 7 \<or> s = (8 :: int)"
  by presburger

lemma rr_next_valid:
  "0 \<le> s \<and> s \<le> 8 \<Longrightarrow>
   0 \<le> sm_apply (rr_handle_message s msg) s \<and> sm_apply (rr_handle_message s msg) s \<le> 8"
  "0 \<le> s \<and> s \<le> 8 \<Longrightarrow>
   0 \<le> sm_apply (rr_handle_timer s i) s \<and> sm_apply (rr_handle_timer s i) s \<le> 8"
  by (drule rr_state_cases, elim disjE; simp add: rr_handle_message_def rr_foreign_def rr_handle_timer_def sm_defs)+

lemma rr_from_idle:
  "s = RR_IDLE \<or> s = RR_CHANNEL_REQUESTED \<Longrightarrow>
   sm_apply (rr_handle_message s msg) s = RR_IDLE \<or> sm_apply (rr_handle_message s msg) s = RR_CHANNEL_REQUESTED"
  "s = RR_IDLE \<or> s = RR_CHANNEL_REQUESTED \<Longrightarrow> sm_apply (rr_handle_timer s i) s = s"
  by (elim disjE; simp add: rr_handle_message_def rr_foreign_def rr_handle_timer_def sm_defs)+

interpretation rr: protocol_machine rr_handle_message rr_handle_timer "\<lambda>s. 0 \<le> s \<and> s \<le> 8"
  RadioResource RR_ACTIVE "\<lambda>s. []"
  by (rule protocol_machine.intro; (rule rr_next_valid, assumption)?) simp_all

interpretation rr_idle: protocol_machine rr_handle_message rr_handle_timer "\<lambda>s. s = RR_IDLE \<or> s = RR_CHANNEL_REQUESTED"
  RadioResource RR_ACTIVE "\<lambda>s. []"
proof
  fix s msg i
  assume s: "s = RR_IDLE \<or> s = RR_CHANNEL_REQUESTED"
  show "sm_apply (rr_handle_message s msg) s = RR_IDLE \<or> sm_apply (rr_handle_message s msg) s = RR_CHANNEL_REQUESTED"
    using s by (rule rr_from_idle)
  show "sm_apply (rr_handle_timer s i) s = RR_IDLE \<or> sm_apply (rr_handle_timer s i) s = RR_CHANNEL_REQUESTED"
    using s rr_from_idle(2) [OF s] by simp
qed simp_all

text \<open>
  C16. No registration without the procedures: in every run of the mobility management machine
  from DEREGISTERED that ends in REGISTERED, whatever other messages and timer expiries occur in
  between, the machine has received in this order a CM service request, an identity response,
  an authentication response, a location updating request and a CM service accept. Likewise a
  call control run from IDLE to ACTIVE has received SETUP, ALERTING, CONNECT and CALL CONFIRMED
  in this order.
\<close>

theorem no_shortcut:
  "(sm_run mm_handle_message mm_handle_timer evs MM_DEREGISTERED = MM_REGISTERED \<longrightarrow>
      subseq [MTI_CMServiceRequest, MTI_IdentityResponse, MTI_AuthenticationResponse,
              MTI_LocationUpdatingRequest, MTI_CMServiceAccept] (seen_types MobilityManagement evs)) \<and>
   (sm_run cc_handle_message cc_handle_timer evs CC_IDLE = CC_ACTIVE \<longrightarrow>
      subseq [MTI_Setup, MTI_Alerting, MTI_Connect, MTI_CallConfirmed] (seen_types CallControl evs))"
  using mm.goal_needs_milestones [of MM_DEREGISTERED evs] cc.goal_needs_milestones [of CC_IDLE evs]
  by (simp add: mm_milestones_def cc_milestones_def)

definition registration_run :: "SMEvent list" where
  "registration_run =
     map (\<lambda>t. MsgEvent \<lparr>messagePD = MobilityManagement, messageMTI = t, messageTI = 0, messageBody = OtherBody\<rparr>)
       [MTI_CMServiceRequest, MTI_IdentityResponse, MTI_AuthenticationResponse,
        MTI_LocationUpdatingRequest, MTI_CMServiceAccept]"

theorem no_shortcut_witness:
  "sm_run mm_handle_message mm_handle_timer registration_run MM_DEREGISTERED = MM_REGISTERED \<and>
   subseq [MTI_CMServiceRequest, MTI_IdentityResponse, MTI_AuthenticationResponse,
           MTI_LocationUpdatingRequest, MTI_CMServiceAccept]
     (seen_types MobilityManagement registration_run)"
proof -
  have "sm_run mm_handle_message mm_handle_timer registration_run MM_DEREGISTERED = MM_REGISTERED"
    by code_simp
  then show ?thesis using no_shortcut [of registration_run] by blast
qed

text \<open>
  C17. The default radio resource machine does not get far by itself: started in IDLE it only ever
  is in IDLE or CHANNEL_REQUESTED, whatever it receives; the application has to set the state after
  an immediate assignment for a connection to become active.
\<close>

theorem rr_stays_idle:
  "sm_run rr_handle_message rr_handle_timer evs RR_IDLE \<in> {RR_IDLE, RR_CHANNEL_REQUESTED}"
  using rr_idle.run_valid [of RR_IDLE evs] by simp

end
