(* ===== verification/L3_Elements.thy ===== *)
theory L3_Elements
  imports Gsm_Types
begin

text \<open>
  The information elements the protocol stack stores and passes on, as the classes of
  \<^verbatim>\<open>common/l3common.h\<close> hold them, with the enumerations of \<^verbatim>\<open>types.h\<close> and \<^verbatim>\<open>enums.h\<close> they use.
  The cause enumerations have an eight-bit underlying type and are only carried around by the
  stack, so they are octets with names for the values the code mentions.
\<close>

section \<open>Enumerations\<close>

datatype MobileIDType = MobID_NoID | MobID_IMSI | MobID_IMEI | MobID_IMEISV | MobID_TMSI

datatype ChannelType =
    SCHType | FCCHType | BCCHType | CCCHType | RACHType | SACCHType | CBCHType | SDCCHType
  | FACCHType | TCHFType | TCHHType | AnyTCHType | PDTCHCS1Type | PDTCHCS2Type | PDTCHCS3Type
  | PDTCHCS4Type | LoopbackFullType | LoopbackHalfType | AnyDCCHType | UndefinedCHType

type_synonym TypeAndOffset = u8

definition TDMA_Bm_ACCH :: TypeAndOffset where "TDMA_Bm_ACCH = 1"
definition TDMA_CBCH8 :: TypeAndOffset where "TDMA_CBCH8 = 26"

definition channelCodeSdcch8 :: "u8 \<Rightarrow> u8" where
  "channelCodeSdcch8 sub = 0x08 OR (sub AND 0x07)"

type_synonym MMRejectCause = u8
type_synonym CCCause = u8

definition MMCause_Zero :: MMRejectCause where "MMCause_Zero = 0"
definition MMCause_MAC_Failure :: MMRejectCause where "MMCause_MAC_Failure = 0x14"
definition CCCause_Normal_Call_Clearing :: CCCause where "CCCause_Normal_Call_Clearing = 16"

text \<open>The code of a CM service type; the enumerator for a location update is not a four-bit value.\<close>

type_synonym CMServiceTypeCode = u8

definition LocationUpdateRequest :: CMServiceTypeCode where "LocationUpdateRequest = 105"

section \<open>Mobile identity\<close>

text \<open>
  The digit array is a zero-terminated string of at most 19 characters; what follows the
  terminator is never read, so the model keeps the string.
\<close>

record L3MobileIdentity =
  mi_type :: MobileIDType
  mi_digits :: string
  mi_tmsi :: u32

definition mi_none :: L3MobileIdentity where
  "mi_none = \<lparr>mi_type = MobID_NoID, mi_digits = [], mi_tmsi = 0\<rparr>"

definition mi_of_tmsi :: "u32 \<Rightarrow> L3MobileIdentity" where
  "mi_of_tmsi t = \<lparr>mi_type = MobID_TMSI, mi_digits = [], mi_tmsi = t\<rparr>"

definition is_digit :: "char \<Rightarrow> bool" where
  "is_digit c \<longleftrightarrow> c \<in> set ''0123456789''"

definition mi_of_digits :: "MobileIDType \<Rightarrow> string \<Rightarrow> L3MobileIdentity" where
  "mi_of_digits t ds =
     (if t \<noteq> MobID_IMSI \<and> t \<noteq> MobID_IMEI \<and> t \<noteq> MobID_IMEISV then mi_none
      else \<lparr>mi_type = t, mi_digits = take 19 (filter is_digit ds), mi_tmsi = 0\<rparr>)"

definition mi_of_imsi :: "string \<Rightarrow> L3MobileIdentity" where
  "mi_of_imsi ds = mi_of_digits MobID_IMSI ds"

definition mi_isIMSI :: "L3MobileIdentity \<Rightarrow> bool" where
  "mi_isIMSI m \<longleftrightarrow> mi_type m = MobID_IMSI"

definition mi_isTMSI :: "L3MobileIdentity \<Rightarrow> bool" where
  "mi_isTMSI m \<longleftrightarrow> mi_type m = MobID_TMSI"

definition mi_eq :: "L3MobileIdentity \<Rightarrow> L3MobileIdentity \<Rightarrow> bool" where
  "mi_eq a b =
     (if mi_type a \<noteq> mi_type b then False
      else if mi_type a = MobID_TMSI then mi_tmsi a = mi_tmsi b
      else mi_digits a = mi_digits b)"

section \<open>Location area, classmark, channel and cell\<close>

record L3LocationAreaIdentity =
  lai_mcc :: "u32 list"
  lai_mnc :: "u32 list"
  lai_lac :: u16

definition lai0 :: L3LocationAreaIdentity where
  "lai0 = \<lparr>lai_mcc = [0, 0, 0], lai_mnc = [0, 0, 0], lai_lac = 0\<rparr>"

record L3MobileStationClassmark1 =
  cm1_revisionLevel :: u32
  cm1_esInd :: u32
  cm1_a5_1 :: u32
  cm1_rfPowerCapability :: u32

definition classmark0 :: L3MobileStationClassmark1 where
  "classmark0 = \<lparr>cm1_revisionLevel = 0, cm1_esInd = 0, cm1_a5_1 = 0, cm1_rfPowerCapability = 0\<rparr>"

record L3ChannelDescription =
  chd_typeAndOffset :: u8
  chd_tn :: u8
  chd_tsc :: u8
  chd_hFlag :: u32
  chd_arfcn :: u16
  chd_maio :: u8
  chd_hsn :: u8
  chd_initialized :: bool

definition chd0 :: L3ChannelDescription where
  "chd0 = \<lparr>chd_typeAndOffset = 0, chd_tn = 0, chd_tsc = 0, chd_hFlag = 0, chd_arfcn = 0,
           chd_maio = 0, chd_hsn = 0, chd_initialized = False\<rparr>"

definition mkChannelDescription :: "TypeAndOffset \<Rightarrow> u32 \<Rightarrow> u32 \<Rightarrow> u32 \<Rightarrow> L3ChannelDescription" where
  "mkChannelDescription tao tn tsc a =
     \<lparr>chd_typeAndOffset = tao, chd_tn = ucast tn, chd_tsc = ucast tsc, chd_hFlag = 0,
      chd_arfcn = ucast a, chd_maio = 0, chd_hsn = 0, chd_initialized = True\<rparr>"

record L3CellDescription =
  cd_arfcn :: u16
  cd_ncc :: u8
  cd_bcc :: u8

end
