(* ===== verification/Ms_Context.thy ===== *)
theory Ms_Context
  imports L3_Elements
begin

text \<open>
  The per-subscriber context of \<^verbatim>\<open>stack/ms_context.h\<close> and \<^verbatim>\<open>stack/ms_context.cpp\<close>: identity, channel,
  classmark, location area and the registration flags of one mobile station. Optional values are
  a value and a flag, as in the class.
\<close>

record MSContext =
  mIdentity :: L3MobileIdentity
  mChannelType :: ChannelType
  mTrxNumber :: u8
  mTimeslot :: u8
  mArfcn :: u16
  mCiphered :: bool
  mRegistered :: bool
  mAuthenticated :: bool
  mHasTimingAdvance :: bool
  mTimingAdvance :: u8
  mClassmark :: L3MobileStationClassmark1
  mHasClassmark :: bool
  mLAI :: L3LocationAreaIdentity
  mHasLAI :: bool

definition context0 :: MSContext where
  "context0 =
     \<lparr>mIdentity = mi_none, mChannelType = UndefinedCHType, mTrxNumber = 0, mTimeslot = 0,
      mArfcn = 0, mCiphered = False, mRegistered = False, mAuthenticated = False,
      mHasTimingAdvance = False, mTimingAdvance = 0, mClassmark = classmark0,
      mHasClassmark = False, mLAI = lai0, mHasLAI = False\<rparr>"

definition createWithTMSI :: "u32 \<Rightarrow> MSContext" where
  "createWithTMSI t = context0\<lparr>mIdentity := mi_of_tmsi t\<rparr>"

definition createWithIMSI :: "string \<Rightarrow> MSContext" where
  "createWithIMSI ds = context0\<lparr>mIdentity := mi_of_imsi ds\<rparr>"

definition setTMSI :: "u32 \<Rightarrow> MSContext \<Rightarrow> MSContext" where
  "setTMSI t c = c\<lparr>mIdentity := mi_of_tmsi t\<rparr>"

definition setIMSI :: "string \<Rightarrow> MSContext \<Rightarrow> MSContext" where
  "setIMSI ds c = c\<lparr>mIdentity := mi_of_imsi ds\<rparr>"

definition ctx_assignChannel :: "ChannelType \<Rightarrow> u8 \<Rightarrow> u8 \<Rightarrow> u16 \<Rightarrow> MSContext \<Rightarrow> MSContext" where
  "ctx_assignChannel t trx ts a c = c\<lparr>mChannelType := t, mTrxNumber := trx, mTimeslot := ts, mArfcn := a\<rparr>"

definition ctx_releaseChannel :: "MSContext \<Rightarrow> MSContext" where
  "ctx_releaseChannel c = c\<lparr>mChannelType := UndefinedCHType, mTrxNumber := 0, mTimeslot := 0, mArfcn := 0\<rparr>"

definition setClassmark :: "L3MobileStationClassmark1 \<Rightarrow> MSContext \<Rightarrow> MSContext" where
  "setClassmark cm c = c\<lparr>mClassmark := cm, mHasClassmark := True\<rparr>"

definition ctx_classmark :: "MSContext \<Rightarrow> L3MobileStationClassmark1 option" where
  "ctx_classmark c = (if mHasClassmark c then Some (mClassmark c) else None)"

definition ctx_lai :: "MSContext \<Rightarrow> L3LocationAreaIdentity option" where
  "ctx_lai c = (if mHasLAI c then Some (mLAI c) else None)"

definition setLAI :: "L3LocationAreaIdentity \<Rightarrow> MSContext \<Rightarrow> MSContext" where
  "setLAI l c = c\<lparr>mLAI := l, mHasLAI := True\<rparr>"

definition setCiphered :: "bool \<Rightarrow> MSContext \<Rightarrow> MSContext" where
  "setCiphered v c = c\<lparr>mCiphered := v\<rparr>"

definition ctx_timingAdvance :: "MSContext \<Rightarrow> u8 option" where
  "ctx_timingAdvance c = (if mHasTimingAdvance c then Some (mTimingAdvance c) else None)"

definition setTimingAdvance :: "u8 \<Rightarrow> MSContext \<Rightarrow> MSContext" where
  "setTimingAdvance ta c = c\<lparr>mTimingAdvance := ta, mHasTimingAdvance := True\<rparr>"

definition setRegistered :: "bool \<Rightarrow> MSContext \<Rightarrow> MSContext" where
  "setRegistered v c = c\<lparr>mRegistered := v\<rparr>"

definition setAuthenticated :: "bool \<Rightarrow> MSContext \<Rightarrow> MSContext" where
  "setAuthenticated v c = c\<lparr>mAuthenticated := v\<rparr>"

lemmas context_defs = createWithTMSI_def createWithIMSI_def setTMSI_def setIMSI_def
  ctx_assignChannel_def ctx_releaseChannel_def setClassmark_def ctx_classmark_def ctx_lai_def
  setLAI_def setCiphered_def ctx_timingAdvance_def setTimingAdvance_def setRegistered_def
  setAuthenticated_def

text \<open>An assigned channel is given back completely: what remains is independent of what was assigned.\<close>

lemma release_forgets_assignment [simp]:
  "ctx_releaseChannel (ctx_assignChannel t trx ts a c) = ctx_releaseChannel c"
  by (simp add: context_defs)

end
