(* ===== verification/Procedure_Base.thy ===== *)
theory Procedure_Base
  imports Ms_Context State_Machine
begin

text \<open>
  What all protocol procedures share: the types of \<^verbatim>\<open>stack/procedure_types.h\<close> and
  \<^verbatim>\<open>stack/procedure.h\<close>, the external data of \<^verbatim>\<open>stack/typed_external_data.h\<close>, the response parameters
  of \<^verbatim>\<open>stack/response_context.h\<close>, and the timer and state handling that every procedure inherits from
  \<^verbatim>\<open>stack/procedure_state_mixin.h\<close>. The abstract class \<^verbatim>\<open>Procedure\<close> is the locale \<open>protocol_procedure\<close>
  below, whose laws are the contract written at \<^verbatim>\<open>ProcedureStepResult\<close>.
\<close>

section \<open>Types\<close>

datatype ProcedureType =
    PT_LocationUpdate | PT_Authentication | PT_CipheringMode | PT_CallSetup_MO | PT_CallSetup_MT
  | PT_ChannelAssignment | PT_Handover | PT_Paging | PT_CMServiceRequest | PT_IMSIDetach
  | PT_CallRelease | PT_PeriodicLocationUpdate | PT_Unknown

datatype ProcedureState =
    PS_Initiated | PS_InProgress | PS_WaitingExternal | PS_Completed | PS_Failed | PS_TimedOut

definition procedureTypeName :: "ProcedureType \<Rightarrow> string" where
  "procedureTypeName t =
     (case t of
        PT_LocationUpdate \<Rightarrow> ''LocationUpdate'' | PT_Authentication \<Rightarrow> ''Authentication''
      | PT_CipheringMode \<Rightarrow> ''CipheringMode'' | PT_CallSetup_MO \<Rightarrow> ''CallSetup_MO''
      | PT_CallSetup_MT \<Rightarrow> ''CallSetup_MT'' | PT_ChannelAssignment \<Rightarrow> ''ChannelAssignment''
      | PT_Handover \<Rightarrow> ''Handover'' | PT_Paging \<Rightarrow> ''Paging''
      | PT_CMServiceRequest \<Rightarrow> ''CMServiceRequest'' | PT_IMSIDetach \<Rightarrow> ''IMSIDetach''
      | PT_CallRelease \<Rightarrow> ''CallRelease''
      | PT_PeriodicLocationUpdate \<Rightarrow> ''PeriodicLocationUpdate'' | PT_Unknown \<Rightarrow> ''?'')"

definition procedureStateName :: "ProcedureState \<Rightarrow> string" where
  "procedureStateName s =
     (case s of
        PS_Initiated \<Rightarrow> ''Initiated'' | PS_InProgress \<Rightarrow> ''InProgress''
      | PS_WaitingExternal \<Rightarrow> ''WaitingExternal'' | PS_Completed \<Rightarrow> ''Completed''
      | PS_Failed \<Rightarrow> ''Failed'' | PS_TimedOut \<Rightarrow> ''TimedOut'')"

record ProcedureResult =
  pr_type :: ProcedureType
  pr_state :: ProcedureState
  pr_reason :: string

datatype ResponseToken =
    RT_None | RT_ImmediateAssignment | RT_AssignmentCommand | RT_ChannelRelease
  | RT_CipheringModeCommand | RT_PhysicalInformation | RT_HandoverCommand
  | RT_PagingRequestType1 | RT_PagingRequestType2 | RT_PagingRequestType3
  | RT_CMServiceAccept | RT_CMServiceReject | RT_IdentityRequest | RT_AuthenticationRequest
  | RT_LocationUpdatingAccept | RT_LocationUpdatingReject | RT_TMSIReallocationCommand
  | RT_CallProceeding | RT_Alerting | RT_Connect | RT_ConnectAcknowledge | RT_Disconnect
  | RT_Release | RT_ReleaseComplete | RT_Setup

datatype StepAction =
    A_Continue | A_SendResponseWithToken | A_WaitingExternal | A_Completed | A_Failed

record ProcedureStepResult =
  action :: StepAction
  responseToken :: ResponseToken
  finalResult :: ProcedureResult

definition step0 :: ProcedureStepResult where
  "step0 =
     \<lparr>action = A_Continue, responseToken = RT_None,
      finalResult = \<lparr>pr_type = PT_Unknown, pr_state = PS_Initiated, pr_reason = []\<rparr>\<rparr>"

definition terminal :: "ProcedureState \<Rightarrow> bool" where
  "terminal s \<longleftrightarrow> s = PS_Completed \<or> s = PS_Failed \<or> s = PS_TimedOut"

section \<open>External data and response parameters\<close>

record AuthChallenge =
  ac_rand :: bytes
  ac_expectedSres :: bytes

record VLRDecision =
  vlr_accept :: bool
  vlr_newTmsi :: "u32 option"
  vlr_rejectCause :: MMRejectCause

record PagingTrigger =
  pt_identity :: L3MobileIdentity
  pt_targetChannel :: ChannelType

record CipheringParameters =
  cp_algorithmSelector :: u8
  cp_enableCiphering :: bool

record HandoverTarget =
  ho_channel :: L3ChannelDescription
  ho_cell :: L3CellDescription

datatype ExternalData =
    ExtAuthChallenge AuthChallenge
  | ExtVLRDecision VLRDecision
  | ExtPagingTrigger PagingTrigger
  | ExtCipheringParameters CipheringParameters
  | ExtHandoverTarget HandoverTarget

text \<open>
  The number to call is kept as the string before its terminator; the length field is its length.
\<close>

record ResponseContext =
  rc_rand :: bytes
  rc_hasRand :: bool
  rc_ti :: u8
  rc_ccCause :: CCCause
  rc_calledNumber :: string
  rc_hasCalledNumber :: bool
  rc_mmCause :: MMRejectCause
  rc_newTmsi :: "u32 option"
  rc_channel :: L3ChannelDescription
  rc_hasChannel :: bool
  rc_cipherAlgo :: u8
  rc_hasCipherAlgo :: bool
  rc_requestRef :: u8
  rc_hasRequestRef :: bool
  rc_identity :: L3MobileIdentity
  rc_hasIdentity :: bool
  rc_hoChannel :: L3ChannelDescription
  rc_hasHoChannel :: bool

definition response0 :: ResponseContext where
  "response0 =
     \<lparr>rc_rand = replicate 16 0, rc_hasRand = False, rc_ti = 0,
      rc_ccCause = CCCause_Normal_Call_Clearing, rc_calledNumber = [], rc_hasCalledNumber = False,
      rc_mmCause = MMCause_Zero, rc_newTmsi = None, rc_channel = chd0, rc_hasChannel = False,
      rc_cipherAlgo = 0, rc_hasCipherAlgo = False, rc_requestRef = 0, rc_hasRequestRef = False,
      rc_identity = mi_none, rc_hasIdentity = False, rc_hoChannel = chd0, rc_hasHoChannel = False\<rparr>"

text \<open>
  A procedure gets a pointer to the subscriber session, possibly null, reads its context and
  writes its response parameters; the other members of the session are not touched by a procedure.
\<close>

record Session =
  ses_context :: MSContext
  ses_response :: ResponseContext

definition ses_respond :: "(ResponseContext \<Rightarrow> ResponseContext) \<Rightarrow> Session option \<Rightarrow> Session option" where
  "ses_respond f = map_option (\<lambda>s. s\<lparr>ses_response := f (ses_response s)\<rparr>)"

definition rc_reset :: "ResponseContext \<Rightarrow> ResponseContext" where
  "rc_reset r = response0"

section \<open>The result of a step\<close>

text \<open>
  A step yields its result, the calls made to the response sink, the session and the procedure.
  The sink is a hook that is called when it is not null; a call is recorded with its arguments.
\<close>

record SinkCall =
  sc_action :: SMAction
  sc_msg :: ParsedMessage
  sc_session :: "Session option"

record 'p FeedOut =
  fo_result :: ProcedureStepResult
  fo_calls :: "SinkCall list"
  fo_session :: "Session option"
  fo_proc :: 'p

definition sink_call :: "bool \<Rightarrow> ParsedMessage \<Rightarrow> Session option \<Rightarrow> SinkCall list" where
  "sink_call sink msg ses =
     (if sink then [\<lparr>sc_action = SM_SendResponse, sc_msg = msg, sc_session = ses\<rparr>] else [])"

definition stay :: "Session option \<Rightarrow> 'p \<Rightarrow> 'p FeedOut" where
  "stay ses p = \<lparr>fo_result = step0, fo_calls = [], fo_session = ses, fo_proc = p\<rparr>"

definition respond :: "ResponseToken \<Rightarrow> bool \<Rightarrow> ParsedMessage \<Rightarrow> Session option \<Rightarrow> 'p \<Rightarrow> 'p FeedOut" where
  "respond tok sink msg ses p =
     \<lparr>fo_result = step0\<lparr>action := A_SendResponseWithToken, responseToken := tok\<rparr>,
      fo_calls = sink_call sink msg ses, fo_session = ses, fo_proc = p\<rparr>"

definition signal :: "ResponseToken \<Rightarrow> Session option \<Rightarrow> 'p \<Rightarrow> 'p FeedOut" where
  "signal tok ses p =
     \<lparr>fo_result = step0\<lparr>action := A_SendResponseWithToken, responseToken := tok\<rparr>,
      fo_calls = [], fo_session = ses, fo_proc = p\<rparr>"

definition await :: "Session option \<Rightarrow> 'p \<Rightarrow> 'p FeedOut" where
  "await ses p =
     \<lparr>fo_result = step0\<lparr>action := A_WaitingExternal\<rparr>, fo_calls = [], fo_session = ses, fo_proc = p\<rparr>"

section \<open>State and timer of a procedure\<close>

record 'st Mixin =
  mCurrentState :: 'st
  mProcState :: ProcedureState
  mTimerRemaining :: int
  mCurrentTimer :: L3TimerId
  mTimerRunning :: bool

definition startTimer :: "L3TimerId \<Rightarrow> int \<Rightarrow> ('st, 'm) Mixin_scheme \<Rightarrow> ('st, 'm) Mixin_scheme" where
  "startTimer i d p = p\<lparr>mCurrentTimer := i, mTimerRemaining := d, mTimerRunning := True\<rparr>"

definition stopTimer :: "('st, 'm) Mixin_scheme \<Rightarrow> ('st, 'm) Mixin_scheme" where
  "stopTimer p = p\<lparr>mTimerRunning := False, mCurrentTimer := Timer_Unknown, mTimerRemaining := 0\<rparr>"

text \<open>The hooks of the derived class that every procedure defines in the same way.\<close>

definition moveTo :: "('st \<Rightarrow> ProcedureState) \<Rightarrow> 'st \<Rightarrow> ('st, 'm) Mixin_scheme \<Rightarrow> ('st, 'm) Mixin_scheme" where
  "moveTo ps s p = p\<lparr>mCurrentState := s, mProcState := ps s\<rparr>"

definition mixin_fail ::
  "(('st, 'm) Mixin_scheme \<Rightarrow> ('st, 'm) Mixin_scheme) \<Rightarrow> ('st, 'm) Mixin_scheme \<Rightarrow> ('st, 'm) Mixin_scheme" where
  "mixin_fail doFail p = doFail (stopTimer p)"

definition mixin_complete ::
  "(('st, 'm) Mixin_scheme \<Rightarrow> ('st, 'm) Mixin_scheme) \<Rightarrow> ('st, 'm) Mixin_scheme \<Rightarrow> ('st, 'm) Mixin_scheme" where
  "mixin_complete doComplete p = doComplete (stopTimer p)"

definition finish :: "StepAction \<Rightarrow> ProcedureType \<Rightarrow> string \<Rightarrow> ('st, 'm) Mixin_scheme \<Rightarrow> ProcedureStepResult" where
  "finish a t reason p =
     step0\<lparr>action := a, finalResult := \<lparr>pr_type = t, pr_state = mProcState p, pr_reason = reason\<rparr>\<rparr>"

definition conclude ::
  "StepAction \<Rightarrow> ProcedureType \<Rightarrow> string \<Rightarrow> Session option \<Rightarrow> ('st, 'm) Mixin_scheme \<Rightarrow>
   ('st, 'm) Mixin_scheme FeedOut" where
  "conclude a t reason ses p =
     \<lparr>fo_result = finish a t reason p, fo_calls = [], fo_session = ses, fo_proc = p\<rparr>"

definition with_final ::
  "ProcedureType \<Rightarrow> string \<Rightarrow> ('st, 'm) Mixin_scheme FeedOut \<Rightarrow> ('st, 'm) Mixin_scheme FeedOut" where
  "with_final t reason r =
     r\<lparr>fo_result := (fo_result r)\<lparr>finalResult :=
        \<lparr>pr_type = t, pr_state = mProcState (fo_proc r), pr_reason = reason\<rparr>\<rparr>\<rparr>"

definition doTick ::
  "(('st, 'm) Mixin_scheme \<Rightarrow> ('st, 'm) Mixin_scheme) \<Rightarrow> ProcedureType \<Rightarrow> int \<Rightarrow> ('st, 'm) Mixin_scheme \<Rightarrow>
   ProcedureStepResult \<times> ('st, 'm) Mixin_scheme" where
  "doTick doFail t delta p =
     (if \<not> mTimerRunning p then (step0, p)
      else let p1 = p\<lparr>mTimerRemaining := mTimerRemaining p - delta\<rparr>
      in if mTimerRemaining p1 \<le> 0
      then (let p2 = doFail (stopTimer p1) in (finish A_Failed t ''timer_expired'' p2, p2))
      else (step0, p1))"

definition doCancel ::
  "(('st, 'm) Mixin_scheme \<Rightarrow> ('st, 'm) Mixin_scheme) \<Rightarrow> ('st, 'm) Mixin_scheme \<Rightarrow> ('st, 'm) Mixin_scheme" where
  "doCancel doFail p = doFail (stopTimer p)"

text \<open>\<^verbatim>\<open>Procedure::feedExternalTyped\<close> of the base class ignores the data.\<close>

definition base_feedExternalTyped :: "ExternalData \<Rightarrow> Session option \<Rightarrow> 'p \<Rightarrow> 'p FeedOut" where
  "base_feedExternalTyped d ses p = stay ses p"

text \<open>
  The report at the end of \<^verbatim>\<open>feed\<close> of three procedures: a finished procedure without a response
  reports its terminal action.
\<close>

definition report_terminal :: "ProcedureType \<Rightarrow> ('st, 'm) Mixin_scheme FeedOut \<Rightarrow> ('st, 'm) Mixin_scheme FeedOut" where
  "report_terminal t r =
     (let st = mProcState (fo_proc r); res = fo_result r;
          act = (\<lambda>a. if responseToken res = RT_None then a else action res);
          fin = (\<lambda>why. if pr_state (finalResult res) = PS_Initiated
                      then \<lparr>pr_type = t, pr_state = st, pr_reason = why\<rparr> else finalResult res)
      in if st = PS_Completed
      then r\<lparr>fo_result := res\<lparr>action := act A_Completed, finalResult := fin ''ok''\<rparr>\<rparr>
      else if st = PS_Failed
      then r\<lparr>fo_result := res\<lparr>action := act A_Failed, finalResult := fin ''procedure_failed''\<rparr>\<rparr>
      else r)"

section \<open>The contract of a step\<close>

text \<open>
  The response/terminal rule documented at \<^verbatim>\<open>ProcedureStepResult\<close>: a response is signalled by the
  action \<open>A_SendResponseWithToken\<close> and nothing else, the final result carries the terminal state
  and is left alone otherwise, and the terminal actions are used when there is no response.
\<close>

definition step_rule :: "ProcedureType \<Rightarrow> ProcedureStepResult \<Rightarrow> ProcedureState \<Rightarrow> bool" where
  "step_rule t r st \<longleftrightarrow>
     (responseToken r \<noteq> RT_None \<longleftrightarrow> action r = A_SendResponseWithToken) \<and>
     pr_state (finalResult r) = (if terminal st then st else PS_Initiated) \<and>
     (terminal st \<longrightarrow> pr_type (finalResult r) = t) \<and>
     (action r = A_Completed \<longleftrightarrow> st = PS_Completed \<and> responseToken r = RT_None) \<and>
     (action r = A_Failed \<longleftrightarrow> st = PS_Failed \<and> responseToken r = RT_None) \<and>
     (action r = A_WaitingExternal \<longrightarrow> st = PS_WaitingExternal)"

text \<open>The timer runs only in a procedure that is not finished, and lifecycle and state agree.\<close>

definition mixin_inv :: "'st \<Rightarrow> 'st \<Rightarrow> ('st, 'm) Mixin_scheme \<Rightarrow> bool" where
  "mixin_inv c f p \<longleftrightarrow>
     (mCurrentState p = c \<longleftrightarrow> mProcState p = PS_Completed) \<and>
     (mCurrentState p = f \<longleftrightarrow> mProcState p = PS_Failed) \<and>
     mProcState p \<noteq> PS_TimedOut \<and>
     (if mTimerRunning p then 0 < mTimerRemaining p \<and> mCurrentState p \<noteq> c \<and> mCurrentState p \<noteq> f
      else mTimerRemaining p = 0 \<and> mCurrentTimer p = Timer_Unknown)"

datatype ProcEvent = EvMsg bool ParsedMessage | EvExt ExternalData | EvTick int

text \<open>
  One event on a procedure, given the four virtual functions, and a sequence of them: the results
  in order, the session and the procedure.
\<close>

definition proc_step ::
  "(bool \<Rightarrow> ParsedMessage \<Rightarrow> Session option \<Rightarrow> 'p \<Rightarrow> 'p FeedOut) \<Rightarrow>
   (ExternalData \<Rightarrow> Session option \<Rightarrow> 'p \<Rightarrow> 'p FeedOut) \<Rightarrow> (int \<Rightarrow> 'p \<Rightarrow> ProcedureStepResult \<times> 'p) \<Rightarrow>
   ProcEvent \<Rightarrow> Session option \<times> 'p \<Rightarrow> ProcedureStepResult \<times> Session option \<times> 'p" where
  "proc_step feed ext tick ev sp =
     (case ev of
        EvMsg sink msg \<Rightarrow> (let r = feed sink msg (fst sp) (snd sp) in (fo_result r, fo_session r, fo_proc r))
      | EvExt d \<Rightarrow> (let r = ext d (fst sp) (snd sp) in (fo_result r, fo_session r, fo_proc r))
      | EvTick d \<Rightarrow> (let r = tick d (snd sp) in (fst r, fst sp, snd r)))"

fun proc_run ::
  "(bool \<Rightarrow> ParsedMessage \<Rightarrow> Session option \<Rightarrow> 'p \<Rightarrow> 'p FeedOut) \<Rightarrow>
   (ExternalData \<Rightarrow> Session option \<Rightarrow> 'p \<Rightarrow> 'p FeedOut) \<Rightarrow> (int \<Rightarrow> 'p \<Rightarrow> ProcedureStepResult \<times> 'p) \<Rightarrow>
   ProcEvent list \<Rightarrow> Session option \<times> 'p \<Rightarrow> ProcedureStepResult list \<times> Session option \<times> 'p" where
  "proc_run feed ext tick [] sp = ([], sp)"
| "proc_run feed ext tick (ev # evs) sp =
     (let (r, sp1) = proc_step feed ext tick ev sp; (rs, sp2) = proc_run feed ext tick evs sp1
      in (r # rs, sp2))"

lemma snd_proc_run:
  "snd (proc_run feed ext tick [] sp) = sp"
  "snd (proc_run feed ext tick (ev # evs) sp) = snd (proc_run feed ext tick evs (snd (proc_step feed ext tick ev sp)))"
  by (simp_all add: split_beta Let_def)

lemma proc_run_append:
  "snd (proc_run feed ext tick (xs @ ys) sp) = snd (proc_run feed ext tick ys (snd (proc_run feed ext tick xs sp)))"
  by (induction xs arbitrary: sp) (simp_all add: split_beta Let_def)

lemma proc_run_snoc:
  "snd (proc_run feed ext tick (evs @ [ev]) sp) =
   snd (proc_step feed ext tick ev (snd (proc_run feed ext tick evs sp)))"
  by (simp add: proc_run_append split_beta Let_def)

definition silent :: "ProcedureStepResult \<Rightarrow> bool" where
  "silent r \<longleftrightarrow> responseToken r = RT_None \<and> action r \<noteq> A_SendResponseWithToken"

lemma silent_step0: "silent step0"
  by (simp add: silent_def step0_def)

definition reports_end :: "ProcedureStepResult \<Rightarrow> bool" where
  "reports_end r \<longleftrightarrow> terminal (pr_state (finalResult r))"

locale protocol_procedure =
  fixes pstate :: "'p \<Rightarrow> ProcedureState" and inv :: "'p \<Rightarrow> bool" and ptype :: "'p \<Rightarrow> ProcedureType"
    and feed :: "bool \<Rightarrow> ParsedMessage \<Rightarrow> Session option \<Rightarrow> 'p \<Rightarrow> 'p FeedOut"
    and ext :: "ExternalData \<Rightarrow> Session option \<Rightarrow> 'p \<Rightarrow> 'p FeedOut"
    and tick :: "int \<Rightarrow> 'p \<Rightarrow> ProcedureStepResult \<times> 'p"
    and cancel :: "'p \<Rightarrow> 'p"
  assumes feed_inv: "inv p \<Longrightarrow> inv (fo_proc (feed sink msg ses p))"
    and ext_inv: "inv p \<Longrightarrow> inv (fo_proc (ext d ses p))"
    and tick_inv: "inv p \<Longrightarrow> inv (snd (tick delta p))"
    and feed_rule: "inv p \<Longrightarrow> \<not> terminal (pstate p) \<Longrightarrow>
      step_rule (ptype p) (fo_result (feed sink msg ses p)) (pstate (fo_proc (feed sink msg ses p)))"
    and ext_rule: "inv p \<Longrightarrow> \<not> terminal (pstate p) \<Longrightarrow>
      step_rule (ptype p) (fo_result (ext d ses p)) (pstate (fo_proc (ext d ses p)))"
    and tick_rule: "inv p \<Longrightarrow> \<not> terminal (pstate p) \<Longrightarrow>
      step_rule (ptype p) (fst (tick delta p)) (pstate (snd (tick delta p)))"
    and feed_done: "inv p \<Longrightarrow> terminal (pstate p) \<Longrightarrow>
      pstate (fo_proc (feed sink msg ses p)) = pstate p \<and> silent (fo_result (feed sink msg ses p))"
    and ext_done: "inv p \<Longrightarrow> terminal (pstate p) \<Longrightarrow>
      pstate (fo_proc (ext d ses p)) = pstate p \<and> silent (fo_result (ext d ses p))"
    and tick_done: "inv p \<Longrightarrow> terminal (pstate p) \<Longrightarrow> tick delta p = (step0, p)"
    and cancel_inv: "inv p \<Longrightarrow> inv (cancel p)"
    and cancel_fails: "inv p \<Longrightarrow> pstate (cancel p) = PS_Failed"
    and feed_calls: "inv p \<Longrightarrow> fo_calls (feed sink msg ses p) =
      (if responseToken (fo_result (feed sink msg ses p)) = RT_None then []
       else sink_call sink msg (fo_session (feed sink msg ses p)))"
    and ext_calls: "fo_calls (ext d ses p) = []"
begin

lemma event_inv: "inv p \<Longrightarrow> inv (snd (snd (proc_step feed ext tick ev (ses, p))))"
  by (cases ev) (simp_all add: proc_step_def Let_def feed_inv ext_inv tick_inv)

lemma step_keeps_terminal:
  "inv p \<Longrightarrow> terminal (pstate p) \<Longrightarrow>
   pstate (snd (snd (proc_step feed ext tick ev (ses, p)))) = pstate p \<and>
   silent (fst (proc_step feed ext tick ev (ses, p)))"
  by (cases ev) (simp_all add: proc_step_def Let_def feed_done ext_done tick_done silent_step0)

lemma step_obeys_rule:
  "inv p \<Longrightarrow> \<not> terminal (pstate p) \<Longrightarrow>
   step_rule (ptype p) (fst (proc_step feed ext tick ev (ses, p)))
     (pstate (snd (snd (proc_step feed ext tick ev (ses, p)))))"
  by (cases ev) (simp_all add: proc_step_def Let_def feed_rule ext_rule tick_rule)

lemma step_reports:
  "inv p \<Longrightarrow> \<not> terminal (pstate p) \<Longrightarrow>
   reports_end (fst (proc_step feed ext tick ev (ses, p))) \<longleftrightarrow>
   terminal (pstate (snd (snd (proc_step feed ext tick ev (ses, p)))))"
  using step_obeys_rule [of p ev ses] by (simp add: step_rule_def reports_end_def terminal_def)

lemma step_signals:
  "inv p \<Longrightarrow> responseToken (fst (proc_step feed ext tick ev (ses, p))) \<noteq> RT_None \<longleftrightarrow>
   action (fst (proc_step feed ext tick ev (ses, p))) = A_SendResponseWithToken"
  using step_obeys_rule [of p ev ses] step_keeps_terminal [of p ev ses]
  by (cases "terminal (pstate p)") (auto simp: step_rule_def silent_def)

lemma run_inv: "inv p \<Longrightarrow> inv (snd (snd (proc_run feed ext tick evs (ses, p))))"
proof (induction evs arbitrary: ses p)
  case (Cons ev evs)
  then show ?case
    using event_inv [OF Cons.prems, of ev ses]
    by (cases "proc_step feed ext tick ev (ses, p)") (simp add: split_beta Let_def)
qed simp

lemma run_keeps_terminal:
  "inv p \<Longrightarrow> terminal (pstate p) \<Longrightarrow>
   pstate (snd (snd (proc_run feed ext tick evs (ses, p)))) = pstate p \<and>
   (\<forall>r \<in> set (fst (proc_run feed ext tick evs (ses, p))). silent r)"
proof (induction evs arbitrary: ses p)
  case (Cons ev evs)
  obtain r ses1 p1 where s: "proc_step feed ext tick ev (ses, p) = (r, ses1, p1)"
    by (cases "proc_step feed ext tick ev (ses, p)") auto
  have "inv p1" "pstate p1 = pstate p" "silent r"
    using event_inv [OF Cons.prems(1), of ev ses] step_keeps_terminal [OF Cons.prems, of ev ses]
    by (simp_all add: s)
  then show ?case using Cons.IH [of p1 ses1] Cons.prems(2) by (simp add: s split_beta Let_def)
qed simp

lemma run_reports:
  "inv p \<Longrightarrow> \<not> terminal (pstate p) \<Longrightarrow>
   (\<exists>r \<in> set (fst (proc_run feed ext tick evs (ses, p))). reports_end r) \<longleftrightarrow>
   terminal (pstate (snd (snd (proc_run feed ext tick evs (ses, p)))))"
proof (induction evs arbitrary: ses p)
  case (Cons ev evs)
  obtain r ses1 p1 where s: "proc_step feed ext tick ev (ses, p) = (r, ses1, p1)"
    by (cases "proc_step feed ext tick ev (ses, p)") auto
  have 1: "inv p1" "reports_end r \<longleftrightarrow> terminal (pstate p1)"
    using event_inv [OF Cons.prems(1), of ev ses] step_reports [OF Cons.prems, of ev ses]
    by (simp_all add: s)
  show ?case
    using Cons.IH [OF 1(1), of ses1] 1 run_keeps_terminal [OF 1(1), of evs ses1]
    by (cases "terminal (pstate p1)") (simp_all add: s split_beta Let_def)
qed simp

lemma run_signals:
  "inv p \<Longrightarrow> r \<in> set (fst (proc_run feed ext tick evs (ses, p))) \<Longrightarrow>
   responseToken r \<noteq> RT_None \<longleftrightarrow> action r = A_SendResponseWithToken"
proof (induction evs arbitrary: ses p)
  case (Cons ev evs)
  obtain r1 ses1 p1 where s: "proc_step feed ext tick ev (ses, p) = (r1, ses1, p1)"
    by (cases "proc_step feed ext tick ev (ses, p)") auto
  have "inv p1" using event_inv [OF Cons.prems(1), of ev ses] by (simp add: s)
  then show ?case
    using Cons.IH [of p1 ses1] Cons.prems step_signals [OF Cons.prems(1), of ev ses]
    by (auto simp: s split_beta Let_def)
qed simp

lemma cancel_ends: "inv p \<Longrightarrow> terminal (pstate (cancel p))"
  by (simp add: cancel_fails terminal_def)

end

section \<open>Automation for the procedures\<close>

named_theorems mixin \<open>definitions and projections the procedures' proofs unfold\<close>

lemmas mixin_defs [mixin] = startTimer_def stopTimer_def moveTo_def mixin_fail_def
  mixin_complete_def finish_def doCancel_def stay_def respond_def signal_def await_def step0_def terminal_def
  base_feedExternalTyped_def conclude_def with_final_def

text \<open>
  Every procedure of the library is built from the mixin. What has to be shown for one is gathered
  in \<open>mixin_procedure\<close>, from which the contract of \<open>protocol_procedure\<close> follows; \<open>extra\<close> is what a
  procedure keeps invariant beyond the common part.
\<close>

definition step_ok ::
  "'st \<Rightarrow> 'st \<Rightarrow> (('st, 'm) Mixin_scheme \<Rightarrow> bool) \<Rightarrow> ProcedureType \<Rightarrow> ('st, 'm) Mixin_scheme \<Rightarrow>
   ProcedureStepResult \<Rightarrow> ('st, 'm) Mixin_scheme \<Rightarrow> bool" where
  "step_ok c f extra t p r p1 \<longleftrightarrow>
     mixin_inv c f p1 \<and> extra p1 \<and>
     (if terminal (mProcState p) then mProcState p1 = mProcState p \<and> silent r
      else step_rule t r (mProcState p1))"

definition calls_ok :: "bool \<Rightarrow> ParsedMessage \<Rightarrow> 'p FeedOut \<Rightarrow> bool" where
  "calls_ok sink msg r \<longleftrightarrow>
     fo_calls r = (if responseToken (fo_result r) = RT_None then [] else sink_call sink msg (fo_session r))"

locale mixin_procedure =
  fixes c f :: 'st and extra :: "('st, 'm) Mixin_scheme \<Rightarrow> bool" and ty :: ProcedureType
    and feed :: "bool \<Rightarrow> ParsedMessage \<Rightarrow> Session option \<Rightarrow> ('st, 'm) Mixin_scheme \<Rightarrow> ('st, 'm) Mixin_scheme FeedOut"
    and ext :: "ExternalData \<Rightarrow> Session option \<Rightarrow> ('st, 'm) Mixin_scheme \<Rightarrow> ('st, 'm) Mixin_scheme FeedOut"
    and tick :: "int \<Rightarrow> ('st, 'm) Mixin_scheme \<Rightarrow> ProcedureStepResult \<times> ('st, 'm) Mixin_scheme"
    and cancel :: "('st, 'm) Mixin_scheme \<Rightarrow> ('st, 'm) Mixin_scheme"
  assumes feed_ok: "mixin_inv c f p \<Longrightarrow> extra p \<Longrightarrow>
      step_ok c f extra ty p (fo_result (feed sink msg ses p)) (fo_proc (feed sink msg ses p)) \<and>
      calls_ok sink msg (feed sink msg ses p)"
    and ext_ok: "mixin_inv c f p \<Longrightarrow> extra p \<Longrightarrow>
      step_ok c f extra ty p (fo_result (ext d ses p)) (fo_proc (ext d ses p))"
    and ext_silent: "fo_calls (ext d ses p) = []"
    and tick_ok: "mixin_inv c f p \<Longrightarrow> extra p \<Longrightarrow>
      step_ok c f extra ty p (fst (tick delta p)) (snd (tick delta p)) \<and>
      (\<not> mTimerRunning p \<longrightarrow> tick delta p = (step0, p))"
    and cancel_ok: "mixin_inv c f p \<Longrightarrow> extra p \<Longrightarrow>
      mixin_inv c f (cancel p) \<and> extra (cancel p) \<and> mProcState (cancel p) = PS_Failed"

sublocale mixin_procedure \<subseteq> protocol_procedure mProcState "\<lambda>p. mixin_inv c f p \<and> extra p" "\<lambda>_. ty"
  feed ext tick cancel
proof
  fix p sink msg ses d delta
  assume p: "mixin_inv c f p \<and> extra p"
  note feed = feed_ok [OF conjunct1 [OF p] conjunct2 [OF p], of sink msg ses]
  note ext = ext_ok [OF conjunct1 [OF p] conjunct2 [OF p], of d ses]
  note tick = tick_ok [OF conjunct1 [OF p] conjunct2 [OF p], of delta]
  show "mixin_inv c f (fo_proc (feed sink msg ses p)) \<and> extra (fo_proc (feed sink msg ses p))"
    "fo_calls (feed sink msg ses p) =
      (if responseToken (fo_result (feed sink msg ses p)) = RT_None then []
       else sink_call sink msg (fo_session (feed sink msg ses p)))"
    using feed by (simp_all add: step_ok_def calls_ok_def)
  show "mixin_inv c f (fo_proc (ext d ses p)) \<and> extra (fo_proc (ext d ses p))"
    using ext by (simp add: step_ok_def)
  show "mixin_inv c f (snd (tick delta p)) \<and> extra (snd (tick delta p))"
    using tick by (simp add: step_ok_def)
  show "mixin_inv c f (cancel p) \<and> extra (cancel p)" "mProcState (cancel p) = PS_Failed"
    using cancel_ok p by simp_all
  assume "\<not> terminal (mProcState p)"
  then show "step_rule ty (fo_result (feed sink msg ses p)) (mProcState (fo_proc (feed sink msg ses p)))"
    "step_rule ty (fo_result (ext d ses p)) (mProcState (fo_proc (ext d ses p)))"
    "step_rule ty (fst (tick delta p)) (mProcState (snd (tick delta p)))"
    using feed ext tick by (simp_all add: step_ok_def)
next
  fix p sink msg ses d delta
  assume p: "mixin_inv c f p \<and> extra p" and "terminal (mProcState p)"
  then have "\<not> mTimerRunning p" by (auto simp: mixin_inv_def terminal_def split: if_splits)
  then show "tick delta p = (step0, p)" using tick_ok p by simp
  show "mProcState (fo_proc (feed sink msg ses p)) = mProcState p \<and> silent (fo_result (feed sink msg ses p))"
    "mProcState (fo_proc (ext d ses p)) = mProcState p \<and> silent (fo_result (ext d ses p))"
    using feed_ok [of p sink msg ses] ext_ok [of p d ses] p \<open>terminal (mProcState p)\<close>
    by (simp_all add: step_ok_def)
qed (rule ext_silent)

text \<open>The tick and cancel of the mixin itself satisfy what \<open>mixin_procedure\<close> asks.\<close>

lemma doTick_ok:
  assumes "mixin_inv c f p" and "c \<noteq> f"
    and "\<And>q. doFail q = q\<lparr>mCurrentState := f, mProcState := PS_Failed\<rparr>"
    and "extra p" and "\<And>x. extra (p\<lparr>mTimerRemaining := x\<rparr>)"
    and "\<And>x. extra (doFail (stopTimer (p\<lparr>mTimerRemaining := x\<rparr>)))"
  shows "step_ok c f extra t p (fst (doTick doFail t d p)) (snd (doTick doFail t d p)) \<and>
    (\<not> mTimerRunning p \<longrightarrow> doTick doFail t d p = (step0, p))"
proof (cases "mTimerRunning p")
  case True
  show ?thesis
    using assms(1,2,5,6) True
    by (cases "mTimerRemaining p \<le> d")
      (auto simp: silent_def step_ok_def step_rule_def mixin_inv_def doTick_def assms(3) mixin Let_def)
next
  case False
  then show ?thesis
    using assms(1,4) by (auto simp: silent_def step_ok_def step_rule_def mixin_inv_def doTick_def step0_def terminal_def)
qed

text \<open>
  The steps of the procedures are put together from a few pieces; these rules say of each piece
  what it keeps of the invariant and that it obeys the contract, so that the proof for a procedure
  goes through its states and needs no record equation.
\<close>

named_theorems mixin_rules \<open>invariant and contract of the pieces of a step\<close>

lemma mixin_projections [mixin_rules]:
  "mCurrentState (moveTo ps s p) = s" "mProcState (moveTo ps s p) = ps s"
  "mCurrentState (startTimer i d p) = mCurrentState p" "mProcState (startTimer i d p) = mProcState p"
  "mCurrentState (stopTimer p) = mCurrentState p" "mProcState (stopTimer p) = mProcState p"
  by (simp_all add: mixin)

lemma terminal_cases [mixin_rules]:
  "terminal PS_Completed" "terminal PS_Failed" "\<not> terminal PS_InProgress"
  "\<not> terminal PS_WaitingExternal" "\<not> terminal PS_Initiated"
  by (simp_all add: terminal_def)

lemma moveTo_inv [mixin_rules]:
  "mixin_inv c f p \<Longrightarrow> mCurrentState p \<noteq> c \<Longrightarrow> mCurrentState p \<noteq> f \<Longrightarrow> s \<noteq> c \<Longrightarrow> s \<noteq> f \<Longrightarrow>
   ps s = PS_InProgress \<or> ps s = PS_WaitingExternal \<Longrightarrow> mixin_inv c f (moveTo ps s p)"
  by (auto simp: mixin_inv_def moveTo_def)

lemma startTimer_inv [mixin_rules]:
  "mixin_inv c f p \<Longrightarrow> mCurrentState p \<noteq> c \<Longrightarrow> mCurrentState p \<noteq> f \<Longrightarrow> 0 < d \<Longrightarrow>
   mixin_inv c f (startTimer i d p)"
  by (auto simp: mixin_inv_def startTimer_def)

lemma stopTimer_inv [mixin_rules]:
  "mixin_inv c f p \<Longrightarrow> mixin_inv c f (stopTimer p)"
  by (auto simp: mixin_inv_def stopTimer_def)

lemma finished_inv [mixin_rules]:
  "c \<noteq> f \<Longrightarrow> mixin_inv c f ((stopTimer p)\<lparr>mCurrentState := c, mProcState := PS_Completed\<rparr>)"
  "c \<noteq> f \<Longrightarrow> mixin_inv c f ((stopTimer p)\<lparr>mCurrentState := f, mProcState := PS_Failed\<rparr>)"
  by (auto simp: mixin_inv_def stopTimer_def)

lemma inv_state:
  "mixin_inv c f p \<Longrightarrow> terminal (mProcState p) \<longleftrightarrow> mCurrentState p = c \<or> mCurrentState p = f"
  by (auto simp: mixin_inv_def terminal_def)

lemma stay_ok [mixin_rules]:
  "mixin_inv c f p \<Longrightarrow> extra p \<Longrightarrow> step_ok c f extra t p (fo_result (stay ses p)) (fo_proc (stay ses p))"
  "calls_ok sink msg (stay ses p)"
  by (auto simp: silent_def step_ok_def step_rule_def calls_ok_def stay_def step0_def terminal_def)

lemma move_ok [mixin_rules]:
  "mixin_inv c f p1 \<Longrightarrow> extra p1 \<Longrightarrow> \<not> terminal (mProcState p) \<Longrightarrow> \<not> terminal (mProcState p1) \<Longrightarrow>
   step_ok c f extra t p (fo_result (stay ses p1)) (fo_proc (stay ses p1))"
  by (auto simp: silent_def step_ok_def step_rule_def stay_def step0_def terminal_def)

lemma stay_done [mixin_rules]:
  "mixin_inv c f p1 \<Longrightarrow> extra p1 \<Longrightarrow> mProcState p1 = mProcState p \<Longrightarrow>
   step_ok c f extra t p (fo_result (stay ses p1)) (fo_proc (stay ses p1))"
  by (auto simp: silent_def step_ok_def step_rule_def stay_def step0_def terminal_def)

lemma respond_ok [mixin_rules]:
  "mixin_inv c f p1 \<Longrightarrow> extra p1 \<Longrightarrow> \<not> terminal (mProcState p) \<Longrightarrow> \<not> terminal (mProcState p1) \<Longrightarrow>
   tok \<noteq> RT_None \<Longrightarrow>
   step_ok c f extra t p (fo_result (respond tok sink msg ses p1)) (fo_proc (respond tok sink msg ses p1))"
  "tok \<noteq> RT_None \<Longrightarrow> calls_ok sink msg (respond tok sink msg ses p1)"
  by (auto simp: silent_def step_ok_def step_rule_def calls_ok_def respond_def step0_def terminal_def)

lemma signal_ok [mixin_rules]:
  "mixin_inv c f p1 \<Longrightarrow> extra p1 \<Longrightarrow> \<not> terminal (mProcState p) \<Longrightarrow> \<not> terminal (mProcState p1) \<Longrightarrow>
   tok \<noteq> RT_None \<Longrightarrow>
   step_ok c f extra t p (fo_result (signal tok ses p1)) (fo_proc (signal tok ses p1))"
  by (auto simp: silent_def step_ok_def step_rule_def signal_def step0_def terminal_def)

lemma await_ok [mixin_rules]:
  "mixin_inv c f p1 \<Longrightarrow> extra p1 \<Longrightarrow> \<not> terminal (mProcState p) \<Longrightarrow> mProcState p1 = PS_WaitingExternal \<Longrightarrow>
   step_ok c f extra t p (fo_result (await ses p1)) (fo_proc (await ses p1))"
  "calls_ok sink msg (await ses p1)"
  by (auto simp: silent_def step_ok_def step_rule_def calls_ok_def await_def step0_def terminal_def)

lemma conclude_ok [mixin_rules]:
  "mixin_inv c f p1 \<Longrightarrow> extra p1 \<Longrightarrow> \<not> terminal (mProcState p) \<Longrightarrow>
   a = A_Completed \<and> mProcState p1 = PS_Completed \<or> a = A_Failed \<and> mProcState p1 = PS_Failed \<Longrightarrow>
   step_ok c f extra t p (fo_result (conclude a t why ses p1)) (fo_proc (conclude a t why ses p1))"
  "calls_ok sink msg (conclude a t why ses p1)"
  by (auto simp: silent_def step_ok_def step_rule_def calls_ok_def conclude_def finish_def step0_def terminal_def)

lemma final_ok [mixin_rules]:
  "mixin_inv c f p1 \<Longrightarrow> extra p1 \<Longrightarrow> \<not> terminal (mProcState p) \<Longrightarrow> terminal (mProcState p1) \<Longrightarrow>
   tok \<noteq> RT_None \<Longrightarrow>
   step_ok c f extra t p (fo_result (with_final t why (respond tok sink msg ses p1)))
     (fo_proc (with_final t why (respond tok sink msg ses p1)))"
  "tok \<noteq> RT_None \<Longrightarrow> calls_ok sink msg (with_final t why (respond tok sink msg ses p1))"
  "mixin_inv c f p1 \<Longrightarrow> extra p1 \<Longrightarrow> \<not> terminal (mProcState p) \<Longrightarrow> terminal (mProcState p1) \<Longrightarrow>
   tok \<noteq> RT_None \<Longrightarrow>
   step_ok c f extra t p (fo_result (with_final t why (signal tok ses p1)))
     (fo_proc (with_final t why (signal tok ses p1)))"
  by (auto simp: silent_def step_ok_def step_rule_def calls_ok_def with_final_def respond_def signal_def step0_def terminal_def)

text \<open>
  The closing report changes nothing for a step that obeys the contract, except that a procedure
  which was finished before reports its end once more.
\<close>

lemma report_ok [mixin_rules]:
  "mixin_inv c f p \<Longrightarrow> step_ok c f extra t p (fo_result r) (fo_proc r) \<Longrightarrow>
   step_ok c f extra t p (fo_result (report_terminal t r)) (fo_proc (report_terminal t r))"
  by (auto simp: silent_def step_ok_def step_rule_def report_terminal_def Let_def terminal_def mixin_inv_def)

lemma report_calls [mixin_rules]:
  "calls_ok sink msg (report_terminal t r) = calls_ok sink msg r"
  by (simp add: calls_ok_def report_terminal_def Let_def)

lemma doCancel_ok:
  assumes "mixin_inv c f p" and "c \<noteq> f"
    and "\<And>q. doFail q = q\<lparr>mCurrentState := f, mProcState := PS_Failed\<rparr>"
  shows "mixin_inv c f (doCancel doFail p)" and "mProcState (doCancel doFail p) = PS_Failed"
  using assms(1,2) by (simp_all add: mixin_inv_def assms(3) mixin)

lemmas mixin_checks = silent_def step_ok_def calls_ok_def step_rule_def mixin_inv_def

end
