(* ===== verification/Procedures_MM.thy ===== *)
theory Procedures_MM
  imports Procedure_Base
begin

text \<open>
  The procedures of mobility management and ciphering, from \<^verbatim>\<open>stack/procedures/\<close>:
  \<^verbatim>\<open>authentication\<close>, \<^verbatim>\<open>location_update\<close>, \<^verbatim>\<open>imsi_detach\<close> and \<^verbatim>\<open>ciphering_mode\<close>. A procedure is a record
  that extends the inherited state; each of its virtual functions is a definition, and its
  contract is an interpretation of \<open>protocol_procedure\<close>.
\<close>

section \<open>Authentication\<close>

datatype AuthenticationState =
    Auth_INIT | Auth_SEND_AUTH_REQ | Auth_WAIT_RESPONSE | Auth_VERIFY_SRES | Auth_COMPLETED | Auth_FAILED

record AuthenticationProcedure = "AuthenticationState Mixin" +
  auth_rand :: bytes
  auth_hasRand :: bool
  auth_expectedSRES :: bytes
  auth_hasExpectedSRES :: bool

definition mkAuthentication :: AuthenticationProcedure where
  "mkAuthentication =
     \<lparr>mCurrentState = Auth_INIT, mProcState = PS_Initiated, mTimerRemaining = 0,
      mCurrentTimer = Timer_Unknown, mTimerRunning = False,
      auth_rand = replicate 16 0, auth_hasRand = False,
      auth_expectedSRES = replicate 4 0, auth_hasExpectedSRES = False\<rparr>"

definition auth_matches :: "ParsedMessage \<Rightarrow> bool" where
  "auth_matches msg \<longleftrightarrow>
     messagePD msg = MobilityManagement \<and> messageMTI msg = MTI_AuthenticationResponse"

definition auth_procState :: "AuthenticationState \<Rightarrow> ProcedureState" where
  "auth_procState s =
     (if s = Auth_COMPLETED then PS_Completed else if s = Auth_FAILED then PS_Failed else PS_InProgress)"

definition auth_transitionTo :: "AuthenticationState \<Rightarrow> AuthenticationProcedure \<Rightarrow> AuthenticationProcedure" where
  "auth_transitionTo = moveTo auth_procState"

definition auth_doFail :: "AuthenticationProcedure \<Rightarrow> AuthenticationProcedure" where
  "auth_doFail p = p\<lparr>mCurrentState := Auth_FAILED, mProcState := PS_Failed\<rparr>"

definition auth_doComplete :: "AuthenticationProcedure \<Rightarrow> AuthenticationProcedure" where
  "auth_doComplete p = p\<lparr>mCurrentState := Auth_COMPLETED, mProcState := PS_Completed\<rparr>"

text \<open>The expected response as a number, most significant octet first.\<close>

definition sres_of :: "bytes \<Rightarrow> u32" where
  "sres_of b =
     push_bit 24 (ucast (b ! 0)) OR push_bit 16 (ucast (b ! 1)) OR push_bit 8 (ucast (b ! 2)) OR ucast (b ! 3)"

definition auth_verify ::
  "ParsedMessage \<Rightarrow> Session option \<Rightarrow> AuthenticationProcedure \<Rightarrow> AuthenticationProcedure FeedOut" where
  "auth_verify msg ses p =
     (if auth_hasExpectedSRES p
      then (case messageBody msg of
              AuthenticationResponseBody sres \<Rightarrow>
                if sres = sres_of (auth_expectedSRES p)
                then conclude A_Completed PT_Authentication ''auth_success'' ses (mixin_complete auth_doComplete p)
                else conclude A_Failed PT_Authentication ''sres_mismatch'' ses (mixin_fail auth_doFail p)
            | _ \<Rightarrow> conclude A_Failed PT_Authentication ''invalid_response'' ses (mixin_fail auth_doFail p))
      else conclude A_Completed PT_Authentication ''auth_no_verify'' ses (mixin_complete auth_doComplete p))"

definition auth_feed ::
  "bool \<Rightarrow> ParsedMessage \<Rightarrow> Session option \<Rightarrow> AuthenticationProcedure \<Rightarrow> AuthenticationProcedure FeedOut" where
  "auth_feed sink msg ses p =
     (case mCurrentState p of
        Auth_INIT \<Rightarrow> stay ses p
      | Auth_SEND_AUTH_REQ \<Rightarrow>
          respond RT_AuthenticationRequest sink msg ses
            (auth_transitionTo Auth_WAIT_RESPONSE (startTimer T3106 3000 p))
      | Auth_WAIT_RESPONSE \<Rightarrow>
          if messagePD msg = MobilityManagement \<and> messageMTI msg = MTI_AuthenticationResponse
          then auth_verify msg ses (auth_transitionTo Auth_VERIFY_SRES p)
          else stay ses p
      | Auth_VERIFY_SRES \<Rightarrow> stay ses p
      | Auth_COMPLETED \<Rightarrow> stay ses p
      | Auth_FAILED \<Rightarrow> stay ses p)"

definition auth_feedExternalTyped ::
  "ExternalData \<Rightarrow> Session option \<Rightarrow> AuthenticationProcedure \<Rightarrow> AuthenticationProcedure FeedOut" where
  "auth_feedExternalTyped d ses p =
     (case d of
        ExtAuthChallenge chal \<Rightarrow>
          let p1 = p\<lparr>auth_rand := ac_rand chal, auth_hasRand := True,
                     auth_expectedSRES := ac_expectedSres chal, auth_hasExpectedSRES := True\<rparr>;
              ses1 = ses_respond (\<lambda>r. r\<lparr>rc_rand := ac_rand chal, rc_hasRand := True\<rparr>) ses
          in if mCurrentState p1 = Auth_INIT \<and> auth_hasRand p1
             then signal RT_AuthenticationRequest ses1 (auth_transitionTo Auth_SEND_AUTH_REQ p1)
             else stay ses1 p1
      | _ \<Rightarrow> stay ses p)"

definition auth_tick :: "int \<Rightarrow> AuthenticationProcedure \<Rightarrow> ProcedureStepResult \<times> AuthenticationProcedure" where
  "auth_tick = doTick auth_doFail PT_Authentication"

definition auth_cancel :: "AuthenticationProcedure \<Rightarrow> AuthenticationProcedure" where
  "auth_cancel = doCancel auth_doFail"

text \<open>
  Beyond the common part, the invariant says that a procedure that has left its initial state and
  has not failed knows what response to expect.
\<close>

definition auth_extra :: "AuthenticationProcedure \<Rightarrow> bool" where
  "auth_extra p \<longleftrightarrow>
     mCurrentState p = Auth_INIT \<or> mCurrentState p = Auth_FAILED \<or> auth_hasExpectedSRES p"

lemmas auth_defs = auth_procState_def auth_transitionTo_def auth_doFail_def auth_doComplete_def
  auth_verify_def auth_feed_def auth_feedExternalTyped_def auth_tick_def auth_cancel_def auth_extra_def

lemma auth_projections [simp]:
  "auth_hasExpectedSRES (moveTo ps s p) = auth_hasExpectedSRES p"
  "auth_hasExpectedSRES (startTimer i d p) = auth_hasExpectedSRES p"
  "auth_hasExpectedSRES (stopTimer p) = auth_hasExpectedSRES p"
  "auth_expectedSRES (moveTo ps s p) = auth_expectedSRES p"
  "auth_expectedSRES (startTimer i d p) = auth_expectedSRES p"
  "auth_expectedSRES (stopTimer p) = auth_expectedSRES p"
  by (simp_all add: mixin)

lemma auth_feed_ok:
  "mixin_inv Auth_COMPLETED Auth_FAILED p \<Longrightarrow> auth_extra p \<Longrightarrow>
   step_ok Auth_COMPLETED Auth_FAILED auth_extra PT_Authentication p (fo_result (auth_feed sink msg ses p))
     (fo_proc (auth_feed sink msg ses p)) \<and> calls_ok sink msg (auth_feed sink msg ses p)"
  using inv_state [of Auth_COMPLETED Auth_FAILED p]
  by (cases "mCurrentState p")
    (simp_all add: auth_defs mixin_fail_def mixin_complete_def mixin_rules split: if_split MessageBody.split)

lemma auth_ext_ok:
  "mixin_inv Auth_COMPLETED Auth_FAILED p \<Longrightarrow> auth_extra p \<Longrightarrow>
   step_ok Auth_COMPLETED Auth_FAILED auth_extra PT_Authentication p
     (fo_result (auth_feedExternalTyped d ses p)) (fo_proc (auth_feedExternalTyped d ses p))"
  by (cases d; cases "mCurrentState p")
    (simp_all add: mixin_checks auth_defs mixin Let_def split: if_splits)

interpretation auth: mixin_procedure Auth_COMPLETED Auth_FAILED auth_extra PT_Authentication
  auth_feed auth_feedExternalTyped auth_tick auth_cancel
proof
  fix p :: AuthenticationProcedure and d ses delta
  show "fo_calls (auth_feedExternalTyped d ses p) = []"
    by (cases d) (simp_all add: auth_defs mixin Let_def)
  assume p: "mixin_inv Auth_COMPLETED Auth_FAILED p" "auth_extra p"
  show "step_ok Auth_COMPLETED Auth_FAILED auth_extra PT_Authentication p (fst (auth_tick delta p))
      (snd (auth_tick delta p)) \<and> (\<not> mTimerRunning p \<longrightarrow> auth_tick delta p = (step0, p))"
    unfolding auth_tick_def using p by (intro doTick_ok) (simp_all add: auth_extra_def auth_doFail_def)
  show "mixin_inv Auth_COMPLETED Auth_FAILED (auth_cancel p) \<and> auth_extra (auth_cancel p) \<and>
      mProcState (auth_cancel p) = PS_Failed"
    using doCancel_ok [OF p(1), of auth_doFail] by (simp add: auth_defs doCancel_def)
qed (rule auth_feed_ok auth_ext_ok; assumption)+

section \<open>IMSI detach\<close>

datatype IMSIDetachState =
    Det_INIT | Det_SEND_CM_SERVICE_ACCEPT | Det_WAIT_DETACH_COMPLETE | Det_COMPLETED | Det_FAILED

type_synonym IMSIDetachProcedure = "IMSIDetachState Mixin"

definition mkIMSIDetach :: IMSIDetachProcedure where
  "mkIMSIDetach =
     \<lparr>mCurrentState = Det_INIT, mProcState = PS_Initiated, mTimerRemaining = 0,
      mCurrentTimer = Timer_Unknown, mTimerRunning = False\<rparr>"

definition det_matches :: "ParsedMessage \<Rightarrow> bool" where
  "det_matches msg \<longleftrightarrow> messagePD msg = MobilityManagement"

definition det_procState :: "IMSIDetachState \<Rightarrow> ProcedureState" where
  "det_procState s =
     (if s = Det_COMPLETED then PS_Completed else if s = Det_FAILED then PS_Failed else PS_InProgress)"

definition det_transitionTo :: "IMSIDetachState \<Rightarrow> IMSIDetachProcedure \<Rightarrow> IMSIDetachProcedure" where
  "det_transitionTo = moveTo det_procState"

definition det_doFail :: "IMSIDetachProcedure \<Rightarrow> IMSIDetachProcedure" where
  "det_doFail p = p\<lparr>mCurrentState := Det_FAILED, mProcState := PS_Failed\<rparr>"

definition det_doComplete :: "IMSIDetachProcedure \<Rightarrow> IMSIDetachProcedure" where
  "det_doComplete p = p\<lparr>mCurrentState := Det_COMPLETED, mProcState := PS_Completed\<rparr>"

text \<open>The initial state falls through to the sending state on a message of mobility management.\<close>

definition det_accept ::
  "bool \<Rightarrow> ParsedMessage \<Rightarrow> Session option \<Rightarrow> IMSIDetachProcedure \<Rightarrow> IMSIDetachProcedure FeedOut" where
  "det_accept sink msg ses p =
     respond RT_CMServiceAccept sink msg ses
       (startTimer T3112 5000 (det_transitionTo Det_WAIT_DETACH_COMPLETE p))"

definition det_feed ::
  "bool \<Rightarrow> ParsedMessage \<Rightarrow> Session option \<Rightarrow> IMSIDetachProcedure \<Rightarrow> IMSIDetachProcedure FeedOut" where
  "det_feed sink msg ses p =
     report_terminal PT_IMSIDetach
       (case mCurrentState p of
          Det_INIT \<Rightarrow>
            if messagePD msg = MobilityManagement
            then det_accept sink msg ses (det_transitionTo Det_SEND_CM_SERVICE_ACCEPT p)
            else stay ses p
        | Det_SEND_CM_SERVICE_ACCEPT \<Rightarrow> det_accept sink msg ses p
        | Det_WAIT_DETACH_COMPLETE \<Rightarrow>
            if messagePD msg = MobilityManagement
            then conclude A_Completed PT_IMSIDetach ''detach_complete'' ses (mixin_complete det_doComplete p)
            else stay ses p
        | Det_COMPLETED \<Rightarrow> stay ses p
        | Det_FAILED \<Rightarrow> stay ses p)"

definition det_feedExternalTyped :: "ExternalData \<Rightarrow> Session option \<Rightarrow> IMSIDetachProcedure \<Rightarrow> IMSIDetachProcedure FeedOut" where
  "det_feedExternalTyped d ses p = stay ses p"

definition det_tick :: "int \<Rightarrow> IMSIDetachProcedure \<Rightarrow> ProcedureStepResult \<times> IMSIDetachProcedure" where
  "det_tick = doTick det_doFail PT_IMSIDetach"

definition det_cancel :: "IMSIDetachProcedure \<Rightarrow> IMSIDetachProcedure" where
  "det_cancel = doCancel det_doFail"

lemmas det_defs = det_procState_def det_transitionTo_def det_doFail_def det_doComplete_def
  det_accept_def det_feed_def det_feedExternalTyped_def det_tick_def det_cancel_def

interpretation det: mixin_procedure Det_COMPLETED Det_FAILED "\<lambda>_. True" PT_IMSIDetach
  det_feed det_feedExternalTyped det_tick det_cancel
proof
  fix p :: IMSIDetachProcedure and sink msg d ses delta
  show "fo_calls (det_feedExternalTyped d ses p) = []" by (simp add: det_defs mixin)
  assume p: "mixin_inv Det_COMPLETED Det_FAILED p" "True"
  show "step_ok Det_COMPLETED Det_FAILED (\<lambda>_. True) PT_IMSIDetach p (fo_result (det_feed sink msg ses p))
      (fo_proc (det_feed sink msg ses p)) \<and> calls_ok sink msg (det_feed sink msg ses p)"
    using p inv_state [OF p(1)] by (cases "mCurrentState p")
      (simp_all add: det_defs mixin_fail_def mixin_complete_def mixin_rules split: if_split)
  show "step_ok Det_COMPLETED Det_FAILED (\<lambda>_. True) PT_IMSIDetach p (fo_result (det_feedExternalTyped d ses p))
      (fo_proc (det_feedExternalTyped d ses p))"
    using p by (simp add: det_feedExternalTyped_def stay_ok)
  show "step_ok Det_COMPLETED Det_FAILED (\<lambda>_. True) PT_IMSIDetach p (fst (det_tick delta p))
      (snd (det_tick delta p)) \<and> (\<not> mTimerRunning p \<longrightarrow> det_tick delta p = (step0, p))"
    unfolding det_tick_def using p by (intro doTick_ok) (simp_all add: det_doFail_def)
  show "mixin_inv Det_COMPLETED Det_FAILED (det_cancel p) \<and> True \<and> mProcState (det_cancel p) = PS_Failed"
    using doCancel_ok [OF p(1), of det_doFail] by (simp add: det_defs)
qed

section \<open>Ciphering mode\<close>

datatype CipheringModeState =
    Ciph_INIT | Ciph_SEND_COMMAND | Ciph_WAIT_COMPLETE | Ciph_COMPLETED | Ciph_FAILED

record CipheringModeProcedure = "CipheringModeState Mixin" +
  ciph_algo :: u8

definition mkCipheringMode :: "u8 \<Rightarrow> CipheringModeProcedure" where
  "mkCipheringMode algo =
     \<lparr>mCurrentState = Ciph_INIT, mProcState = PS_Initiated, mTimerRemaining = 0,
      mCurrentTimer = Timer_Unknown, mTimerRunning = False,
      ciph_algo = algo\<rparr>"

definition ciph_matches :: "ParsedMessage \<Rightarrow> bool" where
  "ciph_matches msg \<longleftrightarrow>
     messagePD msg = RadioResource \<and> messageMTI msg = MTI_CipheringModeComplete"

definition ciph_procState :: "CipheringModeState \<Rightarrow> ProcedureState" where
  "ciph_procState s =
     (if s = Ciph_COMPLETED then PS_Completed else if s = Ciph_FAILED then PS_Failed else PS_InProgress)"

definition ciph_transitionTo :: "CipheringModeState \<Rightarrow> CipheringModeProcedure \<Rightarrow> CipheringModeProcedure" where
  "ciph_transitionTo = moveTo ciph_procState"

definition ciph_doFail :: "CipheringModeProcedure \<Rightarrow> CipheringModeProcedure" where
  "ciph_doFail p = p\<lparr>mCurrentState := Ciph_FAILED, mProcState := PS_Failed\<rparr>"

definition ciph_doComplete :: "CipheringModeProcedure \<Rightarrow> CipheringModeProcedure" where
  "ciph_doComplete p = p\<lparr>mCurrentState := Ciph_COMPLETED, mProcState := PS_Completed\<rparr>"

definition ciph_feed ::
  "bool \<Rightarrow> ParsedMessage \<Rightarrow> Session option \<Rightarrow> CipheringModeProcedure \<Rightarrow> CipheringModeProcedure FeedOut" where
  "ciph_feed sink msg ses p =
     (case mCurrentState p of
        Ciph_INIT \<Rightarrow> stay ses p
      | Ciph_SEND_COMMAND \<Rightarrow>
          respond RT_CipheringModeCommand sink msg ses
            (ciph_transitionTo Ciph_WAIT_COMPLETE (startTimer T3101 3000 p))
      | Ciph_WAIT_COMPLETE \<Rightarrow>
          if messagePD msg = RadioResource \<and> messageMTI msg = MTI_CipheringModeComplete
          then conclude A_Completed PT_CipheringMode ''ciphering_activated'' ses (mixin_complete ciph_doComplete p)
          else stay ses p
      | Ciph_COMPLETED \<Rightarrow> stay ses p
      | Ciph_FAILED \<Rightarrow> stay ses p)"

definition ciph_feedExternalTyped ::
  "ExternalData \<Rightarrow> Session option \<Rightarrow> CipheringModeProcedure \<Rightarrow> CipheringModeProcedure FeedOut" where
  "ciph_feedExternalTyped d ses p =
     (case d of
        ExtCipheringParameters params \<Rightarrow>
          if mCurrentState p = Ciph_INIT
          then signal RT_CipheringModeCommand
                 (ses_respond (\<lambda>r. r\<lparr>rc_cipherAlgo := cp_algorithmSelector params, rc_hasCipherAlgo := True\<rparr>) ses)
                 (startTimer T3101 3000 (ciph_transitionTo Ciph_SEND_COMMAND p))
          else stay ses p
      | _ \<Rightarrow> stay ses p)"

definition ciph_tick :: "int \<Rightarrow> CipheringModeProcedure \<Rightarrow> ProcedureStepResult \<times> CipheringModeProcedure" where
  "ciph_tick = doTick ciph_doFail PT_CipheringMode"

definition ciph_cancel :: "CipheringModeProcedure \<Rightarrow> CipheringModeProcedure" where
  "ciph_cancel = doCancel ciph_doFail"

lemmas ciph_defs = ciph_procState_def ciph_transitionTo_def ciph_doFail_def ciph_doComplete_def
  ciph_feed_def ciph_tick_def ciph_cancel_def
  ciph_feedExternalTyped_def

interpretation ciph: mixin_procedure Ciph_COMPLETED Ciph_FAILED "\<lambda>_. True" PT_CipheringMode
  ciph_feed ciph_feedExternalTyped ciph_tick ciph_cancel
proof
  fix p :: CipheringModeProcedure and sink msg d ses delta
  show "fo_calls (ciph_feedExternalTyped d ses p) = []"
    by (cases d) (simp_all add: ciph_defs mixin Let_def)
  assume p: "mixin_inv Ciph_COMPLETED Ciph_FAILED p" "True"
  note t = inv_state [OF p(1)]
  show "step_ok Ciph_COMPLETED Ciph_FAILED (\<lambda>_. True) PT_CipheringMode p (fo_result (ciph_feed sink msg ses p))
      (fo_proc (ciph_feed sink msg ses p)) \<and> calls_ok sink msg (ciph_feed sink msg ses p)"
    using p t by (cases "mCurrentState p")
      (simp_all add: ciph_defs mixin_fail_def mixin_complete_def mixin_rules split: if_split)
  show "step_ok Ciph_COMPLETED Ciph_FAILED (\<lambda>_. True) PT_CipheringMode p (fo_result (ciph_feedExternalTyped d ses p))
      (fo_proc (ciph_feedExternalTyped d ses p))"
    using p t by (cases d; cases "mCurrentState p")
      (simp_all add: ciph_defs mixin_fail_def mixin_complete_def mixin_rules Let_def split: if_split)
  show "step_ok Ciph_COMPLETED Ciph_FAILED (\<lambda>_. True) PT_CipheringMode p (fst (ciph_tick delta p))
      (snd (ciph_tick delta p)) \<and> (\<not> mTimerRunning p \<longrightarrow> ciph_tick delta p = (step0, p))"
    unfolding ciph_tick_def using p by (intro doTick_ok) (simp_all add: ciph_doFail_def)
  show "mixin_inv Ciph_COMPLETED Ciph_FAILED (ciph_cancel p) \<and> True \<and> mProcState (ciph_cancel p) = PS_Failed"
    using doCancel_ok [OF p(1), of ciph_doFail] by (simp add: ciph_defs)
qed

section \<open>Location update\<close>

datatype LocationUpdateState =
    LU_INIT | LU_IDENTITY_CHECK | LU_REQUEST_IDENTITY | LU_AUTH_CHECK | LU_SEND_AUTH | LU_WAIT_AUTH
  | LU_VERIFY_AUTH | LU_LU_REQUEST | LU_WAITING_EXTERNAL | LU_SEND_ACCEPT | LU_SEND_REJECT
  | LU_COMPLETED | LU_FAILED

record LocationUpdateProcedure = "LocationUpdateState Mixin" +
  lu_rand :: bytes
  lu_hasRand :: bool
  lu_expectedSRES :: bytes
  lu_hasExpectedSRES :: bool
  lu_lai :: L3LocationAreaIdentity
  lu_newTmsi :: "u32 option"
  lu_rejectCause :: MMRejectCause

definition mkLocationUpdate :: LocationUpdateProcedure where
  "mkLocationUpdate =
     \<lparr>mCurrentState = LU_INIT, mProcState = PS_Initiated, mTimerRemaining = 0,
      mCurrentTimer = Timer_Unknown, mTimerRunning = False,
      lu_rand = replicate 16 0, lu_hasRand = False, lu_expectedSRES = replicate 4 0,
      lu_hasExpectedSRES = False, lu_lai = lai0, lu_newTmsi = None, lu_rejectCause = MMCause_Zero\<rparr>"

definition lu_matches :: "ParsedMessage \<Rightarrow> bool" where
  "lu_matches msg \<longleftrightarrow>
     messagePD msg = MobilityManagement \<and>
     (messageMTI msg = MTI_CMServiceRequest \<or> messageMTI msg = MTI_IdentityResponse \<or>
      messageMTI msg = MTI_AuthenticationResponse)"

definition lu_procState :: "LocationUpdateState \<Rightarrow> ProcedureState" where
  "lu_procState s =
     (if s = LU_COMPLETED then PS_Completed else if s = LU_FAILED then PS_Failed
      else if s = LU_WAITING_EXTERNAL then PS_WaitingExternal else PS_InProgress)"

definition lu_transitionTo :: "LocationUpdateState \<Rightarrow> LocationUpdateProcedure \<Rightarrow> LocationUpdateProcedure" where
  "lu_transitionTo = moveTo lu_procState"

definition lu_doFail :: "LocationUpdateProcedure \<Rightarrow> LocationUpdateProcedure" where
  "lu_doFail p = p\<lparr>mCurrentState := LU_FAILED, mProcState := PS_Failed\<rparr>"

definition lu_doComplete :: "LocationUpdateProcedure \<Rightarrow> LocationUpdateProcedure" where
  "lu_doComplete p = p\<lparr>mCurrentState := LU_COMPLETED, mProcState := PS_Completed\<rparr>"

lemma lu_field_inv [simp]:
  "mixin_inv c f (p\<lparr>lu_lai := l\<rparr>) = mixin_inv c f p"
  "mixin_inv c f (p\<lparr>lu_rejectCause := r\<rparr>) = mixin_inv c f p"
  "mixin_inv c f (p\<lparr>lu_newTmsi := t\<rparr>) = mixin_inv c f p"
  "mixin_inv c f (p\<lparr>lu_rand := b, lu_hasRand := h, lu_expectedSRES := e, lu_hasExpectedSRES := k\<rparr>) =
   mixin_inv c f p"
  by (simp_all add: mixin_inv_def)

definition lu_reject ::
  "bool \<Rightarrow> ParsedMessage \<Rightarrow> Session option \<Rightarrow> LocationUpdateProcedure \<Rightarrow> LocationUpdateProcedure FeedOut" where
  "lu_reject sink msg ses p =
     respond RT_LocationUpdatingReject sink msg ses
       (lu_transitionTo LU_SEND_REJECT (p\<lparr>lu_rejectCause := MMCause_MAC_Failure\<rparr>))"

definition lu_verify ::
  "bool \<Rightarrow> ParsedMessage \<Rightarrow> Session option \<Rightarrow> LocationUpdateProcedure \<Rightarrow> LocationUpdateProcedure FeedOut" where
  "lu_verify sink msg ses p =
     (if lu_hasExpectedSRES p
      then (case messageBody msg of
              AuthenticationResponseBody sres \<Rightarrow>
                if sres = sres_of (lu_expectedSRES p) then stay ses (lu_transitionTo LU_LU_REQUEST p)
                else lu_reject sink msg ses p
            | _ \<Rightarrow> lu_reject sink msg ses p)
      else stay ses (lu_transitionTo LU_LU_REQUEST p))"

definition lu_request ::
  "Session option \<Rightarrow> LocationUpdateProcedure \<Rightarrow> LocationUpdateProcedure FeedOut" where
  "lu_request ses p =
     (let p1 = (case ses of
                  Some s \<Rightarrow> p\<lparr>lu_lai := (case ctx_lai (ses_context s) of Some l \<Rightarrow> l | None \<Rightarrow> lai0)\<rparr>
                | None \<Rightarrow> p)
      in await ses (startTimer T3103 5000 (lu_transitionTo LU_WAITING_EXTERNAL p1)))"

definition lu_switch ::
  "bool \<Rightarrow> ParsedMessage \<Rightarrow> Session option \<Rightarrow> LocationUpdateProcedure \<Rightarrow> LocationUpdateProcedure FeedOut" where
  "lu_switch sink msg ses p =
     (case mCurrentState p of
        LU_INIT \<Rightarrow>
          if messagePD msg = MobilityManagement \<or> messagePD msg = RadioResource
          then stay ses (lu_transitionTo LU_IDENTITY_CHECK p) else stay ses p
      | LU_IDENTITY_CHECK \<Rightarrow>
          if (case ses of Some s \<Rightarrow> mi_isTMSI (mIdentity (ses_context s)) | None \<Rightarrow> False)
          then stay ses (lu_transitionTo LU_AUTH_CHECK p)
          else respond RT_IdentityRequest sink msg ses (lu_transitionTo LU_REQUEST_IDENTITY p)
      | LU_REQUEST_IDENTITY \<Rightarrow>
          if messagePD msg = MobilityManagement \<and> messageMTI msg = MTI_IdentityResponse
          then stay ses (lu_transitionTo LU_AUTH_CHECK p) else stay ses p
      | LU_AUTH_CHECK \<Rightarrow>
          if lu_hasRand p
          then respond RT_AuthenticationRequest sink msg ses
                 (startTimer T3106 3000 (lu_transitionTo LU_SEND_AUTH p))
          else stay ses (lu_transitionTo LU_LU_REQUEST p)
      | LU_SEND_AUTH \<Rightarrow> stay ses (lu_transitionTo LU_WAIT_AUTH p)
      | LU_WAIT_AUTH \<Rightarrow>
          if messagePD msg = MobilityManagement \<and> messageMTI msg = MTI_AuthenticationResponse
          then lu_verify sink msg ses (lu_transitionTo LU_VERIFY_AUTH p) else stay ses p
      | LU_VERIFY_AUTH \<Rightarrow> stay ses p
      | LU_LU_REQUEST \<Rightarrow> lu_request ses p
      | LU_WAITING_EXTERNAL \<Rightarrow> stay ses p
      | LU_SEND_ACCEPT \<Rightarrow>
          with_final PT_LocationUpdate ''accept_sent''
            (respond RT_LocationUpdatingAccept sink msg ses (mixin_complete lu_doComplete p))
      | LU_SEND_REJECT \<Rightarrow>
          with_final PT_LocationUpdate ''reject_sent''
            (respond RT_LocationUpdatingReject sink msg ses (mixin_fail lu_doFail p))
      | LU_COMPLETED \<Rightarrow> stay ses p
      | LU_FAILED \<Rightarrow> stay ses p)"

definition lu_feed ::
  "bool \<Rightarrow> ParsedMessage \<Rightarrow> Session option \<Rightarrow> LocationUpdateProcedure \<Rightarrow> LocationUpdateProcedure FeedOut" where
  "lu_feed sink msg ses p = report_terminal PT_LocationUpdate (lu_switch sink msg ses p)"

definition lu_challenge ::
  "AuthChallenge \<Rightarrow> Session option \<Rightarrow> LocationUpdateProcedure \<Rightarrow> LocationUpdateProcedure FeedOut" where
  "lu_challenge chal ses p =
     (let p1 = p\<lparr>lu_rand := ac_rand chal, lu_hasRand := True,
                 lu_expectedSRES := ac_expectedSres chal, lu_hasExpectedSRES := True\<rparr>;
          ses1 = ses_respond (\<lambda>r. r\<lparr>rc_rand := ac_rand chal, rc_hasRand := True\<rparr>) ses
      in if mCurrentState p1 = LU_AUTH_CHECK \<and> lu_hasRand p1
         then signal RT_AuthenticationRequest ses1 (startTimer T3106 3000 (lu_transitionTo LU_SEND_AUTH p1))
         else stay ses1 p1)"

definition lu_decide ::
  "VLRDecision \<Rightarrow> Session option \<Rightarrow> LocationUpdateProcedure \<Rightarrow> LocationUpdateProcedure FeedOut" where
  "lu_decide vlr ses p =
     (if mCurrentState p = LU_WAITING_EXTERNAL
      then (let p1 = stopTimer p;
                ses1 = ses_respond (\<lambda>r. r\<lparr>rc_newTmsi := vlr_newTmsi vlr, rc_mmCause := vlr_rejectCause vlr\<rparr>) ses
            in if vlr_accept vlr
               then with_final PT_LocationUpdate ''vlr_accept''
                      (signal RT_LocationUpdatingAccept ses1
                        (mixin_complete lu_doComplete
                          (lu_transitionTo LU_SEND_ACCEPT (p1\<lparr>lu_newTmsi := vlr_newTmsi vlr\<rparr>))))
               else with_final PT_LocationUpdate ''vlr_reject''
                      (signal RT_LocationUpdatingReject ses1
                        (mixin_fail lu_doFail
                          (lu_transitionTo LU_SEND_REJECT (p1\<lparr>lu_rejectCause := vlr_rejectCause vlr\<rparr>)))))
      else stay ses p)"

definition lu_feedExternalTyped ::
  "ExternalData \<Rightarrow> Session option \<Rightarrow> LocationUpdateProcedure \<Rightarrow> LocationUpdateProcedure FeedOut" where
  "lu_feedExternalTyped d ses p =
     (case d of
        ExtAuthChallenge chal \<Rightarrow> lu_challenge chal ses p
      | ExtVLRDecision vlr \<Rightarrow> lu_decide vlr ses p
      | _ \<Rightarrow> stay ses p)"

definition lu_tick :: "int \<Rightarrow> LocationUpdateProcedure \<Rightarrow> ProcedureStepResult \<times> LocationUpdateProcedure" where
  "lu_tick = doTick lu_doFail PT_LocationUpdate"

definition lu_cancel :: "LocationUpdateProcedure \<Rightarrow> LocationUpdateProcedure" where
  "lu_cancel = doCancel lu_doFail"

lemmas lu_defs = lu_procState_def lu_transitionTo_def lu_doFail_def lu_doComplete_def
  lu_feed_def lu_tick_def lu_cancel_def
  lu_reject_def lu_verify_def lu_request_def lu_switch_def lu_challenge_def lu_decide_def
  lu_feedExternalTyped_def

interpretation lu: mixin_procedure LU_COMPLETED LU_FAILED "\<lambda>_. True" PT_LocationUpdate
  lu_feed lu_feedExternalTyped lu_tick lu_cancel
proof
  fix p :: LocationUpdateProcedure and sink msg d ses delta
  show "fo_calls (lu_feedExternalTyped d ses p) = []"
    by (cases d) (simp_all add: lu_defs mixin Let_def)
  assume p: "mixin_inv LU_COMPLETED LU_FAILED p" "True"
  note t = inv_state [OF p(1)]
  show "step_ok LU_COMPLETED LU_FAILED (\<lambda>_. True) PT_LocationUpdate p (fo_result (lu_feed sink msg ses p))
      (fo_proc (lu_feed sink msg ses p)) \<and> calls_ok sink msg (lu_feed sink msg ses p)"
    using p t by (cases "mCurrentState p")
      (simp_all add: lu_defs mixin_fail_def mixin_complete_def mixin_rules Let_def split: if_split MessageBody.split option.split)
  show "step_ok LU_COMPLETED LU_FAILED (\<lambda>_. True) PT_LocationUpdate p (fo_result (lu_feedExternalTyped d ses p))
      (fo_proc (lu_feedExternalTyped d ses p))"
    using p t by (cases d; cases "mCurrentState p")
      (simp_all add: lu_defs mixin_fail_def mixin_complete_def mixin_rules Let_def split: if_split)
  show "step_ok LU_COMPLETED LU_FAILED (\<lambda>_. True) PT_LocationUpdate p (fst (lu_tick delta p))
      (snd (lu_tick delta p)) \<and> (\<not> mTimerRunning p \<longrightarrow> lu_tick delta p = (step0, p))"
    unfolding lu_tick_def using p by (intro doTick_ok) (simp_all add: lu_doFail_def)
  show "mixin_inv LU_COMPLETED LU_FAILED (lu_cancel p) \<and> True \<and> mProcState (lu_cancel p) = PS_Failed"
    using doCancel_ok [OF p(1), of lu_doFail] by (simp add: lu_defs)
qed

section \<open>Soundness of authentication\<close>

text \<open>The response expected after the events: that of the last challenge.\<close>

fun expects :: "ProcEvent \<Rightarrow> bytes option \<Rightarrow> bytes option" where
  "expects (EvExt (ExtAuthChallenge chal)) e = Some (ac_expectedSres chal)"
| "expects _ e = e"

definition last_expected :: "ProcEvent list \<Rightarrow> bytes option" where
  "last_expected evs = fold expects evs None"

text \<open>Some message of the run carries the response that was expected at that point.\<close>

definition verified :: "ProcEvent list \<Rightarrow> bool" where
  "verified evs \<longleftrightarrow> (\<exists>pre sink msg post e. evs = pre @ EvMsg sink msg # post \<and> last_expected pre = Some e \<and>
     messagePD msg = MobilityManagement \<and> messageBody msg = AuthenticationResponseBody (sres_of e))"

lemma last_expected_snoc: "last_expected (evs @ [ev]) = expects ev (last_expected evs)"
  by (simp add: last_expected_def)

lemma verified_snoc: "verified evs \<Longrightarrow> verified (evs @ [ev])"
  unfolding verified_def by (metis append_Cons append_assoc)

lemma verified_now:
  "last_expected evs = Some e \<Longrightarrow> messagePD msg = MobilityManagement \<Longrightarrow>
   messageBody msg = AuthenticationResponseBody (sres_of e) \<Longrightarrow> verified (evs @ [EvMsg sink msg])"
  unfolding verified_def by blast

abbreviation auth_run :: "ProcEvent list \<Rightarrow> Session option \<Rightarrow> Session option \<times> AuthenticationProcedure" where
  "auth_run evs ses \<equiv>
     snd (proc_run auth_feed auth_feedExternalTyped auth_tick evs (ses, mkAuthentication))"

definition auth_trace :: "ProcEvent list \<Rightarrow> AuthenticationProcedure \<Rightarrow> bool" where
  "auth_trace evs p \<longleftrightarrow>
     (case last_expected evs of
        None \<Rightarrow> mCurrentState p = Auth_INIT \<or> mCurrentState p = Auth_FAILED
      | Some e \<Rightarrow> auth_hasExpectedSRES p \<and> auth_expectedSRES p = e) \<and>
     (mCurrentState p = Auth_COMPLETED \<longrightarrow> verified evs)"

lemma auth_trace_feed:
  "auth_trace evs p \<Longrightarrow> auth_trace (evs @ [EvMsg sink msg]) (fo_proc (auth_feed sink msg ses p))"
  by (cases "mCurrentState p")
    (auto simp: auth_trace_def last_expected_snoc auth_defs mixin_fail_def mixin_complete_def conclude_def
      stay_def respond_def mixin_rules intro: verified_snoc verified_now split: option.splits MessageBody.splits)

lemma auth_trace_ext:
  "auth_trace evs p \<Longrightarrow> auth_trace (evs @ [EvExt d]) (fo_proc (auth_feedExternalTyped d ses p))"
  by (cases d)
    (auto simp: auth_trace_def last_expected_snoc auth_defs Let_def stay_def signal_def mixin_rules
      intro: verified_snoc split: option.splits)

lemma auth_trace_tick:
  "auth_trace evs p \<Longrightarrow> auth_trace (evs @ [EvTick d]) (snd (auth_tick d p))"
  by (auto simp: auth_trace_def last_expected_snoc auth_tick_def doTick_def Let_def auth_doFail_def
      mixin_rules intro: verified_snoc split: option.splits)

lemma auth_run_trace: "auth_trace evs (snd (auth_run evs ses))"
proof (induction evs rule: rev_induct)
  case Nil
  show ?case by (simp add: auth_trace_def last_expected_def mkAuthentication_def)
next
  case (snoc ev evs)
  then show ?case
    by (cases ev) (simp_all add: proc_run_snoc proc_step_def Let_def auth_trace_feed auth_trace_ext auth_trace_tick)
qed

text \<open>
  C18. Authentication is sound: whatever challenges, messages and clock ticks a new authentication
  procedure is given, if it ends as completed then one of the messages was a response whose signed
  response, as a big-endian number, is the one expected by the last challenge before it. In
  particular the branch of the code that completes without a check is never taken.
\<close>

theorem authentication_sound:
  assumes "mProcState (snd (snd (proc_run auth_feed auth_feedExternalTyped auth_tick evs (ses, mkAuthentication)))) =
    PS_Completed"
  shows "\<exists>pre sink msg post e. evs = pre @ EvMsg sink msg # post \<and> last_expected pre = Some e \<and>
     messagePD msg = MobilityManagement \<and> messageBody msg = AuthenticationResponseBody (sres_of e)"
proof -
  let ?p = "snd (auth_run evs ses)"
  have "mixin_inv Auth_COMPLETED Auth_FAILED ?p \<and> auth_extra ?p"
    by (rule auth.run_inv) (simp add: mkAuthentication_def mixin_inv_def auth_extra_def)
  then have "mCurrentState ?p = Auth_COMPLETED" using assms by (simp add: mixin_inv_def)
  then show ?thesis using auth_run_trace [of evs ses] by (simp add: auth_trace_def verified_def)
qed

definition auth_example :: "ProcEvent list" where
  "auth_example =
     (let resp = \<lparr>messagePD = MobilityManagement, messageMTI = MTI_AuthenticationResponse, messageTI = 0,
                  messageBody = AuthenticationResponseBody 0xABCD1234\<rparr>
      in [EvExt (ExtAuthChallenge \<lparr>ac_rand = replicate 16 7, ac_expectedSres = [0xAB, 0xCD, 0x12, 0x34]\<rparr>),
          EvMsg True resp, EvMsg True resp])"

theorem authentication_sound_witness:
  "mProcState (snd (snd (proc_run auth_feed auth_feedExternalTyped auth_tick auth_example (None, mkAuthentication)))) =
     PS_Completed \<and>
   (\<exists>pre sink msg post e. auth_example = pre @ EvMsg sink msg # post \<and> last_expected pre = Some e \<and>
     messagePD msg = MobilityManagement \<and> messageBody msg = AuthenticationResponseBody (sres_of e))"
proof -
  have fin: "mProcState (snd (snd (proc_run auth_feed auth_feedExternalTyped auth_tick auth_example
      (None, mkAuthentication)))) = PS_Completed"
    by code_simp
  show ?thesis using fin authentication_sound [OF fin] by blast
qed

section \<open>Soundness of the location update\<close>

lemma lu_projections [simp]:
  "lu_hasRand (moveTo ps s p) = lu_hasRand p" "lu_hasRand (startTimer i d p) = lu_hasRand p"
  "lu_hasRand (stopTimer p) = lu_hasRand p"
  "lu_hasExpectedSRES (moveTo ps s p) = lu_hasExpectedSRES p"
  "lu_hasExpectedSRES (startTimer i d p) = lu_hasExpectedSRES p"
  "lu_hasExpectedSRES (stopTimer p) = lu_hasExpectedSRES p"
  "lu_expectedSRES (moveTo ps s p) = lu_expectedSRES p"
  "lu_expectedSRES (startTimer i d p) = lu_expectedSRES p"
  "lu_expectedSRES (stopTimer p) = lu_expectedSRES p"
  by (simp_all add: mixin)

definition accepted :: "ProcEvent list \<Rightarrow> bool" where
  "accepted evs \<longleftrightarrow> (\<exists>vlr. EvExt (ExtVLRDecision vlr) \<in> set evs \<and> vlr_accept vlr)"

text \<open>
  What is known of a location update after the events: it is completed only after a positive
  decision, and when a challenge was known from the beginning, it is past authentication only
  after a correct response.
\<close>

definition lu_past_auth :: "LocationUpdateState \<Rightarrow> bool" where
  "lu_past_auth s \<longleftrightarrow> s = LU_LU_REQUEST \<or> s = LU_WAITING_EXTERNAL \<or> s = LU_COMPLETED"

definition lu_trace :: "ProcEvent list \<Rightarrow> LocationUpdateProcedure \<Rightarrow> bool" where
  "lu_trace evs p \<longleftrightarrow>
     mCurrentState p \<noteq> LU_SEND_ACCEPT \<and> mCurrentState p \<noteq> LU_VERIFY_AUTH \<and>
     (mCurrentState p = LU_COMPLETED \<longrightarrow> accepted evs) \<and>
     (case last_expected evs of
        None \<Rightarrow> \<not> lu_hasRand p
      | Some e \<Rightarrow> lu_hasRand p \<and> lu_hasExpectedSRES p \<and> lu_expectedSRES p = e) \<and>
     (last_expected (take 1 evs) \<noteq> None \<longrightarrow> lu_past_auth (mCurrentState p) \<longrightarrow> verified evs)"

lemma accepted_snoc: "accepted (evs @ [ev]) \<longleftrightarrow> accepted evs \<or> (\<exists>vlr. ev = EvExt (ExtVLRDecision vlr) \<and> vlr_accept vlr)"
  by (auto simp: accepted_def)

lemma expects_mono: "e \<noteq> None \<Longrightarrow> fold expects evs e \<noteq> None"
proof (induction evs arbitrary: e)
  case (Cons ev evs)
  have "expects ev e \<noteq> None" using Cons.prems by (cases "(ev, e)" rule: expects.cases) auto
  then show ?case using Cons.IH by simp
qed simp

lemma first_expected:
  "last_expected (take 1 (evs @ [ev])) \<noteq> None \<Longrightarrow> evs \<noteq> [] \<Longrightarrow> last_expected (take 1 evs) \<noteq> None \<and> last_expected evs \<noteq> None"
  using expects_mono by (cases evs) (auto simp: last_expected_def)

lemmas lu_trace_simps = lu_trace_def last_expected_snoc accepted_snoc lu_past_auth_def stay_def respond_def
  signal_def await_def with_final_def report_terminal_def Let_def mixin_rules

lemma lu_trace_feed:
  assumes "lu_trace evs p" and "evs = [] \<Longrightarrow> mCurrentState p = LU_INIT"
  shows "lu_trace (evs @ [EvMsg sink msg]) (fo_proc (lu_feed sink msg ses p))"
proof (cases "evs = []")
  case True
  then show ?thesis using assms by (simp add: lu_trace_simps lu_feed_def lu_switch_def lu_transitionTo_def last_expected_def)
next
  case False
  note first = first_expected [OF _ False, of "EvMsg sink msg"]
  have "fo_proc (lu_feed sink msg ses p) = fo_proc (lu_switch sink msg ses p)"
    by (simp add: lu_feed_def report_terminal_def Let_def)
  then show ?thesis
    using assms(1) first
    by (cases "mCurrentState p")
      (auto simp: lu_trace_simps lu_switch_def lu_verify_def lu_reject_def lu_request_def lu_transitionTo_def
        lu_doFail_def lu_doComplete_def mixin_fail_def mixin_complete_def
        intro: verified_snoc verified_now split: option.splits MessageBody.splits)
qed

lemma lu_trace_ext:
  assumes "lu_trace evs p" and "evs = [] \<Longrightarrow> mCurrentState p = LU_INIT"
  shows "lu_trace (evs @ [EvExt d]) (fo_proc (lu_feedExternalTyped d ses p))"
proof (cases "evs = []")
  case True
  then show ?thesis
    using assms by (cases d) (auto simp: lu_trace_simps lu_feedExternalTyped_def lu_challenge_def lu_decide_def
        last_expected_def split: option.splits)
next
  case False
  note first = first_expected [OF _ False, of "EvExt d"]
  show ?thesis
    using assms(1) first
    by (cases d; cases "mCurrentState p")
      (auto simp: lu_trace_simps lu_feedExternalTyped_def lu_challenge_def lu_decide_def lu_transitionTo_def
        lu_doFail_def lu_doComplete_def mixin_fail_def mixin_complete_def intro: verified_snoc split: option.splits)
qed

lemma lu_trace_tick:
  assumes "lu_trace evs p" and "evs = [] \<Longrightarrow> mCurrentState p = LU_INIT \<and> \<not> mTimerRunning p"
  shows "lu_trace (evs @ [EvTick d]) (snd (lu_tick d p))"
proof (cases "evs = []")
  case True
  then show ?thesis using assms by (simp add: lu_trace_simps lu_tick_def doTick_def last_expected_def)
next
  case False
  note first = first_expected [OF _ False, of "EvTick d"]
  show ?thesis
    using assms(1) first
    by (auto simp: lu_trace_simps lu_tick_def doTick_def lu_doFail_def intro: verified_snoc split: option.splits)
qed

lemma lu_run_trace:
  "lu_trace evs (snd (snd (proc_run lu_feed lu_feedExternalTyped lu_tick evs (ses, mkLocationUpdate))))"
proof (induction evs rule: rev_induct)
  case Nil
  show ?case by (simp add: lu_trace_def last_expected_def mkLocationUpdate_def lu_past_auth_def)
next
  case (snoc ev evs)
  show ?case
    using lu_trace_feed [OF snoc.IH] lu_trace_ext [OF snoc.IH] lu_trace_tick [OF snoc.IH]
    by (cases ev) (simp_all add: proc_run_snoc proc_step_def Let_def mkLocationUpdate_def)
qed

text \<open>
  C19. A location update is accepted only on a decision of the visitor location register: if a new
  location update procedure ends as completed, a positive decision was among its events. When the
  very first event is an authentication challenge, a message with the signed response expected at
  its time was received as well, so the authentication step cannot be bypassed.
\<close>

theorem location_update_sound:
  assumes "mProcState (snd (snd (proc_run lu_feed lu_feedExternalTyped lu_tick evs (ses, mkLocationUpdate)))) =
    PS_Completed"
  shows "(\<exists>vlr. EvExt (ExtVLRDecision vlr) \<in> set evs \<and> vlr_accept vlr) \<and>
    (\<forall>chal rest. evs = EvExt (ExtAuthChallenge chal) # rest \<longrightarrow>
      (\<exists>pre sink msg post e. evs = pre @ EvMsg sink msg # post \<and> last_expected pre = Some e \<and>
         messagePD msg = MobilityManagement \<and> messageBody msg = AuthenticationResponseBody (sres_of e)))"
proof -
  let ?p = "snd (snd (proc_run lu_feed lu_feedExternalTyped lu_tick evs (ses, mkLocationUpdate)))"
  have "mixin_inv LU_COMPLETED LU_FAILED ?p \<and> True"
    by (rule lu.run_inv) (simp add: mkLocationUpdate_def mixin_inv_def)
  then have "mCurrentState ?p = LU_COMPLETED" using assms by (simp add: mixin_inv_def)
  then have "accepted evs \<and> (last_expected (take 1 evs) \<noteq> None \<longrightarrow> verified evs)"
    using lu_run_trace [of evs ses] by (simp add: lu_trace_def lu_past_auth_def)
  then show ?thesis by (auto simp: accepted_def verified_def last_expected_def)
qed

definition lu_example :: "ProcEvent list" where
  "lu_example =
     (let msg = (\<lambda>mti body. EvMsg False \<lparr>messagePD = MobilityManagement, messageMTI = mti, messageTI = 0,
                   messageBody = body\<rparr>);
          resp = msg MTI_AuthenticationResponse (AuthenticationResponseBody 0xABCD1234)
      in [EvExt (ExtAuthChallenge \<lparr>ac_rand = replicate 16 7, ac_expectedSres = [0xAB, 0xCD, 0x12, 0x34]\<rparr>),
          msg MTI_CMServiceRequest OtherBody, msg MTI_CMServiceRequest OtherBody,
          msg MTI_IdentityResponse OtherBody, resp, resp, resp, resp,
          EvExt (ExtVLRDecision \<lparr>vlr_accept = True, vlr_newTmsi = Some 0x12345678, vlr_rejectCause = 0\<rparr>)])"

lemma lu_feed_projections:
  "fo_proc (lu_feed sink msg ses p) = fo_proc (lu_switch sink msg ses p)"
  "fo_session (lu_feed sink msg ses p) = fo_session (lu_switch sink msg ses p)"
  by (simp_all add: lu_feed_def report_terminal_def Let_def)

lemma lu_step_simps:
  "snd (proc_step lu_feed lu_feedExternalTyped lu_tick (EvMsg sink msg) (ses, p)) =
     (fo_session (lu_switch sink msg ses p), fo_proc (lu_switch sink msg ses p))"
  "snd (proc_step lu_feed lu_feedExternalTyped lu_tick (EvExt (ExtAuthChallenge chal)) (ses, p)) =
     (fo_session (lu_challenge chal ses p), fo_proc (lu_challenge chal ses p))"
  "snd (proc_step lu_feed lu_feedExternalTyped lu_tick (EvExt (ExtVLRDecision v)) (ses, p)) =
     (fo_session (lu_decide v ses p), fo_proc (lu_decide v ses p))"
  by (simp_all add: proc_step_def Let_def lu_feed_projections lu_feedExternalTyped_def)

lemma lu_example_completes:
  "mProcState (snd (snd (proc_run lu_feed lu_feedExternalTyped lu_tick lu_example (None, mkLocationUpdate)))) =
     PS_Completed"
proof -
  have "sres_of [0xAB, 0xCD, 0x12, 0x34] = 0xABCD1234" by code_simp
  moreover have "mCurrentState mkLocationUpdate = LU_INIT" by (simp add: mkLocationUpdate_def)
  ultimately show ?thesis
    unfolding lu_example_def
    by (simp add: Let_def snd_proc_run lu_step_simps lu_switch_def lu_verify_def lu_request_def lu_challenge_def
        lu_decide_def lu_transitionTo_def lu_doComplete_def mixin_complete_def with_final_def
        stay_def respond_def signal_def await_def mixin_rules ses_respond_def del: proc_run.simps)
qed

theorem location_update_sound_witness:
  "mProcState (snd (snd (proc_run lu_feed lu_feedExternalTyped lu_tick lu_example (None, mkLocationUpdate)))) =
     PS_Completed \<and>
   (\<exists>vlr. EvExt (ExtVLRDecision vlr) \<in> set lu_example \<and> vlr_accept vlr) \<and>
   (\<exists>pre sink msg post e. lu_example = pre @ EvMsg sink msg # post \<and> last_expected pre = Some e \<and>
      messagePD msg = MobilityManagement \<and> messageBody msg = AuthenticationResponseBody (sres_of e))"
proof -
  note fin = lu_example_completes
  have "\<exists>chal rest. lu_example = EvExt (ExtAuthChallenge chal) # rest"
    by (simp add: lu_example_def Let_def)
  then show ?thesis using fin location_update_sound [OF fin] by blast
qed

text \<open>
  The reason of a reject after a failed authentication is lost: when the signed response is
  wrong, the procedure asks for a location updating reject and notes the cause MAC failure for
  itself only. The session, from which the reject is built, keeps the cause it had, which is zero
  for a session whose response parameters were reset.
\<close>

theorem mac_failure_cause_lost:
  assumes "mCurrentState p = LU_WAIT_AUTH" and "lu_hasExpectedSRES p"
    and "messagePD msg = MobilityManagement" and "messageMTI msg = MTI_AuthenticationResponse"
    and "messageBody msg = AuthenticationResponseBody sres" and "sres \<noteq> sres_of (lu_expectedSRES p)"
  shows "responseToken (fo_result (lu_feed sink msg (Some s) p)) = RT_LocationUpdatingReject \<and>
    lu_rejectCause (fo_proc (lu_feed sink msg (Some s) p)) = MMCause_MAC_Failure \<and>
    fo_session (lu_feed sink msg (Some s) p) = Some s"
  using assms
  by (simp add: lu_feed_def lu_switch_def lu_verify_def lu_reject_def report_terminal_def Let_def respond_def
      lu_transitionTo_def moveTo_def lu_procState_def step0_def)

theorem mac_failure_cause_lost_witness:
  "let p = mkLocationUpdate\<lparr>mCurrentState := LU_WAIT_AUTH, lu_hasExpectedSRES := True\<rparr>;
       s = \<lparr>ses_context = context0, ses_response = response0\<rparr>;
       msg = \<lparr>messagePD = MobilityManagement, messageMTI = MTI_AuthenticationResponse, messageTI = 0,
             messageBody = AuthenticationResponseBody 1\<rparr>
   in responseToken (fo_result (lu_feed False msg (Some s) p)) = RT_LocationUpdatingReject \<and>
      lu_rejectCause (fo_proc (lu_feed False msg (Some s) p)) = MMCause_MAC_Failure \<and>
      fo_session (lu_feed False msg (Some s) p) = Some s \<and> rc_mmCause (ses_response s) = MMCause_Zero"
proof -
  let ?p = "mkLocationUpdate\<lparr>mCurrentState := LU_WAIT_AUTH, lu_hasExpectedSRES := True\<rparr>"
  let ?s = "\<lparr>ses_context = context0, ses_response = response0\<rparr>"
  let ?msg = "\<lparr>messagePD = MobilityManagement, messageMTI = MTI_AuthenticationResponse, messageTI = 0,
             messageBody = AuthenticationResponseBody 1\<rparr>"
  have "1 \<noteq> sres_of (replicate 4 0)" by code_simp
  then have "responseToken (fo_result (lu_feed False ?msg (Some ?s) ?p)) = RT_LocationUpdatingReject \<and>
      lu_rejectCause (fo_proc (lu_feed False ?msg (Some ?s) ?p)) = MMCause_MAC_Failure \<and>
      fo_session (lu_feed False ?msg (Some ?s) ?p) = Some ?s"
    by (intro mac_failure_cause_lost) (auto simp: mkLocationUpdate_def)
  moreover have "rc_mmCause (ses_response ?s) = MMCause_Zero" by (simp add: response0_def)
  ultimately show ?thesis unfolding Let_def by blast
qed

end
