(* ===== verification/Procedures_CC.thy ===== *)
theory Procedures_CC
  imports Procedure_Base
begin

text \<open>
  The call control procedures, from \<^verbatim>\<open>stack/procedures/\<close>: \<^verbatim>\<open>call_setup_mo\<close>, \<^verbatim>\<open>call_setup_mt\<close> and
  \<^verbatim>\<open>call_release\<close>, each with the interpretation that shows its contract.
\<close>

abbreviation MTI_AssignmentComplete :: int where "MTI_AssignmentComplete \<equiv> 0x29"

section \<open>Mobile originated call set-up\<close>

datatype CallSetupMOState =
    MO_INIT | MO_SERVICE_ACCEPT | MO_WAIT_SETUP | MO_PROCEEDING | MO_ASSIGN_TCH
  | MO_WAIT_ASSIGN_COMPLETE | MO_ALERTING | MO_CONNECT | MO_ACTIVE | MO_COMPLETED | MO_FAILED

record CallSetupMOProcedure = "CallSetupMOState Mixin" +
  mo_ti :: u8

definition mkCallSetupMO :: CallSetupMOProcedure where
  "mkCallSetupMO =
     \<lparr>mCurrentState = MO_INIT, mProcState = PS_Initiated, mTimerRemaining = 0,
      mCurrentTimer = Timer_Unknown, mTimerRunning = False,
      mo_ti = 0\<rparr>"

definition mo_matches :: "ParsedMessage \<Rightarrow> bool" where
  "mo_matches msg =
     (let pd = messagePD msg; mti = messageMTI msg
      in if pd = MobilityManagement then mti = MTI_CMServiceRequest
      else if pd = CallControl then mti = MTI_Setup \<or> mti = MTI_ConnectAcknowledge
      else if pd = RadioResource then mti = MTI_AssignmentComplete
      else False)"

definition mo_procState :: "CallSetupMOState \<Rightarrow> ProcedureState" where
  "mo_procState s =
     (if s = MO_COMPLETED then PS_Completed else if s = MO_FAILED then PS_Failed else PS_InProgress)"

definition mo_transitionTo :: "CallSetupMOState \<Rightarrow> CallSetupMOProcedure \<Rightarrow> CallSetupMOProcedure" where
  "mo_transitionTo = moveTo mo_procState"

definition mo_doFail :: "CallSetupMOProcedure \<Rightarrow> CallSetupMOProcedure" where
  "mo_doFail p = p\<lparr>mCurrentState := MO_FAILED, mProcState := PS_Failed\<rparr>"

definition mo_doComplete :: "CallSetupMOProcedure \<Rightarrow> CallSetupMOProcedure" where
  "mo_doComplete p = p\<lparr>mCurrentState := MO_COMPLETED, mProcState := PS_Completed\<rparr>"

lemma mo_field_inv [simp]: "mixin_inv c f (p\<lparr>mo_ti := t\<rparr>) = mixin_inv c f p"
  by (simp add: mixin_inv_def)

text \<open>A SETUP gives the transaction identifier, which is written to the session as well.\<close>

definition mo_setup ::
  "bool \<Rightarrow> ParsedMessage \<Rightarrow> Session option \<Rightarrow> CallSetupMOProcedure \<Rightarrow> CallSetupMOProcedure FeedOut" where
  "mo_setup sink msg ses p =
     (let (ses1, p1) =
            (case messageBody msg of
               SetupBody ti \<Rightarrow>
                 (ses_respond (\<lambda>r. r\<lparr>rc_ti := ti, rc_ccCause := CCCause_Normal_Call_Clearing\<rparr>) ses, p\<lparr>mo_ti := ti\<rparr>)
             | _ \<Rightarrow> (ses, p))
      in respond RT_CallProceeding sink msg ses1 (mo_transitionTo MO_PROCEEDING (startTimer T3101 3000 p1)))"

definition mo_feed ::
  "bool \<Rightarrow> ParsedMessage \<Rightarrow> Session option \<Rightarrow> CallSetupMOProcedure \<Rightarrow> CallSetupMOProcedure FeedOut" where
  "mo_feed sink msg ses p =
     (let pd = messagePD msg; mti = messageMTI msg
      in case mCurrentState p of
        MO_INIT \<Rightarrow>
          if pd = MobilityManagement \<and> mti = MTI_CMServiceRequest
          then respond RT_CMServiceAccept sink msg ses (mo_transitionTo MO_SERVICE_ACCEPT p)
          else if pd = CallControl \<and> mti = MTI_Setup then mo_setup sink msg ses p
          else stay ses p
      | MO_SERVICE_ACCEPT \<Rightarrow> stay ses (mo_transitionTo MO_WAIT_SETUP p)
      | MO_WAIT_SETUP \<Rightarrow>
          if pd = CallControl \<and> mti = MTI_Setup then mo_setup sink msg ses p else stay ses p
      | MO_PROCEEDING \<Rightarrow>
          respond RT_AssignmentCommand sink msg ses (startTimer T3101 3000 (mo_transitionTo MO_ASSIGN_TCH p))
      | MO_ASSIGN_TCH \<Rightarrow> stay ses (mo_transitionTo MO_WAIT_ASSIGN_COMPLETE p)
      | MO_WAIT_ASSIGN_COMPLETE \<Rightarrow>
          if pd = RadioResource \<and> mti = MTI_AssignmentComplete
          then respond RT_Alerting sink msg ses (mo_transitionTo MO_ALERTING p) else stay ses p
      | MO_ALERTING \<Rightarrow> respond RT_Connect sink msg ses (mo_transitionTo MO_CONNECT p)
      | MO_CONNECT \<Rightarrow> respond RT_ConnectAcknowledge sink msg ses (mo_transitionTo MO_ACTIVE p)
      | MO_ACTIVE \<Rightarrow>
          if pd = CallControl \<and> mti = MTI_ConnectAcknowledge
          then conclude A_Completed PT_CallSetup_MO ''call_active'' ses (mixin_complete mo_doComplete p)
          else stay ses p
      | MO_COMPLETED \<Rightarrow> stay ses p
      | MO_FAILED \<Rightarrow> stay ses p)"

definition mo_tick :: "int \<Rightarrow> CallSetupMOProcedure \<Rightarrow> ProcedureStepResult \<times> CallSetupMOProcedure" where
  "mo_tick = doTick mo_doFail PT_CallSetup_MO"

definition mo_cancel :: "CallSetupMOProcedure \<Rightarrow> CallSetupMOProcedure" where
  "mo_cancel = doCancel mo_doFail"

lemmas mo_defs = mo_procState_def mo_transitionTo_def mo_doFail_def mo_doComplete_def
  mo_feed_def mo_tick_def mo_cancel_def
  mo_setup_def

interpretation mo: mixin_procedure MO_COMPLETED MO_FAILED "\<lambda>_. True" PT_CallSetup_MO
  mo_feed base_feedExternalTyped mo_tick mo_cancel
proof
  fix p :: CallSetupMOProcedure and sink msg d ses delta
  show "fo_calls (base_feedExternalTyped d ses p) = []"
    by (simp add: mixin)
  assume p: "mixin_inv MO_COMPLETED MO_FAILED p" "True"
  note t = inv_state [OF p(1)]
  show "step_ok MO_COMPLETED MO_FAILED (\<lambda>_. True) PT_CallSetup_MO p (fo_result (mo_feed sink msg ses p))
      (fo_proc (mo_feed sink msg ses p)) \<and> calls_ok sink msg (mo_feed sink msg ses p)"
    using p t by (cases "mCurrentState p")
      (simp_all add: mo_defs mixin_fail_def mixin_complete_def mixin_rules Let_def split: if_split MessageBody.split)
  show "step_ok MO_COMPLETED MO_FAILED (\<lambda>_. True) PT_CallSetup_MO p (fo_result (base_feedExternalTyped d ses p))
      (fo_proc (base_feedExternalTyped d ses p))"
    using p by (simp add: base_feedExternalTyped_def stay_ok)
  show "step_ok MO_COMPLETED MO_FAILED (\<lambda>_. True) PT_CallSetup_MO p (fst (mo_tick delta p))
      (snd (mo_tick delta p)) \<and> (\<not> mTimerRunning p \<longrightarrow> mo_tick delta p = (step0, p))"
    unfolding mo_tick_def using p by (intro doTick_ok) (simp_all add: mo_doFail_def)
  show "mixin_inv MO_COMPLETED MO_FAILED (mo_cancel p) \<and> True \<and> mProcState (mo_cancel p) = PS_Failed"
    using doCancel_ok [OF p(1), of mo_doFail] by (simp add: mo_defs)
qed

section \<open>Mobile terminated call set-up\<close>

datatype CallSetupMTState =
    MT_INIT | MT_PAGE | MT_WAIT_PAGE_RESPONSE | MT_ASSIGN_SDCCH | MT_SEND_SETUP | MT_WAIT_CONFIRMED
  | MT_ASSIGN_TCH | MT_WAIT_ASSIGN_COMPLETE | MT_ALERTING | MT_CONNECT | MT_ACTIVE | MT_COMPLETED
  | MT_FAILED

record CallSetupMTProcedure = "CallSetupMTState Mixin" +
  mt_calledNumber :: string
  mt_ti :: u8
  mt_pageAttempt :: u8

definition MT_MAX_PAGE_ATTEMPTS :: u8 where "MT_MAX_PAGE_ATTEMPTS = 3"

definition mkCallSetupMT :: "string \<Rightarrow> CallSetupMTProcedure" where
  "mkCallSetupMT number =
     \<lparr>mCurrentState = MT_INIT, mProcState = PS_Initiated, mTimerRemaining = 0,
      mCurrentTimer = Timer_Unknown, mTimerRunning = False,
      mt_calledNumber = number, mt_ti = 0, mt_pageAttempt = 0\<rparr>"

definition mt_matches :: "ParsedMessage \<Rightarrow> bool" where
  "mt_matches msg =
     (let pd = messagePD msg; mti = messageMTI msg
      in if pd = RadioResource then mti = MTI_PagingResponse \<or> mti = MTI_AssignmentComplete
      else if pd = CallControl then mti = MTI_CallConfirmed \<or> mti = MTI_ConnectAcknowledge
      else False)"

definition mt_procState :: "CallSetupMTState \<Rightarrow> ProcedureState" where
  "mt_procState s =
     (if s = MT_COMPLETED then PS_Completed else if s = MT_FAILED then PS_Failed else PS_InProgress)"

definition mt_transitionTo :: "CallSetupMTState \<Rightarrow> CallSetupMTProcedure \<Rightarrow> CallSetupMTProcedure" where
  "mt_transitionTo = moveTo mt_procState"

definition mt_doFail :: "CallSetupMTProcedure \<Rightarrow> CallSetupMTProcedure" where
  "mt_doFail p = p\<lparr>mCurrentState := MT_FAILED, mProcState := PS_Failed\<rparr>"

definition mt_doComplete :: "CallSetupMTProcedure \<Rightarrow> CallSetupMTProcedure" where
  "mt_doComplete p = p\<lparr>mCurrentState := MT_COMPLETED, mProcState := PS_Completed\<rparr>"

lemma mt_field_inv [simp]: "mixin_inv c f (p\<lparr>mt_pageAttempt := n\<rparr>) = mixin_inv c f p"
  by (simp add: mixin_inv_def)

text \<open>The number to call is cut at 19 characters, the size of the array less its terminator.\<close>

definition mt_expose_number :: "CallSetupMTProcedure \<Rightarrow> Session option \<Rightarrow> Session option" where
  "mt_expose_number p ses =
     (if mt_calledNumber p = [] then ses
      else ses_respond (\<lambda>r. r\<lparr>rc_ti := mt_ti p, rc_calledNumber := take 19 (mt_calledNumber p),
                             rc_hasCalledNumber := True\<rparr>) ses)"

definition mt_feed ::
  "bool \<Rightarrow> ParsedMessage \<Rightarrow> Session option \<Rightarrow> CallSetupMTProcedure \<Rightarrow> CallSetupMTProcedure FeedOut" where
  "mt_feed sink msg ses p =
     (let pd = messagePD msg; mti = messageMTI msg
      in case mCurrentState p of
        MT_INIT \<Rightarrow> stay ses p
      | MT_PAGE \<Rightarrow>
          respond RT_PagingRequestType1 sink msg ses
            (mt_transitionTo MT_WAIT_PAGE_RESPONSE (startTimer T3109 5000 p))
      | MT_WAIT_PAGE_RESPONSE \<Rightarrow>
          if pd = RadioResource \<and> mti = MTI_PagingResponse
          then respond RT_ImmediateAssignment sink msg ses (mt_transitionTo MT_ASSIGN_SDCCH (stopTimer p))
          else stay ses p
      | MT_ASSIGN_SDCCH \<Rightarrow>
          respond RT_Setup sink msg (mt_expose_number p ses) (mt_transitionTo MT_SEND_SETUP p)
      | MT_SEND_SETUP \<Rightarrow>
          respond RT_Setup sink msg (mt_expose_number p ses)
            (mt_transitionTo MT_WAIT_CONFIRMED (startTimer T3101 3000 p))
      | MT_WAIT_CONFIRMED \<Rightarrow>
          if pd = CallControl \<and> mti = MTI_CallConfirmed
          then stay ses (mt_transitionTo MT_ASSIGN_TCH (stopTimer p)) else stay ses p
      | MT_ASSIGN_TCH \<Rightarrow>
          respond RT_AssignmentCommand sink msg ses
            (mt_transitionTo MT_WAIT_ASSIGN_COMPLETE (startTimer T3101 3000 p))
      | MT_WAIT_ASSIGN_COMPLETE \<Rightarrow>
          if pd = RadioResource \<and> mti = MTI_AssignmentComplete
          then respond RT_Alerting sink msg ses (mt_transitionTo MT_ALERTING (stopTimer p)) else stay ses p
      | MT_ALERTING \<Rightarrow> respond RT_Connect sink msg ses (mt_transitionTo MT_CONNECT p)
      | MT_CONNECT \<Rightarrow> respond RT_ConnectAcknowledge sink msg ses (mt_transitionTo MT_ACTIVE p)
      | MT_ACTIVE \<Rightarrow>
          if pd = CallControl \<and> mti = MTI_ConnectAcknowledge
          then conclude A_Completed PT_CallSetup_MT ''call_active'' ses (mixin_complete mt_doComplete p)
          else stay ses p
      | MT_COMPLETED \<Rightarrow> stay ses p
      | MT_FAILED \<Rightarrow> stay ses p)"

definition mt_feedExternalTyped ::
  "ExternalData \<Rightarrow> Session option \<Rightarrow> CallSetupMTProcedure \<Rightarrow> CallSetupMTProcedure FeedOut" where
  "mt_feedExternalTyped d ses p =
     (if mCurrentState p = MT_INIT
      then signal RT_PagingRequestType1
             (map_option (\<lambda>s. s\<lparr>ses_response := (ses_response s)
                \<lparr>rc_identity := mIdentity (ses_context s), rc_hasIdentity := True\<rparr>\<rparr>) ses)
             ((startTimer T3109 5000 (mt_transitionTo MT_PAGE p))\<lparr>mt_pageAttempt := 1\<rparr>)
      else stay ses p)"

definition mt_tick :: "int \<Rightarrow> CallSetupMTProcedure \<Rightarrow> ProcedureStepResult \<times> CallSetupMTProcedure" where
  "mt_tick delta p =
     (if \<not> mTimerRunning p then (step0, p)
      else let p1 = p\<lparr>mTimerRemaining := mTimerRemaining p - delta\<rparr>
      in if mTimerRemaining p1 \<le> 0
      then (let p2 = stopTimer p1
            in if mCurrentState p2 = MT_WAIT_PAGE_RESPONSE \<and> mt_pageAttempt p2 < MT_MAX_PAGE_ATTEMPTS
            then (step0, startTimer T3109 5000 (p2\<lparr>mt_pageAttempt := mt_pageAttempt p2 + 1\<rparr>))
            else let p3 = mixin_fail mt_doFail p2
                 in (finish A_Failed PT_CallSetup_MT ''timer_expired'' p3, p3))
      else (step0, p1))"

definition mt_cancel :: "CallSetupMTProcedure \<Rightarrow> CallSetupMTProcedure" where
  "mt_cancel = doCancel mt_doFail"

lemmas mt_defs = mt_procState_def mt_transitionTo_def mt_doFail_def mt_doComplete_def
  mt_feed_def mt_tick_def mt_cancel_def
  mt_feedExternalTyped_def

interpretation mt: mixin_procedure MT_COMPLETED MT_FAILED "\<lambda>_. True" PT_CallSetup_MT
  mt_feed mt_feedExternalTyped mt_tick mt_cancel
proof
  fix p :: CallSetupMTProcedure and sink msg d ses delta
  show "fo_calls (mt_feedExternalTyped d ses p) = []"
    by (simp add: mt_defs mixin)
  assume p: "mixin_inv MT_COMPLETED MT_FAILED p" "True"
  note t = inv_state [OF p(1)]
  show "step_ok MT_COMPLETED MT_FAILED (\<lambda>_. True) PT_CallSetup_MT p (fo_result (mt_feed sink msg ses p))
      (fo_proc (mt_feed sink msg ses p)) \<and> calls_ok sink msg (mt_feed sink msg ses p)"
    using p t by (cases "mCurrentState p")
      (simp_all add: mt_defs mixin_fail_def mixin_complete_def mixin_rules Let_def split: if_split)
  show "step_ok MT_COMPLETED MT_FAILED (\<lambda>_. True) PT_CallSetup_MT p (fo_result (mt_feedExternalTyped d ses p))
      (fo_proc (mt_feedExternalTyped d ses p))"
    using p t by (cases "mCurrentState p") (simp_all add: mt_defs mixin_rules)
  show "step_ok MT_COMPLETED MT_FAILED (\<lambda>_. True) PT_CallSetup_MT p (fst (mt_tick delta p))
      (snd (mt_tick delta p)) \<and> (\<not> mTimerRunning p \<longrightarrow> mt_tick delta p = (step0, p))"
    using p by (cases "mTimerRunning p"; cases "mTimerRemaining p \<le> delta"; cases "mCurrentState p")
      (auto simp: mixin_checks mt_tick_def mt_doFail_def mixin Let_def)
  show "mixin_inv MT_COMPLETED MT_FAILED (mt_cancel p) \<and> True \<and> mProcState (mt_cancel p) = PS_Failed"
    using doCancel_ok [OF p(1), of mt_doFail] by (simp add: mt_defs)
qed

section \<open>Call release\<close>

datatype CallReleaseState =
    Rel_INIT | Rel_SEND_DISCONNECT | Rel_WAIT_RELEASE | Rel_SEND_RELEASE_COMPLETE | Rel_COMPLETED | Rel_FAILED

record CallReleaseProcedure = "CallReleaseState Mixin" +
  rel_ti :: u8
  rel_cause :: CCCause

definition mkCallRelease :: "u8 \<Rightarrow> CCCause \<Rightarrow> CallReleaseProcedure" where
  "mkCallRelease ti cause =
     \<lparr>mCurrentState = Rel_INIT, mProcState = PS_Initiated, mTimerRemaining = 0,
      mCurrentTimer = Timer_Unknown, mTimerRunning = False,
      rel_ti = ti, rel_cause = cause\<rparr>"

definition rel_matches :: "ParsedMessage \<Rightarrow> bool" where
  "rel_matches msg \<longleftrightarrow>
     messagePD msg = CallControl \<and> (messageMTI msg = MTI_Disconnect \<or> messageMTI msg = MTI_Release)"

definition rel_procState :: "CallReleaseState \<Rightarrow> ProcedureState" where
  "rel_procState s =
     (if s = Rel_COMPLETED then PS_Completed else if s = Rel_FAILED then PS_Failed else PS_InProgress)"

definition rel_transitionTo :: "CallReleaseState \<Rightarrow> CallReleaseProcedure \<Rightarrow> CallReleaseProcedure" where
  "rel_transitionTo = moveTo rel_procState"

definition rel_doFail :: "CallReleaseProcedure \<Rightarrow> CallReleaseProcedure" where
  "rel_doFail p = p\<lparr>mCurrentState := Rel_FAILED, mProcState := PS_Failed\<rparr>"

definition rel_doComplete :: "CallReleaseProcedure \<Rightarrow> CallReleaseProcedure" where
  "rel_doComplete p = p\<lparr>mCurrentState := Rel_COMPLETED, mProcState := PS_Completed\<rparr>"

definition rel_disconnect ::
  "bool \<Rightarrow> ParsedMessage \<Rightarrow> Session option \<Rightarrow> CallReleaseProcedure \<Rightarrow> CallReleaseProcedure FeedOut" where
  "rel_disconnect sink msg ses p =
     respond RT_Disconnect sink msg ses (startTimer T3101 12000 (rel_transitionTo Rel_WAIT_RELEASE p))"

definition rel_complete ::
  "bool \<Rightarrow> ParsedMessage \<Rightarrow> Session option \<Rightarrow> CallReleaseProcedure \<Rightarrow> CallReleaseProcedure FeedOut" where
  "rel_complete sink msg ses p =
     with_final PT_CallRelease ''release_complete_sent''
       (respond RT_ReleaseComplete sink msg ses (mixin_complete rel_doComplete p))"

definition rel_feed ::
  "bool \<Rightarrow> ParsedMessage \<Rightarrow> Session option \<Rightarrow> CallReleaseProcedure \<Rightarrow> CallReleaseProcedure FeedOut" where
  "rel_feed sink msg ses0 p =
     (let ses = ses_respond (\<lambda>r. r\<lparr>rc_ti := rel_ti p, rc_ccCause := rel_cause p\<rparr>) ses0
      in report_terminal PT_CallRelease
       (case mCurrentState p of
          Rel_INIT \<Rightarrow>
            if messagePD msg = CallControl
            then rel_disconnect sink msg ses (rel_transitionTo Rel_SEND_DISCONNECT p)
            else stay ses p
        | Rel_SEND_DISCONNECT \<Rightarrow> rel_disconnect sink msg ses p
        | Rel_WAIT_RELEASE \<Rightarrow>
            if messagePD msg = CallControl \<and> messageMTI msg = MTI_Release then rel_complete sink msg ses p
            else stay ses p
        | Rel_SEND_RELEASE_COMPLETE \<Rightarrow> rel_complete sink msg ses p
        | Rel_COMPLETED \<Rightarrow> stay ses p
        | Rel_FAILED \<Rightarrow> stay ses p))"

definition rel_feedExternalTyped ::
  "ExternalData \<Rightarrow> Session option \<Rightarrow> CallReleaseProcedure \<Rightarrow> CallReleaseProcedure FeedOut" where
  "rel_feedExternalTyped d ses p = stay ses p"

definition rel_tick :: "int \<Rightarrow> CallReleaseProcedure \<Rightarrow> ProcedureStepResult \<times> CallReleaseProcedure" where
  "rel_tick = doTick rel_doFail PT_CallRelease"

definition rel_cancel :: "CallReleaseProcedure \<Rightarrow> CallReleaseProcedure" where
  "rel_cancel = doCancel rel_doFail"

lemmas rel_defs = rel_procState_def rel_transitionTo_def rel_doFail_def rel_doComplete_def
  rel_feed_def rel_tick_def rel_cancel_def
  rel_disconnect_def rel_complete_def rel_feedExternalTyped_def

interpretation rel: mixin_procedure Rel_COMPLETED Rel_FAILED "\<lambda>_. True" PT_CallRelease
  rel_feed rel_feedExternalTyped rel_tick rel_cancel
proof
  fix p :: CallReleaseProcedure and sink msg d ses delta
  show "fo_calls (rel_feedExternalTyped d ses p) = []"
    by (simp add: rel_defs mixin)
  assume p: "mixin_inv Rel_COMPLETED Rel_FAILED p" "True"
  note t = inv_state [OF p(1)]
  show "step_ok Rel_COMPLETED Rel_FAILED (\<lambda>_. True) PT_CallRelease p (fo_result (rel_feed sink msg ses p))
      (fo_proc (rel_feed sink msg ses p)) \<and> calls_ok sink msg (rel_feed sink msg ses p)"
    using p t by (cases "mCurrentState p")
      (simp_all add: rel_defs mixin_fail_def mixin_complete_def mixin_rules Let_def split: if_split)
  show "step_ok Rel_COMPLETED Rel_FAILED (\<lambda>_. True) PT_CallRelease p (fo_result (rel_feedExternalTyped d ses p))
      (fo_proc (rel_feedExternalTyped d ses p))"
    using p by (simp add: rel_feedExternalTyped_def stay_ok)
  show "step_ok Rel_COMPLETED Rel_FAILED (\<lambda>_. True) PT_CallRelease p (fst (rel_tick delta p))
      (snd (rel_tick delta p)) \<and> (\<not> mTimerRunning p \<longrightarrow> rel_tick delta p = (step0, p))"
    unfolding rel_tick_def using p by (intro doTick_ok) (simp_all add: rel_doFail_def)
  show "mixin_inv Rel_COMPLETED Rel_FAILED (rel_cancel p) \<and> True \<and> mProcState (rel_cancel p) = PS_Failed"
    using doCancel_ok [OF p(1), of rel_doFail] by (simp add: rel_defs)
qed

end
