(* ===== verification/Procedures_RR.thy ===== *)
theory Procedures_RR
  imports Procedure_Base
begin

text \<open>
  The radio resource procedures, from \<^verbatim>\<open>stack/procedures/\<close>: \<^verbatim>\<open>channel_assignment\<close>, \<^verbatim>\<open>paging\<close> and
  \<^verbatim>\<open>handover\<close>, each with the interpretation that shows its contract.
\<close>

abbreviation MTI_HandoverComplete :: int where "MTI_HandoverComplete \<equiv> 0x2C"
abbreviation MTI_HandoverFailure :: int where "MTI_HandoverFailure \<equiv> 0x28"

section \<open>Channel assignment\<close>

datatype ChannelAssignmentState =
    CA_INIT | CA_ALLOCATE_CHANNEL | CA_SEND_IMMEDIATE_ASSIGNMENT | CA_WAIT_SEIZURE | CA_COMPLETED | CA_FAILED

record ChannelAssignmentProcedure = "ChannelAssignmentState Mixin" +
  ca_targetType :: ChannelType

definition typeAndOffsetFor :: "ChannelType \<Rightarrow> TypeAndOffset" where
  "typeAndOffsetFor ch =
     (case ch of
        TCHFType \<Rightarrow> TDMA_Bm_ACCH
      | TCHHType \<Rightarrow> TDMA_Bm_ACCH
      | SACCHType \<Rightarrow> TDMA_Bm_ACCH
      | SDCCHType \<Rightarrow> channelCodeSdcch8 0
      | CBCHType \<Rightarrow> TDMA_CBCH8
      | _ \<Rightarrow> channelCodeSdcch8 0)"

definition mkChannelAssignment :: "ChannelType \<Rightarrow> ChannelAssignmentProcedure" where
  "mkChannelAssignment target =
     \<lparr>mCurrentState = CA_INIT, mProcState = PS_Initiated, mTimerRemaining = 0,
      mCurrentTimer = Timer_Unknown, mTimerRunning = False,
      ca_targetType = target\<rparr>"

definition ca_matches :: "ParsedMessage \<Rightarrow> bool" where
  "ca_matches msg \<longleftrightarrow>
     messagePD msg = RadioResource \<and> (messageMTI msg = MTI_ChannelRequest \<or> messageMTI msg = MTI_PagingResponse)"

definition ca_procState :: "ChannelAssignmentState \<Rightarrow> ProcedureState" where
  "ca_procState s =
     (if s = CA_COMPLETED then PS_Completed else if s = CA_FAILED then PS_Failed else PS_InProgress)"

definition ca_transitionTo :: "ChannelAssignmentState \<Rightarrow> ChannelAssignmentProcedure \<Rightarrow> ChannelAssignmentProcedure" where
  "ca_transitionTo = moveTo ca_procState"

definition ca_doFail :: "ChannelAssignmentProcedure \<Rightarrow> ChannelAssignmentProcedure" where
  "ca_doFail p = p\<lparr>mCurrentState := CA_FAILED, mProcState := PS_Failed\<rparr>"

definition ca_doComplete :: "ChannelAssignmentProcedure \<Rightarrow> ChannelAssignmentProcedure" where
  "ca_doComplete p = p\<lparr>mCurrentState := CA_COMPLETED, mProcState := PS_Completed\<rparr>"

definition ca_remember :: "ParsedMessage \<Rightarrow> Session option \<Rightarrow> Session option" where
  "ca_remember msg ses =
     (if messageMTI msg = MTI_ChannelRequest
      then (case messageBody msg of
              ChannelRequestBody ra \<Rightarrow> ses_respond (\<lambda>r. r\<lparr>rc_requestRef := ra, rc_hasRequestRef := True\<rparr>) ses
            | _ \<Rightarrow> ses)
      else ses)"

definition ca_feed ::
  "bool \<Rightarrow> ParsedMessage \<Rightarrow> Session option \<Rightarrow> ChannelAssignmentProcedure \<Rightarrow> ChannelAssignmentProcedure FeedOut" where
  "ca_feed sink msg ses p =
     (let pd = messagePD msg; mti = messageMTI msg
      in case mCurrentState p of
        CA_INIT \<Rightarrow>
          if pd = RadioResource \<and> (mti = MTI_ChannelRequest \<or> mti = MTI_PagingResponse)
          then stay (ca_remember msg ses) (ca_transitionTo CA_ALLOCATE_CHANNEL p)
          else stay ses p
      | CA_ALLOCATE_CHANNEL \<Rightarrow>
          respond RT_ImmediateAssignment sink msg
            (ses_respond (\<lambda>r. r\<lparr>rc_channel := mkChannelDescription (typeAndOffsetFor (ca_targetType p)) 0 1 100,
                              rc_hasChannel := True\<rparr>) ses)
            (startTimer T3101 3000 (ca_transitionTo CA_SEND_IMMEDIATE_ASSIGNMENT p))
      | CA_SEND_IMMEDIATE_ASSIGNMENT \<Rightarrow> stay ses (ca_transitionTo CA_WAIT_SEIZURE p)
      | CA_WAIT_SEIZURE \<Rightarrow>
          conclude A_Completed PT_ChannelAssignment ''channel_seized'' ses (mixin_complete ca_doComplete p)
      | CA_COMPLETED \<Rightarrow> stay ses p
      | CA_FAILED \<Rightarrow> stay ses p)"

definition ca_tick :: "int \<Rightarrow> ChannelAssignmentProcedure \<Rightarrow> ProcedureStepResult \<times> ChannelAssignmentProcedure" where
  "ca_tick = doTick ca_doFail PT_ChannelAssignment"

definition ca_cancel :: "ChannelAssignmentProcedure \<Rightarrow> ChannelAssignmentProcedure" where
  "ca_cancel = doCancel ca_doFail"

lemmas ca_defs = ca_procState_def ca_transitionTo_def ca_doFail_def ca_doComplete_def
  ca_feed_def ca_tick_def ca_cancel_def

interpretation ca: mixin_procedure CA_COMPLETED CA_FAILED "\<lambda>_. True" PT_ChannelAssignment
  ca_feed base_feedExternalTyped ca_tick ca_cancel
proof
  fix p :: ChannelAssignmentProcedure and sink msg d ses delta
  show "fo_calls (base_feedExternalTyped d ses p) = []"
    by (simp add: mixin)
  assume p: "mixin_inv CA_COMPLETED CA_FAILED p" "True"
  note t = inv_state [OF p(1)]
  show "step_ok CA_COMPLETED CA_FAILED (\<lambda>_. True) PT_ChannelAssignment p (fo_result (ca_feed sink msg ses p))
      (fo_proc (ca_feed sink msg ses p)) \<and> calls_ok sink msg (ca_feed sink msg ses p)"
    using p t by (cases "mCurrentState p")
      (simp_all add: ca_defs mixin_fail_def mixin_complete_def mixin_rules Let_def split: if_split)
  show "step_ok CA_COMPLETED CA_FAILED (\<lambda>_. True) PT_ChannelAssignment p (fo_result (base_feedExternalTyped d ses p))
      (fo_proc (base_feedExternalTyped d ses p))"
    using p by (simp add: base_feedExternalTyped_def stay_ok)
  show "step_ok CA_COMPLETED CA_FAILED (\<lambda>_. True) PT_ChannelAssignment p (fst (ca_tick delta p))
      (snd (ca_tick delta p)) \<and> (\<not> mTimerRunning p \<longrightarrow> ca_tick delta p = (step0, p))"
    unfolding ca_tick_def using p by (intro doTick_ok) (simp_all add: ca_doFail_def)
  show "mixin_inv CA_COMPLETED CA_FAILED (ca_cancel p) \<and> True \<and> mProcState (ca_cancel p) = PS_Failed"
    using doCancel_ok [OF p(1), of ca_doFail] by (simp add: ca_defs)
qed

section \<open>Paging\<close>

datatype PagingState =
    Page_INIT | Page_SEND_PAGE1 | Page_WAIT_PAGE1 | Page_SEND_PAGE2 | Page_WAIT_PAGE2 | Page_SEND_PAGE3
  | Page_WAIT_PAGE3 | Page_COMPLETED | Page_FAILED

record PagingProcedure = "PagingState Mixin" +
  page_identity :: L3MobileIdentity
  page_attempt :: u8

definition mkPaging :: "L3MobileIdentity \<Rightarrow> PagingProcedure" where
  "mkPaging identity =
     \<lparr>mCurrentState = Page_INIT, mProcState = PS_Initiated, mTimerRemaining = 0,
      mCurrentTimer = Timer_Unknown, mTimerRunning = False,
      page_identity = identity, page_attempt = 0\<rparr>"

definition page_matches :: "ParsedMessage \<Rightarrow> bool" where
  "page_matches msg \<longleftrightarrow> messagePD msg = RadioResource \<and> messageMTI msg = MTI_PagingResponse"

definition page_procState :: "PagingState \<Rightarrow> ProcedureState" where
  "page_procState s =
     (if s = Page_COMPLETED then PS_Completed else if s = Page_FAILED then PS_Failed else PS_InProgress)"

definition page_transitionTo :: "PagingState \<Rightarrow> PagingProcedure \<Rightarrow> PagingProcedure" where
  "page_transitionTo = moveTo page_procState"

definition page_doFail :: "PagingProcedure \<Rightarrow> PagingProcedure" where
  "page_doFail p = p\<lparr>mCurrentState := Page_FAILED, mProcState := PS_Failed\<rparr>"

definition page_doComplete :: "PagingProcedure \<Rightarrow> PagingProcedure" where
  "page_doComplete p = p\<lparr>mCurrentState := Page_COMPLETED, mProcState := PS_Completed\<rparr>"

lemma page_field_inv [simp]: "mixin_inv c f (p\<lparr>page_attempt := n\<rparr>) = mixin_inv c f p"
  by (simp add: mixin_inv_def)

text \<open>The three sending states and the three waiting states differ in token, target and counter only.\<close>

definition page_send ::
  "ResponseToken \<Rightarrow> PagingState \<Rightarrow> u8 \<Rightarrow> bool \<Rightarrow> ParsedMessage \<Rightarrow> Session option \<Rightarrow> PagingProcedure \<Rightarrow>
   PagingProcedure FeedOut" where
  "page_send tok target n sink msg ses p =
     respond tok sink msg ses
       ((page_transitionTo target (startTimer T3109 5000 p))\<lparr>page_attempt := n\<rparr>)"

definition page_wait ::
  "ParsedMessage \<Rightarrow> Session option \<Rightarrow> PagingProcedure \<Rightarrow> PagingProcedure FeedOut" where
  "page_wait msg ses p =
     (if messagePD msg = RadioResource \<and> messageMTI msg = MTI_PagingResponse
      then conclude A_Completed PT_Paging ''page_response_received'' ses (mixin_complete page_doComplete p)
      else stay ses p)"

definition page_feed ::
  "bool \<Rightarrow> ParsedMessage \<Rightarrow> Session option \<Rightarrow> PagingProcedure \<Rightarrow> PagingProcedure FeedOut" where
  "page_feed sink msg ses p =
     (case mCurrentState p of
        Page_INIT \<Rightarrow> stay ses p
      | Page_SEND_PAGE1 \<Rightarrow> page_send RT_PagingRequestType1 Page_WAIT_PAGE1 1 sink msg ses p
      | Page_WAIT_PAGE1 \<Rightarrow> page_wait msg ses p
      | Page_SEND_PAGE2 \<Rightarrow> page_send RT_PagingRequestType2 Page_WAIT_PAGE2 2 sink msg ses p
      | Page_WAIT_PAGE2 \<Rightarrow> page_wait msg ses p
      | Page_SEND_PAGE3 \<Rightarrow> page_send RT_PagingRequestType3 Page_WAIT_PAGE3 3 sink msg ses p
      | Page_WAIT_PAGE3 \<Rightarrow> page_wait msg ses p
      | Page_COMPLETED \<Rightarrow> stay ses p
      | Page_FAILED \<Rightarrow> stay ses p)"

definition page_feedExternalTyped ::
  "ExternalData \<Rightarrow> Session option \<Rightarrow> PagingProcedure \<Rightarrow> PagingProcedure FeedOut" where
  "page_feedExternalTyped d ses p =
     (case d of
        ExtPagingTrigger trigger \<Rightarrow>
          if mCurrentState p = Page_INIT
          then signal RT_PagingRequestType1
                 (ses_respond (\<lambda>r. r\<lparr>rc_identity := pt_identity trigger, rc_hasIdentity := True\<rparr>) ses)
                 ((startTimer T3109 5000 (page_transitionTo Page_SEND_PAGE1 p))\<lparr>page_attempt := 1\<rparr>)
          else stay ses p
      | _ \<Rightarrow> stay ses p)"

text \<open>What the expiry of the timer does; in a state that does not wait, the timer is only stopped.\<close>

definition page_expire :: "PagingProcedure \<Rightarrow> ProcedureStepResult \<times> PagingProcedure" where
  "page_expire p =
     (case mCurrentState p of
        Page_WAIT_PAGE1 \<Rightarrow> (step0, page_transitionTo Page_SEND_PAGE2 p)
      | Page_WAIT_PAGE2 \<Rightarrow> (step0, page_transitionTo Page_SEND_PAGE3 p)
      | _ \<Rightarrow>
          let p1 = (if mCurrentState p = Page_WAIT_PAGE3 then mixin_fail page_doFail p else p)
          in if mProcState p1 = PS_Failed then (finish A_Failed PT_Paging ''no_page_response'' p1, p1)
             else (step0, p1))"

definition page_tick :: "int \<Rightarrow> PagingProcedure \<Rightarrow> ProcedureStepResult \<times> PagingProcedure" where
  "page_tick delta p =
     (if \<not> mTimerRunning p then (step0, p)
      else let p1 = p\<lparr>mTimerRemaining := mTimerRemaining p - delta\<rparr>
      in if mTimerRemaining p1 \<le> 0 then page_expire (stopTimer p1) else (step0, p1))"

definition page_cancel :: "PagingProcedure \<Rightarrow> PagingProcedure" where
  "page_cancel = doCancel page_doFail"

lemmas page_defs = page_procState_def page_transitionTo_def page_doFail_def page_doComplete_def
  page_feed_def page_tick_def page_cancel_def
  page_send_def page_wait_def page_feedExternalTyped_def

interpretation page: mixin_procedure Page_COMPLETED Page_FAILED "\<lambda>_. True" PT_Paging
  page_feed page_feedExternalTyped page_tick page_cancel
proof
  fix p :: PagingProcedure and sink msg d ses delta
  show "fo_calls (page_feedExternalTyped d ses p) = []"
    by (cases d) (simp_all add: page_defs mixin Let_def)
  assume p: "mixin_inv Page_COMPLETED Page_FAILED p" "True"
  note t = inv_state [OF p(1)]
  show "step_ok Page_COMPLETED Page_FAILED (\<lambda>_. True) PT_Paging p (fo_result (page_feed sink msg ses p))
      (fo_proc (page_feed sink msg ses p)) \<and> calls_ok sink msg (page_feed sink msg ses p)"
    using p t by (cases "mCurrentState p")
      (simp_all add: page_defs mixin_fail_def mixin_complete_def mixin_rules split: if_split)
  show "step_ok Page_COMPLETED Page_FAILED (\<lambda>_. True) PT_Paging p (fo_result (page_feedExternalTyped d ses p))
      (fo_proc (page_feedExternalTyped d ses p))"
    using p t by (cases d; cases "mCurrentState p")
      (simp_all add: page_defs mixin_fail_def mixin_complete_def mixin_rules Let_def split: if_split)
  show "step_ok Page_COMPLETED Page_FAILED (\<lambda>_. True) PT_Paging p (fst (page_tick delta p))
      (snd (page_tick delta p)) \<and> (\<not> mTimerRunning p \<longrightarrow> page_tick delta p = (step0, p))"
    using p by (cases "mTimerRunning p"; cases "mTimerRemaining p \<le> delta"; cases "mCurrentState p")
      (auto simp: mixin_checks page_tick_def page_expire_def page_transitionTo_def page_procState_def
        page_doFail_def mixin Let_def)
  show "mixin_inv Page_COMPLETED Page_FAILED (page_cancel p) \<and> True \<and> mProcState (page_cancel p) = PS_Failed"
    using doCancel_ok [OF p(1), of page_doFail] by (simp add: page_defs)
qed

section \<open>Handover\<close>

datatype HandoverState = HO_INIT | HO_SEND_HO_CMD | HO_WAIT_HO_COMPLETE | HO_COMPLETED | HO_FAILED

record HandoverProcedure = "HandoverState Mixin" +
  ho_targetChannel :: L3ChannelDescription

definition mkHandover :: "L3ChannelDescription \<Rightarrow> HandoverProcedure" where
  "mkHandover target =
     \<lparr>mCurrentState = HO_INIT, mProcState = PS_Initiated, mTimerRemaining = 0,
      mCurrentTimer = Timer_Unknown, mTimerRunning = False,
      ho_targetChannel = target\<rparr>"

definition ho_matches :: "ParsedMessage \<Rightarrow> bool" where
  "ho_matches msg \<longleftrightarrow>
     messagePD msg = RadioResource \<and> (messageMTI msg = MTI_HandoverComplete \<or> messageMTI msg = MTI_HandoverFailure)"

definition ho_procState :: "HandoverState \<Rightarrow> ProcedureState" where
  "ho_procState s =
     (if s = HO_COMPLETED then PS_Completed else if s = HO_FAILED then PS_Failed else PS_InProgress)"

definition ho_transitionTo :: "HandoverState \<Rightarrow> HandoverProcedure \<Rightarrow> HandoverProcedure" where
  "ho_transitionTo = moveTo ho_procState"

definition ho_doFail :: "HandoverProcedure \<Rightarrow> HandoverProcedure" where
  "ho_doFail p = p\<lparr>mCurrentState := HO_FAILED, mProcState := PS_Failed\<rparr>"

definition ho_doComplete :: "HandoverProcedure \<Rightarrow> HandoverProcedure" where
  "ho_doComplete p = p\<lparr>mCurrentState := HO_COMPLETED, mProcState := PS_Completed\<rparr>"

definition ho_feed ::
  "bool \<Rightarrow> ParsedMessage \<Rightarrow> Session option \<Rightarrow> HandoverProcedure \<Rightarrow> HandoverProcedure FeedOut" where
  "ho_feed sink msg ses p =
     (let pd = messagePD msg; mti = messageMTI msg
      in case mCurrentState p of
        HO_INIT \<Rightarrow> stay ses p
      | HO_SEND_HO_CMD \<Rightarrow>
          respond RT_HandoverCommand sink msg ses
            (ho_transitionTo HO_WAIT_HO_COMPLETE (startTimer T3101 3000 p))
      | HO_WAIT_HO_COMPLETE \<Rightarrow>
          if pd = RadioResource \<and> mti = MTI_HandoverComplete
          then conclude A_Completed PT_Handover ''handover_complete'' ses (mixin_complete ho_doComplete p)
          else if pd = RadioResource \<and> mti = MTI_HandoverFailure
          then conclude A_Failed PT_Handover ''handover_failed'' ses (mixin_fail ho_doFail p)
          else stay ses p
      | HO_COMPLETED \<Rightarrow> stay ses p
      | HO_FAILED \<Rightarrow> stay ses p)"

definition ho_feedExternalTyped ::
  "ExternalData \<Rightarrow> Session option \<Rightarrow> HandoverProcedure \<Rightarrow> HandoverProcedure FeedOut" where
  "ho_feedExternalTyped d ses p =
     (case d of
        ExtHandoverTarget target \<Rightarrow>
          if mCurrentState p = HO_INIT
          then signal RT_HandoverCommand
                 (ses_respond (\<lambda>r. r\<lparr>rc_hoChannel := ho_channel target, rc_hasHoChannel := True\<rparr>) ses)
                 (startTimer T3101 3000 (ho_transitionTo HO_SEND_HO_CMD p))
          else stay ses p
      | _ \<Rightarrow> stay ses p)"

definition ho_tick :: "int \<Rightarrow> HandoverProcedure \<Rightarrow> ProcedureStepResult \<times> HandoverProcedure" where
  "ho_tick = doTick ho_doFail PT_Handover"

definition ho_cancel :: "HandoverProcedure \<Rightarrow> HandoverProcedure" where
  "ho_cancel = doCancel ho_doFail"

lemmas ho_defs = ho_procState_def ho_transitionTo_def ho_doFail_def ho_doComplete_def
  ho_feed_def ho_tick_def ho_cancel_def
  ho_feedExternalTyped_def

interpretation ho: mixin_procedure HO_COMPLETED HO_FAILED "\<lambda>_. True" PT_Handover
  ho_feed ho_feedExternalTyped ho_tick ho_cancel
proof
  fix p :: HandoverProcedure and sink msg d ses delta
  show "fo_calls (ho_feedExternalTyped d ses p) = []"
    by (cases d) (simp_all add: ho_defs mixin Let_def)
  assume p: "mixin_inv HO_COMPLETED HO_FAILED p" "True"
  note t = inv_state [OF p(1)]
  show "step_ok HO_COMPLETED HO_FAILED (\<lambda>_. True) PT_Handover p (fo_result (ho_feed sink msg ses p))
      (fo_proc (ho_feed sink msg ses p)) \<and> calls_ok sink msg (ho_feed sink msg ses p)"
    using p t by (cases "mCurrentState p")
      (simp_all add: ho_defs mixin_fail_def mixin_complete_def mixin_rules Let_def split: if_split)
  show "step_ok HO_COMPLETED HO_FAILED (\<lambda>_. True) PT_Handover p (fo_result (ho_feedExternalTyped d ses p))
      (fo_proc (ho_feedExternalTyped d ses p))"
    using p t by (cases d; cases "mCurrentState p")
      (simp_all add: ho_defs mixin_fail_def mixin_complete_def mixin_rules Let_def split: if_split)
  show "step_ok HO_COMPLETED HO_FAILED (\<lambda>_. True) PT_Handover p (fst (ho_tick delta p))
      (snd (ho_tick delta p)) \<and> (\<not> mTimerRunning p \<longrightarrow> ho_tick delta p = (step0, p))"
    unfolding ho_tick_def using p by (intro doTick_ok) (simp_all add: ho_doFail_def)
  show "mixin_inv HO_COMPLETED HO_FAILED (ho_cancel p) \<and> True \<and> mProcState (ho_cancel p) = PS_Failed"
    using doCancel_ok [OF p(1), of ho_doFail] by (simp add: ho_defs)
qed

end
