(* ===== verification/Procedures.thy ===== *)
theory Procedures
  imports Procedures_MM Procedures_CC Procedures_RR
begin

text \<open>
  The class \<^verbatim>\<open>Procedure\<close> with its ten subclasses: a procedure of unknown class is a value of a sum
  type, and a virtual call is the function that selects the definition of the class. The factory
  functions of \<^verbatim>\<open>procedure_runner.cpp\<close> are the constructors. The contract of
  \<open>protocol_procedure\<close> holds for the sum because it holds for every summand.
\<close>

section \<open>Virtual dispatch\<close>

datatype Procedure =
    P_LocationUpdate LocationUpdateProcedure
  | P_Authentication AuthenticationProcedure
  | P_CipheringMode CipheringModeProcedure
  | P_CallSetupMO CallSetupMOProcedure
  | P_CallSetupMT CallSetupMTProcedure
  | P_ChannelAssignment ChannelAssignmentProcedure
  | P_Paging PagingProcedure
  | P_Handover HandoverProcedure
  | P_CallRelease CallReleaseProcedure
  | P_IMSIDetach IMSIDetachProcedure

fun proc_type :: "Procedure \<Rightarrow> ProcedureType" where
  "proc_type (P_LocationUpdate p) = PT_LocationUpdate"
| "proc_type (P_Authentication p) = PT_Authentication"
| "proc_type (P_CipheringMode p) = PT_CipheringMode"
| "proc_type (P_CallSetupMO p) = PT_CallSetup_MO"
| "proc_type (P_CallSetupMT p) = PT_CallSetup_MT"
| "proc_type (P_ChannelAssignment p) = PT_ChannelAssignment"
| "proc_type (P_Paging p) = PT_Paging"
| "proc_type (P_Handover p) = PT_Handover"
| "proc_type (P_CallRelease p) = PT_CallRelease"
| "proc_type (P_IMSIDetach p) = PT_IMSIDetach"

fun proc_state :: "Procedure \<Rightarrow> ProcedureState" where
  "proc_state (P_LocationUpdate p) = mProcState p"
| "proc_state (P_Authentication p) = mProcState p"
| "proc_state (P_CipheringMode p) = mProcState p"
| "proc_state (P_CallSetupMO p) = mProcState p"
| "proc_state (P_CallSetupMT p) = mProcState p"
| "proc_state (P_ChannelAssignment p) = mProcState p"
| "proc_state (P_Paging p) = mProcState p"
| "proc_state (P_Handover p) = mProcState p"
| "proc_state (P_CallRelease p) = mProcState p"
| "proc_state (P_IMSIDetach p) = mProcState p"

fun proc_matches :: "ParsedMessage \<Rightarrow> Procedure \<Rightarrow> bool" where
  "proc_matches msg (P_LocationUpdate p) = lu_matches msg"
| "proc_matches msg (P_Authentication p) = auth_matches msg"
| "proc_matches msg (P_CipheringMode p) = ciph_matches msg"
| "proc_matches msg (P_CallSetupMO p) = mo_matches msg"
| "proc_matches msg (P_CallSetupMT p) = mt_matches msg"
| "proc_matches msg (P_ChannelAssignment p) = ca_matches msg"
| "proc_matches msg (P_Paging p) = page_matches msg"
| "proc_matches msg (P_Handover p) = ho_matches msg"
| "proc_matches msg (P_CallRelease p) = rel_matches msg"
| "proc_matches msg (P_IMSIDetach p) = det_matches msg"

definition as_proc :: "('p \<Rightarrow> Procedure) \<Rightarrow> 'p FeedOut \<Rightarrow> Procedure FeedOut" where
  "as_proc f r =
     \<lparr>fo_result = fo_result r, fo_calls = fo_calls r, fo_session = fo_session r, fo_proc = f (fo_proc r)\<rparr>"

lemma as_proc_simps [simp]:
  "fo_result (as_proc f r) = fo_result r" "fo_calls (as_proc f r) = fo_calls r"
  "fo_session (as_proc f r) = fo_session r" "fo_proc (as_proc f r) = f (fo_proc r)"
  by (simp_all add: as_proc_def)

fun proc_feed :: "bool \<Rightarrow> ParsedMessage \<Rightarrow> Session option \<Rightarrow> Procedure \<Rightarrow> Procedure FeedOut" where
  "proc_feed sink msg ses (P_LocationUpdate p) = as_proc P_LocationUpdate (lu_feed sink msg ses p)"
| "proc_feed sink msg ses (P_Authentication p) = as_proc P_Authentication (auth_feed sink msg ses p)"
| "proc_feed sink msg ses (P_CipheringMode p) = as_proc P_CipheringMode (ciph_feed sink msg ses p)"
| "proc_feed sink msg ses (P_CallSetupMO p) = as_proc P_CallSetupMO (mo_feed sink msg ses p)"
| "proc_feed sink msg ses (P_CallSetupMT p) = as_proc P_CallSetupMT (mt_feed sink msg ses p)"
| "proc_feed sink msg ses (P_ChannelAssignment p) = as_proc P_ChannelAssignment (ca_feed sink msg ses p)"
| "proc_feed sink msg ses (P_Paging p) = as_proc P_Paging (page_feed sink msg ses p)"
| "proc_feed sink msg ses (P_Handover p) = as_proc P_Handover (ho_feed sink msg ses p)"
| "proc_feed sink msg ses (P_CallRelease p) = as_proc P_CallRelease (rel_feed sink msg ses p)"
| "proc_feed sink msg ses (P_IMSIDetach p) = as_proc P_IMSIDetach (det_feed sink msg ses p)"

fun proc_ext :: "ExternalData \<Rightarrow> Session option \<Rightarrow> Procedure \<Rightarrow> Procedure FeedOut" where
  "proc_ext d ses (P_LocationUpdate p) = as_proc P_LocationUpdate (lu_feedExternalTyped d ses p)"
| "proc_ext d ses (P_Authentication p) = as_proc P_Authentication (auth_feedExternalTyped d ses p)"
| "proc_ext d ses (P_CipheringMode p) = as_proc P_CipheringMode (ciph_feedExternalTyped d ses p)"
| "proc_ext d ses (P_CallSetupMO p) = as_proc P_CallSetupMO (base_feedExternalTyped d ses p)"
| "proc_ext d ses (P_CallSetupMT p) = as_proc P_CallSetupMT (mt_feedExternalTyped d ses p)"
| "proc_ext d ses (P_ChannelAssignment p) = as_proc P_ChannelAssignment (base_feedExternalTyped d ses p)"
| "proc_ext d ses (P_Paging p) = as_proc P_Paging (page_feedExternalTyped d ses p)"
| "proc_ext d ses (P_Handover p) = as_proc P_Handover (ho_feedExternalTyped d ses p)"
| "proc_ext d ses (P_CallRelease p) = as_proc P_CallRelease (rel_feedExternalTyped d ses p)"
| "proc_ext d ses (P_IMSIDetach p) = as_proc P_IMSIDetach (det_feedExternalTyped d ses p)"

fun proc_tick :: "int \<Rightarrow> Procedure \<Rightarrow> ProcedureStepResult \<times> Procedure" where
  "proc_tick d (P_LocationUpdate p) = map_prod id P_LocationUpdate (lu_tick d p)"
| "proc_tick d (P_Authentication p) = map_prod id P_Authentication (auth_tick d p)"
| "proc_tick d (P_CipheringMode p) = map_prod id P_CipheringMode (ciph_tick d p)"
| "proc_tick d (P_CallSetupMO p) = map_prod id P_CallSetupMO (mo_tick d p)"
| "proc_tick d (P_CallSetupMT p) = map_prod id P_CallSetupMT (mt_tick d p)"
| "proc_tick d (P_ChannelAssignment p) = map_prod id P_ChannelAssignment (ca_tick d p)"
| "proc_tick d (P_Paging p) = map_prod id P_Paging (page_tick d p)"
| "proc_tick d (P_Handover p) = map_prod id P_Handover (ho_tick d p)"
| "proc_tick d (P_CallRelease p) = map_prod id P_CallRelease (rel_tick d p)"
| "proc_tick d (P_IMSIDetach p) = map_prod id P_IMSIDetach (det_tick d p)"

fun proc_cancel :: "Procedure \<Rightarrow> Procedure" where
  "proc_cancel (P_LocationUpdate p) = P_LocationUpdate (lu_cancel p)"
| "proc_cancel (P_Authentication p) = P_Authentication (auth_cancel p)"
| "proc_cancel (P_CipheringMode p) = P_CipheringMode (ciph_cancel p)"
| "proc_cancel (P_CallSetupMO p) = P_CallSetupMO (mo_cancel p)"
| "proc_cancel (P_CallSetupMT p) = P_CallSetupMT (mt_cancel p)"
| "proc_cancel (P_ChannelAssignment p) = P_ChannelAssignment (ca_cancel p)"
| "proc_cancel (P_Paging p) = P_Paging (page_cancel p)"
| "proc_cancel (P_Handover p) = P_Handover (ho_cancel p)"
| "proc_cancel (P_CallRelease p) = P_CallRelease (rel_cancel p)"
| "proc_cancel (P_IMSIDetach p) = P_IMSIDetach (det_cancel p)"

section \<open>The factory\<close>

definition createLocationUpdate :: Procedure where
  "createLocationUpdate = P_LocationUpdate mkLocationUpdate"

definition createAuthentication :: Procedure where
  "createAuthentication = P_Authentication mkAuthentication"

definition createCipheringMode :: "u8 \<Rightarrow> Procedure" where
  "createCipheringMode algo = P_CipheringMode (mkCipheringMode algo)"

definition createCallSetupMO :: Procedure where
  "createCallSetupMO = P_CallSetupMO mkCallSetupMO"

definition createCallSetupMT :: "string \<Rightarrow> Procedure" where
  "createCallSetupMT number = P_CallSetupMT (mkCallSetupMT number)"

definition createChannelAssignment :: "ChannelType \<Rightarrow> Procedure" where
  "createChannelAssignment target = P_ChannelAssignment (mkChannelAssignment target)"

definition createPaging :: "L3MobileIdentity \<Rightarrow> Procedure" where
  "createPaging identity = P_Paging (mkPaging identity)"

definition createHandover :: "L3ChannelDescription \<Rightarrow> Procedure" where
  "createHandover target = P_Handover (mkHandover target)"

definition createCallRelease :: "u8 \<Rightarrow> CCCause \<Rightarrow> Procedure" where
  "createCallRelease ti cause = P_CallRelease (mkCallRelease ti cause)"

definition createIMSIDetach :: Procedure where
  "createIMSIDetach = P_IMSIDetach mkIMSIDetach"

lemmas create_defs = createLocationUpdate_def createAuthentication_def createCipheringMode_def
  createCallSetupMO_def createCallSetupMT_def createChannelAssignment_def createPaging_def
  createHandover_def createCallRelease_def createIMSIDetach_def

text \<open>The procedures a factory function returns.\<close>

definition factory_made :: "Procedure \<Rightarrow> bool" where
  "factory_made p \<longleftrightarrow>
     p = createLocationUpdate \<or> p = createAuthentication \<or> (\<exists>a. p = createCipheringMode a) \<or>
     p = createCallSetupMO \<or> (\<exists>n. p = createCallSetupMT n) \<or> (\<exists>t. p = createChannelAssignment t) \<or>
     (\<exists>i. p = createPaging i) \<or> (\<exists>t. p = createHandover t) \<or> (\<exists>t c. p = createCallRelease t c) \<or>
     p = createIMSIDetach"

section \<open>The contract\<close>

fun proc_inv :: "Procedure \<Rightarrow> bool" where
  "proc_inv (P_LocationUpdate p) = mixin_inv LU_COMPLETED LU_FAILED p"
| "proc_inv (P_Authentication p) = (mixin_inv Auth_COMPLETED Auth_FAILED p \<and> auth_extra p)"
| "proc_inv (P_CipheringMode p) = mixin_inv Ciph_COMPLETED Ciph_FAILED p"
| "proc_inv (P_CallSetupMO p) = mixin_inv MO_COMPLETED MO_FAILED p"
| "proc_inv (P_CallSetupMT p) = mixin_inv MT_COMPLETED MT_FAILED p"
| "proc_inv (P_ChannelAssignment p) = mixin_inv CA_COMPLETED CA_FAILED p"
| "proc_inv (P_Paging p) = mixin_inv Page_COMPLETED Page_FAILED p"
| "proc_inv (P_Handover p) = mixin_inv HO_COMPLETED HO_FAILED p"
| "proc_inv (P_CallRelease p) = mixin_inv Rel_COMPLETED Rel_FAILED p"
| "proc_inv (P_IMSIDetach p) = mixin_inv Det_COMPLETED Det_FAILED p"

lemma factory_inv: "factory_made p \<Longrightarrow> proc_inv p \<and> proc_state p = PS_Initiated"
  by (auto simp: factory_made_def create_defs mixin_inv_def mkLocationUpdate_def mkAuthentication_def
      mkCipheringMode_def mkCallSetupMO_def mkCallSetupMT_def mkChannelAssignment_def mkPaging_def
      mkHandover_def mkCallRelease_def mkIMSIDetach_def auth_extra_def)

lemma feed_type [simp]: "proc_type (fo_proc (proc_feed sink msg ses p)) = proc_type p"
  by (cases p) simp_all

lemma ext_type [simp]: "proc_type (fo_proc (proc_ext d ses p)) = proc_type p"
  by (cases p) simp_all

lemma tick_type [simp]: "proc_type (snd (proc_tick d p)) = proc_type p"
  by (cases p) simp_all

lemmas class_feed = lu.feed_inv auth.feed_inv ciph.feed_inv mo.feed_inv mt.feed_inv ca.feed_inv
  page.feed_inv ho.feed_inv rel.feed_inv det.feed_inv
lemmas class_ext = lu.ext_inv auth.ext_inv ciph.ext_inv mo.ext_inv mt.ext_inv ca.ext_inv
  page.ext_inv ho.ext_inv rel.ext_inv det.ext_inv
lemmas class_tick = lu.tick_inv auth.tick_inv ciph.tick_inv mo.tick_inv mt.tick_inv ca.tick_inv
  page.tick_inv ho.tick_inv rel.tick_inv det.tick_inv
lemmas class_rules = lu.feed_rule auth.feed_rule ciph.feed_rule mo.feed_rule mt.feed_rule ca.feed_rule
  page.feed_rule ho.feed_rule rel.feed_rule det.feed_rule
lemmas class_ext_rules = lu.ext_rule auth.ext_rule ciph.ext_rule mo.ext_rule mt.ext_rule ca.ext_rule
  page.ext_rule ho.ext_rule rel.ext_rule det.ext_rule
lemmas class_tick_rules = lu.tick_rule auth.tick_rule ciph.tick_rule mo.tick_rule mt.tick_rule ca.tick_rule
  page.tick_rule ho.tick_rule rel.tick_rule det.tick_rule
lemmas class_done = lu.feed_done auth.feed_done ciph.feed_done mo.feed_done mt.feed_done ca.feed_done
  page.feed_done ho.feed_done rel.feed_done det.feed_done
lemmas class_ext_done = lu.ext_done auth.ext_done ciph.ext_done mo.ext_done mt.ext_done ca.ext_done
  page.ext_done ho.ext_done rel.ext_done det.ext_done
lemmas class_tick_done = lu.tick_done auth.tick_done ciph.tick_done mo.tick_done mt.tick_done ca.tick_done
  page.tick_done ho.tick_done rel.tick_done det.tick_done
lemmas class_cancel = lu.cancel_inv auth.cancel_inv ciph.cancel_inv mo.cancel_inv mt.cancel_inv ca.cancel_inv
  page.cancel_inv ho.cancel_inv rel.cancel_inv det.cancel_inv lu.cancel_fails auth.cancel_fails
  ciph.cancel_fails mo.cancel_fails mt.cancel_fails ca.cancel_fails page.cancel_fails ho.cancel_fails
  rel.cancel_fails det.cancel_fails
lemmas class_calls = lu.feed_calls auth.feed_calls ciph.feed_calls mo.feed_calls mt.feed_calls ca.feed_calls
  page.feed_calls ho.feed_calls rel.feed_calls det.feed_calls
lemmas class_ext_calls = lu.ext_calls auth.ext_calls ciph.ext_calls mo.ext_calls mt.ext_calls ca.ext_calls
  page.ext_calls ho.ext_calls rel.ext_calls det.ext_calls

interpretation proc: protocol_procedure proc_state proc_inv proc_type proc_feed proc_ext proc_tick proc_cancel
proof
  fix p sink msg ses d delta
  show "proc_inv (fo_proc (proc_feed sink msg ses p))" if "proc_inv p"
    using that by (cases p) (simp_all add: class_feed)
  show "proc_inv (fo_proc (proc_ext d ses p))" if "proc_inv p"
    using that by (cases p) (simp_all add: class_ext)
  show "proc_inv (snd (proc_tick delta p))" if "proc_inv p"
    using that by (cases p) (simp_all add: class_tick)
  show "step_rule (proc_type p) (fo_result (proc_feed sink msg ses p)) (proc_state (fo_proc (proc_feed sink msg ses p)))"
    if "proc_inv p" "\<not> terminal (proc_state p)"
    using that by (cases p) (simp_all add: class_rules)
  show "step_rule (proc_type p) (fo_result (proc_ext d ses p)) (proc_state (fo_proc (proc_ext d ses p)))"
    if "proc_inv p" "\<not> terminal (proc_state p)"
    using that by (cases p) (simp_all add: class_ext_rules)
  show "step_rule (proc_type p) (fst (proc_tick delta p)) (proc_state (snd (proc_tick delta p)))"
    if "proc_inv p" "\<not> terminal (proc_state p)"
    using that by (cases p) (simp_all add: class_tick_rules)
  show "proc_state (fo_proc (proc_feed sink msg ses p)) = proc_state p \<and> silent (fo_result (proc_feed sink msg ses p))"
    if "proc_inv p" "terminal (proc_state p)"
    using that by (cases p) (simp_all add: class_done)
  show "proc_state (fo_proc (proc_ext d ses p)) = proc_state p \<and> silent (fo_result (proc_ext d ses p))"
    if "proc_inv p" "terminal (proc_state p)"
    using that by (cases p) (simp_all add: class_ext_done)
  show "proc_tick delta p = (step0, p)" if "proc_inv p" "terminal (proc_state p)"
    using that by (cases p) (simp_all add: class_tick_done)
  show "proc_inv (proc_cancel p)" "proc_state (proc_cancel p) = PS_Failed" if "proc_inv p"
    using that by (cases p; simp add: class_cancel)+
  show "fo_calls (proc_feed sink msg ses p) =
      (if responseToken (fo_result (proc_feed sink msg ses p)) = RT_None then []
       else sink_call sink msg (fo_session (proc_feed sink msg ses p)))" if "proc_inv p"
    using that by (cases p) (simp_all add: class_calls cong: if_cong)
  show "fo_calls (proc_ext d ses p) = []"
    by (cases p) (simp_all add: class_ext_calls)
qed

section \<open>Properties of all procedures\<close>

text \<open>
  C20. The response/terminal rule of \<^verbatim>\<open>ProcedureStepResult\<close> holds for every procedure a factory
  makes and every sequence of messages, external data and clock ticks. A step carries a response
  token exactly when its action is to send a response; some step has reported the end exactly when
  the procedure has ended; an ended procedure keeps its state and answers nothing, whatever comes;
  and the response sink is called exactly for the responses to a message, with that message and
  the session as the step leaves it, and never for external data.
\<close>

theorem procedure_contract:
  assumes "factory_made p"
    and run: "proc_run proc_feed proc_ext proc_tick evs (ses, p) = (rs, ses1, p1)"
  shows "(\<forall>r \<in> set rs. responseToken r \<noteq> RT_None \<longleftrightarrow> action r = A_SendResponseWithToken) \<and>
    ((\<exists>r \<in> set rs. terminal (pr_state (finalResult r))) \<longleftrightarrow> terminal (proc_state p1)) \<and>
    (terminal (proc_state p1) \<longrightarrow>
       (let (rs2, _, p2) = proc_run proc_feed proc_ext proc_tick evs2 (ses1, p1)
        in proc_state p2 = proc_state p1 \<and> (\<forall>r \<in> set rs2. responseToken r = RT_None))) \<and>
    fo_calls (proc_feed sink msg ses1 p1) =
      (if responseToken (fo_result (proc_feed sink msg ses1 p1)) = RT_None then []
       else sink_call sink msg (fo_session (proc_feed sink msg ses1 p1))) \<and>
    fo_calls (proc_ext d ses1 p1) = []"
proof -
  have inv: "proc_inv p" and start: "\<not> terminal (proc_state p)"
    using factory_inv [OF assms(1)] by (simp_all add: terminal_def)
  have inv1: "proc_inv p1" using proc.run_inv [OF inv, of evs ses] by (simp add: run)
  have "\<forall>r \<in> set rs. responseToken r \<noteq> RT_None \<longleftrightarrow> action r = A_SendResponseWithToken"
    using proc.run_signals [OF inv, of _ evs ses] by (simp add: run)
  moreover have "(\<exists>r \<in> set rs. terminal (pr_state (finalResult r))) \<longleftrightarrow> terminal (proc_state p1)"
    using proc.run_reports [OF inv start, of evs ses] by (simp add: run reports_end_def)
  moreover have "let (rs2, _, p2) = proc_run proc_feed proc_ext proc_tick evs2 (ses1, p1)
      in proc_state p2 = proc_state p1 \<and> (\<forall>r \<in> set rs2. responseToken r = RT_None)"
    if "terminal (proc_state p1)"
    using proc.run_keeps_terminal [OF inv1 that, of evs2 ses1] by (simp add: split_beta silent_def)
  ultimately show ?thesis
    using proc.feed_calls [OF inv1] proc.ext_calls by blast
qed

definition detach_example :: "ProcEvent list" where
  "detach_example =
     (let m = EvMsg True \<lparr>messagePD = MobilityManagement, messageMTI = 1, messageTI = 0, messageBody = OtherBody\<rparr>
      in [m, EvTick 100, m])"

theorem procedure_contract_witness:
  "list_all (\<lambda>r. responseToken r \<noteq> RT_None \<longleftrightarrow> action r = A_SendResponseWithToken)
     (fst (proc_run proc_feed proc_ext proc_tick detach_example (None, createIMSIDetach))) \<and>
   (\<exists>r \<in> set (fst (proc_run proc_feed proc_ext proc_tick detach_example (None, createIMSIDetach))).
      terminal (pr_state (finalResult r)))"
proof -
  have "proc_state (snd (snd (proc_run proc_feed proc_ext proc_tick detach_example (None, createIMSIDetach)))) =
      PS_Completed"
    by code_simp
  moreover have "factory_made createIMSIDetach" by (simp add: factory_made_def)
  ultimately show ?thesis
    using procedure_contract [of createIMSIDetach detach_example None _ _ _] 
    by (simp add: terminal_def prod_eq_iff list_all_iff)
qed

section \<open>Silence ends a procedure\<close>


definition proc_ticks :: "nat \<Rightarrow> int \<Rightarrow> Procedure \<Rightarrow> Procedure" where
  "proc_ticks n d p = ((\<lambda>q. snd (proc_tick d q)) ^^ n) p"


lemma proc_ticks_0 [simp]: "proc_ticks 0 d p = p"
  by (simp add: proc_ticks_def)





text \<open>
  A page is never given up by the clock alone: after the trigger, whatever ticks follow, the
  paging procedure is still in its first sending state, no step reports an end and no further
  page is asked for. Only a message fed to it moves it on.
\<close>

lemma paging_waits_for_message:
  "let (rs, ses1, p) = proc_run page_feed page_feedExternalTyped page_tick
         (EvExt (ExtPagingTrigger trigger) # map EvTick ds) (ses, mkPaging identity)
   in mCurrentState p = Page_SEND_PAGE1 \<and> mProcState p = PS_InProgress \<and>
      map responseToken rs = RT_PagingRequestType1 # replicate (length ds) RT_None"
proof -
  have "mCurrentState p1 = Page_SEND_PAGE1 \<and> mProcState p1 = PS_InProgress \<and>
      map responseToken rs = replicate (length ds) RT_None"
    if "proc_run page_feed page_feedExternalTyped page_tick (map EvTick ds) (ses0, p0) = (rs, ses1, p1)"
      "mCurrentState p0 = Page_SEND_PAGE1" "mProcState p0 = PS_InProgress" for ses0 p0 rs ses1 p1 ds
    using that
  proof (induction ds arbitrary: p0 rs)
    case (Cons d ds)
    define q where "q = snd (page_tick d p0)"
    have q: "mCurrentState q = Page_SEND_PAGE1" "mProcState q = PS_InProgress"
      "responseToken (fst (page_tick d p0)) = RT_None"
      using Cons.prems(2,3) by (auto simp: q_def page_tick_def page_expire_def mixin Let_def)
    show ?case
      using Cons.IH [OF _ q(1,2)] Cons.prems(1) q(3)
      by (auto simp: proc_step_def q_def Let_def split: prod.splits)
  qed simp
  moreover have "mCurrentState ((startTimer T3109 5000 (page_transitionTo Page_SEND_PAGE1 (mkPaging identity)))
      \<lparr>page_attempt := 1\<rparr>) = Page_SEND_PAGE1"
    "mProcState ((startTimer T3109 5000 (page_transitionTo Page_SEND_PAGE1 (mkPaging identity)))
      \<lparr>page_attempt := 1\<rparr>) = PS_InProgress"
    by (simp_all add: page_transitionTo_def page_procState_def mixin)
  ultimately show ?thesis
    by (simp add: proc_step_def page_feedExternalTyped_def mkPaging_def signal_def step0_def Let_def split: prod.splits)
qed

text \<open>
  A page of a mobile terminated call is sent once: in the state that waits for the answer no
  message and no tick asks for another one, although the retry counter goes up to three.
\<close>

lemma mt_page_not_repeated:
  assumes "mCurrentState p = MT_WAIT_PAGE_RESPONSE"
  shows "responseToken (fo_result (mt_feed sink msg ses p)) \<noteq> RT_PagingRequestType1"
    and "responseToken (fst (mt_tick d p)) = RT_None"
    and "mCurrentState (snd (mt_tick d p)) \<in> {MT_WAIT_PAGE_RESPONSE, MT_FAILED}"
    and "mCurrentState (fo_proc (mt_feed sink msg ses p)) \<in> {MT_WAIT_PAGE_RESPONSE, MT_ASSIGN_SDCCH}"
  using assms
  by (auto simp: mt_feed_def mt_tick_def mt_transitionTo_def mt_doFail_def mixin Let_def)

end
