(* ===== verification/Procedure_Runner.thy ===== *)
theory Procedure_Runner
  imports Procedures
begin

text \<open>
  The manager of the concurrent procedures of one subscriber: \<^verbatim>\<open>stack/procedure_runner.h\<close> and
  \<^verbatim>\<open>stack/procedure_runner.cpp\<close>. The slots are a list of eight; an observer is told when the first
  procedure becomes active and when the last one ends, and \<open>rnNotes\<close> is what it was told.
\<close>

section \<open>State\<close>

definition MAX_PROCEDURES :: nat where
  "MAX_PROCEDURES = 8"

record ProcedureSlot =
  sl_proc :: "Procedure option"
  sl_active :: bool

record ProcedureRunner =
  rnSlots :: "ProcedureSlot list"
  rnObserved :: bool
  rnNotes :: "bool list"

definition empty_slot :: ProcedureSlot where
  "empty_slot = \<lparr>sl_proc = None, sl_active = False\<rparr>"

definition runner0 :: ProcedureRunner where
  "runner0 = \<lparr>rnSlots = replicate MAX_PROCEDURES empty_slot, rnObserved = False, rnNotes = []\<rparr>"

definition rn_notify :: "bool \<Rightarrow> ProcedureRunner \<Rightarrow> ProcedureRunner" where
  "rn_notify b rn = (if rnObserved rn then rn\<lparr>rnNotes := rnNotes rn @ [b]\<rparr> else rn)"

definition rn_set :: "nat \<Rightarrow> ProcedureSlot \<Rightarrow> ProcedureRunner \<Rightarrow> ProcedureRunner" where
  "rn_set i s rn = rn\<lparr>rnSlots := (rnSlots rn)[i := s]\<rparr>"

text \<open>The procedure of an active slot.\<close>

definition slot_proc :: "ProcedureRunner \<Rightarrow> nat \<Rightarrow> Procedure option" where
  "slot_proc rn i = (if sl_active (rnSlots rn ! i) then sl_proc (rnSlots rn ! i) else None)"

definition activeCount :: "ProcedureRunner \<Rightarrow> nat" where
  "activeCount rn = length (filter (\<lambda>i. sl_active (rnSlots rn ! i)) [0..<MAX_PROCEDURES])"

section \<open>Operations\<close>

abbreviation MTI_IMSIDetachIndication :: int where "MTI_IMSIDetachIndication \<equiv> 0x01"

definition pdToProcedureType :: "L3PD \<Rightarrow> ProcedureType" where
  "pdToProcedureType pd =
     (case pd of
        RadioResource \<Rightarrow> PT_ChannelAssignment
      | MobilityManagement \<Rightarrow> PT_LocationUpdate
      | CallControl \<Rightarrow> PT_CallSetup_MO
      | _ \<Rightarrow> PT_Unknown)"

definition find_slot :: "(Procedure \<Rightarrow> bool) \<Rightarrow> ProcedureRunner \<Rightarrow> nat option" where
  "find_slot P rn =
     List.find (\<lambda>i. case slot_proc rn i of Some p \<Rightarrow> P p | None \<Rightarrow> False) [0..<MAX_PROCEDURES]"

definition findActiveSlotByPD :: "L3PD \<Rightarrow> ProcedureRunner \<Rightarrow> nat option" where
  "findActiveSlotByPD pd rn = find_slot (\<lambda>p. proc_type p = pdToProcedureType pd) rn"

definition insertSlot :: "Procedure option \<Rightarrow> ProcedureRunner \<Rightarrow> nat option \<times> ProcedureRunner" where
  "insertSlot proc rn =
     (case proc of
        None \<Rightarrow> (None, rn)
      | Some p \<Rightarrow>
          (case List.find (\<lambda>i. \<not> sl_active (rnSlots rn ! i)) [0..<MAX_PROCEDURES] of
             None \<Rightarrow> (None, rn)
           | Some i \<Rightarrow>
               let wasActive = activeCount rn > 0;
                   rn1 = rn_set i \<lparr>sl_proc = Some p, sl_active = True\<rparr> rn
               in (Some i, if \<not> wasActive then rn_notify True rn1 else rn1)))"

definition cleanupSlotIfTerminal :: "nat \<Rightarrow> ProcedureRunner \<Rightarrow> ProcedureRunner" where
  "cleanupSlotIfTerminal i rn =
     (if i < MAX_PROCEDURES
      then (case slot_proc rn i of
              Some p \<Rightarrow>
                if terminal (proc_state p)
                then let wasActive = activeCount rn > 0; rn1 = rn_set i empty_slot rn
                     in if wasActive \<and> activeCount rn1 = 0 then rn_notify False rn1 else rn1
                else rn
            | None \<Rightarrow> rn)
      else rn)"

definition put_proc :: "nat \<Rightarrow> Procedure \<Rightarrow> ProcedureRunner \<Rightarrow> ProcedureRunner" where
  "put_proc i p rn = cleanupSlotIfTerminal i (rn_set i \<lparr>sl_proc = Some p, sl_active = True\<rparr> rn)"

definition with_runner :: "nat \<Rightarrow> Procedure FeedOut \<Rightarrow> ProcedureRunner \<Rightarrow> ProcedureRunner FeedOut" where
  "with_runner i out rn =
     \<lparr>fo_result = fo_result out, fo_calls = fo_calls out, fo_session = fo_session out,
      fo_proc = put_proc i (fo_proc out) rn\<rparr>"

definition feed_slot ::
  "bool \<Rightarrow> ParsedMessage \<Rightarrow> Session option \<Rightarrow> nat \<Rightarrow> ProcedureRunner \<Rightarrow> ProcedureRunner FeedOut" where
  "feed_slot sink msg ses i rn =
     (case slot_proc rn i of
        Some p \<Rightarrow> with_runner i (proc_feed sink msg ses p) rn
      | None \<Rightarrow> stay ses rn)"

definition autoCreateProcedure :: "ParsedMessage \<Rightarrow> Procedure option" where
  "autoCreateProcedure msg =
     (let pd = messagePD msg; mti = messageMTI msg
      in if pd = RadioResource
      then (if mti = MTI_ChannelRequest then Some (createChannelAssignment SDCCHType)
            else if mti = MTI_PagingResponse then Some (createChannelAssignment SDCCHType)
            else None)
      else if pd = MobilityManagement
      then (if mti = MTI_CMServiceRequest \<and> messageBody msg = CMServiceRequestBody LocationUpdateRequest
            then Some createLocationUpdate
            else if mti = MTI_IMSIDetachIndication then Some createIMSIDetach
            else None)
      else if pd = CallControl
      then (if mti = MTI_Setup then Some createCallSetupMO
            else if mti = MTI_Disconnect then Some (createCallRelease 0 CCCause_Normal_Call_Clearing)
            else None)
      else None)"

definition runner_feed ::
  "bool \<Rightarrow> ParsedMessage \<Rightarrow> Session option \<Rightarrow> ProcedureRunner \<Rightarrow> ProcedureRunner FeedOut" where
  "runner_feed sink msg ses rn =
     (case find_slot (proc_matches msg) rn of
        Some i \<Rightarrow> feed_slot sink msg ses i rn
      | None \<Rightarrow>
          (case findActiveSlotByPD (messagePD msg) rn of
             Some i \<Rightarrow> feed_slot sink msg ses i rn
           | None \<Rightarrow>
               (case insertSlot (autoCreateProcedure msg) rn of
                  (Some i, rn1) \<Rightarrow> feed_slot sink msg (ses_respond rc_reset ses) i rn1
                | (None, rn1) \<Rightarrow> stay ses rn1)))"

definition runner_feedExternalTyped ::
  "ProcedureType \<Rightarrow> ExternalData \<Rightarrow> Session option \<Rightarrow> ProcedureRunner \<Rightarrow> ProcedureRunner FeedOut" where
  "runner_feedExternalTyped t d ses rn =
     (case find_slot (\<lambda>p. proc_type p = t) rn of
        Some i \<Rightarrow>
          (case slot_proc rn i of
             Some p \<Rightarrow> with_runner i (proc_ext d ses p) rn
           | None \<Rightarrow> stay ses rn)
      | None \<Rightarrow> stay ses rn)"

definition tick_one :: "int \<Rightarrow> nat \<Rightarrow> nat \<times> ProcedureRunner \<Rightarrow> nat \<times> ProcedureRunner" where
  "tick_one delta i st =
     (case slot_proc (snd st) i of
        Some p \<Rightarrow>
          (if action (fst (proc_tick delta p)) = A_Failed then fst st + 1 else fst st,
           put_proc i (snd (proc_tick delta p)) (snd st))
      | None \<Rightarrow> st)"

definition tickAll :: "int \<Rightarrow> ProcedureRunner \<Rightarrow> nat \<times> ProcedureRunner" where
  "tickAll delta rn = fold (tick_one delta) [0..<MAX_PROCEDURES] (0, rn)"

definition getActive :: "ProcedureType \<Rightarrow> ProcedureRunner \<Rightarrow> Procedure option" where
  "getActive t rn = Option.bind (find_slot (\<lambda>p. proc_type p = t) rn) (slot_proc rn)"

text \<open>A procedure is cancelled before it is destroyed; nothing of it is left.\<close>

definition cancelAll :: "ProcedureRunner \<Rightarrow> ProcedureRunner" where
  "cancelAll rn =
     (let wasActive = activeCount rn > 0;
          rn1 = rn\<lparr>rnSlots := map (\<lambda>s. if sl_active s then empty_slot else s) (rnSlots rn)\<rparr>
      in if wasActive then rn_notify False rn1 else rn1)"

section \<open>Invariant\<close>

definition slot_ok :: "ProcedureSlot \<Rightarrow> bool" where
  "slot_ok s \<longleftrightarrow>
     (case sl_proc s of
        None \<Rightarrow> \<not> sl_active s
      | Some p \<Rightarrow> sl_active s \<and> proc_inv p \<and> \<not> terminal (proc_state p))"

definition runner_inv :: "ProcedureRunner \<Rightarrow> bool" where
  "runner_inv rn \<longleftrightarrow> length (rnSlots rn) = MAX_PROCEDURES \<and> (\<forall>i < MAX_PROCEDURES. slot_ok (rnSlots rn ! i))"

definition rn_notes_ok :: "ProcedureRunner \<Rightarrow> bool" where
  "rn_notes_ok rn \<longleftrightarrow>
     (rnObserved rn \<longrightarrow>
        (\<forall>i < length (rnNotes rn). rnNotes rn ! i = even i) \<and>
        odd (length (rnNotes rn)) = (0 < activeCount rn))"

lemma active_iff: "0 < activeCount rn \<longleftrightarrow> (\<exists>i < MAX_PROCEDURES. sl_active (rnSlots rn ! i))"
  by (auto simp: activeCount_def filter_empty_conv)

lemma rn_notify_simps [simp]:
  "rnSlots (rn_notify b rn) = rnSlots rn" "rnObserved (rn_notify b rn) = rnObserved rn"
  "activeCount (rn_notify b rn) = activeCount rn" "slot_proc (rn_notify b rn) = slot_proc rn"
  by (simp_all add: rn_notify_def activeCount_def slot_proc_def fun_eq_iff)

lemma rn_set_simps [simp]:
  "rnSlots (rn_set i s rn) = (rnSlots rn)[i := s]" "rnObserved (rn_set i s rn) = rnObserved rn"
  "rnNotes (rn_set i s rn) = rnNotes rn"
  by (simp_all add: rn_set_def)

lemma find_slot_Some:
  "find_slot P rn = Some i \<longleftrightarrow>
   i < MAX_PROCEDURES \<and> (\<exists>p. slot_proc rn i = Some p \<and> P p) \<and>
   (\<forall>j < i. \<forall>p. slot_proc rn j = Some p \<longrightarrow> \<not> P p)"
  by (auto simp: find_slot_def find_upt_Some split: option.splits)

lemma find_slot_None:
  "find_slot P rn = None \<longleftrightarrow> (\<forall>i < MAX_PROCEDURES. \<forall>p. slot_proc rn i = Some p \<longrightarrow> \<not> P p)"
  by (auto simp: find_slot_def find_upt_None split: option.splits)

lemma slot_proc_ok:
  "runner_inv rn \<Longrightarrow> i < MAX_PROCEDURES \<Longrightarrow> slot_proc rn i = Some p \<Longrightarrow> proc_inv p \<and> \<not> terminal (proc_state p)"
  by (auto simp: runner_inv_def slot_ok_def slot_proc_def split: if_splits dest!: spec [of _ i])

lemma slots_of_put:
  assumes "length (rnSlots rn) = MAX_PROCEDURES" and "i < MAX_PROCEDURES"
  shows "rnSlots (put_proc i p rn) =
    (rnSlots rn)[i := if terminal (proc_state p) then empty_slot else \<lparr>sl_proc = Some p, sl_active = True\<rparr>]"
  using assms by (simp add: put_proc_def cleanupSlotIfTerminal_def slot_proc_def Let_def)

lemma put_inv:
  assumes "runner_inv rn" and "i < MAX_PROCEDURES" and "proc_inv p"
  shows "runner_inv (put_proc i p rn)"
  using assms slots_of_put [of rn i p]
  by (auto simp: runner_inv_def slot_ok_def empty_slot_def nth_list_update)

lemma put_notes:
  assumes inv: "runner_inv rn" and ok: "rn_notes_ok rn" and i: "i < MAX_PROCEDURES" "sl_active (rnSlots rn ! i)"
  shows "rn_notes_ok (put_proc i p rn)"
proof -
  define rn1 where "rn1 = rn_set i \<lparr>sl_proc = Some p, sl_active = True\<rparr> rn"
  have len: "length (rnSlots rn) = MAX_PROCEDURES" using inv by (simp add: runner_inv_def)
  have pos: "0 < activeCount rn" "0 < activeCount rn1"
    using i len by (auto simp: active_iff rn1_def nth_list_update)
  then have ok1: "rn_notes_ok rn1" using ok by (simp add: rn_notes_ok_def rn1_def)
  have "slot_proc rn1 i = Some p" using i len by (simp add: slot_proc_def rn1_def)
  then have "put_proc i p rn =
      (if terminal (proc_state p)
       then let rn2 = rn_set i empty_slot rn1 in if activeCount rn2 = 0 then rn_notify False rn2 else rn2
       else rn1)"
    using i(1) pos by (simp add: put_proc_def cleanupSlotIfTerminal_def rn1_def [symmetric] Let_def)
  moreover have "rn_notes_ok (let rn2 = rn_set i empty_slot rn1 in if activeCount rn2 = 0 then rn_notify False rn2 else rn2)"
    using ok1 pos
    by (auto simp: rn_notes_ok_def Let_def rn_notify_def nth_append less_Suc_eq) (simp_all add: activeCount_def)
  ultimately show ?thesis using ok1 by simp
qed

lemma insert_spec:
  assumes "runner_inv rn" and "insertSlot (Some p) rn = (Some i, rn1)"
  shows "i < MAX_PROCEDURES" and "\<not> sl_active (rnSlots rn ! i)"
    and "rnSlots rn1 = (rnSlots rn)[i := \<lparr>sl_proc = Some p, sl_active = True\<rparr>]"
    and "slot_proc rn1 i = Some p"
  using assms by (auto simp: insertSlot_def find_upt_Some Let_def slot_proc_def runner_inv_def split: option.splits if_splits)

lemma insert_inv:
  assumes "runner_inv rn" and "proc_inv p" and "\<not> terminal (proc_state p)"
    and "insertSlot (Some p) rn = (Some i, rn1)"
  shows "runner_inv rn1"
  using assms(1-3) insert_spec [OF assms(1,4)] by (auto simp: runner_inv_def slot_ok_def nth_list_update)

lemma insert_notes:
  assumes "runner_inv rn" and "rn_notes_ok rn" and "insertSlot (Some p) rn = (Some i, rn1)"
  shows "rn_notes_ok rn1"
proof -
  have "0 < activeCount rn1"
    using insert_spec [OF assms(1,3)] assms(1) by (auto simp: active_iff runner_inv_def intro!: exI [of _ i])
  moreover have "rnObserved rn1 = rnObserved rn \<and> (rnNotes rn1 = rnNotes rn \<and> 0 < activeCount rn \<or> \<not> rnObserved rn \<or>
      rnNotes rn1 = rnNotes rn @ [True] \<and> activeCount rn = 0)"
    using assms(3) by (auto simp: insertSlot_def Let_def rn_notify_def split: option.splits if_splits)
  ultimately show ?thesis using assms(2) by (auto simp: rn_notes_ok_def nth_append less_Suc_eq)
qed

lemma insert_none: "insertSlot q rn = (None, rn1) \<Longrightarrow> rn1 = rn"
  by (auto simp: insertSlot_def Let_def split: option.splits if_splits)

lemma auto_created: "autoCreateProcedure msg = Some p \<Longrightarrow> proc_inv p \<and> \<not> terminal (proc_state p)"
proof -
  assume "autoCreateProcedure msg = Some p"
  then have "factory_made p" by (auto simp: autoCreateProcedure_def Let_def factory_made_def split: if_splits)
  then show ?thesis using factory_inv [of p] by (simp add: terminal_def)
qed

lemma feed_slot_ok:
  assumes "runner_inv rn" and "i < MAX_PROCEDURES"
  shows "runner_inv (fo_proc (feed_slot sink msg ses i rn))"
    and "rn_notes_ok rn \<Longrightarrow> rn_notes_ok (fo_proc (feed_slot sink msg ses i rn))"
  using assms slot_proc_ok [OF assms] put_inv [OF assms] put_notes [OF assms(1) _ assms(2)] proc.feed_inv
  by (auto simp: feed_slot_def with_runner_def stay_def slot_proc_def split: option.splits if_splits)

lemma runner_feed_ok:
  assumes inv: "runner_inv rn"
  shows "runner_inv (fo_proc (runner_feed sink msg ses rn))"
    and "rn_notes_ok rn \<Longrightarrow> rn_notes_ok (fo_proc (runner_feed sink msg ses rn))"
proof -
  let ?ok = "\<lambda>r. runner_inv (fo_proc r) \<and> (rn_notes_ok rn \<longrightarrow> rn_notes_ok (fo_proc r))"
  have slot: "?ok (feed_slot sink msg ses i rn)" if "i < MAX_PROCEDURES" for i
    using feed_slot_ok [OF inv that] by blast
  have new: "?ok (case insertSlot (autoCreateProcedure msg) rn of
      (Some i, rn1) \<Rightarrow> feed_slot sink msg (ses_respond rc_reset ses) i rn1 | (None, rn1) \<Rightarrow> stay ses rn1)"
  proof (cases "insertSlot (autoCreateProcedure msg) rn")
    case (Pair target rn1)
    show ?thesis
    proof (cases target)
      case None
      then show ?thesis using Pair insert_none [of "autoCreateProcedure msg" rn rn1] inv by (simp add: stay_def)
    next
      case (Some i)
      then obtain p where p: "autoCreateProcedure msg = Some p"
        using Pair by (auto simp: insertSlot_def split: option.splits)
      then have "runner_inv rn1" "i < MAX_PROCEDURES" "rn_notes_ok rn \<Longrightarrow> rn_notes_ok rn1"
        using Pair Some auto_created [OF p] insert_inv [OF inv] insert_spec(1) [OF inv] insert_notes [OF inv]
        by auto
      then show ?thesis using Pair Some feed_slot_ok [of rn1 i] by simp
    qed
  qed
  have "?ok (runner_feed sink msg ses rn)"
    using slot new by (auto simp: runner_feed_def findActiveSlotByPD_def find_slot_Some split: option.split)
  then show "runner_inv (fo_proc (runner_feed sink msg ses rn))"
    and "rn_notes_ok rn \<Longrightarrow> rn_notes_ok (fo_proc (runner_feed sink msg ses rn))"
    by blast+
qed

lemma runner_ext_ok:
  assumes "runner_inv rn"
  shows "runner_inv (fo_proc (runner_feedExternalTyped t d ses rn))"
    and "rn_notes_ok rn \<Longrightarrow> rn_notes_ok (fo_proc (runner_feedExternalTyped t d ses rn))"
proof -
  have "runner_inv (put_proc i (fo_proc (proc_ext d ses p)) rn) \<and>
      (rn_notes_ok rn \<longrightarrow> rn_notes_ok (put_proc i (fo_proc (proc_ext d ses p)) rn))"
    if "i < MAX_PROCEDURES" "slot_proc rn i = Some p" for i p
    using that slot_proc_ok [OF assms that] put_inv [OF assms that(1)] put_notes [OF assms _ that(1)] proc.ext_inv
    by (auto simp: slot_proc_def split: if_splits)
  then show "runner_inv (fo_proc (runner_feedExternalTyped t d ses rn))"
    and "rn_notes_ok rn \<Longrightarrow> rn_notes_ok (fo_proc (runner_feedExternalTyped t d ses rn))"
    using assms by (auto simp: runner_feedExternalTyped_def with_runner_def stay_def find_slot_Some split: option.split)
qed

lemma tick_one_ok:
  assumes "runner_inv (snd st)" and "i < MAX_PROCEDURES"
  shows "runner_inv (snd (tick_one delta i st)) \<and>
    (rn_notes_ok (snd st) \<longrightarrow> rn_notes_ok (snd (tick_one delta i st)))"
  using slot_proc_ok [OF assms] put_inv [OF assms] put_notes [OF assms(1) _ assms(2)] proc.tick_inv assms(1)
  by (auto simp: tick_one_def slot_proc_def split: option.splits if_splits)

lemma tickAll_ok:
  assumes "runner_inv rn"
  shows "runner_inv (snd (tickAll delta rn)) \<and> (rn_notes_ok rn \<longrightarrow> rn_notes_ok (snd (tickAll delta rn)))"
proof -
  have "runner_inv (snd (fold (tick_one delta) js st)) \<and>
      (rn_notes_ok (snd st) \<longrightarrow> rn_notes_ok (snd (fold (tick_one delta) js st)))"
    if "set js \<subseteq> {..<MAX_PROCEDURES}" and "runner_inv (snd st)" for js st
    using that
  proof (induction js arbitrary: st)
    case (Cons j js)
    then show ?case using tick_one_ok [of st j delta] by auto
  qed simp
  from this [of "[0..<MAX_PROCEDURES]" "(0, rn)"] assms
  show ?thesis by (auto simp: tickAll_def atLeast0LessThan)
qed

lemma cancelAll_slots: "rnSlots (cancelAll rn) = map (\<lambda>s. if sl_active s then empty_slot else s) (rnSlots rn)"
  by (simp add: cancelAll_def Let_def)

lemma cancelAll_ok:
  assumes "runner_inv rn"
  shows "runner_inv (cancelAll rn)" and "activeCount (cancelAll rn) = 0"
    and "rn_notes_ok rn \<Longrightarrow> rn_notes_ok (cancelAll rn)"
proof -
  have len: "length (rnSlots rn) = MAX_PROCEDURES" using assms by (simp add: runner_inv_def)
  show "runner_inv (cancelAll rn)" using assms by (auto simp: runner_inv_def cancelAll_slots slot_ok_def empty_slot_def)
  show none: "activeCount (cancelAll rn) = 0"
    using len active_iff [of "cancelAll rn"] by (auto simp: cancelAll_slots empty_slot_def split: if_splits)
  assume "rn_notes_ok rn"
  then show "rn_notes_ok (cancelAll rn)"
    using none by (auto simp: rn_notes_ok_def cancelAll_def Let_def rn_notify_def nth_append less_Suc_eq)
qed

section \<open>Reachable runners\<close>

text \<open>
  A runner is built empty, with or without an observer, and then driven by messages, data from the network side,
  clock ticks and cancellations in any order, on any session.
\<close>

inductive runner_reachable :: "ProcedureRunner \<Rightarrow> bool" where
  start: "runner_reachable (runner0\<lparr>rnObserved := b\<rparr>)"
| feed: "runner_reachable rn \<Longrightarrow> runner_reachable (fo_proc (runner_feed sink msg ses rn))"
| ext: "runner_reachable rn \<Longrightarrow> runner_reachable (fo_proc (runner_feedExternalTyped t d ses rn))"
| tick: "runner_reachable rn \<Longrightarrow> runner_reachable (snd (tickAll delta rn))"
| cancel: "runner_reachable rn \<Longrightarrow> runner_reachable (cancelAll rn)"

text \<open>
  C22. Whatever sequence of messages, external data, ticks and cancellations a runner is driven with, each of its eight slots
  is empty or holds a live procedure that keeps the class invariant (a finished procedure never stays in a slot), and an
  observer registered at the start has been told, strictly in alternation, that the subscriber became active and
  inactive again, the last message agreeing with whether a slot is occupied now.
\<close>

theorem runner_invariant:
  assumes "runner_reachable rn"
  shows "runner_inv rn \<and> rn_notes_ok rn"
  using assms
proof induction
  case (start b)
  then show ?case
    by (simp add: runner_inv_def rn_notes_ok_def runner0_def slot_ok_def empty_slot_def activeCount_def MAX_PROCEDURES_def upt_rec)
next
  case (tick rn delta)
  then show ?case using tickAll_ok by blast
qed (simp_all add: runner_feed_ok runner_ext_ok cancelAll_ok)

theorem runner_invariant_witness:
  "runner_inv (cancelAll (runner0\<lparr>rnObserved := True\<rparr>)) \<and> rn_notes_ok (cancelAll (runner0\<lparr>rnObserved := True\<rparr>))"
  by (rule runner_invariant) (intro runner_reachable.intros)

definition detach_msg :: ParsedMessage where
  "detach_msg = \<lparr>messagePD = MobilityManagement, messageMTI = MTI_IMSIDetachIndication, messageTI = 0, messageBody = OtherBody\<rparr>"

text \<open>What it means that a message is handed to the procedure \<open>p\<close> of slot \<open>i\<close>, and to nothing else.\<close>

definition delivered ::
  "bool \<Rightarrow> ParsedMessage \<Rightarrow> Session option \<Rightarrow> nat \<Rightarrow> Procedure \<Rightarrow> ProcedureRunner \<Rightarrow> ProcedureRunner FeedOut \<Rightarrow> bool" where
  "delivered sink msg ses i p rn out \<longleftrightarrow>
     (let fed = proc_feed sink msg ses p
      in fo_result out = fo_result fed \<and> fo_calls out = fo_calls fed \<and> fo_session out = fo_session fed \<and>
         slot_proc (fo_proc out) i = (if terminal (proc_state (fo_proc fed)) then None else Some (fo_proc fed)) \<and>
         (\<forall>j. j \<noteq> i \<longrightarrow> rnSlots (fo_proc out) ! j = rnSlots rn ! j))"

definition nobody_before :: "nat \<Rightarrow> (Procedure \<Rightarrow> bool) \<Rightarrow> ProcedureRunner \<Rightarrow> bool" where
  "nobody_before k P rn \<longleftrightarrow> (\<forall>j < k. \<forall>q. slot_proc rn j = Some q \<longrightarrow> \<not> P q)"

lemma nobody_find: "nobody_before MAX_PROCEDURES P rn \<longleftrightarrow> find_slot P rn = None"
  by (simp add: nobody_before_def find_slot_None)

lemma feed_slot_delivered:
  assumes "length (rnSlots rn) = MAX_PROCEDURES" and "i < MAX_PROCEDURES" and "slot_proc rn i = Some p"
  shows "delivered sink msg ses i p rn (feed_slot sink msg ses i rn)"
  using assms
  by (simp add: delivered_def Let_def feed_slot_def with_runner_def slots_of_put slot_proc_def empty_slot_def)

lemma routed_match:
  assumes "runner_inv rn" and i: "i < MAX_PROCEDURES" and p: "slot_proc rn i = Some p" "proc_matches msg p"
    and "nobody_before i (proc_matches msg) rn"
  shows "delivered sink msg ses i p rn (runner_feed sink msg ses rn)"
proof -
  have "find_slot (proc_matches msg) rn = Some i" using assms by (auto simp: find_slot_Some nobody_before_def)
  then show ?thesis
    using feed_slot_delivered [OF _ i p(1)] assms(1) by (simp add: runner_feed_def runner_inv_def)
qed

lemma routed_default:
  assumes "runner_inv rn" and i: "i < MAX_PROCEDURES" and p: "slot_proc rn i = Some p"
    and ty: "proc_type p = pdToProcedureType (messagePD msg)"
    and "nobody_before MAX_PROCEDURES (proc_matches msg) rn"
    and "nobody_before i (\<lambda>q. proc_type q = pdToProcedureType (messagePD msg)) rn"
  shows "delivered sink msg ses i p rn (runner_feed sink msg ses rn)"
proof -
  have "findActiveSlotByPD (messagePD msg) rn = Some i"
    using assms by (auto simp: findActiveSlotByPD_def find_slot_Some nobody_before_def)
  then show ?thesis
    using feed_slot_delivered [OF _ i p] assms(1,5) by (simp add: runner_feed_def nobody_find runner_inv_def)
qed

definition unclaimed :: "ParsedMessage \<Rightarrow> ProcedureRunner \<Rightarrow> bool" where
  "unclaimed msg rn \<longleftrightarrow>
     nobody_before MAX_PROCEDURES (proc_matches msg) rn \<and>
     nobody_before MAX_PROCEDURES (\<lambda>q. proc_type q = pdToProcedureType (messagePD msg)) rn"

lemma routed_new:
  assumes inv: "runner_inv rn" and i: "i < MAX_PROCEDURES" and p: "autoCreateProcedure msg = Some p"
    and "unclaimed msg rn" and free: "\<not> sl_active (rnSlots rn ! i)" "\<forall>j < i. sl_active (rnSlots rn ! j)"
  shows "delivered sink msg (ses_respond rc_reset ses) i p rn (runner_feed sink msg ses rn)"
proof -
  have "List.find (\<lambda>i. \<not> sl_active (rnSlots rn ! i)) [0..<MAX_PROCEDURES] = Some i"
    using free i by (simp add: find_upt_Some)
  then obtain rn1 where rn1: "insertSlot (Some p) rn = (Some i, rn1)" by (auto simp: insertSlot_def Let_def)
  have "length (rnSlots rn1) = MAX_PROCEDURES" using insert_spec(3) [OF inv rn1] inv by (simp add: runner_inv_def)
  then have "delivered sink msg (ses_respond rc_reset ses) i p rn1 (feed_slot sink msg (ses_respond rc_reset ses) i rn1)"
    using feed_slot_delivered i insert_spec(4) [OF inv rn1] by blast
  then show ?thesis
    using assms(4) p rn1 insert_spec(3) [OF inv rn1]
    by (simp add: runner_feed_def nobody_find findActiveSlotByPD_def delivered_def unclaimed_def)
qed

lemma routed_nowhere:
  assumes "unclaimed msg rn" and "autoCreateProcedure msg = None \<or> (\<forall>j < MAX_PROCEDURES. sl_active (rnSlots rn ! j))"
  shows "runner_feed sink msg ses rn = stay ses rn"
proof -
  have "insertSlot (autoCreateProcedure msg) rn = (None, rn)"
    using assms(2) by (auto simp: insertSlot_def find_upt_Some split: option.split)
  then show ?thesis using assms(1) by (simp add: runner_feed_def nobody_find findActiveSlotByPD_def unclaimed_def)
qed

text \<open>
  C23. A message goes to the first occupied slot whose procedure accepts it; when there is none, to the first procedure of the
  default type of its protocol discriminator; when there is none either, a procedure is created for it in the first
  free slot, on a session whose response parameters are cleared. In each case that procedure is fed once, the result is
  its result and no other slot changes. Without a procedure to create or a free slot, nothing changes.
\<close>

theorem runner_routing:
  assumes "runner_inv rn"
  shows "(\<forall>i p. i < MAX_PROCEDURES \<and> slot_proc rn i = Some p \<and> proc_matches msg p \<and>
        nobody_before i (proc_matches msg) rn \<longrightarrow>
        delivered sink msg ses i p rn (runner_feed sink msg ses rn)) \<and>
    (\<forall>i p. i < MAX_PROCEDURES \<and> slot_proc rn i = Some p \<and> proc_type p = pdToProcedureType (messagePD msg) \<and>
        nobody_before MAX_PROCEDURES (proc_matches msg) rn \<and>
        nobody_before i (\<lambda>q. proc_type q = pdToProcedureType (messagePD msg)) rn \<longrightarrow>
        delivered sink msg ses i p rn (runner_feed sink msg ses rn)) \<and>
    (\<forall>i p. i < MAX_PROCEDURES \<and> unclaimed msg rn \<and> autoCreateProcedure msg = Some p \<and>
        \<not> sl_active (rnSlots rn ! i) \<and> (\<forall>j < i. sl_active (rnSlots rn ! j)) \<longrightarrow>
        delivered sink msg (ses_respond rc_reset ses) i p rn (runner_feed sink msg ses rn)) \<and>
    (unclaimed msg rn \<and> (autoCreateProcedure msg = None \<or> (\<forall>j < MAX_PROCEDURES. sl_active (rnSlots rn ! j))) \<longrightarrow>
        runner_feed sink msg ses rn = stay ses rn)"
  using assms by (simp add: routed_match routed_default routed_new routed_nowhere)

theorem runner_routing_witness:
  "delivered True detach_msg None 0 createIMSIDetach runner0 (runner_feed True detach_msg None runner0)"
proof -
  have inv: "runner_inv runner0"
    by (simp add: runner_inv_def runner0_def slot_ok_def empty_slot_def)
  have quiet: "unclaimed detach_msg runner0"
    by (simp add: unclaimed_def nobody_before_def slot_proc_def runner0_def empty_slot_def)
  have made: "autoCreateProcedure detach_msg = Some createIMSIDetach"
    by (simp add: autoCreateProcedure_def detach_msg_def)
  show ?thesis
    using runner_routing [OF inv, of detach_msg True None] quiet made
    by (auto simp: MAX_PROCEDURES_def runner0_def empty_slot_def ses_respond_def dest!: spec [of _ 0])
qed

text \<open>
  A Location Updating Request is not among the messages a procedure is created for; the service type that would start one
  does not fit the four bits that \<^verbatim>\<open>L3CMServiceRequest::parse\<close> keeps of the octet.
\<close>

lemma no_location_update_created:
  assumes "\<And>t. messageBody msg = CMServiceRequestBody t \<Longrightarrow> t < 16"
  shows "autoCreateProcedure msg \<noteq> Some createLocationUpdate"
proof -
  have "messageBody msg \<noteq> CMServiceRequestBody LocationUpdateRequest"
  proof
    assume "messageBody msg = CMServiceRequestBody LocationUpdateRequest"
    then have "LocationUpdateRequest < 16" by (rule assms)
    then show False by (simp add: LocationUpdateRequest_def)
  qed
  then show ?thesis by (simp add: autoCreateProcedure_def Let_def create_defs)
qed

end
