(* ===== verification/Channel_Pool.thy ===== *)
theory Channel_Pool
  imports L3_Elements
begin

text \<open>
  The pool of logical channels of a base station: \<^verbatim>\<open>stack/channel_pool.h\<close> and
  \<^verbatim>\<open>stack/channel_pool.cpp\<close>. The arrays of per-type vectors and per-type hash sets are functions from
  the channel type to a list (the back of the vector is the last element) and to a finite set.
\<close>

section \<open>State\<close>

record ChannelDescriptor =
  cd_type :: ChannelType
  cd_trxNumber :: u8
  cd_timeslot :: u8
  cd_arfcn :: "16 word"

record ChannelPool =
  mFreeByType :: "ChannelType \<Rightarrow> ChannelDescriptor list"
  mAllocatedByType :: "ChannelType \<Rightarrow> ChannelDescriptor set"

definition pool0 :: ChannelPool where
  "pool0 = \<lparr>mFreeByType = (\<lambda>_. []), mAllocatedByType = (\<lambda>_. {})\<rparr>"

definition channelTypes :: "ChannelType list" where
  "channelTypes =
     [SCHType, FCCHType, BCCHType, CCCHType, RACHType, SACCHType, CBCHType, SDCCHType, FACCHType, TCHFType,
      TCHHType, AnyTCHType, PDTCHCS1Type, PDTCHCS2Type, PDTCHCS3Type, PDTCHCS4Type, LoopbackFullType,
      LoopbackHalfType, AnyDCCHType, UndefinedCHType]"

section \<open>The channel request\<close>

definition decodeChannelNeeded :: "u8 \<Rightarrow> bool \<Rightarrow> bool \<Rightarrow> ChannelType" where
  "decodeChannelNeeded ra neci vea =
     (if ra < 0x20 then SDCCHType
      else if ra < 0x30 then TCHFType
      else if ra < 0x40 then TCHHType
      else if ra < 0x60 then TCHHType
      else if ra < 0x68 then SDCCHType
      else if ra < 0x70 then TCHHType
      else if ra < 0x80 then UndefinedCHType
      else if ra < 0xA0 then TCHFType
      else if ra < 0xC0 then TCHFType
      else if vea then TCHFType else SDCCHType)"

definition isLocationUpdatingRequest :: "u8 \<Rightarrow> bool \<Rightarrow> bool" where
  "isLocationUpdatingRequest ra neci \<longleftrightarrow> ra < 0x10"

section \<open>Operations\<close>

definition addChannel :: "ChannelDescriptor \<Rightarrow> ChannelPool \<Rightarrow> ChannelPool" where
  "addChannel d p = p\<lparr>mFreeByType := (mFreeByType p)(cd_type d := mFreeByType p (cd_type d) @ [d])\<rparr>"

definition knowsChannel :: "ChannelDescriptor \<Rightarrow> ChannelPool \<Rightarrow> bool" where
  "knowsChannel d p \<longleftrightarrow> d \<in> set (mFreeByType p (cd_type d)) \<or> d \<in> mAllocatedByType p (cd_type d)"

definition removeFromFreeList :: "ChannelType \<Rightarrow> ChannelDescriptor \<Rightarrow> ChannelPool \<Rightarrow> bool \<times> ChannelPool" where
  "removeFromFreeList t d p =
     (if d \<in> set (mFreeByType p t)
      then (True, p\<lparr>mFreeByType := (mFreeByType p)(t := remove1 d (mFreeByType p t))\<rparr>)
      else (False, p))"

definition removeChannel :: "ChannelDescriptor \<Rightarrow> ChannelPool \<Rightarrow> bool \<times> ChannelPool" where
  "removeChannel d p =
     (if \<not> knowsChannel d p then (False, p)
      else case removeFromFreeList (cd_type d) d p of
        (True, p1) \<Rightarrow> (True, p1)
      | (False, p1) \<Rightarrow>
          if d \<in> mAllocatedByType p1 (cd_type d)
          then (True, p1\<lparr>mAllocatedByType := (mAllocatedByType p1)(cd_type d := mAllocatedByType p1 (cd_type d) - {d})\<rparr>)
          else (False, p1))"

definition pool_allocate :: "ChannelType \<Rightarrow> ChannelPool \<Rightarrow> ChannelDescriptor option \<times> ChannelPool" where
  "pool_allocate t p =
     (let freeVec = mFreeByType p t
      in if freeVec = [] then (None, p)
      else let ch = last freeVec; p1 = p\<lparr>mFreeByType := (mFreeByType p)(t := butlast freeVec)\<rparr>
      in (Some ch,
          p1\<lparr>mAllocatedByType := (mAllocatedByType p1)(cd_type ch := insert ch (mAllocatedByType p1 (cd_type ch)))\<rparr>))"

definition pool_release :: "ChannelDescriptor \<Rightarrow> ChannelPool \<Rightarrow> bool \<times> ChannelPool" where
  "pool_release d p =
     (let t = cd_type d
      in if d \<notin> mAllocatedByType p t then (False, p)
      else (True, p\<lparr>mAllocatedByType := (mAllocatedByType p)(t := mAllocatedByType p t - {d}),
                    mFreeByType := (mFreeByType p)(t := mFreeByType p t @ [d])\<rparr>))"

definition isFree :: "ChannelDescriptor \<Rightarrow> ChannelPool \<Rightarrow> bool" where
  "isFree d p = list_ex (\<lambda>ch. ch = d) (mFreeByType p (cd_type d))"

definition freeCount :: "ChannelType \<Rightarrow> ChannelPool \<Rightarrow> nat" where
  "freeCount t p = length (mFreeByType p t)"

definition allocatedCount :: "ChannelType \<Rightarrow> ChannelPool \<Rightarrow> nat" where
  "allocatedCount t p = card (mAllocatedByType p t)"

definition totalCount :: "ChannelPool \<Rightarrow> nat" where
  "totalCount p =
     sum_list (map (\<lambda>t. length (mFreeByType p t)) channelTypes) +
     sum_list (map (\<lambda>t. card (mAllocatedByType p t)) channelTypes)"

definition freeChannels :: "ChannelType \<Rightarrow> ChannelPool \<Rightarrow> ChannelDescriptor list" where
  "freeChannels t p = mFreeByType p t"

definition allocateVEA :: "u8 \<Rightarrow> ChannelPool \<Rightarrow> ChannelDescriptor option \<times> ChannelPool" where
  "allocateVEA ra p =
     (if 0xC0 \<le> ra
      then (case pool_allocate TCHFType p of
              (Some tch, p1) \<Rightarrow> (Some tch, p1)
            | (None, p1) \<Rightarrow>
                (case pool_allocate TCHHType p1 of
                   (Some tchh, p2) \<Rightarrow> (Some tchh, p2)
                 | (None, p2) \<Rightarrow> pool_allocate SDCCHType p2))
      else let needed = decodeChannelNeeded ra False False
      in if needed = UndefinedCHType then (None, p) else pool_allocate needed p)"

section \<open>Abstract pool\<close>

text \<open>
  A pool is a finite set of registered channels, some of which are in use. The concrete pool represents it
  when no channel is registered twice: the free vectors have no duplicates, hold channels of their type, and no
  channel is both free and in use.
\<close>

record AbsPool =
  ap_registered :: "ChannelDescriptor set"
  ap_used :: "ChannelDescriptor set"

definition free_set :: "ChannelPool \<Rightarrow> ChannelDescriptor set" where
  "free_set p = {d. d \<in> set (mFreeByType p (cd_type d))}"

definition used_set :: "ChannelPool \<Rightarrow> ChannelDescriptor set" where
  "used_set p = {d. d \<in> mAllocatedByType p (cd_type d)}"

definition pool_abs :: "ChannelPool \<Rightarrow> AbsPool" where
  "pool_abs p = \<lparr>ap_registered = free_set p \<union> used_set p, ap_used = used_set p\<rparr>"

definition pool_inv :: "ChannelPool \<Rightarrow> bool" where
  "pool_inv p \<longleftrightarrow>
     (\<forall>t. distinct (mFreeByType p t) \<and> (\<forall>d \<in> set (mFreeByType p t). cd_type d = t) \<and>
          finite (mAllocatedByType p t) \<and> (\<forall>d \<in> mAllocatedByType p t. cd_type d = t) \<and>
          set (mFreeByType p t) \<inter> mAllocatedByType p t = {})"

text \<open>What each operation does to the abstract pool. An allocation takes any free channel of the type.\<close>

datatype PoolOp = Op_add ChannelDescriptor | Op_remove ChannelDescriptor | Op_allocate ChannelType
  | Op_release ChannelDescriptor | Op_vea u8

datatype PoolResult = R_none | R_bool bool | R_channel "ChannelDescriptor option"

definition available :: "AbsPool \<Rightarrow> ChannelType \<Rightarrow> ChannelDescriptor set" where
  "available a t = {d \<in> ap_registered a - ap_used a. cd_type d = t}"

definition takes :: "ChannelType list \<Rightarrow> AbsPool \<Rightarrow> ChannelDescriptor option \<Rightarrow> AbsPool \<Rightarrow> bool" where
  "takes ts a r b \<longleftrightarrow>
     (case List.find (\<lambda>t. available a t \<noteq> {}) ts of
        None \<Rightarrow> r = None \<and> b = a
      | Some t \<Rightarrow> \<exists>d \<in> available a t. r = Some d \<and> b = a\<lparr>ap_used := insert d (ap_used a)\<rparr>)"

definition vea_types :: "u8 \<Rightarrow> ChannelType list" where
  "vea_types ra =
     (if 0xC0 \<le> ra then [TCHFType, TCHHType, SDCCHType]
      else if 0x70 \<le> ra \<and> ra < 0x80 then [] else [decodeChannelNeeded ra False False])"

fun abs_step :: "PoolOp \<Rightarrow> AbsPool \<Rightarrow> PoolResult \<Rightarrow> AbsPool \<Rightarrow> bool" where
  "abs_step (Op_add d) a r b \<longleftrightarrow> r = R_none \<and> b = a\<lparr>ap_registered := insert d (ap_registered a)\<rparr>"
| "abs_step (Op_remove d) a r b \<longleftrightarrow> r = R_bool (d \<in> ap_registered a) \<and>
     b = \<lparr>ap_registered = ap_registered a - {d}, ap_used = ap_used a - {d}\<rparr>"
| "abs_step (Op_allocate t) a r b \<longleftrightarrow> (\<exists>c. r = R_channel c \<and> takes [t] a c b)"
| "abs_step (Op_release d) a r b \<longleftrightarrow> r = R_bool (d \<in> ap_used a) \<and> b = a\<lparr>ap_used := ap_used a - {d}\<rparr>"
| "abs_step (Op_vea ra) a r b \<longleftrightarrow> (\<exists>c. r = R_channel c \<and> takes (vea_types ra) a c b)"

fun pool_step :: "PoolOp \<Rightarrow> ChannelPool \<Rightarrow> PoolResult \<times> ChannelPool" where
  "pool_step (Op_add d) p = (R_none, addChannel d p)"
| "pool_step (Op_remove d) p = map_prod R_bool id (removeChannel d p)"
| "pool_step (Op_allocate t) p = map_prod R_channel id (pool_allocate t p)"
| "pool_step (Op_release d) p = map_prod R_bool id (pool_release d p)"
| "pool_step (Op_vea ra) p = map_prod R_channel id (allocateVEA ra p)"

text \<open>A channel is registered once: it is added only when the pool does not know it.\<close>

fun op_ok :: "PoolOp \<Rightarrow> ChannelPool \<Rightarrow> bool" where
  "op_ok (Op_add d) p \<longleftrightarrow> \<not> knowsChannel d p"
| "op_ok _ p \<longleftrightarrow> True"

lemma channelTypes_all: "t \<in> set channelTypes" "distinct channelTypes"
  by (cases t) (simp_all add: channelTypes_def)

lemma pool_invD:
  assumes "pool_inv p"
  shows "distinct (mFreeByType p t)" "finite (mAllocatedByType p t)"
    and "d \<in> set (mFreeByType p t) \<Longrightarrow> cd_type d = t" "d \<in> mAllocatedByType p t \<Longrightarrow> cd_type d = t"
    and "d \<in> set (mFreeByType p t) \<Longrightarrow> d \<notin> mAllocatedByType p t"
  using assms by (auto simp: pool_inv_def)

lemma free_of_type:
  assumes "pool_inv p"
  shows "available (pool_abs p) t = set (mFreeByType p t)"
  using pool_invD [OF assms] by (auto simp: available_def pool_abs_def free_set_def used_set_def)

text \<open>Every operation changes the two containers of one type.\<close>

definition pool_set :: "ChannelType \<Rightarrow> ChannelDescriptor list \<Rightarrow> ChannelDescriptor set \<Rightarrow> ChannelPool \<Rightarrow> ChannelPool" where
  "pool_set t fs us p =
     p\<lparr>mFreeByType := (mFreeByType p)(t := fs), mAllocatedByType := (mAllocatedByType p)(t := us)\<rparr>"

lemma pool_set_same: "pool_set t (mFreeByType p t) (mAllocatedByType p t) p = p"
  by (simp add: pool_set_def)

lemma pool_set_inv:
  assumes "pool_inv p" and "distinct fs" and "finite us" and "set fs \<inter> us = {}" and "\<forall>d \<in> set fs \<union> us. cd_type d = t"
  shows "pool_inv (pool_set t fs us p)"
  using assms by (simp add: pool_inv_def pool_set_def)

lemma pool_set_abs:
  assumes "\<forall>d \<in> set fs \<union> us. cd_type d = t"
  shows "pool_abs (pool_set t fs us p) =
    \<lparr>ap_registered = {d \<in> ap_registered (pool_abs p). cd_type d \<noteq> t} \<union> set fs \<union> us,
     ap_used = {d \<in> ap_used (pool_abs p). cd_type d \<noteq> t} \<union> us\<rparr>"
  using assms by (auto simp: pool_abs_def pool_set_def free_set_def used_set_def)

lemma abs_split:
  assumes "pool_inv p"
  shows "ap_registered (pool_abs p) =
      {d \<in> ap_registered (pool_abs p). cd_type d \<noteq> t} \<union> set (mFreeByType p t) \<union> mAllocatedByType p t"
    and "ap_used (pool_abs p) = {d \<in> ap_used (pool_abs p). cd_type d \<noteq> t} \<union> mAllocatedByType p t"
  using pool_invD [OF assms] by (auto simp: pool_abs_def free_set_def used_set_def)

lemma in_abs:
  "d \<in> ap_registered (pool_abs p) \<longleftrightarrow> knowsChannel d p"
  "d \<in> ap_used (pool_abs p) \<longleftrightarrow> d \<in> mAllocatedByType p (cd_type d)"
  by (auto simp: pool_abs_def free_set_def used_set_def knowsChannel_def)

lemma add_step:
  assumes inv: "pool_inv p" and new: "\<not> knowsChannel d p"
  shows "pool_inv (addChannel d p)"
    and "pool_abs (addChannel d p) = (pool_abs p)\<lparr>ap_registered := insert d (ap_registered (pool_abs p))\<rparr>"
proof -
  let ?t = "cd_type d"
  have eq: "addChannel d p = pool_set ?t (mFreeByType p ?t @ [d]) (mAllocatedByType p ?t) p"
    by (simp add: addChannel_def pool_set_def)
  show "pool_inv (addChannel d p)"
    unfolding eq using pool_invD [OF inv] new by (intro pool_set_inv) (auto simp: inv knowsChannel_def)
  have "pool_abs (addChannel d p) =
      \<lparr>ap_registered = {c \<in> ap_registered (pool_abs p). cd_type c \<noteq> ?t} \<union> set (mFreeByType p ?t @ [d]) \<union> mAllocatedByType p ?t,
       ap_used = {c \<in> ap_used (pool_abs p). cd_type c \<noteq> ?t} \<union> mAllocatedByType p ?t\<rparr>"
    unfolding eq using pool_invD [OF inv] by (intro pool_set_abs) auto
  then show "pool_abs (addChannel d p) = (pool_abs p)\<lparr>ap_registered := insert d (ap_registered (pool_abs p))\<rparr>"
    using abs_split [OF inv, of ?t] by (intro AbsPool.equality) auto
qed

lemma remove_eq:
  assumes inv: "pool_inv p"
  shows "removeChannel d p =
    (knowsChannel d p,
     pool_set (cd_type d) (remove1 d (mFreeByType p (cd_type d))) (mAllocatedByType p (cd_type d) - {d}) p)"
proof -
  have "d \<in> set (mFreeByType p (cd_type d)) \<Longrightarrow> mAllocatedByType p (cd_type d) - {d} = mAllocatedByType p (cd_type d)"
    using pool_invD(5) [OF inv] by blast
  then show ?thesis
    by (auto simp: removeChannel_def knowsChannel_def removeFromFreeList_def pool_set_def remove1_idem)
qed

lemma remove_step:
  assumes inv: "pool_inv p"
  shows "pool_inv (snd (removeChannel d p))"
    and "fst (removeChannel d p) = (d \<in> ap_registered (pool_abs p))"
    and "pool_abs (snd (removeChannel d p)) =
      \<lparr>ap_registered = ap_registered (pool_abs p) - {d}, ap_used = ap_used (pool_abs p) - {d}\<rparr>"
proof -
  let ?t = "cd_type d"
  note D = pool_invD [OF inv]
  have rem: "set (remove1 d (mFreeByType p ?t)) = set (mFreeByType p ?t) - {d}" using D(1) by simp
  show "fst (removeChannel d p) = (d \<in> ap_registered (pool_abs p))" by (simp add: remove_eq [OF inv] in_abs)
  show "pool_inv (snd (removeChannel d p))"
    unfolding remove_eq [OF inv] snd_conv using D by (intro pool_set_inv) (auto simp: inv rem)
  have "pool_abs (snd (removeChannel d p)) =
      \<lparr>ap_registered = {c \<in> ap_registered (pool_abs p). cd_type c \<noteq> ?t} \<union> set (remove1 d (mFreeByType p ?t)) \<union> (mAllocatedByType p ?t - {d}),
       ap_used = {c \<in> ap_used (pool_abs p). cd_type c \<noteq> ?t} \<union> (mAllocatedByType p ?t - {d})\<rparr>"
    unfolding remove_eq [OF inv] snd_conv using D by (intro pool_set_abs) (auto simp: rem)
  then show "pool_abs (snd (removeChannel d p)) =
      \<lparr>ap_registered = ap_registered (pool_abs p) - {d}, ap_used = ap_used (pool_abs p) - {d}\<rparr>"
    using abs_split [OF inv, of ?t] by (intro AbsPool.equality) (auto simp: rem)
qed

lemma release_step:
  assumes inv: "pool_inv p"
  shows "pool_inv (snd (pool_release d p))"
    and "fst (pool_release d p) = (d \<in> ap_used (pool_abs p))"
    and "pool_abs (snd (pool_release d p)) = (pool_abs p)\<lparr>ap_used := ap_used (pool_abs p) - {d}\<rparr>"
proof -
  let ?t = "cd_type d"
  note D = pool_invD [OF inv]
  show "fst (pool_release d p) = (d \<in> ap_used (pool_abs p))" by (simp add: pool_release_def Let_def in_abs)
  have idle: "pool_release d p = (False, p)" if "d \<notin> mAllocatedByType p ?t" using that by (simp add: pool_release_def)
  have eq: "snd (pool_release d p) = pool_set ?t (mFreeByType p ?t @ [d]) (mAllocatedByType p ?t - {d}) p"
    if "d \<in> mAllocatedByType p ?t"
    using that by (simp add: pool_release_def Let_def pool_set_def)
  show "pool_inv (snd (pool_release d p))"
  proof (cases "d \<in> mAllocatedByType p ?t")
    case True
    have "d \<notin> set (mFreeByType p ?t)" using D(5) True by blast
    then show ?thesis unfolding eq [OF True] using D(1-4) D(5) [of _ ?t] by (intro pool_set_inv) (auto simp: inv)
  qed (simp add: idle inv)
  show "pool_abs (snd (pool_release d p)) = (pool_abs p)\<lparr>ap_used := ap_used (pool_abs p) - {d}\<rparr>"
  proof (cases "d \<in> mAllocatedByType p ?t")
    case True
    have "pool_abs (snd (pool_release d p)) =
        \<lparr>ap_registered = {c \<in> ap_registered (pool_abs p). cd_type c \<noteq> ?t} \<union> set (mFreeByType p ?t @ [d]) \<union> (mAllocatedByType p ?t - {d}),
         ap_used = {c \<in> ap_used (pool_abs p). cd_type c \<noteq> ?t} \<union> (mAllocatedByType p ?t - {d})\<rparr>"
      unfolding eq [OF True] using D by (intro pool_set_abs) auto
    then show ?thesis using abs_split [OF inv, of ?t] True by (intro AbsPool.equality) auto
  next
    case False
    then show ?thesis using idle in_abs(2) [of d p] by (intro AbsPool.equality) auto
  qed
qed

lemma takes_single:
  assumes "pool_inv p"
  shows "takes [t] (pool_abs p) r b \<longleftrightarrow>
    (if mFreeByType p t = [] then r = None \<and> b = pool_abs p
     else \<exists>d \<in> set (mFreeByType p t). r = Some d \<and> b = (pool_abs p)\<lparr>ap_used := insert d (ap_used (pool_abs p))\<rparr>)"
  by (simp add: takes_def free_of_type [OF assms])

lemma allocate_step:
  assumes inv: "pool_inv p"
  shows "pool_inv (snd (pool_allocate t p))"
    and "takes [t] (pool_abs p) (fst (pool_allocate t p)) (pool_abs (snd (pool_allocate t p)))"
proof -
  note D = pool_invD [OF inv]
  let ?fs = "mFreeByType p t"
  have "pool_inv (snd (pool_allocate t p)) \<and>
      takes [t] (pool_abs p) (fst (pool_allocate t p)) (pool_abs (snd (pool_allocate t p)))"
  proof (cases "?fs = []")
    case True
    then show ?thesis by (simp add: takes_single [OF inv] pool_allocate_def inv)
  next
    case False
    then have split: "?fs = butlast ?fs @ [last ?fs]" by simp
    have ch: "last ?fs \<in> set ?fs" and parts: "set ?fs = insert (last ?fs) (set (butlast ?fs))"
      and fresh: "distinct (butlast ?fs)" "last ?fs \<notin> set (butlast ?fs)"
      using False D(1) [of t] set_append [of "butlast ?fs" "[last ?fs]"] distinct_append [of "butlast ?fs" "[last ?fs]"]
      by (simp_all del: set_append distinct_append)
    have ty: "cd_type (last ?fs) = t" using D(3) ch by blast
    have eq: "pool_allocate t p = (Some (last ?fs), pool_set t (butlast ?fs) (insert (last ?fs) (mAllocatedByType p t)) p)"
      using False ty by (simp add: pool_allocate_def Let_def pool_set_def)
    have "pool_inv (snd (pool_allocate t p))"
      unfolding eq snd_conv using D parts fresh ty by (intro pool_set_inv) (auto simp: inv)
    moreover have "pool_abs (snd (pool_allocate t p)) =
        \<lparr>ap_registered = {c \<in> ap_registered (pool_abs p). cd_type c \<noteq> t} \<union> set (butlast ?fs) \<union> insert (last ?fs) (mAllocatedByType p t),
         ap_used = {c \<in> ap_used (pool_abs p). cd_type c \<noteq> t} \<union> insert (last ?fs) (mAllocatedByType p t)\<rparr>"
      unfolding eq snd_conv using D parts ty by (intro pool_set_abs) auto
    then have "pool_abs (snd (pool_allocate t p)) = (pool_abs p)\<lparr>ap_used := insert (last ?fs) (ap_used (pool_abs p))\<rparr>"
      using abs_split [OF inv, of t] parts by (intro AbsPool.equality) auto
    ultimately show ?thesis using False ch by (auto simp: takes_single [OF inv] eq)
  qed
  then show "pool_inv (snd (pool_allocate t p))"
    and "takes [t] (pool_abs p) (fst (pool_allocate t p)) (pool_abs (snd (pool_allocate t p)))" by blast+
qed

lemma vea_decode:
  "decodeChannelNeeded ra neci False = UndefinedCHType \<longleftrightarrow> 0x70 \<le> ra \<and> ra < 0x80"
  by (auto simp: decodeChannelNeeded_def word_less_nat_alt word_le_nat_alt)

lemma takes_Cons:
  "takes (t # ts) a r b \<longleftrightarrow> (if available a t = {} then takes ts a r b else takes [t] a r b)"
  by (simp add: takes_def)

lemma vea_eq:
  "allocateVEA ra p =
     (if 0xC0 \<le> ra
      then pool_allocate (if mFreeByType p TCHFType \<noteq> [] then TCHFType
                          else if mFreeByType p TCHHType \<noteq> [] then TCHHType else SDCCHType) p
      else if 0x70 \<le> ra \<and> ra < 0x80 then (None, p) else pool_allocate (decodeChannelNeeded ra False False) p)"
  by (simp add: allocateVEA_def pool_allocate_def Let_def vea_decode)

lemma vea_step:
  assumes inv: "pool_inv p"
  shows "pool_inv (snd (allocateVEA ra p))"
    and "takes (vea_types ra) (pool_abs p) (fst (allocateVEA ra p)) (pool_abs (snd (allocateVEA ra p)))"
proof -
  show "pool_inv (snd (allocateVEA ra p))" using allocate_step(1) [OF inv] inv by (simp add: vea_eq)
  have empty: "takes [] (pool_abs p) None (pool_abs p)" by (simp add: takes_def)
  show "takes (vea_types ra) (pool_abs p) (fst (allocateVEA ra p)) (pool_abs (snd (allocateVEA ra p)))"
    using allocate_step(2) [OF inv] empty
    by (simp add: vea_eq vea_types_def takes_Cons [of _ "_ # _"] free_of_type [OF inv])
qed

lemma pool_step_refines:
  assumes "pool_inv p" and "op_ok op p" and "pool_step op p = (r, q)"
  shows "pool_inv q \<and> abs_step op (pool_abs p) r (pool_abs q)"
  using assms add_step [of p] remove_step [of p] release_step [of p] allocate_step [of p] vea_step [of p]
  by (cases op) (auto simp: map_prod_def split_beta)

lemma count_by_type:
  fixes S :: "ChannelDescriptor set"
  assumes "finite S"
  shows "sum_list (map (\<lambda>t. card {d \<in> S. cd_type d = t}) channelTypes) = card S"
proof -
  have "sum_list (map (\<lambda>t. card {d \<in> S. cd_type d = t}) channelTypes) = (\<Sum>t \<in> set channelTypes. card {d \<in> S. cd_type d = t})"
    using channelTypes_all(2) by (simp add: sum_list_distinct_conv_sum_set)
  also have "\<dots> = card (\<Union>t \<in> set channelTypes. {d \<in> S. cd_type d = t})"
    using assms by (subst card_UN_disjoint) auto
  also have "(\<Union>t \<in> set channelTypes. {d \<in> S. cd_type d = t}) = S"
    using channelTypes_all(1) by auto
  finally show ?thesis .
qed

lemma registered_typed:
  assumes "pool_inv p"
  shows "{d \<in> ap_registered (pool_abs p). cd_type d = t} = set (mFreeByType p t) \<union> mAllocatedByType p t"
  using pool_invD [OF assms] by (auto simp: in_abs knowsChannel_def)

lemma registered_finite:
  assumes inv: "pool_inv p"
  shows "finite (ap_registered (pool_abs p))"
proof -
  have "ap_registered (pool_abs p) = (\<Union>t \<in> set channelTypes. set (mFreeByType p t) \<union> mAllocatedByType p t)"
    using channelTypes_all(1) registered_typed [OF inv] by blast
  then show ?thesis using pool_invD(2) [OF inv] by simp
qed

text \<open>The counters of the pool count the registered channels.\<close>

lemma pool_counts:
  assumes inv: "pool_inv p"
  shows "freeCount t p + allocatedCount t p = card {d \<in> ap_registered (pool_abs p). cd_type d = t}"
    and "totalCount p = card (ap_registered (pool_abs p))"
proof -
  note D = pool_invD [OF inv]
  have count: "length (mFreeByType p t) + card (mAllocatedByType p t) = card {d \<in> ap_registered (pool_abs p). cd_type d = t}" for t
    unfolding registered_typed [OF inv] using D(1,2,5) by (subst card_Un_disjoint) (auto simp: distinct_card)
  then show "freeCount t p + allocatedCount t p = card {d \<in> ap_registered (pool_abs p). cd_type d = t}"
    by (simp add: freeCount_def allocatedCount_def)
  show "totalCount p = card (ap_registered (pool_abs p))"
    using count_by_type [OF registered_finite [OF inv]]
    by (simp add: totalCount_def count [symmetric] sum_list_addf)
qed

section \<open>Runs\<close>

fun pool_run :: "PoolOp list \<Rightarrow> ChannelPool \<Rightarrow> PoolResult list \<times> ChannelPool" where
  "pool_run [] p = ([], p)"
| "pool_run (op # ops) p =
     (let (r, p1) = pool_step op p; (rs, p2) = pool_run ops p1 in (r # rs, p2))"

fun legal :: "PoolOp list \<Rightarrow> ChannelPool \<Rightarrow> bool" where
  "legal [] p \<longleftrightarrow> True"
| "legal (op # ops) p \<longleftrightarrow> op_ok op p \<and> legal ops (snd (pool_step op p))"

fun abs_run :: "PoolOp list \<Rightarrow> AbsPool \<Rightarrow> PoolResult list \<Rightarrow> AbsPool \<Rightarrow> bool" where
  "abs_run [] a rs b \<longleftrightarrow> rs = [] \<and> b = a"
| "abs_run (op # ops) a rs b \<longleftrightarrow> (\<exists>r rs' c. rs = r # rs' \<and> abs_step op a r c \<and> abs_run ops c rs' b)"

definition abs_pool0 :: AbsPool where
  "abs_pool0 = \<lparr>ap_registered = {}, ap_used = {}\<rparr>"

lemma run_refines:
  assumes "pool_inv p" and "legal ops p" and "pool_run ops p = (rs, q)"
  shows "pool_inv q \<and> abs_run ops (pool_abs p) rs (pool_abs q)"
  using assms
proof (induction ops arbitrary: p rs)
  case (Cons op ops)
  obtain r p1 where s: "pool_step op p = (r, p1)" by force
  obtain rs' where rs': "pool_run ops p1 = (rs', q)" "rs = r # rs'"
    using Cons.prems(3) s by (cases "pool_run ops p1") auto
  have "pool_inv p1 \<and> abs_step op (pool_abs p) r (pool_abs p1)"
    using pool_step_refines [OF Cons.prems(1) _ s] Cons.prems(2) by simp
  then show ?case using Cons.IH [of p1 rs'] Cons.prems(2) s rs' by auto
qed simp

lemma pool0_inv: "pool_inv pool0" "pool_abs pool0 = abs_pool0"
  by (simp_all add: pool_inv_def pool0_def pool_abs_def free_set_def used_set_def abs_pool0_def)

text \<open>A channel that is in use stays so until it is released or removed, and is not handed out meanwhile.\<close>

definition gives_back :: "ChannelDescriptor \<Rightarrow> PoolOp \<Rightarrow> PoolResult \<Rightarrow> bool" where
  "gives_back d op r \<longleftrightarrow> r = R_bool True \<and> (op = Op_release d \<or> op = Op_remove d)"

lemma takes_cases:
  assumes "takes ts a r b"
  obtains "r = None" "b = a"
  | d where "d \<in> ap_registered a" "d \<notin> ap_used a" "r = Some d" "b = a\<lparr>ap_used := insert d (ap_used a)\<rparr>"
  using assms by (auto simp: takes_def available_def split: option.splits)

lemma takes_used: "takes ts a r b \<Longrightarrow> d \<in> ap_used a \<Longrightarrow> r \<noteq> Some d \<and> d \<in> ap_used b"
  by (erule takes_cases) auto

lemma takes_given: "takes ts a (Some d) b \<Longrightarrow> d \<in> ap_used b"
  by (erule takes_cases) auto

lemma takes_subset: "takes ts a r b \<Longrightarrow> ap_used a \<subseteq> ap_registered a \<Longrightarrow> ap_used b \<subseteq> ap_registered b"
  by (erule takes_cases) auto

lemma abs_step_used:
  assumes "abs_step op a r b" and "d \<in> ap_used a" and "ap_used a \<subseteq> ap_registered a"
  shows "r \<noteq> R_channel (Some d)" and "\<not> gives_back d op r \<Longrightarrow> d \<in> ap_used b"
  using assms by (cases op; auto simp: gives_back_def dest: takes_used)+

lemma abs_step_given: "abs_step op a (R_channel (Some d)) b \<Longrightarrow> d \<in> ap_used b"
  by (cases op) (auto dest: takes_given)

lemma abs_step_subset:
  "abs_step op a r b \<Longrightarrow> ap_used a \<subseteq> ap_registered a \<Longrightarrow> ap_used b \<subseteq> ap_registered b"
  by (cases op) (auto dest: takes_subset)

lemma used_not_given:
  assumes "abs_run ops a rs b" and "d \<in> ap_used a" and "ap_used a \<subseteq> ap_registered a"
    and "j < length ops" and "rs ! j = R_channel (Some d)"
  shows "\<exists>k < j. gives_back d (ops ! k) (rs ! k)"
  using assms
proof (induction ops arbitrary: a rs j)
  case (Cons op ops)
  then obtain r rs' c where rs: "rs = r # rs'" and s: "abs_step op a r c" and run: "abs_run ops c rs' b" by auto
  show ?case
  proof (cases "gives_back d op r")
    case True
    have "j \<noteq> 0" using abs_step_used(1) [OF s] Cons.prems rs by (cases j) auto
    then show ?thesis using True rs by (intro exI [of _ 0]) simp
  next
    case False
    then have used: "d \<in> ap_used c" and sub: "ap_used c \<subseteq> ap_registered c"
      using abs_step_used(2) [OF s] abs_step_subset [OF s] Cons.prems by auto
    obtain j' where j: "j = Suc j'" using abs_step_used(1) [OF s] Cons.prems rs by (cases j) auto
    then obtain k where "k < j'" "gives_back d (ops ! k) (rs' ! k)"
      using Cons.IH [OF run used sub, of j'] Cons.prems rs by auto
    then show ?thesis using j rs by (intro exI [of _ "Suc k"]) simp
  qed
qed simp

lemma abs_run_length: "abs_run ops a rs b \<Longrightarrow> length rs = length ops"
  by (induction ops arbitrary: a rs) auto

lemma abs_run_split:
  assumes "abs_run ops a rs b" and "i < length ops" and "ap_used a \<subseteq> ap_registered a"
  shows "\<exists>c c'. ap_used c' \<subseteq> ap_registered c' \<and> abs_step (ops ! i) c (rs ! i) c' \<and>
    abs_run (drop (Suc i) ops) c' (drop (Suc i) rs) b"
  using assms
proof (induction ops arbitrary: a rs i)
  case (Cons op ops)
  then obtain r rs' c where *: "rs = r # rs'" "abs_step op a r c" "abs_run ops c rs' b" by auto
  then show ?case using Cons.IH [of c rs'] Cons.prems abs_step_subset [of op a r c] by (cases i) auto
qed simp

text \<open>
  C24. Started empty and with every channel registered once, the pool behaves, through any sequence of registrations,
  removals, allocations, releases and early assignments, as a set of registered channels of which some are in use: an
  allocation returns a registered channel of the requested type that is not in use and fails only when there is none,
  an early assignment takes the first of its types that has one, release and removal report whether the channel was in
  use and registered, and the counters of the pool are the numbers of registered channels.
\<close>

theorem pool_refines:
  assumes "legal ops pool0" and "pool_run ops pool0 = (rs, q)"
  shows "abs_run ops abs_pool0 rs (pool_abs q) \<and> totalCount q = card (ap_registered (pool_abs q)) \<and>
    freeCount t q + allocatedCount t q = card {d \<in> ap_registered (pool_abs q). cd_type d = t} \<and>
    (isFree d q \<longleftrightarrow> d \<in> ap_registered (pool_abs q) - ap_used (pool_abs q))"
proof -
  have r: "pool_inv q" "abs_run ops abs_pool0 rs (pool_abs q)"
    using run_refines [OF pool0_inv(1) assms] by (simp_all add: pool0_inv)
  have "isFree d q \<longleftrightarrow> d \<in> available (pool_abs q) (cd_type d)"
    by (auto simp: free_of_type [OF r(1)] isFree_def list_ex_iff)
  then show ?thesis using r pool_counts [OF r(1)] by (simp add: available_def)
qed

definition sdcch :: "u8 \<Rightarrow> ChannelDescriptor" where
  "sdcch ts = \<lparr>cd_type = SDCCHType, cd_trxNumber = 0, cd_timeslot = ts, cd_arfcn = 100\<rparr>"

definition pool_example :: "PoolOp list" where
  "pool_example =
     [Op_add (sdcch 0), Op_add (sdcch 1), Op_allocate SDCCHType, Op_release (sdcch 1), Op_vea 0xE0, Op_vea 0x75]"

lemma pool_example_run:
  "legal pool_example pool0"
  "pool_run pool_example pool0 =
     ([R_none, R_none, R_channel (Some (sdcch 1)), R_bool True, R_channel (Some (sdcch 1)), R_channel None],
      snd (pool_run pool_example pool0))"
  by (simp_all add: pool_example_def pool0_def addChannel_def knowsChannel_def sdcch_def pool_allocate_def Let_def
      pool_release_def vea_eq)

theorem pool_refines_witness:
  "abs_run pool_example abs_pool0
     [R_none, R_none, R_channel (Some (sdcch 1)), R_bool True, R_channel (Some (sdcch 1)), R_channel None]
     (pool_abs (snd (pool_run pool_example pool0)))"
  using pool_refines [OF pool_example_run] by blast

lemma abs_no_double:
  assumes run: "abs_run ops abs_pool0 rs b" and "i < j" and "j < length ops"
    and "rs ! i = R_channel (Some d)" and "rs ! j = R_channel (Some d)"
  shows "\<exists>k. i < k \<and> k < j \<and> gives_back d (ops ! k) (rs ! k)"
proof -
  have "length rs = length ops" using run by (rule abs_run_length)
  moreover obtain c c' where "ap_used c' \<subseteq> ap_registered c'" "abs_step (ops ! i) c (rs ! i) c'"
      "abs_run (drop (Suc i) ops) c' (drop (Suc i) rs) b"
    using abs_run_split [OF run, of i] assms(2,3) by (auto simp: abs_pool0_def)
  moreover have "j - Suc i < length ops - Suc i" using assms(2,3) by simp
  ultimately obtain k where "k < j - Suc i" "gives_back d (drop (Suc i) ops ! k) (drop (Suc i) rs ! k)"
    using used_not_given [of "drop (Suc i) ops" c' "drop (Suc i) rs" b d "j - Suc i"] assms
      abs_step_given [of "ops ! i" c d c'] by auto
  then show ?thesis using assms(2,3) \<open>length rs = length ops\<close> by (intro exI [of _ "Suc i + k"]) auto
qed

text \<open>
  C25. In a run that never adds a channel that is already registered, no channel is handed out twice: when two allocations
  return the same channel, it has been released or removed between them.
\<close>

theorem no_double_assignment:
  assumes "legal ops pool0" and "pool_run ops pool0 = (rs, q)" and "i < j" and "j < length ops"
    and "rs ! i = R_channel (Some d)" and "rs ! j = R_channel (Some d)"
  shows "\<exists>k. i < k \<and> k < j \<and> gives_back d (ops ! k) (rs ! k)"
proof -
  have "abs_run ops abs_pool0 rs (pool_abs q)" using run_refines [OF pool0_inv(1) assms(1,2)] by (simp add: pool0_inv)
  then show ?thesis by (rule abs_no_double [OF _ assms(3-6)])
qed

theorem no_double_assignment_witness:
  "\<exists>k. 2 < k \<and> k < 4 \<and> gives_back (sdcch 1) (pool_example ! k)
     ([R_none, R_none, R_channel (Some (sdcch 1)), R_bool True, R_channel (Some (sdcch 1)), R_channel None] ! k)"
  by (rule no_double_assignment [OF pool_example_run]) (simp_all add: pool_example_def)

lemma totalCount_add: "totalCount (addChannel d p) = totalCount p + 1"
  by (cases "cd_type d") (simp_all add: totalCount_def addChannel_def channelTypes_def)

lemma totalCount_use:
  assumes "finite (mAllocatedByType p t)" and "d \<notin> mAllocatedByType p t"
  shows "totalCount (pool_set t (mFreeByType p t) (insert d (mAllocatedByType p t)) p) = totalCount p + 1"
  using assms by (cases t) (simp_all add: totalCount_def pool_set_def channelTypes_def)

text \<open>
  A channel registered twice, which the interface allows and describes as tracked separately, is handed out to two
  callers at the same time; the pool then counts it once, the release by the first caller is accepted and makes the
  channel available again although the second still uses it, and the release by the second is refused.
\<close>

theorem duplicate_channel_assigned_twice:
  assumes "pool_inv p" and "\<not> knowsChannel d p"
  shows "let p1 = addChannel d (addChannel d p); (r1, p2) = pool_allocate (cd_type d) p1;
      (r2, p3) = pool_allocate (cd_type d) p2; (r3, p4) = pool_release d p3; (r4, p5) = pool_release d p4
    in r1 = Some d \<and> r2 = Some d \<and> totalCount p1 = totalCount p + 2 \<and> totalCount p3 = totalCount p + 1 \<and>
       r3 \<and> isFree d p4 \<and> \<not> r4 \<and> p5 = p4"
proof -
  let ?t = "cd_type d" and ?p1 = "addChannel d (addChannel d p)"
  let ?p3 = "pool_set ?t (mFreeByType p ?t) (insert d (mAllocatedByType p ?t)) p"
  let ?p4 = "pool_set ?t (mFreeByType p ?t @ [d]) (mAllocatedByType p ?t) p"
  have fresh: "d \<notin> set (mFreeByType p ?t)" "d \<notin> mAllocatedByType p ?t" using assms(2) by (simp_all add: knowsChannel_def)
  have r1: "pool_allocate ?t ?p1 =
      (Some d, pool_set ?t (mFreeByType p ?t @ [d]) (insert d (mAllocatedByType p ?t)) p)"
    by (simp add: pool_allocate_def addChannel_def Let_def pool_set_def butlast_append)
  have r2: "pool_allocate ?t (pool_set ?t (mFreeByType p ?t @ [d]) (insert d (mAllocatedByType p ?t)) p) = (Some d, ?p3)"
    by (simp add: pool_allocate_def Let_def pool_set_def)
  have r3: "pool_release d ?p3 = (True, ?p4)" and r4: "pool_release d ?p4 = (False, ?p4)"
    using fresh by (simp_all add: pool_release_def Let_def pool_set_def)
  have "isFree d ?p4" by (simp add: isFree_def pool_set_def)
  moreover have "totalCount ?p1 = totalCount p + 2" by (simp add: totalCount_add)
  moreover have "totalCount ?p3 = totalCount p + 1"
    using totalCount_use [OF _ fresh(2)] pool_invD(2) [OF assms(1)] by simp
  ultimately show ?thesis by (simp add: r1 r2 r3 r4)
qed

theorem duplicate_channel_assigned_twice_witness:
  "let p1 = addChannel (sdcch 0) (addChannel (sdcch 0) pool0); (r1, p2) = pool_allocate SDCCHType p1;
       (r2, p3) = pool_allocate SDCCHType p2
   in r1 = Some (sdcch 0) \<and> r2 = Some (sdcch 0) \<and> totalCount p1 = totalCount pool0 + 2 \<and> totalCount p3 = totalCount pool0 + 1"
proof -
  have "pool_inv pool0" "\<not> knowsChannel (sdcch 0) pool0" "cd_type (sdcch 0) = SDCCHType"
    using pool0_inv(1) by (simp, simp_all add: knowsChannel_def pool0_def sdcch_def)
  then show ?thesis using duplicate_channel_assigned_twice [of pool0 "sdcch 0"] by (simp add: split_beta Let_def)
qed

end
