(* ===== verification/Sharded_Pool.thy ===== *)
theory Sharded_Pool
  imports Channel_Pool
begin

text \<open>
  The sharded pool of channels, \<^verbatim>\<open>stack/sharded_channel_pool.h\<close>: channel pools behind locks. The calls are taken one after
  another; the interleaving of an allocation, which locks one shard after the other, with other calls is not modelled. A channel belongs to the shard its hash selects; an allocation asks all shards, from one that moves on with each
  call. The template is instantiated for 4, 8, 16 and 32 shards. The pools together behave as one pool.
\<close>

unbundle bit_operations_syntax

section \<open>State and operations\<close>

record ShardedChannelPool =
  sp_shards :: "ChannelPool list"
  sp_rrCounter :: u32

definition sharded_pool0 :: "nat \<Rightarrow> ShardedChannelPool" where
  "sharded_pool0 n = \<lparr>sp_shards = replicate n pool0, sp_rrCounter = 0\<rparr>"

definition channelTypeCode :: "ChannelType \<Rightarrow> u32" where
  "channelTypeCode t = word_of_nat (length (takeWhile (\<lambda>x. x \<noteq> t) channelTypes))"

definition hashDescriptor :: "ChannelDescriptor \<Rightarrow> u32" where
  "hashDescriptor d =
     (let h0 = (channelTypeCode (cd_type d) AND 0x1F) OR push_bit 5 (ucast (cd_trxNumber d)) OR
                 push_bit 13 (ucast (cd_timeslot d) AND 0xF) OR push_bit 17 (ucast (cd_arfcn d) AND 0xFFF);
          h1 = (h0 XOR drop_bit 16 h0) * 0x7feb352d;
          h2 = (h1 XOR drop_bit 15 h1) * 0x846ca68b
      in h2 XOR drop_bit 16 h2)"

definition pool_shardIndex :: "nat \<Rightarrow> u32 \<Rightarrow> nat" where
  "pool_shardIndex n hash = unat (hash AND (word_of_nat n - 1))"

definition sp_addChannel :: "ChannelDescriptor \<Rightarrow> ShardedChannelPool \<Rightarrow> ShardedChannelPool" where
  "sp_addChannel d s =
     (let idx = pool_shardIndex (length (sp_shards s)) (hashDescriptor d)
      in s\<lparr>sp_shards := (sp_shards s)[idx := addChannel d (sp_shards s ! idx)]\<rparr>)"

text \<open>The search for a free channel, with the indexes of the shards in the order they are asked.\<close>

fun probe_shards :: "ChannelType \<Rightarrow> nat list \<Rightarrow> ChannelPool list \<Rightarrow> ChannelDescriptor option \<times> ChannelPool list" where
  "probe_shards t [] ps = (None, ps)"
| "probe_shards t (i # is) ps =
     (case pool_allocate t (ps ! i) of
        (Some ch, p) \<Rightarrow> (Some ch, ps[i := p])
      | (None, p) \<Rightarrow> probe_shards t is (ps[i := p]))"

definition probe_order :: "nat \<Rightarrow> u32 \<Rightarrow> nat list" where
  "probe_order n counter =
     (let start = counter AND (word_of_nat n - 1)
      in map (\<lambda>offset. pool_shardIndex n (start + word_of_nat offset)) [0..<n])"

definition sp_allocate :: "ChannelType \<Rightarrow> ShardedChannelPool \<Rightarrow> ChannelDescriptor option \<times> ShardedChannelPool" where
  "sp_allocate t s =
     (let (r, ps) = probe_shards t (probe_order (length (sp_shards s)) (sp_rrCounter s)) (sp_shards s)
      in (r, s\<lparr>sp_shards := ps, sp_rrCounter := sp_rrCounter s + 1\<rparr>))"

definition sp_release :: "ChannelDescriptor \<Rightarrow> ShardedChannelPool \<Rightarrow> bool \<times> ShardedChannelPool" where
  "sp_release d s =
     (let idx = pool_shardIndex (length (sp_shards s)) (hashDescriptor d);
          (b, p) = pool_release d (sp_shards s ! idx)
      in (b, s\<lparr>sp_shards := (sp_shards s)[idx := p]\<rparr>))"

definition sp_freeCount :: "ChannelType \<Rightarrow> ShardedChannelPool \<Rightarrow> nat" where
  "sp_freeCount t s = sum_list (map (freeCount t) (sp_shards s))"

definition sp_totalCount :: "ShardedChannelPool \<Rightarrow> nat" where
  "sp_totalCount s = sum_list (map totalCount (sp_shards s))"

section \<open>Every shard is asked\<close>

lemma shardIndex_mod:
  assumes "n = 2 ^ k" "k < 32"
  shows "pool_shardIndex n x = unat x mod n"
proof -
  have "(word_of_nat n :: u32) - 1 = mask k" using assms by (simp add: mask_eq_exp_minus_1)
  then have "pool_shardIndex n x = unat (take_bit k x)" by (simp add: pool_shardIndex_def take_bit_eq_mask)
  then show ?thesis by (simp only: unsigned_take_bit_eq) (simp add: take_bit_eq_mod assms(1))
qed

lemma rotate_onto:
  fixes n :: nat
  assumes "0 < n"
  shows "(\<lambda>j. (a + j) mod n) ` {0..<n} = {0..<n}"
proof (rule endo_inj_surj)
  have "j \<le> i" if "(a + i) mod n = (a + j) mod n" "i < n" "j < n" for i j
  proof (rule ccontr)
    assume "\<not> j \<le> i"
    then have "n dvd (a + j) - (a + i)" "0 < (a + j) - (a + i)" using that(1) mod_eq_dvd_iff_nat [of "a + i" "a + j" n] by auto
    then show False using that(3) by (auto dest: dvd_imp_le)
  qed
  then show "inj_on (\<lambda>j. (a + j) mod n) {0..<n}" by (intro inj_onI order.antisym) simp_all
qed (use assms in auto)

lemma probe_order_all:
  assumes n: "n = 2 ^ k" "k < 32"
  shows "set (probe_order n counter) = {0..<n}"
proof -
  let ?c = "counter AND (word_of_nat n - 1)"
  have "unat (?c + word_of_nat j) mod n = (unat ?c + j) mod n" for j
  proof -
    have "n dvd 2 ^ 32" unfolding n(1) using n(2) by (intro le_imp_power_dvd) simp
    then have "unat (?c + word_of_nat j) mod n = (unat ?c + j mod 2 ^ 32) mod n"
      by (simp only: unat_word_ariths unsigned_of_nat) (simp add: take_bit_eq_mod mod_mod_cancel)
    also have "\<dots> = (unat ?c + j mod 2 ^ 32 mod n) mod n" by (simp only: mod_add_right_eq)
    also have "j mod 2 ^ 32 mod n = j mod n" by (rule mod_mod_cancel) fact
    finally show ?thesis by (simp only: mod_add_right_eq)
  qed
  then have "set (probe_order n counter) = (\<lambda>j. (unat ?c + j) mod n) ` {0..<n}"
    by (simp only: probe_order_def Let_def set_map set_upt shardIndex_mod [OF n])
  also have "\<dots> = {0..<n}" by (rule rotate_onto) (simp add: n(1))
  finally show ?thesis .
qed

lemma probe_shards_eq:
  assumes "set is \<subseteq> {0..<length ps}"
  shows "probe_shards t is ps =
    (case List.find (\<lambda>i. mFreeByType (ps ! i) t \<noteq> []) is of
       None \<Rightarrow> (None, ps) | Some i \<Rightarrow> (fst (pool_allocate t (ps ! i)), ps[i := snd (pool_allocate t (ps ! i))]))"
  using assms by (induction "is") (auto simp: pool_allocate_def Let_def)

section \<open>The shards as one pool\<close>

definition sp_abs :: "ShardedChannelPool \<Rightarrow> AbsPool" where
  "sp_abs s = \<lparr>ap_registered = (\<Union>p\<in>set (sp_shards s). ap_registered (pool_abs p)), ap_used = (\<Union>p\<in>set (sp_shards s). ap_used (pool_abs p))\<rparr>"

definition home_shard :: "nat \<Rightarrow> ChannelDescriptor \<Rightarrow> nat" where
  "home_shard n d = pool_shardIndex n (hashDescriptor d)"

definition sp_inv :: "nat \<Rightarrow> ShardedChannelPool \<Rightarrow> bool" where
  "sp_inv n s \<longleftrightarrow> length (sp_shards s) = n \<and>
     (\<forall>i < n. pool_inv (sp_shards s ! i) \<and> (\<forall>d. knowsChannel d (sp_shards s ! i) \<longrightarrow> home_shard n d = i))"

lemma home_less: "n = 2 ^ k \<Longrightarrow> k < 32 \<Longrightarrow> home_shard n d < n"
  unfolding home_shard_def by (subst shardIndex_mod) simp_all

lemma used_registered: "d \<in> ap_used (pool_abs p) \<Longrightarrow> knowsChannel d p"
  by (auto simp: in_abs knowsChannel_def)

lemma abs_home:
  assumes inv: "sp_inv n s" and h: "home_shard n d < n"
  shows "d \<in> ap_registered (sp_abs s) \<longleftrightarrow> knowsChannel d (sp_shards s ! home_shard n d)"
    "d \<in> ap_used (sp_abs s) \<longleftrightarrow> d \<in> ap_used (pool_abs (sp_shards s ! home_shard n d))"
proof -
  have in_set: "p \<in> set (sp_shards s) \<longleftrightarrow> (\<exists>i < n. p = sp_shards s ! i)" for p using inv by (auto simp: sp_inv_def in_set_conv_nth)
  have "knowsChannel d (sp_shards s ! i) \<longrightarrow> home_shard n d = i" if "i < n" for i using that inv by (simp add: sp_inv_def)
  then have only: "knowsChannel d p \<longrightarrow> p = sp_shards s ! home_shard n d" if "p \<in> set (sp_shards s)" for p
    using that by (auto simp: in_set)
  have here: "sp_shards s ! home_shard n d \<in> set (sp_shards s)" using h by (auto simp: in_set)
  show "d \<in> ap_registered (sp_abs s) \<longleftrightarrow> knowsChannel d (sp_shards s ! home_shard n d)"
    using only here by (auto simp: sp_abs_def in_abs(1))
  show "d \<in> ap_used (sp_abs s) \<longleftrightarrow> d \<in> ap_used (pool_abs (sp_shards s ! home_shard n d))"
  proof -
    have "p = sp_shards s ! home_shard n d" if "p \<in> set (sp_shards s)" "d \<in> ap_used (pool_abs p)" for p
      using only [OF that(1)] used_registered [OF that(2)] by simp
    then show ?thesis using here unfolding sp_abs_def AbsPool.select_convs UN_iff by metis
  qed
qed

text \<open>One shard changes, with channels of its own only: what this does to the whole.\<close>

lemma shard_change:
  assumes inv: "sp_inv n s" and home: "\<And>d. home_shard n d < n" and i: "i < n"
    and q: "pool_inv q" "\<And>d. knowsChannel d q \<Longrightarrow> home_shard n d = i" and s': "sp_shards s' = (sp_shards s)[i := q]"
  shows "sp_inv n s'"
    "ap_registered (sp_abs s') = {d \<in> ap_registered (sp_abs s). home_shard n d \<noteq> i} \<union> ap_registered (pool_abs q)"
    "ap_used (sp_abs s') = {d \<in> ap_used (sp_abs s). home_shard n d \<noteq> i} \<union> ap_used (pool_abs q)"
proof -
  have len: "length (sp_shards s) = n" using inv by (simp add: sp_inv_def)
  have nth: "sp_shards s' ! j = (if j = i then q else sp_shards s ! j)" if "j < n" for j using that i len by (simp add: s')
  have "length (sp_shards s') = n" by (simp add: s' len)
  then show inv': "sp_inv n s'" using inv q nth by (simp add: sp_inv_def)
  have R: "d \<in> ap_registered (sp_abs s') \<longleftrightarrow> (if home_shard n d = i then knowsChannel d q else d \<in> ap_registered (sp_abs s))" for d
    using abs_home(1) [OF inv home, of d] abs_home(1) [OF inv' home, of d] nth [OF home, of d] by presburger
  have U: "d \<in> ap_used (sp_abs s') \<longleftrightarrow> (if home_shard n d = i then d \<in> ap_used (pool_abs q) else d \<in> ap_used (sp_abs s))" for d
    using abs_home(2) [OF inv home, of d] abs_home(2) [OF inv' home, of d] nth [OF home, of d] by presburger
  show "ap_registered (sp_abs s') = {d \<in> ap_registered (sp_abs s). home_shard n d \<noteq> i} \<union> ap_registered (pool_abs q)"
  proof (rule set_eqI)
    fix d
    have "home_shard n d \<noteq> i \<longrightarrow> \<not> knowsChannel d q" using q(2) [of d] by blast
    then show "d \<in> ap_registered (sp_abs s') \<longleftrightarrow> d \<in> {d \<in> ap_registered (sp_abs s). home_shard n d \<noteq> i} \<union> ap_registered (pool_abs q)"
      by (cases "home_shard n d = i") (simp_all add: R [of d] in_abs(1))
  qed
  show "ap_used (sp_abs s') = {d \<in> ap_used (sp_abs s). home_shard n d \<noteq> i} \<union> ap_used (pool_abs q)"
  proof (rule set_eqI)
    fix d
    have "home_shard n d \<noteq> i \<longrightarrow> d \<notin> ap_used (pool_abs q)" using q(2) [of d] used_registered [of d q] by blast
    then show "d \<in> ap_used (sp_abs s') \<longleftrightarrow> d \<in> {d \<in> ap_used (sp_abs s). home_shard n d \<noteq> i} \<union> ap_used (pool_abs q)"
      by (cases "home_shard n d = i") (simp_all add: U [of d])
  qed
qed

lemma shard_split:
  assumes inv: "sp_inv n s" and home: "\<And>d. home_shard n d < n" and i: "i < n"
  shows "{d \<in> ap_registered (sp_abs s). home_shard n d \<noteq> i} \<union> ap_registered (pool_abs (sp_shards s ! i)) = ap_registered (sp_abs s)"
    "{d \<in> ap_used (sp_abs s). home_shard n d \<noteq> i} \<union> ap_used (pool_abs (sp_shards s ! i)) = ap_used (sp_abs s)"
    "d \<in> ap_used (pool_abs (sp_shards s ! i)) \<Longrightarrow> home_shard n d = i"
proof -
  have same: "(sp_shards s)[i := sp_shards s ! i] = sp_shards s" by simp
  have own: "pool_inv (sp_shards s ! i)" "\<And>d. knowsChannel d (sp_shards s ! i) \<Longrightarrow> home_shard n d = i" using inv i by (simp_all add: sp_inv_def)
  note C = shard_change [OF inv home i own same [symmetric]]
  show "{d \<in> ap_registered (sp_abs s). home_shard n d \<noteq> i} \<union> ap_registered (pool_abs (sp_shards s ! i)) = ap_registered (sp_abs s)"
    "{d \<in> ap_used (sp_abs s). home_shard n d \<noteq> i} \<union> ap_used (pool_abs (sp_shards s ! i)) = ap_used (sp_abs s)"
    using C(2,3) by simp_all
  show "d \<in> ap_used (pool_abs (sp_shards s ! i)) \<Longrightarrow> home_shard n d = i" using own(2) used_registered by blast
qed

text \<open>What an operation on one shard does to the whole.\<close>

lemma shard_effect:
  assumes inv: "sp_inv n s" and home: "\<And>d. home_shard n d < n" and i: "i < n" and q: "pool_inv q" and s': "sp_shards s' = (sp_shards s)[i := q]"
  shows "home_shard n d = i \<Longrightarrow> pool_abs q = (pool_abs (sp_shards s ! i))\<lparr>ap_registered := insert d (ap_registered (pool_abs (sp_shards s ! i)))\<rparr> \<Longrightarrow>
      sp_inv n s' \<and> sp_abs s' = (sp_abs s)\<lparr>ap_registered := insert d (ap_registered (sp_abs s))\<rparr>"
    "home_shard n d = i \<Longrightarrow> pool_abs q = (pool_abs (sp_shards s ! i))\<lparr>ap_used := ap_used (pool_abs (sp_shards s ! i)) - {d}\<rparr> \<Longrightarrow>
      sp_inv n s' \<and> sp_abs s' = (sp_abs s)\<lparr>ap_used := ap_used (sp_abs s) - {d}\<rparr>"
    "pool_abs q = (pool_abs (sp_shards s ! i))\<lparr>ap_used := insert d (ap_used (pool_abs (sp_shards s ! i)))\<rparr> \<Longrightarrow>
      sp_inv n s' \<and> sp_abs s' = (sp_abs s)\<lparr>ap_used := insert d (ap_used (sp_abs s))\<rparr>"
proof -
  let ?p = "sp_shards s ! i"
  note S = shard_split [OF inv home i]
  have own: "knowsChannel c ?p \<Longrightarrow> home_shard n c = i" for c using inv i by (simp add: sp_inv_def)
  have C: "sp_inv n s' \<and> ap_registered (sp_abs s') = {d \<in> ap_registered (sp_abs s). home_shard n d \<noteq> i} \<union> ap_registered (pool_abs q) \<and>
      ap_used (sp_abs s') = {d \<in> ap_used (sp_abs s). home_shard n d \<noteq> i} \<union> ap_used (pool_abs q)"
    if "\<And>c. c \<in> ap_registered (pool_abs q) \<Longrightarrow> home_shard n c = i"
    using shard_change [OF inv home i q _ s'] that by (simp add: in_abs(1))
  show "sp_inv n s' \<and> sp_abs s' = (sp_abs s)\<lparr>ap_registered := insert d (ap_registered (sp_abs s))\<rparr>"
    if d: "home_shard n d = i" and a: "pool_abs q = (pool_abs ?p)\<lparr>ap_registered := insert d (ap_registered (pool_abs ?p))\<rparr>"
  proof -
    have "home_shard n c = i" if "c \<in> ap_registered (pool_abs q)" for c using that a d own by (auto simp: in_abs(1))
    note C = C [OF this]
    have "ap_registered (sp_abs s') = insert d ({c \<in> ap_registered (sp_abs s). home_shard n c \<noteq> i} \<union> ap_registered (pool_abs ?p))" using C a by simp
    then have "ap_registered (sp_abs s') = insert d (ap_registered (sp_abs s))" by (simp only: S(1))
    moreover have "ap_used (sp_abs s') = ap_used (sp_abs s)" using C a S(2) by simp
    ultimately show ?thesis using C by (intro conjI AbsPool.equality) simp_all
  qed
  show "sp_inv n s' \<and> sp_abs s' = (sp_abs s)\<lparr>ap_used := ap_used (sp_abs s) - {d}\<rparr>"
    if d: "home_shard n d = i" and a: "pool_abs q = (pool_abs ?p)\<lparr>ap_used := ap_used (pool_abs ?p) - {d}\<rparr>"
  proof -
    have "home_shard n c = i" if "c \<in> ap_registered (pool_abs q)" for c using that a own by (simp add: in_abs(1))
    note C = C [OF this]
    have "ap_used (sp_abs s') = {c \<in> ap_used (sp_abs s). home_shard n c \<noteq> i} \<union> (ap_used (pool_abs ?p) - {d})" using C a by simp
    also have "\<dots> = ({c \<in> ap_used (sp_abs s). home_shard n c \<noteq> i} \<union> ap_used (pool_abs ?p)) - {d}" using d by blast
    finally have "ap_used (sp_abs s') = ap_used (sp_abs s) - {d}" by (simp only: S(2))
    moreover have "ap_registered (sp_abs s') = ap_registered (sp_abs s)" using C a S(1) by simp
    ultimately show ?thesis using C by (intro conjI AbsPool.equality) simp_all
  qed
  show "sp_inv n s' \<and> sp_abs s' = (sp_abs s)\<lparr>ap_used := insert d (ap_used (sp_abs s))\<rparr>"
    if a: "pool_abs q = (pool_abs ?p)\<lparr>ap_used := insert d (ap_used (pool_abs ?p))\<rparr>"
  proof -
    have "home_shard n c = i" if "c \<in> ap_registered (pool_abs q)" for c using that a own by (simp add: in_abs(1))
    note C = C [OF this]
    have "ap_used (sp_abs s') = insert d ({c \<in> ap_used (sp_abs s). home_shard n c \<noteq> i} \<union> ap_used (pool_abs ?p))" using C a by simp
    then have "ap_used (sp_abs s') = insert d (ap_used (sp_abs s))" by (simp only: S(2))
    moreover have "ap_registered (sp_abs s') = ap_registered (sp_abs s)" using C a S(1) by simp
    ultimately show ?thesis using C by (intro conjI AbsPool.equality) simp_all
  qed
qed

lemma available_shards:
  assumes inv: "sp_inv n s" and home: "\<And>d. home_shard n d < n"
  shows "available (sp_abs s) t = (\<Union>i<n. set (mFreeByType (sp_shards s ! i) t))"
proof -
  have free: "available (pool_abs (sp_shards s ! i)) t = set (mFreeByType (sp_shards s ! i) t)" if "i < n" for i
    using free_of_type that inv by (simp add: sp_inv_def)
  have own: "d \<in> available (pool_abs (sp_shards s ! i)) t \<Longrightarrow> home_shard n d = i" if "i < n" for d i
    using that inv by (simp add: sp_inv_def available_def in_abs(1))
  have "d \<in> available (sp_abs s) t \<longleftrightarrow> d \<in> available (pool_abs (sp_shards s ! home_shard n d)) t" for d
    using abs_home [OF inv home] by (simp add: available_def in_abs(1))
  then have "available (sp_abs s) t = (\<Union>i<n. available (pool_abs (sp_shards s ! i)) t)" using own home by blast
  then show ?thesis using free by simp
qed

section \<open>Runs\<close>

datatype ShardedOp = Sh_add ChannelDescriptor | Sh_allocate ChannelType | Sh_release ChannelDescriptor

text \<open>The operation of a single pool that an operation stands for.\<close>

fun pool_op :: "ShardedOp \<Rightarrow> PoolOp" where
  "pool_op (Sh_add d) = Op_add d"
| "pool_op (Sh_allocate t) = Op_allocate t"
| "pool_op (Sh_release d) = Op_release d"

fun sp_step :: "ShardedOp \<Rightarrow> ShardedChannelPool \<Rightarrow> PoolResult \<times> ShardedChannelPool" where
  "sp_step (Sh_add d) s = (R_none, sp_addChannel d s)"
| "sp_step (Sh_allocate t) s = map_prod R_channel id (sp_allocate t s)"
| "sp_step (Sh_release d) s = map_prod R_bool id (sp_release d s)"

fun sp_run :: "ShardedOp list \<Rightarrow> ShardedChannelPool \<Rightarrow> PoolResult list \<times> ShardedChannelPool" where
  "sp_run [] s = ([], s)"
| "sp_run (op # ops) s = (let (r, s1) = sp_step op s; (rs, s2) = sp_run ops s1 in (r # rs, s2))"

text \<open>A channel is added only when no shard knows it.\<close>

fun sp_op_ok :: "ShardedOp \<Rightarrow> ShardedChannelPool \<Rightarrow> bool" where
  "sp_op_ok (Sh_add d) s \<longleftrightarrow> list_all (\<lambda>p. \<not> knowsChannel d p) (sp_shards s)"
| "sp_op_ok _ s \<longleftrightarrow> True"

fun sp_legal :: "ShardedOp list \<Rightarrow> ShardedChannelPool \<Rightarrow> bool" where
  "sp_legal [] s \<longleftrightarrow> True"
| "sp_legal (op # ops) s \<longleftrightarrow> sp_op_ok op s \<and> sp_legal ops (snd (sp_step op s))"

lemma sp_allocate_step:
  assumes inv: "sp_inv n s" and n: "n = 2 ^ k" "k < 32"
  shows "sp_inv n (snd (sp_allocate t s)) \<and> takes [t] (sp_abs s) (fst (sp_allocate t s)) (sp_abs (snd (sp_allocate t s)))"
proof -
  note home = home_less [OF n]
  have len: "length (sp_shards s) = n" using inv by (simp add: sp_inv_def)
  note A = available_shards [OF inv home, of t]
  let ?order = "probe_order n (sp_rrCounter s)" and ?free = "\<lambda>i. mFreeByType (sp_shards s ! i) t \<noteq> []"
  have all: "set ?order = {0..<n}" by (rule probe_order_all [OF n])
  have eq: "probe_shards t ?order (sp_shards s) = (case List.find ?free ?order of None \<Rightarrow> (None, sp_shards s)
      | Some i \<Rightarrow> (fst (pool_allocate t (sp_shards s ! i)), (sp_shards s)[i := snd (pool_allocate t (sp_shards s ! i))]))"
    by (rule probe_shards_eq) (simp add: all len)
  show ?thesis
  proof (cases "List.find ?free ?order")
    case None
    then have none: "mFreeByType (sp_shards s ! i) t = []" if "i < n" for i using that all by (auto simp: find_None_iff)
    then have "available (sp_abs s) t = {}" by (simp add: A)
    moreover have "sp_shards (snd (sp_allocate t s)) = sp_shards s" "fst (sp_allocate t s) = None"
      using None eq by (simp_all add: sp_allocate_def len)
    then have "sp_abs (snd (sp_allocate t s)) = sp_abs s" "sp_inv n (snd (sp_allocate t s))" using inv by (simp_all add: sp_abs_def sp_inv_def)
    ultimately show ?thesis using \<open>fst (sp_allocate t s) = None\<close> by (simp add: takes_def)
  next
    case (Some i)
    then have i: "i < n" "?free i" using all by (auto simp: find_Some_iff nth_mem)
    let ?p = "sp_shards s ! i"
    have p: "pool_inv ?p" using inv i(1) by (simp add: sp_inv_def)
    obtain d q where a: "pool_allocate t ?p = (Some d, q)" using i(2) by (simp add: pool_allocate_def Let_def)
    have al: "fst (sp_allocate t s) = Some d" "sp_shards (snd (sp_allocate t s)) = (sp_shards s)[i := q]"
      using Some eq a by (simp_all add: sp_allocate_def len)
    have q: "pool_inv q" "takes [t] (pool_abs ?p) (Some d) (pool_abs q)" using allocate_step [OF p, of t] a by simp_all
    then have d: "d \<in> set (mFreeByType ?p t)" "pool_abs q = (pool_abs ?p)\<lparr>ap_used := insert d (ap_used (pool_abs ?p))\<rparr>"
      using i(2) by (simp_all add: takes_single [OF p])
    have "sp_inv n (snd (sp_allocate t s)) \<and> sp_abs (snd (sp_allocate t s)) = (sp_abs s)\<lparr>ap_used := insert d (ap_used (sp_abs s))\<rparr>"
      by (rule shard_effect(3) [OF inv home i(1) q(1) al(2) d(2)])
    moreover have "d \<in> available (sp_abs s) t" using d(1) i(1) by (auto simp: A)
    ultimately show ?thesis using al(1) by (auto simp: takes_def)
  qed
qed

lemma sp_step_refines:
  assumes inv: "sp_inv n s" and n: "n = 2 ^ k" "k < 32" and new: "sp_op_ok op s"
    and step: "sp_step op s = (r, s')"
  shows "sp_inv n s' \<and> abs_step (pool_op op) (sp_abs s) r (sp_abs s')"
proof -
  note home = home_less [OF n]
  have len: "length (sp_shards s) = n" and own: "\<And>i. i < n \<Longrightarrow> pool_inv (sp_shards s ! i)" using inv by (simp_all add: sp_inv_def)
  show ?thesis
  proof (cases op)
    case (Sh_add d)
    let ?p = "sp_shards s ! home_shard n d"
    have "?p \<in> set (sp_shards s)" using home len by simp
    then have "\<not> knowsChannel d ?p" using new Sh_add by (simp add: list_all_iff)
    note A = add_step [OF own [OF home] this]
    have "sp_shards (sp_addChannel d s) = (sp_shards s)[home_shard n d := addChannel d ?p]"
      by (simp add: sp_addChannel_def Let_def len home_shard_def)
    from shard_effect(1) [OF inv home home A(1) this refl A(2)] show ?thesis using step Sh_add by auto
  next
    case (Sh_release d)
    let ?p = "sp_shards s ! home_shard n d"
    note R = release_step [OF own [OF home], of d d]
    have e: "fst (sp_release d s) = fst (pool_release d ?p)" "sp_shards (snd (sp_release d s)) = (sp_shards s)[home_shard n d := snd (pool_release d ?p)]"
      by (simp_all add: sp_release_def Let_def len home_shard_def split_beta)
    have "sp_inv n (snd (sp_release d s)) \<and> sp_abs (snd (sp_release d s)) = (sp_abs s)\<lparr>ap_used := ap_used (sp_abs s) - {d}\<rparr>"
      by (rule shard_effect(2) [OF inv home home R(1) e(2) refl R(3)])
    then show ?thesis using step Sh_release e(1) R(2) abs_home(2) [OF inv home] by (cases "sp_release d s") auto
  next
    case (Sh_allocate t)
    then show ?thesis using sp_allocate_step [OF inv n, of t] step by (cases "sp_allocate t s") auto
  qed
qed

lemma sp_run_refines:
  assumes "sp_inv n s" and n: "n = 2 ^ k" "k < 32" and "sp_legal ops s" and "sp_run ops s = (rs, s')"
  shows "sp_inv n s' \<and> abs_run (map pool_op ops) (sp_abs s) rs (sp_abs s')"
  using assms(1,4,5)
proof (induction ops arbitrary: s rs)
  case (Cons op ops)
  obtain r s1 where s1: "sp_step op s = (r, s1)" by force
  obtain rs' where rs': "sp_run ops s1 = (rs', s')" "rs = r # rs'" using Cons.prems(3) s1 by (cases "sp_run ops s1") auto
  have "sp_inv n s1 \<and> abs_step (pool_op op) (sp_abs s) r (sp_abs s1)"
    using sp_step_refines [OF Cons.prems(1) n _ s1] Cons.prems(2) by simp
  then show ?case using Cons.IH [of s1 rs'] Cons.prems(2) s1 rs' by auto
qed simp

lemma sharded_pool0_inv: "n = 2 ^ k \<Longrightarrow> sp_inv n (sharded_pool0 n) \<and> sp_abs (sharded_pool0 n) = abs_pool0"
  using pool0_inv by (auto simp: sp_inv_def sharded_pool0_def sp_abs_def abs_pool0_def knowsChannel_def pool0_def)

text \<open>The counters add up over the shards.\<close>

lemma sp_counts:
  assumes inv: "sp_inv n s" and n: "n = 2 ^ k" "k < 32"
  shows "sp_totalCount s = card (ap_registered (sp_abs s)) \<and> sp_freeCount t s = card (available (sp_abs s) t)"
proof -
  note home = home_less [OF n]
  have len: "length (sp_shards s) = n" and own: "\<And>i. i < n \<Longrightarrow> pool_inv (sp_shards s ! i)"
    and at: "\<And>i d. i < n \<Longrightarrow> knowsChannel d (sp_shards s ! i) \<Longrightarrow> home_shard n d = i" using inv by (simp_all add: sp_inv_def)
  let ?R = "\<lambda>i. ap_registered (pool_abs (sp_shards s ! i))" and ?F = "\<lambda>i. set (mFreeByType (sp_shards s ! i) t)"
  have fin: "finite (?R i)" if "i < n" for i by (rule registered_finite [OF own [OF that]])
  have sub: "?F i \<subseteq> ?R i" if "i < n" for i using pool_invD(3) [OF own [OF that]] by (auto simp: in_abs knowsChannel_def)
  have disj: "?R i \<inter> ?R j = {} \<and> ?F i \<inter> ?F j = {}" if "i < n" "j < n" "i \<noteq> j" for i j
  proof -
    have "?R i \<subseteq> {d. home_shard n d = i}" "?R j \<subseteq> {d. home_shard n d = j}" using at that by (auto simp: in_abs(1))
    then show ?thesis using sub [OF that(1)] sub [OF that(2)] that(3) by blast
  qed
  have "ap_registered (sp_abs s) = (\<Union>i\<in>{..<n}. ?R i)" by (auto simp: sp_abs_def set_conv_nth len)
  then have "card (ap_registered (sp_abs s)) = (\<Sum>i<n. card (?R i))"
    using fin disj by (simp add: card_UN_disjoint)
  also have "\<dots> = sp_totalCount s"
    using pool_counts(2) [OF own] by (simp add: sp_totalCount_def sum_list_sum_nth len atLeast0LessThan)
  finally have total: "sp_totalCount s = card (ap_registered (sp_abs s))" ..
  have "card (available (sp_abs s) t) = (\<Sum>i<n. card (?F i))"
    unfolding available_shards [OF inv home] using disj by (subst card_UN_disjoint) auto
  also have "\<dots> = sp_freeCount t s"
    using pool_invD(1) [OF own] by (simp add: sp_freeCount_def freeCount_def sum_list_sum_nth len atLeast0LessThan distinct_card)
  finally show ?thesis using total by simp
qed

section \<open>Theorems\<close>

text \<open>
  Started empty, and with no channel added while it is registered, the sharded pool behaves through any sequence of operations
  as the one set of channels that the single pool refines, whatever the hash does: an allocation returns a
  channel of the type that is registered and not in use, and fails only when no shard has one; a release succeeds exactly for a channel in
  use; the counters are those of the set.
\<close>

theorem sharded_pool_refines:
  assumes "n \<in> {4, 8, 16, 32}" and "sp_legal ops (sharded_pool0 n)" and "sp_run ops (sharded_pool0 n) = (rs, s)"
  shows "abs_run (map pool_op ops) abs_pool0 rs (sp_abs s) \<and> sp_totalCount s = card (ap_registered (sp_abs s)) \<and>
    sp_freeCount t s = card (available (sp_abs s) t)"
proof -
  obtain k :: nat where k: "n = 2 ^ k" "k < 32"
  proof -
    have "n = 2 ^ 2 \<or> n = 2 ^ 3 \<or> n = 2 ^ 4 \<or> n = 2 ^ 5" using assms(1) by simp
    then show ?thesis using that [of 2] that [of 3] that [of 4] that [of 5] by fastforce
  qed
  note z = sharded_pool0_inv [OF k(1)]
  have "sp_inv n s \<and> abs_run (map pool_op ops) abs_pool0 rs (sp_abs s)"
    using sp_run_refines [OF conjunct1 [OF z] k assms(2,3)] z by simp
  then show ?thesis using sp_counts [OF _ k] by blast
qed

text \<open>A run over four shards: two channels in two different shards, both given out, one of them released and given out again.\<close>

definition sharded_example :: "ShardedOp list" where
  "sharded_example =
     [Sh_add (sdcch 0), Sh_add (sdcch 1), Sh_allocate SDCCHType, Sh_allocate SDCCHType, Sh_allocate SDCCHType, Sh_release (sdcch 1),
      Sh_allocate SDCCHType]"

lemma sharded_example_homes: "home_shard 4 (sdcch 0) = 2" "home_shard 4 (sdcch 1) = 0"
  by code_simp+

lemma sharded_example_run:
  "sp_legal sharded_example (sharded_pool0 4)"
  "fst (sp_run sharded_example (sharded_pool0 4)) =
     [R_none, R_none, R_channel (Some (sdcch 1)), R_channel (Some (sdcch 0)), R_channel None, R_bool True, R_channel (Some (sdcch 1))]"
  by code_simp+

lemma sharded_example_eq:
  "sp_run sharded_example (sharded_pool0 4) =
     ([R_none, R_none, R_channel (Some (sdcch 1)), R_channel (Some (sdcch 0)), R_channel None, R_bool True, R_channel (Some (sdcch 1))],
      snd (sp_run sharded_example (sharded_pool0 4)))"
  by (rule prod_eqI) (simp_all only: sharded_example_run(2) fst_conv snd_conv)

theorem sharded_pool_refines_witness:
  "abs_run (map pool_op sharded_example) abs_pool0
     [R_none, R_none, R_channel (Some (sdcch 1)), R_channel (Some (sdcch 0)), R_channel None, R_bool True, R_channel (Some (sdcch 1))]
     (sp_abs (snd (sp_run sharded_example (sharded_pool0 4))))"
  using sharded_pool_refines [OF _ sharded_example_run(1) sharded_example_eq] by simp

text \<open>So no channel is handed out twice, by whatever shards.\<close>

theorem sharded_no_double_assignment:
  assumes "n \<in> {4, 8, 16, 32}" and "sp_legal ops (sharded_pool0 n)" and "sp_run ops (sharded_pool0 n) = (rs, s)"
    and "i < j" and "j < length ops" and "rs ! i = R_channel (Some d)" and "rs ! j = R_channel (Some d)"
  shows "\<exists>k. i < k \<and> k < j \<and> ops ! k = Sh_release d \<and> rs ! k = R_bool True"
proof -
  have "abs_run (map pool_op ops) abs_pool0 rs (sp_abs s)" using sharded_pool_refines [OF assms(1-3)] by blast
  from abs_no_double [OF this assms(4)] assms(5-7) obtain k where k: "i < k" "k < j" "gives_back d (pool_op (ops ! k)) (rs ! k)" by auto
  then show ?thesis by (intro exI [of _ k]) (cases "ops ! k"; auto simp: gives_back_def)
qed

theorem sharded_no_double_assignment_witness:
  "\<exists>k. 2 < k \<and> k < 6 \<and> sharded_example ! k = Sh_release (sdcch 1)"
  using sharded_no_double_assignment [OF _ sharded_example_run(1) sharded_example_eq, of 2 6 "sdcch 1"] by (auto simp: sharded_example_def)

end
