(* ===== verification/Subscriber_Session.thy ===== *)
theory Subscriber_Session
  imports Procedure_Runner Transaction Channel_Pool
begin

text \<open>
  The session of a subscriber (\<^verbatim>\<open>SubscriberSession\<close> of \<^verbatim>\<open>stack/subscriber_registry.h\<close>): context, state machines, timers,
  transactions, procedures, response parameters and channel of one mobile station. The three state machines are their states.
\<close>

record SubscriberSession =
  su_context :: MSContext
  su_rrSM :: int
  su_mmSM :: int
  su_ccSM :: int
  su_timers :: TimerManager
  su_transactions :: TransactionManager
  su_procedures :: ProcedureRunner
  su_response :: ResponseContext
  su_channel :: "ChannelDescriptor option"
  su_lapdmLink :: u8
  su_assignedTmsi :: u32

definition session0 :: SubscriberSession where
  "session0 =
     \<lparr>su_context = context0, su_rrSM = RR_IDLE, su_mmSM = MM_DEREGISTERED, su_ccSM = CC_IDLE, su_timers = timers0,
      su_transactions = transactions0, su_procedures = runner0, su_response = response0, su_channel = None,
      su_lapdmLink = 0, su_assignedTmsi = 0\<rparr>"

text \<open>What a procedure sees and changes of the session.\<close>

definition session_view :: "SubscriberSession \<Rightarrow> Session" where
  "session_view s = \<lparr>ses_context = su_context s, ses_response = su_response s\<rparr>"

definition session_put :: "Session option \<Rightarrow> SubscriberSession \<Rightarrow> SubscriberSession" where
  "session_put v s = (case v of None \<Rightarrow> s | Some x \<Rightarrow> s\<lparr>su_context := ses_context x, su_response := ses_response x\<rparr>)"

lemma session_put_fields [simp]:
  "su_timers (session_put v s) = su_timers s" "su_procedures (session_put v s) = su_procedures s"
  "su_channel (session_put v s) = su_channel s" "su_lapdmLink (session_put v s) = su_lapdmLink s"
  "su_assignedTmsi (session_put v s) = su_assignedTmsi s" "su_transactions (session_put v s) = su_transactions s"
  "su_mmSM (session_put v s) = su_mmSM s" "su_rrSM (session_put v s) = su_rrSM s" "su_ccSM (session_put v s) = su_ccSM s"
  by (simp_all add: session_put_def split: option.split)

section \<open>What procedures do to a session\<close>

lemma fo_session_pieces:
  "fo_session (stay ses p) = ses" "fo_session (respond tok sink msg ses p) = ses" "fo_session (signal tok ses p) = ses"
  "fo_session (await ses p) = ses" "fo_session (conclude a t reason ses p) = ses" "fo_session (base_feedExternalTyped d ses p) = ses"
  "fo_session (with_final t reason r) = fo_session r" "fo_session (report_terminal t r) = fo_session r"
  by (simp_all add: with_final_def report_terminal_def Let_def stay_def respond_def signal_def await_def conclude_def base_feedExternalTyped_def)

lemma context_of_respond: "map_option ses_context (ses_respond f ses) = map_option ses_context ses"
  by (cases ses) (simp_all add: ses_respond_def)

lemma lu_context:
  "map_option ses_context (fo_session (lu_feed sink msg ses p)) = map_option ses_context ses"
  "map_option ses_context (fo_session (lu_feedExternalTyped d ses p)) = map_option ses_context ses"
  by (simp_all add: lu_reject_def lu_verify_def lu_request_def lu_switch_def lu_feed_def lu_challenge_def lu_decide_def lu_feedExternalTyped_def Let_def fo_session_pieces context_of_respond option.map_comp comp_def split: option.split MessageBody.split ExternalData.split LocationUpdateState.split)

lemma auth_context:
  "map_option ses_context (fo_session (auth_feed sink msg ses p)) = map_option ses_context ses"
  "map_option ses_context (fo_session (auth_feedExternalTyped d ses p)) = map_option ses_context ses"
  by (simp_all add: auth_verify_def auth_feed_def auth_feedExternalTyped_def Let_def fo_session_pieces context_of_respond option.map_comp comp_def split: option.split MessageBody.split ExternalData.split AuthenticationState.split)

lemma ciph_context:
  "map_option ses_context (fo_session (ciph_feed sink msg ses p)) = map_option ses_context ses"
  "map_option ses_context (fo_session (ciph_feedExternalTyped d ses p)) = map_option ses_context ses"
  by (simp_all add: ciph_feed_def ciph_feedExternalTyped_def Let_def fo_session_pieces context_of_respond option.map_comp comp_def split: option.split MessageBody.split ExternalData.split CipheringModeState.split)

lemma mo_context:
  "map_option ses_context (fo_session (mo_feed sink msg ses p)) = map_option ses_context ses"
  by (simp_all add: mo_setup_def mo_feed_def Let_def fo_session_pieces context_of_respond option.map_comp comp_def split: option.split MessageBody.split ExternalData.split CallSetupMOState.split)

lemma mt_context:
  "map_option ses_context (fo_session (mt_feed sink msg ses p)) = map_option ses_context ses"
  "map_option ses_context (fo_session (mt_feedExternalTyped d ses p)) = map_option ses_context ses"
  by (simp_all add: mt_expose_number_def mt_feed_def mt_feedExternalTyped_def Let_def fo_session_pieces context_of_respond option.map_comp comp_def split: option.split MessageBody.split ExternalData.split CallSetupMTState.split)

lemma ca_context:
  "map_option ses_context (fo_session (ca_feed sink msg ses p)) = map_option ses_context ses"
  by (simp_all add: ca_remember_def ca_feed_def Let_def fo_session_pieces context_of_respond option.map_comp comp_def split: option.split MessageBody.split ExternalData.split ChannelAssignmentState.split)

lemma page_context:
  "map_option ses_context (fo_session (page_feed sink msg ses p)) = map_option ses_context ses"
  "map_option ses_context (fo_session (page_feedExternalTyped d ses p)) = map_option ses_context ses"
  by (simp_all add: page_send_def page_wait_def page_feed_def page_feedExternalTyped_def Let_def fo_session_pieces context_of_respond option.map_comp comp_def split: option.split MessageBody.split ExternalData.split PagingState.split)

lemma ho_context:
  "map_option ses_context (fo_session (ho_feed sink msg ses p)) = map_option ses_context ses"
  "map_option ses_context (fo_session (ho_feedExternalTyped d ses p)) = map_option ses_context ses"
  by (simp_all add: ho_feed_def ho_feedExternalTyped_def Let_def fo_session_pieces context_of_respond option.map_comp comp_def split: option.split MessageBody.split ExternalData.split HandoverState.split)

lemma rel_context:
  "map_option ses_context (fo_session (rel_feed sink msg ses p)) = map_option ses_context ses"
  "map_option ses_context (fo_session (rel_feedExternalTyped d ses p)) = map_option ses_context ses"
  by (simp_all add: rel_disconnect_def rel_complete_def rel_feed_def rel_feedExternalTyped_def Let_def fo_session_pieces context_of_respond option.map_comp comp_def split: option.split MessageBody.split ExternalData.split CallReleaseState.split)

lemma det_context:
  "map_option ses_context (fo_session (det_feed sink msg ses p)) = map_option ses_context ses"
  "map_option ses_context (fo_session (det_feedExternalTyped d ses p)) = map_option ses_context ses"
  by (simp_all add: det_accept_def det_feed_def det_feedExternalTyped_def Let_def fo_session_pieces context_of_respond option.map_comp comp_def split: option.split MessageBody.split ExternalData.split IMSIDetachState.split)

text \<open>A procedure writes response parameters; it never changes the context of the session.\<close>

lemma proc_context:
  "map_option ses_context (fo_session (proc_feed sink msg ses p)) = map_option ses_context ses"
  "map_option ses_context (fo_session (proc_ext d ses p)) = map_option ses_context ses"
  by (cases p; simp add: lu_context auth_context ciph_context mo_context mt_context ca_context page_context ho_context rel_context det_context
      fo_session_pieces)+

lemma runner_context:
  "map_option ses_context (fo_session (runner_feed sink msg ses rn)) = map_option ses_context ses"
  "map_option ses_context (fo_session (runner_feedExternalTyped t d ses rn)) = map_option ses_context ses"
  by (simp_all add: runner_feed_def runner_feedExternalTyped_def feed_slot_def with_runner_def stay_def proc_context context_of_respond
      split: option.split prod.split)

section \<open>Observed components\<close>

text \<open>
  Timers and procedures have one observer, told \<open>True\<close> when the first of them becomes active and \<open>False\<close> when none is
  left. What the observer needs: the last thing it was told is whether one is active now. Then the set that an observer keeps
  of its active components is right after every operation that only adds notifications.
\<close>

definition note_step :: "'p \<Rightarrow> bool \<Rightarrow> 'p set \<Rightarrow> 'p set" where
  "note_step p b A = (if b then insert p A else A - {p})"

definition notes_grow :: "('m \<Rightarrow> bool) \<Rightarrow> ('m \<Rightarrow> bool list) \<Rightarrow> ('m \<Rightarrow> 'm) \<Rightarrow> bool" where
  "notes_grow ok told g \<longleftrightarrow> (\<forall>m. ok m \<longrightarrow> ok (g m) \<and> take (length (told m)) (told (g m)) = told m)"

lemma fold_notes: "fold (note_step p) ns A = (if ns = [] then A else note_step p (last ns) A)"
  by (induction ns arbitrary: A) (auto simp: note_step_def)

locale observed =
  fixes ok active :: "'m \<Rightarrow> bool" and told :: "'m \<Rightarrow> bool list"
  assumes last_note: "ok m \<Longrightarrow> active m \<longleftrightarrow> told m \<noteq> [] \<and> last (told m)"
begin

lemma set_follows:
  assumes "ok m" and "notes_grow ok told g" and "p \<in> A \<longleftrightarrow> active m"
  shows "fold (note_step p) (drop (length (told m)) (told (g m))) A = note_step p (active (g m)) A"
proof -
  define ns where "ns = drop (length (told m)) (told (g m))"
  have g: "ok (g m)" "told (g m) = told m @ ns"
    using assms(1,2) append_take_drop_id [of "length (told m)" "told (g m)"] unfolding notes_grow_def ns_def by metis+
  show ?thesis
  proof (cases "ns = []")
    case True
    then have "active (g m) = active m" using g last_note assms(1) by simp
    then show ?thesis using True assms(3) by (auto simp: fold_notes note_step_def ns_def [symmetric])
  next
    case False
    then show ?thesis using g last_note [OF g(1)] by (simp add: fold_notes ns_def [symmetric])
  qed
qed

end

definition timers_ok :: "TimerManager \<Rightarrow> bool" where
  "timers_ok m \<longleftrightarrow> tm_inv m \<and> tmObserved m \<and> notes_ok m"

definition runner_ok :: "ProcedureRunner \<Rightarrow> bool" where
  "runner_ok rn \<longleftrightarrow> runner_inv rn \<and> rnObserved rn \<and> rn_notes_ok rn"

interpretation tobs: observed timers_ok "\<lambda>m. 0 < runningCount m" tmNotes
  by unfold_locales (auto simp: timers_ok_def notes_ok_def)

interpretation robs: observed runner_ok "\<lambda>rn. 0 < activeCount rn" rnNotes
proof
  fix rn
  assume "runner_ok rn"
  then have n: "\<And>i. i < length (rnNotes rn) \<Longrightarrow> rnNotes rn ! i = even i" "odd (length (rnNotes rn)) = (0 < activeCount rn)"
    by (auto simp: runner_ok_def rn_notes_ok_def)
  show "0 < activeCount rn \<longleftrightarrow> rnNotes rn \<noteq> [] \<and> last (rnNotes rn)"
  proof (cases "rnNotes rn = []")
    case False
    then have "last (rnNotes rn) = even (length (rnNotes rn) - 1)" using n(1) [of "length (rnNotes rn) - 1"] by (simp add: last_conv_nth)
    then show ?thesis using n(2) False by simp
  qed (use n(2) in simp)
qed

text \<open>The operations of the timers add notifications only.\<close>

lemma notifyActive_grows [simp]: "take (length (tmNotes m)) (tmNotes (notifyActive b m)) = tmNotes m"
  by (simp add: notifyActive_def)

lemma timer_ops_grow:
  "notes_grow timers_ok tmNotes (\<lambda>m. snd (tm_start_with i d m))" "notes_grow timers_ok tmNotes (tm_stop i)"
  "notes_grow timers_ok tmNotes tm_stopAll" "notes_grow timers_ok tmNotes (\<lambda>m. snd (tm_tick delta cap m))"
proof -
  have "tmObserved (snd (tm_start_with i d m)) = tmObserved m \<and>
      take (length (tmNotes m)) (tmNotes (snd (tm_start_with i d m))) = tmNotes m" for m
    by (simp add: tm_start_with_def Let_def notifyActive_def)
  then show "notes_grow timers_ok tmNotes (\<lambda>m. snd (tm_start_with i d m))"
    by (simp add: notes_grow_def timers_ok_def start_with_inv start_notes)
  have "tmObserved (tm_stop i m) = tmObserved m \<and> take (length (tmNotes m)) (tmNotes (tm_stop i m)) = tmNotes m" for m
    by (simp add: tm_stop_def Let_def notifyActive_def)
  then show "notes_grow timers_ok tmNotes (tm_stop i)" by (simp add: notes_grow_def timers_ok_def stop_inv stop_notes)
  have "tmObserved (tm_stopAll m) = tmObserved m \<and> take (length (tmNotes m)) (tmNotes (tm_stopAll m)) = tmNotes m" for m
    by (simp add: tm_stopAll_def Let_def notifyActive_def)
  then show "notes_grow timers_ok tmNotes tm_stopAll" by (simp add: notes_grow_def timers_ok_def stopAll_inv stopAll_notes)
  have "tmObserved (snd (tm_tick delta cap m)) = tmObserved m \<and>
      take (length (tmNotes m)) (tmNotes (snd (tm_tick delta cap m))) = tmNotes m" if "tm_inv m" for m
    using that tick_pass [of m MAX_TIMERS delta cap] by (simp add: tm_tick_def Let_def notifyActive_def tm_inv_def)
  then show "notes_grow timers_ok tmNotes (\<lambda>m. snd (tm_tick delta cap m))"
    by (simp add: notes_grow_def timers_ok_def tick_inv tick_notes)
qed

text \<open>So do those of the procedures.\<close>

definition rn_grows :: "ProcedureRunner \<Rightarrow> ProcedureRunner \<Rightarrow> bool" where
  "rn_grows rn rn' \<longleftrightarrow> rnObserved rn' = rnObserved rn \<and> (\<exists>ns. rnNotes rn' = rnNotes rn @ ns)"

lemma rn_grows_refl [simp]: "rn_grows rn rn"
  by (simp add: rn_grows_def)

lemma rn_grows_trans: "rn_grows a b \<Longrightarrow> rn_grows b c \<Longrightarrow> rn_grows a c"
  by (auto simp: rn_grows_def)

lemma rn_grows_set: "rnObserved rn' = rnObserved rn \<Longrightarrow> rnNotes rn' = rnNotes rn \<Longrightarrow> rn_grows rn rn'"
  by (simp add: rn_grows_def)

lemma rn_grows_notify: "rn_grows rn rn' \<Longrightarrow> rn_grows rn (rn_notify b rn')"
  by (auto simp: rn_grows_def rn_notify_def)

lemma cleanup_grows: "rn_grows rn (cleanupSlotIfTerminal i rn)"
  by (auto simp: cleanupSlotIfTerminal_def Let_def rn_grows_set rn_grows_notify split: option.split)

lemma put_grows: "rn_grows rn (put_proc i p rn)"
  unfolding put_proc_def by (rule rn_grows_trans [OF _ cleanup_grows]) (simp add: rn_grows_set)

lemma insert_grows: "rn_grows rn (snd (insertSlot q rn))"
  by (auto simp: insertSlot_def Let_def rn_grows_set rn_grows_notify split: option.split)

lemma feed_slot_grows: "rn_grows rn (fo_proc (feed_slot sink msg ses i rn))"
  by (simp add: feed_slot_def with_runner_def stay_def put_grows split: option.split)

lemma feed_grows: "rn_grows rn (fo_proc (runner_feed sink msg ses rn))"
  using insert_grows [of rn "autoCreateProcedure msg"] rn_grows_trans [OF _ feed_slot_grows]
  by (auto simp: runner_feed_def feed_slot_grows stay_def split: option.split prod.split)

lemma ext_grows: "rn_grows rn (fo_proc (runner_feedExternalTyped t d ses rn))"
  by (simp add: runner_feedExternalTyped_def with_runner_def stay_def put_grows split: option.split)

lemma tickAll_grows: "rn_grows rn (snd (tickAll delta rn))"
proof -
  have one: "rn_grows (snd st) (snd (tick_one delta i st))" for i st by (simp add: tick_one_def put_grows split: option.split)
  have "rn_grows (snd st) (snd (fold (tick_one delta) js st))" for js st
    by (induction js arbitrary: st) (simp_all, metis one rn_grows_trans)
  from this [of "(0, rn)"] show ?thesis by (simp add: tickAll_def)
qed

lemma cancel_grows: "rn_grows rn (cancelAll rn)"
  by (auto simp: cancelAll_def Let_def rn_grows_set rn_grows_notify)

lemma runner_ops_grow:
  "notes_grow runner_ok rnNotes (\<lambda>rn. fo_proc (runner_feed sink msg ses rn))"
  "notes_grow runner_ok rnNotes (\<lambda>rn. fo_proc (runner_feedExternalTyped t d ses rn))"
  "notes_grow runner_ok rnNotes (\<lambda>rn. snd (tickAll delta rn))" "notes_grow runner_ok rnNotes cancelAll"
proof -
  have grow: "notes_grow runner_ok rnNotes g"
    if g: "\<And>rn. rn_grows rn (g rn)" "\<And>rn. runner_inv rn \<Longrightarrow> runner_inv (g rn)" "\<And>rn. runner_inv rn \<Longrightarrow> rn_notes_ok rn \<Longrightarrow> rn_notes_ok (g rn)" for g
    unfolding notes_grow_def
  proof (intro allI impI)
    fix rn
    assume "runner_ok rn"
    moreover obtain ns where "rnNotes (g rn) = rnNotes rn @ ns" "rnObserved (g rn) = rnObserved rn" using g(1) [of rn] by (auto simp: rn_grows_def)
    ultimately show "runner_ok (g rn) \<and> take (length (rnNotes rn)) (rnNotes (g rn)) = rnNotes rn"
      using g(2,3) by (simp add: runner_ok_def)
  qed
  show "notes_grow runner_ok rnNotes (\<lambda>rn. fo_proc (runner_feed sink msg ses rn))"
    by (rule grow) (simp_all add: feed_grows runner_feed_ok)
  show "notes_grow runner_ok rnNotes (\<lambda>rn. fo_proc (runner_feedExternalTyped t d ses rn))"
    by (rule grow) (simp_all add: ext_grows runner_ext_ok)
  show "notes_grow runner_ok rnNotes (\<lambda>rn. snd (tickAll delta rn))" by (rule grow) (simp_all add: tickAll_grows tickAll_ok)
  show "notes_grow runner_ok rnNotes cancelAll" by (rule grow) (simp_all add: cancel_grows cancelAll_ok)
qed

end
