(* ===== verification/Flat_Map.thy ===== *)
theory Flat_Map
  imports Prelude
begin

text \<open>
  The open-addressing hash map of the subscriber registry: \<^verbatim>\<open>stack/flat_map.h\<close>. The entries live in slabs of
  64, the slot table holds entry indexes or one of two marks, collisions are resolved by linear probing. The
  probing loops of the source have no bound of their own, so they are partial functions: \<open>None\<close> is a loop that
  never ends. \<^verbatim>\<open>std::hash\<close> of the key type and the value-initialised key are parameters.
\<close>

unbundle bit_operations_syntax

section \<open>State\<close>

definition kEmpty :: u32 where "kEmpty = 0xFFFFFFFE"
definition kTomb :: u32 where "kTomb = 0xFFFFFFFF"

definition kLog2SlabEntries :: nat where "kLog2SlabEntries = 6"
definition kSlabEntries :: nat where "kSlabEntries = 64"

record ('k, 'v) Entry =
  en_key :: 'k
  en_value :: "'v option"
  en_slot :: u32

record ('k, 'v) FlatMap =
  mSlabs :: "('k, 'v) Entry list list"
  mSlots :: "u32 list"
  mFree :: "nat list"
  mEntryCount :: nat
  mSize :: nat
  mTomb :: nat

definition flat_map0 :: "('k, 'v) FlatMap" where
  "flat_map0 = \<lparr>mSlabs = [], mSlots = [], mFree = [], mEntryCount = 0, mSize = 0, mTomb = 0\<rparr>"

definition entry0 :: "'k \<Rightarrow> ('k, 'v) Entry" where
  "entry0 k0 = \<lparr>en_key = k0, en_value = None, en_slot = kEmpty\<rparr>"

definition mEntryAt :: "('k, 'v) FlatMap \<Rightarrow> nat \<Rightarrow> ('k, 'v) Entry" where
  "mEntryAt m idx = mSlabs m ! drop_bit kLog2SlabEntries idx ! (idx AND (kSlabEntries - 1))"

definition set_slab_entry ::
  "nat \<Rightarrow> (('k, 'v) Entry \<Rightarrow> ('k, 'v) Entry) \<Rightarrow> ('k, 'v) Entry list list \<Rightarrow> ('k, 'v) Entry list list" where
  "set_slab_entry idx f slabs =
     (let s = drop_bit kLog2SlabEntries idx; j = idx AND (kSlabEntries - 1)
      in slabs[s := (slabs ! s)[j := f (slabs ! s ! j)]])"

definition fm_capacity :: "('k, 'v) FlatMap \<Rightarrow> nat" where
  "fm_capacity m = length (mSlots m)"

section \<open>Hashing and probing\<close>

definition hashKey :: "('k \<Rightarrow> u64) \<Rightarrow> 'k \<Rightarrow> u64" where
  "hashKey std_hash key =
     (let h0 = std_hash key;
          h1 = (h0 XOR drop_bit 30 h0) * 0xbf58476d1ce4e5b9;
          h2 = (h1 XOR drop_bit 27 h1) * 0x94d049bb133111eb
      in h2 XOR drop_bit 31 h2)"

definition home_slot :: "('k \<Rightarrow> u64) \<Rightarrow> nat \<Rightarrow> 'k \<Rightarrow> nat" where
  "home_slot std_hash cap key = unat (hashKey std_hash key) AND (cap - 1)"

definition next_slot :: "nat \<Rightarrow> nat \<Rightarrow> nat" where
  "next_slot cap i = (i + 1) AND (cap - 1)"

function nextPow2_from :: "nat \<Rightarrow> nat \<Rightarrow> nat" where
  "nextPow2_from cap v = (if 0 < cap \<and> cap < v then nextPow2_from (2 * cap) v else cap)"
  by pat_completeness auto

termination nextPow2_from
  by (relation "measure (\<lambda>(cap, v). v - cap)") auto

declare nextPow2_from.simps [simp del]

definition nextPow2 :: "nat \<Rightarrow> nat" where
  "nextPow2 v = nextPow2_from 8 v"

partial_function (option) rehash_probe :: "u32 list \<Rightarrow> nat \<Rightarrow> nat option" where
  [code]: "rehash_probe slots i =
     (if slots ! i \<noteq> kEmpty then rehash_probe slots (next_slot (length slots) i) else Some i)"

fun rehash_from ::
  "('k \<Rightarrow> u64) \<Rightarrow> nat list \<Rightarrow> ('k, 'v) FlatMap \<Rightarrow> u32 list \<Rightarrow> (u32 list \<times> ('k, 'v) FlatMap) option" where
  "rehash_from std_hash [] m slots = Some (slots, m)"
| "rehash_from std_hash (idx # idxs) m slots =
     (if en_value (mEntryAt m idx) = None then rehash_from std_hash idxs m slots
      else case rehash_probe slots (home_slot std_hash (length slots) (en_key (mEntryAt m idx))) of
        None \<Rightarrow> None
      | Some i \<Rightarrow>
          rehash_from std_hash idxs
            (m\<lparr>mSlabs := set_slab_entry idx (\<lambda>e. e\<lparr>en_slot := word_of_nat i\<rparr>) (mSlabs m)\<rparr>)
            (slots[i := word_of_nat idx]))"

definition rehash :: "('k \<Rightarrow> u64) \<Rightarrow> nat \<Rightarrow> ('k, 'v) FlatMap \<Rightarrow> ('k, 'v) FlatMap option" where
  "rehash std_hash newCap m =
     (case rehash_from std_hash [0..<mEntryCount m] m (replicate newCap kEmpty) of
        None \<Rightarrow> None
      | Some (slots, m1) \<Rightarrow> Some (m1\<lparr>mSlots := slots, mTomb := 0\<rparr>))"

definition allocateSlab :: "'k \<Rightarrow> ('k, 'v) FlatMap \<Rightarrow> ('k, 'v) FlatMap" where
  "allocateSlab k0 m = m\<lparr>mSlabs := mSlabs m @ [replicate kSlabEntries (entry0 k0)]\<rparr>"

definition acquireEntry :: "'k \<Rightarrow> 'k \<Rightarrow> 'v \<Rightarrow> ('k, 'v) FlatMap \<Rightarrow> nat \<times> ('k, 'v) FlatMap" where
  "acquireEntry k0 key v m =
     (let (idx, m1) =
        (if mFree m \<noteq> [] then (last (mFree m), m\<lparr>mFree := butlast (mFree m)\<rparr>)
         else let idx = mEntryCount m; m1 = m\<lparr>mEntryCount := mEntryCount m + 1\<rparr>
              in (idx, if length (mSlabs m1) * kSlabEntries \<le> idx then allocateSlab k0 m1 else m1))
      in (idx, m1\<lparr>mSlabs := set_slab_entry idx (\<lambda>e. e\<lparr>en_key := key, en_value := Some v\<rparr>) (mSlabs m1)\<rparr>))"

text \<open>The search of \<^verbatim>\<open>emplace\<close>: the entry of the key, or the empty slot and the first tombstone before it.\<close>

partial_function (option) emplace_probe ::
  "('k, 'v) FlatMap \<Rightarrow> 'k \<Rightarrow> nat \<Rightarrow> nat \<Rightarrow> (nat + nat \<times> nat) option" where
  [code]: "emplace_probe m key i firstTomb =
     (let s = mSlots m ! i; cap = length (mSlots m)
      in if s = kEmpty then Some (Inr (i, firstTomb))
      else if s = kTomb then emplace_probe m key (next_slot cap i) (if firstTomb = cap then i else firstTomb)
      else if en_key (mEntryAt m (unat s)) = key then Some (Inl (unat s))
      else emplace_probe m key (next_slot cap i) firstTomb)"

partial_function (option) find_probe :: "('k, 'v) FlatMap \<Rightarrow> 'k \<Rightarrow> nat \<Rightarrow> nat option option" where
  [code]: "find_probe m key i =
     (let s = mSlots m ! i
      in if s = kEmpty then Some None
      else if s \<noteq> kTomb \<and> en_value (mEntryAt m (unat s)) \<noteq> None \<and> en_key (mEntryAt m (unat s)) = key
      then Some (Some (unat s))
      else find_probe m key (next_slot (length (mSlots m)) i))"

section \<open>Operations\<close>

definition fm_emplace ::
  "('k \<Rightarrow> u64) \<Rightarrow> 'k \<Rightarrow> 'k \<Rightarrow> 'v \<Rightarrow> ('k, 'v) FlatMap \<Rightarrow> ((nat \<times> bool) \<times> ('k, 'v) FlatMap) option" where
  "fm_emplace std_hash k0 key v m0 =
     (case (if mSlots m0 = [] then rehash std_hash 8 m0 else Some m0) of
        None \<Rightarrow> None
      | Some m \<Rightarrow>
          let cap = length (mSlots m)
          in case emplace_probe m key (home_slot std_hash cap key) cap of
               None \<Rightarrow> None
             | Some (Inl s) \<Rightarrow> Some ((s, False), m)
             | Some (Inr (i, firstTomb)) \<Rightarrow>
                 let at = (if firstTomb \<noteq> cap then firstTomb else i);
                     (idx, m1) = acquireEntry k0 key v m;
                     m2 = m1\<lparr>mSlots := (mSlots m1)[at := word_of_nat idx],
                             mSlabs := set_slab_entry idx (\<lambda>e. e\<lparr>en_slot := word_of_nat at\<rparr>) (mSlabs m1),
                             mTomb := (if at = firstTomb then mTomb m1 - 1 else mTomb m1),
                             mSize := mSize m1 + 1\<rparr>
                 in if length (mSlots m2) * 7 < mSize m2 * 10
                    then map_option (\<lambda>m3. ((idx, True), m3)) (rehash std_hash (length (mSlots m2) * 2) m2)
                    else Some ((idx, True), m2))"

definition fm_find :: "('k \<Rightarrow> u64) \<Rightarrow> 'k \<Rightarrow> ('k, 'v) FlatMap \<Rightarrow> nat option option" where
  "fm_find std_hash key m =
     (if mSlots m = [] then Some None
      else find_probe m key (home_slot std_hash (length (mSlots m)) key))"

definition fm_erase :: "('k \<Rightarrow> u64) \<Rightarrow> 'k \<Rightarrow> nat \<Rightarrow> ('k, 'v) FlatMap \<Rightarrow> (bool \<times> ('k, 'v) FlatMap) option" where
  "fm_erase std_hash k0 idx m =
     (if mEntryCount m \<le> idx \<or> en_value (mEntryAt m idx) = None then Some (False, m)
      else let m1 = m\<lparr>mSlots := (mSlots m)[unat (en_slot (mEntryAt m idx)) := kTomb],
                      mTomb := mTomb m + 1,
                      mSlabs := set_slab_entry idx (\<lambda>e. e\<lparr>en_value := None, en_key := k0\<rparr>) (mSlabs m),
                      mFree := mFree m @ [idx],
                      mSize := mSize m - 1\<rparr>
      in if length (mSlots m1) < mTomb m1 * 2
         then map_option (\<lambda>m2. (True, m2)) (rehash std_hash (length (mSlots m1)) m1)
         else Some (True, m1))"

definition fm_reserve :: "('k \<Rightarrow> u64) \<Rightarrow> 'k \<Rightarrow> nat \<Rightarrow> ('k, 'v) FlatMap \<Rightarrow> ('k, 'v) FlatMap option" where
  "fm_reserve std_hash k0 expected m =
     (let cap = nextPow2 (expected + expected div 3 + 1)
      in map_option
           (\<lambda>m1. ((allocateSlab k0) ^^ ((expected + kSlabEntries - 1) div kSlabEntries - length (mSlabs m1))) m1)
           (if length (mSlots m) < cap then rehash std_hash cap m else Some m))"

definition fm_clear :: "('k, 'v) FlatMap \<Rightarrow> ('k, 'v) FlatMap" where
  "fm_clear m =
     m\<lparr>mSlabs := [], mFree := [], mEntryCount := 0, mSize := 0, mTomb := 0,
       mSlots := replicate (length (mSlots m)) kEmpty\<rparr>"

definition fm_forEach :: "('k, 'v) FlatMap \<Rightarrow> ('k \<times> 'v) list" where
  "fm_forEach m =
     concat (map (\<lambda>slab. map (\<lambda>e. (en_key e, the (en_value e))) (filter (\<lambda>e. en_value e \<noteq> None) slab)) (mSlabs m))"

section \<open>Invariant and abstraction\<close>

abbreviation fm_key :: "('k, 'v) FlatMap \<Rightarrow> nat \<Rightarrow> 'k" where
  "fm_key m idx \<equiv> en_key (mEntryAt m idx)"

abbreviation fm_pos :: "('k, 'v) FlatMap \<Rightarrow> nat \<Rightarrow> nat" where
  "fm_pos m idx \<equiv> unat (en_slot (mEntryAt m idx))"

definition fm_live :: "('k, 'v) FlatMap \<Rightarrow> nat set" where
  "fm_live m = {idx. idx < mEntryCount m \<and> en_value (mEntryAt m idx) \<noteq> None}"

text \<open>
  A slot table holds the entries \<open>L\<close> when its marks and indexes agree with the positions stored in the entries and
  every entry can be reached from its home slot without crossing an empty slot.
\<close>

definition reaches :: "('k \<Rightarrow> u64) \<Rightarrow> u32 list \<Rightarrow> 'k \<Rightarrow> nat \<Rightarrow> bool" where
  "reaches std_hash slots key i \<longleftrightarrow>
     (\<exists>d < length slots. i = (home_slot std_hash (length slots) key + d) mod length slots \<and>
        (\<forall>j < d. slots ! ((home_slot std_hash (length slots) key + j) mod length slots) \<noteq> kEmpty))"

definition table_ok :: "('k \<Rightarrow> u64) \<Rightarrow> ('k, 'v) FlatMap \<Rightarrow> nat set \<Rightarrow> u32 list \<Rightarrow> bool" where
  "table_ok std_hash m L slots \<longleftrightarrow>
     (\<exists>n. length slots = 2 ^ n) \<and> length slots \<le> 2 ^ 32 \<and>
     (\<forall>i < length slots. slots ! i = kEmpty \<or> slots ! i = kTomb \<or>
        unat (slots ! i) \<in> L \<and> fm_pos m (unat (slots ! i)) = i) \<and>
     (\<forall>idx \<in> L. fm_pos m idx < length slots \<and> slots ! fm_pos m idx = word_of_nat idx \<and>
        reaches std_hash slots (fm_key m idx) (fm_pos m idx))"

definition tombs :: "u32 list \<Rightarrow> nat" where
  "tombs slots = length (filter (\<lambda>s. s = kTomb) slots)"

definition fm_slabs_ok :: "('k, 'v) FlatMap \<Rightarrow> bool" where
  "fm_slabs_ok m \<longleftrightarrow>
     (\<forall>slab \<in> set (mSlabs m). length slab = kSlabEntries) \<and> mEntryCount m \<le> length (mSlabs m) * kSlabEntries \<and>
     mEntryCount m \<le> 2 ^ 31"

definition fm_inv :: "('k \<Rightarrow> u64) \<Rightarrow> ('k, 'v) FlatMap \<Rightarrow> bool" where
  "fm_inv std_hash m \<longleftrightarrow>
     fm_slabs_ok m \<and> inj_on (fm_key m) (fm_live m) \<and>
     distinct (mFree m) \<and> set (mFree m) = {..<mEntryCount m} - fm_live m \<and> mSize m = card (fm_live m) \<and>
     mTomb m = tombs (mSlots m) \<and>
     (if mSlots m = [] then fm_live m = {}
      else table_ok std_hash m (fm_live m) (mSlots m) \<and> 8 \<le> length (mSlots m) \<and>
           mSize m * 10 \<le> length (mSlots m) * 7)"

definition fm_map :: "('k, 'v) FlatMap \<Rightarrow> 'k \<rightharpoonup> 'v" where
  "fm_map m = map_of (map (\<lambda>idx. (fm_key m idx, the (en_value (mEntryAt m idx))))
     (filter (\<lambda>idx. en_value (mEntryAt m idx) \<noteq> None) [0..<mEntryCount m]))"

definition has_room :: "('k, 'v) FlatMap \<Rightarrow> bool" where
  "has_room m \<longleftrightarrow> mSlots m = [] \<or> kEmpty \<in> set (mSlots m)"

lemma mark_neq [simp]: "kEmpty \<noteq> kTomb" "kTomb \<noteq> kEmpty"
  by (simp_all add: kEmpty_def kTomb_def)

lemma fm_live_bound: "fm_slabs_ok m \<Longrightarrow> idx \<in> fm_live m \<Longrightarrow> idx < 2 ^ 31"
  by (auto simp: fm_slabs_ok_def fm_live_def)

lemma finite_live [simp]: "finite (fm_live m)"
  by (rule finite_subset [of _ "{..<mEntryCount m}"]) (auto simp: fm_live_def)

lemma unat_index [simp]: "idx < 2 ^ 31 \<Longrightarrow> unat (word_of_nat idx :: u32) = idx"
  by (simp add: unat_of_nat)

lemma index_mark: "idx < 2 ^ 31 \<Longrightarrow> word_of_nat idx \<noteq> kEmpty \<and> word_of_nat idx \<noteq> kTomb"
proof -
  assume "idx < 2 ^ 31"
  then have "unat (word_of_nat idx :: u32) < 2 ^ 31" by (simp only: unat_index)
  moreover have "unat kEmpty = 4294967294" "unat kTomb = 4294967295" by (simp_all add: kEmpty_def kTomb_def)
  ultimately show ?thesis by auto
qed

subsection \<open>Entries in slabs\<close>

lemma slab_index: "drop_bit kLog2SlabEntries idx = idx div kSlabEntries" "idx AND (kSlabEntries - Suc 0) = idx mod kSlabEntries"
proof -
  show "drop_bit kLog2SlabEntries idx = idx div kSlabEntries"
    by (simp add: drop_bit_eq_div kLog2SlabEntries_def kSlabEntries_def)
  have "idx AND (2 ^ 6 - 1) = idx mod 2 ^ 6"
    by (metis mask_eq_exp_minus_1 take_bit_eq_mask take_bit_eq_mod)
  then show "idx AND (kSlabEntries - Suc 0) = idx mod kSlabEntries" by (simp add: kSlabEntries_def)
qed

lemma entry_at: "mEntryAt m idx = mSlabs m ! (idx div kSlabEntries) ! (idx mod kSlabEntries)"
  by (simp add: mEntryAt_def slab_index)

lemma entry_cong: "mSlabs m' = mSlabs m \<Longrightarrow> mEntryAt m' = mEntryAt m"
  by (simp add: entry_at fun_eq_iff)

lemma slab_pos: "idx < length slabs * kSlabEntries \<Longrightarrow> idx div kSlabEntries < length slabs"
  by (simp add: less_mult_imp_div_less)

lemma entry_set:
  assumes "fm_slabs_ok m" and "idx < length (mSlabs m) * kSlabEntries"
    and "mSlabs m' = set_slab_entry idx f (mSlabs m)"
  shows "mEntryAt m' j = (if j = idx then f (mEntryAt m idx) else mEntryAt m j)"
proof -
  have len: "length (mSlabs m ! (idx div kSlabEntries)) = kSlabEntries"
    using assms(1) slab_pos [OF assms(2)] by (simp add: fm_slabs_ok_def)
  have "j = idx" if "j div kSlabEntries = idx div kSlabEntries" "j mod kSlabEntries = idx mod kSlabEntries"
    using that by (metis div_mult_mod_eq)
  then have other: "j \<noteq> idx \<Longrightarrow> j div kSlabEntries \<noteq> idx div kSlabEntries \<or> j mod kSlabEntries \<noteq> idx mod kSlabEntries"
    by blast
  have "idx mod kSlabEntries < kSlabEntries" by (simp add: kSlabEntries_def)
  then show ?thesis
    using slab_pos [OF assms(2)] len assms(3) other
    by (cases "j = idx"; cases "j div kSlabEntries = idx div kSlabEntries")
      (simp_all add: entry_at set_slab_entry_def slab_index Let_def)
qed

lemma set_slab_length [simp]: "length (set_slab_entry idx f slabs) = length slabs"
  by (simp add: set_slab_entry_def Let_def)

lemma set_slab_rows:
  "\<forall>slab \<in> set slabs. length slab = kSlabEntries \<Longrightarrow> \<forall>slab \<in> set (set_slab_entry idx f slabs). length slab = kSlabEntries"
  by (cases "drop_bit kLog2SlabEntries idx < length slabs")
    (auto simp: set_slab_entry_def Let_def all_set_conv_all_nth nth_list_update)

lemma slabs_set:
  assumes "fm_slabs_ok m" and "mSlabs m' = set_slab_entry idx f (mSlabs m)" and "mEntryCount m' = mEntryCount m"
  shows "fm_slabs_ok m'"
  using assms set_slab_rows [of "mSlabs m" idx f] by (simp add: fm_slabs_ok_def)

lemma slabs_cong:
  "mSlabs m' = mSlabs m \<Longrightarrow> mEntryCount m' = mEntryCount m \<Longrightarrow> fm_slabs_ok m' = fm_slabs_ok m"
  by (simp add: fm_slabs_ok_def)

subsection \<open>Slot arithmetic\<close>

lemma and_pow2: "x AND (2 ^ n - Suc 0) = x mod (2 ^ n :: nat)"
  by (metis One_nat_def mask_eq_exp_minus_1 take_bit_eq_mask take_bit_eq_mod)

lemma slot_mod:
  assumes "\<exists>n. cap = (2::nat) ^ n"
  shows "home_slot std_hash cap key = unat (hashKey std_hash key) mod cap" and "next_slot cap i = (i + 1) mod cap"
    and "home_slot std_hash cap key < cap"
  using assms by (auto simp: home_slot_def next_slot_def and_pow2)

lemma next_after: "\<exists>n. cap = (2::nat) ^ n \<Longrightarrow> next_slot cap ((h + j) mod cap) = (h + Suc j) mod cap"
  by (simp add: slot_mod mod_simps)

subsection \<open>The slot table\<close>

lemma table_okD:
  assumes "table_ok std_hash m L slots"
  shows "\<exists>n. length slots = 2 ^ n" "0 < length slots" "length slots \<le> 2 ^ 32"
    and "i < length slots \<Longrightarrow> slots ! i \<noteq> kEmpty \<Longrightarrow> slots ! i \<noteq> kTomb \<Longrightarrow>
      unat (slots ! i) \<in> L \<and> fm_pos m (unat (slots ! i)) = i"
    and "idx \<in> L \<Longrightarrow> fm_pos m idx < length slots \<and> slots ! fm_pos m idx = word_of_nat idx \<and>
      reaches std_hash slots (fm_key m idx) (fm_pos m idx)"
  using assms by (auto simp: table_ok_def)

lemma reaches_mono:
  assumes "reaches std_hash slots key i" and "length slots' = length slots"
    and "\<And>k. k < length slots \<Longrightarrow> slots ! k \<noteq> kEmpty \<Longrightarrow> slots' ! k \<noteq> kEmpty"
  shows "reaches std_hash slots' key i"
  using assms unfolding reaches_def by (metis mod_less_divisor not_less_zero zero_less_iff_neq_zero)

lemma unat_slot [simp]: "i < 2 ^ 32 \<Longrightarrow> unat (word_of_nat i :: u32) = i"
  by (simp add: unat_of_nat)

lemma table_insert:
  assumes t: "table_ok std_hash m L slots" and at: "at < length slots" "slots ! at = kEmpty \<or> slots ! at = kTomb"
    and idx: "idx \<notin> L" "idx < 2 ^ 31" and L: "\<And>j. j \<in> L \<Longrightarrow> j < 2 ^ 31"
    and key: "reaches std_hash slots (fm_key m' idx) at" "fm_pos m' idx = at"
    and same: "\<And>j. j \<in> L \<Longrightarrow> fm_key m' j = fm_key m j \<and> fm_pos m' j = fm_pos m j"
  shows "table_ok std_hash m' (insert idx L) (slots[at := word_of_nat idx])"
proof -
  note D = table_okD [OF t]
  let ?s = "slots[at := word_of_nat idx]"
  have mono: "reaches std_hash ?s k i" if "reaches std_hash slots k i" for k i
    using that index_mark [OF idx(2)] at(1) by (elim reaches_mono) (auto simp: nth_list_update)
  have "?s ! i = kEmpty \<or> ?s ! i = kTomb \<or> unat (?s ! i) \<in> insert idx L \<and> fm_pos m' (unat (?s ! i)) = i"
    if "i < length slots" for i
    using that D(4) [of i] key(2) idx(2) same by (cases "i = at") auto
  moreover have "fm_pos m' j < length slots \<and> ?s ! fm_pos m' j = word_of_nat j \<and>
      reaches std_hash ?s (fm_key m' j) (fm_pos m' j)" if j: "j \<in> insert idx L" for j
  proof (cases "j = idx")
    case True
    then show ?thesis using at(1) key mono by simp
  next
    case False
    then have "j \<in> L" using j by simp
    then have "fm_pos m j \<noteq> at" using D(5) [of j] at(2) index_mark [OF L [OF \<open>j \<in> L\<close>]] by auto
    then show ?thesis using D(5) [OF \<open>j \<in> L\<close>] same [OF \<open>j \<in> L\<close>] mono by simp
  qed
  ultimately show ?thesis using D(1-3) by (simp add: table_ok_def)
qed

lemma table_erase:
  assumes t: "table_ok std_hash m L slots" and idx: "idx \<in> L" and L: "\<And>j. j \<in> L \<Longrightarrow> j < 2 ^ 31"
    and same: "\<And>j. j \<in> L \<Longrightarrow> j \<noteq> idx \<Longrightarrow> fm_key m' j = fm_key m j \<and> fm_pos m' j = fm_pos m j"
  shows "table_ok std_hash m' (L - {idx}) (slots[fm_pos m idx := kTomb])"
proof -
  note D = table_okD [OF t]
  let ?s = "slots[fm_pos m idx := kTomb]"
  have mono: "reaches std_hash ?s k i" if "reaches std_hash slots k i" for k i
    using that D(5) [OF idx] by (elim reaches_mono) (auto simp: nth_list_update)
  have "?s ! i = kEmpty \<or> ?s ! i = kTomb \<or> unat (?s ! i) \<in> L - {idx} \<and> fm_pos m' (unat (?s ! i)) = i"
    if "i < length slots" for i
    using that D(4) [of i] same [of "unat (slots ! i)"]
    by (cases "i = fm_pos m idx"; cases "unat (slots ! i) = idx") auto
  moreover have "fm_pos m' j < length slots \<and> ?s ! fm_pos m' j = word_of_nat j \<and>
      reaches std_hash ?s (fm_key m' j) (fm_pos m' j)" if j: "j \<in> L - {idx}" for j
  proof -
    have "j \<in> L" "j \<noteq> idx" using j by auto
    then have "fm_pos m j \<noteq> fm_pos m idx"
      using D(5) [of j] D(5) [OF idx] unat_index [OF L [OF \<open>j \<in> L\<close>]] unat_index [OF L [OF idx]] by metis
    then show ?thesis using D(5) [OF \<open>j \<in> L\<close>] same [OF \<open>j \<in> L\<close> \<open>j \<noteq> idx\<close>] mono by simp
  qed
  ultimately show ?thesis using D(1-3) by (simp add: table_ok_def)
qed

text \<open>Every slot is empty, a tombstone or the place of one entry.\<close>

lemma filter_thirds:
  "length (filter (\<lambda>s. s \<noteq> kEmpty \<and> s \<noteq> kTomb) slots) + length (filter (\<lambda>s. s = kTomb) slots) +
     length (filter (\<lambda>s. s = kEmpty) slots) = length slots"
  by (induction slots) auto

lemma table_count:
  assumes t: "table_ok std_hash m L slots" and L: "\<And>j. j \<in> L \<Longrightarrow> j < 2 ^ 31"
  shows "card L + tombs slots + length (filter (\<lambda>s. s = kEmpty) slots) = length slots"
proof -
  note D = table_okD [OF t]
  let ?used = "{i. i < length slots \<and> slots ! i \<noteq> kEmpty \<and> slots ! i \<noteq> kTomb}"
  have "bij_betw (fm_pos m) L ?used"
  proof (rule bij_betw_byWitness [where f' = "\<lambda>i. unat (slots ! i)"])
    show "\<forall>j \<in> L. unat (slots ! fm_pos m j) = j" using D(5) L by auto
    show "\<forall>i \<in> ?used. fm_pos m (unat (slots ! i)) = i" using D(4) by auto
    show "fm_pos m ` L \<subseteq> ?used" using D(5) L index_mark by auto
    show "(\<lambda>i. unat (slots ! i)) ` ?used \<subseteq> L" using D(4) by auto
  qed
  then have "card L = card ?used" by (rule bij_betw_same_card)
  also have "\<dots> = length (filter (\<lambda>s. s \<noteq> kEmpty \<and> s \<noteq> kTomb) slots)"
    by (simp add: length_filter_conv_card conj_commute conj_left_commute)
  finally show ?thesis
    using filter_thirds [of slots] by (simp add: tombs_def)
qed

lemma empty_slot_exists:
  assumes "table_ok std_hash m L slots" and "\<And>j. j \<in> L \<Longrightarrow> j < 2 ^ 31" and "card L + tombs slots < length slots"
  shows "kEmpty \<in> set slots"
proof -
  have "0 < length (filter (\<lambda>s. s = kEmpty) slots)" using table_count [OF assms(1,2)] assms(3) by linarith
  then show ?thesis by (auto simp: filter_empty_conv)
qed

lemma tombs_update:
  assumes "i < length slots"
  shows "tombs (slots[i := s]) + (if slots ! i = kTomb then 1 else 0) = tombs slots + (if s = kTomb then 1 else 0)"
  using assms
proof (induction slots arbitrary: i)
  case (Cons a slots)
  show ?case
  proof (cases i)
    case (Suc n)
    then show ?thesis using Cons.IH [of n] Cons.prems by (simp add: tombs_def split: if_splits)
  qed (simp add: tombs_def)
qed simp

text \<open>The first empty slot on the probe path of a home slot.\<close>

lemma first_empty:
  assumes "kEmpty \<in> set slots"
  obtains d where "d < length slots" "slots ! ((h + d) mod length slots) = kEmpty"
    "\<And>j. j < d \<Longrightarrow> slots ! ((h + j) mod length slots) \<noteq> kEmpty"
proof -
  obtain i where i: "i < length slots" "slots ! i = kEmpty" using assms by (auto simp: in_set_conv_nth)
  let ?P = "\<lambda>d. slots ! ((h + d) mod length slots) = kEmpty"
  let ?d0 = "(i + (length slots - h mod length slots)) mod length slots"
  have "(h + ?d0) mod length slots = (h mod length slots + (i + (length slots - h mod length slots))) mod length slots"
    by (simp add: mod_simps)
  also have "h mod length slots + (i + (length slots - h mod length slots)) = i + length slots"
    using i(1) mod_less_divisor [of "length slots" h] by linarith
  finally have "?P ?d0" using i by simp
  then have "?P (LEAST d. ?P d)" and le: "(LEAST d. ?P d) \<le> ?d0" by (rule LeastI, rule Least_le)
  moreover have "(LEAST d. ?P d) < length slots"
    using i(1) le mod_less_divisor [of "length slots" "i + (length slots - h mod length slots)"] by linarith
  moreover have "\<not> ?P j" if "j < (LEAST d. ?P d)" for j using that by (rule not_less_Least)
  ultimately show ?thesis by (intro that)
qed

subsection \<open>Probing\<close>

lemma rehash_probe_finds:
  assumes pow: "\<exists>n. length slots = 2 ^ n" and d: "slots ! ((h + d) mod length slots) = kEmpty"
    and before: "\<And>j. j < d \<Longrightarrow> slots ! ((h + j) mod length slots) \<noteq> kEmpty" and "j \<le> d"
  shows "rehash_probe slots ((h + j) mod length slots) = Some ((h + d) mod length slots)"
  using \<open>j \<le> d\<close>
proof (induction rule: inc_induct)
  case base
  then show ?case using d by (subst rehash_probe.simps) simp
next
  case (step j)
  then show ?case using before [of j] by (subst rehash_probe.simps) (simp add: next_after [OF pow])
qed

lemma find_hit:
  assumes t: "table_ok std_hash m (fm_live m) (mSlots m)" and inj: "inj_on (fm_key m) (fm_live m)"
    and idx: "idx \<in> fm_live m" "idx < 2 ^ 31"
    and d: "fm_pos m idx = (h + d) mod length (mSlots m)"
    and before: "\<And>j. j < d \<Longrightarrow> mSlots m ! ((h + j) mod length (mSlots m)) \<noteq> kEmpty" and "j \<le> d"
  shows "find_probe m (fm_key m idx) ((h + j) mod length (mSlots m)) = Some (Some idx)"
  using \<open>j \<le> d\<close>
proof (induction rule: inc_induct)
  case base
  have "mSlots m ! ((h + d) mod length (mSlots m)) = word_of_nat idx" using table_okD(5) [OF t idx(1)] d by simp
  moreover have "en_value (mEntryAt m idx) \<noteq> None" using idx(1) by (simp add: fm_live_def)
  ultimately show ?case
    using idx(2) index_mark [OF idx(2)] by (subst find_probe.simps) (simp add: Let_def)
next
  case (step j)
  let ?s = "mSlots m ! ((h + j) mod length (mSlots m))"
  have "unat ?s = idx" if "?s \<noteq> kTomb" "en_value (mEntryAt m (unat ?s)) \<noteq> None" "fm_key m (unat ?s) = fm_key m idx"
  proof -
    have "(h + j) mod length (mSlots m) < length (mSlots m)" using table_okD(2) [OF t] by simp
    then have "unat ?s \<in> fm_live m" using table_okD(4) [OF t] before [OF step.hyps(2)] that(1) by blast
    then show ?thesis using inj idx(1) that(3) by (auto dest: inj_onD)
  qed
  then show ?case
    using step before [of j] by (subst find_probe.simps) (simp add: Let_def next_after [OF table_okD(1) [OF t]])
qed

lemma find_miss:
  assumes t: "table_ok std_hash m (fm_live m) (mSlots m)" and absent: "key \<notin> fm_key m ` fm_live m"
    and d: "mSlots m ! ((h + d) mod length (mSlots m)) = kEmpty"
    and before: "\<And>j. j < d \<Longrightarrow> mSlots m ! ((h + j) mod length (mSlots m)) \<noteq> kEmpty" and "j \<le> d"
  shows "find_probe m key ((h + j) mod length (mSlots m)) = Some None"
  using \<open>j \<le> d\<close>
proof (induction rule: inc_induct)
  case base
  then show ?case using d by (subst find_probe.simps) simp
next
  case (step j)
  let ?s = "mSlots m ! ((h + j) mod length (mSlots m))"
  have "(h + j) mod length (mSlots m) < length (mSlots m)" using table_okD(2) [OF t] by simp
  then have "?s = kTomb \<or> fm_key m (unat ?s) \<noteq> key"
    using table_okD(4) [OF t] before [OF step.hyps(2)] absent by blast
  then show ?case
    using step before [of j] by (subst find_probe.simps) (auto simp add: Let_def next_after [OF table_okD(1) [OF t]])
qed

text \<open>The tombstone \<^verbatim>\<open>emplace\<close> remembers after \<open>j\<close> steps.\<close>

fun first_tomb :: "u32 list \<Rightarrow> nat \<Rightarrow> nat \<Rightarrow> nat" where
  "first_tomb slots h 0 = length slots"
| "first_tomb slots h (Suc j) =
     (if first_tomb slots h j = length slots \<and> slots ! ((h + j) mod length slots) = kTomb
      then (h + j) mod length slots else first_tomb slots h j)"

lemma first_tomb_cases:
  "first_tomb slots h d = length slots \<or>
   (\<exists>k < d. first_tomb slots h d = (h + k) mod length slots \<and> slots ! first_tomb slots h d = kTomb)"
  by (induction d) (auto simp: less_Suc_eq)

lemma emplace_hit:
  assumes t: "table_ok std_hash m (fm_live m) (mSlots m)" and inj: "inj_on (fm_key m) (fm_live m)"
    and idx: "idx \<in> fm_live m" "idx < 2 ^ 31"
    and d: "fm_pos m idx = (h + d) mod length (mSlots m)"
    and before: "\<And>j. j < d \<Longrightarrow> mSlots m ! ((h + j) mod length (mSlots m)) \<noteq> kEmpty" and "j \<le> d"
  shows "emplace_probe m (fm_key m idx) ((h + j) mod length (mSlots m)) ft = Some (Inl idx)"
  using \<open>j \<le> d\<close>
proof (induction arbitrary: ft rule: inc_induct)
  case base
  have "mSlots m ! ((h + d) mod length (mSlots m)) = word_of_nat idx" using table_okD(5) [OF t idx(1)] d by simp
  then show ?case using idx(2) index_mark [OF idx(2)] by (subst emplace_probe.simps) (simp add: Let_def)
next
  case (step j)
  let ?s = "mSlots m ! ((h + j) mod length (mSlots m))"
  have "unat ?s = idx" if "?s \<noteq> kTomb" "fm_key m (unat ?s) = fm_key m idx"
  proof -
    have "(h + j) mod length (mSlots m) < length (mSlots m)" using table_okD(2) [OF t] by simp
    then have "unat ?s \<in> fm_live m" using table_okD(4) [OF t] before [OF step.hyps(2)] that(1) by blast
    then show ?thesis using inj idx(1) that(2) by (auto dest: inj_onD)
  qed
  then show ?case
    using step before [of j] by (subst emplace_probe.simps) (simp add: Let_def next_after [OF table_okD(1) [OF t]])
qed

lemma emplace_miss:
  assumes t: "table_ok std_hash m (fm_live m) (mSlots m)" and absent: "key \<notin> fm_key m ` fm_live m"
    and d: "mSlots m ! ((h + d) mod length (mSlots m)) = kEmpty"
    and before: "\<And>j. j < d \<Longrightarrow> mSlots m ! ((h + j) mod length (mSlots m)) \<noteq> kEmpty" and "j \<le> d"
  shows "emplace_probe m key ((h + j) mod length (mSlots m)) (first_tomb (mSlots m) h j) =
    Some (Inr ((h + d) mod length (mSlots m), first_tomb (mSlots m) h d))"
  using \<open>j \<le> d\<close>
proof (induction rule: inc_induct)
  case base
  then show ?case using d by (subst emplace_probe.simps) simp
next
  case (step j)
  let ?s = "mSlots m ! ((h + j) mod length (mSlots m))"
  have "(h + j) mod length (mSlots m) < length (mSlots m)" using table_okD(2) [OF t] by simp
  then have "?s = kTomb \<or> fm_key m (unat ?s) \<noteq> key"
    using table_okD(4) [OF t] before [OF step.hyps(2)] absent by blast
  then show ?case
    using step before [of j]
    by (subst emplace_probe.simps) (auto simp add: Let_def next_after [OF table_okD(1) [OF t]])
qed

subsection \<open>Rehashing\<close>

text \<open>Entries keep key and value at their index; only the position may change.\<close>

definition same_entries :: "('k, 'v) FlatMap \<Rightarrow> ('k, 'v) FlatMap \<Rightarrow> bool" where
  "same_entries m m' \<longleftrightarrow>
     (\<forall>j. fm_key m' j = fm_key m j \<and> en_value (mEntryAt m' j) = en_value (mEntryAt m j)) \<and>
     mEntryCount m' = mEntryCount m \<and> mFree m' = mFree m \<and> mSize m' = mSize m \<and>
     length (mSlabs m') = length (mSlabs m)"

lemma same_entries_refl: "same_entries m m"
  by (simp add: same_entries_def)

lemma same_entries_trans: "same_entries a b \<Longrightarrow> same_entries b c \<Longrightarrow> same_entries a c"
  by (simp add: same_entries_def)

lemma same_entries_live: "same_entries m m' \<Longrightarrow> fm_live m' = fm_live m"
  by (simp add: same_entries_def fm_live_def)

lemma rehash_from_ok:
  assumes "table_ok std_hash m L slots" and "fm_slabs_ok m" and "distinct idxs" and "set idxs \<inter> L = {}"
    and "set idxs \<subseteq> {..<mEntryCount m}" and "L \<subseteq> {..<mEntryCount m}"
    and "card (L \<union> {i \<in> set idxs. en_value (mEntryAt m i) \<noteq> None}) < length slots" and "kTomb \<notin> set slots"
  shows "\<exists>slots' m'. rehash_from std_hash idxs m slots = Some (slots', m') \<and>
    table_ok std_hash m' (L \<union> {i \<in> set idxs. en_value (mEntryAt m i) \<noteq> None}) slots' \<and>
    length slots' = length slots \<and> kTomb \<notin> set slots' \<and> same_entries m m' \<and> fm_slabs_ok m'"
  using assms
proof (induction idxs arbitrary: m L slots)
  case Nil
  then show ?case by (simp add: same_entries_refl)
next
  case (Cons idx idxs)
  have small: "j < 2 ^ 31" if "j < mEntryCount m" for j
    using that Cons.prems(2) by (simp add: fm_slabs_ok_def)
  show ?case
  proof (cases "en_value (mEntryAt m idx) = None")
    case True
    then have "{i \<in> set (idx # idxs). en_value (mEntryAt m i) \<noteq> None} = {i \<in> set idxs. en_value (mEntryAt m i) \<noteq> None}"
      by auto
    then show ?thesis using True Cons by simp
  next
    case False
    let ?h = "home_slot std_hash (length slots) (fm_key m idx)"
    have idx: "idx < mEntryCount m" "idx \<notin> L" using Cons.prems by auto
    have "finite L" using Cons.prems(6) by (rule finite_subset) simp
    have "card L \<le> card (L \<union> {i \<in> set (idx # idxs). en_value (mEntryAt m i) \<noteq> None})"
      using \<open>finite L\<close> by (intro card_mono) auto
    moreover have "tombs slots = 0" using Cons.prems(8) by (auto simp: tombs_def filter_empty_conv)
    ultimately have "card L + tombs slots < length slots" using Cons.prems(7) by linarith
    then have "kEmpty \<in> set slots"
      using empty_slot_exists [OF Cons.prems(1)] Cons.prems(6) small by blast
    then obtain d where d: "d < length slots" "slots ! ((?h + d) mod length slots) = kEmpty"
        "\<And>j. j < d \<Longrightarrow> slots ! ((?h + j) mod length slots) \<noteq> kEmpty"
      using first_empty by blast
    let ?i = "(?h + d) mod length slots"
    have h: "?h mod length slots = ?h" by (rule mod_less [OF slot_mod(3) [OF table_okD(1) [OF Cons.prems(1)]]])
    have probe: "rehash_probe slots ?h = Some ?i"
      using rehash_probe_finds [OF table_okD(1) [OF Cons.prems(1)] d(2,3), of 0] h by simp
    define m1 where "m1 = m\<lparr>mSlabs := set_slab_entry idx (\<lambda>e. e\<lparr>en_slot := word_of_nat ?i\<rparr>) (mSlabs m)\<rparr>"
    have "idx < length (mSlabs m) * kSlabEntries" using idx(1) Cons.prems(2) by (simp add: fm_slabs_ok_def)
    then have ent: "mEntryAt m1 j = (if j = idx then (mEntryAt m idx)\<lparr>en_slot := word_of_nat ?i\<rparr> else mEntryAt m j)" for j
      using entry_set [OF Cons.prems(2)] by (simp add: m1_def)
    have i: "?i < length slots" using table_okD(2) [OF Cons.prems(1)] by (intro mod_less_divisor)
    then have i32: "?i < 2 ^ 32" using table_okD(3) [OF Cons.prems(1)] by (rule order.strict_trans2)
    have t1: "table_ok std_hash m1 (insert idx L) (slots[?i := word_of_nat idx])"
    proof (rule table_insert [OF Cons.prems(1) i])
      show "slots ! ?i = kEmpty \<or> slots ! ?i = kTomb" using d(2) by simp
      show "reaches std_hash slots (fm_key m1 idx) ?i" using d by (auto simp: ent reaches_def)
      show "fm_pos m1 idx = ?i" using i32 by (simp add: ent)
      show "fm_key m1 j = fm_key m j \<and> fm_pos m1 j = fm_pos m j" if "j \<in> L" for j using that idx(2) by (auto simp: ent)
    qed (use idx small Cons.prems(6) in auto)
    have same: "same_entries m m1" by (auto simp: same_entries_def ent) (simp_all add: m1_def)
    have ok1: "fm_slabs_ok m1" using slabs_set [OF Cons.prems(2), of m1] by (simp add: m1_def)
    have eq: "insert idx L \<union> {i \<in> set idxs. en_value (mEntryAt m1 i) \<noteq> None} =
        L \<union> {i \<in> set (idx # idxs). en_value (mEntryAt m i) \<noteq> None}"
      using False by (auto simp: ent)
    have "\<exists>slots' m'. rehash_from std_hash idxs m1 (slots[?i := word_of_nat idx]) = Some (slots', m') \<and>
        table_ok std_hash m' (insert idx L \<union> {i \<in> set idxs. en_value (mEntryAt m1 i) \<noteq> None}) slots' \<and>
        length slots' = length (slots[?i := word_of_nat idx]) \<and> kTomb \<notin> set slots' \<and> same_entries m1 m' \<and> fm_slabs_ok m'"
    proof (rule Cons.IH [OF t1 ok1])
      show "card (insert idx L \<union> {i \<in> set idxs. en_value (mEntryAt m1 i) \<noteq> None}) < length (slots[?i := word_of_nat idx])"
        unfolding eq using Cons.prems(7) by simp
      show "kTomb \<notin> set (slots[?i := word_of_nat idx])"
        using Cons.prems(8) index_mark [OF small [OF idx(1)]] set_update_subset_insert [of slots ?i "word_of_nat idx"] by auto
    qed (use Cons.prems idx in \<open>auto simp: m1_def\<close>)
    then obtain slots' m' where r: "rehash_from std_hash idxs m1 (slots[?i := word_of_nat idx]) = Some (slots', m')"
        "table_ok std_hash m' (L \<union> {i \<in> set (idx # idxs). en_value (mEntryAt m i) \<noteq> None}) slots'"
        "length slots' = length slots" "kTomb \<notin> set slots'" "same_entries m1 m'" "fm_slabs_ok m'"
      unfolding eq by auto
    have "rehash_from std_hash (idx # idxs) m slots = Some (slots', m')" using False probe r(1) by (auto simp: m1_def)
    then show ?thesis using r same_entries_trans [OF same r(5)] by blast
  qed
qed

lemma rehash_ok:
  assumes ok: "fm_slabs_ok m" and cap: "newCap = 2 ^ n" "newCap \<le> 2 ^ 32" "card (fm_live m) < newCap"
  obtains m' where "rehash std_hash newCap m = Some m'" "table_ok std_hash m' (fm_live m) (mSlots m')"
    "length (mSlots m') = newCap" "mTomb m' = 0" "tombs (mSlots m') = 0" "same_entries m m'" "fm_slabs_ok m'"
proof -
  have live: "{i \<in> set [0..<mEntryCount m]. en_value (mEntryAt m i) \<noteq> None} = fm_live m"
    by (auto simp: fm_live_def)
  have "table_ok std_hash m {} (replicate newCap kEmpty)" using cap(1,2) by (auto simp: table_ok_def)
  then obtain slots' m1 where *: "rehash_from std_hash [0..<mEntryCount m] m (replicate newCap kEmpty) = Some (slots', m1)"
      "table_ok std_hash m1 (fm_live m) slots'" "length slots' = newCap" "kTomb \<notin> set slots'" "same_entries m m1" "fm_slabs_ok m1"
    using rehash_from_ok [of std_hash m "{}" "replicate newCap kEmpty" "[0..<mEntryCount m]"] ok cap(3) live
    by (auto simp: atLeast0LessThan)
  let ?m' = "m1\<lparr>mSlots := slots', mTomb := 0\<rparr>"
  have e: "mEntryAt ?m' = mEntryAt m1" by (rule entry_cong) simp
  show ?thesis
  proof (rule that)
    show "rehash std_hash newCap m = Some ?m'" by (simp add: rehash_def *(1))
    show "table_ok std_hash ?m' (fm_live m) (mSlots ?m')" using *(2) by (simp add: table_ok_def e)
    show "tombs (mSlots ?m') = 0" using *(4) by (auto simp: tombs_def filter_empty_conv)
    show "same_entries m ?m'" using *(5) by (simp add: same_entries_def e)
    show "fm_slabs_ok ?m'" using *(6) by (simp add: fm_slabs_ok_def)
  qed (simp_all add: *(3))
qed

subsection \<open>The map it represents\<close>

lemma fm_map_Some:
  assumes "inj_on (fm_key m) (fm_live m)"
  shows "fm_map m k = Some v \<longleftrightarrow> (\<exists>idx \<in> fm_live m. fm_key m idx = k \<and> en_value (mEntryAt m idx) = Some v)"
proof -
  let ?live = "filter (\<lambda>idx. en_value (mEntryAt m idx) \<noteq> None) [0..<mEntryCount m]"
  have set: "set ?live = fm_live m" by (auto simp: fm_live_def)
  have "distinct (map (fm_key m) ?live)" using assms unfolding distinct_map set by simp
  then have "distinct (map fst (map (\<lambda>idx. (fm_key m idx, the (en_value (mEntryAt m idx)))) ?live))"
    by (simp add: comp_def)
  then have "fm_map m k = Some v \<longleftrightarrow> (k, v) \<in> (\<lambda>idx. (fm_key m idx, the (en_value (mEntryAt m idx)))) ` fm_live m"
    unfolding fm_map_def by (subst map_of_eq_Some_iff) (simp_all add: set [symmetric])
  then show ?thesis by (auto simp: fm_live_def)
qed

lemma fm_map_dom:
  assumes "inj_on (fm_key m) (fm_live m)"
  shows "dom (fm_map m) = fm_key m ` fm_live m"
proof -
  have "k \<in> dom (fm_map m) \<longleftrightarrow> k \<in> fm_key m ` fm_live m" for k
    using fm_map_Some [OF assms, of k] by (fastforce simp: fm_live_def)
  then show ?thesis by blast
qed

lemma fm_map_at:
  assumes "inj_on (fm_key m) (fm_live m)" and "idx \<in> fm_live m"
  shows "fm_map m (fm_key m idx) = en_value (mEntryAt m idx)"
  using fm_map_Some [OF assms(1)] assms(2) by (force simp: fm_live_def)

lemma fm_map_eqI:
  assumes "inj_on (fm_key m) (fm_live m)" and "inj_on (fm_key m') (fm_live m')"
    and "\<And>k v. (\<exists>idx \<in> fm_live m'. fm_key m' idx = k \<and> en_value (mEntryAt m' idx) = Some v) \<longleftrightarrow> f k = Some v"
  shows "fm_map m' = f"
proof
  fix k
  have "fm_map m' k = Some v \<longleftrightarrow> f k = Some v" for v using fm_map_Some [OF assms(2)] assms(3) by simp
  then show "fm_map m' k = f k" by (metis not_Some_eq)
qed

lemma fm_map_same:
  assumes "same_entries m m'"
  shows "fm_map m' = fm_map m" and "inj_on (fm_key m') (fm_live m') = inj_on (fm_key m) (fm_live m)"
  using assms same_entries_live [OF assms] by (simp_all add: fm_map_def same_entries_def inj_on_def)

lemma fm_invD:
  assumes "fm_inv std_hash m"
  shows "fm_slabs_ok m" "inj_on (fm_key m) (fm_live m)" "distinct (mFree m)"
    "set (mFree m) = {..<mEntryCount m} - fm_live m" "mSize m = card (fm_live m)" "mTomb m = tombs (mSlots m)"
    and "mSlots m \<noteq> [] \<Longrightarrow> table_ok std_hash m (fm_live m) (mSlots m)" "mSlots m \<noteq> [] \<Longrightarrow> 8 \<le> length (mSlots m)"
    and "mSlots m \<noteq> [] \<Longrightarrow> mSize m * 10 \<le> length (mSlots m) * 7" "mSlots m = [] \<Longrightarrow> fm_live m = {}"
    and "\<And>j. j \<in> fm_live m \<Longrightarrow> j < 2 ^ 31"
  using assms fm_live_bound by (auto simp: fm_inv_def split: if_splits)

lemma fm_invI:
  assumes "fm_slabs_ok m" "inj_on (fm_key m) (fm_live m)" "distinct (mFree m)"
    "set (mFree m) = {..<mEntryCount m} - fm_live m" "mSize m = card (fm_live m)" "mTomb m = tombs (mSlots m)"
    "table_ok std_hash m (fm_live m) (mSlots m)" "8 \<le> length (mSlots m)" "mSize m * 10 \<le> length (mSlots m) * 7"
  shows "fm_inv std_hash m"
proof -
  have "mSlots m \<noteq> []" using assms(8) by auto
  then show ?thesis unfolding fm_inv_def using assms by presburger
qed

lemma flat_map0_inv: "fm_inv std_hash flat_map0" "fm_map flat_map0 = Map.empty"
  by (simp_all add: fm_inv_def flat_map0_def fm_slabs_ok_def fm_live_def tombs_def fm_map_def)

text \<open>
  A search ends exactly when the key is present or the slot table still has an empty slot.
\<close>

lemma find_present:
  assumes inv: "fm_inv std_hash m" and idx: "idx \<in> fm_live m"
  shows "fm_find std_hash (fm_key m idx) m = Some (Some idx)"
proof -
  note I = fm_invD [OF inv]
  have ne: "mSlots m \<noteq> []" using I(10) idx by blast
  note D = table_okD [OF I(7) [OF ne]]
  let ?h = "home_slot std_hash (length (mSlots m)) (fm_key m idx)"
  obtain d where d: "fm_pos m idx = (?h + d) mod length (mSlots m)"
      "\<And>j. j < d \<Longrightarrow> mSlots m ! ((?h + j) mod length (mSlots m)) \<noteq> kEmpty"
    using D(5) [OF idx] by (auto simp: reaches_def)
  have "?h mod length (mSlots m) = ?h" by (rule mod_less [OF slot_mod(3) [OF D(1)]])
  then show ?thesis
    using find_hit [OF I(7) [OF ne] I(2) idx I(11) [OF idx] d, of 0] ne by (simp add: fm_find_def)
qed

lemma find_absent:
  assumes inv: "fm_inv std_hash m" and absent: "key \<notin> dom (fm_map m)" and room: "has_room m"
  shows "fm_find std_hash key m = Some None"
proof (cases "mSlots m = []")
  case False
  note I = fm_invD [OF inv]
  note D = table_okD [OF I(7) [OF False]]
  let ?h = "home_slot std_hash (length (mSlots m)) key"
  obtain d where d: "mSlots m ! ((?h + d) mod length (mSlots m)) = kEmpty"
      "\<And>j. j < d \<Longrightarrow> mSlots m ! ((?h + j) mod length (mSlots m)) \<noteq> kEmpty"
    using first_empty [of "mSlots m" ?h] room False by (auto simp: has_room_def)
  have "?h mod length (mSlots m) = ?h" by (rule mod_less [OF slot_mod(3) [OF D(1)]])
  moreover have "key \<notin> fm_key m ` fm_live m" using absent fm_map_dom [OF I(2)] by simp
  ultimately show ?thesis
    using find_miss [OF I(7) [OF False] _ d, of key 0] False by (simp add: fm_find_def)
qed (simp add: fm_find_def)

lemma find_diverges:
  assumes inv: "fm_inv std_hash m" and absent: "key \<notin> dom (fm_map m)" and full: "\<not> has_room m"
  shows "fm_find std_hash key m = None"
proof -
  note I = fm_invD [OF inv]
  have ne: "mSlots m \<noteq> []" and no_empty: "kEmpty \<notin> set (mSlots m)" using full by (auto simp: has_room_def)
  note D = table_okD [OF I(7) [OF ne]]
  have none: "i < length (mSlots m) \<Longrightarrow> find_probe m key i \<noteq> Some r" for i r
  proof
    assume i: "i < length (mSlots m)" and ret: "find_probe m key i = Some r"
    have "\<not> (m' = m \<and> key' = key \<and> i' < length (mSlots m))"
      if "find_probe m' key' i' = Some r'" for m' key' i' r'
    proof (rule find_probe.raw_induct [where P = "\<lambda>m' key' i' r'. \<not> (m' = m \<and> key' = key \<and> i' < length (mSlots m))", OF _ that])
      fix f :: "('a, 'b) FlatMap \<Rightarrow> 'a \<Rightarrow> nat \<Rightarrow> nat option option" and m' key' i' r'
      assume IH: "\<And>m' key' i' r'. f m' key' i' = Some r' \<Longrightarrow> \<not> (m' = m \<and> key' = key \<and> i' < length (mSlots m))"
        and eq: "(let s = mSlots m' ! i'
          in if s = kEmpty then Some None
          else if s \<noteq> kTomb \<and> en_value (mEntryAt m' (unat s)) \<noteq> None \<and> en_key (mEntryAt m' (unat s)) = key'
          then Some (Some (unat s))
          else f m' key' (next_slot (length (mSlots m')) i')) = Some r'"
      show "\<not> (m' = m \<and> key' = key \<and> i' < length (mSlots m))"
      proof
        assume a: "m' = m \<and> key' = key \<and> i' < length (mSlots m)"
        then have "mSlots m ! i' \<noteq> kEmpty" using no_empty by (metis nth_mem)
        moreover have "mSlots m ! i' = kTomb \<or> fm_key m (unat (mSlots m ! i')) \<noteq> key"
          using D(4) [of i'] a calculation absent fm_map_dom [OF I(2)] by blast
        ultimately have "f m key (next_slot (length (mSlots m)) i') = Some r'" using eq a by (auto simp: Let_def split: if_splits)
        moreover have "next_slot (length (mSlots m)) i' < length (mSlots m)" using D(1,2) by (simp add: slot_mod)
        ultimately show False using IH by blast
      qed
    qed
    then show False using i ret by blast
  qed
  then show ?thesis using slot_mod(3) [OF D(1)] ne by (metis fm_find_def not_Some_eq)
qed

subsection \<open>Insertion\<close>

lemma free_index:
  assumes inv: "fm_inv std_hash m" and count: "mEntryCount m < 2 ^ 31"
    and acq: "acquireEntry k0 key v m = (idx, m1)"
  shows "idx \<notin> fm_live m" "idx < 2 ^ 31" "idx < mEntryCount m1" "fm_slabs_ok m1" "idx < length (mSlabs m1) * kSlabEntries"
    and "fm_key m1 idx = key" "en_value (mEntryAt m1 idx) = Some v"
    and "\<And>j. j \<noteq> idx \<Longrightarrow> j < mEntryCount m \<Longrightarrow> mEntryAt m1 j = mEntryAt m j"
    and "{..<mEntryCount m1} = insert idx {..<mEntryCount m}"
    and "distinct (mFree m1)" "set (mFree m1) = set (mFree m) - {idx}"
    and "mSlots m1 = mSlots m" "mSize m1 = mSize m" "mTomb m1 = mTomb m"
proof -
  note I = fm_invD [OF inv]
  define base where "base = (if mFree m \<noteq> [] then (last (mFree m), m\<lparr>mFree := butlast (mFree m)\<rparr>)
         else let idx = mEntryCount m; m1 = m\<lparr>mEntryCount := mEntryCount m + 1\<rparr>
              in (idx, if length (mSlabs m1) * kSlabEntries \<le> idx then allocateSlab k0 m1 else m1))"
  let ?i = "fst base" and ?b = "snd base"
  have eq: "idx = ?i" "m1 = ?b\<lparr>mSlabs := set_slab_entry ?i (\<lambda>e. e\<lparr>en_key := key, en_value := Some v\<rparr>) (mSlabs ?b)\<rparr>"
    using acq by (auto simp: acquireEntry_def base_def [symmetric] split_beta)
  have b: "?i \<notin> fm_live m \<and> ?i < 2 ^ 31 \<and> ?i < mEntryCount ?b \<and> fm_slabs_ok ?b \<and>
      {..<mEntryCount ?b} = insert ?i {..<mEntryCount m} \<and> distinct (mFree ?b) \<and> set (mFree ?b) = set (mFree m) - {?i} \<and>
      mSlots ?b = mSlots m \<and> mSize ?b = mSize m \<and> mTomb ?b = mTomb m"
  proof (cases "mFree m = []")
    case True
    then show ?thesis using I(1) count
      by (auto simp: base_def Let_def fm_live_def fm_slabs_ok_def allocateSlab_def kSlabEntries_def)
  next
    case False
    then have "last (mFree m) \<in> set (mFree m)" by simp
    then have l: "last (mFree m) < mEntryCount m" "last (mFree m) \<notin> fm_live m" using I(4) by auto
    have "set (butlast (mFree m)) = set (mFree m) - {last (mFree m)}" "distinct (butlast (mFree m))"
      using False I(3) set_append [of "butlast (mFree m)" "[last (mFree m)]"] distinct_append [of "butlast (mFree m)" "[last (mFree m)]"]
      by (auto simp del: set_append distinct_append)
    then show ?thesis using False l I(1) by (auto simp: base_def fm_slabs_ok_def)
  qed
  have old: "mEntryAt ?b j = mEntryAt m j" if "j < mEntryCount m" for j
  proof -
    have "j div kSlabEntries < length (mSlabs m)" using that I(1) by (intro slab_pos) (simp add: fm_slabs_ok_def)
    then show ?thesis by (auto simp: base_def Let_def entry_at allocateSlab_def nth_append)
  qed
  have len: "?i < length (mSlabs ?b) * kSlabEntries" using b by (simp add: fm_slabs_ok_def)
  have ent: "mEntryAt m1 j = (if j = ?i then (mEntryAt ?b ?i)\<lparr>en_key := key, en_value := Some v\<rparr> else mEntryAt ?b j)" for j
    using entry_set [of ?b ?i m1] b len by (simp add: eq)
  show "fm_slabs_ok m1" using slabs_set [of ?b m1] b by (simp add: eq)
  show "idx \<notin> fm_live m" "idx < 2 ^ 31" "idx < mEntryCount m1" "idx < length (mSlabs m1) * kSlabEntries"
    "{..<mEntryCount m1} = insert idx {..<mEntryCount m}"
    "distinct (mFree m1)" "set (mFree m1) = set (mFree m) - {idx}"
    "mSlots m1 = mSlots m" "mSize m1 = mSize m" "mTomb m1 = mTomb m"
    using b len by (simp_all add: eq)
  show "fm_key m1 idx = key" "en_value (mEntryAt m1 idx) = Some v" by (simp_all add: ent eq(1))
  show "mEntryAt m1 j = mEntryAt m j" if "j \<noteq> idx" "j < mEntryCount m" for j
    using that old by (simp add: ent eq(1))
qed

text \<open>What insertion and rehashing leave of the old entries.\<close>

definition entries_kept :: "('k, 'v) FlatMap \<Rightarrow> ('k, 'v) FlatMap \<Rightarrow> nat set \<Rightarrow> bool" where
  "entries_kept m m' X \<longleftrightarrow>
     (\<forall>j \<in> fm_live m - X. j \<in> fm_live m' \<and> fm_key m' j = fm_key m j \<and> en_value (mEntryAt m' j) = en_value (mEntryAt m j))"

lemma same_entries_kept: "same_entries m m' \<Longrightarrow> entries_kept m m' X"
  by (simp add: entries_kept_def same_entries_live) (simp add: same_entries_def)

lemma entries_kept_trans: "entries_kept a b X \<Longrightarrow> entries_kept b c {} \<Longrightarrow> entries_kept a c X"
  by (auto simp: entries_kept_def)

lemma power_of_two_double:
  assumes "(c::nat) = 2 ^ n" and "c * 7 < s * 10" and "s \<le> 2 ^ 31"
  shows "c * 2 \<le> 2 ^ 32"
proof -
  have "(2::nat) ^ n < 2 ^ 32" using assms by simp
  then have "n < 32" by (simp only: power_strict_increasing_iff)
  then have "(2::nat) ^ n \<le> 2 ^ 31" by (intro power_increasing) auto
  then show ?thesis using assms(1) by simp
qed

text \<open>A rehash of a map whose other parts are in order restores the whole invariant.\<close>

lemma rehash_inv:
  assumes ok: "fm_slabs_ok m" "inj_on (fm_key m) (fm_live m)" "distinct (mFree m)"
      "set (mFree m) = {..<mEntryCount m} - fm_live m" "mSize m = card (fm_live m)"
    and cap: "newCap = 2 ^ n" "8 \<le> newCap" "newCap \<le> 2 ^ 32" "card (fm_live m) * 10 \<le> newCap * 7"
  obtains m' where "rehash std_hash newCap m = Some m'" "fm_inv std_hash m'" "same_entries m m'"
    "length (mSlots m') = newCap" "mTomb m' = 0"
proof -
  have "card (fm_live m) < newCap" using cap by linarith
  then obtain m' where r: "rehash std_hash newCap m = Some m'" "table_ok std_hash m' (fm_live m) (mSlots m')"
      "length (mSlots m') = newCap" "mTomb m' = 0" "tombs (mSlots m') = 0" "same_entries m m'" "fm_slabs_ok m'"
    using rehash_ok [OF ok(1) cap(1,3)] by metis
  have "mSlots m' \<noteq> []" using r(3) cap(2) by auto
  then have "fm_inv std_hash m'"
    using r ok cap same_entries_live [OF r(6)] fm_map_same(2) [OF r(6)]
    by (simp add: fm_inv_def) (simp add: same_entries_def)
  then show ?thesis using that r by blast
qed

lemma insert_new:
  assumes inv: "fm_inv std_hash m" and ne: "mSlots m \<noteq> []" and count: "mEntryCount m < 2 ^ 31"
    and absent: "key \<notin> fm_key m ` fm_live m" and room: "kEmpty \<in> set (mSlots m)"
    and h: "h = home_slot std_hash (length (mSlots m)) key"
    and d: "d < length (mSlots m)" "mSlots m ! ((h + d) mod length (mSlots m)) = kEmpty"
      "\<And>j. j < d \<Longrightarrow> mSlots m ! ((h + j) mod length (mSlots m)) \<noteq> kEmpty"
    and ft: "ft = first_tomb (mSlots m) h d"
    and at: "at = (if ft \<noteq> length (mSlots m) then ft else (h + d) mod length (mSlots m))"
    and acq: "acquireEntry k0 key v m = (idx, m1)"
    and m2: "m2 = m1\<lparr>mSlots := (mSlots m1)[at := word_of_nat idx],
                     mSlabs := set_slab_entry idx (\<lambda>e. e\<lparr>en_slot := word_of_nat at\<rparr>) (mSlabs m1),
                     mTomb := (if at = ft then mTomb m1 - 1 else mTomb m1),
                     mSize := mSize m1 + 1\<rparr>"
  shows "fm_slabs_ok m2" "inj_on (fm_key m2) (fm_live m2)" "distinct (mFree m2)"
      "set (mFree m2) = {..<mEntryCount m2} - fm_live m2" "mSize m2 = card (fm_live m2)"
    and "mTomb m2 = tombs (mSlots m2)" "table_ok std_hash m2 (fm_live m2) (mSlots m2)"
    and "fm_live m2 = insert idx (fm_live m)" "idx \<notin> fm_live m" "fm_key m2 idx = key" "en_value (mEntryAt m2 idx) = Some v"
    and "entries_kept m m2 {}" "length (mSlots m2) = length (mSlots m)"
proof -
  note I = fm_invD [OF inv] and F = free_index [OF inv count acq]
  note T = I(7) [OF ne] and D = table_okD [OF I(7) [OF ne]]
  let ?cap = "length (mSlots m)"
  have place: "at < ?cap \<and> (mSlots m ! at = kEmpty \<and> at \<noteq> ft \<or> mSlots m ! at = kTomb \<and> at = ft) \<and> reaches std_hash (mSlots m) key at"
  proof (cases "ft = ?cap")
    case True
    moreover have "(h + d) mod ?cap < ?cap" using D(2) by (rule mod_less_divisor)
    ultimately show ?thesis using d by (auto simp: at h reaches_def)
  next
    case False
    then obtain k where "k < d" "ft = (h + k) mod ?cap" "mSlots m ! ft = kTomb"
      using first_tomb_cases [of "mSlots m" h d] by (auto simp: ft)
    moreover from this have "reaches std_hash (mSlots m) key ft"
      unfolding reaches_def h [symmetric] using d(1,3) by (intro exI [of _ k]) auto
    ultimately show ?thesis using False D(2) by (auto simp: at)
  qed
  then have at32: "at < 2 ^ 32" using D(3) by linarith
  have ent: "mEntryAt m2 j = (if j = idx then (mEntryAt m1 idx)\<lparr>en_slot := word_of_nat at\<rparr> else mEntryAt m1 j)" for j
    using entry_set [OF F(4,5)] by (simp add: m2)
  have kept: "mEntryAt m2 j = mEntryAt m j" if "j \<in> fm_live m" for j
    using that F(1,8) by (auto simp: ent fm_live_def)
  have cnt: "mEntryCount m2 = mEntryCount m1" by (simp add: m2)
  show live: "fm_live m2 = insert idx (fm_live m)"
  proof -
    have "j \<in> fm_live m2 \<longleftrightarrow> j \<in> insert idx (fm_live m)" for j
    proof (cases "j = idx")
      case True
      then show ?thesis using F(3,7) cnt by (simp add: fm_live_def ent)
    next
      case False
      have "j < mEntryCount m2 \<longleftrightarrow> j < mEntryCount m" using F(9) False by (auto simp: m2)
      then show ?thesis using False F(8) by (auto simp: fm_live_def ent)
    qed
    then show ?thesis by blast
  qed
  show key: "fm_key m2 idx = key" "en_value (mEntryAt m2 idx) = Some v" using F(6,7) by (simp_all add: ent)
  show "idx \<notin> fm_live m" by (rule F(1))
  show "fm_slabs_ok m2" using slabs_set [OF F(4), of m2] by (simp add: m2)
  have keys: "fm_key m2 j = fm_key m j" if "j \<in> fm_live m" for j using kept [OF that] by simp
  then have "inj_on (fm_key m2) (fm_live m)" using I(2) inj_on_cong [of "fm_live m" "fm_key m2" "fm_key m"] by blast
  moreover have "fm_key m2 ` fm_live m = fm_key m ` fm_live m" using keys by (rule image_cong [OF refl])
  ultimately show "inj_on (fm_key m2) (fm_live m2)" using absent F(1) key(1) by (simp add: live)
  show "distinct (mFree m2)" using F(10) by (simp add: m2)
  have "mFree m2 = mFree m1" by (simp add: m2)
  then show "set (mFree m2) = {..<mEntryCount m2} - fm_live m2" unfolding live cnt F(9) by (simp only: F(11) I(4)) blast
  have "mSize m2 = mSize m1 + 1" by (simp add: m2)
  then show "mSize m2 = card (fm_live m2)" using F(1,13) I(5) by (simp add: live)
  have slots: "mSlots m2 = (mSlots m)[at := word_of_nat idx]" by (simp add: m2 F(12))
  show "table_ok std_hash m2 (fm_live m2) (mSlots m2)"
    unfolding live slots
  proof (rule table_insert [OF T])
    show "at < ?cap" "mSlots m ! at = kEmpty \<or> mSlots m ! at = kTomb" using place by blast+
    show "reaches std_hash (mSlots m) (fm_key m2 idx) at" using place key(1) by simp
    show "fm_pos m2 idx = at" using at32 by (simp add: ent)
  qed (use F(1,2) I(11) kept in auto)
  have "mTomb m2 = (if at = ft then mTomb m1 - 1 else mTomb m1)" by (simp add: m2)
  then show "mTomb m2 = tombs (mSlots m2)"
    using place F(14) I(6) index_mark [OF F(2)] tombs_update [of at "mSlots m" "word_of_nat idx"] unfolding slots
    by (auto split: if_splits)
  show "entries_kept m m2 {}" using kept by (simp add: entries_kept_def live)
  show "length (mSlots m2) = length (mSlots m)" by (simp add: slots)
qed

lemma emplace_present:
  assumes inv: "fm_inv std_hash m" and idx: "idx \<in> fm_live m"
  shows "fm_emplace std_hash k0 (fm_key m idx) v m = Some ((idx, False), m)"
proof -
  note I = fm_invD [OF inv]
  have ne: "mSlots m \<noteq> []" using I(10) idx by blast
  note D = table_okD [OF I(7) [OF ne]]
  let ?h = "home_slot std_hash (length (mSlots m)) (fm_key m idx)"
  obtain d where d: "fm_pos m idx = (?h + d) mod length (mSlots m)"
      "\<And>j. j < d \<Longrightarrow> mSlots m ! ((?h + j) mod length (mSlots m)) \<noteq> kEmpty"
    using D(5) [OF idx] by (auto simp: reaches_def)
  have "?h mod length (mSlots m) = ?h" by (rule mod_less [OF slot_mod(3) [OF D(1)]])
  then show ?thesis
    using emplace_hit [OF I(7) [OF ne] I(2) idx I(11) [OF idx] d, of 0] ne by (simp add: fm_emplace_def Let_def)
qed

lemma emplace_in_table:
  assumes inv: "fm_inv std_hash m" and ne: "mSlots m \<noteq> []" and count: "mEntryCount m < 2 ^ 31"
    and absent: "key \<notin> fm_key m ` fm_live m" and room: "kEmpty \<in> set (mSlots m)"
  obtains idx m' where "fm_emplace std_hash k0 key v m = Some ((idx, True), m')" "fm_inv std_hash m'"
    "fm_live m' = insert idx (fm_live m)" "idx \<notin> fm_live m" "fm_key m' idx = key" "en_value (mEntryAt m' idx) = Some v"
    "entries_kept m m' {}"
proof -
  note I = fm_invD [OF inv] and D = table_okD [OF fm_invD(7) [OF inv ne]]
  let ?cap = "length (mSlots m)"
  define h where "h = home_slot std_hash ?cap key"
  obtain d where d: "d < ?cap" "mSlots m ! ((h + d) mod ?cap) = kEmpty"
      "\<And>j. j < d \<Longrightarrow> mSlots m ! ((h + j) mod ?cap) \<noteq> kEmpty"
    using first_empty [OF room, of h] by metis
  define ft where "ft = first_tomb (mSlots m) h d"
  define at where "at = (if ft \<noteq> ?cap then ft else (h + d) mod ?cap)"
  obtain idx m1 where acq: "acquireEntry k0 key v m = (idx, m1)" by force
  define m2 where "m2 = m1\<lparr>mSlots := (mSlots m1)[at := word_of_nat idx],
                     mSlabs := set_slab_entry idx (\<lambda>e. e\<lparr>en_slot := word_of_nat at\<rparr>) (mSlabs m1),
                     mTomb := (if at = ft then mTomb m1 - 1 else mTomb m1),
                     mSize := mSize m1 + 1\<rparr>"
  note N = insert_new [OF inv ne count absent room h_def d ft_def at_def acq m2_def]
  have "h mod ?cap = h" unfolding h_def by (rule mod_less [OF slot_mod(3) [OF D(1)]])
  then have probe: "emplace_probe m key (home_slot std_hash ?cap key) ?cap = Some (Inr ((h + d) mod ?cap, ft))"
    using emplace_miss [OF I(7) [OF ne] absent d(2,3), of 0] by (simp add: ft_def h_def)
  have eq: "fm_emplace std_hash k0 key v m =
      (if ?cap * 7 < mSize m2 * 10 then map_option (\<lambda>m3. ((idx, True), m3)) (rehash std_hash (?cap * 2) m2)
       else Some ((idx, True), m2))"
    using ne acq N(13) by (simp add: fm_emplace_def Let_def probe m2_def at_def)
  show ?thesis
  proof (cases "?cap * 7 < mSize m2 * 10")
    case False
    then have "fm_inv std_hash m2" using N I(8) [OF ne] by (auto simp: fm_inv_def)
    then show ?thesis using False eq N that [of idx m2] by simp
  next
    case True
    obtain n where n: "?cap = 2 ^ n" using D(1) by blast
    have "mSize m2 \<le> mEntryCount m + 1"
      using N(5,8,9) I(5) card_mono [of "{..<mEntryCount m}" "fm_live m"] by (auto simp: fm_live_def)
    then have cap: "?cap * 2 \<le> 2 ^ 32" using power_of_two_double [OF n True] count by simp
    have "mSize m2 = mSize m + 1" using N(5,8,9) I(5) by simp
    then have "card (fm_live m2) * 10 \<le> ?cap * 2 * 7" using N(5) I(8,9) [OF ne] by simp
    moreover have "?cap * 2 = 2 ^ Suc n" "8 \<le> ?cap * 2" using n I(8) [OF ne] by simp_all
    ultimately obtain m3 where r: "rehash std_hash (?cap * 2) m2 = Some m3" "fm_inv std_hash m3" "same_entries m2 m3"
      using rehash_inv [OF N(1-5) _ _ cap] by metis
    have "fm_live m3 = insert idx (fm_live m)" using same_entries_live [OF r(3)] N(8) by simp
    moreover have "fm_key m3 idx = key" "en_value (mEntryAt m3 idx) = Some v"
      using r(3) N(10,11) by (simp_all add: same_entries_def)
    ultimately show ?thesis
      using True eq r N(9) entries_kept_trans [OF N(12) same_entries_kept [OF r(3)]] that [of idx m3] by simp
  qed
qed

lemma emplace_new:
  assumes inv: "fm_inv std_hash m" and count: "mEntryCount m < 2 ^ 31"
    and absent: "key \<notin> dom (fm_map m)" and room: "has_room m"
  obtains idx m' where "fm_emplace std_hash k0 key v m = Some ((idx, True), m')" "fm_inv std_hash m'"
    "fm_live m' = insert idx (fm_live m)" "idx \<notin> fm_live m" "fm_key m' idx = key" "en_value (mEntryAt m' idx) = Some v"
    "entries_kept m m' {}"
proof (cases "mSlots m = []")
  case False
  then show ?thesis
    using emplace_in_table [OF inv False count, of key k0 v] absent room that fm_map_dom [OF fm_invD(2) [OF inv]]
    by (auto simp: has_room_def)
next
  case True
  note I = fm_invD [OF inv]
  have live: "fm_live m = {}" using I(10) True .
  obtain m0 where r: "rehash std_hash 8 m = Some m0" "fm_inv std_hash m0" "same_entries m m0" "length (mSlots m0) = 8" "mTomb m0 = 0"
    using rehash_inv [OF I(1-5), of 8 3 std_hash] live by auto
  have ne: "mSlots m0 \<noteq> []" using r(4) by auto
  have live0: "fm_live m0 = {}" using same_entries_live [OF r(3)] live by simp
  have "kEmpty \<in> set (mSlots m0)"
    using empty_slot_exists [OF fm_invD(7) [OF r(2) ne]] live0 fm_invD(6) [OF r(2)] r(4,5) by simp
  moreover have "mEntryCount m0 < 2 ^ 31" using count r(3) by (simp add: same_entries_def)
  ultimately obtain idx m' where "fm_emplace std_hash k0 key v m0 = Some ((idx, True), m')" "fm_inv std_hash m'"
    "fm_live m' = insert idx (fm_live m0)" "fm_key m' idx = key" "en_value (mEntryAt m' idx) = Some v"
    using emplace_in_table [OF r(2) ne, of key k0 v] live0 by (metis image_empty empty_iff)
  moreover have "fm_emplace std_hash k0 key v m = fm_emplace std_hash k0 key v m0"
    using True ne r(1) by (simp add: fm_emplace_def)
  ultimately show ?thesis using that [of idx m'] live live0 by (simp add: entries_kept_def)
qed

subsection \<open>Erasure\<close>

lemma erase_live:
  assumes inv: "fm_inv std_hash m" and idx: "idx \<in> fm_live m"
  obtains m' where "fm_erase std_hash k0 idx m = Some (True, m')" "fm_inv std_hash m'"
    "fm_live m' = fm_live m - {idx}" "entries_kept m m' {idx}"
proof -
  note I = fm_invD [OF inv]
  have ne: "mSlots m \<noteq> []" using I(10) idx by blast
  note T = I(7) [OF ne] and D = table_okD [OF I(7) [OF ne]]
  let ?p = "fm_pos m idx" and ?cap = "length (mSlots m)"
  define m1 where "m1 = m\<lparr>mSlots := (mSlots m)[?p := kTomb], mTomb := mTomb m + 1,
                      mSlabs := set_slab_entry idx (\<lambda>e. e\<lparr>en_value := None, en_key := k0\<rparr>) (mSlabs m),
                      mFree := mFree m @ [idx], mSize := mSize m - 1\<rparr>"
  have idx_lt: "idx < mEntryCount m" and val: "en_value (mEntryAt m idx) \<noteq> None" using idx by (auto simp: fm_live_def)
  then have "idx < length (mSlabs m) * kSlabEntries" using I(1) by (simp add: fm_slabs_ok_def)
  then have ent: "mEntryAt m1 j = (if j = idx then (mEntryAt m idx)\<lparr>en_value := None, en_key := k0\<rparr> else mEntryAt m j)" for j
    using entry_set [OF I(1)] by (simp add: m1_def)
  have m1: "mSlots m1 = (mSlots m)[?p := kTomb]" "mTomb m1 = mTomb m + 1" "mFree m1 = mFree m @ [idx]" "mSize m1 = mSize m - 1"
    "mEntryCount m1 = mEntryCount m" by (simp_all add: m1_def)
  have live: "fm_live m1 = fm_live m - {idx}" by (auto simp: fm_live_def ent m1(5))
  have eq: "fm_erase std_hash k0 idx m =
      (if ?cap < mTomb m1 * 2 then map_option (\<lambda>m2. (True, m2)) (rehash std_hash ?cap m1) else Some (True, m1))"
    using idx_lt val by (auto simp: fm_erase_def Let_def m1_def)
  have p: "?p < ?cap" "mSlots m ! ?p \<noteq> kTomb" using D(5) [OF idx] index_mark [OF I(11) [OF idx]] by auto
  have N: "fm_slabs_ok m1" "inj_on (fm_key m1) (fm_live m1)" "distinct (mFree m1)"
      "set (mFree m1) = {..<mEntryCount m1} - fm_live m1" "mSize m1 = card (fm_live m1)"
  proof -
    show "fm_slabs_ok m1" using slabs_set [OF I(1), of m1] by (simp add: m1_def)
    have "inj_on (fm_key m) (fm_live m - {idx})" using I(2) by (rule inj_on_subset) blast
    then show "inj_on (fm_key m1) (fm_live m1)"
      unfolding live using inj_on_cong [of "fm_live m - {idx}" "fm_key m1" "fm_key m"] by (simp add: ent)
    have "idx \<notin> set (mFree m)" using I(4) idx by blast
    then show "distinct (mFree m1)" using I(3) by (simp add: m1(3))
    show "set (mFree m1) = {..<mEntryCount m1} - fm_live m1" using I(4) idx idx_lt unfolding live m1(3,5) by auto
    show "mSize m1 = card (fm_live m1)" using I(5) idx by (simp add: m1(4) live)
  qed
  have tab: "table_ok std_hash m1 (fm_live m1) (mSlots m1)"
    unfolding live m1(1) by (rule table_erase [OF T idx I(11)]) (simp_all add: ent)
  have tomb: "mTomb m1 = tombs (mSlots m1)" using tombs_update [OF p(1), of kTomb] p(2) I(6) by (simp add: m1(1,2))
  have load: "card (fm_live m1) * 10 \<le> ?cap * 7" using I(9) [OF ne] N(5) by (simp add: m1(4))
  have kept: "entries_kept m m1 {idx}" by (auto simp: entries_kept_def live ent)
  show ?thesis
  proof (cases "?cap < mTomb m1 * 2")
    case False
    have "fm_inv std_hash m1" using N tab tomb load ne I(8) [OF ne] by (simp add: fm_inv_def m1(1))
    then show ?thesis using False eq live kept that by simp
  next
    case True
    obtain n where "?cap = 2 ^ n" using D(1) by blast
    then obtain m2 where r: "rehash std_hash ?cap m1 = Some m2" "fm_inv std_hash m2" "same_entries m1 m2"
      using rehash_inv [OF N, of ?cap n std_hash] D(3) I(8) [OF ne] load by metis
    then show ?thesis
      using True eq live same_entries_live [OF r(3)] entries_kept_trans [OF kept same_entries_kept [OF r(3)]] that by simp
  qed
qed

subsection \<open>Effect on the map\<close>

lemma live_cases:
  assumes "inj_on (fm_key m) (fm_live m)"
  shows "key \<in> dom (fm_map m) \<longleftrightarrow> (\<exists>idx \<in> fm_live m. fm_key m idx = key)"
  using fm_map_dom [OF assms] by auto

lemma emplace_map:
  assumes inv: "fm_inv std_hash m" "fm_inv std_hash m'" and live: "fm_live m' = insert idx (fm_live m)" "idx \<notin> fm_live m"
    and new: "fm_key m' idx = key" "en_value (mEntryAt m' idx) = Some v" and kept: "entries_kept m m' {}"
  shows "fm_map m' = (fm_map m)(key \<mapsto> v)"
proof (rule fm_map_eqI [OF fm_invD(2) [OF inv(1)] fm_invD(2) [OF inv(2)]])
  fix k w
  note inj = fm_invD(2) [OF inv(2)]
  have old: "fm_key m' j = fm_key m j \<and> en_value (mEntryAt m' j) = en_value (mEntryAt m j)" if "j \<in> fm_live m" for j
    using kept that by (simp add: entries_kept_def)
  have other: "fm_key m j \<noteq> key" if "j \<in> fm_live m" for j
    using inj_onD [OF inj, of j idx] that old [OF that] live new(1) by auto
  have "(\<exists>j \<in> fm_live m'. fm_key m' j = k \<and> en_value (mEntryAt m' j) = Some w) \<longleftrightarrow>
      k = key \<and> w = v \<or> (\<exists>j \<in> fm_live m. fm_key m j = k \<and> en_value (mEntryAt m j) = Some w)"
    using new old by (auto simp: live)
  also have "\<dots> \<longleftrightarrow> ((fm_map m)(key \<mapsto> v)) k = Some w"
    using fm_map_Some [OF fm_invD(2) [OF inv(1)]] other by auto
  finally show "(\<exists>j \<in> fm_live m'. fm_key m' j = k \<and> en_value (mEntryAt m' j) = Some w) \<longleftrightarrow>
      ((fm_map m)(key \<mapsto> v)) k = Some w" .
qed

lemma erase_map:
  assumes inv: "fm_inv std_hash m" "fm_inv std_hash m'" and live: "fm_live m' = fm_live m - {idx}" "idx \<in> fm_live m"
    and kept: "entries_kept m m' {idx}"
  shows "fm_map m' = (fm_map m)(fm_key m idx := None)"
proof (rule fm_map_eqI [OF fm_invD(2) [OF inv(1)] fm_invD(2) [OF inv(2)]])
  fix k w
  have old: "fm_key m' j = fm_key m j \<and> en_value (mEntryAt m' j) = en_value (mEntryAt m j)" if "j \<in> fm_live m" "j \<noteq> idx" for j
    using kept that by (simp add: entries_kept_def)
  have other: "fm_key m j \<noteq> fm_key m idx" if "j \<in> fm_live m" "j \<noteq> idx" for j
    using inj_onD [OF fm_invD(2) [OF inv(1)], of j idx] that live by auto
  have "(\<exists>j \<in> fm_live m'. fm_key m' j = k \<and> en_value (mEntryAt m' j) = Some w) \<longleftrightarrow>
      k \<noteq> fm_key m idx \<and> (\<exists>j \<in> fm_live m. fm_key m j = k \<and> en_value (mEntryAt m j) = Some w)"
    using old other by (auto simp: live)
  also have "\<dots> \<longleftrightarrow> ((fm_map m)(fm_key m idx := None)) k = Some w"
    using fm_map_Some [OF fm_invD(2) [OF inv(1)]] by auto
  finally show "(\<exists>j \<in> fm_live m'. fm_key m' j = k \<and> en_value (mEntryAt m' j) = Some w) \<longleftrightarrow>
      ((fm_map m)(fm_key m idx := None)) k = Some w" .
qed

subsection \<open>Clearing and reserving\<close>

lemma clear_ok:
  assumes inv: "fm_inv std_hash m"
  shows "fm_inv std_hash (fm_clear m)" "fm_map (fm_clear m) = Map.empty"
proof -
  note I = fm_invD [OF inv]
  have live: "fm_live (fm_clear m) = {}" by (simp add: fm_live_def fm_clear_def)
  show "fm_map (fm_clear m) = Map.empty" by (simp add: fm_map_def fm_clear_def)
  have tombs: "tombs (replicate n kEmpty) = 0" for n by (simp add: tombs_def)
  show "fm_inv std_hash (fm_clear m)"
    using table_okD(1,3) [OF I(7)] I(8) by (auto simp: fm_inv_def live tombs) (auto simp: fm_clear_def fm_slabs_ok_def table_ok_def tombs_def)
qed

lemma nextPow2_spec: "\<exists>n. nextPow2 v = 2 ^ n \<and> v \<le> nextPow2 v \<and> 8 \<le> nextPow2 v \<and> (nextPow2 v = 8 \<or> nextPow2 v < 2 * v)"
proof -
  have "\<exists>n. nextPow2_from cap v = 2 ^ n \<and> v \<le> nextPow2_from cap v \<and> cap \<le> nextPow2_from cap v \<and>
      (nextPow2_from cap v = cap \<or> nextPow2_from cap v < 2 * v)" if "\<exists>n. cap = 2 ^ n" for cap
    using that
  proof (induction cap v rule: nextPow2_from.induct)
    case (1 cap v)
    show ?case
    proof (cases "cap < v")
      case True
      have pos: "0 < cap" and pow: "\<exists>n. 2 * cap = 2 ^ n" using 1(2) by (auto intro: exI [of _ "Suc _"])
      have "nextPow2_from cap v = nextPow2_from (2 * cap) v" using True pos by (simp add: nextPow2_from.simps [of cap])
      then show ?thesis using 1(1) [OF conjI [OF pos True] pow] True by auto
    next
      case False
      then have "nextPow2_from cap v = cap" by (simp add: nextPow2_from.simps [of cap])
      then show ?thesis using 1(2) False by auto
    qed
  qed
  moreover have "\<exists>n. (8 :: nat) = 2 ^ n" by (rule exI [of _ 3]) simp
  ultimately show ?thesis unfolding nextPow2_def by blast
qed

lemma slab_added:
  assumes inv: "fm_inv std_hash m"
  shows "fm_inv std_hash (allocateSlab k0 m)" "fm_map (allocateSlab k0 m) = fm_map m"
proof -
  note I = fm_invD [OF inv]
  have old: "mEntryAt (allocateSlab k0 m) j = mEntryAt m j" if "j < mEntryCount m" for j
    using that I(1) slab_pos [of j "mSlabs m"] by (simp add: entry_at allocateSlab_def nth_append fm_slabs_ok_def)
  have fields: "mSlots (allocateSlab k0 m) = mSlots m" "mEntryCount (allocateSlab k0 m) = mEntryCount m"
    "mFree (allocateSlab k0 m) = mFree m" "mSize (allocateSlab k0 m) = mSize m" "mTomb (allocateSlab k0 m) = mTomb m"
    by (simp_all add: allocateSlab_def)
  have live: "fm_live (allocateSlab k0 m) = fm_live m" using old by (auto simp: fm_live_def fields)
  have live_old: "mEntryAt (allocateSlab k0 m) j = mEntryAt m j" if "j \<in> fm_live m" for j
    using that old by (simp add: fm_live_def)
  have "fm_slabs_ok (allocateSlab k0 m)" using I(1) by (auto simp: fm_slabs_ok_def allocateSlab_def)
  moreover have "inj_on (fm_key (allocateSlab k0 m)) (fm_live m)"
    using I(2) inj_on_cong [of "fm_live m" "fm_key (allocateSlab k0 m)" "fm_key m"] live_old by simp
  moreover have "table_ok std_hash (allocateSlab k0 m) (fm_live m) (mSlots m)" if "mSlots m \<noteq> []"
    using I(7) [OF that] live_old by (auto simp: table_ok_def)
  ultimately show "fm_inv std_hash (allocateSlab k0 m)"
    using inv by (simp add: fm_inv_def live fields split: if_splits)
  show "fm_map (allocateSlab k0 m) = fm_map m"
    unfolding fm_map_def fields by (intro arg_cong [where f = map_of] map_cong filter_cong refl) (auto simp: old)
qed

lemma slabs_added:
  "fm_inv std_hash m \<Longrightarrow> fm_inv std_hash ((allocateSlab k0 ^^ n) m) \<and> fm_map ((allocateSlab k0 ^^ n) m) = fm_map m"
proof (induction n)
  case (Suc n)
  then show ?case
    using slab_added(1) [of std_hash "(allocateSlab k0 ^^ n) m" k0] slab_added(2) [of std_hash "(allocateSlab k0 ^^ n) m" k0] by simp
qed simp

lemma reserve_ok:
  assumes inv: "fm_inv std_hash m" and small: "expected \<le> 2 ^ 29"
  shows "\<exists>m'. fm_reserve std_hash k0 expected m = Some m' \<and> fm_inv std_hash m' \<and> fm_map m' = fm_map m"
proof -
  note I = fm_invD [OF inv]
  define cap where "cap = nextPow2 (expected + expected div 3 + 1)"
  have pow: "\<exists>n. cap = 2 ^ n" "8 \<le> cap" "cap \<le> 2 ^ 32"
    using nextPow2_spec [of "expected + expected div 3 + 1"] small unfolding cap_def by auto
  have "\<exists>m1. (if length (mSlots m) < cap then rehash std_hash cap m else Some m) = Some m1 \<and> fm_inv std_hash m1 \<and> fm_map m1 = fm_map m"
  proof (cases "length (mSlots m) < cap")
    case True
    have "card (fm_live m) * 10 \<le> cap * 7"
      using True I(5,9,10) pow(2) by (cases "mSlots m = []") auto
    then obtain m1 where "rehash std_hash cap m = Some m1" "fm_inv std_hash m1" "same_entries m m1"
      using rehash_inv [OF I(1-5) _ pow(2,3)] pow(1) by metis
    then show ?thesis using True fm_map_same(1) by auto
  qed (simp add: inv)
  then obtain m1 where "(if length (mSlots m) < cap then rehash std_hash cap m else Some m) = Some m1" "fm_inv std_hash m1"
      "fm_map m1 = fm_map m" by blast
  then have "fm_reserve std_hash k0 expected m =
      Some ((allocateSlab k0 ^^ ((expected + kSlabEntries - 1) div kSlabEntries - length (mSlabs m1))) m1)"
    unfolding fm_reserve_def cap_def [symmetric] Let_def by simp
  then show ?thesis using slabs_added [where std_hash = std_hash and m = m1] \<open>fm_inv std_hash m1\<close> \<open>fm_map m1 = fm_map m\<close> by simp
qed

end
