(* ===== verification/Flat_Map_Store.thy ===== *)
theory Flat_Map_Store
  imports Flat_Map
begin

text \<open>
  The hash map seen by its clients: a keyed store (the locale \<open>keyed_store\<close>, interpreted on the operations of
  \<^verbatim>\<open>FlatMap\<close>), the refinement of a finite map by runs of operations, when a search returns, and a run that
  fills the slot table so that none does any more.
\<close>

section \<open>A keyed store\<close>

text \<open>
  What a client of the map relies on: while the store has room, the operations return and act as those of a finite
  map. The client composes them as the registry does: a lookup is \<^verbatim>\<open>find\<close> and \<^verbatim>\<open>at\<close>, a removal by key
  \<^verbatim>\<open>find\<close> and \<^verbatim>\<open>erase\<close>.
\<close>

datatype ('k, 'v) StoreOp = Get 'k | Put 'k 'v | Del 'k

datatype 'v StoreResult = Got "'v option" | Done bool

fun map_op :: "('k, 'v) StoreOp \<Rightarrow> ('k \<rightharpoonup> 'v) \<Rightarrow> 'v StoreResult \<times> ('k \<rightharpoonup> 'v)" where
  "map_op (Get k) f = (Got (f k), f)"
| "map_op (Put k v) f = (if f k = None then (Done True, f(k \<mapsto> v)) else (Done False, f))"
| "map_op (Del k) f = (Done (f k \<noteq> None), f(k := None))"

fun map_ops :: "('k, 'v) StoreOp list \<Rightarrow> ('k \<rightharpoonup> 'v) \<Rightarrow> 'v StoreResult list \<times> ('k \<rightharpoonup> 'v)" where
  "map_ops [] f = ([], f)"
| "map_ops (op # ops) f = (let (r, f1) = map_op op f; (rs, f2) = map_ops ops f1 in (r # rs, f2))"

fun store_ops :: "(('k, 'v) StoreOp \<Rightarrow> 's \<Rightarrow> ('v StoreResult \<times> 's) option) \<Rightarrow> ('k, 'v) StoreOp list \<Rightarrow> 's \<Rightarrow>
    ('v StoreResult list \<times> 's) option" where
  "store_ops step [] s = Some ([], s)"
| "store_ops step (op # ops) s =
     (case step op s of
        None \<Rightarrow> None
      | Some (r, s1) \<Rightarrow> (case store_ops step ops s1 of None \<Rightarrow> None | Some (rs, s2) \<Rightarrow> Some (r # rs, s2)))"

fun roomy :: "(('k, 'v) StoreOp \<Rightarrow> 's \<Rightarrow> ('v StoreResult \<times> 's) option) \<Rightarrow> ('s \<Rightarrow> bool) \<Rightarrow> ('k, 'v) StoreOp list \<Rightarrow> 's \<Rightarrow> bool" where
  "roomy step room [] s \<longleftrightarrow> True"
| "roomy step room (op # ops) s \<longleftrightarrow> room s \<and> (case step op s of None \<Rightarrow> True | Some (r, s1) \<Rightarrow> roomy step room ops s1)"

locale keyed_store =
  fixes step :: "('k, 'v) StoreOp \<Rightarrow> 's \<Rightarrow> ('v StoreResult \<times> 's) option"
    and inv room :: "'s \<Rightarrow> bool" and abs :: "'s \<Rightarrow> 'k \<rightharpoonup> 'v"
  assumes step_ok: "inv s \<Longrightarrow> room s \<Longrightarrow> \<exists>r s'. step op s = Some (r, s') \<and> inv s' \<and> map_op op (abs s) = (r, abs s')"
begin

lemma run_ok:
  assumes "inv s" and "roomy step room ops s"
  shows "\<exists>rs s'. store_ops step ops s = Some (rs, s') \<and> inv s' \<and> map_ops ops (abs s) = (rs, abs s')"
  using assms
proof (induction ops arbitrary: s)
  case (Cons op ops)
  obtain r s1 where s1: "step op s = Some (r, s1)" "inv s1" "map_op op (abs s) = (r, abs s1)"
    using step_ok [of s op] Cons.prems by auto
  then obtain rs s2 where "store_ops step ops s1 = Some (rs, s2)" "inv s2" "map_ops ops (abs s1) = (rs, abs s2)"
    using Cons.IH [of s1] Cons.prems by auto
  then show ?case using s1 by simp
qed simp

end

fun fm_step :: "('k \<Rightarrow> u64) \<Rightarrow> 'k \<Rightarrow> ('k, 'v) StoreOp \<Rightarrow> ('k, 'v) FlatMap \<Rightarrow> ('v StoreResult \<times> ('k, 'v) FlatMap) option" where
  "fm_step std_hash k0 (Get k) m =
     map_option (\<lambda>r. (Got (case r of None \<Rightarrow> None | Some idx \<Rightarrow> en_value (mEntryAt m idx)), m)) (fm_find std_hash k m)"
| "fm_step std_hash k0 (Put k v) m = map_option (\<lambda>((_, ins), m'). (Done ins, m')) (fm_emplace std_hash k0 k v m)"
| "fm_step std_hash k0 (Del k) m =
     (case fm_find std_hash k m of
        None \<Rightarrow> None
      | Some None \<Rightarrow> Some (Done False, m)
      | Some (Some idx) \<Rightarrow> map_option (\<lambda>(b, m'). (Done b, m')) (fm_erase std_hash k0 idx m))"

definition fm_room :: "('k, 'v) FlatMap \<Rightarrow> bool" where
  "fm_room m \<longleftrightarrow> has_room m \<and> mEntryCount m < 2 ^ 31"

lemma fm_step_present:
  assumes inv: "fm_inv std_hash m" and idx: "idx \<in> fm_live m" and key: "fm_key m idx = k"
  shows "fm_step std_hash k0 (Get k) m = Some (Got (fm_map m k), m)"
    and "fm_step std_hash k0 (Put k v) m = Some (Done False, m)"
    and "\<exists>m'. fm_step std_hash k0 (Del k) m = Some (Done True, m') \<and> fm_inv std_hash m' \<and> fm_map m' = (fm_map m)(k := None)"
proof -
  have f: "fm_find std_hash k m = Some (Some idx)" using find_present [OF inv idx] key by simp
  show "fm_step std_hash k0 (Get k) m = Some (Got (fm_map m k), m)"
    using fm_map_at [OF fm_invD(2) [OF inv] idx] key by (simp add: f)
  show "fm_step std_hash k0 (Put k v) m = Some (Done False, m)" using emplace_present [OF inv idx, of k0 v] key by simp
  obtain m' where e: "fm_erase std_hash k0 idx m = Some (True, m')" "fm_inv std_hash m'"
      "fm_live m' = fm_live m - {idx}" "entries_kept m m' {idx}"
    using erase_live [OF inv idx] by metis
  then show "\<exists>m'. fm_step std_hash k0 (Del k) m = Some (Done True, m') \<and> fm_inv std_hash m' \<and> fm_map m' = (fm_map m)(k := None)"
    using erase_map [OF inv e(2,3) idx e(4)] key by (simp add: f)
qed

interpretation flat: keyed_store "fm_step std_hash k0" "fm_inv std_hash" fm_room fm_map for std_hash k0
proof
  fix m :: "('a, 'b) FlatMap" and op :: "('a, 'b) StoreOp"
  assume inv: "fm_inv std_hash m" and room: "fm_room m"
  define k where "k = (case op of Get k \<Rightarrow> k | Put k v \<Rightarrow> k | Del k \<Rightarrow> k)"
  show "\<exists>r m'. fm_step std_hash k0 op m = Some (r, m') \<and> fm_inv std_hash m' \<and> map_op op (fm_map m) = (r, fm_map m')"
  proof (cases "k \<in> dom (fm_map m)")
    case True
    then obtain idx where idx: "idx \<in> fm_live m" "fm_key m idx = k"
      using live_cases [OF fm_invD(2) [OF inv]] by blast
    show ?thesis
      using fm_step_present [OF inv idx, of k0] True inv
      by (cases op) (auto simp: k_def simp del: fm_step.simps)
  next
    case False
    have f: "fm_find std_hash k m = Some None" using find_absent [OF inv False] room by (simp add: fm_room_def)
    show ?thesis
    proof (cases op)
      case (Put k' v)
      then have k: "k' = k" by (simp add: k_def)
      obtain idx m' where e: "fm_emplace std_hash k0 k v m = Some ((idx, True), m')" "fm_inv std_hash m'"
          "fm_live m' = insert idx (fm_live m)" "idx \<notin> fm_live m" "fm_key m' idx = k" "en_value (mEntryAt m' idx) = Some v"
          "entries_kept m m' {}"
        using emplace_new [OF inv _ False, of k0 v] room by (auto simp: fm_room_def)
      show ?thesis using emplace_map [OF inv e(2-7)] e(1,2) False Put k by (auto simp: dom_def)
    qed (use f inv False in \<open>auto simp: k_def dom_def fun_upd_idem_iff\<close>)
  qed
qed

section \<open>Filling a table\<close>

text \<open>The empty slots of a map, and what insertion into an empty home slot and removal do to them.\<close>

definition empties :: "('k, 'v) FlatMap \<Rightarrow> nat set" where
  "empties m = {i. i < length (mSlots m) \<and> mSlots m ! i = kEmpty}"

definition table_profile ::
  "('k \<Rightarrow> u64) \<Rightarrow> ('k, 'v) FlatMap \<Rightarrow> nat set \<Rightarrow> nat \<Rightarrow> nat \<Rightarrow> 'k set \<Rightarrow> nat \<Rightarrow> bool" where
  "table_profile std_hash m E n t D c \<longleftrightarrow>
     fm_inv std_hash m \<and> length (mSlots m) = 8 \<and> empties m = E \<and> mSize m = n \<and> mTomb m = t \<and> dom (fm_map m) = D \<and>
     mEntryCount m \<le> c"

lemma profile_room: "table_profile std_hash m E n t D c \<Longrightarrow> has_room m \<longleftrightarrow> E \<noteq> {}"
  by (auto simp: table_profile_def has_room_def empties_def in_set_conv_nth)

lemma profile_put:
  assumes pr: "table_profile std_hash m E n t D c" and home: "home_slot std_hash 8 k \<in> E" and k: "k \<notin> D"
    and n: "n \<le> 4" and c: "c < 2 ^ 31"
  obtains m' where "fm_step std_hash k0 (Put k v) m = Some (Done True, m')"
    "table_profile std_hash m' (E - {home_slot std_hash 8 k}) (n + 1) t (insert k D) (c + 1)"
proof -
  have inv: "fm_inv std_hash m" and len: "length (mSlots m) = 8" using pr by (auto simp: table_profile_def)
  have ne: "mSlots m \<noteq> []" using len by auto
  note I = fm_invD [OF inv] and D = table_okD [OF fm_invD(7) [OF inv ne]]
  define h where "h = home_slot std_hash (length (mSlots m)) k"
  have h: "h < 8" "mSlots m ! h = kEmpty" using home pr len by (auto simp: table_profile_def empties_def h_def)
  have absent: "k \<notin> fm_key m ` fm_live m" using k pr fm_map_dom [OF I(2)] by (simp add: table_profile_def)
  have room: "kEmpty \<in> set (mSlots m)" using h len by (auto simp: in_set_conv_nth)
  have d: "mSlots m ! ((h + 0) mod length (mSlots m)) = kEmpty" using h len by simp
  obtain idx m1 where acq: "acquireEntry k0 k v m = (idx, m1)" by force
  define m2 where "m2 = m1\<lparr>mSlots := (mSlots m1)[h := word_of_nat idx],
                     mSlabs := set_slab_entry idx (\<lambda>e. e\<lparr>en_slot := word_of_nat h\<rparr>) (mSlabs m1),
                     mTomb := (if h = length (mSlots m) then mTomb m1 - 1 else mTomb m1),
                     mSize := mSize m1 + 1\<rparr>"
  have count: "mEntryCount m < 2 ^ 31" using pr c by (auto simp: table_profile_def)
  note F = free_index [OF inv count acq]
  have N: "fm_inv std_hash m2" "fm_live m2 = insert idx (fm_live m)" "idx \<notin> fm_live m" "fm_key m2 idx = k"
      "en_value (mEntryAt m2 idx) = Some v" "entries_kept m m2 {}" "mSize m2 = n + 1"
  proof -
    have z: "0 < length (mSlots m)" using len by simp
    have none: "mSlots m ! ((h + j) mod length (mSlots m)) \<noteq> kEmpty" if "j < 0" for j using that by simp
    have at: "h = (if first_tomb (mSlots m) h 0 \<noteq> length (mSlots m) then first_tomb (mSlots m) h 0 else (h + 0) mod length (mSlots m))"
      using h len by simp
    have m2: "m2 = m1\<lparr>mSlots := (mSlots m1)[h := word_of_nat idx],
                     mSlabs := set_slab_entry idx (\<lambda>e. e\<lparr>en_slot := word_of_nat h\<rparr>) (mSlabs m1),
                     mTomb := (if h = first_tomb (mSlots m) h 0 then mTomb m1 - 1 else mTomb m1),
                     mSize := mSize m1 + 1\<rparr>" by (simp add: m2_def)
    note N = insert_new [OF inv ne count absent room h_def z d none refl at acq m2]
    have sz: "mSize m2 = n + 1" using F(13) pr by (simp add: m2_def table_profile_def)
    then show "mSize m2 = n + 1" .
    show "fm_inv std_hash m2"
      using sz n len N(13) by (intro fm_invI [OF N(1-7)]) simp_all
    show "fm_live m2 = insert idx (fm_live m)" "idx \<notin> fm_live m" "fm_key m2 idx = k" "en_value (mEntryAt m2 idx) = Some v"
      "entries_kept m m2 {}" using N(8-12) by simp_all
  qed
  have probe: "emplace_probe m k h (length (mSlots m)) = Some (Inr (h, length (mSlots m)))"
    using h by (subst emplace_probe.simps) simp
  have "fm_emplace std_hash k0 k v m = Some ((idx, True), m2)"
    using ne acq probe N(7) n len F(12) unfolding fm_emplace_def
    by (simp add: Let_def h_def [symmetric, unfolded len] m2_def)
  moreover have "table_profile std_hash m2 (E - {home_slot std_hash 8 k}) (n + 1) t (insert k D) (c + 1)"
  proof -
    have slots: "mSlots m2 = (mSlots m)[h := word_of_nat idx]" by (simp add: m2_def F(12))
    have "empties m2 = empties m - {h}"
      using index_mark [OF F(2)] h len by (auto simp: empties_def slots nth_list_update)
    moreover have "mTomb m2 = mTomb m" using h len F(14) by (simp add: m2_def)
    moreover have "mEntryCount m2 \<le> mEntryCount m + 1"
    proof -
      have "card {..<mEntryCount m1} \<le> Suc (card {..<mEntryCount m})" unfolding F(9) by (rule card_insert_le_m1) auto
      then show ?thesis by (simp add: m2_def)
    qed
    ultimately show ?thesis
      using N(1,7) emplace_map [OF inv N(1-6)] pr len by (auto simp: table_profile_def slots h_def)
  qed
  ultimately show ?thesis using that by simp
qed

lemma profile_del:
  assumes pr: "table_profile std_hash m E n t D c" and k: "k \<in> D" and t: "t \<le> 3"
  obtains m' where "fm_step std_hash k0 (Del k) m = Some (Done True, m')"
    "table_profile std_hash m' E (n - 1) (t + 1) (D - {k}) c"
proof -
  have inv: "fm_inv std_hash m" and len: "length (mSlots m) = 8" using pr by (auto simp: table_profile_def)
  note I = fm_invD [OF inv]
  have ne: "mSlots m \<noteq> []" using len by auto
  obtain idx where idx: "idx \<in> fm_live m" "fm_key m idx = k"
    using k pr live_cases [OF I(2), of k] by (auto simp: table_profile_def)
  have find: "fm_find std_hash k m = Some (Some idx)" using find_present [OF inv idx(1)] idx(2) by simp
  obtain m' where e: "fm_erase std_hash k0 idx m = Some (True, m')" "fm_inv std_hash m'"
      "fm_live m' = fm_live m - {idx}" "entries_kept m m' {idx}"
    using erase_live [OF inv idx(1)] by metis
  have slots: "mSlots m' = (mSlots m)[fm_pos m idx := kTomb]" "mTomb m' = mTomb m + 1" "mSize m' = mSize m - 1"
      "mEntryCount m' = mEntryCount m"
    using e(1) idx(1) t len pr by (auto simp: fm_erase_def Let_def fm_live_def table_profile_def split: if_splits)
  have "fm_pos m idx < 8" "mSlots m ! fm_pos m idx \<noteq> kEmpty"
    using table_okD(5) [OF I(7) [OF ne] idx(1)] len index_mark [OF I(11) [OF idx(1)]] by auto
  then have "empties m' = empties m" using len by (auto simp: empties_def slots nth_list_update)
  then have "table_profile std_hash m' E (n - 1) (t + 1) (D - {k}) c"
    using erase_map [OF inv e(2,3) idx(1) e(4)] idx(2) e(2) pr by (auto simp: table_profile_def slots)
  moreover have "fm_step std_hash k0 (Del k) m = Some (Done True, m')" by (simp add: find e(1))
  ultimately show ?thesis using that by blast
qed

lemma profile_first:
  obtains m' where "fm_step std_hash k0 (Put k v) flat_map0 = Some (Done True, m')"
    "table_profile std_hash m' ({..<8} - {home_slot std_hash 8 k}) 1 0 {k} 1"
proof -
  let ?e = "flat_map0 :: ('a, 'b) FlatMap"
  have inv: "fm_inv std_hash ?e" by (rule flat_map0_inv)
  note I = fm_invD [OF inv]
  have live: "fm_live ?e = {}" by (simp add: fm_live_def flat_map0_def)
  obtain m0 where r: "rehash std_hash 8 ?e = Some m0" "fm_inv std_hash m0" "same_entries ?e m0" "length (mSlots m0) = 8" "mTomb m0 = 0"
    using rehash_inv [OF I(1-5), of 8 3 std_hash] live by auto
  have ne: "mSlots m0 \<noteq> []" using r(4) by auto
  have live0: "fm_live m0 = {}" using same_entries_live [OF r(3)] live by simp
  have "length (filter (\<lambda>s. s = kEmpty) (mSlots m0)) = length (mSlots m0)"
    using table_count [OF fm_invD(7) [OF r(2) ne]] live0 fm_invD(6) [OF r(2)] r(5) by simp
  then have "filter (\<lambda>s. s \<noteq> kEmpty) (mSlots m0) = []"
    using sum_length_filter_compl [of "\<lambda>s. s = kEmpty" "mSlots m0"] by simp
  then have "\<forall>s \<in> set (mSlots m0). s = kEmpty" by (simp add: filter_empty_conv)
  then have "empties m0 = {..<8}" using r(4) by (auto simp: empties_def)
  moreover have "dom (fm_map m0) = {}" using fm_map_dom [OF fm_invD(2) [OF r(2)]] live0 by simp
  moreover have "mSize m0 = 0" "mEntryCount m0 = 0" using r(3) by (simp_all add: same_entries_def flat_map0_def)
  ultimately have "table_profile std_hash m0 {..<8} 0 0 {} 0" using r by (simp add: table_profile_def)
  moreover have "home_slot std_hash 8 k \<in> {..<8}" using slot_mod(3) [of 8 std_hash k] by (simp add: exI [of _ 3])
  ultimately obtain m' where m': "fm_step std_hash k0 (Put k v) m0 = Some (Done True, m')"
      "table_profile std_hash m' ({..<8} - {home_slot std_hash 8 k}) (0 + 1) 0 (insert k {}) (0 + 1)"
    using profile_put [of std_hash m0 "{..<8}" 0 0 "{}" 0 k k0 v] by auto
  moreover have "fm_emplace std_hash k0 k v ?e = fm_emplace std_hash k0 k v m0"
    using ne r(1) by (simp add: fm_emplace_def) (simp add: flat_map0_def)
  ultimately show ?thesis using that [of m'] by simp
qed

text \<open>The same steps with the resulting figures given, for runs on concrete keys.\<close>

lemma put_runs:
  assumes "table_profile std_hash m E n t D c" and "home_slot std_hash 8 k = i" and "i \<in> E" and "k \<notin> D" and "n \<le> 4"
    and "c < 2 ^ 31" and "E - {i} = E'" and "n + 1 = n'" and "insert k D = D'" and "c + 1 = c'"
  shows "\<exists>m'. fm_step std_hash k0 (Put k v) m = Some (Done True, m') \<and> table_profile std_hash m' E' n' t D' c'"
  using profile_put [OF assms(1), of k k0 v] assms(2-10) by metis

lemma del_runs:
  assumes "table_profile std_hash m E n t D c" and "k \<in> D" and "t \<le> 3" and "n - 1 = n'" and "t + 1 = t'" and "D - {k} = D'"
  shows "\<exists>m'. fm_step std_hash k0 (Del k) m = Some (Done True, m') \<and> table_profile std_hash m' E n' t' D' c"
  using profile_del [OF assms(1-3), of k0] assms(4-6) by metis

lemma first_runs:
  assumes "home_slot std_hash 8 k = i" and "{..<8} - {i} = E"
  shows "\<exists>m'. fm_step std_hash k0 (Put k v) flat_map0 = Some (Done True, m') \<and> table_profile std_hash m' E 1 0 {k} 1"
  using profile_first [of std_hash k0 k v] assms by metis

lemma store_ops_append:
  "store_ops step (xs @ ys) s =
     (case store_ops step xs s of
        None \<Rightarrow> None
      | Some (rs, s1) \<Rightarrow> (case store_ops step ys s1 of None \<Rightarrow> None | Some (rs', s2) \<Rightarrow> Some (rs @ rs', s2)))"
  by (induction xs arbitrary: s) (auto split: option.splits)

lemma puts_run:
  assumes "table_profile std_hash m E n t D c" and "distinct (map (home_slot std_hash 8) ks)"
    and "home_slot std_hash 8 ` set ks \<subseteq> E" and "set ks \<inter> D = {}" and "n + length ks \<le> 5" and "c + length ks < 2 ^ 31"
  shows "\<exists>m'. store_ops (fm_step std_hash k0) (map (\<lambda>k. Put k v) ks) m = Some (replicate (length ks) (Done True), m') \<and>
    table_profile std_hash m' (E - home_slot std_hash 8 ` set ks) (n + length ks) t (set ks \<union> D) (c + length ks)"
  using assms
proof (induction ks arbitrary: m E n D c)
  case (Cons k ks)
  obtain m1 where m1: "fm_step std_hash k0 (Put k v) m = Some (Done True, m1)"
      "table_profile std_hash m1 (E - {home_slot std_hash 8 k}) (n + 1) t (insert k D) (c + 1)"
    using profile_put [OF Cons.prems(1), of k k0 v] Cons.prems by auto
  have "set ks \<inter> insert k D = {}" using Cons.prems(2,4) by auto
  moreover have "home_slot std_hash 8 k \<notin> home_slot std_hash 8 ` set ks" using Cons.prems(2) by simp
  then have "home_slot std_hash 8 ` set ks \<subseteq> E - {home_slot std_hash 8 k}" using Cons.prems(3) by (simp add: subset_Diff_insert)
  ultimately obtain m2 where
      "store_ops (fm_step std_hash k0) (map (\<lambda>k. Put k v) ks) m1 = Some (replicate (length ks) (Done True), m2)"
      "table_profile std_hash m2 (E - {home_slot std_hash 8 k} - home_slot std_hash 8 ` set ks) (n + 1 + length ks) t
        (set ks \<union> insert k D) (c + 1 + length ks)"
    using Cons.IH [OF m1(2)] Cons.prems(2,5,6) by auto
  moreover have "E - {home_slot std_hash 8 k} - home_slot std_hash 8 ` set ks = E - home_slot std_hash 8 ` set (k # ks)" by auto
  ultimately show ?case using m1(1) by (simp del: fm_step.simps)
qed simp

lemma dels_run:
  assumes "table_profile std_hash m E n t D c" and "distinct ks" and "set ks \<subseteq> D" and "t + length ks \<le> 4"
  shows "\<exists>m'. store_ops (fm_step std_hash k0) (map Del ks) m = Some (replicate (length ks) (Done True), m') \<and>
    table_profile std_hash m' E (n - length ks) (t + length ks) (D - set ks) c"
  using assms
proof (induction ks arbitrary: m n t D)
  case (Cons k ks)
  obtain m1 where m1: "fm_step std_hash k0 (Del k) m = Some (Done True, m1)" "table_profile std_hash m1 E (n - 1) (t + 1) (D - {k}) c"
    using profile_del [OF Cons.prems(1), of k k0] Cons.prems by auto
  have "set ks \<subseteq> D - {k}" using Cons.prems(2,3) by auto
  then obtain m2 where "store_ops (fm_step std_hash k0) (map Del ks) m1 = Some (replicate (length ks) (Done True), m2)"
      "table_profile std_hash m2 E (n - 1 - length ks) (t + 1 + length ks) (D - {k} - set ks) c"
    using Cons.IH [OF m1(2)] Cons.prems(2,4) by auto
  moreover have "D - {k} - set ks = D - set (k # ks)" by auto
  ultimately show ?case using m1(1) by (simp del: fm_step.simps)
qed simp

lemma puts_run_to:
  assumes "table_profile std_hash m E n t D c" and "distinct (map (home_slot std_hash 8) ks)"
    and "home_slot std_hash 8 ` set ks \<subseteq> E" and "set ks \<inter> D = {}" and "n + length ks \<le> 5" and "c + length ks < 2 ^ 31"
    and "E - home_slot std_hash 8 ` set ks = E'" and "n + length ks = n'" and "set ks \<union> D = D'" and "c + length ks = c'"
  shows "\<exists>rs m'. store_ops (fm_step std_hash k0) (map (\<lambda>k. Put k v) ks) m = Some (rs, m') \<and> table_profile std_hash m' E' n' t D' c'"
  using puts_run [OF assms(1-6)] assms(7-10) by blast

lemma dels_run_to:
  assumes "table_profile std_hash m E n t D c" and "distinct ks" and "set ks \<subseteq> D" and "t + length ks \<le> 4"
    and "n - length ks = n'" and "t + length ks = t'" and "D - set ks = D'"
  shows "\<exists>rs m'. store_ops (fm_step std_hash k0) (map Del ks) m = Some (rs, m') \<and> table_profile std_hash m' E n' t' D' c"
  using dels_run [OF assms(1-4)] assms(5-7) by blast

lemma emplace_diverges:
  assumes inv: "fm_inv std_hash m" and absent: "key \<notin> dom (fm_map m)" and full: "\<not> has_room m"
  shows "fm_emplace std_hash k0 key v m = None"
proof -
  note I = fm_invD [OF inv]
  have ne: "mSlots m \<noteq> []" and no_empty: "kEmpty \<notin> set (mSlots m)" using full by (auto simp: has_room_def)
  note D = table_okD [OF I(7) [OF ne]]
  have none: "i < length (mSlots m) \<Longrightarrow> emplace_probe m key i ft \<noteq> Some r" for i ft r
  proof
    assume i: "i < length (mSlots m)" and ret: "emplace_probe m key i ft = Some r"
    have "\<not> (m' = m \<and> key' = key \<and> i' < length (mSlots m))"
      if "emplace_probe m' key' i' ft' = Some r'" for m' key' i' ft' r'
    proof (rule emplace_probe.raw_induct
        [where P = "\<lambda>m' key' i' ft' r'. \<not> (m' = m \<and> key' = key \<and> i' < length (mSlots m))", OF _ that])
      fix f :: "('a, 'b) FlatMap \<Rightarrow> 'a \<Rightarrow> nat \<Rightarrow> nat \<Rightarrow> (nat + nat \<times> nat) option" and m' key' i' ft' r'
      assume IH: "\<And>m' key' i' ft' r'. f m' key' i' ft' = Some r' \<Longrightarrow> \<not> (m' = m \<and> key' = key \<and> i' < length (mSlots m))"
        and eq: "(let s = mSlots m' ! i'; cap = length (mSlots m')
          in if s = kEmpty then Some (Inr (i', ft'))
          else if s = kTomb then f m' key' (next_slot cap i') (if ft' = cap then i' else ft')
          else if en_key (mEntryAt m' (unat s)) = key' then Some (Inl (unat s))
          else f m' key' (next_slot cap i') ft') = Some r'"
      show "\<not> (m' = m \<and> key' = key \<and> i' < length (mSlots m))"
      proof
        assume a: "m' = m \<and> key' = key \<and> i' < length (mSlots m)"
        then have "mSlots m ! i' \<noteq> kEmpty" using no_empty by (metis nth_mem)
        moreover have "mSlots m ! i' = kTomb \<or> fm_key m (unat (mSlots m ! i')) \<noteq> key"
          using D(4) [of i'] a calculation absent fm_map_dom [OF I(2)] by blast
        ultimately obtain ft2 where "f m key (next_slot (length (mSlots m)) i') ft2 = Some r'"
          using eq a by (auto simp: Let_def split: if_splits)
        moreover have "next_slot (length (mSlots m)) i' < length (mSlots m)" using D(1,2) by (simp add: slot_mod)
        ultimately show False using IH by blast
      qed
    qed
    then show False using i ret by blast
  qed
  have "emplace_probe m key (home_slot std_hash (length (mSlots m)) key) (length (mSlots m)) = None"
    using none [OF slot_mod(3) [OF D(1)]] by (metis not_Some_eq)
  then show ?thesis using ne by (simp add: fm_emplace_def Let_def)
qed

section \<open>Properties\<close>

text \<open>
  C26. Starting from the empty map, every sequence of lookups, insertions and removals by key returns and gives the results of
  a finite map, as long as the slot table has an empty slot before each operation and fewer than \<open>2^31\<close> entries
  are allocated: an insertion of a present key changes nothing and says so, a rehash or growth is invisible.
\<close>

theorem flat_map_refines:
  assumes "roomy (fm_step std_hash k0) fm_room ops flat_map0"
  shows "\<exists>rs m. store_ops (fm_step std_hash k0) ops flat_map0 = Some (rs, m) \<and> map_ops ops Map.empty = (rs, fm_map m) \<and>
    mSize m = card (dom (fm_map m))"
proof -
  obtain rs m where r: "store_ops (fm_step std_hash k0) ops flat_map0 = Some (rs, m)" "fm_inv std_hash m"
      "map_ops ops (fm_map flat_map0) = (rs, fm_map m)"
    using flat.run_ok [OF flat_map0_inv(1) assms] by blast
  have "card (dom (fm_map m)) = card (fm_live m)"
    unfolding fm_map_dom [OF fm_invD(2) [OF r(2)]] by (rule card_image [OF fm_invD(2) [OF r(2)]])
  then show ?thesis using r(1,3) fm_invD(5) [OF r(2)] by (auto simp: flat_map0_inv(2))
qed

text \<open>The identity, the hash of the standard libraries for integers.\<close>

definition id_hash :: "u64 \<Rightarrow> u64" where
  "id_hash k = k"

lemma id_homes:
  "home_slot id_hash 8 3 = 0" "home_slot id_hash 8 10 = 1" "home_slot id_hash 8 2 = 2" "home_slot id_hash 8 22 = 3"
  "home_slot id_hash 8 4 = 4" "home_slot id_hash 8 1 = 5" "home_slot id_hash 8 17 = 6" "home_slot id_hash 8 9 = 7"
  by (simp_all add: home_slot_def hashKey_def id_hash_def Let_def)

definition store_example :: "(u64, bool) StoreOp list" where
  "store_example = [Put 3 True, Put 10 False, Del 3, Get 10]"

lemma example_steps:
  obtains m1 m2 m3 :: "(u64, bool) FlatMap" where "fm_step id_hash 0 (Put 3 True) flat_map0 = Some (Done True, m1)"
    "fm_step id_hash 0 (Put 10 False) m1 = Some (Done True, m2)" "fm_step id_hash 0 (Del 3) m2 = Some (Done True, m3)"
    "table_profile id_hash m1 {1..<8} 1 0 {3} 1" "table_profile id_hash m2 {2..<8} 2 0 {10, 3} 2"
    "table_profile id_hash m3 {2..<8} 1 1 {10} 2"
proof -
  have "\<exists>m1 :: (u64, bool) FlatMap. fm_step id_hash 0 (Put 3 True) flat_map0 = Some (Done True, m1) \<and>
      table_profile id_hash m1 {1..<8} 1 0 {3} 1"
    by (rule first_runs [OF id_homes(1)]) auto
  then obtain m1 :: "(u64, bool) FlatMap" where 1: "fm_step id_hash 0 (Put 3 True) flat_map0 = Some (Done True, m1)"
      "table_profile id_hash m1 {1..<8} 1 0 {3} 1" by blast
  have "\<exists>m2. fm_step id_hash 0 (Put 10 False) m1 = Some (Done True, m2) \<and> table_profile id_hash m2 {2..<8} 2 0 {10, 3} 2"
    by (rule put_runs [OF 1(2) id_homes(2)]) auto
  then obtain m2 where 2: "fm_step id_hash 0 (Put 10 False) m1 = Some (Done True, m2)" "table_profile id_hash m2 {2..<8} 2 0 {10, 3} 2"
    by blast
  have "\<exists>m3. fm_step id_hash 0 (Del 3) m2 = Some (Done True, m3) \<and> table_profile id_hash m3 {2..<8} 1 1 {10} 2"
    by (rule del_runs [OF 2(2)]) auto
  then show ?thesis using that 1 2 by blast
qed

lemma profile_roomy: "table_profile std_hash m E n t D c \<Longrightarrow> E \<noteq> {} \<Longrightarrow> c < 2 ^ 31 \<Longrightarrow> fm_room m"
  using profile_room [of std_hash m E n t D c] by (auto simp: fm_room_def table_profile_def)

theorem flat_map_refines_witness:
  "\<exists>m. store_ops (fm_step id_hash 0) store_example flat_map0 = Some ([Done True, Done True, Done True, Got (Some False)], m)"
proof -
  obtain m1 m2 m3 :: "(u64, bool) FlatMap" where s: "fm_step id_hash 0 (Put 3 True) flat_map0 = Some (Done True, m1)"
    "fm_step id_hash 0 (Put 10 False) m1 = Some (Done True, m2)" "fm_step id_hash 0 (Del 3) m2 = Some (Done True, m3)"
    and pr: "table_profile id_hash m1 {1..<8} 1 0 {3} 1" "table_profile id_hash m2 {2..<8} 2 0 {10, 3} 2"
    "table_profile id_hash m3 {2..<8} 1 1 {10} 2"
    using example_steps by blast
  have "fm_room (flat_map0 :: (u64, bool) FlatMap)" by (simp add: fm_room_def has_room_def flat_map0_def)
  then have "roomy (fm_step id_hash 0) fm_room store_example flat_map0"
    using profile_roomy [OF pr(1)] profile_roomy [OF pr(2)] profile_roomy [OF pr(3)]
    by (simp add: store_example_def s del: fm_step.simps split: option.split)
  then show ?thesis using flat_map_refines [of id_hash 0 store_example] by (auto simp: store_example_def)
qed

text \<open>
  C27. A search in a map of the invariant returns exactly when the key is present or the slot table has an empty slot; it is
  enough that live entries and tombstones together are fewer than the slots.
\<close>

theorem find_returns_iff:
  assumes "fm_inv std_hash m"
  shows "(fm_find std_hash key m \<noteq> None \<longleftrightarrow> key \<in> dom (fm_map m) \<or> has_room m) \<and>
    (has_room m \<longleftrightarrow> mSlots m = [] \<or> mSize m + mTomb m < fm_capacity m)"
proof
  note I = fm_invD [OF assms]
  show "fm_find std_hash key m \<noteq> None \<longleftrightarrow> key \<in> dom (fm_map m) \<or> has_room m"
  proof (cases "key \<in> dom (fm_map m)")
    case True
    then show ?thesis using find_present [OF assms] live_cases [OF I(2), of key] by auto
  next
    case False
    then show ?thesis using find_absent [OF assms] find_diverges [OF assms] by (cases "has_room m") auto
  qed
  have "length (filter (\<lambda>s. s = kEmpty) (mSlots m)) = 0 \<longleftrightarrow> kEmpty \<notin> set (mSlots m)"
    by (auto simp: filter_empty_conv)
  then show "has_room m \<longleftrightarrow> mSlots m = [] \<or> mSize m + mTomb m < fm_capacity m"
    using table_count [OF I(7) I(11)] I(5,6) unfolding has_room_def fm_capacity_def
    by (cases "mSlots m = []") (simp, linarith)
qed

theorem find_returns_iff_witness: "fm_find id_hash 3 (flat_map0 :: (u64, bool) FlatMap) \<noteq> None"
  using find_returns_iff [OF flat_map0_inv(1), of id_hash 3] by (simp add: has_room_def flat_map0_def)

definition filling :: "(u64, bool) StoreOp list" where
  "filling = [Put 3 True] @ map (\<lambda>k. Put k True) [10, 2] @ map Del [3, 10, 2] @ map (\<lambda>k. Put k True) [22, 4, 1, 17, 9]"

text \<open>
  C28. The table can fill up. After three insertions, three removals and five more insertions of 64-bit keys (hashed by
  the identity before the finalizer of the map) every slot holds an entry or a tombstone, both limits of the map
  (70\% live entries, 50\% tombstones) are respected, and neither a lookup nor an insertion of a new key ever returns.
\<close>

theorem full_table_diverges:
  "\<exists>rs m. store_ops (fm_step id_hash 0) filling flat_map0 = Some (rs, m) \<and> mSize m = 5 \<and> mTomb m = 3 \<and> fm_capacity m = 8 \<and>
     fm_step id_hash 0 (Get 0) m = None \<and> fm_step id_hash 0 (Put 0 True) m = None"
proof -
  have "\<exists>m1 :: (u64, bool) FlatMap. fm_step id_hash 0 (Put 3 True) flat_map0 = Some (Done True, m1) \<and>
      table_profile id_hash m1 {1..<8} 1 0 {3} 1"
    by (rule first_runs [OF id_homes(1)]) auto
  then obtain m1 :: "(u64, bool) FlatMap" where 1: "fm_step id_hash 0 (Put 3 True) flat_map0 = Some (Done True, m1)"
      "table_profile id_hash m1 {1..<8} 1 0 {3} 1" by blast
  have "\<exists>rs m2. store_ops (fm_step id_hash 0) (map (\<lambda>k. Put k True) [10, 2]) m1 = Some (rs, m2) \<and>
      table_profile id_hash m2 {3..<8} 3 0 {10, 2, 3} 3"
    by (rule puts_run_to [OF 1(2)]) (auto simp: id_homes)
  then obtain r2 m2 where 2: "store_ops (fm_step id_hash 0) (map (\<lambda>k. Put k True) [10, 2]) m1 = Some (r2, m2)"
      "table_profile id_hash m2 {3..<8} 3 0 {10, 2, 3} 3" by blast
  have "\<exists>rs m3. store_ops (fm_step id_hash 0) (map Del [3, 10, 2]) m2 = Some (rs, m3) \<and> table_profile id_hash m3 {3..<8} 0 3 {} 3"
    by (rule dels_run_to [OF 2(2)]) auto
  then obtain r3 m3 where 3: "store_ops (fm_step id_hash 0) (map Del [3, 10, 2]) m2 = Some (r3, m3)"
      "table_profile id_hash m3 {3..<8} 0 3 {} 3" by blast
  have "\<exists>rs m4. store_ops (fm_step id_hash 0) (map (\<lambda>k. Put k True) [22, 4, 1, 17, 9]) m3 = Some (rs, m4) \<and>
      table_profile id_hash m4 {} 5 3 {22, 4, 1, 17, 9} 8"
    by (rule puts_run_to [OF 3(2)]) (auto simp: id_homes)
  then obtain r4 m4 where 4: "store_ops (fm_step id_hash 0) (map (\<lambda>k. Put k True) [22, 4, 1, 17, 9]) m3 = Some (r4, m4)"
      "table_profile id_hash m4 {} 5 3 {22, 4, 1, 17, 9} 8" by blast
  have run: "\<exists>rs. store_ops (fm_step id_hash 0) filling flat_map0 = Some (rs, m4)"
    unfolding filling_def store_ops_append using 1(1) 2(1) 3(1) 4(1) by (simp del: fm_step.simps list.map)
  have full: "\<not> has_room m4" using profile_room [OF 4(2)] by simp
  have inv: "fm_inv id_hash m4" and absent: "0 \<notin> dom (fm_map m4)" using 4(2) by (auto simp: table_profile_def)
  show ?thesis
    using run 4(2) find_diverges [OF inv absent full] emplace_diverges [OF inv absent full, of 0 True]
    by (auto simp add: table_profile_def fm_capacity_def)
qed

text \<open>
  Entries do not move: an insertion or a removal of another key, with the rehash or growth it triggers, leaves every
  live entry at its index with its key and its value, so that pointers into the map stay valid.
\<close>

theorem entries_stay:
  assumes inv: "fm_inv std_hash m" and room: "fm_room m" and idx: "idx \<in> fm_live m"
    and step: "fm_step std_hash k0 op m = Some (r, m')" and other: "op \<noteq> Del (fm_key m idx)"
  shows "idx \<in> fm_live m' \<and> fm_key m' idx = fm_key m idx \<and> en_value (mEntryAt m' idx) = en_value (mEntryAt m idx)"
proof (cases op)
  case (Get k)
  then show ?thesis using step idx by auto
next
  case (Put k v)
  show ?thesis
  proof (cases "k \<in> dom (fm_map m)")
    case True
    then obtain j where "j \<in> fm_live m" "fm_key m j = k" using live_cases [OF fm_invD(2) [OF inv]] by blast
    then show ?thesis using emplace_present [OF inv, of j k0 v] step Put idx by auto
  next
    case False
    then obtain j m2 where "fm_emplace std_hash k0 k v m = Some ((j, True), m2)" "entries_kept m m2 {}"
      using emplace_new [OF inv, of k k0 v] room unfolding fm_room_def by metis
    then show ?thesis using step Put idx by (auto simp: entries_kept_def)
  qed
next
  case (Del k)
  show ?thesis
  proof (cases "k \<in> dom (fm_map m)")
    case True
    then obtain j where j: "j \<in> fm_live m" "fm_key m j = k" using live_cases [OF fm_invD(2) [OF inv]] by blast
    then have "j \<noteq> idx" using other Del by auto
    moreover obtain m2 where "fm_erase std_hash k0 j m = Some (True, m2)" "entries_kept m m2 {j}"
      using erase_live [OF inv j(1)] by metis
    ultimately show ?thesis using step Del idx find_present [OF inv j(1)] j(2) by (auto simp: entries_kept_def)
  next
    case False
    then show ?thesis using find_absent [OF inv False] room step Del idx by (auto simp: fm_room_def)
  qed
qed

theorem entries_stay_witness:
  "\<exists>m m' :: (u64, bool) FlatMap. fm_step id_hash 0 (Put 3 True) flat_map0 = Some (Done True, m) \<and>
     fm_step id_hash 0 (Put 10 False) m = Some (Done True, m') \<and>
     (\<exists>idx \<in> fm_live m. idx \<in> fm_live m' \<and> fm_key m' idx = 3)"
proof -
  obtain m1 m2 :: "(u64, bool) FlatMap" where s: "fm_step id_hash 0 (Put 3 True) flat_map0 = Some (Done True, m1)"
    "fm_step id_hash 0 (Put 10 False) m1 = Some (Done True, m2)" and pr: "table_profile id_hash m1 {1..<8} 1 0 {3} 1"
    using example_steps by blast
  have inv: "fm_inv id_hash m1" and room: "fm_room m1"
    using profile_roomy [OF pr] pr by (auto simp: table_profile_def)
  obtain idx where idx: "idx \<in> fm_live m1" "fm_key m1 idx = 3"
    using live_cases [OF fm_invD(2) [OF inv], of 3] pr by (auto simp: table_profile_def)
  then show ?thesis using s entries_stay [OF inv room idx(1) s(2)] by auto
qed

end
