(* ===== verification/Subscriber_Registry.thy ===== *)
theory Subscriber_Registry
  imports Subscriber_Session Flat_Map_Store
begin

text \<open>
  The registry of the subscribers: \<^verbatim>\<open>stack/subscriber_registry.h\<close> and \<^verbatim>\<open>stack/subscriber_registry.cpp\<close>. The sessions live in the
  entries of the hash map over the temporary identities; entries do not move, so a pointer to a session is the index of its
  entry. The other indexes lead to it by subscriber identity and by radio link, and two sets hold the sessions with
  a running timer and with an active procedure; the observers of timers and procedures keep them. An operation that does
  not return, because a probe of a hash map does not, is \<open>None\<close>. The hash function of the standard library is the argument \<open>H\<close>.
\<close>

section \<open>State\<close>

type_synonym session_ptr = nat

record SubscriberRegistry =
  rg_byTMSI :: "(u32, SubscriberSession) FlatMap"
  rg_byIMSI :: "string \<rightharpoonup> u32"
  rg_byLink :: "(u32, session_ptr) FlatMap"
  rg_nextAutoTmsi :: u32
  rg_count :: nat
  rg_activeTimers :: "session_ptr set"
  rg_activeProcedures :: "session_ptr set"

definition registry0 :: SubscriberRegistry where
  "registry0 = \<lparr>rg_byTMSI = flat_map0, rg_byIMSI = Map.empty, rg_byLink = flat_map0, rg_nextAutoTmsi = 1, rg_count = 0,
     rg_activeTimers = {}, rg_activeProcedures = {}\<rparr>"

text \<open>Assignment through the reference that \<^verbatim>\<open>at\<close> returns.\<close>

definition fm_modify :: "nat \<Rightarrow> ('v \<Rightarrow> 'v) \<Rightarrow> ('k, 'v) FlatMap \<Rightarrow> ('k, 'v) FlatMap" where
  "fm_modify idx f m = m\<lparr>mSlabs := set_slab_entry idx (\<lambda>e. e\<lparr>en_value := map_option f (en_value e)\<rparr>) (mSlabs m)\<rparr>"

definition session_at :: "SubscriberRegistry \<Rightarrow> session_ptr \<Rightarrow> SubscriberSession option" where
  "session_at reg p = (if p < mEntryCount (rg_byTMSI reg) then en_value (mEntryAt (rg_byTMSI reg) p) else None)"

definition upd_session :: "session_ptr \<Rightarrow> (SubscriberSession \<Rightarrow> SubscriberSession) \<Rightarrow> SubscriberRegistry \<Rightarrow> SubscriberRegistry" where
  "upd_session p f reg = reg\<lparr>rg_byTMSI := fm_modify p f (rg_byTMSI reg)\<rparr>"

section \<open>Activity\<close>

definition handleTimerActive :: "session_ptr \<Rightarrow> bool \<Rightarrow> SubscriberRegistry \<Rightarrow> SubscriberRegistry" where
  "handleTimerActive p active reg =
     reg\<lparr>rg_activeTimers := (if active then insert p (rg_activeTimers reg) else rg_activeTimers reg - {p})\<rparr>"

definition handleProcedureActive :: "session_ptr \<Rightarrow> bool \<Rightarrow> SubscriberRegistry \<Rightarrow> SubscriberRegistry" where
  "handleProcedureActive p active reg =
     reg\<lparr>rg_activeProcedures := (if active then insert p (rg_activeProcedures reg) else rg_activeProcedures reg - {p})\<rparr>"

text \<open>
  An operation on the timers or procedures of a session, with the calls of the observer it makes: the notifications that
  it adds are handed to the registry in their order.
\<close>

definition drive_timers :: "session_ptr \<Rightarrow> (TimerManager \<Rightarrow> TimerManager) \<Rightarrow> SubscriberRegistry \<Rightarrow> SubscriberRegistry" where
  "drive_timers p g reg =
     (case session_at reg p of
        None \<Rightarrow> reg
      | Some s \<Rightarrow>
          let t = g (su_timers s)
          in fold (handleTimerActive p) (drop (length (tmNotes (su_timers s))) (tmNotes t)) (upd_session p (\<lambda>s. s\<lparr>su_timers := t\<rparr>) reg))"

definition drive_procedures :: "session_ptr \<Rightarrow> (ProcedureRunner \<Rightarrow> ProcedureRunner) \<Rightarrow> SubscriberRegistry \<Rightarrow> SubscriberRegistry" where
  "drive_procedures p g reg =
     (case session_at reg p of
        None \<Rightarrow> reg
      | Some s \<Rightarrow>
          let r = g (su_procedures s)
          in fold (handleProcedureActive p) (drop (length (rnNotes (su_procedures s))) (rnNotes r))
               (upd_session p (\<lambda>s. s\<lparr>su_procedures := r\<rparr>) reg))"

text \<open>A message for the procedures of a session.\<close>

definition session_feed :: "bool \<Rightarrow> ParsedMessage \<Rightarrow> session_ptr \<Rightarrow> SubscriberRegistry \<Rightarrow> SubscriberRegistry" where
  "session_feed sink msg p reg =
     (case session_at reg p of
        None \<Rightarrow> reg
      | Some s \<Rightarrow>
          let out = runner_feed sink msg (Some (session_view s)) (su_procedures s)
          in upd_session p (session_put (fo_session out)) (drive_procedures p (\<lambda>_. fo_proc out) reg))"

section \<open>Creating and finding sessions\<close>

text \<open>A session under the observation of the registry.\<close>

definition adopt :: "u32 \<Rightarrow> SubscriberSession \<Rightarrow> SubscriberSession" where
  "adopt tmsi s = s\<lparr>su_assignedTmsi := tmsi, su_timers := (su_timers s)\<lparr>tmObserved := True\<rparr>,
     su_procedures := (su_procedures s)\<lparr>rnObserved := True\<rparr>\<rparr>"

definition createByTMSI :: "(u32 \<Rightarrow> u64) \<Rightarrow> u32 \<Rightarrow> SubscriberRegistry \<Rightarrow> (session_ptr option \<times> SubscriberRegistry) option" where
  "createByTMSI H tmsi reg =
     (if tmsi = 0 then Some (None, reg)
      else case fm_emplace H 0 tmsi session0 (rg_byTMSI reg) of
        None \<Rightarrow> None
      | Some ((idx, inserted), m) \<Rightarrow>
          let reg1 = reg\<lparr>rg_byTMSI := m\<rparr>
          in if \<not> inserted then Some (None, reg1)
             else Some (Some idx, (upd_session idx (\<lambda>s. adopt tmsi (s\<lparr>su_context := setTMSI tmsi (su_context s)\<rparr>)) reg1)
                                    \<lparr>rg_count := rg_count reg1 + 1\<rparr>))"

text \<open>The search for an unused temporary identity: the identity found, if any, and the next candidate.\<close>

function auto_tmsi :: "(u32 \<Rightarrow> u64) \<Rightarrow> (u32, SubscriberSession) FlatMap \<Rightarrow> u32 \<Rightarrow> u32 \<Rightarrow> nat \<Rightarrow> (u32 option \<times> u32) option" where
  "auto_tmsi H m tmsi nextTmsi attempts =
     (case (if tmsi = 0 then Some True else map_option (\<lambda>r. r \<noteq> None) (fm_find H tmsi m)) of
        None \<Rightarrow> None
      | Some False \<Rightarrow> Some (Some tmsi, nextTmsi)
      | Some True \<Rightarrow>
          if attempts + 1 > mSize m + 1 then Some (None, nextTmsi + 1)
          else auto_tmsi H m nextTmsi (nextTmsi + 1) (attempts + 1))"
  by pat_completeness auto

termination auto_tmsi
  by (relation "measure (\<lambda>(H, m, tmsi, nextTmsi, attempts). mSize m + 1 - attempts)") auto

declare auto_tmsi.simps [simp del]

definition createByIMSI :: "(u32 \<Rightarrow> u64) \<Rightarrow> string \<Rightarrow> SubscriberRegistry \<Rightarrow> (session_ptr option \<times> SubscriberRegistry) option" where
  "createByIMSI H imsi reg =
     (if rg_byIMSI reg imsi \<noteq> None then Some (None, reg)
      else case auto_tmsi H (rg_byTMSI reg) (rg_nextAutoTmsi reg) (rg_nextAutoTmsi reg + 1) 0 of
        None \<Rightarrow> None
      | Some (None, nextTmsi) \<Rightarrow> Some (None, reg\<lparr>rg_nextAutoTmsi := nextTmsi\<rparr>)
      | Some (Some tmsi, nextTmsi) \<Rightarrow>
          (case fm_emplace H 0 tmsi session0 (rg_byTMSI reg) of
             None \<Rightarrow> None
           | Some ((idx, inserted), m) \<Rightarrow>
               let reg1 = reg\<lparr>rg_byTMSI := m, rg_nextAutoTmsi := nextTmsi\<rparr>
               in if \<not> inserted then Some (None, reg1)
                  else Some (Some idx, (upd_session idx (\<lambda>s. adopt tmsi (s\<lparr>su_context := setIMSI imsi (su_context s)\<rparr>)) reg1)
                         \<lparr>rg_byIMSI := (rg_byIMSI reg1)(imsi \<mapsto> tmsi), rg_count := rg_count reg1 + 1\<rparr>)))"

definition findByTMSI :: "(u32 \<Rightarrow> u64) \<Rightarrow> u32 \<Rightarrow> SubscriberRegistry \<Rightarrow> session_ptr option option" where
  "findByTMSI H tmsi reg = fm_find H tmsi (rg_byTMSI reg)"

definition findByIMSI :: "(u32 \<Rightarrow> u64) \<Rightarrow> string \<Rightarrow> SubscriberRegistry \<Rightarrow> session_ptr option option" where
  "findByIMSI H imsi reg = (case rg_byIMSI reg imsi of None \<Rightarrow> Some None | Some tmsi \<Rightarrow> findByTMSI H tmsi reg)"

definition encodeLinkKey :: "u8 \<Rightarrow> u8 \<Rightarrow> u8 \<Rightarrow> u32" where
  "encodeLinkKey trx ts lapdmLink = push_bit 16 (ucast trx) OR push_bit 8 (ucast ts) OR ucast lapdmLink"

definition findByLink :: "(u32 \<Rightarrow> u64) \<Rightarrow> u8 \<Rightarrow> u8 \<Rightarrow> u8 \<Rightarrow> SubscriberRegistry \<Rightarrow> session_ptr option option" where
  "findByLink H trx ts lapdmLink reg =
     map_option (\<lambda>r. case r of None \<Rightarrow> None | Some idx \<Rightarrow> en_value (mEntryAt (rg_byLink reg) idx))
       (fm_find H (encodeLinkKey trx ts lapdmLink) (rg_byLink reg))"

section \<open>Channels\<close>

definition session_linkKey :: "SubscriberSession \<Rightarrow> u32" where
  "session_linkKey s = encodeLinkKey (mTrxNumber (su_context s)) (mTimeslot (su_context s)) (su_lapdmLink s)"

text \<open>\<^verbatim>\<open>mByLink.erase(mByLink.find(key))\<close>, for a session that has a channel.\<close>

definition erase_link :: "(u32 \<Rightarrow> u64) \<Rightarrow> SubscriberSession \<Rightarrow> (u32, session_ptr) FlatMap \<Rightarrow> (u32, session_ptr) FlatMap option" where
  "erase_link H s links =
     (if su_channel s = None then Some links
      else case fm_find H (session_linkKey s) links of
        None \<Rightarrow> None
      | Some None \<Rightarrow> Some links
      | Some (Some idx) \<Rightarrow> map_option snd (fm_erase H 0 idx links))"

text \<open>\<^verbatim>\<open>mByLink\<close> leads from \<open>key\<close> to \<open>p\<close>, whether the key is there or not.\<close>

definition set_link :: "(u32 \<Rightarrow> u64) \<Rightarrow> u32 \<Rightarrow> session_ptr \<Rightarrow> (u32, session_ptr) FlatMap \<Rightarrow> (u32, session_ptr) FlatMap option" where
  "set_link H key p links =
     (case fm_find H key links of
        None \<Rightarrow> None
      | Some None \<Rightarrow> map_option snd (fm_emplace H 0 key p links)
      | Some (Some idx) \<Rightarrow> Some (fm_modify idx (\<lambda>_. p) links))"

definition reg_assignChannel ::
  "(u32 \<Rightarrow> u64) \<Rightarrow> session_ptr \<Rightarrow> ChannelDescriptor \<Rightarrow> u8 \<Rightarrow> SubscriberRegistry \<Rightarrow> SubscriberRegistry option" where
  "reg_assignChannel H p desc lapdmLink reg =
     (case session_at reg p of
        None \<Rightarrow> None
      | Some s \<Rightarrow>
          (case erase_link H s (rg_byLink reg) of
             None \<Rightarrow> None
           | Some links \<Rightarrow>
               map_option
                 (\<lambda>links'. (upd_session p (\<lambda>s. s\<lparr>su_channel := Some desc, su_lapdmLink := lapdmLink,
                     su_context := ctx_assignChannel (cd_type desc) (cd_trxNumber desc) (cd_timeslot desc) (cd_arfcn desc) (su_context s)\<rparr>)
                     reg)\<lparr>rg_byLink := links'\<rparr>)
                 (set_link H (encodeLinkKey (cd_trxNumber desc) (cd_timeslot desc) lapdmLink) p links)))"

definition reg_releaseChannel :: "(u32 \<Rightarrow> u64) \<Rightarrow> session_ptr \<Rightarrow> SubscriberRegistry \<Rightarrow> SubscriberRegistry option" where
  "reg_releaseChannel H p reg =
     (case session_at reg p of
        None \<Rightarrow> None
      | Some s \<Rightarrow>
          map_option
            (\<lambda>links. (upd_session p (\<lambda>s. s\<lparr>su_channel := None, su_context := ctx_releaseChannel (su_context s)\<rparr>) reg)\<lparr>rg_byLink := links\<rparr>)
            (erase_link H s (rg_byLink reg)))"

section \<open>Removing sessions\<close>

definition remove_session :: "(u32 \<Rightarrow> u64) \<Rightarrow> session_ptr \<Rightarrow> SubscriberRegistry \<Rightarrow> (bool \<times> SubscriberRegistry) option" where
  "remove_session H p reg =
     (case session_at reg p of
        None \<Rightarrow> None
      | Some s \<Rightarrow>
          (case fm_find H (su_assignedTmsi s) (rg_byTMSI reg) of
             None \<Rightarrow> None
           | Some r \<Rightarrow>
               if r \<noteq> Some p then Some (False, reg)
               else (case reg_releaseChannel H p reg of
                       None \<Rightarrow> None
                     | Some reg1 \<Rightarrow>
                         let reg2 = (if mi_isIMSI (mIdentity (su_context s))
                                     then reg1\<lparr>rg_byIMSI := (rg_byIMSI reg1)(mi_digits (mIdentity (su_context s)) := None)\<rparr> else reg1);
                             reg3 = handleProcedureActive p False (handleTimerActive p False reg2)
                         in map_option (\<lambda>(_, m). (True, reg3\<lparr>rg_byTMSI := m, rg_count := rg_count reg3 - 1\<rparr>))
                              (fm_erase H 0 p (rg_byTMSI reg3)))))"

definition reg_remove :: "(u32 \<Rightarrow> u64) \<Rightarrow> session_ptr option \<Rightarrow> SubscriberRegistry \<Rightarrow> (bool \<times> SubscriberRegistry) option" where
  "reg_remove H q reg = (case q of None \<Rightarrow> Some (False, reg) | Some p \<Rightarrow> remove_session H p reg)"

definition reg_clear :: "SubscriberRegistry \<Rightarrow> SubscriberRegistry" where
  "reg_clear reg = reg\<lparr>rg_byTMSI := fm_clear (rg_byTMSI reg), rg_byIMSI := Map.empty, rg_byLink := fm_clear (rg_byLink reg),
     rg_count := 0, rg_activeTimers := {}, rg_activeProcedures := {}\<rparr>"

definition reg_reserve :: "(u32 \<Rightarrow> u64) \<Rightarrow> nat \<Rightarrow> SubscriberRegistry \<Rightarrow> SubscriberRegistry option" where
  "reg_reserve H expected reg =
     (case fm_reserve H 0 expected (rg_byTMSI reg) of
        None \<Rightarrow> None
      | Some m \<Rightarrow> map_option (\<lambda>l. reg\<lparr>rg_byTMSI := m, rg_byLink := l\<rparr>) (fm_reserve H 0 expected (rg_byLink reg)))"

definition reg_forEach :: "SubscriberRegistry \<Rightarrow> SubscriberSession list" where
  "reg_forEach reg = map snd (fm_forEach (rg_byTMSI reg))"

section \<open>Ticks\<close>

text \<open>The order in which the set of active sessions is walked is that of an unordered set; it is the argument \<open>iterate\<close>.\<close>

definition report_expiry ::
  "nat \<Rightarrow> session_ptr \<Rightarrow> L3TimerId \<Rightarrow> SubscriberRegistry \<times> (session_ptr \<times> L3TimerId) list \<Rightarrow>
     SubscriberRegistry \<times> (session_ptr \<times> L3TimerId) list" where
  "report_expiry cap p i st =
     (let reg = upd_session p (\<lambda>s. s\<lparr>su_transactions := txm_onTimerExpired i (su_transactions s)\<rparr>) (fst st)
      in if length (snd st) < cap then (reg, snd st @ [(p, i)])
         else (drive_timers p (\<lambda>m. snd (tm_start_with i 1 m)) reg, snd st))"

definition tick_session ::
  "int \<Rightarrow> nat \<Rightarrow> session_ptr \<Rightarrow> SubscriberRegistry \<times> (session_ptr \<times> L3TimerId) list \<Rightarrow>
     SubscriberRegistry \<times> (session_ptr \<times> L3TimerId) list" where
  "tick_session delta cap p st =
     (case session_at (fst st) p of
        None \<Rightarrow> st
      | Some s \<Rightarrow> fold (report_expiry cap p) (fst (tm_tick delta 32 (su_timers s)))
                    (drive_timers p (\<lambda>m. snd (tm_tick delta 32 m)) (fst st), snd st))"

definition tickAllTimers ::
  "(session_ptr set \<Rightarrow> session_ptr list) \<Rightarrow> int \<Rightarrow> nat \<Rightarrow> SubscriberRegistry \<Rightarrow> (session_ptr \<times> L3TimerId) list \<times> SubscriberRegistry" where
  "tickAllTimers iterate delta cap reg =
     (let (reg', out) = fold (tick_session delta cap) (iterate (rg_activeTimers reg)) (reg, []) in (out, reg'))"

definition tick_procedures :: "int \<Rightarrow> session_ptr \<Rightarrow> nat \<times> SubscriberRegistry \<Rightarrow> nat \<times> SubscriberRegistry" where
  "tick_procedures delta p st =
     (case session_at (snd st) p of
        None \<Rightarrow> st
      | Some s \<Rightarrow> (fst st + fst (tickAll delta (su_procedures s)), drive_procedures p (\<lambda>r. snd (tickAll delta r)) (snd st)))"

definition tickAllProcedures :: "(session_ptr set \<Rightarrow> session_ptr list) \<Rightarrow> int \<Rightarrow> SubscriberRegistry \<Rightarrow> nat \<times> SubscriberRegistry" where
  "tickAllProcedures iterate delta reg = fold (tick_procedures delta) (iterate (rg_activeProcedures reg)) (0, reg)"

section \<open>The sessions as a store\<close>

text \<open>The sessions by pointer, each with the temporary identity it is kept under.\<close>

definition reg_heap :: "SubscriberRegistry \<Rightarrow> session_ptr \<rightharpoonup> u32 \<times> SubscriberSession" where
  "reg_heap reg p = map_option (Pair (fm_key (rg_byTMSI reg) p)) (session_at reg p)"

lemma live_at: "p \<in> fm_live m \<longleftrightarrow> p < mEntryCount m \<and> en_value (mEntryAt m p) \<noteq> None"
  by (simp add: fm_live_def)

lemma heap_Some:
  "reg_heap reg p = Some (t, s) \<longleftrightarrow>
     p \<in> fm_live (rg_byTMSI reg) \<and> fm_key (rg_byTMSI reg) p = t \<and> en_value (mEntryAt (rg_byTMSI reg) p) = Some s"
  by (auto simp: reg_heap_def session_at_def live_at)

lemma heap_dom: "dom (reg_heap reg) = fm_live (rg_byTMSI reg)"
  by (auto simp: reg_heap_def session_at_def live_at split: if_splits)

lemma session_at_heap: "session_at reg p = map_option snd (reg_heap reg p)"
  by (simp add: reg_heap_def option.map_comp comp_def option.map_ident)

lemma modify_entry:
  assumes "fm_inv H m" "idx < mEntryCount m"
  shows "mEntryAt (fm_modify idx f m) j =
    (if j = idx then (mEntryAt m idx)\<lparr>en_value := map_option f (en_value (mEntryAt m idx))\<rparr> else mEntryAt m j)"
  using entry_set [of m idx "fm_modify idx f m"] fm_invD(1) [OF assms(1)] assms(2) by (simp add: fm_modify_def fm_slabs_ok_def)

lemma modify_ok:
  assumes inv: "fm_inv H m" and idx: "idx < mEntryCount m"
  shows "fm_inv H (fm_modify idx f m)" "fm_live (fm_modify idx f m) = fm_live m" "fm_key (fm_modify idx f m) = fm_key m"
    "en_value (mEntryAt (fm_modify idx f m) idx) = map_option f (en_value (mEntryAt m idx))"
    "j \<noteq> idx \<Longrightarrow> mEntryAt (fm_modify idx f m) j = mEntryAt m j"
    "has_room (fm_modify idx f m) = has_room m" "mEntryCount (fm_modify idx f m) = mEntryCount m" "mSize (fm_modify idx f m) = mSize m"
proof -
  let ?m = "fm_modify idx f m"
  note e = modify_entry [OF inv idx, of f]
  have fields: "mSlots ?m = mSlots m" "mEntryCount ?m = mEntryCount m" "mFree ?m = mFree m" "mSize ?m = mSize m" "mTomb ?m = mTomb m"
    by (simp_all add: fm_modify_def)
  have key: "fm_key ?m j = fm_key m j" "en_slot (mEntryAt ?m j) = en_slot (mEntryAt m j)" for j by (simp_all add: e)
  show live: "fm_live ?m = fm_live m" by (auto simp: fm_live_def fields e)
  show "fm_key ?m = fm_key m" by (simp add: key fun_eq_iff)
  have "fm_slabs_ok ?m" using slabs_set [of m ?m idx] fm_invD(1) [OF inv] by (simp add: fm_modify_def)
  moreover have "table_ok H ?m L slots = table_ok H m L slots" for L slots by (simp add: table_ok_def key)
  ultimately show "fm_inv H ?m" using inv by (auto simp: fm_inv_def live fields key inj_on_def split: if_splits)
  show "has_room ?m = has_room m" "mEntryCount ?m = mEntryCount m" "mSize ?m = mSize m" by (simp_all add: has_room_def fields)
qed (simp_all add: modify_entry [OF inv idx])

lemma find_iff:
  assumes inv: "fm_inv H m" and ret: "fm_find H k m = Some r"
  shows "r = Some idx \<longleftrightarrow> idx \<in> fm_live m \<and> fm_key m idx = k"
proof (cases "k \<in> dom (fm_map m)")
  case True
  then obtain j where j: "j \<in> fm_live m" "fm_key m j = k" using live_cases [OF fm_invD(2) [OF inv]] by blast
  then have "r = Some j" using find_present [OF inv j(1)] ret by simp
  then show ?thesis using j inj_onD [OF fm_invD(2) [OF inv]] by auto
next
  case False
  then have "has_room m \<Longrightarrow> r = None" using find_absent [OF inv False] ret by simp
  moreover have "has_room m" using find_diverges [OF inv False] ret by auto
  ultimately show ?thesis using False live_cases [OF fm_invD(2) [OF inv]] by auto
qed

lemma find_returns: "fm_inv H m \<Longrightarrow> has_room m \<Longrightarrow> \<exists>r. fm_find H k m = Some r"
  using find_present [of H m] find_absent [of H m k] live_cases [of m k] fm_invD(2) [of H m] by blast

text \<open>The effect of the three kinds of change on the store.\<close>

lemma heap_upd:
  assumes "fm_inv H (rg_byTMSI reg)" "reg_heap reg p = Some (t, s)"
  shows "reg_heap (upd_session p f reg) = (reg_heap reg)(p \<mapsto> (t, f s))" "fm_inv H (rg_byTMSI (upd_session p f reg))"
    "mSize (rg_byTMSI (upd_session p f reg)) = mSize (rg_byTMSI reg)"
proof -
  have p: "p < mEntryCount (rg_byTMSI reg)" using assms(2) by (simp add: heap_Some live_at)
  note ok = modify_ok [OF assms(1) p, where f = f]
  show "fm_inv H (rg_byTMSI (upd_session p f reg))" "mSize (rg_byTMSI (upd_session p f reg)) = mSize (rg_byTMSI reg)"
    using ok by (simp_all add: upd_session_def)
  show "reg_heap (upd_session p f reg) = (reg_heap reg)(p \<mapsto> (t, f s))"
  proof
    fix q
    show "reg_heap (upd_session p f reg) q = ((reg_heap reg)(p \<mapsto> (t, f s))) q"
      using assms(2) p fun_cong [OF ok(3), of q] ok(4) ok(5) [where j = q] ok(7) by (cases "q = p") (auto simp: reg_heap_def session_at_def upd_session_def)
  qed
qed

lemma heap_insert:
  assumes "fm_live m' = insert idx (fm_live m)" "idx \<notin> fm_live m" "fm_key m' idx = k" "en_value (mEntryAt m' idx) = Some s"
    "entries_kept m m' {}" "rg_byTMSI reg = m" "rg_byTMSI reg' = m'"
  shows "reg_heap reg' = (reg_heap reg)(idx \<mapsto> (k, s))"
proof
  fix q
  consider "q = idx" | "q \<in> fm_live m" "q \<noteq> idx" | "q \<notin> fm_live m'" using assms(1) by blast
  then show "reg_heap reg' q = ((reg_heap reg)(idx \<mapsto> (k, s))) q"
  proof cases
    case 2
    then have "q \<in> fm_live m'" "fm_key m' q = fm_key m q" "en_value (mEntryAt m' q) = en_value (mEntryAt m q)"
      using assms(5) by (auto simp: entries_kept_def)
    then show ?thesis using 2 assms(6,7) by (simp add: reg_heap_def session_at_def live_at)
  next
    case 3
    then have "reg_heap reg' q = None" "reg_heap reg q = None" "q \<noteq> idx" using assms(1,6,7) heap_dom [of reg'] heap_dom [of reg] by auto
    then show ?thesis by simp
  qed (use assms in \<open>auto simp: heap_Some\<close>)
qed

lemma heap_delete:
  assumes "fm_live m' = fm_live m - {idx}" "entries_kept m m' {idx}" "rg_byTMSI reg = m" "rg_byTMSI reg' = m'"
  shows "reg_heap reg' = (reg_heap reg)(idx := None)"
proof
  fix q
  consider "q = idx" | "q \<in> fm_live m" "q \<noteq> idx" | "q \<notin> fm_live m" by blast
  then show "reg_heap reg' q = ((reg_heap reg)(idx := None)) q"
  proof cases
    case 2
    then have "q \<in> fm_live m'" "fm_key m' q = fm_key m q" "en_value (mEntryAt m' q) = en_value (mEntryAt m q)"
      using assms(2) by (auto simp: entries_kept_def)
    then show ?thesis using 2 assms(3,4) by (simp add: reg_heap_def session_at_def live_at)
  next
    case 1
    then show ?thesis using heap_dom [of reg'] assms(1,4) by auto
  next
    case 3
    then have "reg_heap reg' q = None" "reg_heap reg q = None" using assms(1,3,4) heap_dom [of reg'] heap_dom [of reg] by auto
    then show ?thesis by simp
  qed
qed

end
