(* ===== verification/Registry_Invariant.thy ===== *)
theory Registry_Invariant
  imports Subscriber_Registry
begin

text \<open>
  The invariant of the subscriber registry and its preservation by the operations that create, change, assign, release,
  remove and clear: the count is that of the sessions, every session is kept under its own identity, the link index leads to
  living sessions with that link, and the two activity sets are exactly the sessions with a running timer and with an active procedure.
\<close>

section \<open>The invariant\<close>

definition session_ok :: "u32 \<Rightarrow> SubscriberSession \<Rightarrow> bool" where
  "session_ok t s \<longleftrightarrow> t \<noteq> 0 \<and> su_assignedTmsi s = t \<and> timers_ok (su_timers s) \<and> runner_ok (su_procedures s) \<and> txm_inv (su_transactions s)"

definition links_ok :: "(u32, session_ptr) FlatMap \<Rightarrow> (session_ptr \<rightharpoonup> u32 \<times> SubscriberSession) \<Rightarrow> bool" where
  "links_ok links heap \<longleftrightarrow>
     (\<forall>k p. fm_map links k = Some p \<longrightarrow> (\<exists>t s. heap p = Some (t, s) \<and> su_channel s \<noteq> None \<and> session_linkKey s = k))"

definition reg_inv :: "(u32 \<Rightarrow> u64) \<Rightarrow> SubscriberRegistry \<Rightarrow> bool" where
  "reg_inv H reg \<longleftrightarrow>
     fm_inv H (rg_byTMSI reg) \<and> fm_inv H (rg_byLink reg) \<and> rg_count reg = card (dom (reg_heap reg)) \<and>
     (\<forall>p t s. reg_heap reg p = Some (t, s) \<longrightarrow> session_ok t s) \<and>
     rg_activeTimers reg = {p. \<exists>t s. reg_heap reg p = Some (t, s) \<and> 0 < runningCount (su_timers s)} \<and>
     rg_activeProcedures reg = {p. \<exists>t s. reg_heap reg p = Some (t, s) \<and> 0 < activeCount (su_procedures s)} \<and>
     links_ok (rg_byLink reg) (reg_heap reg)"

lemma reg_invD:
  assumes "reg_inv H reg"
  shows "fm_inv H (rg_byTMSI reg)" "fm_inv H (rg_byLink reg)" "rg_count reg = card (dom (reg_heap reg))"
    "\<And>p t s. reg_heap reg p = Some (t, s) \<Longrightarrow> session_ok t s"
    "\<And>p t s. reg_heap reg p = Some (t, s) \<Longrightarrow> p \<in> rg_activeTimers reg \<longleftrightarrow> 0 < runningCount (su_timers s)"
    "\<And>p t s. reg_heap reg p = Some (t, s) \<Longrightarrow> p \<in> rg_activeProcedures reg \<longleftrightarrow> 0 < activeCount (su_procedures s)"
    "\<And>p. p \<in> rg_activeTimers reg \<or> p \<in> rg_activeProcedures reg \<Longrightarrow> p \<in> dom (reg_heap reg)"
    "links_ok (rg_byLink reg) (reg_heap reg)"
  using assms by (auto simp: reg_inv_def)

text \<open>Changing, adding and removing one session.\<close>

lemma reg_inv_step:
  assumes inv: "reg_inv H reg" and at: "reg_heap reg p = Some (t, s)" and ok: "session_ok t s'"
    and "reg_heap reg' = (reg_heap reg)(p \<mapsto> (t, s'))" "fm_inv H (rg_byTMSI reg')" "rg_count reg' = rg_count reg"
    and "rg_activeTimers reg' = note_step p (0 < runningCount (su_timers s')) (rg_activeTimers reg)"
    and "rg_activeProcedures reg' = note_step p (0 < activeCount (su_procedures s')) (rg_activeProcedures reg)"
    and "fm_inv H (rg_byLink reg')" "links_ok (rg_byLink reg') (reg_heap reg')"
  shows "reg_inv H reg'"
proof -
  have "dom ((reg_heap reg)(p \<mapsto> (t, s'))) = dom (reg_heap reg)" using at by auto
  then show ?thesis unfolding reg_inv_def assms(4) using assms(3,5-9) assms(10) [unfolded assms(4)] inv at
    by (auto simp: reg_inv_def note_step_def split: if_splits)
qed

lemma links_ok_upd:
  assumes "links_ok links heap" "heap p = Some (t, s)" "su_channel s' = su_channel s" "session_linkKey s' = session_linkKey s"
  shows "links_ok links (heap(p \<mapsto> (t, s')))"
  using assms by (fastforce simp: links_ok_def)

lemma fold_timer_notes: "fold (handleTimerActive p) ns reg = reg\<lparr>rg_activeTimers := fold (note_step p) ns (rg_activeTimers reg)\<rparr>"
  by (induction ns arbitrary: reg) (simp_all add: handleTimerActive_def note_step_def)

lemma fold_procedure_notes:
  "fold (handleProcedureActive p) ns reg = reg\<lparr>rg_activeProcedures := fold (note_step p) ns (rg_activeProcedures reg)\<rparr>"
  by (induction ns arbitrary: reg) (simp_all add: handleProcedureActive_def note_step_def)

lemma heap_cong: "rg_byTMSI reg' = rg_byTMSI reg \<Longrightarrow> reg_heap reg' = reg_heap reg"
  by (simp add: reg_heap_def session_at_def fun_eq_iff)

lemma upd_fields [simp]:
  "rg_byIMSI (upd_session p f reg) = rg_byIMSI reg" "rg_byLink (upd_session p f reg) = rg_byLink reg"
  "rg_nextAutoTmsi (upd_session p f reg) = rg_nextAutoTmsi reg" "rg_count (upd_session p f reg) = rg_count reg"
  "rg_activeTimers (upd_session p f reg) = rg_activeTimers reg" "rg_activeProcedures (upd_session p f reg) = rg_activeProcedures reg"
  by (simp_all add: upd_session_def)

text \<open>A change of the session that concerns neither activity nor link.\<close>

lemma upd_session_inv:
  assumes inv: "reg_inv H reg" and at: "reg_heap reg p = Some (t, s)" and ok: "session_ok t (f s)"
    and same: "su_timers (f s) = su_timers s" "su_procedures (f s) = su_procedures s" "su_channel (f s) = su_channel s"
      "session_linkKey (f s) = session_linkKey s"
  shows "reg_inv H (upd_session p f reg)" "reg_heap (upd_session p f reg) = (reg_heap reg)(p \<mapsto> (t, f s))"
proof -
  note D = reg_invD [OF inv]
  note U = heap_upd [OF D(1) at, of f]
  show "reg_heap (upd_session p f reg) = (reg_heap reg)(p \<mapsto> (t, f s))" by (rule U(1))
  show "reg_inv H (upd_session p f reg)"
    by (rule reg_inv_step [OF inv at ok U(1,2)])
      (use D(2) D(5,6) [OF at] links_ok_upd [OF D(8) at same(3,4)] in \<open>auto simp: U(1) same note_step_def\<close>)
qed

lemma drive_timers_inv:
  assumes inv: "reg_inv H reg" and at: "reg_heap reg p = Some (t, s)" and g: "notes_grow timers_ok tmNotes g"
  shows "reg_inv H (drive_timers p g reg)"
    "reg_heap (drive_timers p g reg) = (reg_heap reg)(p \<mapsto> (t, s\<lparr>su_timers := g (su_timers s)\<rparr>))"
    "rg_activeProcedures (drive_timers p g reg) = rg_activeProcedures reg"
proof -
  note D = reg_invD [OF inv]
  let ?s = "s\<lparr>su_timers := g (su_timers s)\<rparr>" and ?reg = "drive_timers p g reg"
  have s: "session_ok t s" by (rule D(4) [OF at])
  define u where "u = upd_session p (\<lambda>s'. s'\<lparr>su_timers := g (su_timers s)\<rparr>) reg"
  note U = heap_upd [OF D(1) at, of "\<lambda>s'. s'\<lparr>su_timers := g (su_timers s)\<rparr>", folded u_def]
  have set: "fold (note_step p) (drop (length (tmNotes (su_timers s))) (tmNotes (g (su_timers s)))) (rg_activeTimers reg) =
      note_step p (0 < runningCount (g (su_timers s))) (rg_activeTimers reg)"
    by (rule tobs.set_follows [OF _ g]) (use s D(5) [OF at] in \<open>simp_all add: session_ok_def\<close>)
  have eq: "?reg = u\<lparr>rg_activeTimers := note_step p (0 < runningCount (g (su_timers s))) (rg_activeTimers reg)\<rparr>"
    using at set by (simp add: drive_timers_def session_at_heap Let_def fold_timer_notes u_def)
  have ok: "session_ok t ?s" using s g by (auto simp: session_ok_def notes_grow_def)
  have heap: "reg_heap ?reg = (reg_heap reg)(p \<mapsto> (t, ?s))" using U(1) heap_cong [of ?reg u] eq by simp
  then show "reg_heap ?reg = (reg_heap reg)(p \<mapsto> (t, ?s))" .
  show "rg_activeProcedures ?reg = rg_activeProcedures reg" by (simp add: eq u_def)
  show "reg_inv H ?reg"
  proof (rule reg_inv_step [OF inv at ok heap])
    show "links_ok (rg_byLink ?reg) (reg_heap ?reg)"
      unfolding heap by (simp add: eq u_def) (rule links_ok_upd [OF D(8) at], simp_all add: session_linkKey_def)
  qed (use D(2) D(6) [OF at] U(2) in \<open>auto simp: eq u_def note_step_def\<close>)
qed

lemma drive_procedures_inv:
  assumes inv: "reg_inv H reg" and at: "reg_heap reg p = Some (t, s)" and g: "notes_grow runner_ok rnNotes g"
  shows "reg_inv H (drive_procedures p g reg)"
    "reg_heap (drive_procedures p g reg) = (reg_heap reg)(p \<mapsto> (t, s\<lparr>su_procedures := g (su_procedures s)\<rparr>))"
proof -
  note D = reg_invD [OF inv]
  let ?s = "s\<lparr>su_procedures := g (su_procedures s)\<rparr>" and ?reg = "drive_procedures p g reg"
  have s: "session_ok t s" by (rule D(4) [OF at])
  define u where "u = upd_session p (\<lambda>s'. s'\<lparr>su_procedures := g (su_procedures s)\<rparr>) reg"
  note U = heap_upd [OF D(1) at, of "\<lambda>s'. s'\<lparr>su_procedures := g (su_procedures s)\<rparr>", folded u_def]
  have set: "fold (note_step p) (drop (length (rnNotes (su_procedures s))) (rnNotes (g (su_procedures s)))) (rg_activeProcedures reg) =
      note_step p (0 < activeCount (g (su_procedures s))) (rg_activeProcedures reg)"
    by (rule robs.set_follows [OF _ g]) (use s D(6) [OF at] in \<open>simp_all add: session_ok_def\<close>)
  have eq: "?reg = u\<lparr>rg_activeProcedures := note_step p (0 < activeCount (g (su_procedures s))) (rg_activeProcedures reg)\<rparr>"
    using at set by (simp add: drive_procedures_def session_at_heap Let_def fold_procedure_notes u_def)
  have ok: "session_ok t ?s" using s g by (auto simp: session_ok_def notes_grow_def)
  have heap: "reg_heap ?reg = (reg_heap reg)(p \<mapsto> (t, ?s))" using U(1) heap_cong [of ?reg u] eq by simp
  then show "reg_heap ?reg = (reg_heap reg)(p \<mapsto> (t, ?s))" .
  show "reg_inv H ?reg"
  proof (rule reg_inv_step [OF inv at ok heap])
    show "links_ok (rg_byLink ?reg) (reg_heap ?reg)"
      unfolding heap by (simp add: eq u_def) (rule links_ok_upd [OF D(8) at], simp_all add: session_linkKey_def)
  qed (use D(2) D(5) [OF at] U(2) in \<open>auto simp: eq u_def note_step_def\<close>)
qed

lemma reg_inv_add:
  assumes inv: "reg_inv H reg" and "reg_heap reg p = None" "session_ok t s" "runningCount (su_timers s) = 0" "activeCount (su_procedures s) = 0"
    and "reg_heap reg' = (reg_heap reg)(p \<mapsto> (t, s))" "fm_inv H (rg_byTMSI reg')" "rg_count reg' = rg_count reg + 1"
    and "rg_activeTimers reg' = rg_activeTimers reg" "rg_activeProcedures reg' = rg_activeProcedures reg" "rg_byLink reg' = rg_byLink reg"
  shows "reg_inv H reg'"
proof -
  have "finite (dom (reg_heap reg))" by (simp add: heap_dom)
  then have "card (dom (reg_heap reg')) = card (dom (reg_heap reg)) + 1" using assms(2,6) by (simp add: domIff)
  moreover have "links_ok (rg_byLink reg) (reg_heap reg')" using reg_invD(8) [OF inv] assms(2,6) by (fastforce simp: links_ok_def)
  ultimately show ?thesis using inv assms by (auto simp: reg_inv_def split: if_splits)
qed

lemma reg_inv_del:
  assumes inv: "reg_inv H reg" and at: "reg_heap reg p = Some (t, s)"
    and "reg_heap reg' = (reg_heap reg)(p := None)" "fm_inv H (rg_byTMSI reg')" "rg_count reg' = rg_count reg - 1"
    and "rg_activeTimers reg' = rg_activeTimers reg - {p}" "rg_activeProcedures reg' = rg_activeProcedures reg - {p}"
    and "rg_byLink reg' = rg_byLink reg" "su_channel s = None"
  shows "reg_inv H reg'"
proof -
  have "finite (dom (reg_heap reg))" by (simp add: heap_dom)
  moreover have "p \<in> dom (reg_heap reg)" using at by auto
  ultimately have "card (dom (reg_heap reg')) = card (dom (reg_heap reg)) - 1" using assms(3) by (simp add: card_Diff_singleton)
  moreover have "links_ok (rg_byLink reg) (reg_heap reg')"
    using reg_invD(8) [OF inv] at assms(3,9) by (fastforce simp: links_ok_def)
  ultimately show ?thesis using inv assms(3-8) by (auto simp: reg_inv_def split: if_splits)
qed

text \<open>What an insertion that returns has done.\<close>

lemma emplace_cases:
  assumes inv: "fm_inv H m" and count: "mEntryCount m < 2 ^ 31" and ret: "fm_emplace H k0 key v m = Some ((idx, ins), m')"
  shows "if ins then key \<notin> dom (fm_map m) \<and> fm_inv H m' \<and> fm_live m' = insert idx (fm_live m) \<and> idx \<notin> fm_live m \<and> fm_key m' idx = key \<and>
      en_value (mEntryAt m' idx) = Some v \<and> entries_kept m m' {} else m' = m \<and> key \<in> dom (fm_map m)"
proof (cases "key \<in> dom (fm_map m)")
  case True
  then obtain j where "j \<in> fm_live m" "fm_key m j = key" using live_cases [OF fm_invD(2) [OF inv]] by blast
  then show ?thesis using emplace_present [OF inv, of j k0 v] ret True by auto
next
  case False
  then have "has_room m" using emplace_diverges [OF inv False] ret by (metis option.distinct(1))
  then show ?thesis using emplace_new [OF inv count False, of k0 v] ret False by (metis Pair_inject option.inject)
qed

lemma fresh_session_ok:
  assumes "t \<noteq> 0"
  shows "session_ok t (adopt t (session0\<lparr>su_context := c\<rparr>))" "runningCount (su_timers (adopt t (session0\<lparr>su_context := c\<rparr>))) = 0"
    "activeCount (su_procedures (adopt t (session0\<lparr>su_context := c\<rparr>))) = 0"
proof -
  have slot: "\<not> slot_running (timers0\<lparr>tmObserved := True\<rparr>) i" if "i < MAX_TIMERS" for i
    using that by (simp add: slot_running_def timers0_def)
  have t: "runningCount (timers0\<lparr>tmObserved := True\<rparr>) = 0" by (simp add: runningCount_zero slot)
  have "tm_inv (timers0\<lparr>tmObserved := True\<rparr>)" using timers0_inv by (simp add: tm_inv_def)
  then have tok: "timers_ok (timers0\<lparr>tmObserved := True\<rparr>)" using t by (simp add: timers_ok_def notes_ok_def) (simp add: timers0_def)
  have r: "activeCount (runner0\<lparr>rnObserved := True\<rparr>) = 0"
    by (simp add: activeCount_def runner0_def empty_slot_def filter_empty_conv)
  have rok: "runner_ok (runner0\<lparr>rnObserved := True\<rparr>)"
    using r by (simp add: runner_ok_def runner_inv_def rn_notes_ok_def) (simp add: runner0_def slot_ok_def empty_slot_def)
  have fields: "su_timers (adopt t (session0\<lparr>su_context := c\<rparr>)) = timers0\<lparr>tmObserved := True\<rparr>"
    "su_procedures (adopt t (session0\<lparr>su_context := c\<rparr>)) = runner0\<lparr>rnObserved := True\<rparr>"
    "su_assignedTmsi (adopt t (session0\<lparr>su_context := c\<rparr>)) = t" "su_transactions (adopt t (session0\<lparr>su_context := c\<rparr>)) = transactions0"
    by (simp_all add: adopt_def session0_def)
  show "session_ok t (adopt t (session0\<lparr>su_context := c\<rparr>))" using assms tok rok by (simp add: session_ok_def fields transactions0_inv)
  show "runningCount (su_timers (adopt t (session0\<lparr>su_context := c\<rparr>))) = 0" "activeCount (su_procedures (adopt t (session0\<lparr>su_context := c\<rparr>))) = 0"
    using t r by (simp_all add: fields)
qed

text \<open>A new entry that becomes a session: the two ways to create one differ in the context only.\<close>

lemma adopt_new:
  assumes inv: "reg_inv H reg" and count: "mEntryCount (rg_byTMSI reg) < 2 ^ 31" and t: "t \<noteq> 0"
    and new: "fm_emplace H 0 t session0 (rg_byTMSI reg) = Some ((idx, True), m)"
    and reg': "rg_byTMSI reg' = fm_modify idx (\<lambda>s. adopt t (s\<lparr>su_context := f (su_context s)\<rparr>)) m" "rg_count reg' = rg_count reg + 1"
      "rg_activeTimers reg' = rg_activeTimers reg" "rg_activeProcedures reg' = rg_activeProcedures reg" "rg_byLink reg' = rg_byLink reg"
  shows "reg_inv H reg'" "reg_heap reg idx = None"
    "reg_heap reg' = (reg_heap reg)(idx \<mapsto> (t, adopt t (session0\<lparr>su_context := f context0\<rparr>)))"
    "\<And>p s. reg_heap reg p \<noteq> Some (t, s)"
proof -
  note D = reg_invD [OF inv]
  have e: "t \<notin> dom (fm_map (rg_byTMSI reg))" "fm_inv H m" "fm_live m = insert idx (fm_live (rg_byTMSI reg))" "idx \<notin> fm_live (rg_byTMSI reg)"
    "fm_key m idx = t" "en_value (mEntryAt m idx) = Some session0" "entries_kept (rg_byTMSI reg) m {}"
    using emplace_cases [OF D(1) count new] by auto
  define mid where "mid = reg\<lparr>rg_byTMSI := m\<rparr>"
  have hmid: "reg_heap mid = (reg_heap reg)(idx \<mapsto> (t, session0))"
    by (rule heap_insert [OF e(3-7)]) (simp_all add: mid_def)
  have inv_mid: "fm_inv H (rg_byTMSI mid)" using e(2) by (simp add: mid_def)
  have at: "reg_heap mid idx = Some (t, session0)" by (simp add: hmid)
  have s0: "su_context session0 = context0" by (simp add: session0_def)
  have "reg_heap reg' = reg_heap (upd_session idx (\<lambda>s. adopt t (s\<lparr>su_context := f (su_context s)\<rparr>)) mid)"
    by (rule heap_cong) (simp add: reg'(1) upd_session_def mid_def)
  then show heap: "reg_heap reg' = (reg_heap reg)(idx \<mapsto> (t, adopt t (session0\<lparr>su_context := f context0\<rparr>)))"
    using heap_upd(1) [OF inv_mid at] by (simp add: hmid s0)
  have finv: "fm_inv H (rg_byTMSI reg')" using heap_upd(2) [OF inv_mid at] by (simp add: upd_session_def mid_def reg'(1))
  show none: "reg_heap reg idx = None" using e(4) heap_dom [of reg] by auto
  show "reg_heap reg p \<noteq> Some (t, s)" for p s
    using e(1) live_cases [OF fm_invD(2) [OF D(1)], of t] by (auto simp: heap_Some)
  show "reg_inv H reg'"
    using reg_inv_add [OF inv none fresh_session_ok [OF t] heap finv] reg' by simp
qed

definition created :: "u32 \<Rightarrow> MSContext \<Rightarrow> session_ptr \<Rightarrow> SubscriberRegistry \<Rightarrow> SubscriberRegistry \<Rightarrow> bool" where
  "created t c p reg reg' \<longleftrightarrow> t \<noteq> 0 \<and> reg_heap reg p = None \<and> (\<forall>q s. reg_heap reg q \<noteq> Some (t, s)) \<and>
     reg_heap reg' = (reg_heap reg)(p \<mapsto> (t, adopt t (session0\<lparr>su_context := c\<rparr>)))"

lemma createByTMSI_inv:
  assumes inv: "reg_inv H reg" and count: "mEntryCount (rg_byTMSI reg) < 2 ^ 31" and ret: "createByTMSI H t reg = Some (r, reg')"
  shows "reg_inv H reg' \<and> rg_byIMSI reg' = rg_byIMSI reg \<and> (case r of
      None \<Rightarrow> reg' = reg \<and> (t = 0 \<or> (\<exists>p s. reg_heap reg p = Some (t, s))) | Some p \<Rightarrow> created t (setTMSI t context0) p reg reg')"
proof (cases "t = 0")
  case True
  then show ?thesis using ret inv by (simp add: createByTMSI_def)
next
  case False
  then obtain idx ins m where e: "fm_emplace H 0 t session0 (rg_byTMSI reg) = Some ((idx, ins), m)"
    using ret by (auto simp: createByTMSI_def split: option.splits)
  show ?thesis
  proof (cases ins)
    case True
    have reg': "r = Some idx" "reg' = (upd_session idx (\<lambda>s. adopt t (s\<lparr>su_context := setTMSI t (su_context s)\<rparr>)) (reg\<lparr>rg_byTMSI := m\<rparr>))\<lparr>rg_count := rg_count reg + 1\<rparr>"
      using ret False e True by (auto simp: createByTMSI_def Let_def)
    have e': "fm_emplace H 0 t session0 (rg_byTMSI reg) = Some ((idx, True), m)" using e True by simp
    have "reg_inv H reg' \<and> created t (setTMSI t context0) idx reg reg'"
      using adopt_new [OF inv count False e', of reg' "setTMSI t"] False by (simp add: created_def reg' upd_session_def)
    then show ?thesis by (simp add: reg')
  next
    case ins: False
    then have "m = rg_byTMSI reg" "t \<in> dom (fm_map (rg_byTMSI reg))" using emplace_cases [OF reg_invD(1) [OF inv] count e] by auto
    moreover have "\<exists>p s. reg_heap reg p = Some (t, s)"
      using calculation(2) live_cases [OF fm_invD(2) [OF reg_invD(1) [OF inv]], of t] by (auto simp: heap_Some fm_live_def)
    ultimately show ?thesis using ret False e ins inv by (simp add: createByTMSI_def Let_def)
  qed
qed

text \<open>The search for a free identity looks at enough candidates: with one session less than there are candidates, one is free.\<close>

lemma auto_tmsi_free:
  assumes "fm_inv H m" "auto_tmsi H m t n a = Some (Some r, n')"
  shows "r \<noteq> 0 \<and> fm_find H r m = Some None"
  using assms
proof (induction H m t n a rule: auto_tmsi.induct)
  case (1 H m t n a)
  note eq = 1(3) [unfolded auto_tmsi.simps [of H m t n a]]
  consider "t = 0" | "t \<noteq> 0" "fm_find H t m = Some None" | j where "t \<noteq> 0" "fm_find H t m = Some (Some j)" | "t \<noteq> 0" "fm_find H t m = None"
    by (metis not_Some_eq)
  then show ?case
  proof cases
    case 2
    then show ?thesis using eq by simp
  next
    case 4
    then show ?thesis using eq by simp
  qed (use eq 1(1) [OF _ refl _ 1(2)] in \<open>simp split: if_splits\<close>)+
qed

lemma createByIMSI_inv:
  assumes inv: "reg_inv H reg" and count: "mEntryCount (rg_byTMSI reg) < 2 ^ 31" and ret: "createByIMSI H imsi reg = Some (r, reg')"
  shows "reg_inv H reg' \<and> (case r of
      None \<Rightarrow> reg_heap reg' = reg_heap reg \<and> rg_byIMSI reg' = rg_byIMSI reg
    | Some p \<Rightarrow> \<exists>t. created t (setIMSI imsi context0) p reg reg' \<and> rg_byIMSI reg imsi = None \<and> rg_byIMSI reg' = (rg_byIMSI reg)(imsi \<mapsto> t))"
proof (cases "rg_byIMSI reg imsi")
  case (Some t)
  then show ?thesis using ret inv by (simp add: createByIMSI_def)
next
  case None
  then obtain c n where a: "auto_tmsi H (rg_byTMSI reg) (rg_nextAutoTmsi reg) (rg_nextAutoTmsi reg + 1) 0 = Some (c, n)"
    using ret by (auto simp: createByIMSI_def split: option.splits)
  have next_inv: "reg_inv H (reg\<lparr>rg_nextAutoTmsi := n\<rparr>)" "reg_heap (reg\<lparr>rg_nextAutoTmsi := n\<rparr>) = reg_heap reg"
    using inv heap_cong [of "reg\<lparr>rg_nextAutoTmsi := n\<rparr>" reg] by (simp_all add: reg_inv_def)
  show ?thesis
  proof (cases c)
    case None
    then show ?thesis using ret a \<open>rg_byIMSI reg imsi = None\<close> next_inv by (auto simp: createByIMSI_def)
  next
    case (Some t)
    note D = reg_invD [OF inv]
    have t: "t \<noteq> 0" "fm_find H t (rg_byTMSI reg) = Some None" using auto_tmsi_free [OF D(1)] a Some by auto
    obtain idx ins m where e: "fm_emplace H 0 t session0 (rg_byTMSI reg) = Some ((idx, ins), m)"
      using ret a Some None by (auto simp: createByIMSI_def split: option.splits)
    have "t \<notin> dom (fm_map (rg_byTMSI reg))"
      using find_iff [OF D(1) t(2)] live_cases [OF fm_invD(2) [OF D(1)], of t] by auto
    then have ins: "ins" using emplace_cases [OF D(1) count e] by auto
    have reg': "r = Some idx" "reg' = (upd_session idx (\<lambda>s. adopt t (s\<lparr>su_context := setIMSI imsi (su_context s)\<rparr>)) (reg\<lparr>rg_byTMSI := m, rg_nextAutoTmsi := n\<rparr>))
        \<lparr>rg_byIMSI := (rg_byIMSI reg)(imsi \<mapsto> t), rg_count := rg_count reg + 1\<rparr>"
      using ret a Some None e ins by (auto simp: createByIMSI_def Let_def)
    have e': "fm_emplace H 0 t session0 (rg_byTMSI reg) = Some ((idx, True), m)" using e ins by simp
    have "reg_inv H reg' \<and> created t (setIMSI imsi context0) idx reg reg'"
      using adopt_new [OF inv count t(1) e', of reg' "setIMSI imsi"] t(1) by (simp add: created_def reg' upd_session_def)
    then show ?thesis using None by (auto simp: reg')
  qed
qed

subsection \<open>Channels and removal\<close>

lemma rehash_from_count: "rehash_from H idxs m slots = Some (slots', m') \<Longrightarrow> mEntryCount m' = mEntryCount m"
proof (induction idxs arbitrary: m slots)
  case (Cons idx idxs)
  then show ?case by (fastforce split: if_splits option.splits)
qed simp

lemma erase_count: "fm_erase H k0 idx m = Some (b, m') \<Longrightarrow> mEntryCount m' = mEntryCount m"
  by (auto simp: fm_erase_def rehash_def Let_def dest!: rehash_from_count split: if_splits option.splits)

lemma erase_link_ok:
  assumes inv: "fm_inv H links" and ret: "erase_link H s links = Some links'"
  shows "fm_inv H links' \<and> mEntryCount links' = mEntryCount links \<and>
    fm_map links' = (if su_channel s = None then fm_map links else (fm_map links)(session_linkKey s := None))"
proof (cases "su_channel s = None")
  case True
  then show ?thesis using inv ret by (simp add: erase_link_def)
next
  case False
  let ?k = "session_linkKey s"
  obtain r where r: "fm_find H ?k links = Some r" using ret False by (auto simp: erase_link_def split: option.splits)
  show ?thesis
  proof (cases r)
    case None
    then have "?k \<notin> dom (fm_map links)" using find_iff [OF inv r] live_cases [OF fm_invD(2) [OF inv], of ?k] by auto
    then show ?thesis using False None r ret inv by (auto simp: erase_link_def fun_upd_idem domIff)
  next
    case (Some idx)
    then have idx: "idx \<in> fm_live links" "fm_key links idx = ?k" using find_iff [OF inv r] by auto
    obtain m' where m': "fm_erase H 0 idx links = Some (True, m')" "fm_inv H m'" "fm_live m' = fm_live links - {idx}" "entries_kept links m' {idx}"
      using erase_live [OF inv idx(1)] by metis
    have "links' = m'" using ret False r Some m'(1) by (simp add: erase_link_def)
    then show ?thesis using False m'(2) erase_count [OF m'(1)] erase_map [OF inv m'(2,3) idx(1) m'(4)] idx(2) by auto
  qed
qed

lemma set_link_ok:
  assumes inv: "fm_inv H links" and count: "mEntryCount links < 2 ^ 31" and ret: "set_link H k p links = Some links'"
  shows "fm_inv H links' \<and> fm_map links' = (fm_map links)(k \<mapsto> p)"
proof -
  obtain r where r: "fm_find H k links = Some r" using ret by (auto simp: set_link_def split: option.splits)
  show ?thesis
  proof (cases r)
    case None
    obtain idx ins where e: "fm_emplace H 0 k p links = Some ((idx, ins), links')" using ret r None by (auto simp: set_link_def)
    have "k \<notin> dom (fm_map links)" using None find_iff [OF inv r] live_cases [OF fm_invD(2) [OF inv], of k] by auto
    then have "fm_inv H links'" "fm_live links' = insert idx (fm_live links)" "idx \<notin> fm_live links" "fm_key links' idx = k"
        "en_value (mEntryAt links' idx) = Some p" "entries_kept links links' {}"
      using emplace_cases [OF inv count e] by (auto split: if_splits)
    then show ?thesis using emplace_map [OF inv] by blast
  next
    case (Some idx)
    then have idx: "idx \<in> fm_live links" "fm_key links idx = k" using find_iff [OF inv r] by auto
    then have lt: "idx < mEntryCount links" by (simp add: live_at)
    note M = modify_ok [OF inv lt, where f = "\<lambda>_. p"]
    have l: "links' = fm_modify idx (\<lambda>_. p) links" using ret r Some by (simp add: set_link_def)
    have "fm_map links' = (fm_map links)(k \<mapsto> p)"
    proof (rule fm_map_eqI [OF fm_invD(2) [OF inv]])
      show "inj_on (fm_key links') (fm_live links')" using fm_invD(2) [OF M(1)] by (simp add: l)
      fix k' v
      have v: "en_value (mEntryAt links' j) = (if j = idx then Some p else en_value (mEntryAt links j))" if "j \<in> fm_live links" for j
        using that idx(1) M(4) M(5) [where j = j] by (auto simp: l live_at)
      have "(\<exists>j\<in>fm_live links'. fm_key links' j = k' \<and> en_value (mEntryAt links' j) = Some v) \<longleftrightarrow>
          (\<exists>j\<in>fm_live links. fm_key links j = k' \<and> (if j = idx then Some p else en_value (mEntryAt links j)) = Some v)"
        using v M(2) fun_cong [OF M(3)] by (auto simp: l)
      also have "\<dots> \<longleftrightarrow> ((fm_map links)(k \<mapsto> p)) k' = Some v"
      proof (cases "k' = k")
        case True
        have only: "j = idx" if "j \<in> fm_live links" "fm_key links j = k" for j
          using inj_onD [OF fm_invD(2) [OF inv], of j idx] that idx by simp
        have "(\<exists>j\<in>fm_live links. fm_key links j = k \<and> (if j = idx then Some p else en_value (mEntryAt links j)) = Some v) \<longleftrightarrow> Some p = Some v"
          using only idx by metis
        then show ?thesis unfolding True fun_upd_same .
      next
        case False
        then have "(\<exists>j\<in>fm_live links. fm_key links j = k' \<and> (if j = idx then Some p else en_value (mEntryAt links j)) = Some v) \<longleftrightarrow>
            (\<exists>j\<in>fm_live links. fm_key links j = k' \<and> en_value (mEntryAt links j) = Some v)"
          using idx(2) by (intro bex_cong refl) auto
        then show ?thesis unfolding fm_map_Some [OF fm_invD(2) [OF inv], symmetric] using False by simp
      qed
      finally show "(\<exists>j\<in>fm_live links'. fm_key links' j = k' \<and> en_value (mEntryAt links' j) = Some v) \<longleftrightarrow> ((fm_map links)(k \<mapsto> p)) k' = Some v" .
    qed
    then show ?thesis using M(1) l by simp
  qed
qed

lemma reg_assign_inv:
  assumes inv: "reg_inv H reg" and count: "mEntryCount (rg_byLink reg) < 2 ^ 31" and ret: "reg_assignChannel H p desc l reg = Some reg'"
  shows "reg_inv H reg'" "fm_map (rg_byLink reg') (encodeLinkKey (cd_trxNumber desc) (cd_timeslot desc) l) = Some p"
    "\<exists>t s s'. reg_heap reg p = Some (t, s) \<and> reg_heap reg' = (reg_heap reg)(p \<mapsto> (t, s'))"
proof -
  note D = reg_invD [OF inv]
  let ?k = "encodeLinkKey (cd_trxNumber desc) (cd_timeslot desc) l"
  define f where "f s = s\<lparr>su_channel := Some desc, su_lapdmLink := l,
    su_context := ctx_assignChannel (cd_type desc) (cd_trxNumber desc) (cd_timeslot desc) (cd_arfcn desc) (su_context s)\<rparr>" for s :: SubscriberSession
  obtain s links links' where r: "session_at reg p = Some s" "erase_link H s (rg_byLink reg) = Some links" "set_link H ?k p links = Some links'"
      "reg' = (upd_session p f reg)\<lparr>rg_byLink := links'\<rparr>"
    using ret by (auto simp: reg_assignChannel_def f_def [abs_def] split: option.splits)
  obtain t where at: "reg_heap reg p = Some (t, s)" using r(1) by (auto simp: session_at_heap)
  have e: "fm_inv H links" "mEntryCount links < 2 ^ 31"
      "fm_map links = (if su_channel s = None then fm_map (rg_byLink reg) else (fm_map (rg_byLink reg))(session_linkKey s := None))"
    using erase_link_ok [OF D(2) r(2)] count by auto
  have l: "fm_inv H links'" "fm_map links' = (fm_map links)(?k \<mapsto> p)" using set_link_ok [OF e(1,2) r(3)] by auto
  note U = heap_upd [OF D(1) at, of f]
  have heap: "reg_heap reg' = (reg_heap reg)(p \<mapsto> (t, f s))" using U(1) heap_cong [of reg' "upd_session p f reg"] r(4) by simp
  have f: "su_channel (f s) \<noteq> None" "session_linkKey (f s) = ?k" "su_timers (f s) = su_timers s" "su_procedures (f s) = su_procedures s"
    by (simp_all add: f_def session_linkKey_def ctx_assignChannel_def)
  have "links_ok links' ((reg_heap reg)(p \<mapsto> (t, f s)))"
    unfolding links_ok_def
  proof (intro allI impI)
    fix k q
    assume k: "fm_map links' k = Some q"
    show "\<exists>t' s'. ((reg_heap reg)(p \<mapsto> (t, f s))) q = Some (t', s') \<and> su_channel s' \<noteq> None \<and> session_linkKey s' = k"
    proof (cases "k = ?k")
      case True
      then show ?thesis using k l(2) f by auto
    next
      case False
      then have old: "fm_map (rg_byLink reg) k = Some q" "su_channel s = None \<or> k \<noteq> session_linkKey s"
        using k l(2) e(3) by (auto split: if_splits)
      obtain t' s' where o: "reg_heap reg q = Some (t', s')" "su_channel s' \<noteq> None" "session_linkKey s' = k"
        using D(8) old(1) unfolding links_ok_def by blast
      then have "q \<noteq> p" using at old(2) by auto
      then show ?thesis using o by simp
    qed
  qed
  then show "reg_inv H reg'"
    using D(4-6) [OF at] U(2) l(1) f
    by (intro reg_inv_step [OF inv at _ heap]) (auto simp: r(4) heap [unfolded r(4)] session_ok_def f_def note_step_def)
  show "fm_map (rg_byLink reg') ?k = Some p" using l(2) r(4) by simp
  show "\<exists>t s s'. reg_heap reg p = Some (t, s) \<and> reg_heap reg' = (reg_heap reg)(p \<mapsto> (t, s'))" using at heap by blast
qed

lemma reg_release_inv:
  assumes inv: "reg_inv H reg" and ret: "reg_releaseChannel H p reg = Some reg'"
  shows "\<exists>t s. reg_heap reg p = Some (t, s) \<and> reg_inv H reg' \<and> rg_byIMSI reg' = rg_byIMSI reg \<and>
    reg_heap reg' = (reg_heap reg)(p \<mapsto> (t, s\<lparr>su_channel := None, su_context := ctx_releaseChannel (su_context s)\<rparr>))"
proof -
  note D = reg_invD [OF inv]
  define f where "f s = s\<lparr>su_channel := None, su_context := ctx_releaseChannel (su_context s)\<rparr>" for s :: SubscriberSession
  obtain s links where r: "session_at reg p = Some s" "erase_link H s (rg_byLink reg) = Some links" "reg' = (upd_session p f reg)\<lparr>rg_byLink := links\<rparr>"
    using ret by (auto simp: reg_releaseChannel_def f_def [abs_def] split: option.splits)
  obtain t where at: "reg_heap reg p = Some (t, s)" using r(1) by (auto simp: session_at_heap)
  have e: "fm_inv H links"
      "fm_map links = (if su_channel s = None then fm_map (rg_byLink reg) else (fm_map (rg_byLink reg))(session_linkKey s := None))"
    using erase_link_ok [OF D(2) r(2)] by auto
  note U = heap_upd [OF D(1) at, of f]
  have heap: "reg_heap reg' = (reg_heap reg)(p \<mapsto> (t, f s))" using U(1) heap_cong [of reg' "upd_session p f reg"] r(3) by simp
  have "links_ok links ((reg_heap reg)(p \<mapsto> (t, f s)))"
    unfolding links_ok_def
  proof (intro allI impI)
    fix k q
    assume "fm_map links k = Some q"
    then have old: "fm_map (rg_byLink reg) k = Some q" "su_channel s = None \<or> k \<noteq> session_linkKey s" using e(2) by (auto split: if_splits)
    obtain t' s' where o: "reg_heap reg q = Some (t', s')" "su_channel s' \<noteq> None" "session_linkKey s' = k"
      using D(8) old(1) unfolding links_ok_def by blast
    then have "q \<noteq> p" using at old(2) by auto
    then show "\<exists>t' s'. ((reg_heap reg)(p \<mapsto> (t, f s))) q = Some (t', s') \<and> su_channel s' \<noteq> None \<and> session_linkKey s' = k"
      using o by simp
  qed
  then have "reg_inv H reg'"
    using D(4-6) [OF at] U(2) e(1)
    by (intro reg_inv_step [OF inv at _ heap]) (auto simp: r(3) heap [unfolded r(3)] session_ok_def f_def note_step_def)
  then show ?thesis using at heap r(3) by (auto simp: f_def)
qed

lemma reg_remove_inv:
  assumes inv: "reg_inv H reg" and ret: "reg_remove H q reg = Some (b, reg')"
  shows "reg_inv H reg' \<and> (if b then \<exists>p t s. q = Some p \<and> reg_heap reg p = Some (t, s) \<and> reg_heap reg' = (reg_heap reg)(p := None) \<and>
      rg_byIMSI reg' = (if mi_isIMSI (mIdentity (su_context s)) then (rg_byIMSI reg)(mi_digits (mIdentity (su_context s)) := None) else rg_byIMSI reg)
    else reg' = reg)"
proof (cases "q = None")
  case True
  then show ?thesis using ret inv by (simp add: reg_remove_def)
next
  case False
  then obtain p s r where p: "q = Some p" "session_at reg p = Some s" "fm_find H (su_assignedTmsi s) (rg_byTMSI reg) = Some r"
    using ret by (auto simp: reg_remove_def remove_session_def split: option.splits)
  show ?thesis
  proof (cases "r = Some p")
    case False
    then show ?thesis using ret p inv by (simp add: reg_remove_def remove_session_def)
  next
    case True
    note D = reg_invD [OF inv]
    obtain t where at: "reg_heap reg p = Some (t, s)" using p(2) by (auto simp: session_at_heap)
    obtain reg1 where r1: "reg_releaseChannel H p reg = Some reg1"
      using ret p True by (auto simp: reg_remove_def remove_session_def split: option.splits)
    define s1 where "s1 = s\<lparr>su_channel := None, su_context := ctx_releaseChannel (su_context s)\<rparr>"
    have R: "reg_inv H reg1" "rg_byIMSI reg1 = rg_byIMSI reg" "reg_heap reg1 = (reg_heap reg)(p \<mapsto> (t, s1))"
      using reg_release_inv [OF inv r1] at by (auto simp: s1_def)
    define reg3 where "reg3 = handleProcedureActive p False (handleTimerActive p False
      (if mi_isIMSI (mIdentity (su_context s)) then reg1\<lparr>rg_byIMSI := (rg_byIMSI reg1)(mi_digits (mIdentity (su_context s)) := None)\<rparr> else reg1))"
    have reg3: "rg_byTMSI reg3 = rg_byTMSI reg1" "rg_count reg3 = rg_count reg1" "rg_byLink reg3 = rg_byLink reg1"
      "rg_activeTimers reg3 = rg_activeTimers reg1 - {p}" "rg_activeProcedures reg3 = rg_activeProcedures reg1 - {p}"
      "rg_byIMSI reg3 = (if mi_isIMSI (mIdentity (su_context s)) then (rg_byIMSI reg)(mi_digits (mIdentity (su_context s)) := None) else rg_byIMSI reg)"
      by (simp_all add: reg3_def handleProcedureActive_def handleTimerActive_def R(2))
    have live: "p \<in> fm_live (rg_byTMSI reg1)" using R(3) heap_dom [of reg1] by auto
    obtain m where m: "fm_erase H 0 p (rg_byTMSI reg1) = Some (True, m)" "fm_inv H m" "fm_live m = fm_live (rg_byTMSI reg1) - {p}"
        "entries_kept (rg_byTMSI reg1) m {p}"
      using erase_live [OF reg_invD(1) [OF R(1)] live] by metis
    have reg': "b" "reg' = reg3\<lparr>rg_byTMSI := m, rg_count := rg_count reg3 - 1\<rparr>"
      using ret p True r1 m(1) by (auto simp: reg_remove_def remove_session_def reg3_def [symmetric] reg3(1) Let_def)
    have heap: "reg_heap reg' = (reg_heap reg1)(p := None)"
      by (rule heap_delete [OF m(3,4) refl]) (simp add: reg')
    have "reg_inv H reg'"
      by (rule reg_inv_del [OF R(1) _ heap, of t s1]) (use R(3) m(2) reg3 in \<open>simp_all add: reg' s1_def\<close>)
    then show ?thesis using reg' p(1) at heap R(3) reg3(6) by (simp add: fun_upd_upd)
  qed
qed

lemma reg_clear_inv:
  assumes "reg_inv H reg"
  shows "reg_inv H (reg_clear reg)" "reg_heap (reg_clear reg) = Map.empty"
proof -
  note D = reg_invD [OF assms]
  show heap: "reg_heap (reg_clear reg) = Map.empty"
    using heap_dom [of "reg_clear reg"] by (simp add: reg_clear_def fm_live_def fm_clear_def)
  show "reg_inv H (reg_clear reg)"
    using clear_ok(1) [OF D(1)] clear_ok [OF D(2)] unfolding reg_inv_def heap by (simp add: reg_clear_def links_ok_def)
qed

text \<open>Reserving moves no entry.\<close>

lemma slab_entry: "fm_inv H m \<Longrightarrow> j < mEntryCount m \<Longrightarrow> mEntryAt (allocateSlab k0 m) j = mEntryAt m j"
  using fm_invD(1) [of H m] slab_pos [of j "mSlabs m"] by (simp add: entry_at allocateSlab_def nth_append fm_slabs_ok_def)

lemma slabs_entries:
  "fm_inv H m \<Longrightarrow> mEntryCount ((allocateSlab k0 ^^ n) m) = mEntryCount m \<and>
   (\<forall>j < mEntryCount m. mEntryAt ((allocateSlab k0 ^^ n) m) j = mEntryAt m j)"
proof (induction n)
  case (Suc n)
  let ?m = "(allocateSlab k0 ^^ n) m"
  have "fm_inv H ?m" using slabs_added [OF Suc.prems] by blast
  moreover have "mEntryCount (allocateSlab k0 ?m) = mEntryCount ?m" by (simp add: allocateSlab_def)
  ultimately show ?case using Suc slab_entry [of H ?m _ k0] by simp
qed simp

lemma reserve_entries:
  assumes inv: "fm_inv H m" and small: "expected \<le> 2 ^ 29" and ret: "fm_reserve H k0 expected m = Some m'"
  shows "fm_inv H m' \<and> mEntryCount m' = mEntryCount m \<and>
    (\<forall>j < mEntryCount m. fm_key m' j = fm_key m j \<and> en_value (mEntryAt m' j) = en_value (mEntryAt m j)) \<and> fm_map m' = fm_map m"
proof -
  note I = fm_invD [OF inv]
  define cap where "cap = nextPow2 (expected + expected div 3 + 1)"
  have pow: "\<exists>n. cap = 2 ^ n" "8 \<le> cap" "cap \<le> 2 ^ 32"
    using nextPow2_spec [of "expected + expected div 3 + 1"] small unfolding cap_def by auto
  obtain m1 where m1: "(if length (mSlots m) < cap then rehash H cap m else Some m) = Some m1" "fm_inv H m1" "same_entries m m1"
  proof (cases "length (mSlots m) < cap")
    case True
    have "card (fm_live m) * 10 \<le> cap * 7" using True I(5,9,10) pow(2) by (cases "mSlots m = []") auto
    then show ?thesis using rehash_inv [OF I(1-5) _ pow(2,3)] pow(1) True that by metis
  qed (use inv that [of m] same_entries_refl [of m] in simp)
  define n where "n = (expected + kSlabEntries - 1) div kSlabEntries - length (mSlabs m1)"
  have m': "m' = (allocateSlab k0 ^^ n) m1"
    using ret m1(1) unfolding fm_reserve_def cap_def [symmetric] Let_def by (simp add: n_def)
  have "mEntryCount m1 = mEntryCount m" "\<And>j. fm_key m1 j = fm_key m j \<and> en_value (mEntryAt m1 j) = en_value (mEntryAt m j)"
    using m1(3) by (simp_all add: same_entries_def)
  then show ?thesis
    using slabs_entries [OF m1(2), of n k0] slabs_added [OF m1(2), of n k0] fm_map_same(1) [OF m1(3)] unfolding m' by simp
qed

lemma reg_reserve_inv:
  assumes inv: "reg_inv H reg" and small: "expected \<le> 2 ^ 29" and ret: "reg_reserve H expected reg = Some reg'"
  shows "reg_inv H reg'" "reg_heap reg' = reg_heap reg"
proof -
  note D = reg_invD [OF inv]
  obtain m l where r: "fm_reserve H 0 expected (rg_byTMSI reg) = Some m" "fm_reserve H 0 expected (rg_byLink reg) = Some l"
      "reg' = reg\<lparr>rg_byTMSI := m, rg_byLink := l\<rparr>"
    using ret by (auto simp: reg_reserve_def split: option.splits)
  have m: "fm_inv H m" "mEntryCount m = mEntryCount (rg_byTMSI reg)"
    "\<And>j. j < mEntryCount (rg_byTMSI reg) \<Longrightarrow> fm_key m j = fm_key (rg_byTMSI reg) j \<and> en_value (mEntryAt m j) = en_value (mEntryAt (rg_byTMSI reg) j)"
    using reserve_entries [OF D(1) small r(1)] by auto
  have l: "fm_inv H l" "fm_map l = fm_map (rg_byLink reg)" using reserve_entries [OF D(2) small r(2)] by auto
  show heap: "reg_heap reg' = reg_heap reg"
    using m(2,3) by (auto simp: fun_eq_iff reg_heap_def session_at_def r(3))
  have "links_ok l (reg_heap reg)" using D(8) by (simp add: links_ok_def l(2))
  then show "reg_inv H reg'" using inv m(1) l(1) unfolding reg_inv_def heap by (simp add: r(3))
qed

end
