(* ===== verification/Registry_Ticks.thy ===== *)
theory Registry_Ticks
  imports Registry_Invariant
begin

text \<open>
  The ticks of the subscriber registry: no expiry of a timer of any session is lost, whatever the size of the caller's
  buffer and whatever the order in which the active sessions are walked. Then the search for a free temporary identity, which
  looks at enough candidates.
\<close>

section \<open>Starting several timers\<close>

definition restart_all :: "L3TimerId list \<Rightarrow> TimerManager \<Rightarrow> TimerManager" where
  "restart_all ids = fold (\<lambda>i m. snd (tm_start_with i 1 m)) ids"

lemma restart_all_spec:
  assumes "tm_inv m" "Timer_Unknown \<notin> set ids"
  shows "tm_inv (restart_all ids m) \<and> (tm_isRunning j (restart_all ids m) \<longleftrightarrow> j \<in> set ids \<or> tm_isRunning j m) \<and>
    tm_remaining j (restart_all ids m) = (if j \<in> set ids then 1 else tm_remaining j m)"
  using assms
proof (induction ids arbitrary: m)
  case (Cons i ids)
  define m1 where "m1 = snd (tm_start_with i 1 m)"
  have i: "i \<noteq> Timer_Unknown" "Timer_Unknown \<notin> set ids" using Cons.prems(2) by auto
  have m1: "tm_inv m1" "tm_isRunning j m1 \<longleftrightarrow> j = i \<or> tm_isRunning j m" "tm_remaining j m1 = (if j = i then 1 else tm_remaining j m)"
    unfolding m1_def using tmr.start_keeps [OF Cons.prems(1)] tmr.running_start [OF Cons.prems(1) i(1)] tmr.left_start [OF Cons.prems(1) i(1)]
    by blast+
  have "restart_all (i # ids) m = restart_all ids m1" by (simp add: restart_all_def m1_def)
  then show ?case using Cons.IH [OF m1(1) i(2)] m1(2,3) by auto
qed (simp add: restart_all_def)

lemma due_ids_spec:
  assumes inv: "tm_inv m"
  shows "length (due_ids delta m) \<le> 32" "distinct (due_ids delta m)" "Timer_Unknown \<notin> set (due_ids delta m)"
    "j \<in> set (due_ids delta m) \<longleftrightarrow> tm_isRunning j m \<and> tm_remaining j m \<le> delta"
proof -
  have len: "length (filter (due delta m) [0..<MAX_TIMERS]) \<le> 32"
    using length_filter_le [of "due delta m" "[0..<MAX_TIMERS]"] by (simp add: MAX_TIMERS_def)
  then show "length (due_ids delta m) \<le> 32" by (simp add: due_ids_def)
  have id: "timer_index (tmId (mTimers m ! i)) = i" if "i < MAX_TIMERS" "due delta m i" for i
    using inv that by (auto simp: tm_inv_def due_def slot_running_def)
  then have "inj_on (\<lambda>i. tmId (mTimers m ! i)) (set (filter (due delta m) [0..<MAX_TIMERS]))"
    by (intro inj_onI) (metis atLeastLessThan_iff filter_is_subset mem_Collect_eq set_filter set_upt)
  then show "distinct (due_ids delta m)" by (simp add: due_ids_def distinct_map)
  show "Timer_Unknown \<notin> set (due_ids delta m)"
  proof
    assume "Timer_Unknown \<in> set (due_ids delta m)"
    then obtain i where i: "i < MAX_TIMERS" "due delta m i" "tmId (mTimers m ! i) = Timer_Unknown" by (force simp: due_ids_def)
    then show False using id [OF i(1,2)] by (simp add: MAX_TIMERS_def)
  qed
  have "take 32 (due_ids delta m) = due_ids delta m" using len by (simp add: due_ids_def)
  moreover have "rank delta m (timer_index j) < 32" if "timer_index j < MAX_TIMERS"
    using length_filter_le [of "due delta m" "[0..<timer_index j]"] that by (simp add: rank_def MAX_TIMERS_def)
  ultimately show "j \<in> set (due_ids delta m) \<longleftrightarrow> tm_isRunning j m \<and> tm_remaining j m \<le> delta"
    using reported_iff [OF inv, of j 32 delta]
    by (auto simp: due_def slot_running_def tm_isRunning_def tm_remaining_def timer_remaining_def)
qed

section \<open>One session\<close>

lemma txm_onTimerExpired_ok: "session_ok t s \<Longrightarrow> session_ok t (s\<lparr>su_transactions := txm_onTimerExpired i (su_transactions s)\<rparr>)"
  by (simp add: session_ok_def onTimerExpired_inv)

lemma report_step:
  assumes inv: "reg_inv H reg" and at: "reg_heap reg p = Some (t, s)"
  shows "\<exists>reg' s'. report_expiry cap p i (reg, out) = (reg', if length out < cap then out @ [(p, i)] else out) \<and> reg_inv H reg' \<and>
    reg_heap reg' = (reg_heap reg)(p \<mapsto> (t, s')) \<and>
    su_timers s' = (if length out < cap then su_timers s else snd (tm_start_with i 1 (su_timers s)))"
proof -
  define s1 where "s1 = s\<lparr>su_transactions := txm_onTimerExpired i (su_transactions s)\<rparr>"
  define reg1 where "reg1 = upd_session p (\<lambda>s. s\<lparr>su_transactions := txm_onTimerExpired i (su_transactions s)\<rparr>) reg"
  have ok: "session_ok t s1" unfolding s1_def by (rule txm_onTimerExpired_ok) (rule reg_invD(4) [OF inv at])
  have U: "reg_inv H reg1" "reg_heap reg1 = (reg_heap reg)(p \<mapsto> (t, s1))"
    using upd_session_inv [OF inv at, of "\<lambda>s. s\<lparr>su_transactions := txm_onTimerExpired i (su_transactions s)\<rparr>"] ok
    by (simp_all add: reg1_def s1_def session_linkKey_def)
  show ?thesis
  proof (cases "length out < cap")
    case True
    then have "report_expiry cap p i (reg, out) = (reg1, out @ [(p, i)])" by (simp add: report_expiry_def reg1_def)
    then show ?thesis using True U by (intro exI [of _ reg1] exI [of _ s1]) (simp add: s1_def)
  next
    case False
    let ?reg = "drive_timers p (\<lambda>m. snd (tm_start_with i 1 m)) reg1"
    have at1: "reg_heap reg1 p = Some (t, s1)" by (simp add: U(2))
    note N = drive_timers_inv [OF U(1) at1 timer_ops_grow(1) [of i 1]]
    have "report_expiry cap p i (reg, out) = (?reg, out)" using False by (simp add: report_expiry_def reg1_def)
    then show ?thesis
      using False N(1,2) U(2) by (intro exI [of _ ?reg] exI [of _ "s1\<lparr>su_timers := snd (tm_start_with i 1 (su_timers s1))\<rparr>"]) (simp add: s1_def)
  qed
qed

lemma report_all:
  assumes "reg_inv H reg" "reg_heap reg p = Some (t, s)"
  shows "\<exists>reg' s'. fold (report_expiry cap p) ids (reg, out) = (reg', out @ map (Pair p) (take (cap - length out) ids)) \<and> reg_inv H reg' \<and>
    reg_heap reg' = (reg_heap reg)(p \<mapsto> (t, s')) \<and> su_timers s' = restart_all (drop (cap - length out) ids) (su_timers s)"
  using assms
proof (induction ids arbitrary: reg s out)
  case Nil
  then show ?case by (intro exI [of _ reg] exI [of _ s]) (auto simp: restart_all_def)
next
  case (Cons i ids)
  obtain reg1 s1 where 1: "report_expiry cap p i (reg, out) = (reg1, if length out < cap then out @ [(p, i)] else out)" "reg_inv H reg1"
      "reg_heap reg1 = (reg_heap reg)(p \<mapsto> (t, s1))" "su_timers s1 = (if length out < cap then su_timers s else snd (tm_start_with i 1 (su_timers s)))"
    using report_step [OF Cons.prems, of cap i out] by blast
  have at: "reg_heap reg1 p = Some (t, s1)" by (simp add: 1(3))
  define out1 where "out1 = (if length out < cap then out @ [(p, i)] else out)"
  obtain reg2 s2 where 2: "fold (report_expiry cap p) ids (reg1, out1) = (reg2, out1 @ map (Pair p) (take (cap - length out1) ids))"
      "reg_inv H reg2" "reg_heap reg2 = (reg_heap reg1)(p \<mapsto> (t, s2))" "su_timers s2 = restart_all (drop (cap - length out1) ids) (su_timers s1)"
    using Cons.IH [OF 1(2) at, of out1] by blast
  have split: "cap - length out = Suc (cap - length out1)" if "length out < cap" using that by (simp add: out1_def Suc_diff_Suc)
  have "out1 @ map (Pair p) (take (cap - length out1) ids) = out @ map (Pair p) (take (cap - length out) (i # ids))"
    by (cases "length out < cap") (simp_all add: split, simp_all add: out1_def)
  moreover have "restart_all (drop (cap - length out1) ids) (su_timers s1) = restart_all (drop (cap - length out) (i # ids)) (su_timers s)"
    by (cases "length out < cap") (simp_all add: split 1(4), simp_all add: out1_def restart_all_def)
  ultimately show ?case using 1(1,3) 2 by (intro exI [of _ reg2] exI [of _ s2]) (simp add: out1_def [symmetric])
qed

text \<open>What a tick must do to a timer: \<open>m\<close> and \<open>m'\<close> are the timers before and after, \<open>reported\<close> and \<open>full\<close> speak of the caller's buffer.\<close>

definition tick_outcome :: "int \<Rightarrow> TimerManager \<Rightarrow> TimerManager \<Rightarrow> bool \<Rightarrow> bool \<Rightarrow> L3TimerId \<Rightarrow> bool" where
  "tick_outcome delta m m' reported full j \<longleftrightarrow>
     (if \<not> tm_isRunning j m then \<not> reported \<and> \<not> tm_isRunning j m'
      else if delta < tm_remaining j m then \<not> reported \<and> tm_isRunning j m' \<and> tm_remaining j m' = tm_remaining j m - delta
      else reported \<and> \<not> tm_isRunning j m' \<or> \<not> reported \<and> full \<and> tm_isRunning j m' \<and> tm_remaining j m' = 1)"

text \<open>A pass of the timer manager with a buffer that is large enough.\<close>

lemma pass_outcome:
  assumes inv: "tm_inv m"
  shows "fst (tm_tick delta 32 m) = due_ids delta m" "tm_inv (snd (tm_tick delta 32 m))"
    "tm_isRunning j (snd (tm_tick delta 32 m)) \<longleftrightarrow> tm_isRunning j m \<and> delta < tm_remaining j m"
    "tm_isRunning j m \<Longrightarrow> delta < tm_remaining j m \<Longrightarrow> tm_remaining j (snd (tm_tick delta 32 m)) = tm_remaining j m - delta"
proof -
  let ?i = "timer_index j" and ?m = "snd (tm_tick delta 32 m)"
  show "fst (tm_tick delta 32 m) = due_ids delta m" using tm_tick_eq(1) [OF inv] due_ids_spec(1) [OF inv] by simp
  show "tm_inv ?m" by (rule tick_inv [OF inv])
  have r: "rank delta m ?i < 32" if "?i < MAX_TIMERS"
    using length_filter_le [of "due delta m" "[0..<?i]"] that by (simp add: rank_def MAX_TIMERS_def)
  have slot: "?i < MAX_TIMERS \<Longrightarrow> mTimers ?m ! ?i = slot_after delta 32 m ?i" "mInitialized ?m = mInitialized m"
    using tm_tick_eq [OF inv, of delta 32] by simp_all
  show "tm_isRunning j ?m \<longleftrightarrow> tm_isRunning j m \<and> delta < tm_remaining j m"
    using slot r by (auto simp: tm_isRunning_def tm_remaining_def timer_remaining_def slot_after_def due_def slot_running_def Let_def)
  show "tm_remaining j ?m = tm_remaining j m - delta" if "tm_isRunning j m" "delta < tm_remaining j m"
    using slot that by (auto simp: tm_isRunning_def tm_remaining_def timer_remaining_def slot_after_def due_def slot_running_def Let_def)
qed

lemma tick_session_outcome:
  assumes inv: "reg_inv H reg" and at: "reg_heap reg p = Some (t, s)" and room: "length out \<le> cap"
  shows "\<exists>reg' s' ids. tick_session delta cap p (reg, out) = (reg', out @ map (Pair p) ids) \<and> reg_inv H reg' \<and>
    reg_heap reg' = (reg_heap reg)(p \<mapsto> (t, s')) \<and> length out + length ids \<le> cap \<and>
    (\<forall>j. tick_outcome delta (su_timers s) (su_timers s') (j \<in> set ids) (length out + length ids = cap) j)"
proof -
  have m: "tm_inv (su_timers s)" using reg_invD(4) [OF inv at] by (simp add: session_ok_def timers_ok_def)
  define m1 where "m1 = snd (tm_tick delta 32 (su_timers s))"
  define due where "due = due_ids delta (su_timers s)"
  define k where "k = cap - length out"
  note N = drive_timers_inv [OF inv at timer_ops_grow(4) [of delta 32]]
  let ?reg = "drive_timers p (\<lambda>m. snd (tm_tick delta 32 m)) reg" and ?s = "s\<lparr>su_timers := m1\<rparr>"
  have at1: "reg_heap ?reg p = Some (t, ?s)" using N(2) by (simp add: m1_def)
  obtain reg2 s2 where 2: "fold (report_expiry cap p) due (?reg, out) = (reg2, out @ map (Pair p) (take k due))" "reg_inv H reg2"
      "reg_heap reg2 = (reg_heap ?reg)(p \<mapsto> (t, s2))" "su_timers s2 = restart_all (drop k due) (su_timers ?s)"
    using report_all [OF N(1) at1, of cap due out] unfolding k_def by blast
  have run: "tick_session delta cap p (reg, out) = (reg2, out @ map (Pair p) (take k due))"
    using at 2(1) by (simp add: tick_session_def session_at_heap pass_outcome(1) [OF m] due_def)
  have heap: "reg_heap reg2 = (reg_heap reg)(p \<mapsto> (t, s2))" using 2(3) N(2) by simp
  have len: "length out + length (take k due) \<le> cap" using room by (simp add: k_def)
  have "tick_outcome delta (su_timers s) (su_timers s2) (j \<in> set (take k due)) (length out + length (take k due) = cap) j" for j
  proof -
    note d = due_ids_spec [OF m, where delta = delta, folded due_def]
    have "Timer_Unknown \<notin> set (drop k due)" using d(3) set_drop_subset by fast
    moreover have "tm_inv m1" unfolding m1_def by (rule pass_outcome(2) [OF m])
    ultimately have r: "tm_isRunning j (su_timers s2) \<longleftrightarrow> j \<in> set (drop k due) \<or> tm_isRunning j m1"
        "tm_remaining j (su_timers s2) = (if j \<in> set (drop k due) then 1 else tm_remaining j m1)"
      using restart_all_spec [of m1 "drop k due" j] 2(4) by simp_all
    have part: "j \<in> set due \<longleftrightarrow> j \<in> set (take k due) \<or> j \<in> set (drop k due)"
      by (metis Un_iff append_take_drop_id set_append)
    have excl: "\<not> (j \<in> set (take k due) \<and> j \<in> set (drop k due))"
      using d(2) set_take_disj_set_drop_if_distinct [of due k k] by blast
    have full: "length out + length (take k due) = cap" if "j \<in> set (drop k due)"
    proof -
      have "k < length due" using that by (metis drop_all empty_iff leI list.set(1))
      then show ?thesis using room by (simp add: k_def)
    qed
    show ?thesis
      using r part excl full d(4) [where j = j] pass_outcome(3,4) [OF m, where j = j and delta = delta, folded m1_def] by (auto simp: tick_outcome_def)
  qed
  then show ?thesis using run heap 2(2) len by (intro exI [of _ reg2] exI [of _ s2] exI [of _ "take k due"]) simp
qed

section \<open>All sessions\<close>

lemma tick_outcome_full: "tick_outcome delta m m' r b j \<Longrightarrow> (b \<Longrightarrow> b') \<Longrightarrow> tick_outcome delta m m' r b' j"
  by (auto simp: tick_outcome_def)

lemma tick_sessions:
  assumes "reg_inv H reg" "distinct ps" "set ps \<subseteq> dom (reg_heap reg)" "length out \<le> cap"
  shows "\<exists>reg' new. fold (tick_session delta cap) ps (reg, out) = (reg', out @ new) \<and> reg_inv H reg' \<and>
    length out + length new \<le> cap \<and> fst ` set new \<subseteq> set ps \<and> (\<forall>p. p \<notin> set ps \<longrightarrow> reg_heap reg' p = reg_heap reg p) \<and>
    (\<forall>p\<in>set ps. \<forall>t s. reg_heap reg p = Some (t, s) \<longrightarrow> (\<exists>s'. reg_heap reg' p = Some (t, s') \<and>
       (\<forall>j. tick_outcome delta (su_timers s) (su_timers s') ((p, j) \<in> set new) (length out + length new = cap) j)))"
  using assms
proof (induction ps arbitrary: reg out)
  case Nil
  then show ?case by (intro exI [of _ reg] exI [of _ "[]"]) simp
next
  case (Cons p ps)
  obtain t s where at: "reg_heap reg p = Some (t, s)" using Cons.prems(3) by auto
  obtain reg1 s1 ids where 1: "tick_session delta cap p (reg, out) = (reg1, out @ map (Pair p) ids)" "reg_inv H reg1"
      "reg_heap reg1 = (reg_heap reg)(p \<mapsto> (t, s1))" "length out + length ids \<le> cap"
      "\<And>j. tick_outcome delta (su_timers s) (su_timers s1) (j \<in> set ids) (length out + length ids = cap) j"
    using tick_session_outcome [OF Cons.prems(1) at Cons.prems(4), of delta] by blast
  have p: "p \<notin> set ps" "distinct ps" using Cons.prems(2) by auto
  have "set ps \<subseteq> dom (reg_heap reg1)" "length (out @ map (Pair p) ids) \<le> cap" using Cons.prems(3) 1(3,4) by auto
  note ih = Cons.IH [OF 1(2) p(2) this]
  obtain reg2 new where 2: "fold (tick_session delta cap) ps (reg1, out @ map (Pair p) ids) = (reg2, (out @ map (Pair p) ids) @ new)" "reg_inv H reg2"
      "length (out @ map (Pair p) ids) + length new \<le> cap" "fst ` set new \<subseteq> set ps" "\<forall>q. q \<notin> set ps \<longrightarrow> reg_heap reg2 q = reg_heap reg1 q"
      "\<forall>q\<in>set ps. \<forall>t s. reg_heap reg1 q = Some (t, s) \<longrightarrow> (\<exists>s'. reg_heap reg2 q = Some (t, s') \<and>
         (\<forall>j. tick_outcome delta (su_timers s) (su_timers s') ((q, j) \<in> set new) (length (out @ map (Pair p) ids) + length new = cap) j))"
    using ih by (elim exE conjE) (rule that)
  let ?new = "map (Pair p) ids @ new"
  have own: "(p, j) \<in> set ?new \<longleftrightarrow> j \<in> set ids" for j using 2(4) p(1) by force
  have other: "(q, j) \<in> set ?new \<longleftrightarrow> (q, j) \<in> set new" if "q \<in> set ps" for q j using that p(1) by auto
  have len: "length out + length ?new = length (out @ map (Pair p) ids) + length new" by simp
  have "\<exists>s'. reg_heap reg2 q = Some (t', s') \<and>
      (\<forall>j. tick_outcome delta (su_timers s'') (su_timers s') ((q, j) \<in> set ?new) (length out + length ?new = cap) j)"
    if q: "q \<in> set (p # ps)" "reg_heap reg q = Some (t', s'')" for q t' s''
  proof (cases "q = p")
    case True
    have "length out + length ?new = cap" if "length out + length ids = cap" using that 2(3) by simp
    then have "tick_outcome delta (su_timers s) (su_timers s1) ((p, j) \<in> set ?new) (length out + length ?new = cap) j" for j
      unfolding own by (rule tick_outcome_full [OF 1(5)])
    then show ?thesis using True q(2) at 2(5) p(1) 1(3) by (intro exI [of _ s1]) simp
  next
    case False
    then show ?thesis using 2(6) q 1(3) other unfolding len by simp
  qed
  moreover have "reg_heap reg2 q = reg_heap reg q" if "q \<notin> set (p # ps)" for q using 2(5) that 1(3) by simp
  moreover have "fold (tick_session delta cap) (p # ps) (reg, out) = (reg2, out @ ?new)" using 1(1) 2(1) by simp
  moreover have "length out + length ?new \<le> cap" "fst ` set ?new \<subseteq> set (p # ps)" using 2(3,4) by auto
  ultimately show ?case using 2(2) by (intro exI [of _ reg2] exI [of _ ?new]) blast
qed

definition walks :: "(session_ptr set \<Rightarrow> session_ptr list) \<Rightarrow> bool" where
  "walks iterate \<longleftrightarrow> (\<forall>A. finite A \<longrightarrow> distinct (iterate A) \<and> set (iterate A) = A)"

lemma active_walk:
  assumes "reg_inv H reg" "walks iterate"
  shows "distinct (iterate (rg_activeTimers reg))" "set (iterate (rg_activeTimers reg)) = rg_activeTimers reg"
    "set (iterate (rg_activeProcedures reg)) = rg_activeProcedures reg"
proof -
  have "finite (dom (reg_heap reg))" by (simp add: heap_dom)
  moreover have "rg_activeTimers reg \<subseteq> dom (reg_heap reg)" "rg_activeProcedures reg \<subseteq> dom (reg_heap reg)"
    using reg_invD(7) [OF assms(1)] by blast+
  ultimately have "finite (rg_activeTimers reg)" "finite (rg_activeProcedures reg)" by (blast intro: finite_subset)+
  then show "distinct (iterate (rg_activeTimers reg))" "set (iterate (rg_activeTimers reg)) = rg_activeTimers reg"
    "set (iterate (rg_activeProcedures reg)) = rg_activeProcedures reg"
    using assms(2) unfolding walks_def by blast+
qed

lemma tickAllTimers_ok:
  assumes inv: "reg_inv H reg" and w: "walks iterate" and tick: "tickAllTimers iterate delta cap reg = (out, reg')"
  shows "reg_inv H reg'" "length out \<le> cap"
    "reg_heap reg p = Some (t, s) \<Longrightarrow> \<exists>s'. reg_heap reg' p = Some (t, s') \<and>
       (\<forall>j. tick_outcome delta (su_timers s) (su_timers s') ((p, j) \<in> set out) (length out = cap) j)"
    "dom (reg_heap reg') = dom (reg_heap reg)"
proof -
  let ?ps = "iterate (rg_activeTimers reg)"
  have "set ?ps \<subseteq> dom (reg_heap reg)" using active_walk(2) [OF inv w] reg_invD(7) [OF inv] by blast
  note run = tick_sessions [OF inv active_walk(1) [OF inv w] this, of "[]" cap delta, unfolded list.size add_0 append_Nil]
  obtain reg2 out2 where r: "fold (tick_session delta cap) ?ps (reg, []) = (reg2, out2)" "reg_inv H reg2" "length out2 \<le> cap" "fst ` set out2 \<subseteq> set ?ps"
      "\<forall>p. p \<notin> set ?ps \<longrightarrow> reg_heap reg2 p = reg_heap reg p"
      "\<forall>p\<in>set ?ps. \<forall>t s. reg_heap reg p = Some (t, s) \<longrightarrow> (\<exists>s'. reg_heap reg2 p = Some (t, s') \<and>
         (\<forall>j. tick_outcome delta (su_timers s) (su_timers s') ((p, j) \<in> set out2) (length out2 = cap) j))"
    using run [OF le0] by (elim exE conjE) (rule that)
  have eq: "reg2 = reg'" "out2 = out" using tick r(1) by (simp_all add: tickAllTimers_def)
  note r = r [unfolded eq]
  show "reg_inv H reg'" "length out \<le> cap" by (fact r(2,3))+
  have "q \<in> dom (reg_heap reg') \<longleftrightarrow> q \<in> dom (reg_heap reg)" for q
    using r(5,6) active_walk(2) [OF inv w] reg_invD(7) [OF inv, of q] by (cases "q \<in> set ?ps") (fastforce simp: domIff)+
  then show "dom (reg_heap reg') = dom (reg_heap reg)" by blast
  show "\<exists>s'. reg_heap reg' p = Some (t, s') \<and>
       (\<forall>j. tick_outcome delta (su_timers s) (su_timers s') ((p, j) \<in> set out) (length out = cap) j)"
    if at: "reg_heap reg p = Some (t, s)"
  proof (cases "p \<in> set ?ps")
    case True
    then show ?thesis using r(6) at by blast
  next
    case False
    then have "runningCount (su_timers s) = 0" using reg_invD(5) [OF inv at] active_walk(2) [OF inv w] by simp
    then have "\<not> tm_isRunning j (su_timers s)" for j by (auto simp: runningCount_zero slot_running_def tm_isRunning_def)
    moreover have "(p, j) \<notin> set out" for j using r(4) False by force
    ultimately show ?thesis using r(5) False at by (intro exI [of _ s]) (simp add: tick_outcome_def)
  qed
qed

lemma tickAllProcedures_ok:
  assumes "reg_inv H reg"
  shows "reg_inv H (snd (tickAllProcedures iterate delta reg))"
proof -
  have "reg_inv H (snd (fold (tick_procedures delta) ps st))" if "reg_inv H (snd st)" for ps st
    using that
  proof (induction ps arbitrary: st)
    case (Cons p ps)
    have "reg_inv H (snd (tick_procedures delta p st))"
    proof (cases "reg_heap (snd st) p")
      case None
      then show ?thesis using Cons.prems by (simp add: tick_procedures_def session_at_heap)
    next
      case (Some ts)
      obtain t s where ts: "ts = (t, s)" by force
      show ?thesis
        using drive_procedures_inv(1) [OF Cons.prems Some [unfolded ts] runner_ops_grow(3) [of delta]] Some ts
        by (simp add: tick_procedures_def session_at_heap)
    qed
    then show ?case using Cons.IH by simp
  qed simp
  from this [of "(0, reg)"] assms show ?thesis by (simp add: tickAllProcedures_def)
qed

section \<open>Assigning identities\<close>

text \<open>
  The search for a temporary identity stops after as many candidates as there are sessions, and two more. Candidates are
  consecutive, so unless the identities are used up one of them is free.
\<close>

definition tmsi_taken :: "(u32, SubscriberSession) FlatMap \<Rightarrow> u32 \<Rightarrow> bool" where
  "tmsi_taken m t \<longleftrightarrow> t = 0 \<or> t \<in> dom (fm_map m)"

lemma auto_tmsi_step:
  assumes inv: "fm_inv H m" and room: "has_room m"
  shows "auto_tmsi H m t n a =
    (if \<not> tmsi_taken m t then Some (Some t, n) else if a + 1 > mSize m + 1 then Some (None, n + 1) else auto_tmsi H m n (n + 1) (a + 1))"
proof (cases "t = 0")
  case True
  then show ?thesis by (subst auto_tmsi.simps) (simp add: tmsi_taken_def)
next
  case False
  obtain r where r: "fm_find H t m = Some r" using find_returns [OF inv room] by blast
  have "r \<noteq> None \<longleftrightarrow> t \<in> dom (fm_map m)"
    using find_iff [OF inv r] live_cases [OF fm_invD(2) [OF inv], of t] by (metis not_Some_eq)
  then show ?thesis using False r by (subst auto_tmsi.simps) (simp add: tmsi_taken_def)
qed

lemma auto_tmsi_none:
  assumes inv: "fm_inv H m" and room: "has_room m"
  shows "(\<exists>r n'. auto_tmsi H m (t0 + of_nat a) (t0 + of_nat a + 1) a = Some (Some r, n')) \<or>
    (\<forall>i. a \<le> i \<and> i \<le> mSize m + 1 \<longrightarrow> tmsi_taken m (t0 + of_nat i))"
proof (induction "mSize m + 1 - a" arbitrary: a)
  case 0
  then show ?case
    by (cases "tmsi_taken m (t0 + of_nat a)") (auto simp: auto_tmsi_step [OF inv room, of "t0 + of_nat a"] dest: le_antisym)
next
  case (Suc k)
  have "k = mSize m + 1 - (a + 1)" using Suc(2) by simp
  note ih = Suc(1) [OF this]
  have le: "a \<le> mSize m" using Suc(2) by linarith
  have eq: "auto_tmsi H m (t0 + of_nat a) (t0 + of_nat a + 1) a =
      (if tmsi_taken m (t0 + of_nat a) then auto_tmsi H m (t0 + of_nat (a + 1)) (t0 + of_nat (a + 1) + 1) (a + 1) else Some (Some (t0 + of_nat a), t0 + of_nat a + 1))"
    using le by (subst auto_tmsi_step [OF inv room]) (simp add: algebra_simps)
  show ?case
  proof (cases "tmsi_taken m (t0 + of_nat a)")
    case True
    have "i = a \<or> a + 1 \<le> i" if "a \<le> i" for i using that by auto
    then show ?thesis using ih True unfolding eq by (auto simp del: of_nat_add of_nat_Suc)
  qed (simp add: eq)
qed

lemma auto_tmsi_succeeds:
  assumes inv: "fm_inv H m" and room: "has_room m" and few: "mSize m + 2 \<le> 2 ^ 32"
  shows "\<exists>r n'. auto_tmsi H m t (t + 1) 0 = Some (Some r, n')"
proof (rule ccontr)
  assume "\<nexists>r n'. auto_tmsi H m t (t + 1) 0 = Some (Some r, n')"
  then have all: "tmsi_taken m (t + of_nat i)" if "i \<le> mSize m + 1" for i
    using auto_tmsi_none [OF inv room, of t 0] that by simp
  let ?C = "(\<lambda>i. t + of_nat i) ` {..mSize m + 1}"
  have "inj_on (\<lambda>i. t + (of_nat i :: u32)) {..mSize m + 1}"
  proof (rule inj_onI)
    fix i j
    assume "i \<in> {..mSize m + 1}" "j \<in> {..mSize m + 1}" "t + (of_nat i :: u32) = t + of_nat j"
    then have "unat (of_nat i :: u32) = unat (of_nat j :: u32)" "i < 2 ^ 32" "j < 2 ^ 32" using few by auto
    then show "i = j" by (simp add: unat_of_nat)
  qed
  then have "card ?C = mSize m + 2" by (simp add: card_image)
  moreover have "?C \<subseteq> insert 0 (fm_key m ` fm_live m)"
    using all fm_map_dom [OF fm_invD(2) [OF inv]] by (auto simp: tmsi_taken_def)
  moreover have "card (insert 0 (fm_key m ` fm_live m)) \<le> mSize m + 1"
    using card_insert_le_m1 [of "mSize m + 1" "fm_key m ` fm_live m" 0] card_image_le [of "fm_live m" "fm_key m"] fm_invD(5) [OF inv] by simp
  ultimately show False using card_mono [of "insert 0 (fm_key m ` fm_live m)" ?C] by simp
qed

end
