(* ===== verification/Registry_Reachable.thy ===== *)
theory Registry_Reachable
  imports Registry_Ticks
begin

text \<open>
  Everything a subscriber registry can be driven to, and what holds of it: the indexes and the activity sets fit the sessions, no
  expiry is lost, and an index entry that outlives its subscriber.
\<close>

section \<open>Reachable registries\<close>

text \<open>
  A registry starts empty; the application creates, finds, assigns, releases and removes, drives the timers and procedures
  of sessions, uses the other parts of a session (its state machines, transactions, response and context) in any way that leaves
  alone what the registry keeps for its indexes, and ticks. An operation counts when it returns, and the hash
  maps hold at most \<open>2\<^sup>3\<^sup>1\<close> entries.
\<close>

definition session_change :: "(SubscriberSession \<Rightarrow> SubscriberSession) \<Rightarrow> bool" where
  "session_change f \<longleftrightarrow>
     (\<forall>s. su_timers (f s) = su_timers s \<and> su_procedures (f s) = su_procedures s \<and> su_channel (f s) = su_channel s \<and>
        su_assignedTmsi (f s) = su_assignedTmsi s \<and> su_lapdmLink (f s) = su_lapdmLink s \<and>
        mTrxNumber (su_context (f s)) = mTrxNumber (su_context s) \<and> mTimeslot (su_context (f s)) = mTimeslot (su_context s) \<and>
        (txm_inv (su_transactions s) \<longrightarrow> txm_inv (su_transactions (f s))))"

inductive registry_reachable :: "(u32 \<Rightarrow> u64) \<Rightarrow> (session_ptr set \<Rightarrow> session_ptr list) \<Rightarrow> SubscriberRegistry \<Rightarrow> bool"
  for H iterate where
  start: "registry_reachable H iterate registry0"
| create_tmsi: "registry_reachable H iterate reg \<Longrightarrow> mEntryCount (rg_byTMSI reg) < 2 ^ 31 \<Longrightarrow> createByTMSI H t reg = Some (r, reg') \<Longrightarrow>
    registry_reachable H iterate reg'"
| create_imsi: "registry_reachable H iterate reg \<Longrightarrow> mEntryCount (rg_byTMSI reg) < 2 ^ 31 \<Longrightarrow> createByIMSI H imsi reg = Some (r, reg') \<Longrightarrow>
    registry_reachable H iterate reg'"
| assign: "registry_reachable H iterate reg \<Longrightarrow> mEntryCount (rg_byLink reg) < 2 ^ 31 \<Longrightarrow> reg_assignChannel H p desc l reg = Some reg' \<Longrightarrow>
    registry_reachable H iterate reg'"
| release: "registry_reachable H iterate reg \<Longrightarrow> reg_releaseChannel H p reg = Some reg' \<Longrightarrow> registry_reachable H iterate reg'"
| remove: "registry_reachable H iterate reg \<Longrightarrow> reg_remove H q reg = Some (b, reg') \<Longrightarrow> registry_reachable H iterate reg'"
| clear: "registry_reachable H iterate reg \<Longrightarrow> registry_reachable H iterate (reg_clear reg)"
| reserve: "registry_reachable H iterate reg \<Longrightarrow> expected \<le> 2 ^ 29 \<Longrightarrow> reg_reserve H expected reg = Some reg' \<Longrightarrow> registry_reachable H iterate reg'"
| start_timer: "registry_reachable H iterate reg \<Longrightarrow> registry_reachable H iterate (drive_timers p (\<lambda>m. snd (tm_start_with i d m)) reg)"
| stop_timer: "registry_reachable H iterate reg \<Longrightarrow> registry_reachable H iterate (drive_timers p (tm_stop i) reg)"
| stop_timers: "registry_reachable H iterate reg \<Longrightarrow> registry_reachable H iterate (drive_timers p tm_stopAll reg)"
| feed: "registry_reachable H iterate reg \<Longrightarrow> registry_reachable H iterate (session_feed sink msg p reg)"
| cancel: "registry_reachable H iterate reg \<Longrightarrow> registry_reachable H iterate (drive_procedures p cancelAll reg)"
| use_session: "registry_reachable H iterate reg \<Longrightarrow> session_at reg p \<noteq> None \<Longrightarrow> session_change f \<Longrightarrow>
    registry_reachable H iterate (upd_session p f reg)"
| tick_timers: "registry_reachable H iterate reg \<Longrightarrow> registry_reachable H iterate (snd (tickAllTimers iterate delta cap reg))"
| tick_procedures: "registry_reachable H iterate reg \<Longrightarrow> registry_reachable H iterate (snd (tickAllProcedures iterate delta reg))"

lemma registry0_inv: "reg_inv H registry0"
proof -
  have "reg_heap registry0 = Map.empty" using heap_dom [of registry0] by (simp add: registry0_def fm_live_def flat_map0_def)
  then show ?thesis by (simp add: reg_inv_def registry0_def flat_map0_inv links_ok_def)
qed

lemma drive_keeps:
  assumes "reg_inv H reg"
  shows "notes_grow timers_ok tmNotes g \<Longrightarrow> reg_inv H (drive_timers p g reg)"
    "notes_grow runner_ok rnNotes f \<Longrightarrow> reg_inv H (drive_procedures p f reg)"
proof -
  have "drive_timers p g reg = reg" "drive_procedures p f reg = reg" if "reg_heap reg p = None"
    using that by (simp_all add: drive_timers_def drive_procedures_def session_at_heap)
  then show "notes_grow timers_ok tmNotes g \<Longrightarrow> reg_inv H (drive_timers p g reg)"
    "notes_grow runner_ok rnNotes f \<Longrightarrow> reg_inv H (drive_procedures p f reg)"
    using drive_timers_inv(1) [OF assms] drive_procedures_inv(1) [OF assms] assms by (metis not_Some_eq surj_pair)+
qed

lemma session_feed_keeps:
  assumes inv: "reg_inv H reg"
  shows "reg_inv H (session_feed sink msg p reg) \<and>
    map_option fst (reg_heap (session_feed sink msg p reg) q) = map_option fst (reg_heap reg q)"
proof (cases "reg_heap reg p")
  case None
  then show ?thesis using inv by (simp add: session_feed_def session_at_heap)
next
  case (Some ts)
  obtain t s where ts: "ts = (t, s)" by force
  let ?feed = "\<lambda>rn. runner_feed sink msg (Some (session_view s)) rn"
  define out where "out = ?feed (su_procedures s)"
  have at: "reg_heap reg p = Some (t, s)" using Some ts by simp
  have same: "drive_procedures p (\<lambda>_. fo_proc out) reg = drive_procedures p (\<lambda>rn. fo_proc (?feed rn)) reg"
    using at by (simp add: drive_procedures_def session_at_heap out_def)
  note N = drive_procedures_inv [OF inv at runner_ops_grow(1) [of sink msg "Some (session_view s)"], folded same]
  let ?s = "s\<lparr>su_procedures := fo_proc out\<rparr>"
  have at1: "reg_heap (drive_procedures p (\<lambda>_. fo_proc out) reg) p = Some (t, ?s)" using N(2) by (simp add: out_def)
  have ok: "session_ok t ?s" by (rule reg_invD(4) [OF N(1) at1])
  have ctx: "su_context (session_put (fo_session out) ?s) = su_context ?s"
    using runner_context(1) [of sink msg "Some (session_view s)" "su_procedures s", folded out_def]
    by (auto simp: session_put_def session_view_def split: option.split)
  let ?reg = "upd_session p (session_put (fo_session out)) (drive_procedures p (\<lambda>_. fo_proc out) reg)"
  have "reg_inv H ?reg" "reg_heap ?reg = (reg_heap (drive_procedures p (\<lambda>_. fo_proc out) reg))(p \<mapsto> (t, session_put (fo_session out) ?s))"
    by (rule upd_session_inv [OF N(1) at1]; use ok ctx in \<open>simp add: session_ok_def session_linkKey_def\<close>)+
  moreover have "session_feed sink msg p reg = ?reg" using at by (simp add: session_feed_def session_at_heap out_def Let_def)
  ultimately show ?thesis using at N(2) by simp
qed

lemma session_change_keeps:
  assumes inv: "reg_inv H reg" and live: "session_at reg p \<noteq> None" and f: "session_change f"
  shows "reg_inv H (upd_session p f reg)" "map_option fst (reg_heap (upd_session p f reg) q) = map_option fst (reg_heap reg q)"
proof -
  obtain t s where at: "reg_heap reg p = Some (t, s)" using live by (auto simp: session_at_heap)
  have ok: "session_ok t (f s)" using reg_invD(4) [OF inv at] f by (simp add: session_ok_def session_change_def)
  note U = upd_session_inv [OF inv at, of f, OF ok]
  show "reg_inv H (upd_session p f reg)" by (rule U(1)) (use f in \<open>simp_all add: session_change_def session_linkKey_def\<close>)
  have "reg_heap (upd_session p f reg) = (reg_heap reg)(p \<mapsto> (t, f s))" by (rule U(2)) (use f in \<open>simp_all add: session_change_def session_linkKey_def\<close>)
  then show "map_option fst (reg_heap (upd_session p f reg) q) = map_option fst (reg_heap reg q)" using at by simp
qed

lemma registry_reachable_inv:
  assumes "registry_reachable H iterate reg" "walks iterate"
  shows "reg_inv H reg"
  using assms(1)
proof induction
  case (tick_timers reg delta cap)
  then show ?case using tickAllTimers_ok(1) [OF tick_timers(2) assms(2)] by (metis prod.collapse)
next
  case (create_tmsi reg t r reg')
  then show ?case using createByTMSI_inv by blast
next
  case (create_imsi reg imsi r reg')
  then show ?case using createByIMSI_inv by blast
next
  case (assign reg p desc l reg')
  then show ?case using reg_assign_inv(1) by blast
next
  case (release reg p reg')
  then show ?case using reg_release_inv by blast
next
  case (remove reg q b reg')
  then show ?case using reg_remove_inv by blast
next
  case (reserve reg expected reg')
  then show ?case using reg_reserve_inv(1) by blast
next
  case (use_session reg p f)
  then show ?case using session_change_keeps(1) by blast
qed (simp_all add: registry0_inv reg_clear_inv drive_keeps timer_ops_grow runner_ops_grow session_feed_keeps tickAllProcedures_ok)

lemma encodeLinkKey_parts:
  "ucast (encodeLinkKey a b c) = c" "ucast (drop_bit 8 (encodeLinkKey a b c)) = b" "ucast (drop_bit 16 (encodeLinkKey a b c)) = a"
proof -
  have far: "\<not> bit (x :: u8) (8 + n)" "\<not> bit (x :: u8) (16 + n)" for x n using bit_imp_le_length [of x] by fastforce+
  show "ucast (encodeLinkKey a b c) = c" "ucast (drop_bit 8 (encodeLinkKey a b c)) = b" "ucast (drop_bit 16 (encodeLinkKey a b c)) = a"
    by (rule bit_word_eqI; auto simp: encodeLinkKey_def bit_simps far)+
qed

lemma encodeLinkKey_inject: "encodeLinkKey a b c = encodeLinkKey a' b' c' \<longleftrightarrow> a = a' \<and> b = b' \<and> c = c'"
  by (metis encodeLinkKey_parts)

lemma session_at_iff: "session_at reg p = Some s \<longleftrightarrow> (\<exists>t. reg_heap reg p = Some (t, s))"
  by (auto simp: session_at_heap)

text \<open>What a caller sees of the invariant.\<close>

lemma reg_inv_finds:
  assumes inv: "reg_inv H reg"
  shows "rg_count reg = card {p. session_at reg p \<noteq> None}"
    "rg_activeTimers reg = {p. \<exists>s. session_at reg p = Some s \<and> 0 < runningCount (su_timers s)}"
    "rg_activeProcedures reg = {p. \<exists>s. session_at reg p = Some s \<and> 0 < activeCount (su_procedures s)}"
    "session_at reg p = Some s \<Longrightarrow> findByTMSI H (su_assignedTmsi s) reg = Some (Some p)"
    "findByTMSI H t reg = Some (Some p) \<Longrightarrow> \<exists>s. session_at reg p = Some s \<and> su_assignedTmsi s = t"
    "findByLink H trx ts l reg = Some (Some p) \<Longrightarrow> \<exists>s. session_at reg p = Some s \<and> su_channel s \<noteq> None \<and>
       mTrxNumber (su_context s) = trx \<and> mTimeslot (su_context s) = ts \<and> su_lapdmLink s = l"
proof -
  note D = reg_invD [OF inv]
  have "{p. session_at reg p \<noteq> None} = dom (reg_heap reg)" by (auto simp: session_at_heap)
  then show "rg_count reg = card {p. session_at reg p \<noteq> None}" using D(3) by simp
  show "rg_activeTimers reg = {p. \<exists>s. session_at reg p = Some s \<and> 0 < runningCount (su_timers s)}"
    "rg_activeProcedures reg = {p. \<exists>s. session_at reg p = Some s \<and> 0 < activeCount (su_procedures s)}"
    using inv by (auto simp: reg_inv_def session_at_iff)
  show "findByTMSI H (su_assignedTmsi s) reg = Some (Some p)" if s: "session_at reg p = Some s"
  proof -
    obtain t where t: "reg_heap reg p = Some (t, s)" using s by (auto simp: session_at_iff)
    then have "p \<in> fm_live (rg_byTMSI reg)" "fm_key (rg_byTMSI reg) p = su_assignedTmsi s" using D(4) [OF t] by (simp_all add: heap_Some session_ok_def)
    then show ?thesis using find_present [OF D(1)] by (metis findByTMSI_def)
  qed
  show "\<exists>s. session_at reg p = Some s \<and> su_assignedTmsi s = t" if f: "findByTMSI H t reg = Some (Some p)"
  proof -
    have "p \<in> fm_live (rg_byTMSI reg)" "fm_key (rg_byTMSI reg) p = t" using find_iff [OF D(1) f [unfolded findByTMSI_def]] by auto
    moreover obtain t' s where at: "reg_heap reg p = Some (t', s)" using calculation(1) heap_dom [of reg] by (metis domD surj_pair)
    ultimately show ?thesis using D(4) [OF at] by (auto simp: heap_Some session_ok_def session_at_iff)
  qed
  show "\<exists>s. session_at reg p = Some s \<and> su_channel s \<noteq> None \<and> mTrxNumber (su_context s) = trx \<and> mTimeslot (su_context s) = ts \<and> su_lapdmLink s = l"
    if f: "findByLink H trx ts l reg = Some (Some p)"
  proof -
    obtain idx where idx: "fm_find H (encodeLinkKey trx ts l) (rg_byLink reg) = Some (Some idx)" "en_value (mEntryAt (rg_byLink reg) idx) = Some p"
      using f by (auto simp: findByLink_def split: option.splits)
    have "fm_map (rg_byLink reg) (encodeLinkKey trx ts l) = Some p"
      using find_iff [OF D(2) idx(1)] idx(2) fm_map_Some [OF fm_invD(2) [OF D(2)]] by auto
    then obtain t s where "reg_heap reg p = Some (t, s)" "su_channel s \<noteq> None" "session_linkKey s = encodeLinkKey trx ts l"
      using D(8) unfolding links_ok_def by blast
    then show ?thesis by (auto simp: session_at_iff session_linkKey_def encodeLinkKey_inject)
  qed
qed

section \<open>Operations that return\<close>

lemma createByIMSI_returns:
  assumes inv: "reg_inv H reg" and count: "mEntryCount (rg_byTMSI reg) < 2 ^ 31" and room: "has_room (rg_byTMSI reg)"
    and few: "mSize (rg_byTMSI reg) + 2 \<le> 2 ^ 32" and new: "rg_byIMSI reg imsi = None"
  shows "\<exists>p reg'. createByIMSI H imsi reg = Some (Some p, reg')"
proof -
  note D = reg_invD [OF inv]
  obtain t n where a: "auto_tmsi H (rg_byTMSI reg) (rg_nextAutoTmsi reg) (rg_nextAutoTmsi reg + 1) 0 = Some (Some t, n)"
    using auto_tmsi_succeeds [OF D(1) room few] by blast
  have "fm_find H t (rg_byTMSI reg) = Some None" using auto_tmsi_free [OF D(1) a] by simp
  then have "t \<notin> dom (fm_map (rg_byTMSI reg))"
    using find_iff [OF D(1)] live_cases [OF fm_invD(2) [OF D(1)], of t] by auto
  then obtain idx m where "fm_emplace H 0 t session0 (rg_byTMSI reg) = Some ((idx, True), m)"
    using emplace_new [OF D(1) count _ room] by metis
  then show ?thesis using a new by (auto simp: createByIMSI_def Let_def)
qed

lemma remove_returns:
  assumes inv: "reg_inv H reg" and s: "session_at reg p = Some s" and free: "su_channel s = None"
  shows "\<exists>reg'. reg_remove H (Some p) reg = Some (True, reg')"
proof -
  have f: "fm_find H (su_assignedTmsi s) (rg_byTMSI reg) = Some (Some p)" using reg_inv_finds(4) [OF inv s] by (simp add: findByTMSI_def)
  obtain reg1 where r1: "reg_releaseChannel H p reg = Some reg1" using s free by (simp add: reg_releaseChannel_def erase_link_def)
  obtain t s' where R: "reg_inv H reg1" "reg_heap reg1 p = Some (t, s')" using reg_release_inv [OF inv r1] by auto
  have "p \<in> fm_live (rg_byTMSI reg1)" using R(2) heap_dom [of reg1] by auto
  then obtain m where "fm_erase H 0 p (rg_byTMSI reg1) = Some (True, m)" using erase_live [OF reg_invD(1) [OF R(1)]] by metis
  then show ?thesis using s f r1
    by (auto simp: reg_remove_def remove_session_def Let_def handleProcedureActive_def handleTimerActive_def)
qed

text \<open>Removing an entry keeps an empty slot in the table, and the number of entries.\<close>

lemma rehash_fields: "rehash H n m = Some m' \<Longrightarrow> mTomb m' = 0 \<and> mEntryCount m' = mEntryCount m"
proof -
  have "rehash_from H idxs m slots = Some (slots', m') \<Longrightarrow> mEntryCount m' = mEntryCount m" for idxs slots slots' and m m' :: "('a, 'b) FlatMap"
    by (induction H idxs m slots rule: rehash_from.induct) (auto split: if_splits option.splits)
  then show "rehash H n m = Some m' \<Longrightarrow> mTomb m' = 0 \<and> mEntryCount m' = mEntryCount m"
    by (auto simp: rehash_def split: option.splits)
qed

lemma erase_room:
  assumes inv: "fm_inv H m" and idx: "idx \<in> fm_live m" and room: "has_room m" and ret: "fm_erase H k0 idx m = Some (b, m')"
  shows "has_room m' \<and> mEntryCount m' = mEntryCount m"
proof -
  note I = fm_invD [OF inv]
  have ne: "mSlots m \<noteq> []" using I(10) idx by blast
  note T = table_okD [OF I(7) [OF ne]]
  let ?p = "fm_pos m idx"
  let ?m1 = "m\<lparr>mSlots := (mSlots m)[?p := kTomb], mTomb := mTomb m + 1,
    mSlabs := set_slab_entry idx (\<lambda>e. e\<lparr>en_value := None, en_key := k0\<rparr>) (mSlabs m), mFree := mFree m @ [idx], mSize := mSize m - 1\<rparr>"
  have val: "idx < mEntryCount m" "en_value (mEntryAt m idx) \<noteq> None" using idx by (auto simp: fm_live_def)
  have "rehash H (length (mSlots m)) ?m1 = Some m' \<or> m' = ?m1" using ret val by (auto simp: fm_erase_def Let_def split: if_splits)
  then show ?thesis
  proof
    assume r: "rehash H (length (mSlots m)) ?m1 = Some m'"
    have inv': "fm_inv H m'" using erase_live [OF inv idx, of k0] ret by auto
    have "mSize m' + mTomb m' < length (mSlots m')" if "mSlots m' \<noteq> []"
      using fm_invD(8,9) [OF inv' that] rehash_fields [OF r] by linarith
    moreover have "card (fm_live m') + tombs (mSlots m') + length (filter (\<lambda>s. s = kEmpty) (mSlots m')) = length (mSlots m')" if "mSlots m' \<noteq> []"
      by (rule table_count [OF fm_invD(7) [OF inv' that] fm_invD(11) [OF inv']])
    ultimately have "mSlots m' \<noteq> [] \<Longrightarrow> 0 < length (filter (\<lambda>s. s = kEmpty) (mSlots m'))"
      using fm_invD(5,6) [OF inv'] by fastforce
    then have "has_room m'" by (auto simp: has_room_def filter_empty_conv)
    then show ?thesis using rehash_fields [OF r] by simp
  next
    assume m': "m' = ?m1"
    obtain j where j: "j < length (mSlots m)" "mSlots m ! j = kEmpty" using room ne by (auto simp: has_room_def in_set_conv_nth)
    have "mSlots m ! ?p \<noteq> kEmpty" using T(5) [OF idx] index_mark [OF I(11) [OF idx]] by auto
    then have "(mSlots m)[?p := kTomb] ! j = kEmpty" using j by (metis nth_list_update_neq)
    then have "kEmpty \<in> set ((mSlots m)[?p := kTomb])" using j(1) by (metis length_list_update nth_mem)
    then show ?thesis by (simp add: m' has_room_def)
  qed
qed

lemma remove_room:
  assumes inv: "reg_inv H reg" and room: "has_room (rg_byTMSI reg)" and ret: "reg_remove H (Some p) reg = Some (True, reg')"
  shows "has_room (rg_byTMSI reg') \<and> mEntryCount (rg_byTMSI reg') = mEntryCount (rg_byTMSI reg)"
proof -
  obtain s reg1 m b where s: "session_at reg p = Some s" and r1: "reg_releaseChannel H p reg = Some reg1"
      and e: "fm_erase H 0 p (rg_byTMSI reg1) = Some (b, m)" "rg_byTMSI reg' = m"
    using ret by (auto simp: reg_remove_def remove_session_def Let_def handleProcedureActive_def handleTimerActive_def split: option.splits if_splits)
  obtain f where up: "rg_byTMSI reg1 = fm_modify p f (rg_byTMSI reg)"
    using r1 by (auto simp: reg_releaseChannel_def upd_session_def split: option.splits)
  have p: "p < mEntryCount (rg_byTMSI reg)" using s by (simp add: session_at_def split: if_splits)
  note M = modify_ok [OF reg_invD(1) [OF inv] p, where f = f, folded up]
  have "p \<in> fm_live (rg_byTMSI reg1)" using M(2) p s by (simp add: fm_live_def session_at_def)
  from erase_room [OF M(1) this _ e(1)] show ?thesis using M(6,7) room e(2) by simp
qed

lemma createByTMSI_returns:
  assumes inv: "reg_inv H reg" and count: "mEntryCount (rg_byTMSI reg) < 2 ^ 31" and room: "has_room (rg_byTMSI reg)"
    and t: "t \<noteq> 0" and free: "\<And>p s. reg_heap reg p \<noteq> Some (t, s)"
  shows "\<exists>p reg'. createByTMSI H t reg = Some (Some p, reg')"
proof -
  note D = reg_invD [OF inv]
  have "fm_key (rg_byTMSI reg) p \<noteq> t" if "p \<in> fm_live (rg_byTMSI reg)" for p
    using that free [of p] by (auto simp: heap_Some fm_live_def)
  then have "t \<notin> dom (fm_map (rg_byTMSI reg))" using live_cases [OF fm_invD(2) [OF D(1)], of t] by blast
  then obtain idx m where "fm_emplace H 0 t session0 (rg_byTMSI reg) = Some ((idx, True), m)"
    using emplace_new [OF D(1) count _ room] by metis
  then show ?thesis using t by (simp add: createByTMSI_def)
qed

section \<open>Theorems\<close>

text \<open>
  C29. In every reachable registry the count is the number of sessions, each session is found under the temporary identity
  it was created with and under no other, the sets that the ticks walk are exactly the sessions with a running timer and
  with an active procedure, and a lookup by radio link only ever leads to a living session with that transceiver,
  timeslot and link.
\<close>

theorem registry_invariant:
  assumes "registry_reachable H iterate reg" and "walks iterate"
  shows "rg_count reg = card {p. session_at reg p \<noteq> None} \<and>
    rg_activeTimers reg = {p. \<exists>s. session_at reg p = Some s \<and> 0 < runningCount (su_timers s)} \<and>
    rg_activeProcedures reg = {p. \<exists>s. session_at reg p = Some s \<and> 0 < activeCount (su_procedures s)} \<and>
    (\<forall>p s. session_at reg p = Some s \<longrightarrow> findByTMSI H (su_assignedTmsi s) reg = Some (Some p)) \<and>
    (\<forall>t p. findByTMSI H t reg = Some (Some p) \<longrightarrow> (\<exists>s. session_at reg p = Some s \<and> su_assignedTmsi s = t)) \<and>
    (\<forall>trx ts l p. findByLink H trx ts l reg = Some (Some p) \<longrightarrow> (\<exists>s. session_at reg p = Some s \<and> su_channel s \<noteq> None \<and>
       mTrxNumber (su_context s) = trx \<and> mTimeslot (su_context s) = ts \<and> su_lapdmLink s = l))"
  using reg_inv_finds [OF registry_reachable_inv [OF assms]] by blast

lemma walks_sorted: "walks sorted_list_of_set"
  by (simp add: walks_def)

text \<open>A registry with one subscriber, for whom timer T3101 runs for 100 ms.\<close>

lemma first_subscriber: "\<exists>p reg. createByIMSI H imsi registry0 = Some (Some p, reg)"
  using createByIMSI_returns [OF registry0_inv, where imsi = imsi] by (simp add: registry0_def has_room_def flat_map0_def)

lemma populated:
  "\<exists>p reg s. registry_reachable H iterate reg \<and> session_at reg p = Some s \<and> su_assignedTmsi s \<noteq> 0 \<and>
     tm_isRunning T3101 (su_timers s) \<and> tm_remaining T3101 (su_timers s) = 100"
proof -
  obtain p reg where c: "createByIMSI H ''1'' registry0 = Some (Some p, reg)" using first_subscriber by blast
  have n: "mEntryCount (rg_byTMSI registry0) < 2 ^ 31" by (simp add: registry0_def flat_map0_def)
  have inv: "reg_inv H reg" using createByIMSI_inv [OF registry0_inv n c] by simp
  obtain t s where at: "reg_heap reg p = Some (t, s)" using createByIMSI_inv [OF registry0_inv n c] by (auto simp: created_def)
  let ?reg = "drive_timers p (\<lambda>m. snd (tm_start_with T3101 100 m)) reg" and ?s = "s\<lparr>su_timers := snd (tm_start_with T3101 100 (su_timers s))\<rparr>"
  have "registry_reachable H iterate ?reg" by (rule registry_reachable.start_timer [OF registry_reachable.create_imsi [OF registry_reachable.start n c]])
  moreover have "session_at ?reg p = Some ?s"
    using drive_timers_inv(2) [OF inv at timer_ops_grow(1) [of T3101 100]] by (simp add: session_at_heap)
  moreover have "tm_inv (su_timers s)" "t \<noteq> 0" "su_assignedTmsi s = t"
    using reg_invD(4) [OF inv at] by (simp_all add: session_ok_def timers_ok_def)
  moreover have "tm_isRunning T3101 (su_timers ?s)" "tm_remaining T3101 (su_timers ?s) = 100"
    using tmr.running_start [OF calculation(3)] tmr.left_start [OF calculation(3)] by simp_all
  ultimately show ?thesis by (intro exI [of _ p] exI [of _ ?reg] exI [of _ ?s]) simp
qed

theorem registry_invariant_witness:
  "\<exists>p reg s. session_at reg p = Some s \<and> su_assignedTmsi s \<noteq> 0 \<and> findByTMSI (\<lambda>_. 0) (su_assignedTmsi s) reg = Some (Some p) \<and>
     rg_count reg = card {p. session_at reg p \<noteq> None}"
proof -
  obtain p reg s where w: "registry_reachable (\<lambda>_. 0) sorted_list_of_set reg" "session_at reg p = Some s" "su_assignedTmsi s \<noteq> 0"
    using populated [of "\<lambda>_. 0" sorted_list_of_set] by blast
  show ?thesis using registry_invariant [OF w(1) walks_sorted] w(2,3) by blast
qed

text \<open>
  C30. A tick of all timers loses no expiry and stops no other timer, whatever the size of the caller's buffer: at every
  session, a running timer with more time left than \<open>delta\<close> runs on with that much less; one that is due is reported with
  its session and stopped, or the buffer is full and it runs again for one millisecond; a stopped timer stays stopped. At
  most as many expiries are written as the buffer holds.
\<close>

theorem registry_no_expiry_lost:
  assumes "registry_reachable H iterate reg" and "walks iterate" and "tickAllTimers iterate delta cap reg = (out, reg')"
  shows "length out \<le> cap \<and>
    (\<forall>p s. session_at reg p = Some s \<longrightarrow> (\<exists>s'. session_at reg' p = Some s' \<and> su_assignedTmsi s' = su_assignedTmsi s \<and>
       (\<forall>j. if \<not> tm_isRunning j (su_timers s) then (p, j) \<notin> set out \<and> \<not> tm_isRunning j (su_timers s')
            else if delta < tm_remaining j (su_timers s)
            then (p, j) \<notin> set out \<and> tm_isRunning j (su_timers s') \<and> tm_remaining j (su_timers s') = tm_remaining j (su_timers s) - delta
            else (p, j) \<in> set out \<and> \<not> tm_isRunning j (su_timers s') \<or>
                 (p, j) \<notin> set out \<and> length out = cap \<and> tm_isRunning j (su_timers s') \<and> tm_remaining j (su_timers s') = 1)))"
proof -
  note inv = registry_reachable_inv [OF assms(1,2)]
  note T = tickAllTimers_ok [OF inv assms(2,3)]
  have "\<exists>s'. session_at reg' p = Some s' \<and> su_assignedTmsi s' = su_assignedTmsi s \<and>
      (\<forall>j. tick_outcome delta (su_timers s) (su_timers s') ((p, j) \<in> set out) (length out = cap) j)" if s: "session_at reg p = Some s" for p s
  proof -
    obtain t where at: "reg_heap reg p = Some (t, s)" using s by (auto simp: session_at_iff)
    obtain s' where at': "reg_heap reg' p = Some (t, s')" "\<forall>j. tick_outcome delta (su_timers s) (su_timers s') ((p, j) \<in> set out) (length out = cap) j"
      using T(3) [OF at] by blast
    have "su_assignedTmsi s' = su_assignedTmsi s" using reg_invD(4) [OF inv at] reg_invD(4) [OF T(1) at'(1)] by (simp add: session_ok_def)
    then show ?thesis using at' by (auto simp: session_at_iff)
  qed
  then show ?thesis using T(2) by (simp add: tick_outcome_def)
qed

theorem registry_no_expiry_lost_witness:
  "\<exists>p reg s. session_at reg p = Some s \<and> tm_isRunning T3101 (su_timers s) \<and>
     (\<exists>s'. session_at (snd (tickAllTimers sorted_list_of_set 100 0 reg)) p = Some s' \<and> tm_remaining T3101 (su_timers s') = 1)"
proof -
  obtain p reg s where w: "registry_reachable (\<lambda>_. 0) sorted_list_of_set reg" "session_at reg p = Some s" "tm_isRunning T3101 (su_timers s)"
      "tm_remaining T3101 (su_timers s) = 100"
    using populated [of "\<lambda>_. 0" sorted_list_of_set] by blast
  define out reg' where "out = fst (tickAllTimers sorted_list_of_set 100 0 reg)" and "reg' = snd (tickAllTimers sorted_list_of_set 100 0 reg)"
  have t: "tickAllTimers sorted_list_of_set 100 0 reg = (out, reg')" by (simp add: out_def reg'_def)
  note L = registry_no_expiry_lost [OF w(1) walks_sorted t, THEN conjunct2, rule_format, OF w(2)]
  have "out = []" using registry_no_expiry_lost [OF w(1) walks_sorted t] by simp
  then obtain s' where "session_at reg' p = Some s'" "tm_remaining T3101 (su_timers s') = 1" using L w(3,4) by (auto dest: spec [of _ T3101])
  then show ?thesis using w(2,3) by (auto simp: reg'_def)
qed

section \<open>An index entry that outlives its subscriber\<close>

lemma after_identity_change:
  assumes inv: "reg_inv H reg" and count: "mEntryCount (rg_byTMSI reg) < 2 ^ 31" and create: "createByIMSI H imsi reg = Some (Some p, reg1)"
    and reg2_def: "reg2 = upd_session p (\<lambda>s. s\<lparr>su_context := setTMSI t (su_context s)\<rparr>) reg1"
  shows "\<exists>s tmsi. reg_inv H reg2 \<and> session_at reg2 p = Some s \<and> su_channel s = None \<and> \<not> mi_isIMSI (mIdentity (su_context s)) \<and>
    su_assignedTmsi s = tmsi \<and> rg_byIMSI reg2 imsi = Some tmsi"
proof -
  obtain tmsi where c: "reg_inv H reg1" "created tmsi (setIMSI imsi context0) p reg reg1" "rg_byIMSI reg1 imsi = Some tmsi"
    using createByIMSI_inv [OF inv count create] by auto
  define s where "s = adopt tmsi (session0\<lparr>su_context := setIMSI imsi context0\<rparr>)"
  let ?f = "\<lambda>s. s\<lparr>su_context := setTMSI t (su_context s)\<rparr>"
  have at: "reg_heap reg1 p = Some (tmsi, s)" using c(2) by (simp add: created_def s_def)
  note U = upd_session_inv [OF c(1) at, of ?f, folded reg2_def]
  have ok: "session_ok tmsi (?f s)" using reg_invD(4) [OF c(1) at] by (simp add: session_ok_def)
  have same: "session_linkKey (?f s) = session_linkKey s" by (simp add: session_linkKey_def setTMSI_def)
  have "reg_inv H reg2" "session_at reg2 p = Some (?f s)" using U [OF ok _ _ _ same] by (simp_all add: session_at_heap)
  moreover have "su_channel (?f s) = None" "\<not> mi_isIMSI (mIdentity (su_context (?f s)))" "su_assignedTmsi (?f s) = tmsi"
    by (simp_all add: s_def adopt_def session0_def setTMSI_def mi_of_tmsi_def mi_isIMSI_def)
  moreover have "rg_byIMSI reg2 imsi = Some tmsi" using c(3) by (simp add: reg2_def)
  ultimately show ?thesis by blast
qed

text \<open>
  C31. Removal looks the subscriber identity up in the context, not in the index. A session created for an IMSI whose
  identity is then replaced by a TMSI through \<^verbatim>\<open>MSContext::setTMSI\<close> leaves its index entry behind
  when it is removed: the removal reports success, yet the IMSI cannot be registered again, and once the temporary
  identity is given to another subscriber the lookup by the old IMSI returns that subscriber's session. The table of the
  sessions is assumed to have an empty slot, so that its lookups return.
\<close>

theorem stale_imsi:
  assumes "registry_reachable H iterate reg" and "walks iterate" and "mEntryCount (rg_byTMSI reg) < 2 ^ 31"
    and "createByIMSI H imsi reg = Some (Some p, reg1)" and "has_room (rg_byTMSI reg1)" and "mEntryCount (rg_byTMSI reg1) < 2 ^ 31"
    and "reg2 = upd_session p (\<lambda>s. s\<lparr>su_context := setTMSI t (su_context s)\<rparr>) reg1"
  shows "\<exists>reg3 tmsi q reg4. findByTMSI H tmsi reg2 = Some (Some p) \<and>
    reg_remove H (Some p) reg2 = Some (True, reg3) \<and> session_at reg3 p = None \<and> createByIMSI H imsi reg3 = Some (None, reg3) \<and>
    createByTMSI H tmsi reg3 = Some (Some q, reg4) \<and> findByIMSI H imsi reg4 = Some (Some q)"
proof -
  note inv = registry_reachable_inv [OF assms(1,2)]
  obtain s tmsi where s: "reg_inv H reg2" "session_at reg2 p = Some s" "su_channel s = None" "\<not> mi_isIMSI (mIdentity (su_context s))"
      "su_assignedTmsi s = tmsi" "rg_byIMSI reg2 imsi = Some tmsi"
    using after_identity_change [OF inv assms(3,4,7)] by blast
  obtain reg3 where r: "reg_remove H (Some p) reg2 = Some (True, reg3)" using remove_returns [OF s(1-3)] by blast
  have R: "reg_inv H reg3" "reg_heap reg3 = (reg_heap reg2)(p := None)" "rg_byIMSI reg3 imsi = Some tmsi"
    using reg_remove_inv [OF s(1) r] s(2,4,6) by (auto simp: session_at_heap)
  have p1: "p < mEntryCount (rg_byTMSI reg1)"
    using s(2) by (simp add: session_at_def assms(7) upd_session_def fm_modify_def split: if_splits)
  have "reg_inv H reg1" using createByIMSI_inv [OF inv assms(3,4)] by simp
  note M = modify_ok(6,7) [OF reg_invD(1) [OF this] p1]
  have room: "has_room (rg_byTMSI reg3)" "mEntryCount (rg_byTMSI reg3) < 2 ^ 31"
    using remove_room [OF s(1) _ r] assms(5,6) by (simp_all add: assms(7) upd_session_def M)
  have t: "tmsi \<noteq> 0" "findByTMSI H tmsi reg2 = Some (Some p)"
    using reg_invD(4) [OF s(1)] s(2,5) reg_inv_finds(4) [OF s(1,2)] by (auto simp: session_at_iff session_ok_def)
  have "reg_heap reg3 p' \<noteq> Some (tmsi, s')" for p' s'
  proof
    assume a: "reg_heap reg3 p' = Some (tmsi, s')"
    have "session_at reg3 p' = Some s'" "su_assignedTmsi s' = tmsi" using a reg_invD(4) [OF R(1) a] by (auto simp: session_at_iff session_ok_def)
    moreover have "reg_heap reg2 p' = Some (tmsi, s')" "p' \<noteq> p" using a R(2) by (auto split: if_splits)
    ultimately show False using reg_inv_finds(4) [OF s(1), of p' s'] t(2) by (simp add: session_at_iff)
  qed
  then obtain q reg4 where c: "createByTMSI H tmsi reg3 = Some (Some q, reg4)"
    using createByTMSI_returns [OF R(1) room(2,1) t(1)] by blast
  note I = createByTMSI_inv [OF R(1) room(2) c, simplified]
  have at: "session_at reg4 q = Some (adopt tmsi (session0\<lparr>su_context := setTMSI tmsi context0\<rparr>))" using I by (simp add: created_def session_at_heap)
  have "findByTMSI H tmsi reg4 = Some (Some q)" using reg_inv_finds(4) [OF _ at] I by (simp add: adopt_def)
  then have "findByIMSI H imsi reg4 = Some (Some q)" using I R(3) by (simp add: findByIMSI_def)
  moreover have "createByIMSI H imsi reg3 = Some (None, reg3)" using R(3) by (simp add: createByIMSI_def)
  moreover have "session_at reg3 p = None" using R(2) by (simp add: session_at_heap)
  ultimately show ?thesis using r c t(2) by blast
qed

lemma first_create_room:
  assumes "createByIMSI H imsi registry0 = Some (Some p, reg)"
  shows "has_room (rg_byTMSI reg) \<and> mEntryCount (rg_byTMSI reg) < 2 ^ 31"
proof -
  obtain t f m where e: "fm_emplace H 0 t session0 (flat_map0 :: (u32, SubscriberSession) FlatMap) = Some ((p, True), m)"
      "rg_byTMSI reg = fm_modify p f m"
    using assms by (auto simp: createByIMSI_def registry0_def Let_def upd_session_def split: option.splits prod.splits if_splits)
  obtain m' where m': "fm_step H 0 (Put t session0) (flat_map0 :: (u32, SubscriberSession) FlatMap) = Some (Done True, m')"
      "table_profile H m' ({..<8} - {home_slot H 8 t}) 1 0 {t} 1"
    by (rule profile_first)
  have "m' = m" using m'(1) e(1) by simp
  moreover have "{..<8} - {home_slot H 8 t} \<noteq> {}" by (cases "home_slot H 8 t = 0") (auto simp: set_eq_iff intro: exI [of _ 1] exI [of _ 0])
  ultimately show ?thesis using profile_room [OF m'(2)] m'(2)
    by (simp add: e(2) table_profile_def has_room_def fm_modify_def)
qed

theorem stale_imsi_witness:
  "\<exists>p reg1 reg3 tmsi q reg4. createByIMSI (\<lambda>_. 0) ''244051234567890'' registry0 = Some (Some p, reg1) \<and>
     reg_remove (\<lambda>_. 0) (Some p) (upd_session p (\<lambda>s. s\<lparr>su_context := setTMSI 7 (su_context s)\<rparr>) reg1) = Some (True, reg3) \<and>
     session_at reg3 p = None \<and> createByIMSI (\<lambda>_. 0) ''244051234567890'' reg3 = Some (None, reg3) \<and>
     createByTMSI (\<lambda>_. 0) tmsi reg3 = Some (Some q, reg4) \<and> findByIMSI (\<lambda>_. 0) ''244051234567890'' reg4 = Some (Some q)"
proof -
  have n: "mEntryCount (rg_byTMSI registry0) < 2 ^ 31" by (simp add: registry0_def flat_map0_def)
  obtain p reg1 where c: "createByIMSI (\<lambda>_. 0) ''244051234567890'' registry0 = Some (Some p, reg1)" using first_subscriber by blast
  note F = first_create_room [OF c]
  show ?thesis using stale_imsi [OF registry_reachable.start walks_sorted n c conjunct1 [OF F] conjunct2 [OF F] refl, of 7] c by blast
qed

end
