(* ===== verification/Sharded_Registry.thy ===== *)
theory Sharded_Registry
  imports Registry_Reachable
begin

text \<open>
  The sharded registry of \<^verbatim>\<open>stack/subscriber_registry.h\<close>: four registries, each under its own lock; the temporary identity
  selects the shard. An operation holds the lock of the shard it works on, so it is one step of that shard; the operations that
  walk all shards are here executed without another thread in between. A pointer to a session is the shard and the pointer within it.
\<close>

unbundle bit_operations_syntax

section \<open>State and operations\<close>

type_synonym ShardedRegistry = "SubscriberRegistry list"

type_synonym shard_ptr = "nat \<times> session_ptr"

text \<open>The template is instantiated for four shards.\<close>

definition sharded0 :: ShardedRegistry where
  "sharded0 = replicate 4 registry0"

definition hashTMSI :: "u32 \<Rightarrow> u32" where
  "hashTMSI tmsi =
     (let h1 = tmsi XOR drop_bit 16 tmsi;
          h2 = h1 * 0x7feb352d;
          h3 = h2 XOR drop_bit 15 h2;
          h4 = h3 * 0x846ca68b
      in h4 XOR drop_bit 16 h4)"

definition shardIndex :: "nat \<Rightarrow> u32 \<Rightarrow> nat" where
  "shardIndex n hash = unat (hash AND (of_nat n - 1))"

definition debugShardForTmsi :: "u32 \<Rightarrow> nat" where
  "debugShardForTmsi tmsi = shardIndex 4 (hashTMSI tmsi)"

definition sh_createByTMSI :: "(u32 \<Rightarrow> u64) \<Rightarrow> u32 \<Rightarrow> ShardedRegistry \<Rightarrow> (shard_ptr option \<times> ShardedRegistry) option" where
  "sh_createByTMSI H tmsi rs =
     (let idx = debugShardForTmsi tmsi
      in map_option (\<lambda>(r, reg). (map_option (Pair idx) r, rs[idx := reg])) (createByTMSI H tmsi (rs ! idx)))"

definition sh_findByTMSI :: "(u32 \<Rightarrow> u64) \<Rightarrow> u32 \<Rightarrow> ShardedRegistry \<Rightarrow> shard_ptr option option" where
  "sh_findByTMSI H tmsi rs =
     (let idx = debugShardForTmsi tmsi in map_option (map_option (Pair idx)) (findByTMSI H tmsi (rs ! idx)))"

text \<open>The scan of all shards, with \<open>look\<close> the lookup in one.\<close>

fun scan_shards :: "(SubscriberRegistry \<Rightarrow> session_ptr option option) \<Rightarrow> nat \<Rightarrow> SubscriberRegistry list \<Rightarrow> shard_ptr option option" where
  "scan_shards look i [] = Some None"
| "scan_shards look i (reg # rs) =
     (case look reg of
        None \<Rightarrow> None
      | Some (Some p) \<Rightarrow> Some (Some (i, p))
      | Some None \<Rightarrow> scan_shards look (Suc i) rs)"

definition sh_findByIMSI :: "(u32 \<Rightarrow> u64) \<Rightarrow> string \<Rightarrow> ShardedRegistry \<Rightarrow> shard_ptr option option" where
  "sh_findByIMSI H imsi rs = scan_shards (findByIMSI H imsi) 0 rs"

definition sh_findByLink :: "(u32 \<Rightarrow> u64) \<Rightarrow> u8 \<Rightarrow> u8 \<Rightarrow> u8 \<Rightarrow> ShardedRegistry \<Rightarrow> shard_ptr option option" where
  "sh_findByLink H trx ts lapdmLink rs = scan_shards (findByLink H trx ts lapdmLink) 0 rs"

definition sh_session_at :: "ShardedRegistry \<Rightarrow> shard_ptr \<Rightarrow> SubscriberSession option" where
  "sh_session_at rs q = (if fst q < length rs then session_at (rs ! fst q) (snd q) else None)"

text \<open>
  Removal: the shard is that of the identity the session was created with. In another shard than its own the pointer of
  the session equals that of no entry.
\<close>

definition sh_remove :: "(u32 \<Rightarrow> u64) \<Rightarrow> shard_ptr option \<Rightarrow> ShardedRegistry \<Rightarrow> (bool \<times> ShardedRegistry) option" where
  "sh_remove H q rs =
     (case q of
        None \<Rightarrow> Some (False, rs)
      | Some (j, p) \<Rightarrow>
          (case sh_session_at rs (j, p) of
             None \<Rightarrow> None
           | Some s \<Rightarrow>
               if su_assignedTmsi s = 0 then Some (False, rs)
               else let idx = debugShardForTmsi (su_assignedTmsi s)
                    in if idx = j then map_option (\<lambda>(b, reg). (b, rs[idx := reg])) (reg_remove H (Some p) (rs ! idx))
                       else map_option (\<lambda>_. (False, rs)) (fm_find H (su_assignedTmsi s) (rg_byTMSI (rs ! idx)))))"

text \<open>The ticks: \<open>cap\<close> is the room left in the buffer when shard \<open>i\<close> is reached.\<close>

fun tick_shards ::
  "(session_ptr set \<Rightarrow> session_ptr list) \<Rightarrow> int \<Rightarrow> nat \<Rightarrow> nat \<Rightarrow> SubscriberRegistry list \<Rightarrow> (shard_ptr \<times> L3TimerId) list \<times> SubscriberRegistry list" where
  "tick_shards iterate delta cap i [] = ([], [])"
| "tick_shards iterate delta cap i (reg # rs) =
     (if cap = 0 then ([], reg # rs)
      else let (out, reg') = tickAllTimers iterate delta cap reg;
               (rest, rs') = tick_shards iterate delta (cap - length out) (Suc i) rs
           in (map (\<lambda>(p, t). ((i, p), t)) out @ rest, reg' # rs'))"

definition sh_tickAllTimers ::
  "(session_ptr set \<Rightarrow> session_ptr list) \<Rightarrow> int \<Rightarrow> nat \<Rightarrow> ShardedRegistry \<Rightarrow> (shard_ptr \<times> L3TimerId) list \<times> ShardedRegistry" where
  "sh_tickAllTimers iterate delta cap rs = tick_shards iterate delta cap 0 rs"

fun sh_tickAllProcedures :: "(session_ptr set \<Rightarrow> session_ptr list) \<Rightarrow> int \<Rightarrow> ShardedRegistry \<Rightarrow> nat \<times> ShardedRegistry" where
  "sh_tickAllProcedures iterate delta [] = (0, [])"
| "sh_tickAllProcedures iterate delta (reg # rs) =
     (let (n, reg') = tickAllProcedures iterate delta reg;
          (k, rs') = sh_tickAllProcedures iterate delta rs
      in (n + k, reg' # rs'))"

fun reserve_shards :: "(u32 \<Rightarrow> u64) \<Rightarrow> nat \<Rightarrow> ShardedRegistry \<Rightarrow> ShardedRegistry option" where
  "reserve_shards H each [] = Some []"
| "reserve_shards H each (reg # rs) =
     (case reg_reserve H each reg of
        None \<Rightarrow> None
      | Some reg' \<Rightarrow> map_option (Cons reg') (reserve_shards H each rs))"

definition sh_reserve :: "(u32 \<Rightarrow> u64) \<Rightarrow> nat \<Rightarrow> ShardedRegistry \<Rightarrow> ShardedRegistry option" where
  "sh_reserve H expected rs = reserve_shards H (expected div 4 + 1) rs"

definition sh_count :: "ShardedRegistry \<Rightarrow> nat" where
  "sh_count rs = sum_list (map rg_count rs)"

definition sh_forEach :: "ShardedRegistry \<Rightarrow> SubscriberSession list" where
  "sh_forEach rs = concat (map reg_forEach rs)"

section \<open>What a thread does under the lock of a shard\<close>

text \<open>
  \<^verbatim>\<open>lockForTMSI\<close> hands the registry of a shard out: sessions of identities that belong to the shard are created there, channels
  assigned and released, sessions removed and used, timers and procedures driven.
\<close>

inductive locked_step :: "(u32 \<Rightarrow> u64) \<Rightarrow> nat \<Rightarrow> SubscriberRegistry \<Rightarrow> SubscriberRegistry \<Rightarrow> bool" for H i where
  create: "mEntryCount (rg_byTMSI reg) < 2 ^ 31 \<Longrightarrow> debugShardForTmsi t = i \<Longrightarrow> createByTMSI H t reg = Some (r, reg') \<Longrightarrow> locked_step H i reg reg'"
| assign: "mEntryCount (rg_byLink reg) < 2 ^ 31 \<Longrightarrow> reg_assignChannel H p desc l reg = Some reg' \<Longrightarrow> locked_step H i reg reg'"
| release: "reg_releaseChannel H p reg = Some reg' \<Longrightarrow> locked_step H i reg reg'"
| remove: "reg_remove H q reg = Some (b, reg') \<Longrightarrow> locked_step H i reg reg'"
| start_timer: "locked_step H i reg (drive_timers p (\<lambda>m. snd (tm_start_with j d m)) reg)"
| stop_timer: "locked_step H i reg (drive_timers p (tm_stop j) reg)"
| feed: "locked_step H i reg (session_feed sink msg p reg)"
| cancel: "locked_step H i reg (drive_procedures p cancelAll reg)"
| use_session: "session_at reg p \<noteq> None \<Longrightarrow> session_change f \<Longrightarrow> locked_step H i reg (upd_session p f reg)"

inductive sharded_reachable :: "(u32 \<Rightarrow> u64) \<Rightarrow> (session_ptr set \<Rightarrow> session_ptr list) \<Rightarrow> ShardedRegistry \<Rightarrow> bool" for H iterate where
  start: "sharded_reachable H iterate sharded0"
| create: "sharded_reachable H iterate rs \<Longrightarrow> mEntryCount (rg_byTMSI (rs ! debugShardForTmsi t)) < 2 ^ 31 \<Longrightarrow> sh_createByTMSI H t rs = Some (r, rs') \<Longrightarrow>
    sharded_reachable H iterate rs'"
| remove: "sharded_reachable H iterate rs \<Longrightarrow> sh_remove H q rs = Some (b, rs') \<Longrightarrow> sharded_reachable H iterate rs'"
| locked: "sharded_reachable H iterate rs \<Longrightarrow> i < length rs \<Longrightarrow> locked_step H i (rs ! i) reg' \<Longrightarrow> sharded_reachable H iterate (rs[i := reg'])"
| tick_timers: "sharded_reachable H iterate rs \<Longrightarrow> sharded_reachable H iterate (snd (sh_tickAllTimers iterate delta cap rs))"
| tick_procedures: "sharded_reachable H iterate rs \<Longrightarrow> sharded_reachable H iterate (snd (sh_tickAllProcedures iterate delta rs))"
| reserve: "sharded_reachable H iterate rs \<Longrightarrow> expected < 2 ^ 29 \<Longrightarrow> sh_reserve H expected rs = Some rs' \<Longrightarrow> sharded_reachable H iterate rs'"

lemma debugShard_less: "debugShardForTmsi t < 4"
proof -
  have "hashTMSI t AND 3 \<le> (3 :: u32)" by (rule word_and_le1)
  then show ?thesis by (simp add: debugShardForTmsi_def shardIndex_def word_le_nat_alt)
qed

section \<open>Identities stay in their shard\<close>

definition reg_key :: "SubscriberRegistry \<Rightarrow> session_ptr \<rightharpoonup> u32" where
  "reg_key reg p = map_option fst (reg_heap reg p)"

definition in_shard :: "(u32 \<Rightarrow> u64) \<Rightarrow> nat \<Rightarrow> SubscriberRegistry \<Rightarrow> bool" where
  "in_shard H i reg \<longleftrightarrow> reg_inv H reg \<and> (\<forall>t\<in>ran (reg_key reg). debugShardForTmsi t = i)"

lemma reg_key_upd: "reg_heap reg p = Some (t, s) \<Longrightarrow> reg_heap reg' = (reg_heap reg)(p \<mapsto> (t, s')) \<Longrightarrow> reg_key reg' = reg_key reg"
  by (auto simp: reg_key_def fun_eq_iff)

lemma in_shard_keys: "in_shard H i reg \<Longrightarrow> reg_inv H reg' \<Longrightarrow> reg_key reg' = reg_key reg \<Longrightarrow> in_shard H i reg'"
  by (simp add: in_shard_def)

lemma registry0_in_shard: "in_shard H i registry0"
proof -
  have "reg_heap registry0 = Map.empty" using heap_dom [of registry0] by (simp add: registry0_def fm_live_def flat_map0_def)
  then show ?thesis by (simp add: in_shard_def registry0_inv reg_key_def ran_def)
qed

lemma drive_key:
  assumes "reg_inv H reg"
  shows "notes_grow timers_ok tmNotes g \<Longrightarrow> reg_key (drive_timers p g reg) = reg_key reg"
    "notes_grow runner_ok rnNotes f \<Longrightarrow> reg_key (drive_procedures p f reg) = reg_key reg"
proof -
  have none: "drive_timers p g reg = reg" "drive_procedures p f reg = reg" if "reg_heap reg p = None"
    using that by (simp_all add: drive_timers_def drive_procedures_def session_at_heap)
  show "reg_key (drive_timers p g reg) = reg_key reg" if g: "notes_grow timers_ok tmNotes g"
    using none(1) reg_key_upd [OF _ drive_timers_inv(2) [OF assms _ g]] by (cases "reg_heap reg p") auto
  show "reg_key (drive_procedures p f reg) = reg_key reg" if f: "notes_grow runner_ok rnNotes f"
    using none(2) reg_key_upd [OF _ drive_procedures_inv(2) [OF assms _ f]] by (cases "reg_heap reg p") auto
qed

lemma created_key: "created t c p reg reg' \<Longrightarrow> reg_key reg' = (reg_key reg)(p \<mapsto> t)"
  by (simp add: created_def reg_key_def fun_eq_iff)

lemma createByTMSI_in_shard:
  assumes sh: "in_shard H i reg" and n: "mEntryCount (rg_byTMSI reg) < 2 ^ 31" and i: "debugShardForTmsi t = i"
    and ret: "createByTMSI H t reg = Some (r, reg')"
  shows "in_shard H i reg'"
proof -
  have inv: "reg_inv H reg" using sh by (simp add: in_shard_def)
  show ?thesis
  proof (cases r)
    case None
    then show ?thesis using createByTMSI_inv [OF inv n ret] sh by auto
  next
    case (Some p)
    then have "reg_inv H reg'" "reg_key reg' = (reg_key reg)(p \<mapsto> t)" using createByTMSI_inv [OF inv n ret] created_key by auto
    then show ?thesis using sh i by (auto simp: in_shard_def ran_def)
  qed
qed

lemma remove_in_shard:
  assumes sh: "in_shard H i reg" and ret: "reg_remove H q reg = Some (b, reg')"
  shows "in_shard H i reg'"
proof -
  have inv: "reg_inv H reg" using sh by (simp add: in_shard_def)
  note R = reg_remove_inv [OF inv ret]
  show ?thesis
  proof (cases b)
    case True
    then obtain p where "reg_heap reg' = (reg_heap reg)(p := None)" using R by auto
    then have "reg_key reg' = (reg_key reg)(p := None)" by (simp add: reg_key_def fun_eq_iff)
    then have "ran (reg_key reg') \<subseteq> ran (reg_key reg)" by (auto simp: ran_def)
    then show ?thesis using sh R by (auto simp: in_shard_def)
  qed (use R sh in simp)
qed

lemma drive_in_shard:
  assumes sh: "in_shard H i reg"
  shows "notes_grow timers_ok tmNotes g \<Longrightarrow> in_shard H i (drive_timers p g reg)"
    "notes_grow runner_ok rnNotes f \<Longrightarrow> in_shard H i (drive_procedures p f reg)" "in_shard H i (session_feed sink msg p reg)"
proof -
  have inv: "reg_inv H reg" using sh by (simp add: in_shard_def)
  show "notes_grow timers_ok tmNotes g \<Longrightarrow> in_shard H i (drive_timers p g reg)" "notes_grow runner_ok rnNotes f \<Longrightarrow> in_shard H i (drive_procedures p f reg)"
    by (rule in_shard_keys [OF sh]; simp add: drive_keeps [OF inv] drive_key [OF inv])+
  show "in_shard H i (session_feed sink msg p reg)"
    by (rule in_shard_keys [OF sh]) (simp_all add: session_feed_keeps [OF inv] reg_key_def fun_eq_iff)
qed

lemma locked_step_in_shard:
  assumes "locked_step H i reg reg'" and sh: "in_shard H i reg"
  shows "in_shard H i reg'"
  using assms(1)
proof cases
  case (create t r)
  then show ?thesis using createByTMSI_in_shard sh by blast
next
  case (assign p desc l)
  have inv: "reg_inv H reg" using sh by (simp add: in_shard_def)
  note A = reg_assign_inv [OF inv assign]
  obtain t s s' where "reg_heap reg p = Some (t, s)" "reg_heap reg' = (reg_heap reg)(p \<mapsto> (t, s'))" using A(3) by blast
  then show ?thesis by (intro in_shard_keys [OF sh A(1)]) (rule reg_key_upd)
next
  case (release p)
  have inv: "reg_inv H reg" using sh by (simp add: in_shard_def)
  note R = reg_release_inv [OF inv release]
  then obtain t s s' where "reg_heap reg p = Some (t, s)" "reg_heap reg' = (reg_heap reg)(p \<mapsto> (t, s'))" by blast
  then show ?thesis using R by (intro in_shard_keys [OF sh]) (blast, rule reg_key_upd)
next
  case (remove q b)
  then show ?thesis using remove_in_shard sh by blast
next
  case (use_session p f)
  have inv: "reg_inv H reg" using sh by (simp add: in_shard_def)
  note K = session_change_keeps [OF inv use_session(2,3)]
  show ?thesis unfolding use_session(1) by (rule in_shard_keys [OF sh K(1)]) (simp add: reg_key_def fun_eq_iff K(2))
qed (simp_all add: drive_in_shard [OF sh] timer_ops_grow runner_ops_grow)

lemma tickAllTimers_in_shard:
  assumes sh: "in_shard H i reg" and w: "walks iterate"
  shows "in_shard H i (snd (tickAllTimers iterate delta cap reg))"
proof -
  have inv: "reg_inv H reg" using sh by (simp add: in_shard_def)
  obtain out reg' where t: "tickAllTimers iterate delta cap reg = (out, reg')" by force
  note T = tickAllTimers_ok [OF inv w t]
  have "reg_key reg' p = reg_key reg p" for p
  proof (cases "reg_heap reg p")
    case None
    then have "reg_heap reg' p = None" using T(4) by (metis domIff)
    then show ?thesis using None by (simp add: reg_key_def)
  next
    case (Some ts)
    then show ?thesis using T(3) [where p = p] by (cases ts) (auto simp: reg_key_def)
  qed
  then show ?thesis using in_shard_keys [OF sh T(1)] t by (simp add: fun_eq_iff)
qed

lemma tickAllProcedures_in_shard:
  assumes sh: "in_shard H i reg"
  shows "in_shard H i (snd (tickAllProcedures iterate delta reg))"
proof -
  have one: "in_shard H i (snd (tick_procedures delta p st))" if "in_shard H i (snd st)" for p st
    using that drive_in_shard(2) [OF that runner_ops_grow(3)] by (simp add: tick_procedures_def split: option.split)
  have "in_shard H i (snd (fold (tick_procedures delta) ps st))" if "in_shard H i (snd st)" for ps st
    using that by (induction ps arbitrary: st) (simp_all add: one)
  from this [of "(0, reg)"] sh show ?thesis by (simp add: tickAllProcedures_def)
qed

lemma reserve_in_shard:
  assumes sh: "in_shard H i reg" and "expected \<le> 2 ^ 29" "reg_reserve H expected reg = Some reg'"
  shows "in_shard H i reg'"
  using reg_reserve_inv [OF _ assms(2,3)] sh by (simp add: in_shard_def reg_key_def [abs_def])

section \<open>All shards\<close>

definition sharded_ok :: "(u32 \<Rightarrow> u64) \<Rightarrow> ShardedRegistry \<Rightarrow> bool" where
  "sharded_ok H rs \<longleftrightarrow> length rs = 4 \<and> (\<forall>i < 4. in_shard H i (rs ! i))"

lemma sharded_update: "sharded_ok H rs \<Longrightarrow> in_shard H i reg \<Longrightarrow> sharded_ok H (rs[i := reg])"
  by (cases "i < 4") (auto simp: sharded_ok_def nth_list_update)

text \<open>The operations that walk the shards change each on its own.\<close>

lemma sharded_each:
  assumes "sharded_ok H rs" and "list_all2 R rs rs'" and "\<And>i reg reg'. R reg reg' \<Longrightarrow> in_shard H i reg \<Longrightarrow> in_shard H i reg'"
  shows "sharded_ok H rs'"
  using assms by (auto simp: sharded_ok_def list_all2_conv_all_nth)

lemma tick_shards_each:
  "list_all2 (\<lambda>reg reg'. reg' = reg \<or> (\<exists>c. reg' = snd (tickAllTimers iterate delta c reg))) rs (snd (tick_shards iterate delta cap i rs))"
proof (induction iterate delta cap i rs rule: tick_shards.induct)
  case (2 iterate delta cap i reg rs)
  obtain out reg' where t: "tickAllTimers iterate delta cap reg = (out, reg')" by force
  have "\<exists>c. reg' = snd (tickAllTimers iterate delta c reg)" by (rule exI [of _ cap]) (simp add: t)
  then show ?case using 2 [OF _ t [symmetric] refl] t by (auto simp: list.rel_refl split: prod.split)
qed simp

lemma tick_procedures_each:
  "list_all2 (\<lambda>reg reg'. reg' = snd (tickAllProcedures iterate delta reg)) rs (snd (sh_tickAllProcedures iterate delta rs))"
  by (induction rs) (auto split: prod.split)

lemma reserve_each: "reserve_shards H each rs = Some rs' \<Longrightarrow> list_all2 (\<lambda>reg reg'. reg_reserve H each reg = Some reg') rs rs'"
  by (induction rs arbitrary: rs') (auto split: option.splits)

lemma sharded_reachable_ok:
  assumes "sharded_reachable H iterate rs" "walks iterate"
  shows "sharded_ok H rs"
  using assms(1)
proof induction
  case start
  then show ?case by (simp add: sharded_ok_def sharded0_def registry0_in_shard)
next
  case (create rs t r rs')
  let ?i = "debugShardForTmsi t"
  obtain r' reg' where c: "createByTMSI H t (rs ! ?i) = Some (r', reg')" "rs' = rs[?i := reg']"
    using create(3) by (auto simp: sh_createByTMSI_def Let_def)
  have "in_shard H ?i (rs ! ?i)" using create(4) debugShard_less by (simp add: sharded_ok_def)
  then show ?case using sharded_update [OF create(4)] createByTMSI_in_shard [OF _ create(2) refl c(1)] c(2) by blast
next
  case (remove rs q b rs')
  show ?case
  proof (cases "rs' = rs")
    case False
    then obtain i p reg' where r: "i < length rs" "reg_remove H (Some p) (rs ! i) = Some (b, reg')" "rs' = rs[i := reg']"
      using remove(2) by (auto simp: sh_remove_def sh_session_at_def Let_def split: option.splits if_splits prod.splits)
    have "in_shard H i (rs ! i)" using remove(3) r(1) by (simp add: sharded_ok_def)
    then show ?thesis using sharded_update [OF remove(3)] remove_in_shard [OF _ r(2)] r(3) by blast
  qed (use remove in simp)
next
  case (locked rs i reg')
  then have "in_shard H i (rs ! i)" by (simp add: sharded_ok_def)
  then show ?case using sharded_update [OF locked(4)] locked_step_in_shard [OF locked(3)] by blast
next
  case (tick_timers rs delta cap)
  show ?case unfolding sh_tickAllTimers_def
    by (rule sharded_each [OF tick_timers(2) tick_shards_each]) (use tickAllTimers_in_shard [OF _ assms(2)] in auto)
next
  case (tick_procedures rs delta)
  show ?case by (rule sharded_each [OF tick_procedures(2) tick_procedures_each]) (simp add: tickAllProcedures_in_shard)
next
  case (reserve rs expected rs')
  then have "expected div 4 + 1 \<le> 2 ^ 29" by simp
  then show ?case using reserve_in_shard by (intro sharded_each [OF reserve(4) reserve_each [OF reserve(3) [unfolded sh_reserve_def]]]) blast
qed

lemma sharded_session:
  assumes ok: "sharded_ok H rs" and s: "sh_session_at rs (i, p) = Some s"
  shows "i < 4" "reg_inv H (rs ! i)" "session_at (rs ! i) p = Some s" "debugShardForTmsi (su_assignedTmsi s) = i" "su_assignedTmsi s \<noteq> 0"
proof -
  show i: "i < 4" and at: "session_at (rs ! i) p = Some s" using ok s by (auto simp: sh_session_at_def sharded_ok_def split: if_splits)
  then show inv: "reg_inv H (rs ! i)" using ok by (simp add: sharded_ok_def in_shard_def)
  obtain t where t: "reg_heap (rs ! i) p = Some (t, s)" using at by (auto simp: session_at_iff)
  then have "t \<in> ran (reg_key (rs ! i))" by (auto simp: ran_def reg_key_def)
  then show "debugShardForTmsi (su_assignedTmsi s) = i" "su_assignedTmsi s \<noteq> 0"
    using ok i reg_invD(4) [OF inv t] by (auto simp: sharded_ok_def in_shard_def session_ok_def)
qed

lemma sharded_count:
  assumes ok: "sharded_ok H rs"
  shows "sh_count rs = card {q. sh_session_at rs q \<noteq> None}"
proof -
  have len: "length rs = 4" using ok by (simp add: sharded_ok_def)
  let ?A = "\<lambda>i. {p. session_at (rs ! i) p \<noteq> None}"
  have inv: "reg_inv H (rs ! i)" if "i < 4" for i using that ok by (simp add: sharded_ok_def in_shard_def)
  have "{q. sh_session_at rs q \<noteq> None} = Sigma {0..<4} ?A" by (auto simp: sh_session_at_def len split: if_splits)
  moreover have "finite (?A i)" for i using finite_subset [of "?A i" "{..<mEntryCount (rg_byTMSI (rs ! i))}"] by (auto simp: session_at_def)
  ultimately have "card {q. sh_session_at rs q \<noteq> None} = (\<Sum>i\<in>{0..<4}. card (?A i))" by (simp add: card_SigmaI)
  also have "\<dots> = (\<Sum>i\<in>{0..<4}. rg_count (rs ! i))" using reg_inv_finds(1) [OF inv] by (intro sum.cong) auto
  finally show ?thesis by (simp add: sh_count_def sum_list_sum_nth len)
qed

section \<open>Theorems\<close>

text \<open>
  In every reachable sharded registry each session lives in the shard that its temporary identity selects: the lookup, which
  looks at that one shard only, finds it, and finds nothing else; removing a session that holds no channel
  succeeds; and the sum of the counts of the shards is the number of sessions.
\<close>

theorem sharded_routing:
  assumes "sharded_reachable H iterate rs" and "walks iterate"
  shows "(\<forall>q s. sh_session_at rs q = Some s \<longrightarrow> sh_findByTMSI H (su_assignedTmsi s) rs = Some (Some q)) \<and>
    (\<forall>t q. sh_findByTMSI H t rs = Some (Some q) \<longrightarrow> (\<exists>s. sh_session_at rs q = Some s \<and> su_assignedTmsi s = t)) \<and>
    (\<forall>q s. sh_session_at rs q = Some s \<and> su_channel s = None \<longrightarrow> (\<exists>rs'. sh_remove H (Some q) rs = Some (True, rs'))) \<and>
    sh_count rs = card {q. sh_session_at rs q \<noteq> None}"
proof -
  note ok = sharded_reachable_ok [OF assms]
  have len: "length rs = 4" using ok by (simp add: sharded_ok_def)
  have "sh_findByTMSI H (su_assignedTmsi s) rs = Some (Some (i, p)) \<and>
      (su_channel s = None \<longrightarrow> (\<exists>rs'. sh_remove H (Some (i, p)) rs = Some (True, rs')))" if s: "sh_session_at rs (i, p) = Some s" for i p s
  proof -
    note S = sharded_session [OF ok s]
    have "su_channel s = None \<longrightarrow> (\<exists>reg'. reg_remove H (Some p) (rs ! i) = Some (True, reg'))" using remove_returns [OF S(2,3)] by blast
    then show ?thesis using S(4,5) s reg_inv_finds(4) [OF S(2,3)] by (auto simp: sh_findByTMSI_def sh_remove_def)
  qed
  moreover have "\<exists>s. sh_session_at rs (i, p) = Some s \<and> su_assignedTmsi s = t" if f: "sh_findByTMSI H t rs = Some (Some (i, p))" for t i p
  proof -
    have i: "i = debugShardForTmsi t" "findByTMSI H t (rs ! i) = Some (Some p)" using f by (auto simp: sh_findByTMSI_def Let_def)
    then have "reg_inv H (rs ! i)" using ok debugShard_less by (simp add: sharded_ok_def in_shard_def)
    then show ?thesis using reg_inv_finds(5) [OF _ i(2)] i(1) debugShard_less by (simp add: sh_session_at_def len)
  qed
  ultimately show ?thesis using sharded_count [OF ok] by auto
qed

text \<open>A sharded registry in which shards 0 and 1 have one subscriber each, with timer T3101 running for 100 ms.\<close>

lemma shard_subscriber:
  assumes reach: "sharded_reachable H iterate rs" and w: "walks iterate" and empty: "rs ! debugShardForTmsi t = registry0" and t: "t \<noteq> 0"
  shows "\<exists>p s reg'. sharded_reachable H iterate (rs[debugShardForTmsi t := reg']) \<and> session_at reg' p = Some s \<and> su_assignedTmsi s = t \<and> su_channel s = None \<and>
     tm_isRunning T3101 (su_timers s) \<and> tm_remaining T3101 (su_timers s) = 100"
proof -
  let ?i = "debugShardForTmsi t"
  have i: "?i < length rs" using sharded_reachable_ok [OF reach w] debugShard_less by (simp add: sharded_ok_def)
  have n: "mEntryCount (rg_byTMSI (rs ! ?i)) < 2 ^ 31" by (simp add: empty registry0_def flat_map0_def)
  have "t \<notin> dom (fm_map (rg_byTMSI registry0))" "has_room (rg_byTMSI registry0)"
    by (simp_all add: registry0_def flat_map0_inv) (simp add: has_room_def flat_map0_def)
  then obtain p m where "fm_emplace H 0 t session0 (rg_byTMSI (rs ! ?i)) = Some ((p, True), m)"
    using emplace_new [OF reg_invD(1) [OF registry0_inv] n [unfolded empty]] unfolding empty by metis
  then obtain reg where c: "createByTMSI H t (rs ! ?i) = Some (Some p, reg)" using t by (simp add: createByTMSI_def)
  have C: "reg_inv H reg" "created t (setTMSI t context0) p registry0 reg"
    using createByTMSI_inv [OF registry0_inv n [unfolded empty] c [unfolded empty]] by auto
  define s where "s = adopt t (session0\<lparr>su_context := setTMSI t context0\<rparr>)"
  have at: "reg_heap reg p = Some (t, s)" using C(2) by (simp add: created_def s_def)
  let ?reg = "drive_timers p (\<lambda>m. snd (tm_start_with T3101 100 m)) reg" and ?s = "s\<lparr>su_timers := snd (tm_start_with T3101 100 (su_timers s))\<rparr>"
  have "sharded_reachable H iterate (rs[?i := reg])"
    using sharded_reachable.create [OF reach n, of "Some (?i, p)"] c by (simp add: sh_createByTMSI_def Let_def)
  then have "sharded_reachable H iterate (rs[?i := reg, ?i := ?reg])"
    by (rule sharded_reachable.locked) (use i in \<open>simp_all add: locked_step.start_timer\<close>)
  then have "sharded_reachable H iterate (rs[?i := ?reg])" by simp
  moreover have "session_at ?reg p = Some ?s"
    using drive_timers_inv(2) [OF C(1) at timer_ops_grow(1) [of T3101 100]] by (simp add: session_at_heap)
  moreover have inv: "tm_inv (su_timers s)" using reg_invD(4) [OF C(1) at] by (simp add: session_ok_def timers_ok_def)
  moreover have "tm_isRunning T3101 (su_timers ?s)" "tm_remaining T3101 (su_timers ?s) = 100"
    using tmr.running_start [OF inv] tmr.left_start [OF inv] by simp_all
  moreover have "su_channel ?s = None" "su_assignedTmsi ?s = t" by (simp_all add: s_def adopt_def session0_def)
  ultimately show ?thesis by blast
qed

lemma shard_values: "debugShardForTmsi 1 = 0" "debugShardForTmsi 2 = 1"
  by (simp_all add: debugShardForTmsi_def hashTMSI_def shardIndex_def Let_def)

lemma two_shards:
  assumes w: "walks iterate"
  shows "\<exists>p0 s0 p1 s1 rs. sharded_reachable H iterate rs \<and>
     sh_session_at rs (0, p0) = Some s0 \<and> su_assignedTmsi s0 = 1 \<and> su_channel s0 = None \<and> tm_isRunning T3101 (su_timers s0) \<and> tm_remaining T3101 (su_timers s0) = 100 \<and>
     sh_session_at rs (1, p1) = Some s1 \<and> tm_isRunning T3101 (su_timers s1) \<and> tm_remaining T3101 (su_timers s1) = 100"
proof -
  have "sharded0 ! debugShardForTmsi 1 = registry0" by (simp add: sharded0_def shard_values)
  then obtain p0 s0 reg0 where a: "sharded_reachable H iterate (sharded0[0 := reg0])" "session_at reg0 p0 = Some s0" "su_assignedTmsi s0 = 1"
      "su_channel s0 = None" "tm_isRunning T3101 (su_timers s0)" "tm_remaining T3101 (su_timers s0) = 100"
    using shard_subscriber [OF sharded_reachable.start w, of 1 H] by (auto simp: shard_values)
  have "sharded0[0 := reg0] ! debugShardForTmsi 2 = registry0" by (simp add: sharded0_def shard_values)
  then obtain p1 s1 reg1 where b: "sharded_reachable H iterate (sharded0[0 := reg0, 1 := reg1])" "session_at reg1 p1 = Some s1"
      "tm_isRunning T3101 (su_timers s1)" "tm_remaining T3101 (su_timers s1) = 100"
    using shard_subscriber [OF a(1) w, of 2] by (auto simp: shard_values)
  let ?rs = "sharded0[0 := reg0, 1 := reg1]"
  have "sh_session_at ?rs (0, p0) = Some s0" "sh_session_at ?rs (1, p1) = Some s1"
    using a(2) b(2) by (simp_all add: sh_session_at_def sharded0_def)
  then show ?thesis using a b by blast
qed

theorem sharded_routing_witness:
  "\<exists>q rs rs'. sh_findByTMSI (\<lambda>_. 0) 1 rs = Some (Some q) \<and> sh_remove (\<lambda>_. 0) (Some q) rs = Some (True, rs')"
proof -
  obtain p s rs where w: "sharded_reachable (\<lambda>_. 0) sorted_list_of_set rs" "sh_session_at rs (0, p) = Some s" "su_assignedTmsi s = 1" "su_channel s = None"
    using two_shards [OF walks_sorted] by blast
  show ?thesis using sharded_routing [OF w(1) walks_sorted] w(2-4) by metis
qed

section \<open>A full buffer\<close>

lemma tick_shards_room:
  assumes "\<And>reg. reg \<in> set rs \<Longrightarrow> reg_inv H reg" "walks iterate"
  shows "length (fst (tick_shards iterate delta cap i rs)) \<le> cap"
  using assms(1)
proof (induction rs arbitrary: cap i)
  case (Cons reg rs)
  obtain out reg' where t: "tickAllTimers iterate delta cap reg = (out, reg')" by force
  have "length out \<le> cap" by (rule tickAllTimers_ok(2) [OF Cons.prems assms(2) t]) simp
  then show ?case using Cons.IH [of "cap - length out" "Suc i"] Cons.prems t by (auto split: prod.split)
qed simp

lemma tick_shards_append:
  assumes "\<And>reg. reg \<in> set rs \<Longrightarrow> reg_inv H reg" "walks iterate" "length (fst (tick_shards iterate delta cap i rs)) = cap"
  shows "tick_shards iterate delta cap i (rs @ rs') = (fst (tick_shards iterate delta cap i rs), snd (tick_shards iterate delta cap i rs) @ rs')"
  using assms(1,3)
proof (induction rs arbitrary: cap i)
  case Nil
  then show ?case by (cases rs') simp_all
next
  case (Cons reg rs)
  show ?case
  proof (cases "cap = 0")
    case False
    obtain out reg' where t: "tickAllTimers iterate delta cap reg = (out, reg')" by force
    have "length out \<le> cap" by (rule tickAllTimers_ok(2) [OF Cons.prems(1) assms(2) t]) simp
    then have "length (fst (tick_shards iterate delta (cap - length out) (Suc i) rs)) = cap - length out"
      using Cons.prems(2) False t by (auto split: prod.splits)
    then show ?thesis using Cons.IH Cons.prems(1) False t by (auto split: prod.split)
  qed simp
qed

text \<open>
  Once the buffer of the caller is full, the tick of the sharded registry ends: the sessions of the shards that come after
  the one that filled it are left as they are, so no time passes for their timers, due or not, and none of
  them is reported, unlike the single registry, in which every running timer advances. The numbers \<open>k\<close> and \<open>cap\<close> are
  the shards that were walked and the size of the buffer.
\<close>

theorem sharded_tick_stalls:
  assumes "sharded_reachable H iterate rs" and "walks iterate"
    and "length (fst (sh_tickAllTimers iterate delta cap (take k rs))) = cap" and "sh_tickAllTimers iterate delta cap rs = (out, rs')"
  shows "\<forall>q s. k \<le> fst q \<and> sh_session_at rs q = Some s \<longrightarrow> sh_session_at rs' q = Some s \<and> (\<forall>j. (q, j) \<notin> set out)"
proof -
  note ok = sharded_reachable_ok [OF assms(1,2)]
  have inv: "reg_inv H reg" if "reg \<in> set (take k rs)" for reg
    using that ok set_take_subset [of k rs] by (auto simp: sharded_ok_def in_shard_def in_set_conv_nth)
  define w where "w = tick_shards iterate delta cap 0 (take k rs)"
  have "sh_tickAllTimers iterate delta cap rs = (fst w, snd w @ drop k rs)"
    using tick_shards_append [OF inv assms(2,3) [unfolded sh_tickAllTimers_def], of "drop k rs"] by (simp add: sh_tickAllTimers_def w_def)
  then have eq: "out = fst w" "rs' = snd w @ drop k rs" using assms(4) by simp_all
  have len: "length (snd w) = min k (length rs)" using list_all2_lengthD [OF tick_shards_each [of iterate delta "take k rs" cap 0]] by (simp add: w_def)
  have "fst (fst e) < i + length l" if "e \<in> set (fst (tick_shards iterate delta c i l))" for e c i l
    using that by (induction iterate delta c i l rule: tick_shards.induct) (fastforce split: if_splits prod.splits)+
  then have "fst (fst e) < k" if "e \<in> set out" for e using that by (fastforce simp: eq(1) w_def)
  then have out: "(q, j) \<notin> set out" if "k \<le> fst q" for q j using that by fastforce
  have "sh_session_at rs' q = Some s" if q: "k \<le> fst q" "sh_session_at rs q = Some s" for q s
  proof -
    have i: "fst q < length rs" using q(2) by (simp add: sh_session_at_def split: if_splits)
    then have "length (snd w) = k" using len q(1) by simp
    then have "length rs' = length rs" "rs' ! fst q = rs ! fst q" using i q(1) by (simp_all add: eq(2) nth_append)
    then show ?thesis using q(2) i by (simp add: sh_session_at_def)
  qed
  then show ?thesis using out by blast
qed

theorem sharded_tick_stalls_witness:
  "\<exists>rs rs' out p s. sh_tickAllTimers sorted_list_of_set 100 1 rs = (out, rs') \<and> sh_session_at rs (1, p) = Some s \<and>
     tm_isRunning T3101 (su_timers s) \<and> tm_remaining T3101 (su_timers s) = 100 \<and> sh_session_at rs' (1, p) = Some s \<and> ((1, p), T3101) \<notin> set out"
proof -
  let ?it = "sorted_list_of_set :: session_ptr set \<Rightarrow> session_ptr list"
  obtain p0 s0 p1 s1 rs where r: "sharded_reachable (\<lambda>_. 0) ?it rs" "sh_session_at rs (0, p0) = Some s0" "tm_isRunning T3101 (su_timers s0)"
      "tm_remaining T3101 (su_timers s0) = 100" "sh_session_at rs (1, p1) = Some s1" "tm_isRunning T3101 (su_timers s1)" "tm_remaining T3101 (su_timers s1) = 100"
    using two_shards [OF walks_sorted, of "\<lambda>_. 0"] by blast
  note S = sharded_session [OF sharded_reachable_ok [OF r(1) walks_sorted] r(2)]
  obtain o0 reg0 where t: "tickAllTimers ?it 100 1 (rs ! 0) = (o0, reg0)" by force
  note T = tickAllTimers_ok [OF S(2) walks_sorted t]
  obtain t0 where "reg_heap (rs ! 0) p0 = Some (t0, s0)" using S(3) by (auto simp: session_at_iff)
  note after = T(3) [OF this]
  obtain s' :: SubscriberSession where "\<forall>j. tick_outcome 100 (su_timers s0) (su_timers s') ((p0, j) \<in> set o0) (length o0 = 1) j"
    using after by blast
  from spec [OF this, of T3101] have "(p0, T3101) \<in> set o0 \<or> length o0 = 1" using r(3,4) unfolding tick_outcome_def by presburger
  then have l: "length o0 = 1" using T(2) by (cases o0) auto
  have "rs \<noteq> []" using r(2) by (auto simp: sh_session_at_def)
  then have "take 1 rs = [rs ! 0]" by (cases rs) auto
  then have full: "length (fst (sh_tickAllTimers ?it 100 1 (take 1 rs))) = 1" using t l by (simp add: sh_tickAllTimers_def)
  obtain out rs' where e: "sh_tickAllTimers ?it 100 1 rs = (out, rs')" by force
  have "sh_session_at rs' (1, p1) = Some s1 \<and> ((1, p1), T3101) \<notin> set out"
    using sharded_tick_stalls [OF r(1) walks_sorted full e, rule_format, of "(1, p1)" s1] r(5) by simp
  then show ?thesis using e r(5-7) by blast
qed

section \<open>A session that cannot be removed\<close>

text \<open>
  The registry of a locked shard also creates sessions by subscriber identity, and picks their temporary identity without
  regard to the shards. When that identity selects another shard, the session is there for the shard (its IMSI leads to it),
  but the sharded registry neither finds it under its temporary identity nor removes it.
\<close>

theorem sharded_imsi_unroutable:
  assumes "sharded_reachable H iterate rs" and "walks iterate" and "i < 4" and "mEntryCount (rg_byTMSI (rs ! i)) < 2 ^ 31"
    and "createByIMSI H imsi (rs ! i) = Some (Some p, reg')" and "session_at reg' p = Some s" and "debugShardForTmsi (su_assignedTmsi s) \<noteq> i"
  shows "findByIMSI H imsi reg' = Some (Some p) \<and> sh_session_at (rs[i := reg']) (i, p) = Some s \<and>
    sh_findByTMSI H (su_assignedTmsi s) (rs[i := reg']) \<noteq> Some (Some (i, p)) \<and>
    (\<forall>b rs'. sh_remove H (Some (i, p)) (rs[i := reg']) = Some (b, rs') \<longrightarrow> \<not> b \<and> rs' = rs[i := reg'])"
proof -
  note ok = sharded_reachable_ok [OF assms(1,2)]
  have len: "length rs = 4" and inv: "reg_inv H (rs ! i)" using ok assms(3) by (simp_all add: sharded_ok_def in_shard_def)
  obtain t where c: "reg_inv H reg'" "created t (setIMSI imsi context0) p (rs ! i) reg'" "rg_byIMSI reg' imsi = Some t"
    using createByIMSI_inv [OF inv assms(4,5)] by auto
  have t: "su_assignedTmsi s = t" using c(2) assms(6) by (auto simp: created_def session_at_heap adopt_def)
  have "findByIMSI H imsi reg' = Some (Some p)" using reg_inv_finds(4) [OF c(1) assms(6)] c(3) t by (simp add: findByIMSI_def)
  moreover have at: "sh_session_at (rs[i := reg']) (i, p) = Some s" using assms(3,6) len by (simp add: sh_session_at_def)
  moreover have "sh_findByTMSI H (su_assignedTmsi s) (rs[i := reg']) \<noteq> Some (Some (i, p))" using assms(7) by (auto simp: sh_findByTMSI_def Let_def)
  moreover have "\<not> b \<and> rs' = rs[i := reg']" if "sh_remove H (Some (i, p)) (rs[i := reg']) = Some (b, rs')" for b rs'
    using that at assms(7) by (auto simp: sh_remove_def Let_def split: if_splits)
  ultimately show ?thesis by blast
qed

lemma first_auto_tmsi: "auto_tmsi H (rg_byTMSI registry0) 1 2 0 = Some (Some 1, 2)"
proof -
  have "has_room (rg_byTMSI registry0)" by (simp add: registry0_def has_room_def flat_map0_def)
  then have "fm_find H 1 (rg_byTMSI registry0) = Some None"
    by (intro find_absent [OF reg_invD(1) [OF registry0_inv]]) (simp_all add: registry0_def flat_map0_inv)
  then show ?thesis by (subst auto_tmsi.simps) simp
qed

theorem sharded_imsi_unroutable_witness:
  "\<exists>p reg s. createByIMSI (\<lambda>_. 0) ''1'' (sharded0 ! debugShardForTmsi 2) = Some (Some p, reg) \<and> session_at reg p = Some s \<and>
     findByIMSI (\<lambda>_. 0) ''1'' reg = Some (Some p) \<and> su_assignedTmsi s = 1 \<and>
     sh_findByTMSI (\<lambda>_. 0) 1 (sharded0[debugShardForTmsi 2 := reg]) \<noteq> Some (Some (debugShardForTmsi 2, p))"
proof -
  have one: "sharded0 ! 1 = registry0" by (simp add: sharded0_def)
  have n: "mEntryCount (rg_byTMSI (sharded0 ! 1)) < 2 ^ 31" unfolding one by (simp add: registry0_def flat_map0_def)
  obtain p reg where c: "createByIMSI (\<lambda>_. 0) ''1'' (sharded0 ! 1) = Some (Some p, reg)" using first_subscriber one by metis
  obtain t where t: "created t (setIMSI ''1'' context0) p registry0 reg" "rg_byIMSI reg ''1'' = Some t"
    using createByIMSI_inv [OF registry0_inv n [unfolded one] c [unfolded one]] by auto
  have "t = 1" using c [unfolded one] t(2) first_auto_tmsi [of "\<lambda>_. 0"]
    by (auto simp: createByIMSI_def registry0_def Let_def split: option.splits if_splits prod.splits)
  then obtain s where s: "session_at reg p = Some s" "su_assignedTmsi s = 1" using t(1) by (auto simp: created_def session_at_heap adopt_def)
  have "debugShardForTmsi (su_assignedTmsi s) \<noteq> 1" using s(2) by (simp add: shard_values)
  note U = sharded_imsi_unroutable [OF sharded_reachable.start walks_sorted _ n c s(1) this]
  show ?thesis unfolding shard_values using U c s by (intro exI [of _ p] exI [of _ reg] exI [of _ s]) simp
qed

end
