(* ===== verification/Ring_Buffer.thy ===== *)
theory Ring_Buffer
  imports Prelude
begin

text \<open>
  The ring buffer between a producer and a consumer of octets (\<^verbatim>\<open>bitstream/byte_source.h\<close>, \<^verbatim>\<open>bitstream/byte_source.cpp\<close>):
  the rounding of the capacity, reading and writing in at most two segments, and the interleaving of one producer with one
  consumer. Positions are natural numbers; the wrap-around is the bit mask of the source.
\<close>

unbundle bit_operations_syntax

section \<open>Capacity\<close>

text \<open>The capacity is rounded up to a power of two by smearing the highest bit of its predecessor over the lower ones.\<close>

definition rb_smear :: "u64 \<Rightarrow> u64" where
  "rb_smear c0 =
     (let c1 = c0 OR drop_bit 1 c0; c2 = c1 OR drop_bit 2 c1; c3 = c2 OR drop_bit 4 c2; c4 = c3 OR drop_bit 8 c3;
          c5 = c4 OR drop_bit 16 c4
      in c5 OR drop_bit 32 c5)"

definition rb_round :: "u64 \<Rightarrow> u64" where
  "rb_round capacity = rb_smear ((if capacity < 2 then 2 else capacity) - 1) + 1"

lemma bit_smear_step:
  assumes "\<And>i. bit c i \<longleftrightarrow> (\<exists>j < n. bit w (i + j))"
  shows "bit (c OR drop_bit n c) i \<longleftrightarrow> (\<exists>j < 2 * n. bit (w :: u64) (i + j))"
proof -
  have "(\<exists>j < 2 * n. bit w (i + j)) \<longleftrightarrow> (\<exists>j < n. bit w (i + j)) \<or> (\<exists>j < n. bit w (n + i + j))"
  proof
    assume "\<exists>j < 2 * n. bit w (i + j)"
    then obtain j where j: "j < 2 * n" "bit w (i + j)" by blast
    show "(\<exists>j < n. bit w (i + j)) \<or> (\<exists>j < n. bit w (n + i + j))"
    proof (cases "j < n")
      case False
      then have "j - n < n" "n + i + (j - n) = i + j" using j(1) by simp_all
      then show ?thesis using j(2) by metis
    qed (use j in blast)
  next
    assume "(\<exists>j < n. bit w (i + j)) \<or> (\<exists>j < n. bit w (n + i + j))"
    then show "\<exists>j < 2 * n. bit w (i + j)"
    proof
      assume "\<exists>j < n. bit w (n + i + j)"
      then obtain j where "j < n" "bit w (n + i + j)" by blast
      then have "n + j < 2 * n" "bit w (i + (n + j))" by (simp_all add: ac_simps)
      then show ?thesis by blast
    next
      assume "\<exists>j < n. bit w (i + j)"
      then obtain j where "j < n" "bit w (i + j)" by blast
      then have "j < 2 * n" "bit w (i + j)" by simp_all
      then show ?thesis by blast
    qed
  qed
  then show ?thesis using assms by (simp add: bit_or_iff bit_drop_bit_eq)
qed

lemma bit_smear: "bit (rb_smear w) i \<longleftrightarrow> (\<exists>j < 64. bit w (i + j))"
proof -
  define c1 where "c1 = w OR drop_bit 1 w"
  define c2 where "c2 = c1 OR drop_bit 2 c1"
  define c3 where "c3 = c2 OR drop_bit 4 c2"
  define c4 where "c4 = c3 OR drop_bit 8 c3"
  define c5 where "c5 = c4 OR drop_bit 16 c4"
  have 0: "bit w i \<longleftrightarrow> (\<exists>j < 1. bit w (i + j))" for i by simp
  have 1: "bit c1 i \<longleftrightarrow> (\<exists>j < 2. bit w (i + j))" for i unfolding c1_def using bit_smear_step [OF 0] by simp
  have 2: "bit c2 i \<longleftrightarrow> (\<exists>j < 4. bit w (i + j))" for i unfolding c2_def using bit_smear_step [OF 1] by simp
  have 3: "bit c3 i \<longleftrightarrow> (\<exists>j < 8. bit w (i + j))" for i unfolding c3_def using bit_smear_step [OF 2] by simp
  have 4: "bit c4 i \<longleftrightarrow> (\<exists>j < 16. bit w (i + j))" for i unfolding c4_def using bit_smear_step [OF 3] by simp
  have 5: "bit c5 i \<longleftrightarrow> (\<exists>j < 32. bit w (i + j))" for i unfolding c5_def using bit_smear_step [OF 4] by simp
  have "rb_smear w = c5 OR drop_bit 32 c5"
    by (simp add: rb_smear_def Let_def c1_def c2_def c3_def c4_def c5_def)
  then show ?thesis using bit_smear_step [OF 5] by simp
qed

lemma smear_mask:
  assumes "bit w k" "\<And>j. bit w j \<Longrightarrow> j \<le> k"
  shows "rb_smear w = mask (Suc k)"
proof (rule bit_word_eqI)
  fix i assume i: "i < LENGTH(64)"
  have k: "k < 64" using bit_imp_le_length [OF assms(1)] by simp
  have "(\<exists>j < 64. bit w (i + j)) \<longleftrightarrow> i \<le> k"
  proof
    assume "i \<le> k"
    then have "k - i < 64" "bit w (i + (k - i))" using k assms(1) by simp_all
    then show "\<exists>j < 64. bit w (i + j)" by blast
  qed (use assms(2) in fastforce)
  then show "bit (rb_smear w) i \<longleftrightarrow> bit (mask (Suc k) :: u64) i" using i by (auto simp: bit_smear bit_mask_iff)
qed

lemma highest_bit:
  assumes "w \<noteq> (0 :: u64)"
  obtains k where "bit w k" "\<And>j. bit w j \<Longrightarrow> j \<le> k" "2 ^ k \<le> unat w" "unat w < 2 ^ Suc k"
proof -
  have fin: "finite {j. bit w j}" by (rule finite_subset [of _ "{..<64}"]) (auto dest: bit_imp_le_length)
  have ne: "{j. bit w j} \<noteq> {}"
  proof
    assume "{j. bit w j} = {}"
    then have "w = 0" by (intro bit_word_eqI) auto
    then show False using assms by simp
  qed
  have k: "bit w (Max {j. bit w j})" "\<And>j. bit w j \<Longrightarrow> j \<le> Max {j. bit w j}"
    using Max_in [OF fin ne] Max_ge [OF fin] by simp_all
  let ?k = "Max {j. bit w j}"
  have "take_bit (Suc ?k) w = w" by (rule bit_word_eqI) (use k(2) in \<open>auto simp: bit_take_bit_iff less_Suc_eq_le\<close>)
  then have "unat w = take_bit (Suc ?k) (unat w)" by (metis unsigned_take_bit_eq)
  then have "unat w < 2 ^ Suc ?k" by (metis take_bit_nat_less_exp)
  moreover have "2 ^ ?k \<le> unat w"
  proof (rule ccontr)
    assume "\<not> 2 ^ ?k \<le> unat w"
    then have "take_bit ?k (unat w) = unat w" by (simp add: take_bit_nat_eq_self)
    then have "\<not> bit (unat w) ?k" by (metis bit_take_bit_iff less_irrefl)
    then show False using k(1) by (simp add: bit_unsigned_iff)
  qed
  ultimately show ?thesis using that k by blast
qed

text \<open>Every capacity up to \<open>2^63\<close> becomes the least power of two that is at least as large, and at least two.\<close>

lemma rb_round_power:
  assumes "unat capacity \<le> 2 ^ 63"
  obtains k where "0 < k" "k < 64" "unat (rb_round capacity) = 2 ^ k" "unat capacity \<le> 2 ^ k" "2 \<le> unat capacity \<Longrightarrow> 2 ^ (k - 1) < unat capacity"
proof -
  define c where "c = (if capacity < 2 then 2 else capacity)"
  have c2: "2 \<le> unat c" "unat c \<le> 2 ^ 63" using assms by (auto simp: c_def word_less_nat_alt not_less)
  have cap: "unat capacity \<le> unat c" "2 \<le> unat capacity \<Longrightarrow> c = capacity" by (auto simp: c_def word_less_nat_alt)
  have w: "unat (c - 1) = unat c - 1" using c2(1) by (subst unat_sub) (simp_all add: word_le_nat_alt)
  have "c - 1 \<noteq> 0"
  proof
    assume "c - 1 = 0"
    then show False using w c2(1) by simp
  qed
  then obtain k where k: "bit (c - 1) k" "\<And>j. bit (c - 1) j \<Longrightarrow> j \<le> k" "2 ^ k \<le> unat (c - 1)" "unat (c - 1) < 2 ^ Suc k"
    by (rule highest_bit) blast
  have "(2 :: nat) ^ k < 2 ^ 63" using k(3) w c2 by simp
  then have k63: "k < 63" using power_strict_increasing_iff [of "2 :: nat" k 63] by simp
  have "rb_round capacity = mask (Suc k) + 1"
    unfolding rb_round_def c_def [symmetric] by (simp only: smear_mask [OF k(1,2)])
  also have "\<dots> = 2 ^ Suc k" by (simp add: mask_eq_exp_minus_1)
  finally have e: "rb_round capacity = of_nat (2 ^ Suc k)" by simp
  have "(2 :: nat) ^ Suc k < 2 ^ 64" by (rule power_strict_increasing) (use k63 in simp_all)
  then have "unat (rb_round capacity) = 2 ^ Suc k" unfolding e unat_of_nat by simp
  moreover have "unat capacity \<le> 2 ^ Suc k" using k(4) w c2(1) cap(1) by simp
  moreover have "2 \<le> unat capacity \<Longrightarrow> 2 ^ (Suc k - 1) < unat capacity" using k(3) w c2(1) cap(2) by simp
  ultimately show ?thesis using that [of "Suc k"] k63 by simp
qed

section \<open>Operations\<close>

record RingBuffer =
  rb_buf :: bytes
  rb_head :: nat
  rb_tail :: nat
  rb_mask :: nat
  rb_capacity :: nat

definition mkRingBuffer :: "u64 \<Rightarrow> RingBuffer" where
  "mkRingBuffer capacity =
     (let cap = rb_round capacity
      in \<lparr>rb_buf = replicate (unat cap) 0, rb_head = 0, rb_tail = 0, rb_mask = unat (cap - 1), rb_capacity = unat (cap - 1)\<rparr>)"

definition rb_available :: "RingBuffer \<Rightarrow> nat" where
  "rb_available rb =
     (if rb_head rb \<ge> rb_tail rb then rb_head rb - rb_tail rb else (rb_mask rb + 1) - rb_tail rb + rb_head rb)"

definition rb_freeSpace :: "RingBuffer \<Rightarrow> nat" where
  "rb_freeSpace rb = rb_capacity rb - rb_available rb"

definition memcpy_at :: "nat \<Rightarrow> bytes \<Rightarrow> bytes \<Rightarrow> bytes" where
  "memcpy_at pos bs buf = take pos buf @ bs @ drop (pos + length bs) buf"

definition rb_write :: "bytes \<Rightarrow> RingBuffer \<Rightarrow> nat \<times> RingBuffer" where
  "rb_write data rb =
     (let free = rb_freeSpace rb
      in if free = 0 then (0, rb)
      else let len = (if length data > free then free else length data);
               head = rb_head rb;
               first = (if (rb_mask rb + 1) - head > len then len else (rb_mask rb + 1) - head);
               buf1 = memcpy_at head (take first data) (rb_buf rb);
               head1 = (head + first) AND rb_mask rb;
               second = len - first
      in if second > 0
         then (len, rb\<lparr>rb_buf := memcpy_at head1 (take second (drop first data)) buf1, rb_head := (head1 + second) AND rb_mask rb\<rparr>)
         else (len, rb\<lparr>rb_buf := buf1, rb_head := head1\<rparr>))"

definition rb_read :: "nat \<Rightarrow> RingBuffer \<Rightarrow> bytes \<times> RingBuffer" where
  "rb_read maxSize rb =
     (let avail = rb_available rb
      in if avail = 0 then ([], rb)
      else let n = (if maxSize > avail then avail else maxSize);
               tail = rb_tail rb;
               first = (if (rb_mask rb + 1) - tail > n then n else (rb_mask rb + 1) - tail);
               out1 = take first (drop tail (rb_buf rb));
               tail1 = (tail + first) AND rb_mask rb;
               second = n - first
      in if second > 0
         then (out1 @ take second (drop tail1 (rb_buf rb)), rb\<lparr>rb_tail := (tail1 + second) AND rb_mask rb\<rparr>)
         else (out1, rb\<lparr>rb_tail := tail1\<rparr>))"

section \<open>A bounded queue\<close>

definition rb_size :: "RingBuffer \<Rightarrow> nat" where
  "rb_size rb = rb_mask rb + 1"

definition rb_inv :: "RingBuffer \<Rightarrow> bool" where
  "rb_inv rb \<longleftrightarrow> (\<exists>k. 0 < k \<and> rb_size rb = 2 ^ k) \<and> rb_capacity rb = rb_mask rb \<and> length (rb_buf rb) = rb_size rb \<and>
     rb_head rb < rb_size rb \<and> rb_tail rb < rb_size rb"

definition rb_at :: "RingBuffer \<Rightarrow> nat \<Rightarrow> nat \<Rightarrow> u8" where
  "rb_at rb p i = rb_buf rb ! ((p + i) mod rb_size rb)"

definition rb_contents :: "RingBuffer \<Rightarrow> bytes" where
  "rb_contents rb = map (rb_at rb (rb_tail rb)) [0..<rb_available rb]"

lemma rb_and_mask: "rb_inv rb \<Longrightarrow> n AND rb_mask rb = n mod rb_size rb"
proof -
  assume "rb_inv rb"
  then obtain k where k: "rb_size rb = 2 ^ k" by (auto simp: rb_inv_def)
  then have m: "rb_mask rb = mask k" by (simp add: rb_size_def mask_eq_exp_minus_1)
  show ?thesis unfolding k m by (simp only: take_bit_eq_mask [symmetric] take_bit_eq_mod)
qed

lemma length_contents [simp]: "length (rb_contents rb) = rb_available rb"
  by (simp add: rb_contents_def)

lemma nth_contents: "i < rb_available rb \<Longrightarrow> rb_contents rb ! i = rb_at rb (rb_tail rb) i"
  by (simp add: rb_contents_def)

text \<open>Distances on the ring.\<close>

lemma ring_distance: "t < N \<Longrightarrow> h < N \<Longrightarrow> (t + (if h \<ge> t then h - t else N - t + h)) mod N = (h :: nat)"
  by simp

lemma ring_inj: "(p + a) mod N = (p + b) mod N \<Longrightarrow> a < N \<Longrightarrow> b < N \<Longrightarrow> a = (b :: nat)"
proof (induction a b rule: linorder_wlog)
  case (le a b)
  then have "N dvd (p + b) - (p + a)" using mod_eq_dvd_iff_nat [of "p + a" "p + b" N] by simp
  then have "N dvd b - a" by simp
  then show ?case using le by (metis diff_is_0_eq dvd_imp_le le_antisym less_imp_diff_less not_le zero_less_diff)
qed simp

lemma rb_available_less: "rb_inv rb \<Longrightarrow> rb_available rb < rb_size rb"
  by (auto simp: rb_available_def rb_inv_def rb_size_def)

lemma rb_available_head: "rb_inv rb \<Longrightarrow> (rb_tail rb + rb_available rb) mod rb_size rb = rb_head rb"
  using ring_distance [of "rb_tail rb" "rb_size rb" "rb_head rb"] unfolding rb_available_def rb_inv_def rb_size_def [symmetric]
  by blast

lemma rb_available_unique:
  assumes "rb_inv rb" "(rb_tail rb + n) mod rb_size rb = rb_head rb" "n < rb_size rb"
  shows "rb_available rb = n"
  using ring_inj [of "rb_tail rb" "rb_available rb" "rb_size rb" n] rb_available_head [OF assms(1)] rb_available_less [OF assms(1)] assms
  by simp

lemma memcpy_nth:
  "pos + length bs \<le> length buf \<Longrightarrow> j < length buf \<Longrightarrow>
     memcpy_at pos bs buf ! j = (if pos \<le> j \<and> j < pos + length bs then bs ! (j - pos) else buf ! j)"
  by (auto simp: memcpy_at_def nth_append min_def)

lemma length_memcpy [simp]: "pos + length bs \<le> length buf \<Longrightarrow> length (memcpy_at pos bs buf) = length buf"
  by (simp add: memcpy_at_def)

text \<open>Writing in two segments stores octet \<open>i\<close> at the position \<open>i\<close> places after the head.\<close>

definition rb_accepts :: "bytes \<Rightarrow> RingBuffer \<Rightarrow> nat" where
  "rb_accepts data rb = min (length data) (rb_freeSpace rb)"

lemma rb_write_shape:
  assumes "rb_inv rb"
  obtains buf where
    "rb_write data rb = (rb_accepts data rb, rb\<lparr>rb_buf := buf, rb_head := (rb_head rb + rb_accepts data rb) mod rb_size rb\<rparr>)"
    "length buf = rb_size rb"
    "\<And>i. i < rb_accepts data rb \<Longrightarrow> buf ! ((rb_head rb + i) mod rb_size rb) = data ! i"
    "\<And>i. rb_accepts data rb \<le> i \<Longrightarrow> i < rb_size rb \<Longrightarrow>
       buf ! ((rb_head rb + i) mod rb_size rb) = rb_buf rb ! ((rb_head rb + i) mod rb_size rb)"
proof -
  define N h n f where "N = rb_size rb" and "h = rb_head rb" and "n = rb_accepts data rb" and "f = min n (N - h)"
  have inv: "h < N" "length (rb_buf rb) = N" "rb_freeSpace rb < N" "rb_mask rb + 1 = N"
    using assms by (auto simp: rb_inv_def N_def h_def rb_freeSpace_def rb_size_def)
  have n: "n \<le> length data" "n < N" using inv(3) by (auto simp: n_def rb_accepts_def)
  have f: "f \<le> n" "h + f \<le> N" "f \<le> length data" using n inv(1) by (simp_all add: f_def)
  define buf1 where "buf1 = memcpy_at h (take f data) (rb_buf rb)"
  define buf where "buf = (if f < n then memcpy_at 0 (take (n - f) (drop f data)) buf1 else buf1)"
  have l1: "length buf1 = N" using f inv by (simp add: buf1_def)
  have l: "length buf = N" using f n inv l1 by (simp add: buf_def)
  have wrap: "(h + f) mod N = 0" "h + f = N" "n - f \<le> h" if "f < n" using that n inv by (simp_all add: f_def min_def split: if_splits)
  have nth: "buf ! ((h + i) mod N) = (if i < n then data ! i else rb_buf rb ! ((h + i) mod N))" if i: "i < N" for i
  proof (cases "h + i < N")
    case True
    then have p: "(h + i) mod N = h + i" by simp
    have b1: "buf1 ! (h + i) = (if i < f then data ! i else rb_buf rb ! (h + i))"
      unfolding buf1_def using True f inv by (subst memcpy_nth) auto
    have "i < n \<longleftrightarrow> i < f" using True by (auto simp: f_def)
    moreover have "buf ! (h + i) = buf1 ! (h + i)"
      using True l1 wrap n f by (auto simp: buf_def memcpy_nth)
    ultimately show ?thesis using b1 p by simp
  next
    case False
    then have p: "(h + i) mod N = h + i - N" using i inv(1) by (simp add: mod_if)
    have ge: "f \<le> i" "h + i - N < h" using False i inv(1) by (simp_all add: f_def)
    have b1: "buf1 ! (h + i - N) = rb_buf rb ! (h + i - N)"
      unfolding buf1_def using False f inv i by (subst memcpy_nth) auto
    show ?thesis
    proof (cases "f < n")
      case True
      note w = wrap [OF True]
      have shift: "f + (h + i - N) = i" using w(2) False by simp
      have "buf ! (h + i - N) = (if h + i - N < n - f then data ! i else rb_buf rb ! (h + i - N))"
        unfolding buf_def if_P [OF True] using l1 w n ge b1 inv(1) i False
        by (subst memcpy_nth) (simp_all only: length_take length_drop nth_take nth_drop diff_zero shift, auto simp: shift)
      moreover have "h + i - N < n - f \<longleftrightarrow> i < n" using w(2) ge False by auto
      ultimately show ?thesis using p by simp
    next
      case False
      then show ?thesis using b1 p ge f by (auto simp: buf_def)
    qed
  qed
  have "rb_write data rb = (n, rb\<lparr>rb_buf := buf, rb_head := (h + n) mod N\<rparr>)"
  proof (cases "rb_freeSpace rb = 0")
    case True
    then have "n = 0" by (simp add: n_def rb_accepts_def)
    then have "buf = rb_buf rb" using f(1) by (simp add: buf_def buf1_def memcpy_at_def)
    then show ?thesis using True \<open>n = 0\<close> inv(1) by (simp add: rb_write_def h_def)
  next
    case False
    have len: "(if length data > rb_freeSpace rb then rb_freeSpace rb else length data) = n"
      by (simp add: n_def rb_accepts_def min_def)
    have first: "(if (rb_mask rb + 1) - rb_head rb > n then n else (rb_mask rb + 1) - rb_head rb) = f"
      unfolding inv(4) h_def [symmetric] f_def by simp
    have "((h + f) mod N + (n - f)) mod N = (h + n) mod N" using mod_add_left_eq [of "h + f" N "n - f"] f(1) by simp
    then show ?thesis
      using False wrap f(1) unfolding rb_write_def Let_def len first
      by (auto simp: rb_and_mask [OF assms] h_def [symmetric] N_def [symmetric] buf_def buf1_def)
  qed
  then show ?thesis
    by (rule that [of buf, folded n_def h_def N_def]) (use l nth n(2) in auto)
qed

lemma rb_read_shape:
  assumes "rb_inv rb"
  shows "rb_read m rb = (map (rb_at rb (rb_tail rb)) [0..<min m (rb_available rb)],
    rb\<lparr>rb_tail := (rb_tail rb + min m (rb_available rb)) mod rb_size rb\<rparr>)"
proof (cases "rb_available rb = 0")
  case True
  then show ?thesis using assms by (simp add: rb_read_def rb_inv_def)
next
  case False
  define N t n f where "N = rb_size rb" and "t = rb_tail rb" and "n = min m (rb_available rb)" and "f = min n (N - t)"
  have inv: "t < N" "length (rb_buf rb) = N" "rb_mask rb + 1 = N" "n < N"
    using assms rb_available_less [OF assms] by (auto simp: rb_inv_def N_def t_def n_def rb_size_def)
  have f: "f \<le> n" by (simp add: f_def)
  have wrap: "(t + f) mod N = 0" "t + f = N" "n - f \<le> t" if "f < n" using that inv by (simp_all add: f_def min_def split: if_splits)
  have len: "(if m > rb_available rb then rb_available rb else m) = n" by (simp add: n_def min_def)
  have first: "(if (rb_mask rb + 1) - rb_tail rb > n then n else (rb_mask rb + 1) - rb_tail rb) = f"
    unfolding inv(3) t_def [symmetric] f_def by simp
  have e: "((t + f) mod N + (n - f)) mod N = (t + n) mod N" using mod_add_left_eq [of "t + f" N "n - f"] f by simp
  have out: "take f (drop t (rb_buf rb)) @ (if f < n then take (n - f) (drop ((t + f) mod N) (rb_buf rb)) else []) =
      map (rb_at rb t) [0..<n]"
  proof (rule nth_equalityI)
    show "length (take f (drop t (rb_buf rb)) @ (if f < n then take (n - f) (drop ((t + f) mod N) (rb_buf rb)) else [])) =
        length (map (rb_at rb t) [0..<n])"
      using wrap f inv by (auto simp: f_def)
    fix i assume "i < length (take f (drop t (rb_buf rb)) @ (if f < n then take (n - f) (drop ((t + f) mod N) (rb_buf rb)) else []))"
    then have i: "i < n" using wrap f inv by (auto simp: f_def split: if_splits)
    show "(take f (drop t (rb_buf rb)) @ (if f < n then take (n - f) (drop ((t + f) mod N) (rb_buf rb)) else [])) ! i =
        map (rb_at rb t) [0..<n] ! i"
    proof (cases "i < f")
      case True
      then show ?thesis using i inv by (simp add: nth_append f_def rb_at_def N_def [symmetric])
    next
      case False
      then have lt: "f < n" using i by simp
      note w = wrap [OF lt]
      have "t + i = N + (i - f)" "i - f < N" using w(2) False i inv by simp_all
      then have p: "(t + i) mod N = i - f" by simp
      have "length (take f (drop t (rb_buf rb))) = f" using w(2) inv by simp
      then show ?thesis using False lt i w(1) w(3) inv by (simp add: nth_append rb_at_def N_def [symmetric] p)
    qed
  qed
  show ?thesis
    using False f wrap(1) out e unfolding rb_read_def Let_def len first n_def [symmetric]
    by (auto simp: rb_and_mask [OF assms] t_def [symmetric] N_def [symmetric])
qed

text \<open>
  The ring is a bounded queue: writing appends as much as fits behind what is in it, reading takes from the front.
\<close>

lemma rb_write_contents:
  assumes "rb_inv rb"
  shows "fst (rb_write data rb) = min (length data) (rb_capacity rb - length (rb_contents rb))"
    and "rb_contents (snd (rb_write data rb)) = rb_contents rb @ take (fst (rb_write data rb)) data"
    and "rb_inv (snd (rb_write data rb))"
    and "rb_capacity (snd (rb_write data rb)) = rb_capacity rb"
proof -
  let ?n = "rb_accepts data rb" and ?N = "rb_size rb" and ?a = "rb_available rb"
  obtain buf where w: "rb_write data rb = (?n, rb\<lparr>rb_buf := buf, rb_head := (rb_head rb + ?n) mod ?N\<rparr>)" "length buf = ?N"
    "\<And>i. i < ?n \<Longrightarrow> buf ! ((rb_head rb + i) mod ?N) = data ! i"
    "\<And>i. ?n \<le> i \<Longrightarrow> i < ?N \<Longrightarrow> buf ! ((rb_head rb + i) mod ?N) = rb_buf rb ! ((rb_head rb + i) mod ?N)"
    using rb_write_shape [OF assms, of data] by metis
  define rb1 where "rb1 = rb\<lparr>rb_buf := buf, rb_head := (rb_head rb + ?n) mod ?N\<rparr>"
  have size: "rb_size rb1 = ?N" "rb_tail rb1 = rb_tail rb" "rb_buf rb1 = buf" by (simp_all add: rb1_def rb_size_def)
  have free: "?n + ?a < ?N" "?n \<le> length data"
    using assms rb_available_less [OF assms] by (auto simp: rb_accepts_def rb_freeSpace_def rb_inv_def rb_size_def)
  show inv: "rb_inv (snd (rb_write data rb))"
    using assms w(2) by (auto simp: w(1) rb_inv_def rb_size_def)
  have av: "rb_available rb1 = ?a + ?n"
  proof (rule rb_available_unique)
    show "rb_inv rb1" using inv by (simp add: w(1) rb1_def)
    have "(rb_tail rb + (?a + ?n)) mod ?N = ((rb_tail rb + ?a) mod ?N + ?n) mod ?N" by (simp add: mod_add_left_eq add.assoc)
    then show "(rb_tail rb1 + (?a + ?n)) mod rb_size rb1 = rb_head rb1"
      by (simp add: rb_available_head [OF assms] size) (simp add: rb1_def)
  qed (use free size in simp)
  have pos: "(rb_tail rb + i) mod ?N = (rb_head rb + (i + ?N - ?a)) mod ?N" if "i < ?a + ?n" for i
  proof -
    have "(rb_head rb + (i + ?N - ?a)) mod ?N = ((rb_tail rb + ?a) + (i + ?N - ?a)) mod ?N"
      using rb_available_head [OF assms] by (metis mod_add_left_eq)
    also have "(rb_tail rb + ?a) + (i + ?N - ?a) = (rb_tail rb + i) + ?N" using free(1) by simp
    finally show ?thesis by simp
  qed
  show "fst (rb_write data rb) = min (length data) (rb_capacity rb - length (rb_contents rb))"
    by (simp add: w(1) rb_accepts_def rb_freeSpace_def)
  show "rb_capacity (snd (rb_write data rb)) = rb_capacity rb" by (simp add: w(1))
  have "rb_contents rb1 = rb_contents rb @ take ?n data"
  proof (rule nth_equalityI)
    show "length (rb_contents rb1) = length (rb_contents rb @ take ?n data)" using av free by simp
    fix i assume "i < length (rb_contents rb1)"
    then have i: "i < ?a + ?n" by (simp add: av)
    show "rb_contents rb1 ! i = (rb_contents rb @ take ?n data) ! i"
    proof (cases "i < ?a")
      case True
      have "buf ! ((rb_tail rb + i) mod ?N) = rb_buf rb ! ((rb_tail rb + i) mod ?N)"
        unfolding pos [OF i] by (rule w(4)) (use True free in simp_all)
      then show ?thesis using True by (simp add: nth_contents av nth_append rb_at_def size)
    next
      case False
      have "(rb_tail rb + i) mod ?N = (rb_tail rb + ?a + (i - ?a)) mod ?N" using False by simp
      also have "\<dots> = (rb_head rb + (i - ?a)) mod ?N" by (metis mod_add_left_eq rb_available_head [OF assms])
      finally have "buf ! ((rb_tail rb + i) mod ?N) = data ! (i - ?a)" using w(3) [of "i - ?a"] False i by simp
      then show ?thesis using False i by (simp add: nth_contents av nth_append rb_at_def size)
    qed
  qed
  then show "rb_contents (snd (rb_write data rb)) = rb_contents rb @ take (fst (rb_write data rb)) data"
    by (simp add: w(1) rb1_def)
qed

lemma rb_read_contents:
  assumes "rb_inv rb"
  shows "fst (rb_read m rb) = take m (rb_contents rb)"
    and "rb_contents (snd (rb_read m rb)) = drop m (rb_contents rb)"
    and "rb_inv (snd (rb_read m rb))"
    and "rb_capacity (snd (rb_read m rb)) = rb_capacity rb"
proof -
  let ?a = "rb_available rb" and ?N = "rb_size rb"
  let ?n = "min m ?a"
  let ?rb = "rb\<lparr>rb_tail := (rb_tail rb + ?n) mod ?N\<rparr>"
  note r = rb_read_shape [OF assms, of m]
  have lt: "?a < ?N" by (rule rb_available_less [OF assms])
  show "fst (rb_read m rb) = take m (rb_contents rb)" by (simp add: r rb_contents_def take_map take_upt min_def)
  show inv: "rb_inv (snd (rb_read m rb))" using assms lt by (simp add: r rb_inv_def rb_size_def)
  show "rb_capacity (snd (rb_read m rb)) = rb_capacity rb" by (simp add: r)
  have size: "rb_size ?rb = ?N" by (simp add: rb_size_def)
  have av: "rb_available ?rb = ?a - ?n"
  proof (rule rb_available_unique)
    show "rb_inv ?rb" using inv by (simp add: r)
    have "((rb_tail rb + ?n) mod ?N + (?a - ?n)) mod ?N = (rb_tail rb + ?n + (?a - ?n)) mod ?N" by (rule mod_add_left_eq)
    also have "rb_tail rb + ?n + (?a - ?n) = rb_tail rb + ?a" by simp
    finally show "(rb_tail ?rb + (?a - ?n)) mod rb_size ?rb = rb_head ?rb" by (simp add: size rb_available_head [OF assms])
  qed (use lt size in simp)
  show "rb_contents (snd (rb_read m rb)) = drop m (rb_contents rb)"
  proof (rule nth_equalityI)
    show "length (rb_contents (snd (rb_read m rb))) = length (drop m (rb_contents rb))" unfolding r snd_conv by (simp only: length_contents av length_drop)
    fix i assume "i < length (rb_contents (snd (rb_read m rb)))"
    then have i: "i < ?a - ?n" unfolding r snd_conv by (simp only: length_contents av)
    have "((rb_tail rb + ?n) mod ?N + i) mod ?N = (rb_tail rb + ?n + i) mod ?N" by (rule mod_add_left_eq)
    moreover have n: "?n = m" using i by simp
    ultimately have "rb_at ?rb (rb_tail ?rb) i = rb_at rb (rb_tail rb) (m + i)" by (simp add: rb_at_def size [unfolded n] add.assoc)
    moreover have "rb_contents ?rb ! i = rb_at ?rb (rb_tail ?rb) i" by (rule nth_contents) (use i av in simp)
    moreover have "rb_contents rb ! (m + i) = rb_at rb (rb_tail rb) (m + i)" by (rule nth_contents) (use i in simp)
    ultimately show "rb_contents (snd (rb_read m rb)) ! i = drop m (rb_contents rb) ! i" unfolding r snd_conv using i by simp
  qed
qed

section \<open>One producer and one consumer\<close>

text \<open>
  The two sides run at the same time. A write loads the position of the other side, copies octet by octet and publishes its
  new position last; so does a read. These are the steps of the relation, in any order between the two sides; the
  acquire and release orderings of the source are what makes the copies happen before the position that announces them.
  The state also has the octets of all finished writes and reads.
\<close>

datatype rb_side = Rb_Idle | Rb_Copying bytes nat

record rb_system =
  sys_ring :: RingBuffer
  sys_producer :: rb_side
  sys_consumer :: rb_side
  sys_sent :: bytes
  sys_received :: bytes

inductive rb_step :: "rb_system \<Rightarrow> rb_system \<Rightarrow> bool" where
  write_begin: "sys_producer s = Rb_Idle \<Longrightarrow>
     rb_step s (s\<lparr>sys_producer := Rb_Copying (take (rb_accepts data (sys_ring s)) data) 0\<rparr>)"
| write_copy: "sys_producer s = Rb_Copying d i \<Longrightarrow> i < length d \<Longrightarrow>
     rb_step s (s\<lparr>sys_ring := (sys_ring s)\<lparr>rb_buf := (rb_buf (sys_ring s))[(rb_head (sys_ring s) + i) AND rb_mask (sys_ring s) := d ! i]\<rparr>,
                 sys_producer := Rb_Copying d (Suc i)\<rparr>)"
| write_publish: "sys_producer s = Rb_Copying d (length d) \<Longrightarrow>
     rb_step s (s\<lparr>sys_ring := (sys_ring s)\<lparr>rb_head := (rb_head (sys_ring s) + length d) AND rb_mask (sys_ring s)\<rparr>,
                 sys_producer := Rb_Idle, sys_sent := sys_sent s @ d\<rparr>)"
| read_begin: "sys_consumer s = Rb_Idle \<Longrightarrow>
     rb_step s (s\<lparr>sys_consumer := Rb_Copying [] (min m (rb_available (sys_ring s)))\<rparr>)"
| read_copy: "sys_consumer s = Rb_Copying out (Suc n) \<Longrightarrow>
     rb_step s (s\<lparr>sys_consumer := Rb_Copying
       (out @ [rb_buf (sys_ring s) ! ((rb_tail (sys_ring s) + length out) AND rb_mask (sys_ring s))]) n\<rparr>)"
| read_publish: "sys_consumer s = Rb_Copying out 0 \<Longrightarrow>
     rb_step s (s\<lparr>sys_ring := (sys_ring s)\<lparr>rb_tail := (rb_tail (sys_ring s) + length out) AND rb_mask (sys_ring s)\<rparr>,
                 sys_consumer := Rb_Idle, sys_received := sys_received s @ out\<rparr>)"

text \<open>
  The source copies in two segments, the steps octet by octet; the octets, their places and their order are the same. A side
  that runs alone does what \<open>rb_write\<close> and \<open>rb_read\<close> do.
\<close>

lemma ring_place_inject:
  assumes "i < N" "k < (N :: nat)"
  shows "(h + i) mod N = (h + k) mod N \<longleftrightarrow> i = k"
proof -
  have "i = k" if "i \<le> k" "k < N" "(h + k) mod N = (h + i) mod N" for i k
  proof -
    have "N dvd k - i" using that mod_eq_dvd_iff_nat [of "h + i" "h + k" N] by simp
    then show ?thesis using that by (cases "k = i") (auto dest: dvd_imp_le)
  qed
  then show ?thesis using assms by (metis nat_le_linear)
qed

lemma copied_length: "length (fold (\<lambda>j b. b[f j := g j]) js b) = length b"
  by (induction js arbitrary: b) simp_all

lemma copied_nth:
  assumes "k < N" "i \<le> N" "length b = N"
  shows "fold (\<lambda>j b. b[(h + j) mod N := d ! j]) [0..<i] b ! ((h + k) mod N) = (if k < i then d ! k else b ! ((h + k) mod N))"
  using assms(2)
proof (induction i)
  case (Suc i)
  have "(h + i) mod N = (h + k) mod N \<longleftrightarrow> i = k" using Suc.prems assms(1) by (intro ring_place_inject) simp_all
  moreover have "(h + k) mod N < N" using assms(1) by simp
  ultimately show ?case using Suc assms(3) by (auto simp: nth_list_update copied_length less_Suc_eq)
qed simp

lemma write_alone:
  assumes inv: "rb_inv (sys_ring s)" and idle: "sys_producer s = Rb_Idle"
    and w_def: "w = rb_write data (sys_ring s)"
  shows "rb_step\<^sup>*\<^sup>* s (s\<lparr>sys_ring := snd w, sys_producer := Rb_Idle, sys_sent := sys_sent s @ take (fst w) data\<rparr>)"
proof -
  define N h n where "N = rb_size (sys_ring s)" and "h = rb_head (sys_ring s)" and "n = rb_accepts data (sys_ring s)"
  obtain buf where shape: "w = (n, (sys_ring s)\<lparr>rb_buf := buf, rb_head := (h + n) mod N\<rparr>)" "length buf = N"
      "\<And>i. i < n \<Longrightarrow> buf ! ((h + i) mod N) = data ! i"
      "\<And>i. n \<le> i \<Longrightarrow> i < N \<Longrightarrow> buf ! ((h + i) mod N) = rb_buf (sys_ring s) ! ((h + i) mod N)"
    using rb_write_shape [OF inv, of data] unfolding w_def N_def h_def n_def by metis
  have N: "h < N" "length (rb_buf (sys_ring s)) = N" "n \<le> length data" "n < N"
    using inv by (auto simp: rb_inv_def N_def h_def n_def rb_accepts_def rb_freeSpace_def rb_size_def)
  let ?d = "take n data"
  let ?b = "\<lambda>i. fold (\<lambda>j b. b[(h + j) mod N := ?d ! j]) [0..<i] (rb_buf (sys_ring s))"
  let ?s = "\<lambda>i. s\<lparr>sys_ring := (sys_ring s)\<lparr>rb_buf := ?b i\<rparr>, sys_producer := Rb_Copying ?d i\<rparr>"
  have mask: "x AND rb_mask (sys_ring s) = x mod N" for x using rb_and_mask [OF inv] by (simp add: N_def)
  have copies: "rb_step\<^sup>*\<^sup>* s (?s i)" if "i \<le> n" for i
    using that
  proof (induction i)
    case 0
    then show ?case using rb_step.write_begin [OF idle, of data] by (simp add: n_def)
  next
    case (Suc i)
    have "rb_step (?s i) (?s (Suc i))"
      using rb_step.write_copy [of "?s i" ?d i] Suc.prems N(3) by (simp add: mask h_def)
    then show ?case using Suc by (simp add: rtranclp.rtrancl_into_rtrancl)
  qed
  have len: "length (?b n) = N" using N(2) by (simp add: copied_length)
  have "?b n = buf"
  proof (rule nth_equalityI)
    show "length (?b n) = length buf" by (simp add: len shape(2))
    fix p assume "p < length (?b n)"
    then have p: "p < N" by (simp add: len)
    define k where "k = (p + N - h) mod N"
    have k: "k < N" "(h + k) mod N = p" using p N(1) by (simp_all add: k_def mod_add_right_eq)
    then show "?b n ! p = buf ! p"
      using copied_nth [of k N n "rb_buf (sys_ring s)" h ?d] shape(3,4) [of k] N(2,4) by (cases "k < n") auto
  qed
  then have "rb_step (?s n) (s\<lparr>sys_ring := snd w, sys_producer := Rb_Idle, sys_sent := sys_sent s @ take (fst w) data\<rparr>)"
    using rb_step.write_publish [of "?s n" ?d] N(3) by (simp add: shape(1) mask h_def)
  then show ?thesis using copies [of n] by simp
qed

lemma read_alone:
  assumes inv: "rb_inv (sys_ring s)" and idle: "sys_consumer s = Rb_Idle"
    and r_def: "r = rb_read m (sys_ring s)"
  shows "rb_step\<^sup>*\<^sup>* s (s\<lparr>sys_ring := snd r, sys_consumer := Rb_Idle, sys_received := sys_received s @ fst r\<rparr>)"
proof -
  define N t n where "N = rb_size (sys_ring s)" and "t = rb_tail (sys_ring s)" and "n = min m (rb_available (sys_ring s))"
  have shape: "r = (map (rb_at (sys_ring s) t) [0..<n], (sys_ring s)\<lparr>rb_tail := (t + n) mod N\<rparr>)"
    using rb_read_shape [OF inv, of m] by (simp add: r_def N_def t_def n_def)
  have mask: "x AND rb_mask (sys_ring s) = x mod N" for x using rb_and_mask [OF inv] by (simp add: N_def)
  let ?s = "\<lambda>i. s\<lparr>sys_consumer := Rb_Copying (map (rb_at (sys_ring s) t) [0..<i]) (n - i)\<rparr>"
  have copies: "rb_step\<^sup>*\<^sup>* s (?s i)" if "i \<le> n" for i
    using that
  proof (induction i)
    case 0
    then show ?case using rb_step.read_begin [OF idle, of m] by (simp add: n_def)
  next
    case (Suc i)
    have "rb_step (?s i) (?s (Suc i))"
      using rb_step.read_copy [of "?s i" "map (rb_at (sys_ring s) t) [0..<i]" "n - Suc i"] Suc.prems
      by (simp add: mask t_def rb_at_def N_def Suc_diff_Suc)
    then show ?case using Suc by (simp add: rtranclp.rtrancl_into_rtrancl)
  qed
  have "rb_step (?s n) (s\<lparr>sys_ring := snd r, sys_consumer := Rb_Idle, sys_received := sys_received s @ fst r\<rparr>)"
    using rb_step.read_publish [of "?s n" "map (rb_at (sys_ring s) t) [0..<n]"] by (simp add: shape mask t_def)
  then show ?thesis using copies [of n] by simp
qed

definition rb_start :: "u64 \<Rightarrow> rb_system" where
  "rb_start capacity = \<lparr>sys_ring = mkRingBuffer capacity, sys_producer = Rb_Idle, sys_consumer = Rb_Idle, sys_sent = [], sys_received = []\<rparr>"

text \<open>
  The octets the producer has copied lie in the free part of the ring, and those the consumer has copied are the first of
  the contents.
\<close>

definition rb_sys_inv :: "rb_system \<Rightarrow> bool" where
  "rb_sys_inv s \<longleftrightarrow> rb_inv (sys_ring s) \<and> sys_sent s = sys_received s @ rb_contents (sys_ring s) \<and>
     (case sys_producer s of Rb_Idle \<Rightarrow> True
      | Rb_Copying d i \<Rightarrow> i \<le> length d \<and> rb_available (sys_ring s) + length d < rb_size (sys_ring s) \<and>
          (\<forall>j < i. rb_at (sys_ring s) (rb_head (sys_ring s)) j = d ! j)) \<and>
     (case sys_consumer s of Rb_Idle \<Rightarrow> True
      | Rb_Copying out n \<Rightarrow> length out + n \<le> rb_available (sys_ring s) \<and> out = take (length out) (rb_contents (sys_ring s)))"

lemma mkRingBuffer_inv:
  assumes "unat capacity \<le> 2 ^ 63"
  shows "rb_inv (mkRingBuffer capacity)" "rb_contents (mkRingBuffer capacity) = []"
proof -
  obtain k where k: "0 < k" "unat (rb_round capacity) = 2 ^ k" using assms by (rule rb_round_power) blast
  have "unat (rb_round capacity - 1) = 2 ^ k - 1" using k by (subst unat_sub) (simp_all add: word_le_nat_alt)
  then show "rb_inv (mkRingBuffer capacity)" "rb_contents (mkRingBuffer capacity) = []"
    using k by (auto simp: mkRingBuffer_def Let_def rb_inv_def rb_size_def rb_contents_def rb_available_def)
qed

lemma rb_start_inv: "unat capacity \<le> 2 ^ 63 \<Longrightarrow> rb_sys_inv (rb_start capacity)"
  by (simp add: rb_sys_inv_def rb_start_def mkRingBuffer_inv)

text \<open>A store behind the head leaves the contents alone.\<close>

lemma store_behind_head:
  fixes x :: u8
  assumes "rb_inv rb" "rb_available rb + i < rb_size rb"
  defines "rb1 \<equiv> rb\<lparr>rb_buf := (rb_buf rb)[(rb_head rb + i) mod rb_size rb := x]\<rparr>"
  shows "rb_inv rb1" "rb_contents rb1 = rb_contents rb" "rb_available rb1 = rb_available rb" "rb_size rb1 = rb_size rb"
    "rb_at rb1 (rb_head rb) i = x" "j < i \<Longrightarrow> rb_at rb1 (rb_head rb) j = rb_at rb (rb_head rb) j"
proof -
  show size: "rb_size rb1 = rb_size rb" and inv: "rb_inv rb1" using assms(1) by (simp_all add: rb1_def rb_inv_def rb_size_def)
  show av: "rb_available rb1 = rb_available rb" by (simp add: rb1_def rb_available_def)
  have len: "(rb_head rb + i) mod rb_size rb < length (rb_buf rb)" using assms(1) by (simp add: rb_inv_def)
  then show "rb_at rb1 (rb_head rb) i = x" by (simp add: rb1_def rb_at_def rb_size_def)
  have other: "rb_at rb1 p j = rb_at rb p j" if "(p + j) mod rb_size rb \<noteq> (rb_head rb + i) mod rb_size rb" for p j
    using that by (simp add: rb1_def rb_at_def rb_size_def)
  show "rb_at rb1 (rb_head rb) j = rb_at rb (rb_head rb) j" if "j < i"
    using ring_inj [of "rb_head rb" j "rb_size rb" i] assms(2) that by (intro other) auto
  have head: "(rb_head rb + i) mod rb_size rb = (rb_tail rb + (rb_available rb + i)) mod rb_size rb"
    using mod_add_left_eq [of "rb_tail rb + rb_available rb" "rb_size rb" i] rb_available_head [OF assms(1)] by (simp add: add.assoc)
  have "rb_at rb1 (rb_tail rb) j = rb_at rb (rb_tail rb) j" if "j < rb_available rb" for j
    using ring_inj [of "rb_tail rb" j "rb_size rb" "rb_available rb + i"] assms(2) that by (intro other) (auto simp: head)
  then show "rb_contents rb1 = rb_contents rb" by (simp add: rb_contents_def av) (simp add: rb1_def)
qed

lemma publish_head:
  assumes "rb_inv rb" "rb_available rb + length d < rb_size rb" "\<And>j. j < length d \<Longrightarrow> rb_at rb (rb_head rb) j = d ! j"
  defines "rb1 \<equiv> rb\<lparr>rb_head := (rb_head rb + length d) mod rb_size rb\<rparr>"
  shows "rb_inv rb1" "rb_contents rb1 = rb_contents rb @ d" "rb_size rb1 = rb_size rb"
proof -
  show size: "rb_size rb1 = rb_size rb" and inv: "rb_inv rb1" using assms(1,2) by (auto simp: rb1_def rb_inv_def rb_size_def)
  have head: "(rb_tail rb + (rb_available rb + j)) mod rb_size rb = (rb_head rb + j) mod rb_size rb" for j
    using mod_add_left_eq [of "rb_tail rb + rb_available rb" "rb_size rb" j] rb_available_head [OF assms(1)] by (simp add: add.assoc)
  have at: "rb_at rb1 p j = rb_at rb p j" for p j by (simp add: rb1_def rb_at_def rb_size_def)
  have av: "rb_available rb1 = rb_available rb + length d"
    by (rule rb_available_unique [OF inv]) (use assms(2) size head in \<open>simp_all add: rb1_def\<close>)
  show "rb_contents rb1 = rb_contents rb @ d"
  proof (rule nth_equalityI)
    fix i assume "i < length (rb_contents rb1)"
    then have i: "i < rb_available rb + length d" by (simp add: av)
    have t: "rb_tail rb1 = rb_tail rb" by (simp add: rb1_def)
    show "rb_contents rb1 ! i = (rb_contents rb @ d) ! i"
    proof (cases "i < rb_available rb")
      case True
      then show ?thesis by (simp add: nth_append nth_contents av at t)
    next
      case False
      then have "rb_at rb (rb_tail rb) i = rb_at rb (rb_head rb) (i - rb_available rb)"
        using head [of "i - rb_available rb"] by (simp add: rb_at_def)
      then show ?thesis using False i assms(3) [of "i - rb_available rb"] by (simp add: nth_append nth_contents av at t)
    qed
  qed (simp add: av)
qed

lemma publish_tail:
  assumes "rb_inv rb" "n \<le> rb_available rb"
  defines "rb1 \<equiv> rb\<lparr>rb_tail := (rb_tail rb + n) mod rb_size rb\<rparr>"
  shows "rb_inv rb1" "rb_contents rb1 = drop n (rb_contents rb)" "rb_available rb1 = rb_available rb - n"
    "rb_size rb1 = rb_size rb" "rb_head rb1 = rb_head rb" "rb_at rb1 p j = rb_at rb p j"
proof -
  have e: "snd (rb_read n rb) = rb1" using rb_read_shape [OF assms(1), of n] assms(2) by (simp add: rb1_def min_def)
  show "rb_inv rb1" "rb_contents rb1 = drop n (rb_contents rb)" using rb_read_contents [OF assms(1), of n] by (simp_all add: e)
  then show "rb_available rb1 = rb_available rb - n" using length_contents [of rb1] by simp
  show "rb_size rb1 = rb_size rb" "rb_head rb1 = rb_head rb" "rb_at rb1 p j = rb_at rb p j"
    by (simp_all add: rb1_def rb_size_def rb_at_def)
qed

lemma accepts_bound: "rb_inv rb \<Longrightarrow> rb_available rb + rb_accepts d rb < rb_size rb"
  using rb_available_less [of rb] by (auto simp: rb_accepts_def rb_freeSpace_def rb_inv_def rb_size_def)

lemma rb_step_inv:
  assumes "rb_step s s'" "rb_sys_inv s"
  shows "rb_sys_inv s'"
  using assms
proof (cases rule: rb_step.cases)
  case (write_begin data)
  have "rb_inv (sys_ring s)" using assms(2) by (simp add: rb_sys_inv_def)
  then show ?thesis using assms(2) accepts_bound [of "sys_ring s" data] by (auto simp: rb_sys_inv_def write_begin rb_accepts_def split: rb_side.splits)
next
  case (write_copy d i)
  let ?rb = "sys_ring s"
  have inv: "rb_inv ?rb" "rb_available ?rb + length d < rb_size ?rb" "\<And>j. j < i \<Longrightarrow> rb_at ?rb (rb_head ?rb) j = d ! j"
    using assms(2) write_copy by (simp_all add: rb_sys_inv_def)
  then have "rb_available ?rb + i < rb_size ?rb" using write_copy(3) by simp
  note st = store_behind_head [OF inv(1) this, where x = "d ! i"]
  show ?thesis
    using assms(2) write_copy st inv(3) unfolding rb_sys_inv_def
    by (auto simp: rb_and_mask [OF inv(1)] less_Suc_eq split: rb_side.splits)
next
  case (write_publish d)
  let ?rb = "sys_ring s"
  have inv: "rb_inv ?rb" "rb_available ?rb + length d < rb_size ?rb" "\<And>j. j < length d \<Longrightarrow> rb_at ?rb (rb_head ?rb) j = d ! j"
    using assms(2) write_publish by (simp_all add: rb_sys_inv_def)
  note pb = publish_head [OF inv]
  have "rb_available (?rb\<lparr>rb_head := (rb_head ?rb + length d) mod rb_size ?rb\<rparr>) = rb_available ?rb + length d"
    using length_contents [of "?rb\<lparr>rb_head := (rb_head ?rb + length d) mod rb_size ?rb\<rparr>"] pb(2) by simp
  then show ?thesis
    using assms(2) write_publish pb unfolding rb_sys_inv_def
    by (auto simp: rb_and_mask [OF inv(1)] split: rb_side.splits)
next
  case (read_begin m)
  then show ?thesis using assms(2) by (auto simp: rb_sys_inv_def split: rb_side.splits)
next
  case (read_copy out n)
  let ?rb = "sys_ring s"
  have inv: "rb_inv ?rb" "length out + Suc n \<le> rb_available ?rb" "out = take (length out) (rb_contents ?rb)"
    using assms(2) read_copy by (simp_all add: rb_sys_inv_def)
  have "out @ [rb_contents ?rb ! length out] = take (Suc (length out)) (rb_contents ?rb)"
    using inv(2,3) by (simp add: take_Suc_conv_app_nth)
  then show ?thesis
    using assms(2) read_copy inv(2) nth_contents [of "length out" ?rb]
    by (auto simp: rb_sys_inv_def rb_and_mask [OF inv(1)] rb_at_def split: rb_side.splits)
next
  case (read_publish out)
  let ?rb = "sys_ring s"
  have inv: "rb_inv ?rb" "length out \<le> rb_available ?rb" "out = take (length out) (rb_contents ?rb)"
    using assms(2) read_publish by (simp_all add: rb_sys_inv_def)
  have "sys_received s @ rb_contents ?rb = sys_received s @ out @ drop (length out) (rb_contents ?rb)"
    using inv(3) by (metis append_take_drop_id)
  then show ?thesis
    using assms(2) read_publish publish_tail [OF inv(1,2)] unfolding rb_sys_inv_def
    by (auto simp: rb_and_mask [OF inv(1)] split: rb_side.splits)
qed

lemma rb_reachable_inv: "rb_step\<^sup>*\<^sup>* s s' \<Longrightarrow> rb_sys_inv s \<Longrightarrow> rb_sys_inv s'"
  by (induction rule: rtranclp_induct) (auto intro: rb_step_inv)

section \<open>Properties\<close>

text \<open>
  C36. Under every interleaving of one producer and one consumer, down to the copying of single octets, the octets of the
  finished reads followed by what is in the ring are the octets of the finished writes: nothing is lost, duplicated, reordered
  or read before it is written.
\<close>

theorem ring_fifo:
  assumes "unat capacity \<le> 2 ^ 63" "rb_step\<^sup>*\<^sup>* (rb_start capacity) s"
  shows "sys_sent s = sys_received s @ rb_contents (sys_ring s)"
  using rb_reachable_inv [OF assms(2) rb_start_inv [OF assms(1)]] by (simp add: rb_sys_inv_def)

definition example_ring :: rb_system where
  "example_ring = (rb_start 4)\<lparr>sys_ring := (mkRingBuffer 4)\<lparr>rb_buf := [7, 0, 0, 0], rb_head := 1\<rparr>, sys_sent := [7]\<rparr>"

lemma example_ring_reached: "rb_step\<^sup>*\<^sup>* (rb_start 4) example_ring"
proof -
  let ?s0 = "rb_start 4"
  let ?s1 = "?s0\<lparr>sys_producer := Rb_Copying [7] 0\<rparr>"
  let ?s2 = "?s1\<lparr>sys_ring := (mkRingBuffer 4)\<lparr>rb_buf := [7, 0, 0, 0]\<rparr>, sys_producer := Rb_Copying [7] (Suc 0)\<rparr>"
  have ring: "mkRingBuffer 4 = \<lparr>rb_buf = [0, 0, 0, 0], rb_head = 0, rb_tail = 0, rb_mask = 3, rb_capacity = 3\<rparr>" by code_simp
  have "rb_accepts [7] (mkRingBuffer 4) = 1" by (simp add: ring rb_accepts_def rb_freeSpace_def rb_available_def)
  then have 1: "rb_step ?s0 ?s1" using rb_step.write_begin [of ?s0 "[7]"] by (simp add: rb_start_def)
  have 2: "rb_step ?s1 ?s2" using rb_step.write_copy [of ?s1 "[7]" 0] by (simp add: rb_start_def ring)
  have 3: "rb_step ?s2 example_ring" using rb_step.write_publish [of ?s2 "[7]"]
    by (simp add: rb_start_def ring example_ring_def)
  show ?thesis using 1 2 3 by (meson rtranclp.rtrancl_into_rtrancl rtranclp.rtrancl_refl)
qed

theorem ring_fifo_witness:
  "unat (4 :: u64) \<le> 2 ^ 63 \<and> rb_step\<^sup>*\<^sup>* (rb_start 4) example_ring \<and>
   sys_sent example_ring = sys_received example_ring @ rb_contents (sys_ring example_ring)"
proof -
  have "unat (4 :: u64) \<le> 2 ^ 63" by simp
  then show ?thesis using ring_fifo [OF _ example_ring_reached] example_ring_reached by blast
qed

end
