(* ===== verification/Bit_Reader.thy ===== *)
theory Bit_Reader
  imports Prelude
begin

text \<open>
  The bit reader of the parsers, \<^verbatim>\<open>bitreader.h\<close>: fields of up to 32 bits, most significant bit first, from a
  buffer of octets. Parsers are functions of a reader; \<open>rbind\<close> is the sequence \<^verbatim>\<open>if (!r) return error\<close> of
  the sources. The meaning of a reader is the list of the bits still to come, and every operation is specified on it.
\<close>

unbundle bit_operations_syntax

section \<open>State\<close>

text \<open>
  A reader may be built on a null pointer. Positions and sizes are \<^verbatim>\<open>size_t\<close>: natural numbers, with the
  subtraction that can wrap written out.
\<close>

record BitReader =
  br_buf :: "bytes option"
  br_totalBits :: nat
  br_pos :: nat
  br_byteIndex :: nat
  br_bitOffset :: nat

type_synonym 'a parser = "BitReader \<Rightarrow> 'a Expected \<times> BitReader"

definition mkBitReader :: "bytes option \<Rightarrow> nat \<Rightarrow> BitReader" where
  "mkBitReader buf nbits = \<lparr>br_buf = buf, br_totalBits = nbits, br_pos = 0, br_byteIndex = 0, br_bitOffset = 0\<rparr>"

definition size_sub :: "nat \<Rightarrow> nat \<Rightarrow> nat" where
  "size_sub a b = (a + 2 ^ 64 - b) mod 2 ^ 64"

definition rreturn :: "'a \<Rightarrow> 'a parser" where
  "rreturn x br = (Inr x, br)"

definition rfail :: "ErrorCode \<Rightarrow> string \<Rightarrow> 'a parser" where
  "rfail c msg br = (perr c msg, br)"

definition rbind :: "'a parser \<Rightarrow> ('a \<Rightarrow> 'b parser) \<Rightarrow> 'b parser" where
  "rbind p f br = (case p br of (Inl e, br1) \<Rightarrow> (Inl e, br1) | (Inr x, br1) \<Rightarrow> f x br1)"

section \<open>Operations\<close>

text \<open>\<open>loadN_octets\<close> are the octets that the loop of \<open>loadN\<close> reads, in their order.\<close>

definition loadN_octets :: "nat \<Rightarrow> nat \<Rightarrow> nat \<Rightarrow> nat list" where
  "loadN_octets start totalBytes n =
     (let s = start mod 2 ^ 32; e = (s + n) mod 2 ^ 32; m = totalBytes mod 2 ^ 32; e' = (if e > m then m else e) in [s..<e'])"

definition loadN :: "bytes \<Rightarrow> nat \<Rightarrow> nat \<Rightarrow> nat \<Rightarrow> u32 \<times> nat" where
  "loadN buf start totalBytes n =
     foldl (\<lambda>(val, actual) i. (push_bit 8 val OR ucast (buf ! i), actual + 1)) (0, 0) (loadN_octets start totalBytes n)"

definition fieldSpanBytes :: "nat \<Rightarrow> nat \<Rightarrow> nat" where
  "fieldSpanBytes bitOff nbits = (if nbits = 0 then 0 else (bitOff + nbits - 1) div 8 + 1)"

definition remainingBytes :: "BitReader \<Rightarrow> nat" where
  "remainingBytes br = ((size_sub (br_totalBits br) (br_pos br) + 7) div 8) mod 2 ^ 32"

definition window_value :: "bytes \<Rightarrow> nat \<Rightarrow> nat \<Rightarrow> nat \<Rightarrow> nat \<Rightarrow> nat \<Rightarrow> u32" where
  "window_value buf byteIndex totalBytes bitOffset toLoad nbits =
     (let (loaded, actual) = loadN buf byteIndex totalBytes toLoad
      in drop_bit (actual * 8 - bitOffset - nbits) loaded AND drop_bit (32 - nbits) (- 1))"

definition wide_value :: "bytes \<Rightarrow> nat \<Rightarrow> nat \<Rightarrow> nat \<Rightarrow> nat \<Rightarrow> u32" where
  "wide_value buf byteIndex totalBytes bitOffset nbits =
     (let lo = fst (loadN buf byteIndex totalBytes 4);
          hi = fst (loadN buf (byteIndex + 4) totalBytes 1);
          window = push_bit 8 (ucast lo :: u64) OR ucast hi
      in ucast (drop_bit (40 - bitOffset - nbits) window AND ucast (drop_bit (32 - nbits) (- 1) :: u32)))"

definition field_value :: "bytes \<Rightarrow> BitReader \<Rightarrow> nat \<Rightarrow> u32" where
  "field_value buf br nbits =
     (let totalBytes = (br_totalBits br + 7) div 8
      in if br_bitOffset br = 0
      then let toLoad = fieldSpanBytes 0 nbits; toLoad' = (if toLoad > 4 then 4 else toLoad)
           in window_value buf (br_byteIndex br) totalBytes 0 toLoad' nbits
      else let needBytes = fieldSpanBytes (br_bitOffset br) nbits; availBytes = remainingBytes br
      in if availBytes \<ge> needBytes \<and> needBytes \<le> 4
      then window_value buf (br_byteIndex br) totalBytes (br_bitOffset br) needBytes nbits
      else if br_bitOffset br + nbits \<le> 32
      then let toLoad = fieldSpanBytes (br_bitOffset br) nbits; toLoad' = (if toLoad > 4 then 4 else toLoad)
           in window_value buf (br_byteIndex br) totalBytes (br_bitOffset br) toLoad' nbits
      else wide_value buf (br_byteIndex br) totalBytes (br_bitOffset br) nbits)"

definition br_goto :: "nat \<Rightarrow> BitReader \<Rightarrow> BitReader" where
  "br_goto pos br = br\<lparr>br_pos := pos, br_byteIndex := pos div 8, br_bitOffset := pos mod 8\<rparr>"

definition readField :: "nat \<Rightarrow> u32 parser" where
  "readField nbits br =
     (if nbits = 0 then (Inr 0, br)
      else case br_buf br of
        None \<Rightarrow> (perr TruncatedInput ''null buffer'', br)
      | Some buf \<Rightarrow>
          if nbits > 32 then (perr InvalidValue ''field too large'', br)
          else if br_pos br + nbits > br_totalBits br then (perr TruncatedInput ''read past end'', br)
          else (Inr (field_value buf br nbits), br_goto (br_pos br + nbits) br))"

definition peekField :: "nat \<Rightarrow> BitReader \<Rightarrow> u32" where
  "peekField n0 br =
     (if n0 = 0 then 0
      else let nbits = (if n0 > 32 then 32 else n0);
               limit = (if br_pos br + nbits > br_totalBits br then br_totalBits br else br_pos br + nbits);
               actualNbits = size_sub limit (br_pos br) mod 2 ^ 32
      in if actualNbits = 0 then 0
      else case br_buf br of
        None \<Rightarrow> 0
      | Some buf \<Rightarrow> push_bit (nbits - actualNbits) (field_value buf br actualNbits))"

definition hasMore :: "BitReader \<Rightarrow> bool" where
  "hasMore br \<longleftrightarrow> br_pos br < br_totalBits br"

definition remainingBits :: "BitReader \<Rightarrow> nat" where
  "remainingBits br = size_sub (br_totalBits br) (br_pos br)"

definition br_alignToOctet :: "BitReader \<Rightarrow> BitReader" where
  "br_alignToOctet br =
     (let pos = (if br_pos br mod 8 \<noteq> 0
                 then (let q = br_pos br + (8 - br_pos br mod 8) in if q > br_totalBits br then br_totalBits br else q)
                 else br_pos br)
      in br_goto pos br)"

function readBytes_loop :: "bytes \<Rightarrow> nat \<Rightarrow> bytes \<Rightarrow> BitReader \<Rightarrow> bytes Expected \<times> BitReader" where
  "readBytes_loop buf left out br =
     (if left = 0 then (Inr out, br)
      else let bitOff = br_pos br mod 8; takeBytes = min left 3; needBytes = fieldSpanBytes bitOff (takeBytes * 8);
               availBytes = remainingBytes br
      in if availBytes \<ge> needBytes \<and> needBytes \<le> 4
      then (let (loaded, actual) = loadN buf (br_byteIndex br) ((br_totalBits br + 7) div 8) needBytes;
                got = map (\<lambda>i. ucast (drop_bit (actual * 8 - bitOff - (i + 1) * 8) loaded)) [0..<takeBytes];
                pos = br_pos br + takeBytes * 8
            in readBytes_loop buf (left - takeBytes) (out @ got) (br\<lparr>br_pos := pos, br_byteIndex := pos div 8\<rparr>))
      else case readField 8 br of
             (Inl e, br1) \<Rightarrow> (Inl e, br1)
           | (Inr v, br1) \<Rightarrow> readBytes_loop buf (left - 1) (out @ [ucast v]) br1)"
  by pat_completeness auto

termination readBytes_loop
  by (relation "measure (\<lambda>(_, left, _, _). left)") auto

declare readBytes_loop.simps [simp del]

definition readBytes :: "nat \<Rightarrow> bytes parser" where
  "readBytes count br =
     (if count = 0 then (Inr [], br)
      else case br_buf br of
        None \<Rightarrow> (perr TruncatedInput ''null buffer'', br)
      | Some buf \<Rightarrow>
          if br_pos br div 8 + count > (br_totalBits br + 7) div 8 then (perr TruncatedInput ''read past end'', br)
          else if br_bitOffset br = 0
          then (Inr (take count (drop (br_byteIndex br) buf)),
                br\<lparr>br_pos := br_pos br + count * 8, br_byteIndex := br_byteIndex br + count\<rparr>)
          else case readBytes_loop buf count [] br of
            (Inl e, br1) \<Rightarrow> (Inl e, br1)
          | (Inr out, br1) \<Rightarrow> (Inr out, br1\<lparr>br_bitOffset := br_pos br1 mod 8\<rparr>))"

section \<open>Meaning: the bits to come\<close>

definition octet_list :: "u8 \<Rightarrow> bool list" where
  "octet_list w = map (\<lambda>i. bit w (7 - i)) [0..<8]"

definition bits_of :: "bytes \<Rightarrow> bool list" where
  "bits_of bs = concat (map octet_list bs)"

definition bval :: "bool list \<Rightarrow> nat" where
  "bval bs = foldl (\<lambda>v b. 2 * v + of_bool b) 0 bs"

definition br_ok :: "BitReader \<Rightarrow> bool" where
  "br_ok br \<longleftrightarrow>
     (\<exists>buf. br_buf br = Some buf \<and> br_totalBits br \<le> 8 * length buf \<and> length buf < 2 ^ 32 - 4) \<and>
     br_pos br \<le> br_totalBits br \<and> br_byteIndex br = br_pos br div 8 \<and> br_bitOffset br = br_pos br mod 8"

definition upcoming :: "BitReader \<Rightarrow> bool list" where
  "upcoming br = take (br_totalBits br - br_pos br) (drop (br_pos br) (bits_of (the (br_buf br))))"

lemma length_octet_list [simp]: "length (octet_list w) = 8"
  by (simp add: octet_list_def)

lemma bits_of_simps [simp]: "bits_of [] = []" "bits_of (b # bs) = octet_list b @ bits_of bs"
  "bits_of (xs @ ys) = bits_of xs @ bits_of ys"
  by (simp_all add: bits_of_def)

lemma length_bits_of [simp]: "length (bits_of bs) = 8 * length bs"
  by (induction bs) simp_all

lemma bits_of_drop: "drop (8 * n) (bits_of bs) = bits_of (drop n bs)"
proof (induction bs arbitrary: n)
  case (Cons b bs)
  then show ?case by (cases n) simp_all
qed simp

lemma bits_of_take: "take (8 * n) (bits_of bs) = bits_of (take n bs)"
proof (induction bs arbitrary: n)
  case (Cons b bs)
  then show ?case by (cases n) simp_all
qed simp

lemma bval_append: "bval (xs @ ys) = bval xs * 2 ^ length ys + bval ys"
proof (induction ys rule: rev_induct)
  case (snoc y ys)
  have "bval (xs @ ys @ [y]) = 2 * bval (xs @ ys) + of_bool y" "bval (ys @ [y]) = 2 * bval ys + of_bool y"
    by (simp_all add: bval_def)
  then show ?case using snoc by (simp add: algebra_simps)
qed (simp add: bval_def)

lemma bval_less: "bval bs < 2 ^ length bs"
proof (induction bs rule: rev_induct)
  case (snoc b bs)
  then show ?case by (cases b) (simp_all add: bval_append, simp_all add: bval_def)
qed (simp add: bval_def)

lemma bval_field:
  assumes "off + n \<le> length bs"
  shows "bval (take n (drop off bs)) = (bval bs div 2 ^ (length bs - off - n)) mod 2 ^ n"
proof -
  let ?a = "take off bs" and ?b = "take n (drop off bs)" and ?c = "drop n (drop off bs)"
  have split: "(?a @ ?b) @ ?c = bs" by (simp only: append_assoc append_take_drop_id)
  have len: "length ?b = n" "length ?c = length bs - off - n" using assms by simp_all
  have "bval bs = bval ((?a @ ?b) @ ?c)" by (simp only: split)
  also have "\<dots> = (bval ?a * 2 ^ n + bval ?b) * 2 ^ length ?c + bval ?c"
    by (simp only: bval_append len)
  finally have "bval bs = (bval ?a * 2 ^ n + bval ?b) * 2 ^ length ?c + bval ?c" .
  moreover have "bval ?c < 2 ^ length ?c" by (rule bval_less)
  ultimately have "bval bs div 2 ^ length ?c = bval ?a * 2 ^ n + bval ?b" by simp
  moreover have "bval ?b < 2 ^ n" using bval_less [of ?b] by (simp only: len)
  ultimately show ?thesis by (simp only: len) simp
qed

lemma bval_Cons: "bval (b # bs) = of_bool b * 2 ^ length bs + bval bs"
  using bval_append [of "[b]" bs] by (simp add: bval_def)

lemma bval_bits_below: "bval (map (\<lambda>i. bit x (n - 1 - i)) [0..<n]) = take_bit n (x :: nat)"
proof (induction n)
  case (Suc n)
  have "map (\<lambda>i. bit x (n - i)) [0..<Suc n] = bit x n # map (\<lambda>i. bit x (n - 1 - i)) [0..<n]"
    by (simp add: upt_conv_Cons map_Suc_upt [symmetric] del: upt_Suc)
  then show ?case using Suc by (simp add: bval_Cons take_bit_Suc_from_most del: upt_Suc)
qed (simp add: bval_def)

lemma bval_octet: "bval (octet_list w) = unat w"
proof -
  have "octet_list w = map (\<lambda>i. bit (unat w) (8 - 1 - i)) [0..<8]"
    by (simp add: octet_list_def bit_unsigned_iff)
  then have "bval (octet_list w) = take_bit 8 (unat w)" by (simp only: bval_bits_below)
  also have "\<dots> = unat w" by (simp add: take_bit_nat_eq_self unsigned_less [of w, where 'a = nat, simplified])
  finally show ?thesis .
qed

section \<open>The windowed load is the field\<close>

lemma bval_bits_of_snoc: "bval (bits_of (bs @ [b])) = bval (bits_of bs) * 256 + unat b"
  by (simp add: bval_append bval_octet)

lemma or_octet: "push_bit 8 v OR ucast b = v * 256 + (ucast (b :: u8) :: 'a :: len word)"
proof -
  have "push_bit 8 v AND (ucast b :: 'a word) = 0"
    by (rule bit_word_eqI) (auto simp: bit_simps dest: bit_imp_le_length)
  then show ?thesis by (simp add: disjunctive_add_eq_or [symmetric] push_bit_eq_mult)
qed

lemma loadN_eq:
  assumes "s + k \<le> m" "m \<le> length buf" "length buf < 2 ^ 32"
  shows "loadN buf s m k = (of_nat (bval (bits_of (take k (drop s buf)))), k)"
proof -
  let ?f = "\<lambda>(val :: u32, actual :: nat) i. (push_bit 8 val OR ucast (buf ! i), actual + 1)"
  have "foldl ?f (0, 0) [s..<s + k] = (of_nat (bval (bits_of (take k (drop s buf)))), k)"
    using assms(1)
  proof (induction k)
    case (Suc k)
    then have "take (Suc k) (drop s buf) = take k (drop s buf) @ [buf ! (s + k)]"
      using assms(2) by (simp add: take_Suc_conv_app_nth)
    then show ?case using Suc by (simp add: bval_bits_of_snoc or_octet del: bits_of_simps)
  qed (simp add: bval_def)
  moreover have "s mod 2 ^ 32 = s" "(s + k) mod 2 ^ 32 = s + k" "m mod 2 ^ 32 = m"
    using assms by simp_all
  ultimately show ?thesis using assms(1) by (simp add: loadN_def loadN_octets_def Let_def)
qed

lemma mask_low: "n \<le> 32 \<Longrightarrow> drop_bit (32 - n) (- 1) = (mask n :: u32)"
  by (rule bit_word_eqI) (auto simp: bit_simps)

lemma unat_field_of_nat:
  assumes "x < 2 ^ LENGTH('a :: len)" "n \<le> LENGTH('a)"
  shows "unat (drop_bit j (of_nat x :: 'a word) AND mask n) = (x div 2 ^ j) mod 2 ^ n"
proof -
  have "unat (of_nat x :: 'a word) = x" using assms(1) by (simp add: unat_of_nat)
  then have "unat (take_bit n (drop_bit j (of_nat x :: 'a word))) = take_bit n (drop_bit j x)"
    by (simp only: unsigned_take_bit_eq unsigned_drop_bit_eq) (simp add: assms take_bit_nat_eq_self)
  then show ?thesis by (simp add: take_bit_eq_mask [symmetric] take_bit_eq_mod drop_bit_eq_div)
qed

lemma window_value_eq:
  assumes "b + k \<le> m" "m \<le> length buf" "length buf < 2 ^ 32" "off + n \<le> 8 * k" "k \<le> 4" "n \<le> 32"
  shows "unat (window_value buf b m off k n) = bval (take n (drop (8 * b + off) (bits_of buf)))"
proof -
  let ?bs = "bits_of (take k (drop b buf))"
  have len: "length ?bs = 8 * k" using assms by simp
  then have lt: "bval ?bs < 2 ^ (8 * k)" using bval_less [of ?bs] by simp
  also have "(2 :: nat) ^ (8 * k) \<le> 2 ^ 32" using assms(5) by (intro power_increasing) simp_all
  finally have "unat (window_value buf b m off k n) = (bval ?bs div 2 ^ (8 * k - off - n)) mod 2 ^ n"
    using assms(6) unat_field_of_nat [of "bval ?bs" n "8 * k - off - n", where 'a = 32]
    by (simp add: window_value_def loadN_eq [OF assms(1-3)] mask_low mult.commute)
  also have "\<dots> = bval (take n (drop off ?bs))" using bval_field [of off n ?bs] assms(4) len by simp
  also have "take n (drop off ?bs) = take n (drop (8 * b + off) (bits_of buf))"
    using assms(4) by (simp add: bits_of_take [symmetric] bits_of_drop [symmetric] drop_take take_take add.commute)
  finally show ?thesis .
qed

lemma wide_value_eq:
  assumes "b + 5 \<le> m" "m \<le> length buf" "length buf < 2 ^ 32" "off + n \<le> 40" "n \<le> 32"
  shows "unat (wide_value buf b m off n) = bval (take n (drop (8 * b + off) (bits_of buf)))"
proof -
  let ?lo = "bits_of (take 4 (drop b buf))" and ?bs = "bits_of (take 5 (drop b buf))"
  have len: "length ?bs = 40" "length ?lo = 32" using assms by simp_all
  have five: "take 5 (drop b buf) = take 4 (drop b buf) @ [buf ! (b + 4)]"
    and one: "take 1 (drop (b + 4) buf) = [buf ! (b + 4)]"
    using assms(1,2) take_Suc_conv_app_nth [of 4 "drop b buf"] take_Suc_conv_app_nth [of 0 "drop (b + 4) buf"]
    by simp_all
  have lo: "bval ?lo < 2 ^ 32" and lt: "bval ?bs < 2 ^ 64" using bval_less [of ?lo] bval_less [of ?bs] len by simp_all
  have "loadN buf b m 4 = (of_nat (bval ?lo), 4)" "loadN buf (b + 4) m 1 = (of_nat (unat (buf ! (b + 4))), 1)"
    using assms loadN_eq [of b 4 m buf] loadN_eq [of "b + 4" 1 m buf] by (simp_all add: one bval_octet del: One_nat_def)
  moreover have "ucast (of_nat (bval ?lo) :: u32) = (of_nat (bval ?lo) :: u64)"
    using lo by (simp add: word_eq_iff_unsigned [where 'a = nat] unsigned_ucast_eq unat_of_nat take_bit_nat_eq_self)
  moreover have "ucast (of_nat (unat (buf ! (b + 4))) :: u32) = (ucast (buf ! (b + 4)) :: u64)"
    by (intro bit_word_eqI) (auto simp: bit_simps dest: bit_imp_le_length)
  moreover have "ucast (mask n :: u32) = (mask n :: u64)" using assms(5) by (intro bit_word_eqI) (auto simp: bit_simps)
  ultimately have "wide_value buf b m off n = ucast (drop_bit (40 - off - n) (of_nat (bval ?bs) :: u64) AND mask n)"
    using assms(5) by (simp add: wide_value_def Let_def mask_low or_octet five bval_bits_of_snoc del: bits_of_simps drop_bit_or)
  moreover have "unat (drop_bit (40 - off - n) (of_nat (bval ?bs) :: u64) AND mask n) =
      (bval ?bs div 2 ^ (40 - off - n)) mod 2 ^ n"
    using lt assms(5) by (intro unat_field_of_nat) simp_all
  moreover have "(bval ?bs div 2 ^ (40 - off - n)) mod 2 ^ n < 2 ^ 32"
    using assms(5) by (meson less_le_trans mod_less_divisor one_le_numeral power_increasing zero_less_numeral zero_less_power)
  ultimately have "unat (wide_value buf b m off n) = (bval ?bs div 2 ^ (40 - off - n)) mod 2 ^ n"
    by (simp add: unsigned_ucast_eq take_bit_nat_eq_self)
  also have "\<dots> = bval (take n (drop off ?bs))" using bval_field [of off n ?bs] assms(4) len by simp
  also have "take n (drop off ?bs) = take n (drop (8 * b + off) (bits_of buf))"
    using assms(4) by (simp add: bits_of_take [of 5, symmetric] bits_of_drop [symmetric] drop_take take_take add.commute)
  finally show ?thesis .
qed

section \<open>Reading a field\<close>

lemma br_okD:
  assumes "br_ok br"
  obtains buf where "br_buf br = Some buf" "br_totalBits br \<le> 8 * length buf" "length buf < 2 ^ 32 - 4"
    "br_pos br \<le> br_totalBits br" "br_byteIndex br = br_pos br div 8" "br_bitOffset br = br_pos br mod 8"
  using assms by (auto simp: br_ok_def)

lemma span_bounds:
  assumes "0 < n"
  shows "off + n \<le> 8 * fieldSpanBytes off n" "8 * fieldSpanBytes off n < off + n + 8"
  using assms by (simp_all add: fieldSpanBytes_def)

lemma span_in_buffer:
  assumes "0 < n" "pos + n \<le> tot"
  shows "pos div 8 + fieldSpanBytes (pos mod 8) n \<le> (tot + 7) div 8"
proof -
  define q r k where "q = pos div 8" and "r = pos mod 8" and "k = fieldSpanBytes r n"
  have "pos = 8 * q + r" by (simp add: q_def r_def)
  moreover have "8 * k < r + n + 8" unfolding k_def by (rule span_bounds(2) [OF assms(1)])
  ultimately have "8 * q + 8 * k < tot + 8" using assms(2) by linarith
  then have "(q + k) * 8 \<le> tot + 7" by simp
  then show ?thesis by (simp add: less_eq_div_iff_mult_less_eq k_def q_def r_def)
qed

lemma size_sub_le: "b \<le> a \<Longrightarrow> a < 2 ^ 64 \<Longrightarrow> size_sub a b = a - b"
  by (simp add: size_sub_def) (metis Nat.add_diff_assoc2 less_imp_diff_less mod_add_self2 mod_less)

lemma field_value_eq:
  assumes ok: "br_ok br" and n: "0 < n" "n \<le> 32" and fits: "br_pos br + n \<le> br_totalBits br"
  shows "unat (field_value (the (br_buf br)) br n) = bval (take n (upcoming br))"
proof -
  from ok obtain buf where buf: "br_buf br = Some buf" "br_totalBits br \<le> 8 * length buf" "length buf < 2 ^ 32 - 4"
    and at: "br_byteIndex br = br_pos br div 8" "br_bitOffset br = br_pos br mod 8"
    by (rule br_okD)
  let ?b = "br_pos br div 8" and ?off = "br_pos br mod 8" and ?m = "(br_totalBits br + 7) div 8"
  let ?k = "fieldSpanBytes ?off n"
  have m: "?m \<le> length buf" "length buf < 2 ^ 32" using buf by simp_all
  have span: "?off + n \<le> 8 * ?k" "8 * ?k < ?off + n + 8" by (rule span_bounds [OF n(1)])+
  have fit: "?b + ?k \<le> ?m" using span_in_buffer [OF n(1) fits] .
  have pos: "8 * ?b + ?off = br_pos br" by simp
  have up: "take n (upcoming br) = take n (drop (br_pos br) (bits_of buf))"
    using fits buf(1) by (simp add: upcoming_def)
  have win: "unat (window_value buf ?b ?m ?off ?k n) = bval (take n (upcoming br))" if "?k \<le> 4"
    using window_value_eq [OF fit m span(1) that n(2)] up by (simp only: pos)
  show ?thesis
  proof (cases "?k \<le> 4")
    case True
    have "?off + n \<le> 32" using span(1) True by linarith
    then have "field_value buf br n = window_value buf ?b ?m ?off ?k n"
      using True at by (cases "?off = 0") (simp_all add: field_value_def Let_def)
    then show ?thesis using win [OF True] buf(1) by simp
  next
    case False
    then have k5: "?k = 5" using span n(2) by linarith
    have "\<not> ?off + n \<le> 32" "?off \<noteq> 0" using False span n(2) by linarith+
    then have "field_value buf br n = wide_value buf ?b ?m ?off n"
      using False at by (simp add: field_value_def Let_def)
    then show ?thesis
      using wide_value_eq [of ?b ?m buf ?off n] fit m span(1) n(2) up buf(1) by (simp add: k5)
  qed
qed

lemma goto_ok:
  assumes "br_ok br" "p \<le> br_totalBits br"
  shows "br_ok (br_goto p br)"
  using assms by (auto simp: br_ok_def br_goto_def)

lemma goto_forward:
  assumes "br_pos br + n \<le> br_totalBits br"
  shows "upcoming (br_goto (br_pos br + n) br) = drop n (upcoming br)"
  using assms by (simp add: upcoming_def br_goto_def drop_take add.commute)

lemma length_upcoming: "br_ok br \<Longrightarrow> length (upcoming br) = br_totalBits br - br_pos br"
  by (auto simp: br_ok_def upcoming_def)

lemma goto_fields [simp]:
  "br_buf (br_goto p br) = br_buf br" "br_totalBits (br_goto p br) = br_totalBits br" "br_pos (br_goto p br) = p"
  by (simp_all add: br_goto_def)

lemma readField_fits:
  assumes "br_ok br" "n \<le> 32" "n \<le> length (upcoming br)"
  shows "\<exists>v br1. readField n br = (Inr v, br1) \<and> unat v = bval (take n (upcoming br)) \<and>
    br_ok br1 \<and> upcoming br1 = drop n (upcoming br) \<and> br_pos br1 = br_pos br + n"
proof (cases "n = 0")
  case True
  then show ?thesis using assms by (simp add: readField_def bval_def)
next
  case False
  from assms(1) obtain buf where buf: "br_buf br = Some buf" "br_pos br \<le> br_totalBits br" by (rule br_okD)
  have fits: "br_pos br + n \<le> br_totalBits br"
    using assms(3) buf(2) by (simp add: length_upcoming [OF assms(1)])
  then have "readField n br = (Inr (field_value buf br n), br_goto (br_pos br + n) br)"
    using False assms(2) buf(1) by (simp add: readField_def)
  then show ?thesis
    using field_value_eq [OF assms(1) _ assms(2) fits] False buf(1) goto_ok [OF assms(1) fits] goto_forward [OF fits]
    by simp
qed

lemma readField_short:
  assumes "br_ok br" "n \<le> 32" "length (upcoming br) < n"
  shows "readField n br = (perr TruncatedInput ''read past end'', br)"
proof -
  from assms(1) obtain buf where "br_buf br = Some buf" "br_pos br \<le> br_totalBits br" by (rule br_okD)
  then show ?thesis using assms by (simp add: readField_def length_upcoming)
qed

section \<open>Reading octets\<close>

lemma bval_inject: "length xs = length ys \<Longrightarrow> bval xs = bval ys \<Longrightarrow> xs = ys"
proof (induction xs ys rule: list_induct2)
  case (Cons x xs y ys)
  have "bval xs < 2 ^ length xs" "bval ys < 2 ^ length xs" using bval_less [of xs] bval_less [of ys] Cons.hyps by simp_all
  then show ?case using Cons by (cases x; cases y) (simp_all add: bval_Cons)
qed simp

lemma octet_listI: "length bs = 8 \<Longrightarrow> unat w = bval bs \<Longrightarrow> octet_list w = bs"
  by (rule bval_inject) (simp_all add: bval_octet)

lemma take_octets:
  "take (8 * Suc n) bs = take 8 bs @ take (8 * n) (drop 8 bs)"
  using take_add [of 8 "8 * n" bs] by simp

lemma bits_of_pieces:
  assumes "8 * n \<le> length bs" "\<And>i. i < n \<Longrightarrow> unat (f i) = bval (take 8 (drop (8 * i) bs))"
  shows "bits_of (map f [0..<n]) = take (8 * n) bs"
  using assms
proof (induction n)
  case (Suc n)
  have "octet_list (f n) = take 8 (drop (8 * n) bs)" using Suc.prems by (intro octet_listI) simp_all
  moreover have "take (8 * Suc n) bs = take (8 * n) bs @ take 8 (drop (8 * n) bs)"
    using take_add [of "8 * n" 8 bs] by (simp add: add.commute)
  ultimately show ?case using Suc by simp
qed simp

lemma loaded_octet:
  assumes "b + k \<le> m" "m \<le> length buf" "length buf < 2 ^ 32" "off + (i + 1) * 8 \<le> 8 * k" "k \<le> 4"
  shows "unat (ucast (drop_bit (k * 8 - off - (i + 1) * 8) (of_nat (bval (bits_of (take k (drop b buf)))) :: u32)) :: u8) =
    bval (take 8 (drop (8 * i) (drop (8 * b + off) (bits_of buf))))"
proof -
  let ?x = "bval (bits_of (take k (drop b buf)))" and ?j = "k * 8 - off - (i + 1) * 8"
  have len: "length (bits_of (take k (drop b buf))) = 8 * k" using assms by simp
  then have "?x < 2 ^ (8 * k)" using bval_less [of "bits_of (take k (drop b buf))"] by simp
  also have "(2 :: nat) ^ (8 * k) \<le> 2 ^ 32" using assms(5) by (intro power_increasing) simp_all
  finally have "?x < 2 ^ 32" .
  then have "unat (of_nat ?x :: u32) = ?x" by (simp add: unat_of_nat)
  then have "unat (drop_bit ?j (of_nat ?x :: u32)) = drop_bit ?j (take_bit LENGTH(32) ?x)"
    by (simp only: unsigned_drop_bit_eq)
  also have "take_bit LENGTH(32) ?x = ?x" using \<open>?x < 2 ^ 32\<close> by (simp add: take_bit_nat_eq_self)
  finally have "unat (ucast (drop_bit ?j (of_nat ?x :: u32)) :: u8) = (?x div 2 ^ ?j) mod 2 ^ 8"
    by (simp only: unsigned_ucast_eq take_bit_eq_mod drop_bit_eq_div) simp
  also have "\<dots> = bval (take 8 (drop (off + i * 8) (bits_of (take k (drop b buf)))))"
    using bval_field [of "off + i * 8" 8 "bits_of (take k (drop b buf))"] assms(4) len
    by (simp add: algebra_simps)
  also have "take 8 (drop (off + i * 8) (bits_of (take k (drop b buf)))) =
      take 8 (drop (8 * i) (drop (8 * b + off) (bits_of buf)))"
    using assms(4) by (simp add: bits_of_take [symmetric] bits_of_drop [symmetric] drop_take take_take algebra_simps)
  finally show ?thesis .
qed

lemma skip_ok:
  assumes "br_ok br" "8 * n \<le> length (upcoming br)"
  shows "br_ok (br\<lparr>br_pos := br_pos br + n * 8, br_byteIndex := (br_pos br + n * 8) div 8\<rparr>)"
    and "upcoming (br\<lparr>br_pos := br_pos br + n * 8, br_byteIndex := (br_pos br + n * 8) div 8\<rparr>) = drop (8 * n) (upcoming br)"
  using assms by (auto simp: br_ok_def upcoming_def drop_take algebra_simps)

lemma bulk_octets:
  assumes ok: "br_ok br" and fits: "8 * n \<le> length (upcoming br)" and n: "0 < n"
    and need: "k = fieldSpanBytes (br_pos br mod 8) (n * 8)" "k \<le> 4"
  shows "\<exists>w. loadN (the (br_buf br)) (br_byteIndex br) ((br_totalBits br + 7) div 8) k = (w, k) \<and>
    bits_of (map (\<lambda>i. ucast (drop_bit (k * 8 - br_pos br mod 8 - (i + 1) * 8) w)) [0..<n]) = take (8 * n) (upcoming br)"
proof -
  from ok obtain buf where buf: "br_buf br = Some buf" "br_totalBits br \<le> 8 * length buf" "length buf < 2 ^ 32 - 4"
    and at: "br_byteIndex br = br_pos br div 8" "br_pos br \<le> br_totalBits br"
    by (rule br_okD)
  let ?b = "br_pos br div 8" and ?off = "br_pos br mod 8" and ?m = "(br_totalBits br + 7) div 8"
  let ?w = "of_nat (bval (bits_of (take k (drop ?b buf)))) :: u32"
  have m: "?m \<le> length buf" "length buf < 2 ^ 32" using buf by simp_all
  have total: "br_pos br + n * 8 \<le> br_totalBits br" using fits at(2) by (simp add: length_upcoming [OF ok])
  have fit: "?b + k \<le> ?m" using span_in_buffer [OF _ total] n by (simp add: need(1))
  have span: "?off + n * 8 \<le> 8 * k" using span_bounds(1) [of "n * 8" ?off] n by (simp add: need(1))
  have "unat (ucast (drop_bit (k * 8 - ?off - (i + 1) * 8) ?w) :: u8) = bval (take 8 (drop (8 * i) (upcoming br)))"
    if "i < n" for i
  proof -
    have "?off + (i + 1) * 8 \<le> 8 * k" using span that by (intro order_trans [OF _ span]) simp
    moreover have "take 8 (drop (8 * i) (upcoming br)) = take 8 (drop (8 * i) (drop (br_pos br) (bits_of buf)))"
      using that total by (simp add: upcoming_def buf(1) drop_take take_take min_def)
    ultimately show ?thesis using loaded_octet [OF fit m _ need(2), of ?off i] by simp
  qed
  then have "bits_of (map (\<lambda>i. ucast (drop_bit (k * 8 - ?off - (i + 1) * 8) ?w)) [0..<n]) = take (8 * n) (upcoming br)"
    by (intro bits_of_pieces [OF fits])
  moreover have "loadN buf ?b ?m k = (?w, k)" by (rule loadN_eq [OF fit m])
  ultimately show ?thesis using at(1) buf(1) by auto
qed

lemma readBytes_loop_fits:
  assumes "br_ok br" "8 * left \<le> length (upcoming br)" "br_buf br = Some buf"
  shows "\<exists>got br1. readBytes_loop buf left out br = (Inr (out @ got), br1) \<and> bits_of got = take (8 * left) (upcoming br) \<and>
    br_ok br1 \<and> upcoming br1 = drop (8 * left) (upcoming br) \<and> br_pos br1 = br_pos br + 8 * left"
  using assms
proof (induction left arbitrary: out br rule: less_induct)
  case (less left)
  define n k where "n = min left 3" and "k = fieldSpanBytes (br_pos br mod 8) (n * 8)"
  consider "left = 0" | "left \<noteq> 0" "remainingBytes br \<ge> k \<and> k \<le> 4" | "left \<noteq> 0" "\<not> (remainingBytes br \<ge> k \<and> k \<le> 4)"
    by blast
  then show ?case
  proof cases
    case 1
    then show ?thesis using less.prems by (simp add: readBytes_loop.simps)
  next
    case 2
    define nxt where "nxt = br\<lparr>br_pos := br_pos br + n * 8, br_byteIndex := (br_pos br + n * 8) div 8\<rparr>"
    have n: "n \<le> left" "0 < n" "8 * n \<le> length (upcoming br)" using 2(1) less.prems(2) by (simp_all add: n_def)
    obtain w where w: "loadN buf (br_byteIndex br) ((br_totalBits br + 7) div 8) k = (w, k)"
      "bits_of (map (\<lambda>i. ucast (drop_bit (k * 8 - br_pos br mod 8 - (i + 1) * 8) w)) [0..<n]) = take (8 * n) (upcoming br)"
      using bulk_octets [OF less.prems(1) n(3,2) k_def] 2(2) less.prems(3) by auto
    let ?got = "map (\<lambda>i. ucast (drop_bit (k * 8 - br_pos br mod 8 - (i + 1) * 8) w)) [0..<n] :: bytes"
    have step: "readBytes_loop buf left out br = readBytes_loop buf (left - n) (out @ ?got) nxt"
      using 2 w(1) by (subst readBytes_loop.simps) (simp add: n_def [symmetric] k_def [symmetric] nxt_def Let_def)
    have nxt: "br_ok nxt" "upcoming nxt = drop (8 * n) (upcoming br)" "br_buf nxt = Some buf" "br_pos nxt = br_pos br + n * 8"
      unfolding nxt_def using skip_ok [OF less.prems(1) n(3)] less.prems(3) by simp_all
    have "8 * (left - n) \<le> length (upcoming nxt)"
      using less.prems(2) n(1) by (simp add: nxt(2) diff_mult_distrib2)
    then obtain rest br1 where r: "readBytes_loop buf (left - n) (out @ ?got) nxt = (Inr ((out @ ?got) @ rest), br1)"
      "bits_of rest = take (8 * (left - n)) (upcoming nxt)" "br_ok br1"
      "upcoming br1 = drop (8 * (left - n)) (upcoming nxt)" "br_pos br1 = br_pos nxt + 8 * (left - n)"
      using less.IH [of "left - n" nxt "out @ ?got"] nxt n 2(1) by auto
    have len: "8 * left = 8 * n + 8 * (left - n)" using n(1) by simp
    have "bits_of (?got @ rest) = take (8 * left) (upcoming br)"
      by (simp only: len take_add bits_of_simps w(2) r(2) nxt(2))
    moreover have "upcoming br1 = drop (8 * left) (upcoming br)"
      by (simp only: len r(4) nxt(2) drop_drop add.commute)
    moreover have "br_pos br1 = br_pos br + 8 * left" using r(5) n(1) nxt(4) by simp
    ultimately show ?thesis using step r(1,3) by (intro exI [of _ "?got @ rest"] exI [of _ br1]) (simp del: map_map)
  next
    case 3
    then have le: "8 \<le> length (upcoming br)" using less.prems(2) by simp
    obtain v br1 where v: "readField 8 br = (Inr v, br1)" "unat v = bval (take 8 (upcoming br))" "br_ok br1"
      "upcoming br1 = drop 8 (upcoming br)" "br_pos br1 = br_pos br + 8"
      using readField_fits [OF less.prems(1) _ le] by auto
    have buf: "br_buf br1 = Some buf" using v(1) less.prems(3) by (auto simp: readField_def split: if_splits)
    have step: "readBytes_loop buf left out br = readBytes_loop buf (left - 1) (out @ [ucast v]) br1"
      using 3 v(1) by (subst readBytes_loop.simps) (auto simp: n_def [symmetric] k_def [symmetric] Let_def)
    have fits: "8 * (left - 1) \<le> length (upcoming br1)" using less.prems(2) 3(1) v(4) by (cases left) simp_all
    have "octet_list (ucast v) = take 8 (upcoming br)"
      using bval_less [of "take 8 (upcoming br)"] le v(2)
      by (intro octet_listI) (simp_all add: unsigned_ucast_eq take_bit_nat_eq_self)
    moreover obtain rest br2 where "readBytes_loop buf (left - 1) (out @ [ucast v]) br1 = (Inr ((out @ [ucast v]) @ rest), br2)"
      "bits_of rest = take (8 * (left - 1)) (upcoming br1)" "br_ok br2"
      "upcoming br2 = drop (8 * (left - 1)) (upcoming br1)" "br_pos br2 = br_pos br1 + 8 * (left - 1)"
      using less.IH [of "left - 1" br1 "out @ [ucast v]"] v(3) buf fits 3(1) by auto
    moreover have "8 * left = 8 + 8 * (left - 1)" using 3(1) by simp
    ultimately show ?thesis using step v(4,5) 
      by (intro exI [of _ "ucast v # rest"] exI [of _ br2]) (simp add: take_add add.commute)
  qed
qed

lemma readBytes_fits:
  assumes ok: "br_ok br" and fits: "8 * n \<le> length (upcoming br)"
  shows "\<exists>got br1. readBytes n br = (Inr got, br1) \<and> bits_of got = take (8 * n) (upcoming br) \<and>
    br_ok br1 \<and> upcoming br1 = drop (8 * n) (upcoming br)"
proof (cases "n = 0")
  case True
  then show ?thesis using ok by (simp add: readBytes_def)
next
  case False
  from ok obtain buf where buf: "br_buf br = Some buf" "br_totalBits br \<le> 8 * length buf"
    and at: "br_byteIndex br = br_pos br div 8" "br_bitOffset br = br_pos br mod 8" "br_pos br \<le> br_totalBits br"
    by (rule br_okD)
  have total: "br_pos br + 8 * n \<le> br_totalBits br" using fits at(3) by (simp add: length_upcoming [OF ok])
  then have guard: "\<not> br_pos br div 8 + n > (br_totalBits br + 7) div 8" by linarith
  show ?thesis
  proof (cases "br_bitOffset br = 0")
    case True
    let ?br = "br\<lparr>br_pos := br_pos br + n * 8, br_byteIndex := br_byteIndex br + n\<rparr>"
    have pos: "br_pos br = 8 * br_byteIndex br" using True at(1,2) by presburger
    have "readBytes n br = (Inr (take n (drop (br_byteIndex br) buf)), ?br)"
      using False True guard buf(1) by (simp add: readBytes_def)
    moreover have "bits_of (take n (drop (br_byteIndex br) buf)) = take (8 * n) (upcoming br)"
      using total by (simp add: upcoming_def buf(1) pos bits_of_take [symmetric] bits_of_drop [symmetric])
    moreover have "br_ok ?br" "upcoming ?br = drop (8 * n) (upcoming br)"
      using skip_ok [OF ok fits] at(1) by (simp_all add: add.commute)
    ultimately show ?thesis by blast
  next
    case unaligned: False
    obtain got br1 where "readBytes_loop buf n [] br = (Inr got, br1)" "bits_of got = take (8 * n) (upcoming br)"
      "br_ok br1" "upcoming br1 = drop (8 * n) (upcoming br)"
      using readBytes_loop_fits [OF ok fits buf(1), of "[]"] by auto
    moreover from this(3) have "br1\<lparr>br_bitOffset := br_pos br1 mod 8\<rparr> = br1" by (auto simp: br_ok_def)
    ultimately show ?thesis using False unaligned guard buf(1) by (simp add: readBytes_def)
  qed
qed

lemma avail_fits:
  assumes "br_ok br" "br_pos br mod 8 \<noteq> 0" "fieldSpanBytes (br_pos br mod 8) (n * 8) \<le> remainingBytes br" "0 < n"
  shows "8 * n \<le> length (upcoming br)"
proof -
  define off where "off = br_pos br mod 8"
  have off: "off \<noteq> 0" "off < 8" using assms(2) by (simp_all add: off_def)
  from assms(1) obtain buf where buf: "br_buf br = Some buf" "br_totalBits br \<le> 8 * length buf"
    "length buf < 2 ^ 32 - 4" "br_pos br \<le> br_totalBits br"
    by (rule br_okD)
  have "size_sub (br_totalBits br) (br_pos br) = br_totalBits br - br_pos br" using buf by (intro size_sub_le) simp_all
  then have "remainingBytes br \<le> (br_totalBits br - br_pos br + 7) div 8" by (simp add: remainingBytes_def)
  moreover have "fieldSpanBytes off (n * 8) = n + 1"
    using off assms(4) by (simp add: fieldSpanBytes_def)
  ultimately have "n + 1 \<le> (br_totalBits br - br_pos br + 7) div 8" using assms(3) by (simp add: off_def)
  then have "8 * n + 1 \<le> br_totalBits br - br_pos br" by (simp add: less_eq_div_iff_mult_less_eq)
  then show ?thesis by (simp add: length_upcoming [OF assms(1)])
qed

text \<open>Off the octet boundary, too few bits are always reported.\<close>

lemma readBytes_loop_short:
  assumes "br_buf br = Some buf" "br_ok br" "length (upcoming br) < 8 * left" "br_pos br mod 8 \<noteq> 0"
  shows "\<exists>br1. readBytes_loop buf left out br = (perr TruncatedInput ''read past end'', br1) \<and> br_ok br1"
  using assms
proof (induction left arbitrary: out br rule: less_induct)
  case (less left)
  define n k where "n = min left 3" and "k = fieldSpanBytes (br_pos br mod 8) (n * 8)"
  have left: "left \<noteq> 0" using less.prems(3) by (cases "left = 0") simp_all
  then have n: "0 < n" "n \<le> left" by (simp_all add: n_def)
  consider "remainingBytes br \<ge> k \<and> k \<le> 4" | "\<not> (remainingBytes br \<ge> k \<and> k \<le> 4)" "8 \<le> length (upcoming br)"
    | "\<not> (remainingBytes br \<ge> k \<and> k \<le> 4)" "length (upcoming br) < 8" by linarith
  then show ?case
  proof cases
    case 1
    define nxt where "nxt = br\<lparr>br_pos := br_pos br + n * 8, br_byteIndex := (br_pos br + n * 8) div 8\<rparr>"
    have fits: "8 * n \<le> length (upcoming br)"
      using avail_fits [OF less.prems(2,4) _ n(1)] 1 by (simp add: k_def)
    have nxt: "br_ok nxt" "upcoming nxt = drop (8 * n) (upcoming br)" "br_buf nxt = Some buf" "br_pos nxt = br_pos br + n * 8"
      unfolding nxt_def using skip_ok [OF less.prems(2) fits] less.prems(1) by simp_all
    obtain w where w: "loadN buf (br_byteIndex br) ((br_totalBits br + 7) div 8) k = (w, k)"
      using bulk_octets [OF less.prems(2) fits n(1) k_def] 1 less.prems(1) by auto
    let ?got = "map (\<lambda>i. ucast (drop_bit (k * 8 - br_pos br mod 8 - (i + 1) * 8) w)) [0..<n] :: bytes"
    have step: "readBytes_loop buf left out br = readBytes_loop buf (left - n) (out @ ?got) nxt"
      using 1 left w by (subst readBytes_loop.simps) (simp add: n_def [symmetric] k_def [symmetric] nxt_def Let_def)
    have "length (upcoming nxt) < 8 * (left - n)" using less.prems(3) fits n(2) nxt(2) by (simp add: diff_mult_distrib2)
    then show ?thesis
      using less.IH [of "left - n" nxt "out @ ?got"] nxt n left less.prems(4) by (simp only: step) simp
  next
    case 2
    obtain v br1 where v: "readField 8 br = (Inr v, br1)" "br_ok br1"
      "upcoming br1 = drop 8 (upcoming br)" "br_pos br1 = br_pos br + 8"
      using readField_fits [OF less.prems(2) _ 2(2)] by auto
    have buf: "br_buf br1 = Some buf" using v(1) less.prems(1) by (auto simp: readField_def split: if_splits)
    have step: "readBytes_loop buf left out br = readBytes_loop buf (left - 1) (out @ [ucast v]) br1"
      using 2 left v(1) by (subst readBytes_loop.simps) (auto simp: n_def [symmetric] k_def [symmetric] Let_def)
    have "length (upcoming br1) < 8 * (left - 1)" using less.prems(3) 2(2) left v(3) by (cases left) simp_all
    then show ?thesis
      using less.IH [of "left - 1" br1 "out @ [ucast v]"] v(2,4) buf left less.prems(4) by (simp only: step) simp
  next
    case 3
    then have "readBytes_loop buf left out br = (perr TruncatedInput ''read past end'', br)"
      using left readField_short [OF less.prems(2) _ 3(2)]
      by (subst readBytes_loop.simps) (auto simp: n_def [symmetric] k_def [symmetric] Let_def perr_def)
    then show ?thesis using less.prems(2) by blast
  qed
qed

lemma readBytes_short:
  assumes ok: "br_ok br" and short: "length (upcoming br) < 8 * n" and whole: "8 dvd br_totalBits br"
  shows "\<exists>br1. readBytes n br = (perr TruncatedInput ''read past end'', br1) \<and> br_ok br1"
proof -
  from ok obtain buf where buf: "br_buf br = Some buf" and at: "br_bitOffset br = br_pos br mod 8" "br_pos br \<le> br_totalBits br"
    by (rule br_okD)
  have n: "n \<noteq> 0" using short by (cases "n = 0") simp_all
  have "\<not> br_pos br div 8 + n \<le> (br_totalBits br + 7) div 8" if aligned: "br_pos br mod 8 = 0"
  proof -
    obtain t where "br_totalBits br = 8 * t" using whole by (rule dvdE)
    moreover obtain b where "br_pos br = 8 * b" by (rule dvdE [OF mod_eq_0_iff_dvd [THEN iffD1, OF aligned]])
    ultimately show ?thesis using short at(2) by (simp add: length_upcoming [OF ok])
  qed
  moreover have "\<exists>br1. readBytes_loop buf n [] br = (perr TruncatedInput ''read past end'', br1) \<and> br_ok br1"
    if "br_pos br mod 8 \<noteq> 0"
    by (rule readBytes_loop_short [OF buf ok short that])
  ultimately show ?thesis using n buf at(1) ok by (auto simp: readBytes_def perr_def)
qed

section \<open>The reader as a sequence of operations\<close>

datatype br_op = OpField nat | OpPeek nat | OpBytes nat | OpAlign

definition br_step :: "br_op \<Rightarrow> BitReader \<Rightarrow> BitReader" where
  "br_step opn br = (case opn of
      OpField n \<Rightarrow> snd (readField n br)
    | OpPeek n \<Rightarrow> br
    | OpBytes n \<Rightarrow> snd (readBytes n br)
    | OpAlign \<Rightarrow> br_alignToOctet br)"

text \<open>A reader stays inside its buffer and what is left is what is left of its bits.\<close>

definition within :: "BitReader \<Rightarrow> BitReader \<Rightarrow> bool" where
  "within br br1 \<longleftrightarrow> br_ok br1 \<and> br_buf br1 = br_buf br \<and> br_totalBits br1 = br_totalBits br \<and> br_pos br \<le> br_pos br1 \<and>
     upcoming br1 = drop (br_pos br1 - br_pos br) (upcoming br)"

lemma withinI:
  assumes "br_ok br1" "br_buf br1 = br_buf br" "br_totalBits br1 = br_totalBits br" "br_pos br \<le> br_pos br1"
  shows "within br br1"
  using assms by (auto simp: within_def br_ok_def upcoming_def drop_take)

lemma within_trans: "within br br1 \<Longrightarrow> within br1 br2 \<Longrightarrow> within br br2"
  by (auto simp: within_def)

definition forward :: "BitReader \<Rightarrow> BitReader \<Rightarrow> bool" where
  "forward br br1 \<longleftrightarrow> br_buf br1 = br_buf br \<and> br_totalBits br1 = br_totalBits br \<and> br_pos br \<le> br_pos br1"

lemma readField_forward: "forward br (snd (readField n br))"
  by (simp add: readField_def forward_def split: option.split)

lemma forward_trans: "forward br br1 \<Longrightarrow> forward br1 br2 \<Longrightarrow> forward br br2"
  by (auto simp: forward_def)

lemma readBytes_loop_forward: "forward br (snd (readBytes_loop buf left out br))"
proof (induction left arbitrary: out br rule: less_induct)
  case (less left)
  define n k where "n = min left 3" and "k = fieldSpanBytes (br_pos br mod 8) (n * 8)"
  define nxt where "nxt = br\<lparr>br_pos := br_pos br + n * 8, br_byteIndex := (br_pos br + n * 8) div 8\<rparr>"
  have nxt: "forward br nxt" by (simp add: forward_def nxt_def)
  obtain w a where w: "loadN buf (br_byteIndex br) ((br_totalBits br + 7) div 8) k = (w, a)" by (meson surj_pair)
  let ?got = "map (\<lambda>i. ucast (drop_bit (a * 8 - br_pos br mod 8 - (i + 1) * 8) w)) [0..<n] :: bytes"
  obtain r br1 where r: "readField 8 br = (r, br1)" by (meson surj_pair)
  consider "left = 0" | "left \<noteq> 0" "remainingBytes br \<ge> k \<and> k \<le> 4" | "left \<noteq> 0" "\<not> (remainingBytes br \<ge> k \<and> k \<le> 4)"
    by blast
  then show ?case
  proof cases
    case 1
    then show ?thesis by (simp add: readBytes_loop.simps forward_def)
  next
    case 2
    then have "readBytes_loop buf left out br = readBytes_loop buf (left - n) (out @ ?got) nxt"
      using w by (subst readBytes_loop.simps) (simp add: n_def [symmetric] k_def [symmetric] nxt_def Let_def)
    then show ?thesis using forward_trans [OF nxt] less.IH [of "left - n"] 2(1) by (simp add: n_def)
  next
    case 3
    then have "readBytes_loop buf left out br = (case r of Inl e \<Rightarrow> (Inl e, br1)
        | Inr v \<Rightarrow> readBytes_loop buf (left - 1) (out @ [ucast v]) br1)"
      using r by (subst readBytes_loop.simps) (auto simp: n_def [symmetric] k_def [symmetric] Let_def split: sum.split)
    moreover have "forward br br1" using readField_forward [of br 8] r by simp
    ultimately show ?thesis using forward_trans less.IH [of "left - 1"] 3(1) by (cases r) auto
  qed
qed

lemma readBytes_forward: "forward br (snd (readBytes n br))"
proof (cases "br_buf br")
  case (Some buf)
  obtain r br1 where r: "readBytes_loop buf n [] br = (r, br1)" by (meson surj_pair)
  then have "forward br br1" using readBytes_loop_forward [of br buf n "[]"] by simp
  then show ?thesis using Some r by (cases r) (simp_all add: readBytes_def forward_def)
qed (simp add: readBytes_def forward_def)

lemma field_ok: "br_ok br \<Longrightarrow> br_ok (snd (readField n br))"
proof (cases "n \<le> 32")
  case True
  assume "br_ok br"
  then show ?thesis
    using readField_fits [of br n] readField_short [of br n] True
    by (cases "n \<le> length (upcoming br)") (fastforce, simp)
next
  case False
  then show "br_ok br \<Longrightarrow> ?thesis" by (auto simp: readField_def split: option.split)
qed

lemma bytes_ok: "br_ok br \<Longrightarrow> 8 dvd br_totalBits br \<Longrightarrow> br_ok (snd (readBytes n br))"
  using readBytes_fits [of br n] readBytes_short [of br n]
  by (cases "8 * n \<le> length (upcoming br)") (fastforce, fastforce)

lemma align_within:
  assumes "br_ok br"
  shows "within br (br_alignToOctet br)"
proof -
  define p where "p = (if br_pos br mod 8 = 0 then br_pos br
    else if br_pos br + (8 - br_pos br mod 8) > br_totalBits br then br_totalBits br else br_pos br + (8 - br_pos br mod 8))"
  have "br_alignToOctet br = br_goto p br" by (simp add: br_alignToOctet_def Let_def p_def)
  moreover have "br_pos br \<le> p" "p \<le> br_totalBits br" using assms by (auto simp: p_def br_ok_def)
  ultimately show ?thesis using goto_ok [OF assms] by (metis goto_fields withinI)
qed

lemma step_within:
  assumes "br_ok br" "8 dvd br_totalBits br"
  shows "within br (br_step opn br)"
proof (cases opn)
  case (OpField n)
  then show ?thesis
    using readField_forward [of br n] field_ok [OF assms(1), of n] by (simp add: br_step_def forward_def withinI)
next
  case (OpPeek n)
  then show ?thesis using assms(1) by (simp add: br_step_def withinI)
next
  case (OpBytes n)
  then show ?thesis
    using readBytes_forward [of br n] bytes_ok [OF assms, of n] by (simp add: br_step_def forward_def withinI)
next
  case OpAlign
  then show ?thesis using align_within [OF assms(1)] by (simp add: br_step_def)
qed

lemma peekField_eq:
  assumes ok: "br_ok br" and n: "n \<le> 32"
  shows "unat (peekField n br) = bval (take n (upcoming br)) * 2 ^ (n - length (upcoming br))"
proof (cases "n = 0 \<or> upcoming br = []")
  case True
  then have "n = 0 \<or> br_totalBits br \<le> br_pos br" using length_upcoming [OF ok] by auto
  then show ?thesis using True ok by (auto simp: peekField_def bval_def size_sub_def br_ok_def Let_def)
next
  case False
  from ok obtain buf where buf: "br_buf br = Some buf" "br_totalBits br \<le> 8 * length buf"
    "length buf < 2 ^ 32 - 4" "br_pos br \<le> br_totalBits br"
    by (rule br_okD)
  define a where "a = min n (length (upcoming br))"
  have a: "0 < a" "a \<le> 32" "br_pos br + a \<le> br_totalBits br" "a \<le> n"
    using False n buf(4) length_upcoming [OF ok] length_greater_0_conv [of "upcoming br"] by (auto simp: a_def simp del: length_greater_0_conv)
  let ?limit = "if br_pos br + n > br_totalBits br then br_totalBits br else br_pos br + n"
  have "?limit = br_pos br + a" using buf(4) by (auto simp: a_def length_upcoming [OF ok] min_def)
  moreover have "size_sub (br_pos br + a) (br_pos br) = a" using a(3) buf by (subst size_sub_le) simp_all
  moreover have "a mod 2 ^ 32 = a" using a(2) by simp
  ultimately have "peekField n br = push_bit (n - a) (field_value buf br a)"
    using False n a(1) buf(1) by (simp add: peekField_def Let_def)
  moreover have v: "unat (field_value buf br a) = bval (take n (upcoming br))"
    using field_value_eq [OF ok a(1-3)] buf(1) by (simp add: a_def min_def)
  moreover have "bval (take n (upcoming br)) * 2 ^ (n - a) < 2 ^ 32"
  proof -
    have "bval (take n (upcoming br)) < 2 ^ a" using bval_less [of "take n (upcoming br)"] by (simp add: a_def min.commute)
    then have "bval (take n (upcoming br)) * 2 ^ (n - a) < 2 ^ a * 2 ^ (n - a)" by simp
    also have "\<dots> = 2 ^ n" using a(4) by (simp add: power_add [symmetric])
    also have "\<dots> \<le> 2 ^ 32" using n by (intro power_increasing) simp_all
    finally show ?thesis .
  qed
  ultimately have "unat (peekField n br) = bval (take n (upcoming br)) * 2 ^ (n - a)"
    by (simp only: unsigned_push_bit_eq v) (simp add: push_bit_eq_mult take_bit_nat_eq_self)
  moreover have "n - a = n - length (upcoming br)" by (simp add: a_def)
  ultimately show ?thesis by simp
qed

section \<open>Properties\<close>

text \<open>
  C38. Reading a field, on every branch: a width over 32 is refused, a field that does not fit in the bits to come is
  refused and the reader keeps its place, and otherwise the value is the next \<open>n\<close> bits read most significant bit first
  - whichever of the four windowed loads the code chooses - and exactly those bits are consumed. Peeking gives the same
  value, shifted up by the bits that are missing.
\<close>

theorem readField_spec:
  assumes "br_ok br"
  shows "readField n br =
      (if n > 32 then (perr InvalidValue ''field too large'', br)
       else if n > length (upcoming br) then (perr TruncatedInput ''read past end'', br)
       else (Inr (of_nat (bval (take n (upcoming br)))), br_goto (br_pos br + n) br)) \<and>
     (n \<le> length (upcoming br) \<longrightarrow> upcoming (br_goto (br_pos br + n) br) = drop n (upcoming br)) \<and>
     (n \<le> 32 \<longrightarrow> unat (peekField n br) = bval (take n (upcoming br)) * 2 ^ (n - length (upcoming br)))"
proof (intro conjI impI)
  from assms obtain buf where buf: "br_buf br = Some buf" "br_pos br \<le> br_totalBits br" by (rule br_okD)
  have zero: "br_goto (br_pos br) br = br" using assms by (auto simp: br_ok_def br_goto_def)
  show "readField n br = (if n > 32 then (perr InvalidValue ''field too large'', br)
       else if n > length (upcoming br) then (perr TruncatedInput ''read past end'', br)
       else (Inr (of_nat (bval (take n (upcoming br)))), br_goto (br_pos br + n) br))"
  proof (cases "n = 0 \<or> n > 32 \<or> n > length (upcoming br)")
    case True
    then show ?thesis using readField_short [OF assms] buf zero by (auto simp: readField_def bval_def)
  next
    case False
    then have fits: "br_pos br + n \<le> br_totalBits br" using buf(2) length_upcoming [OF assms] by linarith
    then have "readField n br = (Inr (field_value buf br n), br_goto (br_pos br + n) br)"
      using False buf(1) by (simp add: readField_def)
    moreover have "field_value buf br n = of_nat (bval (take n (upcoming br)))"
      using field_value_eq [OF assms _ _ fits] False buf(1) by (auto simp: linorder_not_less dest: arg_cong [where f = "of_nat :: nat \<Rightarrow> u32"])
    ultimately show ?thesis using False by simp
  qed
next
  assume "n \<le> length (upcoming br)"
  then show "upcoming (br_goto (br_pos br + n) br) = drop n (upcoming br)"
    using assms by (intro goto_forward) (auto simp: length_upcoming br_ok_def)
next
  assume "n \<le> 32"
  then show "unat (peekField n br) = bval (take n (upcoming br)) * 2 ^ (n - length (upcoming br))"
    by (rule peekField_eq [OF assms])
qed

text \<open>The octets 0xA5 0xC3, read as 3, 5, 4 and 4 bits.\<close>

definition example_reader :: BitReader where
  "example_reader = mkBitReader (Some [0xA5, 0xC3, 0x7E, 0x81, 0x5A, 0x0F]) 48"

lemma example_reader_ok: "br_ok example_reader" "8 dvd br_totalBits example_reader"
  by (simp_all add: example_reader_def mkBitReader_def br_ok_def)

theorem readField_spec_witness:
  "br_ok example_reader \<and> readField 3 example_reader = (Inr 5, br_goto 3 example_reader)"
proof -
  have "octet_list 0xA5 = [True, False, True, False, False, True, False, True]" by (simp add: octet_list_def upt_rec)
  then have "take 3 (upcoming example_reader) = [True, False, True]"
    by (simp add: example_reader_def mkBitReader_def upcoming_def)
  moreover have "3 \<le> length (upcoming example_reader)"
    by (simp add: example_reader_def mkBitReader_def upcoming_def)
  ultimately show ?thesis
    using readField_spec [OF example_reader_ok(1), of 3] example_reader_ok
    by (simp add: bval_def) (simp add: example_reader_def mkBitReader_def)
qed

text \<open>
  The bound needs whole octets: on an octet boundary with fewer than eight bits left, reading one octet succeeds,
  reads the padding of the last octet, moves the position past the end and makes the count of remaining bits wrap to a
  number near \<open>2\<^sup>6\<^sup>4\<close>.
\<close>

theorem readBytes_past_end:
  assumes "br_ok br" "br_pos br mod 8 = 0" "br_pos br < br_totalBits br" "br_totalBits br < br_pos br + 8"
  shows "\<exists>b br1. readBytes 1 br = (Inr [b], br1) \<and> br_pos br1 > br_totalBits br1 \<and>
    remainingBits br1 = 2 ^ 64 - (br_pos br + 8 - br_totalBits br) \<and> \<not> hasMore br1"
proof -
  from assms(1) obtain buf where buf: "br_buf br = Some buf" "br_totalBits br \<le> 8 * length buf" "length buf < 2 ^ 32 - 4"
    and at: "br_byteIndex br = br_pos br div 8" "br_bitOffset br = br_pos br mod 8"
    by (rule br_okD)
  let ?br = "br\<lparr>br_pos := br_pos br + 8, br_byteIndex := br_byteIndex br + 1\<rparr>"
  have i: "br_byteIndex br < length buf" using assms(3) buf(2) at(1) by linarith
  then have "take 1 (drop (br_byteIndex br) buf) = [buf ! br_byteIndex br]" by (simp add: take_Suc_conv_app_nth)
  moreover have "\<not> br_pos br div 8 + 1 > (br_totalBits br + 7) div 8" using assms(3) by linarith
  ultimately have "readBytes 1 br = (Inr [buf ! br_byteIndex br], ?br)" using buf(1) at(2) assms(2) by (simp add: readBytes_def)
  moreover have "remainingBits ?br = 2 ^ 64 - (br_pos br + 8 - br_totalBits br)"
    using assms(3,4) buf(2,3) by (simp add: remainingBits_def size_sub_def)
  ultimately show ?thesis using assms(3,4) by (simp add: hasMore_def)
qed

theorem readBytes_past_end_witness:
  "\<exists>b br1. readBytes 1 (mkBitReader (Some [0xA5]) 5) = (Inr [b], br1) \<and> br_pos br1 > br_totalBits br1 \<and>
    remainingBits br1 = 2 ^ 64 - 3 \<and> \<not> hasMore br1"
  using readBytes_past_end [of "mkBitReader (Some [0xA5]) 5"] by (simp add: mkBitReader_def br_ok_def)

end
