(* ===== verification/Byte_Stream.thy ===== *)
theory Byte_Stream
  imports Ring_Buffer Bit_Reader L3_Header
begin

text \<open>
  Frames out of a stream of octets: the sources of \<^verbatim>\<open>bitstream/byte_source.cpp\<close>, the framer of \<^verbatim>\<open>bitstream/framer.cpp\<close>, which
  reads from a source into a buffer of its own, and the framer of \<^verbatim>\<open>bitstream/inline_framer.h\<close>, which works on the whole
  data. A source is a pair of functions, reading and the test for the end of the stream; the locale \<open>byte_source\<close> is what
  the framer relies on. The time stamps of the frames are left out.
\<close>

unbundle bit_operations_syntax

section \<open>Sources\<close>

type_synonym 's reader = "nat \<Rightarrow> 's \<Rightarrow> bytes \<times> 's"

record SpanByteSource =
  sp_data :: bytes
  sp_pos :: nat

definition mkSpanByteSource :: "bytes \<Rightarrow> SpanByteSource" where
  "mkSpanByteSource data = \<lparr>sp_data = data, sp_pos = 0\<rparr>"

definition sp_read :: "SpanByteSource reader" where
  "sp_read maxSize s =
     (if sp_pos s \<ge> length (sp_data s) then ([], s)
      else let avail = length (sp_data s) - sp_pos s; n = (if maxSize < avail then maxSize else avail)
      in (take n (drop (sp_pos s) (sp_data s)), s\<lparr>sp_pos := sp_pos s + n\<rparr>))"

definition sp_atEof :: "SpanByteSource \<Rightarrow> bool" where
  "sp_atEof s \<longleftrightarrow> sp_pos s \<ge> length (sp_data s)"

definition sp_remaining :: "SpanByteSource \<Rightarrow> bytes" where
  "sp_remaining s = drop (sp_pos s) (sp_data s)"

text \<open>A ring buffer never reports the end of the stream (the default of \<^verbatim>\<open>ByteSource\<close>).\<close>

definition rb_atEof :: "RingBuffer \<Rightarrow> bool" where
  "rb_atEof rb \<longleftrightarrow> False"

text \<open>What a framer relies on: reading takes from the front of what the source still has, and takes something if it can.\<close>

locale byte_source =
  fixes rd :: "'s reader" and eof :: "'s \<Rightarrow> bool" and pending :: "'s \<Rightarrow> bytes" and src_ok :: "'s \<Rightarrow> bool"
  assumes read_front: "src_ok s \<Longrightarrow> pending s = fst (rd n s) @ pending (snd (rd n s))"
    and read_ok: "src_ok s \<Longrightarrow> src_ok (snd (rd n s))"
    and read_bound: "src_ok s \<Longrightarrow> length (fst (rd n s)) \<le> n"
    and read_progress: "src_ok s \<Longrightarrow> 0 < n \<Longrightarrow> fst (rd n s) = [] \<Longrightarrow> pending s = []"

locale finite_source = byte_source +
  assumes eof_iff: "src_ok s \<Longrightarrow> eof s \<longleftrightarrow> pending s = []"

interpretation span: finite_source sp_read sp_atEof sp_remaining "\<lambda>_. True"
proof (unfold_locales, goal_cases)
  case (1 s n)
  then show ?case by (auto simp: sp_read_def sp_remaining_def Let_def) (metis add.commute append_take_drop_id drop_drop)
next
  case (4 s n)
  then show ?case by (auto simp: sp_read_def sp_remaining_def Let_def split: if_splits)
next
  case (5 s)
  then show ?case by (auto simp: sp_atEof_def sp_remaining_def)
qed (auto simp: sp_read_def sp_remaining_def Let_def)

interpretation ring: byte_source rb_read rb_atEof rb_contents rb_inv
proof (unfold_locales, goal_cases)
  case (4 rb n)
  then show ?case by (simp add: rb_read_contents(1))
qed (simp_all add: rb_read_contents)

section \<open>Frame lengths\<close>

definition kFixedFrameEntries :: "(nat \<times> nat \<times> nat) list" where
  "kFixedFrameEntries =
     [(0x06, 0x12, 3), (0x06, 0x13, 2), (0x06, 0x29, 3), (0x06, 0x2F, 3), (0x06, 0x35, 3),
      (0x05, 0x21, 2), (0x05, 0x22, 3), (0x05, 0x23, 2), (0x05, 0x29, 2), (0x05, 0x31, 3),
      (0x03, 0x3D, 6), (0x03, 0x3E, 3),
      (0x01, 0x04, 2), (0x01, 0x09, 2),
      (0x00, 0x03, 2),
      (0xFF, 0, 0)]"

definition fixedFrameLength :: "nat \<Rightarrow> nat \<Rightarrow> nat" where
  "fixedFrameLength p mti =
     (case List.find (\<lambda>(a, b, _). a = p \<and> b = mti) kFixedFrameEntries of Some (_, _, n) \<Rightarrow> n | None \<Rightarrow> 0)"

text \<open>The message type that selects the length, from the first two octets of a frame.\<close>

definition frame_mti :: "u8 \<Rightarrow> u8 \<Rightarrow> nat" where
  "frame_mti b0 b1 =
     (let p = b0 AND 0x0F
      in if p = 0x05 \<or> p = 0x03 \<or> p = 0x0B \<or> p = 0x01 \<or> p = 0x00 then unat (b1 AND 0x3F)
      else if p = 0x06 \<and> b0 AND 0x10 \<noteq> 0 then 0x100 OR unat (b1 AND 0x1F)
      else unat b1)"

text \<open>A boundary candidate has one of the defined protocol discriminators.\<close>

definition plausible :: "u8 \<Rightarrow> bool" where
  "plausible b \<longleftrightarrow> b AND 0x0F \<in> {0x00, 0x01, 0x03, 0x05, 0x06, 0x08, 0x09, 0x0A, 0x0B, 0x0C, 0x0D, 0x0E, 0x0F}"

section \<open>The framer with a buffer\<close>

record FrameConfig =
  fc_useL2Length :: bool
  fc_maxMessageLength :: nat
  fc_minHeaderLength :: nat

definition fc_default :: FrameConfig where
  "fc_default = \<lparr>fc_useL2Length = True, fc_maxMessageLength = 4096, fc_minHeaderLength = 2\<rparr>"

record ExtractedFrame =
  ef_data :: bytes
  ef_l2Length :: nat

record 's L3Framer =
  fr_source :: 's
  fr_buf :: bytes
  fr_pos :: nat
  fr_end :: nat
  fr_config :: FrameConfig
  fr_scanPos :: nat

definition mkL3Framer :: "'s \<Rightarrow> FrameConfig \<Rightarrow> 's L3Framer" where
  "mkL3Framer s cfg = \<lparr>fr_source = s, fr_buf = replicate 4096 0, fr_pos = 0, fr_end = 0, fr_config = cfg, fr_scanPos = 0\<rparr>"

definition fr_compact :: "'s L3Framer \<Rightarrow> 's L3Framer" where
  "fr_compact fr =
     (if fr_pos fr > 1024
      then fr\<lparr>fr_buf := (if fr_end fr > fr_pos fr then memcpy_at 0 (take (fr_end fr - fr_pos fr) (drop (fr_pos fr) (fr_buf fr))) (fr_buf fr)
                         else fr_buf fr),
             fr_end := fr_end fr - fr_pos fr,
             fr_scanPos := (if fr_scanPos fr > 0 then size_sub (fr_scanPos fr) (fr_pos fr) else fr_scanPos fr),
             fr_pos := 0\<rparr>
      else fr)"

definition fr_reserve :: "'s L3Framer \<Rightarrow> 's L3Framer" where
  "fr_reserve fr =
     (if length (fr_buf fr) \<le> fr_end fr
      then let target = fr_end fr + 4096;
               target' = (if length (fr_buf fr) < 2 ^ 20 then max target (length (fr_buf fr) * 2) else target)
           in fr\<lparr>fr_buf := fr_buf fr @ replicate (target' - length (fr_buf fr)) 0\<rparr>
      else fr)"

definition fillBuffer :: "'s reader \<Rightarrow> 's L3Framer \<Rightarrow> bool \<times> 's L3Framer" where
  "fillBuffer rd fr =
     (let fr1 = fr_reserve (fr_compact fr);
          (bs, s1) = rd (length (fr_buf fr1) - fr_end fr1) (fr_source fr1)
      in (bs \<noteq> [], fr1\<lparr>fr_source := s1, fr_buf := memcpy_at (fr_end fr1) bs (fr_buf fr1), fr_end := fr_end fr1 + length bs\<rparr>))"

definition extractL2 :: "bool \<Rightarrow> 's L3Framer \<Rightarrow> ExtractedFrame Expected \<times> 's L3Framer" where
  "extractL2 atEof fr =
     (let avail = fr_end fr - fr_pos fr
      in if avail < 1 then (perr TruncatedInput ''need L2 length octet'', fr)
      else let l2len = unat (fr_buf fr ! fr_pos fr)
      in if l2len = 0 \<or> l2len > fc_maxMessageLength (fr_config fr)
         then (perr InvalidValue ''L2 length out of range'', fr\<lparr>fr_pos := fr_pos fr + 1\<rparr>)
      else if avail < l2len + 1
         then (perr (if atEof then SourceExhausted else TruncatedInput) ''incomplete frame (L2 length)'', fr)
      else (Inr \<lparr>ef_data = take l2len (drop (fr_pos fr + 1) (fr_buf fr)), ef_l2Length = l2len\<rparr>,
            fr\<lparr>fr_pos := fr_pos fr + (l2len + 1), fr_scanPos := 0\<rparr>))"

text \<open>The end of header-based extraction, once a length is chosen.\<close>

definition takeHeaderFrame :: "nat \<Rightarrow> 's L3Framer \<Rightarrow> ExtractedFrame Expected \<times> 's L3Framer" where
  "takeHeaderFrame frameLen fr =
     (if fr_end fr - fr_pos fr < frameLen then (perr TruncatedInput ''incomplete frame (header-based)'', fr)
      else let frame = take frameLen (drop (fr_pos fr) (fr_buf fr))
      in if (case parseL3Header frame of Inl _ \<Rightarrow> True | Inr h \<Rightarrow> \<not> header_isValid h)
         then (perr InvalidPD ''invalid L3 header in frame'', fr\<lparr>fr_pos := fr_pos fr + 1\<rparr>)
         else (Inr \<lparr>ef_data = frame, ef_l2Length = 0\<rparr>, fr\<lparr>fr_pos := fr_pos fr + frameLen, fr_scanPos := 0\<rparr>))"

definition extractHeader :: "bool \<Rightarrow> 's L3Framer \<Rightarrow> ExtractedFrame Expected \<times> 's L3Framer" where
  "extractHeader atEof fr =
     (let b0 = fr_buf fr ! fr_pos fr; b1 = fr_buf fr ! (fr_pos fr + 1); maxLen = fc_maxMessageLength (fr_config fr)
      in if atEof
         then let frameLen = fr_end fr - fr_pos fr
              in if frameLen > maxLen then (perr SourceExhausted ''trailing data exceeds maxMessageLength'', fr)
                 else takeHeaderFrame frameLen fr
      else let fixedLen = fixedFrameLength (unat (b0 AND 0x0F)) (frame_mti b0 b1)
      in if fixedLen \<noteq> 0 then takeHeaderFrame fixedLen fr
      else let scanFrom = (if fr_scanPos fr < fr_pos fr + 2 then fr_pos fr + 2 else fr_scanPos fr);
               limit = fr_pos fr + 2 + maxLen
      in case List.find (\<lambda>i. plausible (fr_buf fr ! i)) [scanFrom..<min (fr_end fr - 1) limit] of
           None \<Rightarrow> (perr TruncatedInput ''variable-length frame, need more data'',
                    fr\<lparr>fr_scanPos := (if fr_end fr > limit then limit else fr_end fr)\<rparr>)
         | Some i \<Rightarrow>
             if i - fr_pos fr > maxLen
             then (perr InvalidValue ''frame exceeds maxMessageLength'', fr\<lparr>fr_pos := fr_pos fr + 1\<rparr>)
             else takeHeaderFrame (i - fr_pos fr) fr)"

definition tryExtract :: "bool \<Rightarrow> 's L3Framer \<Rightarrow> ExtractedFrame Expected \<times> 's L3Framer" where
  "tryExtract atEof fr =
     (if fr_end fr - fr_pos fr < fc_minHeaderLength (fr_config fr)
      then (perr (if atEof then SourceExhausted else TruncatedInput) ''insufficient data for L3 header'', fr)
      else if fc_useL2Length (fr_config fr) then extractL2 atEof fr else extractHeader atEof fr)"

text \<open>The loop of \<^verbatim>\<open>nextFrame\<close> ends only if the source does; not returning is the value \<open>None\<close>.\<close>

partial_function (option) nextFrame ::
  "'s reader \<Rightarrow> ('s \<Rightarrow> bool) \<Rightarrow> 's L3Framer \<Rightarrow> (ExtractedFrame Expected \<times> 's L3Framer) option" where
  "nextFrame rd eof fr =
     (case tryExtract False fr of
        (Inr f, fr1) \<Rightarrow> Some (Inr f, fr1)
      | (Inl e, fr1) \<Rightarrow>
          if code e = InvalidPD then nextFrame rd eof fr1
          else if code e = InvalidValue then nextFrame rd eof fr1
          else (case fillBuffer rd fr1 of (gotData, fr2) \<Rightarrow>
            if gotData then nextFrame rd eof fr2
            else if eof (fr_source fr2)
            then (case tryExtract True fr2 of
                    (Inr f, fr3) \<Rightarrow> Some (Inr f, fr3)
                  | (Inl _, fr3) \<Rightarrow> Some (perr SourceExhausted ''source exhausted'', fr3))
            else Some (perr TruncatedInput ''no data available yet'', fr2)))"

definition fr_skip :: "nat \<Rightarrow> 's L3Framer \<Rightarrow> 's L3Framer" where
  "fr_skip nbytes fr =
     (let n = (if fr_pos fr + nbytes > fr_end fr then fr_end fr - fr_pos fr else nbytes)
      in fr\<lparr>fr_pos := fr_pos fr + n, fr_scanPos := 0\<rparr>)"

definition buffered :: "'s L3Framer \<Rightarrow> nat" where
  "buffered fr = fr_end fr - fr_pos fr"

section \<open>The framer without a buffer\<close>

record InlineFramer =
  il_data :: bytes
  il_pos :: nat
  il_useL2Length :: bool
  il_maxFrameLen :: nat
  il_resyncSkips :: nat

definition mkInlineFramer :: "bytes \<Rightarrow> bool \<Rightarrow> InlineFramer" where
  "mkInlineFramer data useL2 = \<lparr>il_data = data, il_pos = 0, il_useL2Length = useL2, il_maxFrameLen = 4096, il_resyncSkips = 0\<rparr>"

definition il_remaining :: "InlineFramer \<Rightarrow> nat" where
  "il_remaining fr = length (il_data fr) - il_pos fr"

definition il_reset :: "InlineFramer \<Rightarrow> InlineFramer" where
  "il_reset fr = fr\<lparr>il_pos := 0, il_resyncSkips := 0\<rparr>"

definition il_setMaxFrameLength :: "nat \<Rightarrow> InlineFramer \<Rightarrow> InlineFramer" where
  "il_setMaxFrameLength len fr = fr\<lparr>il_maxFrameLen := len\<rparr>"

text \<open>The loop over corrupt length octets, and the length it stops at.\<close>

function il_resync :: "InlineFramer \<Rightarrow> nat option \<times> InlineFramer" where
  "il_resync fr =
     (if il_pos fr + 1 > length (il_data fr) then (None, fr)
      else let frameLen = unat (il_data fr ! il_pos fr)
      in if frameLen = 0 \<or> frameLen > il_maxFrameLen fr
         then il_resync (fr\<lparr>il_pos := il_pos fr + 1, il_resyncSkips := il_resyncSkips fr + 1\<rparr>)
         else (Some frameLen, fr))"
  by pat_completeness auto

termination il_resync
  by (relation "measure (\<lambda>fr. length (il_data fr) - il_pos fr)") auto

declare il_resync.simps [simp del]

definition il_headerLength :: "InlineFramer \<Rightarrow> nat option" where
  "il_headerLength fr =
     (let size = length (il_data fr); b0 = il_data fr ! il_pos fr; b1 = il_data fr ! (il_pos fr + 1);
          fixedLen = fixedFrameLength (unat (b0 AND 0x0F)) (frame_mti b0 b1)
      in if fixedLen \<noteq> 0 then (if il_pos fr + fixedLen > size then None else Some fixedLen)
      else let searchEnd = (if il_pos fr + 2 + il_maxFrameLen fr > size then size else il_pos fr + 2 + il_maxFrameLen fr)
      in case List.find (\<lambda>i. plausible (il_data fr ! i)) [il_pos fr + 2..<searchEnd - 1] of
           None \<Rightarrow> (let rest = size - il_pos fr in if rest < 2 \<or> rest > il_maxFrameLen fr then None else Some rest)
         | Some i \<Rightarrow> (if i - il_pos fr > il_maxFrameLen fr then None else Some (i - il_pos fr)))"

definition il_nextFrame :: "InlineFramer \<Rightarrow> bytes option \<times> InlineFramer" where
  "il_nextFrame fr =
     (if il_pos fr \<ge> length (il_data fr) then (None, fr)
      else if il_useL2Length fr
      then (case il_resync fr of
              (None, fr1) \<Rightarrow> (None, fr1)
            | (Some frameLen, fr1) \<Rightarrow>
                if il_pos fr1 + 1 + frameLen > length (il_data fr1) then (None, fr1)
                else (Some (take frameLen (drop (il_pos fr1 + 1) (il_data fr1))), fr1\<lparr>il_pos := il_pos fr1 + 1 + frameLen\<rparr>))
      else if il_pos fr + 2 > length (il_data fr) then (None, fr)
      else (case il_headerLength fr of
              None \<Rightarrow> (None, fr)
            | Some frameLen \<Rightarrow> (Some (take frameLen (drop (il_pos fr) (il_data fr))), fr\<lparr>il_pos := il_pos fr + frameLen\<rparr>)))"

section \<open>Length-prefixed framing\<close>

text \<open>
  The specification of the mode with length octets: an octet that is no length is skipped, the last frame counts only if it
  is complete.
\<close>

fun l2_frames :: "nat \<Rightarrow> bytes \<Rightarrow> bytes list" where
  "l2_frames maxLen [] = []"
| "l2_frames maxLen (l # bs) =
     (if unat l = 0 \<or> unat l > maxLen then l2_frames maxLen bs
      else if length bs < unat l then []
      else take (unat l) bs # l2_frames maxLen (drop (unat l) bs))"

definition fr_inv :: "'s L3Framer \<Rightarrow> bool" where
  "fr_inv fr \<longleftrightarrow> fr_pos fr \<le> fr_end fr \<and> fr_end fr \<le> length (fr_buf fr)"

definition fr_bytes :: "'s L3Framer \<Rightarrow> bytes" where
  "fr_bytes fr = take (fr_end fr - fr_pos fr) (drop (fr_pos fr) (fr_buf fr))"

lemma length_fr_bytes: "fr_inv fr \<Longrightarrow> length (fr_bytes fr) = fr_end fr - fr_pos fr"
  by (auto simp: fr_bytes_def fr_inv_def)

lemma compact_bytes:
  assumes "fr_inv fr"
  shows "fr_inv (fr_compact fr)" "fr_bytes (fr_compact fr) = fr_bytes fr" "fr_source (fr_compact fr) = fr_source fr"
    "fr_config (fr_compact fr) = fr_config fr"
  using assms by (auto simp: fr_compact_def fr_inv_def fr_bytes_def memcpy_at_def)

lemma reserve_bytes:
  assumes "fr_inv fr"
  shows "fr_inv (fr_reserve fr)" "fr_bytes (fr_reserve fr) = fr_bytes fr" "fr_source (fr_reserve fr) = fr_source fr"
    "fr_config (fr_reserve fr) = fr_config fr" "fr_end (fr_reserve fr) < length (fr_buf (fr_reserve fr))"
  using assms by (auto simp: fr_reserve_def fr_inv_def fr_bytes_def Let_def)

text \<open>Extraction depends on the octets that are buffered only.\<close>

definition l2_config :: "FrameConfig \<Rightarrow> bool" where
  "l2_config cfg \<longleftrightarrow> fc_useL2Length cfg \<and> fc_minHeaderLength cfg \<le> 2"

lemma tryExtract_l2:
  assumes "fr_inv fr" "l2_config (fr_config fr)"
  defines "b \<equiv> fr_bytes fr" and "M \<equiv> fc_maxMessageLength (fr_config fr)"
  shows "length b < fc_minHeaderLength (fr_config fr) \<or> b = [] \<Longrightarrow>
      \<exists>e. tryExtract a fr = (Inl e, fr) \<and> (\<not> a \<longrightarrow> code e = TruncatedInput)"
    and "fc_minHeaderLength (fr_config fr) \<le> length b \<Longrightarrow> b = l # bs \<Longrightarrow> unat l = 0 \<or> unat l > M \<Longrightarrow>
      tryExtract a fr = (perr InvalidValue ''L2 length out of range'', fr\<lparr>fr_pos := fr_pos fr + 1\<rparr>)"
    and "fc_minHeaderLength (fr_config fr) \<le> length b \<Longrightarrow> b = l # bs \<Longrightarrow> \<not> (unat l = 0 \<or> unat l > M) \<Longrightarrow> length bs < unat l \<Longrightarrow>
      tryExtract a fr = (perr (if a then SourceExhausted else TruncatedInput) ''incomplete frame (L2 length)'', fr)"
    and "fc_minHeaderLength (fr_config fr) \<le> length b \<Longrightarrow> b = l # bs \<Longrightarrow> \<not> (unat l = 0 \<or> unat l > M) \<Longrightarrow> unat l \<le> length bs \<Longrightarrow>
      tryExtract a fr = (Inr \<lparr>ef_data = take (unat l) bs, ef_l2Length = unat l\<rparr>,
        fr\<lparr>fr_pos := fr_pos fr + (unat l + 1), fr_scanPos := 0\<rparr>)"
proof -
  have len: "length b = fr_end fr - fr_pos fr" using length_fr_bytes [OF assms(1)] by (simp add: b_def)
  have l2: "fc_useL2Length (fr_config fr)" using assms(2) by (simp add: l2_config_def)
  show "\<exists>e. tryExtract a fr = (Inl e, fr) \<and> (\<not> a \<longrightarrow> code e = TruncatedInput)"
    if "length b < fc_minHeaderLength (fr_config fr) \<or> b = []"
    using that len l2 by (auto simp: tryExtract_def extractL2_def Let_def)
  have shape: "fr_buf fr ! fr_pos fr = l" "take (length bs) (drop (fr_pos fr + 1) (fr_buf fr)) = bs"
    "fr_end fr - fr_pos fr = Suc (length bs)"
    if "b = l # bs" for l bs
  proof -
    show e: "fr_end fr - fr_pos fr = Suc (length bs)" using that len by simp
    then have "fr_pos fr < length (fr_buf fr)" using assms(1) unfolding fr_inv_def by linarith
    then have "drop (fr_pos fr) (fr_buf fr) = fr_buf fr ! fr_pos fr # drop (fr_pos fr + 1) (fr_buf fr)" by (simp add: Cons_nth_drop_Suc)
    then show "fr_buf fr ! fr_pos fr = l" "take (length bs) (drop (fr_pos fr + 1) (fr_buf fr)) = bs"
      using that e by (simp_all add: b_def fr_bytes_def)
  qed
  { fix l bs assume m: "fc_minHeaderLength (fr_config fr) \<le> length b" and b: "b = l # bs"
    show "tryExtract a fr = (perr InvalidValue ''L2 length out of range'', fr\<lparr>fr_pos := fr_pos fr + 1\<rparr>)" if "unat l = 0 \<or> unat l > M"
      using that m l2 len shape [OF b] by (auto simp: tryExtract_def extractL2_def Let_def M_def)
    show "tryExtract a fr = (perr (if a then SourceExhausted else TruncatedInput) ''incomplete frame (L2 length)'', fr)"
      if "\<not> (unat l = 0 \<or> unat l > M)" "length bs < unat l"
      using that m l2 len shape [OF b] by (auto simp: tryExtract_def extractL2_def Let_def M_def)
    show "tryExtract a fr = (Inr \<lparr>ef_data = take (unat l) bs, ef_l2Length = unat l\<rparr>,
        fr\<lparr>fr_pos := fr_pos fr + (unat l + 1), fr_scanPos := 0\<rparr>)"
      if "\<not> (unat l = 0 \<or> unat l > M)" "unat l \<le> length bs"
    proof -
      have "take (unat l) (drop (fr_pos fr + 1) (fr_buf fr)) = take (unat l) bs"
        using arg_cong [OF shape(2) [OF b], of "take (unat l)"] that(2) by (simp add: min_def)
      then show ?thesis using that m l2 len shape [OF b] by (simp add: tryExtract_def extractL2_def Let_def M_def)
    qed }
qed

lemma advance_bytes:
  assumes "fr_inv fr" "n \<le> length (fr_bytes fr)"
  shows "fr_inv (fr\<lparr>fr_pos := fr_pos fr + n\<rparr>)" "fr_bytes (fr\<lparr>fr_pos := fr_pos fr + n\<rparr>) = drop n (fr_bytes fr)"
    "fr_inv (fr\<lparr>fr_pos := fr_pos fr + n, fr_scanPos := k\<rparr>)" "fr_bytes (fr\<lparr>fr_pos := fr_pos fr + n, fr_scanPos := k\<rparr>) = drop n (fr_bytes fr)"
  using assms length_fr_bytes [OF assms(1)] by (auto simp: fr_inv_def fr_bytes_def drop_take add.commute)

context byte_source
begin

lemma fill_bytes:
  assumes "fr_inv fr" "src_ok (fr_source fr)"
  obtains bs fr1 where "fillBuffer rd fr = (bs \<noteq> [], fr1)" "fr_inv fr1" "src_ok (fr_source fr1)" "fr_bytes fr1 = fr_bytes fr @ bs"
    "pending (fr_source fr) = bs @ pending (fr_source fr1)" "bs = [] \<Longrightarrow> pending (fr_source fr) = []" "fr_config fr1 = fr_config fr"
proof -
  define fr0 where "fr0 = fr_reserve (fr_compact fr)"
  have inv: "fr_inv fr0" "fr_bytes fr0 = fr_bytes fr" "fr_source fr0 = fr_source fr" "fr_config fr0 = fr_config fr"
    "fr_end fr0 < length (fr_buf fr0)"
    using reserve_bytes [OF compact_bytes(1) [OF assms(1)]] compact_bytes [OF assms(1)] by (simp_all add: fr0_def)
  let ?n = "length (fr_buf fr0) - fr_end fr0"
  obtain bs s1 where r: "rd ?n (fr_source fr) = (bs, s1)" by fastforce
  have laws: "pending (fr_source fr) = bs @ pending s1" "src_ok s1" "length bs \<le> ?n" "bs = [] \<Longrightarrow> pending (fr_source fr) = []"
    using read_front [OF assms(2), of ?n] read_ok [OF assms(2), of ?n] read_bound [OF assms(2), of ?n]
      read_progress [OF assms(2), of ?n] r inv(5) by auto
  define fr1 where "fr1 = fr0\<lparr>fr_source := s1, fr_buf := memcpy_at (fr_end fr0) bs (fr_buf fr0), fr_end := fr_end fr0 + length bs\<rparr>"
  have "fr_inv fr1" using inv(1) laws(3) by (auto simp: fr1_def fr_inv_def memcpy_at_def)
  moreover have "fr_bytes fr1 = fr_bytes fr0 @ bs"
    using inv(1) laws(3) by (auto simp: fr1_def fr_bytes_def fr_inv_def memcpy_at_def drop_take)
  ultimately show ?thesis
    using that [of bs fr1] laws r inv by (simp add: inv(2) fillBuffer_def fr0_def [symmetric] Let_def fr1_def)
qed

text \<open>The framer extracts the frames of the specification from the octets in its buffer and in the source.\<close>

definition fr_rest :: "'s L3Framer \<Rightarrow> bytes" where
  "fr_rest fr = fr_bytes fr @ pending (fr_source fr)"

definition fr_ready :: "'s L3Framer \<Rightarrow> bool" where
  "fr_ready fr \<longleftrightarrow> fr_inv fr \<and> src_ok (fr_source fr) \<and> l2_config (fr_config fr)"

lemma l2_short: "length b < 2 \<Longrightarrow> l2_frames M b = []"
proof -
  assume "length b < 2"
  then have "b = [] \<or> (\<exists>x. b = [x])" by (cases b) (auto simp: less_Suc_eq)
  then show ?thesis by auto
qed

lemma l2_skip: "unat l = 0 \<or> unat l > M \<Longrightarrow> l2_frames M (l # bs) = l2_frames M bs"
  by auto

text \<open>The outcome of one call: the next frame of the specification, or the error for having none left.\<close>

definition fr_outcome :: "nat \<Rightarrow> bytes \<Rightarrow> ExtractedFrame Expected \<Rightarrow> 's L3Framer \<Rightarrow> bool" where
  "fr_outcome M octets r fr1 \<longleftrightarrow> (case l2_frames M octets of
     [] \<Rightarrow> (\<exists>e. r = Inl e \<and> code e = (if eof (fr_source fr1) then SourceExhausted else TruncatedInput)) \<and>
       pending (fr_source fr1) = [] \<and> l2_frames M (fr_rest fr1) = []
   | f # fs \<Rightarrow> r = Inr \<lparr>ef_data = f, ef_l2Length = length f\<rparr> \<and> l2_frames M (fr_rest fr1) = fs)"

lemma nextFrame_l2:
  assumes "fr_ready fr"
  shows "\<exists>r fr1. nextFrame rd eof fr = Some (r, fr1) \<and> fr_ready fr1 \<and> fr_config fr1 = fr_config fr \<and>
    fr_outcome (fc_maxMessageLength (fr_config fr)) (fr_rest fr) r fr1"
  using assms
proof (induction "length (fr_bytes fr) + 2 * length (pending (fr_source fr))" arbitrary: fr rule: less_induct)
  case less
  let ?M = "fc_maxMessageLength (fr_config fr)" and ?b = "fr_bytes fr" and ?p = "pending (fr_source fr)"
  have rdy: "fr_inv fr" "src_ok (fr_source fr)" "l2_config (fr_config fr)" "fc_minHeaderLength (fr_config fr) \<le> 2"
    using less.prems by (simp_all add: fr_ready_def l2_config_def)
  note ex = tryExtract_l2 [OF rdy(1,3)]
  have refill: ?case if t: "tryExtract False fr = (Inl e, fr)" "code e = TruncatedInput" "\<exists>e. tryExtract True fr = (Inl e, fr)"
    and none: "l2_frames ?M ?b = []" and eof_err: "\<And>fr2 :: 's L3Framer. fr_inv fr2 \<Longrightarrow> fr_config fr2 = fr_config fr \<Longrightarrow> fr_bytes fr2 = ?b \<Longrightarrow> \<exists>e. tryExtract True fr2 = (Inl e, fr2)"
    for e
  proof -
    obtain bs fr2 where f: "fillBuffer rd fr = (bs \<noteq> [], fr2)" "fr_inv fr2" "src_ok (fr_source fr2)" "fr_bytes fr2 = ?b @ bs"
      "?p = bs @ pending (fr_source fr2)" "bs = [] \<Longrightarrow> ?p = []" "fr_config fr2 = fr_config fr"
      by (rule fill_bytes [OF rdy(1,2)]) (rule that)
    have rdy2: "fr_ready fr2" and rest: "fr_rest fr2 = fr_rest fr" using f rdy by (simp_all add: fr_ready_def fr_rest_def)
    show ?thesis
    proof (cases "bs = []")
      case False
      then have "length (fr_bytes fr2) + 2 * length (pending (fr_source fr2)) < length ?b + 2 * length ?p" using f(4,5) by simp
      note ih = less.hyps [OF this rdy2]
      have "nextFrame rd eof fr = nextFrame rd eof fr2" by (subst nextFrame.simps) (simp add: t f(1) False)
      then show ?thesis using ih by (simp add: rest f(7))
    next
      case True
      then have p: "?p = []" "pending (fr_source fr2) = []" using f(5,6) by simp_all
      obtain e2 where e2: "tryExtract True fr2 = (Inl e2, fr2)" using eof_err [OF f(2,7)] f(4) True by auto
      have "nextFrame rd eof fr = Some (if eof (fr_source fr2) then perr SourceExhausted ''source exhausted''
          else perr TruncatedInput ''no data available yet'', fr2)"
        by (subst nextFrame.simps) (simp add: t f(1) True e2)
      moreover have "fr_rest fr = ?b" using p by (simp add: fr_rest_def)
      ultimately show ?thesis using rdy2 f(7) p none rest by (auto simp: perr_def fr_outcome_def)
    qed
  qed
  show ?case
  proof (cases "length ?b < fc_minHeaderLength (fr_config fr) \<or> ?b = []")
    case True
    then have "length ?b < 2" using rdy(4) by auto
    then have "l2_frames ?M ?b = []" by (rule l2_short)
    moreover obtain e where "tryExtract False fr = (Inl e, fr)" "code e = TruncatedInput" using ex(1) [OF True, of False] by auto
    moreover have "\<exists>e. tryExtract True fr2 = (Inl e, fr2)" if "fr_inv fr2" "fr_config fr2 = fr_config fr" "fr_bytes fr2 = ?b" for fr2 :: "'s L3Framer"
      using tryExtract_l2(1) [OF that(1), of True] that True rdy(3) by auto
    ultimately show ?thesis using refill rdy(1) by blast
  next
    case False
    then obtain l bs where b: "?b = l # bs" and m: "fc_minHeaderLength (fr_config fr) \<le> length ?b" by (cases ?b) auto
    show ?thesis
    proof (cases "unat l = 0 \<or> unat l > ?M")
      case True
      let ?fr = "fr\<lparr>fr_pos := fr_pos fr + 1\<rparr>"
      have a: "fr_inv ?fr" "fr_bytes ?fr = bs" using advance_bytes(1,2) [OF rdy(1), of 1] b by simp_all
      have t: "tryExtract False fr = (perr InvalidValue ''L2 length out of range'', ?fr)" by (rule ex(2) [OF m b True])
      have "length (fr_bytes ?fr) + 2 * length (pending (fr_source ?fr)) < length ?b + 2 * length ?p" using a b by simp
      moreover have "fr_ready ?fr" using a rdy by (simp add: fr_ready_def)
      ultimately have ih: "?thesis" if "nextFrame rd eof fr = nextFrame rd eof ?fr" "l2_frames ?M (fr_rest fr) = l2_frames ?M (fr_rest ?fr)"
        using less.hyps [of ?fr] that by (simp add: fr_outcome_def)
      show ?thesis
      proof (rule ih)
        show "nextFrame rd eof fr = nextFrame rd eof ?fr" by (subst nextFrame.simps) (simp add: t perr_def)
        show "l2_frames ?M (fr_rest fr) = l2_frames ?M (fr_rest ?fr)" using l2_skip [OF True] b a(2) by (simp add: fr_rest_def)
      qed
    next
      case False
      show ?thesis
      proof (cases "unat l \<le> length bs")
        case True
        let ?fr = "fr\<lparr>fr_pos := fr_pos fr + (unat l + 1), fr_scanPos := 0\<rparr>"
        have a: "fr_inv ?fr" "fr_bytes ?fr = drop (unat l) bs" using advance_bytes(3,4) [OF rdy(1), of "unat l + 1" 0] b True by simp_all
        have "nextFrame rd eof fr = Some (Inr \<lparr>ef_data = take (unat l) bs, ef_l2Length = unat l\<rparr>, ?fr)"
          by (subst nextFrame.simps) (simp add: ex(4) [OF m b False True])
        moreover have "fr_ready ?fr" using a rdy by (simp add: fr_ready_def)
        moreover have "fr_rest ?fr = drop (unat l) bs @ ?p" unfolding fr_rest_def a(2) by simp
        moreover have "l2_frames ?M (fr_rest fr) = take (unat l) bs # l2_frames ?M (drop (unat l) bs @ ?p)"
          using False True by (simp add: fr_rest_def b)
        ultimately show ?thesis using True by (simp add: min_def fr_outcome_def)
      next
        case short: False
        have "tryExtract False fr = (perr TruncatedInput ''incomplete frame (L2 length)'', fr)" using ex(3) [OF m b False, of False] short by simp
        moreover have "\<exists>e. tryExtract True fr2 = (Inl e, fr2)" if "fr_inv fr2" "fr_config fr2 = fr_config fr" "fr_bytes fr2 = ?b" for fr2 :: "'s L3Framer"
          using tryExtract_l2(3) [OF that(1), of l bs True] that m b False short rdy(3) by (auto simp: perr_def)
        moreover have "l2_frames ?M ?b = []" using False short b by simp
        ultimately show ?thesis using refill rdy(1) by (simp add: perr_def)
      qed
    qed
  qed
qed

end

text \<open>The framer without a buffer extracts the same frames.\<close>

lemma l2_drop_skip:
  "n < length d \<Longrightarrow> unat (d ! n) = 0 \<or> unat (d ! n) > M \<Longrightarrow> l2_frames M (drop (Suc n) d) = l2_frames M (drop n d)"
  by (subst (2) Cons_nth_drop_Suc [symmetric]) auto

lemma il_resync_spec:
  "il_resync fr = (r, fr1) \<Longrightarrow>
     il_data fr1 = il_data fr \<and> il_useL2Length fr1 = il_useL2Length fr \<and> il_maxFrameLen fr1 = il_maxFrameLen fr \<and>
     il_pos fr \<le> il_pos fr1 \<and>
     l2_frames (il_maxFrameLen fr) (drop (il_pos fr1) (il_data fr)) = l2_frames (il_maxFrameLen fr) (drop (il_pos fr) (il_data fr)) \<and>
     (case r of None \<Rightarrow> length (il_data fr) \<le> il_pos fr1
      | Some n \<Rightarrow> il_pos fr1 < length (il_data fr) \<and> n = unat (il_data fr ! il_pos fr1) \<and> 0 < n \<and> n \<le> il_maxFrameLen fr)"
proof (induction fr rule: il_resync.induct)
  case (1 fr)
  let ?skip = "fr\<lparr>il_pos := il_pos fr + 1, il_resyncSkips := il_resyncSkips fr + 1\<rparr>" and ?n = "unat (il_data fr ! il_pos fr)"
  note unfold = "1.prems" [unfolded il_resync.simps [of fr] Let_def]
  show ?case
  proof (cases "il_pos fr < length (il_data fr) \<and> (?n = 0 \<or> ?n > il_maxFrameLen fr)")
    case True
    then have "il_resync ?skip = (r, fr1)" using unfold by (auto split: if_splits)
    moreover have "l2_frames (il_maxFrameLen fr) (drop (Suc (il_pos fr)) (il_data fr)) = l2_frames (il_maxFrameLen fr) (drop (il_pos fr) (il_data fr))"
      using True by (intro l2_drop_skip) auto
    ultimately show ?thesis using "1.IH" [OF _ refl] True by (auto split: option.splits)
  next
    case False
    then show ?thesis using unfold by (auto split: if_splits)
  qed
qed

lemma il_nextFrame_l2:
  assumes "il_useL2Length fr"
  shows "\<exists>r fr1. il_nextFrame fr = (r, fr1) \<and> il_data fr1 = il_data fr \<and> il_useL2Length fr1 \<and> il_maxFrameLen fr1 = il_maxFrameLen fr \<and>
    (case l2_frames (il_maxFrameLen fr) (drop (il_pos fr) (il_data fr)) of
       [] \<Rightarrow> r = None
     | f # fs \<Rightarrow> r = Some f \<and> l2_frames (il_maxFrameLen fr) (drop (il_pos fr1) (il_data fr)) = fs \<and> il_pos fr < il_pos fr1)"
proof (cases "il_pos fr < length (il_data fr)")
  case False
  then show ?thesis using assms by (simp add: il_nextFrame_def)
next
  case True
  let ?M = "il_maxFrameLen fr" and ?d = "il_data fr"
  obtain r fr1 where r: "il_resync fr = (r, fr1)" by fastforce
  note sp = il_resync_spec [OF r]
  show ?thesis
  proof (cases r)
    case None
    then have "drop (il_pos fr1) ?d = []" using sp by simp
    then have "l2_frames ?M (drop (il_pos fr) ?d) = []" using sp by (metis l2_frames.simps(1))
    then show ?thesis using assms True r None sp by (simp add: il_nextFrame_def)
  next
    case (Some n)
    then have n: "il_pos fr1 < length ?d" "n = unat (?d ! il_pos fr1)" "0 < n" "n \<le> ?M" using sp by simp_all
    have d: "drop (il_pos fr1) ?d = ?d ! il_pos fr1 # drop (il_pos fr1 + 1) ?d" using n(1) by (simp add: Cons_nth_drop_Suc)
    have fs: "l2_frames ?M (drop (il_pos fr) ?d) =
        (if length ?d < il_pos fr1 + 1 + n then [] else take n (drop (il_pos fr1 + 1) ?d) # l2_frames ?M (drop (il_pos fr1 + 1 + n) ?d))"
    proof -
      have "l2_frames ?M (drop (il_pos fr) ?d) = l2_frames ?M (drop (il_pos fr1) ?d)" using sp by simp
      then show ?thesis unfolding d using n(2-4) by (auto simp: add.commute)
    qed
    show ?thesis using assms True r Some sp fs by (simp add: il_nextFrame_def)
  qed
qed

section \<open>Header-based framing depends on how the octets arrive\<close>

definition header_config :: FrameConfig where
  "header_config = \<lparr>fc_useL2Length = False, fc_maxMessageLength = 4096, fc_minHeaderLength = 2\<rparr>"

lemma fill_fresh:
  assumes "rb_inv rb" "rb_contents rb = bs" "fr_pos fr = 0" "fr_end fr + length bs \<le> 4096" "length (fr_buf fr) = 4096"
    "fr_source fr = rb" "fr_end fr < 4096"
  shows "\<exists>rb1. rb_inv rb1 \<and> rb_contents rb1 = [] \<and> rb_capacity rb1 = rb_capacity rb \<and>
    fillBuffer rb_read fr = (bs \<noteq> [], fr\<lparr>fr_source := rb1, fr_buf := memcpy_at (fr_end fr) bs (fr_buf fr), fr_end := fr_end fr + length bs\<rparr>)"
proof -
  let ?r = "rb_read (4096 - fr_end fr) rb"
  have "fst ?r = bs" "rb_contents (snd ?r) = []" "rb_inv (snd ?r)" "rb_capacity (snd ?r) = rb_capacity rb"
    using rb_read_contents [OF assms(1), of "4096 - fr_end fr"] assms(2,4) by simp_all
  moreover obtain out rb1 where "?r = (out, rb1)" by fastforce
  ultimately show ?thesis
    using assms(3,5,6,7) by (intro exI [of _ rb1]) (simp add: fillBuffer_def fr_compact_def fr_reserve_def Let_def)
qed

lemma scan_turn:
  assumes "fr_pos fr = 0" "fr_config fr = header_config" "2 \<le> fr_end fr" "fr_end fr \<le> 16"
    "fixedFrameLength (unat (fr_buf fr ! 0 AND 0x0F)) (frame_mti (fr_buf fr ! 0) (fr_buf fr ! 1)) = 0"
  shows "tryExtract False fr =
    (case List.find (\<lambda>i. plausible (fr_buf fr ! i)) [if fr_scanPos fr < 2 then 2 else fr_scanPos fr..<fr_end fr - 1] of
       None \<Rightarrow> (perr TruncatedInput ''variable-length frame, need more data'', fr\<lparr>fr_scanPos := fr_end fr\<rparr>)
     | Some i \<Rightarrow> takeHeaderFrame i fr)"
proof -
  let ?find = "List.find (\<lambda>i. plausible (fr_buf fr ! i)) [if fr_scanPos fr < 2 then 2 else fr_scanPos fr..<fr_end fr - 1]"
  have cfg: "fc_maxMessageLength (fr_config fr) = 4096" "\<not> fc_useL2Length (fr_config fr)" "fc_minHeaderLength (fr_config fr) = 2"
    by (simp_all add: assms(2) header_config_def)
  have bounds: "min (fr_end fr - 1) (2 + 4096) = fr_end fr - 1" "\<not> fr_end fr > 2 + 4096" using assms(4) by simp_all
  have "tryExtract False fr = extractHeader False fr" using cfg assms(1,3) by (simp add: tryExtract_def)
  also have "\<dots> = (case ?find of
       None \<Rightarrow> (perr TruncatedInput ''variable-length frame, need more data'', fr\<lparr>fr_scanPos := fr_end fr\<rparr>)
     | Some i \<Rightarrow> if i > 4096 then (perr InvalidValue ''frame exceeds maxMessageLength'', fr\<lparr>fr_pos := 0 + 1\<rparr>) else takeHeaderFrame i fr)"
    unfolding extractHeader_def Let_def cfg(1) assms(1) add_0 diff_zero assms(5)
    by (simp only: bounds if_False simp_thms)
  also have "\<dots> = (case ?find of
       None \<Rightarrow> (perr TruncatedInput ''variable-length frame, need more data'', fr\<lparr>fr_scanPos := fr_end fr\<rparr>)
     | Some i \<Rightarrow> takeHeaderFrame i fr)"
  proof (cases ?find)
    case (Some i)
    then have "i \<in> set [if fr_scanPos fr < 2 then 2 else fr_scanPos fr..<fr_end fr - 1]"
      unfolding find_Some_iff by (metis nth_mem)
    then have "\<not> i > 4096" using assms(4) by auto
    then show ?thesis unfolding Some option.case by simp
  qed simp
  finally show ?thesis .
qed

lemma nextFrame_turn:
  "tryExtract False fr = (Inr f, fr1) \<Longrightarrow> nextFrame rd eof fr = Some (Inr f, fr1)"
  "tryExtract False fr = (perr TruncatedInput msg, fr1) \<Longrightarrow> fillBuffer rd fr1 = (True, fr2) \<Longrightarrow> nextFrame rd eof fr = nextFrame rd eof fr2"
  "tryExtract False fr = (perr TruncatedInput msg, fr1) \<Longrightarrow> fillBuffer rd fr1 = (False, fr2) \<Longrightarrow> \<not> eof (fr_source fr2) \<Longrightarrow>
     nextFrame rd eof fr = Some (perr TruncatedInput ''no data available yet'', fr2)"
  by (subst nextFrame.simps, simp add: perr_def)+

lemma valid_header_taken:
  assumes "length (fr_buf fr) = 4096" "fr_pos fr = 0" "2 \<le> n" "n \<le> fr_end fr" "fr_end fr \<le> 4096" "fr_buf fr ! 0 AND 0x0F \<notin> {0x02, 0x04, 0x07}"
  shows "takeHeaderFrame n fr = (Inr \<lparr>ef_data = take n (fr_buf fr), ef_l2Length = 0\<rparr>, fr\<lparr>fr_pos := n, fr_scanPos := 0\<rparr>)"
proof -
  have "L3PD_of_nibble (fr_buf fr ! 0 AND 0x0F) \<noteq> PD_Undefined" by (auto simp: L3PD_of_nibble_def)
  then show ?thesis using assms by (simp add: takeHeaderFrame_def parseL3Header_def header_isValid_def Let_def)
qed

text \<open>
  C37. In the header-based mode the frames depend on how the octets arrive. A message of variable length followed by another
  one is split at the boundary when both are in the buffer; when the first octet of the second message was the last one that
  had arrived, the scan for the boundary has passed over it, and that octet ends up in the frame of the first message.
\<close>

theorem framing_depends_on_arrival:
  assumes "fixedFrameLength (unat (h0 AND 0x0F)) (frame_mti h0 h1) = 0" "h0 AND 0x0F \<notin> {0x02, 0x04, 0x07}" "plausible x" "plausible y"
    and "rb_inv ring1" "rb_contents ring1 = [h0, h1, x, y, z]" "rb_inv ring2" "rb_contents ring2 = [h0, h1, x]" "2 \<le> rb_capacity ring2"
  shows "\<exists>fr1 fr2 fr3 e. nextFrame rb_read rb_atEof (mkL3Framer ring1 header_config) = Some (Inr \<lparr>ef_data = [h0, h1], ef_l2Length = 0\<rparr>, fr1) \<and>
    nextFrame rb_read rb_atEof (mkL3Framer ring2 header_config) = Some (Inl e, fr2) \<and> code e = TruncatedInput \<and>
    nextFrame rb_read rb_atEof (fr2\<lparr>fr_source := snd (rb_write [y, z] (fr_source fr2))\<rparr>) =
      Some (Inr \<lparr>ef_data = [h0, h1, x], ef_l2Length = 0\<rparr>, fr3)"
proof -
  let ?zeros = "replicate 4096 (0 :: u8)"
  define st where "st ring bs scan = \<lparr>fr_source = ring, fr_buf = memcpy_at 0 bs ?zeros, fr_pos = 0, fr_end = length bs, fr_config = header_config, fr_scanPos = scan\<rparr>" for ring :: RingBuffer and bs scan
  have start: "mkL3Framer ring header_config = st ring [] 0" for ring by (simp add: st_def mkL3Framer_def memcpy_at_def)
  have empty: "tryExtract False (st ring [] 0) = (perr TruncatedInput ''insufficient data for L3 header'', st ring [] 0)" for ring
    by (simp add: st_def tryExtract_def header_config_def)
  have grow: "\<exists>ring'. rb_inv ring' \<and> rb_contents ring' = [] \<and> rb_capacity ring' = rb_capacity ring \<and>
      fillBuffer rb_read (st ring bs scan) = (cs \<noteq> [], st ring' (bs @ cs) scan)"
    if "rb_inv ring" "rb_contents ring = cs" "length bs + length cs \<le> 16" for ring bs cs scan
    using fill_fresh [OF that(1,2), of "st ring bs scan"] that(3) by (auto simp: st_def memcpy_at_def)
  have nth: "memcpy_at 0 bs ?zeros ! i = bs ! i" if "i < length bs" "length bs \<le> 16" for bs i
    using that by (simp add: memcpy_at_def nth_append)
  have scan: "tryExtract False (st ring (h0 # h1 # bs) k) =
      (case List.find (\<lambda>i. plausible (memcpy_at 0 (h0 # h1 # bs) ?zeros ! i)) [if k < 2 then 2 else k..<length (h0 # h1 # bs) - 1] of
         None \<Rightarrow> (perr TruncatedInput ''variable-length frame, need more data'', st ring (h0 # h1 # bs) (length (h0 # h1 # bs)))
       | Some i \<Rightarrow> takeHeaderFrame i (st ring (h0 # h1 # bs) k))"
    if "length bs \<le> 8" for ring bs k
  proof -
    let ?f = "st ring (h0 # h1 # bs) k"
    have "fr_pos ?f = 0" "fr_config ?f = header_config" "2 \<le> fr_end ?f" "fr_end ?f \<le> 16"
      "fixedFrameLength (unat (fr_buf ?f ! 0 AND 0x0F)) (frame_mti (fr_buf ?f ! 0) (fr_buf ?f ! 1)) = 0"
      using that assms(1) nth [of 0 "h0 # h1 # bs"] nth [of 1 "h0 # h1 # bs"] by (simp_all add: st_def)
    note scan_turn [OF this]
    then show ?thesis by (simp only: st_def L3Framer.select_convs L3Framer.update_convs)
  qed
  have taken: "takeHeaderFrame i (st ring (h0 # h1 # bs) k) =
      (Inr \<lparr>ef_data = take i (h0 # h1 # bs), ef_l2Length = 0\<rparr>, (st ring (h0 # h1 # bs) 0)\<lparr>fr_pos := i\<rparr>)"
    if "2 \<le> i" "i \<le> length bs + 2" "length bs \<le> 8" for ring bs k i
  proof -
    have "take i (memcpy_at 0 (h0 # h1 # bs) ?zeros) = take i (h0 # h1 # bs)" using that(2) by (simp add: memcpy_at_def take_Cons' Suc_le_eq)
    then show ?thesis using valid_header_taken [of "st ring (h0 # h1 # bs) k" i] that assms(2) nth [of 0 "h0 # h1 # bs"] by (simp add: st_def)
  qed
  obtain r1 where r1: "fillBuffer rb_read (st ring1 [] 0) = (True, st r1 [h0, h1, x, y, z] 0)"
    using grow [OF assms(5,6), of "[]" 0] by auto
  have one: "tryExtract False (st r1 [h0, h1, x, y, z] 0) = (Inr \<lparr>ef_data = [h0, h1], ef_l2Length = 0\<rparr>, (st r1 [h0, h1, x, y, z] 0)\<lparr>fr_pos := 2\<rparr>)"
    using scan [of "[x, y, z]" r1 0] taken [of 2 "[x, y, z]" r1 0] nth [of 2 "[h0, h1, x, y, z]"] assms(3) by (simp add: upt_rec)
  have first: "nextFrame rb_read rb_atEof (st ring1 [] 0) = Some (Inr \<lparr>ef_data = [h0, h1], ef_l2Length = 0\<rparr>, (st r1 [h0, h1, x, y, z] 0)\<lparr>fr_pos := 2\<rparr>)"
    by (simp only: nextFrame_turn(2) [OF empty r1] nextFrame_turn(1) [OF one])
  obtain r2 where r2: "fillBuffer rb_read (st ring2 [] 0) = (True, st r2 [h0, h1, x] 0)" "rb_inv r2" "rb_contents r2 = []" "2 \<le> rb_capacity r2"
    using grow [OF assms(7,8), of "[]" 0] assms(9) by auto
  have two: "tryExtract False (st r [h0, h1, x] k) = (perr TruncatedInput ''variable-length frame, need more data'', st r [h0, h1, x] 3)" for r k
    using scan [of "[x]" r k] by (simp add: numeral_3_eq_3)
  obtain r3 where r3: "fillBuffer rb_read (st r2 [h0, h1, x] 3) = (False, st r3 [h0, h1, x] 3)" "rb_inv r3" "rb_contents r3 = []" "2 \<le> rb_capacity r3"
    using grow [OF r2(2,3), of "[h0, h1, x]" 3] r2(4) by auto
  have second: "nextFrame rb_read rb_atEof (st ring2 [] 0) = Some (perr TruncatedInput ''no data available yet'', st r3 [h0, h1, x] 3)"
    by (simp add: nextFrame_turn(2) [OF empty r2(1)] nextFrame_turn(3) [OF two r3(1)] rb_atEof_def)
  define r4 where "r4 = snd (rb_write [y, z] r3)"
  have r4: "rb_inv r4" "rb_contents r4 = [y, z]"
    using rb_write_contents [OF r3(2), of "[y, z]"] r3(3,4) by (simp_all add: r4_def)
  obtain r5 where r5: "fillBuffer rb_read (st r4 [h0, h1, x] 3) = (True, st r5 [h0, h1, x, y, z] 3)"
    using grow [OF r4, of "[h0, h1, x]" 3] by auto
  have three: "tryExtract False (st r5 [h0, h1, x, y, z] 3) = (Inr \<lparr>ef_data = [h0, h1, x], ef_l2Length = 0\<rparr>, (st r5 [h0, h1, x, y, z] 0)\<lparr>fr_pos := 3\<rparr>)"
    using scan [of "[x, y, z]" r5 3] taken [of 3 "[x, y, z]" r5 3] nth [of 3 "[h0, h1, x, y, z]"] assms(4) by (simp add: upt_rec)
  have third: "nextFrame rb_read rb_atEof (st r4 [h0, h1, x] 3) = Some (Inr \<lparr>ef_data = [h0, h1, x], ef_l2Length = 0\<rparr>, (st r5 [h0, h1, x, y, z] 0)\<lparr>fr_pos := 3\<rparr>)"
    by (simp only: nextFrame_turn(2) [OF two r5] nextFrame_turn(1) [OF three])
  have src: "(st r3 [h0, h1, x] 3)\<lparr>fr_source := r4\<rparr> = st r4 [h0, h1, x] 3" "fr_source (st r3 [h0, h1, x] 3) = r3" by (simp_all add: st_def)
  show ?thesis
    unfolding start using first second third src
    by (intro exI [of _ "(st r1 [h0, h1, x, y, z] 0)\<lparr>fr_pos := 2\<rparr>"] exI [of _ "st r3 [h0, h1, x] 3"]
        exI [of _ "(st r5 [h0, h1, x, y, z] 0)\<lparr>fr_pos := 3\<rparr>"] exI [of _ "\<lparr>code = TruncatedInput, message = ''no data available yet''\<rparr>"])
      (simp add: perr_def r4_def [symmetric])
qed

definition example_source :: "bytes \<Rightarrow> RingBuffer" where
  "example_source bs = snd (rb_write bs (mkRingBuffer 16))"

lemma example_source_holds: "length bs \<le> 15 \<Longrightarrow> rb_inv (example_source bs) \<and> rb_contents (example_source bs) = bs \<and> rb_capacity (example_source bs) = 15"
proof -
  assume l: "length bs \<le> 15"
  have i: "rb_inv (mkRingBuffer 16)" "rb_contents (mkRingBuffer 16) = []" by (rule mkRingBuffer_inv, simp)+
  have "rb_capacity (mkRingBuffer 16) = 15" by code_simp
  then show ?thesis using rb_write_contents [OF i(1), of bs] i(2) l by (simp add: example_source_def)
qed

theorem framing_depends_on_arrival_witness:
  "\<exists>fr1 fr2 fr3 e.
    nextFrame rb_read rb_atEof (mkL3Framer (example_source [0x05, 0x24, 0x05, 0x21, 0x05]) header_config) =
      Some (Inr \<lparr>ef_data = [0x05, 0x24], ef_l2Length = 0\<rparr>, fr1) \<and>
    nextFrame rb_read rb_atEof (mkL3Framer (example_source [0x05, 0x24, 0x05]) header_config) = Some (Inl e, fr2) \<and> code e = TruncatedInput \<and>
    nextFrame rb_read rb_atEof (fr2\<lparr>fr_source := snd (rb_write [0x21, 0x05] (fr_source fr2))\<rparr>) =
      Some (Inr \<lparr>ef_data = [0x05, 0x24, 0x05], ef_l2Length = 0\<rparr>, fr3)"
proof (rule framing_depends_on_arrival)
  show "fixedFrameLength (unat (0x05 AND 0x0F :: u8)) (frame_mti 0x05 0x24) = 0" by code_simp
  show "(0x05 :: u8) AND 0x0F \<notin> {0x02, 0x04, 0x07}" "plausible 0x05" "plausible 0x21" by (simp_all add: plausible_def)
qed (use example_source_holds [of "[0x05, 0x24, 0x05, 0x21, 0x05]"] example_source_holds [of "[0x05, 0x24, 0x05]"] in simp_all)

end
