(* ===== verification/Bit_Writer.thy ===== *)
theory Bit_Writer
  imports Bit_Reader
begin

text \<open>
  The bit writer of \<^verbatim>\<open>bitwriter.h\<close>, and the interface of the codecs: what an encoder emits and what a decoder
  accepts are lists of bits, so an information element round-trips when the two lists agree. The locale \<open>ie_codec\<close>
  states that contract and derives the round trip through an actual buffer.
\<close>

unbundle bit_operations_syntax

section \<open>State and operations\<close>

record BitWriter =
  bw_buf :: bytes
  bw_bits :: nat
  bw_pos :: nat

type_synonym writer = "BitWriter \<Rightarrow> BitWriter"

definition mkBitWriter :: "bytes \<Rightarrow> nat \<Rightarrow> BitWriter" where
  "mkBitWriter buf nbits = \<lparr>bw_buf = buf, bw_bits = nbits, bw_pos = 0\<rparr>"

text \<open>One turn of the loop of \<^verbatim>\<open>writeField\<close>.\<close>

definition put_bit :: "u32 \<Rightarrow> nat \<Rightarrow> writer" where
  "put_bit v i bw =
     (let byteIdx = bw_pos bw div 8; bitIdx = 7 - bw_pos bw mod 8; old = bw_buf bw ! byteIdx;
          new = (if drop_bit i v AND 1 \<noteq> 0 then old OR push_bit bitIdx 1 else old AND NOT (push_bit bitIdx 1))
      in bw\<lparr>bw_buf := (bw_buf bw)[byteIdx := new], bw_pos := bw_pos bw + 1\<rparr>)"

fun writeField_loop :: "u32 \<Rightarrow> nat \<Rightarrow> writer" where
  "writeField_loop v 0 bw = bw"
| "writeField_loop v (Suc i) bw = (if bw_pos bw \<ge> bw_bits bw then bw else writeField_loop v i (put_bit v i bw))"

definition writeField :: "u32 \<Rightarrow> nat \<Rightarrow> writer" where
  "writeField v nbits bw = writeField_loop v (if nbits > 32 then 32 else nbits) bw"

definition writeOctet :: "u8 \<Rightarrow> writer" where
  "writeOctet v = writeField (ucast v) 8"

definition writeBytes :: "bytes \<Rightarrow> writer" where
  "writeBytes data bw =
     (if data = [] then bw
      else if bw_pos bw mod 8 = 0 \<and> bw_pos bw + length data * 8 \<le> bw_bits bw
      then bw\<lparr>bw_buf := take (bw_pos bw div 8) (bw_buf bw) @ data @ drop (bw_pos bw div 8 + length data) (bw_buf bw),
              bw_pos := bw_pos bw + length data * 8\<rparr>
      else fold writeOctet data bw)"

definition bw_alignToOctet :: writer where
  "bw_alignToOctet bw =
     (let spare = (8 - bw_pos bw mod 8) mod 8 in if spare \<noteq> 0 then writeField 0 spare bw else bw)"

text \<open>The statements of an encoder, in order.\<close>

definition wdo :: "writer list \<Rightarrow> writer" where
  "wdo stmts bw = fold (\<lambda>s. s) stmts bw"

section \<open>What a writer emits\<close>

definition nbits :: "nat \<Rightarrow> u32 \<Rightarrow> bool list" where
  "nbits n v = map (\<lambda>i. bit v (n - 1 - i)) [0..<n]"

definition bw_ok :: "BitWriter \<Rightarrow> bool" where
  "bw_ok bw \<longleftrightarrow> bw_bits bw \<le> 8 * length (bw_buf bw) \<and> bw_pos bw \<le> bw_bits bw"

text \<open>
  A writer emits \<open>bs\<close> when it places as many of these bits as there is room for at the position and touches no other bit.
\<close>

definition emitted :: "bool list \<Rightarrow> BitWriter \<Rightarrow> BitWriter \<Rightarrow> bool" where
  "emitted bs bw bw1 \<longleftrightarrow>
     (let n = min (length bs) (bw_bits bw - bw_pos bw)
      in bw_bits bw1 = bw_bits bw \<and> length (bw_buf bw1) = length (bw_buf bw) \<and> bw_pos bw1 = bw_pos bw + n \<and>
         bits_of (bw_buf bw1) =
           take (bw_pos bw) (bits_of (bw_buf bw)) @ take n bs @ drop (bw_pos bw + n) (bits_of (bw_buf bw)))"

definition emits :: "writer \<Rightarrow> bool list \<Rightarrow> bool" where
  "emits f bs \<longleftrightarrow> (\<forall>bw. bw_ok bw \<longrightarrow> emitted bs bw (f bw))"

lemma length_nbits [simp]: "length (nbits n v) = n"
  by (simp add: nbits_def)

lemma nbits_0 [simp]: "nbits 0 v = []"
  by (simp add: nbits_def)

lemma nbits_empty [simp]: "nbits n v = [] \<longleftrightarrow> n = 0"
  using length_nbits [of n v] by (metis length_0_conv)

lemma nbits_Suc: "nbits (Suc n) v = bit v n # nbits n v"
  by (simp add: nbits_def upt_conv_Cons map_Suc_upt [symmetric] del: upt_Suc)

lemma bval_nbits: "bval (nbits n v) = take_bit n (unat v)"
proof -
  have "nbits n v = map (\<lambda>i. bit (unat v) (n - 1 - i)) [0..<n]"
    by (simp add: nbits_def bit_unsigned_iff)
  then show ?thesis by (simp only: bval_bits_below)
qed

lemma emitted_ok: "bw_ok bw \<Longrightarrow> emitted bs bw bw1 \<Longrightarrow> bw_ok bw1"
  by (auto simp: bw_ok_def emitted_def Let_def min_def)

lemma emitted_Nil: "emitted [] bw bw"
  by (simp add: emitted_def)

lemma min_sum: "p \<le> L \<Longrightarrow> min (a + b) (L - p) = min a (L - p) + min b (L - (p + min a (L - p)))" for p L a b :: nat
  by (auto simp: min_def)

lemma emitted_bits_append:
  assumes "bw_ok bw" "emitted as bw bw1" "emitted bs bw1 bw2"
  shows "emitted (as @ bs) bw bw2"
proof -
  define p q where "p = bw_pos bw" and "q = min (length as) (bw_bits bw - bw_pos bw)"
  define r where "r = min (length bs) (bw_bits bw - (p + q))"
  let ?b = "bits_of (bw_buf bw)"
  have len: "p + q \<le> length ?b" "p \<le> bw_bits bw" "bw_bits bw \<le> length ?b"
    using assms(1) by (auto simp: bw_ok_def p_def q_def)
  have 1: "bw_bits bw1 = bw_bits bw" "bw_pos bw1 = p + q" "length (bw_buf bw1) = length (bw_buf bw)"
    "bits_of (bw_buf bw1) = take p ?b @ take q as @ drop (p + q) ?b"
    using assms(2) by (simp_all add: emitted_def Let_def p_def q_def)
  have 2: "bw_bits bw2 = bw_bits bw" "bw_pos bw2 = p + q + r" "length (bw_buf bw2) = length (bw_buf bw)"
    "bits_of (bw_buf bw2) = take (p + q) (bits_of (bw_buf bw1)) @ take r bs @ drop (p + q + r) (bits_of (bw_buf bw1))"
    using assms(3) 1(1-3) by (simp_all add: emitted_def Let_def r_def)
  have qlen: "length (take q as) = q" by (simp add: q_def)
  have t: "take (p + q) (bits_of (bw_buf bw1)) = take p ?b @ take q as"
    using len qlen by (simp add: 1(4))
  have d: "drop (p + q + r) (bits_of (bw_buf bw1)) = drop (p + q + r) ?b"
    using len qlen by (simp add: 1(4) add.commute add.left_commute)
  have n: "min (length (as @ bs)) (bw_bits bw - p) = q + r"
    using min_sum [OF len(2)] by (simp add: q_def r_def p_def)
  have qr: "take (q + r) (as @ bs) = take q as @ take r bs"
    using len(2) by (auto simp: q_def r_def p_def min_def)
  show ?thesis
    unfolding emitted_def Let_def using 2 n qr by (simp add: p_def [symmetric] t d [unfolded add.assoc] add.assoc)
qed

lemma nth_bits_of: "j < 8 * length bs \<Longrightarrow> bits_of bs ! j = bit (bs ! (j div 8)) (7 - j mod 8)"
proof (induction bs arbitrary: j)
  case (Cons b bs)
  show ?case
  proof (cases "j < 8")
    case True
    then show ?thesis by (simp add: nth_append octet_list_def)
  next
    case False
    then have "j div 8 = Suc ((j - 8) div 8)" "(j - 8) mod 8 = j mod 8" by (simp_all add: div_if mod_if)
    then show ?thesis using False Cons by (simp add: nth_append)
  qed
qed simp

lemma bits_of_set_bit:
  assumes "p < 8 * length buf" "\<And>k. k < 8 \<Longrightarrow> bit w k = (if k = 7 - p mod 8 then b else bit (buf ! (p div 8)) k)"
  shows "bits_of (buf[p div 8 := w]) = (bits_of buf)[p := b]"
proof (rule nth_equalityI)
  fix j assume "j < length (bits_of (buf[p div 8 := w]))"
  then have j: "j < 8 * length buf" by simp
  have same: "j = p" if "j div 8 = p div 8" "7 - j mod 8 = 7 - p mod 8"
  proof -
    have "j mod 8 < 8" "p mod 8 < 8" by simp_all
    then have "j mod 8 = p mod 8" using that(2) by linarith
    then show ?thesis using that(1) by (metis mult_div_mod_eq)
  qed
  have div: "p div 8 < length buf" using assms(1) by (simp add: less_mult_imp_div_less mult.commute)
  show "bits_of (buf[p div 8 := w]) ! j = (bits_of buf)[p := b] ! j"
    using j div same assms by (cases "j div 8 = p div 8"; cases "j = p")
      (auto simp: nth_bits_of nth_list_update)
qed simp

lemma put_bit_emits:
  assumes "bw_ok bw" "bw_pos bw < bw_bits bw"
  shows "emitted [bit v i] bw (put_bit v i bw)"
proof -
  let ?p = "bw_pos bw" and ?buf = "bw_buf bw"
  define w where "w = (if drop_bit i v AND 1 \<noteq> 0 then ?buf ! (?p div 8) OR push_bit (7 - ?p mod 8) 1
    else ?buf ! (?p div 8) AND NOT (push_bit (7 - ?p mod 8) 1))"
  have p: "?p < 8 * length ?buf" using assms by (simp add: bw_ok_def)
  have "bit w k = (if k = 7 - ?p mod 8 then bit v i else bit (?buf ! (?p div 8)) k)" if "k < 8" for k
    using that by (auto simp: w_def bit_simps bit_iff_and_drop_bit_eq_1 [of v i] and_one_eq mod2_eq_if split: if_splits)
  then have "bits_of (?buf[?p div 8 := w]) = (bits_of ?buf)[?p := bit v i]" by (rule bits_of_set_bit [OF p])
  moreover have "put_bit v i bw = bw\<lparr>bw_buf := ?buf[?p div 8 := w], bw_pos := ?p + 1\<rparr>"
    by (simp add: put_bit_def Let_def w_def)
  ultimately show ?thesis
    using p assms(2) by (simp add: emitted_def Let_def upd_conv_take_nth_drop)
qed

lemma writeField_loop_emits: "bw_ok bw \<Longrightarrow> emitted (nbits n v) bw (writeField_loop v n bw)"
proof (induction n arbitrary: bw)
  case 0
  then show ?case by (simp add: emitted_Nil)
next
  case (Suc n)
  show ?case
  proof (cases "bw_pos bw < bw_bits bw")
    case True
    then have "emitted [bit v n] bw (put_bit v n bw)" by (rule put_bit_emits [OF Suc.prems])
    moreover from this have "emitted (nbits n v) (put_bit v n bw) (writeField_loop v n (put_bit v n bw))"
      using Suc emitted_ok by blast
    ultimately have "emitted ([bit v n] @ nbits n v) bw (writeField_loop v n (put_bit v n bw))"
      by (rule emitted_bits_append [OF Suc.prems])
    then show ?thesis using True by (simp add: nbits_Suc)
  next
    case False
    then show ?thesis using Suc.prems by (simp add: emitted_def bw_ok_def)
  qed
qed

named_theorems emit_rules \<open>what the statements of an encoder emit\<close>

lemma emits_writeField [emit_rules]: "n \<le> 32 \<Longrightarrow> emits (writeField v n) (nbits n v)"
  using writeField_loop_emits by (simp add: emits_def writeField_def)

lemma emits_wdo_Nil [emit_rules]: "emits (wdo []) []"
  by (simp add: emits_def wdo_def emitted_Nil)

lemma emits_wdo_Cons [emit_rules]: "emits f as \<Longrightarrow> emits (wdo fs) bs \<Longrightarrow> emits (wdo (f # fs)) (as @ bs)"
  unfolding emits_def wdo_def using emitted_bits_append emitted_ok by fastforce

lemma emits_wdo_append: "emits (wdo us) as \<Longrightarrow> emits (wdo vs) bs \<Longrightarrow> emits (wdo (us @ vs)) (as @ bs)"
  unfolding emits_def wdo_def using emitted_bits_append emitted_ok by fastforce

lemma emits_optional: "(c \<Longrightarrow> emits (wdo us) bs) \<Longrightarrow> emits (wdo (if c then us else [])) (if c then bs else [])"
  by (simp add: emits_wdo_Nil)

lemma octet_list_nbits: "octet_list b = nbits 8 (ucast b)"
  by (auto simp: octet_list_def nbits_def bit_simps)

lemma emits_octets: "emits (fold (\<lambda>b. writeField (ucast b) 8) bs) (bits_of bs)"
proof (induction bs)
  case (Cons b bs)
  then show ?case
    using emits_wdo_Cons [OF emits_writeField [of 8 "ucast b"], of "[fold (\<lambda>b. writeField (ucast b) 8) bs]" "bits_of bs"]
      emits_wdo_Cons [OF Cons emits_wdo_Nil]
    by (simp add: wdo_def octet_list_nbits fun_eq_iff emits_def)
qed (simp add: emits_def emitted_Nil)

lemma emits_writeBytes [emit_rules]: "emits (writeBytes bs) (bits_of bs)"
  unfolding emits_def
proof (intro allI impI)
  fix bw assume ok: "bw_ok bw"
  show "emitted (bits_of bs) bw (writeBytes bs bw)"
  proof (cases "bw_pos bw mod 8 = 0 \<and> bw_pos bw + length bs * 8 \<le> bw_bits bw")
    case True
    then obtain k where k: "bw_pos bw = 8 * k" by (auto elim: dvdE)
    have room: "k + length bs \<le> length (bw_buf bw)" "min (8 * length bs) (bw_bits bw - bw_pos bw) = 8 * length bs"
      using True ok by (auto simp: bw_ok_def k)
    have d: "drop (8 * k + 8 * length bs) (bits_of (bw_buf bw)) = bits_of (drop (k + length bs) (bw_buf bw))"
      using bits_of_drop [of "k + length bs" "bw_buf bw"] by (simp add: distrib_left)
    show ?thesis
    proof (cases "bs = []")
      case False
      then show ?thesis using True room d by (simp add: writeBytes_def emitted_def k bits_of_take [symmetric] mult.commute)
    qed (simp add: writeBytes_def emitted_Nil)
  next
    case False
    have "writeOctet = (\<lambda>b. writeField (ucast b) 8)" by (simp add: fun_eq_iff writeOctet_def)
    then show ?thesis
      using False emits_octets [of bs] ok by (cases "bs = []") (auto simp: writeBytes_def emits_def emitted_Nil)
  qed
qed

section \<open>What a parser accepts\<close>

text \<open>
  A parser accepts a list of bits as a value when it reads the value off the front of any input that starts with them and
  consumes exactly these bits; it decodes a list when that holds of an input that is just the list.
\<close>

definition accepts :: "'a parser \<Rightarrow> bool list \<Rightarrow> 'a \<Rightarrow> bool" where
  "accepts p bs x \<longleftrightarrow>
     (\<forall>br rest. br_ok br \<longrightarrow> upcoming br = bs @ rest \<longrightarrow>
        (\<exists>br1. p br = (Inr x, br1) \<and> br_ok br1 \<and> upcoming br1 = rest))"

definition decodes :: "'a parser \<Rightarrow> bool list \<Rightarrow> 'a \<Rightarrow> bool" where
  "decodes p bs x \<longleftrightarrow>
     (\<forall>br. br_ok br \<longrightarrow> upcoming br = bs \<longrightarrow> (\<exists>br1. p br = (Inr x, br1) \<and> br_ok br1 \<and> upcoming br1 = []))"

definition rget :: "(BitReader \<Rightarrow> 'a) \<Rightarrow> 'a parser" where
  "rget g br = (Inr (g br), br)"

lemma acceptsD:
  assumes "accepts p bs x" "br_ok br" "upcoming br = bs @ rest"
  obtains br1 where "p br = (Inr x, br1)" "br_ok br1" "upcoming br1 = rest"
  using assms unfolding accepts_def by blast

lemma decodesD:
  assumes "decodes p bs x" "br_ok br" "upcoming br = bs"
  obtains br1 where "p br = (Inr x, br1)" "br_ok br1" "upcoming br1 = []"
  using assms unfolding decodes_def by blast

lemma accepts_decodes: "accepts p bs x \<Longrightarrow> decodes p bs x"
  unfolding decodes_def by (metis acceptsD append_Nil2)

lemma accepts_return: "accepts (rreturn x) [] x"
  by (simp add: accepts_def rreturn_def)

lemma accepts_bind: "accepts p as x \<Longrightarrow> accepts (f x) bs y \<Longrightarrow> accepts (rbind p f) (as @ bs) y"
  unfolding accepts_def [of "rbind p f"]
proof (intro allI impI)
  fix br rest
  assume p: "accepts p as x" and f: "accepts (f x) bs y" and br: "br_ok br" "upcoming br = (as @ bs) @ rest"
  obtain br1 where "p br = (Inr x, br1)" "br_ok br1" "upcoming br1 = bs @ rest"
    using acceptsD [OF p br(1), of "bs @ rest"] br(2) by auto
  then show "\<exists>br1. rbind p f br = (Inr y, br1) \<and> br_ok br1 \<and> upcoming br1 = rest"
    using acceptsD [OF f] by (metis (no_types, lifting) case_prod_conv old.sum.simps(6) rbind_def)
qed

lemma decodes_bind: "accepts p as x \<Longrightarrow> decodes (f x) bs y \<Longrightarrow> decodes (rbind p f) (as @ bs) y"
  unfolding decodes_def [of "rbind p f"]
proof (intro allI impI)
  fix br
  assume p: "accepts p as x" and f: "decodes (f x) bs y" and br: "br_ok br" "upcoming br = as @ bs"
  obtain br1 where "p br = (Inr x, br1)" "br_ok br1" "upcoming br1 = bs" by (rule acceptsD [OF p br])
  then show "\<exists>br1. rbind p f br = (Inr y, br1) \<and> br_ok br1 \<and> upcoming br1 = []"
    using decodesD [OF f] by (metis (no_types, lifting) case_prod_conv old.sum.simps(6) rbind_def)
qed

definition rmap :: "('a \<Rightarrow> 'b) \<Rightarrow> 'a parser \<Rightarrow> 'b parser" where
  "rmap f p = rbind p (\<lambda>x. rreturn (f x))"

lemma decodes_map: "decodes p bs x \<Longrightarrow> g x = y \<Longrightarrow> decodes (rbind p (\<lambda>v. rreturn (g v))) bs y"
  unfolding decodes_def by (fastforce simp: rbind_def rreturn_def)

lemma decodes_rmap: "decodes p bs x \<Longrightarrow> decodes (rmap f p) bs (f x)"
  unfolding rmap_def by (erule decodes_map) simp

lemma decodes_return: "decodes (rreturn x) [] x"
  by (simp add: decodes_def rreturn_def)

lemma decodes_get:
  "(\<And>br. br_ok br \<Longrightarrow> upcoming br = bs \<Longrightarrow> g br = v) \<Longrightarrow> decodes (f v) bs y \<Longrightarrow> decodes (rbind (rget g) f) bs y"
  unfolding decodes_def by (simp add: rbind_def rget_def)

lemma decodes_none: "decodes (f x) bs y \<Longrightarrow> decodes (rbind (rreturn x) f) bs y"
  unfolding decodes_def by (simp add: rbind_def rreturn_def)

lemma decodes_end: "accepts p bs x \<Longrightarrow> g x = y \<Longrightarrow> decodes (rbind p (\<lambda>v. rreturn (g v))) bs y"
  by (rule decodes_map [OF accepts_decodes])

definition fits :: "nat \<Rightarrow> u32 \<Rightarrow> bool" where
  "fits n v \<longleftrightarrow> n \<le> 32 \<and> unat v < 2 ^ n"

lemma accepts_readField: "fits n v \<Longrightarrow> accepts (readField n) (nbits n v) v"
  unfolding accepts_def
proof (intro allI impI)
  fix br rest assume n: "fits n v" and br: "br_ok br" "upcoming br = nbits n v @ rest"
  obtain w br1 where w: "readField n br = (Inr w, br1)" "unat w = bval (take n (upcoming br))" "br_ok br1"
    "upcoming br1 = drop n (upcoming br)"
    using readField_fits [OF br(1), of n] n br(2) by (auto simp: fits_def)
  have "unat w = unat v" using w(2) br(2) n by (simp add: bval_nbits fits_def take_bit_nat_eq_self)
  then have "w = v" by (rule unsigned_word_eqI)
  then show "\<exists>br1. readField n br = (Inr v, br1) \<and> br_ok br1 \<and> upcoming br1 = rest"
    using w br(2) by simp
qed

lemma accepts_field: "fits n v \<Longrightarrow> accepts (f v) bs y \<Longrightarrow> accepts (rbind (readField n) f) (nbits n v @ bs) y"
  by (rule accepts_bind [OF accepts_readField])

lemma decodes_field: "fits n v \<Longrightarrow> decodes (f v) bs y \<Longrightarrow> decodes (rbind (readField n) f) (nbits n v @ bs) y"
  by (rule decodes_bind [OF accepts_readField])

lemma bits_of_inject: "length xs = length ys \<Longrightarrow> bits_of xs = bits_of ys \<Longrightarrow> xs = ys"
proof (induction xs ys rule: list_induct2)
  case (Cons x xs y ys)
  then have "octet_list x = octet_list y" "bits_of xs = bits_of ys" by simp_all
  moreover from this have "x = y" by (metis bval_octet unsigned_word_eqI)
  ultimately show ?case using Cons by simp
qed simp

lemma accepts_readBytes: "n = length bs \<Longrightarrow> accepts (readBytes n) (bits_of bs) bs"
  unfolding accepts_def
proof (intro allI impI)
  fix br rest assume n: "n = length bs" and br: "br_ok br" "upcoming br = bits_of bs @ rest"
  obtain got br1 where got: "readBytes n br = (Inr got, br1)" "bits_of got = take (8 * n) (upcoming br)" "br_ok br1"
    "upcoming br1 = drop (8 * n) (upcoming br)"
    using readBytes_fits [OF br(1), of n] n br(2) by auto
  then have "bits_of got = bits_of bs" using br(2) n by simp
  moreover from this have "length got = length bs" by (metis length_bits_of mult_cancel1 zero_neq_numeral)
  ultimately have "got = bs" by (intro bits_of_inject)
  then show "\<exists>br1. readBytes n br = (Inr bs, br1) \<and> br_ok br1 \<and> upcoming br1 = rest" using got br(2) n by simp
qed

section \<open>Values of a field\<close>

lemma fits_ucast [simp]: "LENGTH('a) \<le> n \<Longrightarrow> n \<le> 32 \<Longrightarrow> fits n (ucast (x :: 'a :: len word))"
proof -
  assume n: "LENGTH('a) \<le> n" "n \<le> 32"
  have "unat (ucast x :: u32) \<le> unat x" by (simp add: unsigned_ucast_eq)
  also have "unat x < 2 ^ LENGTH('a)" by (rule unsigned_less)
  also have "\<dots> \<le> (2 :: nat) ^ n" using n(1) by (rule power_increasing) simp
  finally show ?thesis using n(2) by (simp add: fits_def)
qed

lemma ucast_back [simp]: "LENGTH('a) \<le> 32 \<Longrightarrow> ucast (ucast x :: u32) = (x :: 'a :: len word)"
  by (rule bit_word_eqI) (auto simp: bit_simps)

lemma fits_32 [simp]: "fits 32 v"
  using unsigned_less [of v, where ?'a = nat] by (simp add: fits_def)

lemma unat_widen: "LENGTH('a) \<le> 32 \<Longrightarrow> unat (ucast (x :: 'a :: len word) :: u32) = unat x"
proof -
  assume n: "LENGTH('a) \<le> 32"
  have "unat x < 2 ^ 32" by (rule less_le_trans [OF unsigned_less power_increasing]) (use n in simp_all)
  then show ?thesis by (simp add: unsigned_ucast_eq take_bit_nat_eq_self)
qed

lemma fits_narrow: "n \<le> 32 \<Longrightarrow> LENGTH('a) \<le> 32 \<Longrightarrow> fits n (ucast (x :: 'a :: len word)) \<longleftrightarrow> unat x < 2 ^ n"
  by (simp add: fits_def unat_widen)

lemma fits_take_bit: "fits n v \<Longrightarrow> take_bit n v = v"
  by (rule unsigned_word_eqI [where ?'a = nat]) (simp only: fits_def unsigned_take_bit_eq take_bit_nat_eq_self)

lemma fits_bit: "fits n v \<Longrightarrow> bit v i \<Longrightarrow> i < n"
  by (metis bit_take_bit_iff fits_take_bit)

lemma fits_numeral [simp]: "n \<le> 32 \<Longrightarrow> fits n 0" "0 < n \<Longrightarrow> n \<le> 32 \<Longrightarrow> fits n 1"
  using one_less_power [of "2 :: nat" n] by (simp_all add: fits_def)

section \<open>Codecs\<close>

locale bit_codec =
  fixes dec :: "'a parser" and enc :: "'a \<Rightarrow> writer" and wire :: "'a \<Rightarrow> bool list" and wf :: "'a \<Rightarrow> bool"
  assumes writes: "emits (enc x) (wire x)"
    and decodes: "wf x \<Longrightarrow> decodes dec (wire x) x"
begin

lemma written_bits:
  assumes "length (wire x) = 8 * length buf"
  shows "bits_of (bw_buf (enc x (mkBitWriter buf (8 * length buf)))) = wire x"
    and "length (bw_buf (enc x (mkBitWriter buf (8 * length buf)))) = length buf"
proof -
  have "bw_ok (mkBitWriter buf (8 * length buf))" by (simp add: bw_ok_def mkBitWriter_def)
  then have "emitted (wire x) (mkBitWriter buf (8 * length buf)) (enc x (mkBitWriter buf (8 * length buf)))"
    using writes by (simp add: emits_def)
  then show "bits_of (bw_buf (enc x (mkBitWriter buf (8 * length buf)))) = wire x"
    and "length (bw_buf (enc x (mkBitWriter buf (8 * length buf)))) = length buf"
    using assms by (simp_all add: emitted_def mkBitWriter_def Let_def)
qed

lemma buffer_round_trip:
  assumes "wf x" "length (wire x) = 8 * length buf" "length buf < 2 ^ 32 - 4"
  obtains br1 where
    "dec (mkBitReader (Some (bw_buf (enc x (mkBitWriter buf (8 * length buf))))) (8 * length buf)) = (Inr x, br1)"
    "br_ok br1" "upcoming br1 = []"
proof -
  let ?b = "bw_buf (enc x (mkBitWriter buf (8 * length buf)))"
  have b: "bits_of ?b = wire x" "length ?b = length buf" by (rule written_bits [OF assms(2)])+
  have "br_ok (mkBitReader (Some ?b) (8 * length buf))" using assms(3) b(2) by (simp add: br_ok_def mkBitReader_def)
  moreover have "upcoming (mkBitReader (Some ?b) (8 * length buf)) = wire x"
    using b assms(2) by (simp add: upcoming_def mkBitReader_def)
  ultimately show ?thesis by (rule decodesD [OF decodes [OF assms(1)]]) (rule that)
qed

end

locale ie_codec =
  fixes dec :: "'a parser" and enc :: "'a \<Rightarrow> writer" and wire :: "'a \<Rightarrow> bool list" and wf :: "'a \<Rightarrow> bool"
  assumes ie_writes: "emits (enc x) (wire x)"
    and ie_accepts: "wf x \<Longrightarrow> accepts dec (wire x) x"

sublocale ie_codec \<subseteq> bit_codec
  by unfold_locales (simp_all add: ie_writes accepts_decodes ie_accepts)

end
