(* ===== verification/Identity_Codec.thy ===== *)
theory Identity_Codec
  imports Bit_Writer L3_Elements
begin

text \<open>
  The information elements of \<^verbatim>\<open>common/l3common.cpp\<close> that identify a cell, a location area and a mobile station:
  their parsers and writers, the bits each of them stands for, and that parser and writer agree on these bits
  (interpretations of \<open>ie_codec\<close>).
\<close>

unbundle bit_operations_syntax

section \<open>Sequences of fields\<close>

definition field_bits :: "(nat \<times> u32) list \<Rightarrow> bool list" where
  "field_bits fs = concat (map (\<lambda>(n, v). nbits n v) fs)"

lemma field_bits_simps: "field_bits [] = []" "field_bits ((n, v) # fs) = nbits n v @ field_bits fs"
  by (simp_all add: field_bits_def)

lemma field_bits_append: "field_bits (fs @ gs) = field_bits fs @ field_bits gs"
  by (simp add: field_bits_def)

lemma length_field_bits: "length (field_bits fs) = sum_list (map fst fs)"
  by (induction fs) (auto simp: field_bits_def)

named_theorems field_rules \<open>emitting and accepting a sequence of fields\<close>

lemma emits_fields_Nil [field_rules]: "emits (wdo []) (field_bits [])"
  by (simp add: field_bits_simps emits_wdo_Nil)

lemma emits_fields_Cons [field_rules]:
  "n \<le> 32 \<Longrightarrow> emits (wdo ws) (field_bits fs) \<Longrightarrow> emits (wdo (writeField v n # ws)) (field_bits ((n, v) # fs))"
  by (simp add: field_bits_simps emits_wdo_Cons emits_writeField)

lemma accepts_fields_Nil [field_rules]: "x = y \<Longrightarrow> accepts (rreturn x) (field_bits []) y"
  by (simp add: field_bits_simps accepts_return)

lemma accepts_fields_Cons [field_rules]:
  "fits n v \<Longrightarrow> accepts (f v) (field_bits fs) y \<Longrightarrow> accepts (rbind (readField n) f) (field_bits ((n, v) # fs)) y"
  by (simp add: field_bits_simps accepts_field)

lemma emits_fields_then:
  "emits (wdo ws) (field_bits fs) \<Longrightarrow> emits (wdo us) bs \<Longrightarrow> emits (wdo (ws @ us)) (field_bits fs @ bs)"
  unfolding emits_def wdo_def using emitted_bits_append emitted_ok by fastforce

lemma emits_last: "emits f bs \<Longrightarrow> emits (wdo [f]) bs"
  using emits_wdo_Cons [OF _ emits_wdo_Nil, of f bs] by simp

lemma accepts_last: "accepts p bs x \<Longrightarrow> f x = rreturn y \<Longrightarrow> accepts (rbind p f) bs y"
  using accepts_bind [of p bs x f "[]" y] by (simp add: accepts_return)

lemma accepts_map: "accepts p bs x \<Longrightarrow> g x = y \<Longrightarrow> accepts (rbind p (\<lambda>v. rreturn (g v))) bs y"
  by (erule accepts_last) simp

text \<open>Octets read one by one.\<close>

fun readOctets :: "nat \<Rightarrow> bytes parser" where
  "readOctets 0 = rreturn []"
| "readOctets (Suc n) = rbind (readField 8) (\<lambda>v. rbind (readOctets n) (\<lambda>bs. rreturn (ucast v # bs)))"

definition writeOctets :: "bytes \<Rightarrow> writer" where
  "writeOctets bs bw = fold (\<lambda>b. writeField (ucast b) 8) bs bw"

lemma emits_writeOctets [emit_rules]: "emits (writeOctets bs) (bits_of bs)"
  using emits_octets [of bs] by (simp add: emits_def writeOctets_def)

lemma accepts_readOctets: "n = length bs \<Longrightarrow> accepts (readOctets n) (bits_of bs) bs"
proof (induction bs arbitrary: n)
  case Nil
  then show ?case by (simp add: accepts_return)
next
  case (Cons b bs)
  have "accepts (rbind (readOctets (length bs)) (\<lambda>r. rreturn (ucast (ucast b :: u32) # r))) (bits_of bs) (b # bs)"
    by (rule accepts_last [OF Cons.IH]) simp_all
  then show ?case using Cons.prems by (simp add: octet_list_nbits accepts_field)
qed

text \<open>
  The loops that read octets until the input ends differ in what they do with an error of the reader, which only an input
  that is not whole octets gives; \<open>octet_loop\<close> has that as its argument.
\<close>

function octet_loop :: "(ParseError \<Rightarrow> bytes Expected) \<Rightarrow> bytes parser" where
  "octet_loop onError br =
     (if hasMore br
      then case readField 8 br of
             (Inl e, br1) \<Rightarrow> (onError e, br1)
           | (Inr v, br1) \<Rightarrow>
               (case octet_loop onError br1 of (Inl e, br2) \<Rightarrow> (Inl e, br2) | (Inr bs, br2) \<Rightarrow> (Inr (ucast v # bs), br2))
      else (Inr [], br))"
  by pat_completeness auto

termination octet_loop
  by (relation "measure (\<lambda>(_, br). br_totalBits br - br_pos br)")
    (auto simp: readField_def hasMore_def split: option.splits if_splits)

declare octet_loop.simps [simp del]

definition readOpaqueTail :: "bytes parser" where
  "readOpaqueTail = octet_loop (\<lambda>_. perr TruncatedInput ''truncated optional IEs'')"

lemma hasMore_upcoming: "br_ok br \<Longrightarrow> hasMore br \<longleftrightarrow> upcoming br \<noteq> []"
  using length_upcoming [of br] length_greater_0_conv [of "upcoming br"]
  by (auto simp: hasMore_def simp del: length_greater_0_conv)

lemma decodes_octet_loop: "decodes (octet_loop onError) (bits_of bs) bs"
proof (induction bs)
  case Nil
  then show ?case by (auto simp: decodes_def octet_loop.simps [of onError br for br] hasMore_upcoming)
next
  case (Cons b bs)
  show ?case unfolding decodes_def
  proof (intro allI impI)
    fix br assume br: "br_ok br" "upcoming br = bits_of (b # bs)"
    obtain br1 where 1: "readField 8 br = (Inr (ucast b), br1)" "br_ok br1" "upcoming br1 = bits_of bs"
      using acceptsD [OF accepts_readField [of 8 "ucast b"] br(1), of "bits_of bs"] br(2) by (auto simp: octet_list_nbits)
    then obtain br2 where 2: "octet_loop onError br1 = (Inr bs, br2)" "br_ok br2" "upcoming br2 = []"
      using decodesD [OF Cons] by blast
    have "hasMore br" using br by (simp add: hasMore_upcoming octet_list_def)
    then show "\<exists>br1. octet_loop onError br = (Inr (b # bs), br1) \<and> br_ok br1 \<and> upcoming br1 = []"
      using 1(1) 2 by (simp add: octet_loop.simps [of onError br])
  qed
qed

lemma decodes_readOpaqueTail: "decodes readOpaqueTail (bits_of bs) bs"
  unfolding readOpaqueTail_def by (rule decodes_octet_loop)

section \<open>Cell identity\<close>

record L3CellIdentity =
  ci_id :: u16

definition ci_parse :: "L3CellIdentity parser" where
  "ci_parse = rbind (readField 16) (\<lambda>v. rreturn \<lparr>ci_id = ucast v\<rparr>)"

definition ci_write :: "L3CellIdentity \<Rightarrow> writer" where
  "ci_write c = wdo [writeField (ucast (ci_id c)) 16]"

definition ci_wire :: "L3CellIdentity \<Rightarrow> bool list" where
  "ci_wire c = field_bits [(16, ucast (ci_id c))]"

interpretation ci: ie_codec ci_parse ci_write ci_wire "\<lambda>_. True"
proof
  show "emits (ci_write c) (ci_wire c)" for c
    unfolding ci_write_def ci_wire_def by (intro field_rules) simp
  show "accepts ci_parse (ci_wire c) c" if True for c
    unfolding ci_parse_def ci_wire_def by (intro field_rules) simp_all
qed

section \<open>Location area identity\<close>

definition lai_parse :: "L3LocationAreaIdentity parser" where
  "lai_parse =
     rbind (readField 4) (\<lambda>mcc2. rbind (readField 4) (\<lambda>mcc1. rbind (readField 4) (\<lambda>mnc3. rbind (readField 4) (\<lambda>mcc3.
     rbind (readField 4) (\<lambda>mnc2. rbind (readField 4) (\<lambda>mnc1. rbind (readField 16) (\<lambda>lac.
     rreturn \<lparr>lai_mcc = [mcc1, mcc2, mcc3], lai_mnc = [mnc1, mnc2, mnc3], lai_lac = ucast lac\<rparr>)))))))"

definition lai_write :: "L3LocationAreaIdentity \<Rightarrow> writer" where
  "lai_write l = wdo
     [writeField (lai_mcc l ! 1) 4, writeField (lai_mcc l ! 0) 4, writeField (lai_mnc l ! 2) 4, writeField (lai_mcc l ! 2) 4,
      writeField (lai_mnc l ! 1) 4, writeField (lai_mnc l ! 0) 4, writeField (ucast (lai_lac l)) 16]"

definition lai_lengthV :: nat where
  "lai_lengthV = 5"

definition lai_of_strings :: "string \<Rightarrow> string \<Rightarrow> u32 \<Rightarrow> L3LocationAreaIdentity" where
  "lai_of_strings wMCC wMNC wLAC =
     (let digit = (\<lambda>c. if is_digit c then of_char c - 48 else 0)
      in \<lparr>lai_mcc = map (\<lambda>i. digit (wMCC ! i)) [0..<3],
          lai_mnc = [digit (wMNC ! 0), digit (wMNC ! 1), if is_digit (wMNC ! 2) then of_char (wMNC ! 2) - 48 else 0x0F],
          lai_lac = ucast wLAC\<rparr>)"

definition lai_mcc_value :: "L3LocationAreaIdentity \<Rightarrow> u32" where
  "lai_mcc_value l = lai_mcc l ! 0 * 100 + lai_mcc l ! 1 * 10 + lai_mcc l ! 2"

definition lai_mnc_value :: "L3LocationAreaIdentity \<Rightarrow> u32" where
  "lai_mnc_value l =
     (let val = lai_mnc l ! 0 * 10 + lai_mnc l ! 1 in if lai_mnc l ! 2 < 15 then val * 10 + lai_mnc l ! 2 else val)"

text \<open>Two arrays of three nibbles.\<close>

definition lai_wf :: "L3LocationAreaIdentity \<Rightarrow> bool" where
  "lai_wf l \<longleftrightarrow> length (lai_mcc l) = 3 \<and> length (lai_mnc l) = 3 \<and> list_all (fits 4) (lai_mcc l @ lai_mnc l)"

definition lai_wire :: "L3LocationAreaIdentity \<Rightarrow> bool list" where
  "lai_wire l = field_bits
     [(4, lai_mcc l ! 1), (4, lai_mcc l ! 0), (4, lai_mnc l ! 2), (4, lai_mcc l ! 2), (4, lai_mnc l ! 1), (4, lai_mnc l ! 0),
      (16, ucast (lai_lac l))]"

lemma length_3D: "length xs = 3 \<Longrightarrow> xs = [xs ! 0, xs ! 1, xs ! 2]"
  by (auto simp: numeral_3_eq_3 length_Suc_conv)

interpretation lai: ie_codec lai_parse lai_write lai_wire lai_wf
proof
  show "emits (lai_write l) (lai_wire l)" for l
    unfolding lai_write_def lai_wire_def by (intro field_rules) simp_all
  show "accepts lai_parse (lai_wire l) l" if "lai_wf l" for l
  proof -
    have "lai_mcc l = [lai_mcc l ! 0, lai_mcc l ! 1, lai_mcc l ! 2]" "lai_mnc l = [lai_mnc l ! 0, lai_mnc l ! 1, lai_mnc l ! 2]"
      using that by (intro length_3D; simp add: lai_wf_def)+
    moreover have "fits 4 (lai_mcc l ! i)" "fits 4 (lai_mnc l ! i)" if "i < 3" for i
      using \<open>lai_wf l\<close> that by (auto simp: lai_wf_def list_all_iff)
    ultimately show ?thesis unfolding lai_parse_def lai_wire_def by (intro field_rules) (simp_all add: fits_ucast)
  qed
qed

section \<open>Mobile identity\<close>

definition mi_code :: "MobileIDType \<Rightarrow> u32" where
  "mi_code t = (case t of MobID_NoID \<Rightarrow> 0 | MobID_IMSI \<Rightarrow> 1 | MobID_IMEI \<Rightarrow> 2 | MobID_IMEISV \<Rightarrow> 3 | MobID_TMSI \<Rightarrow> 4)"

definition digit_char :: "u32 \<Rightarrow> char" where
  "digit_char d = char_of (unat d + 48)"

definition digit_value :: "char \<Rightarrow> u32" where
  "digit_value c = of_char c - 48"

text \<open>
  The loop over the digit octets. The array has twenty characters and keeps one for the terminator, so a pair is stored
  only when both digits fit.
\<close>

fun mi_digit_loop :: "nat \<Rightarrow> string \<Rightarrow> string parser" where
  "mi_digit_loop 0 ds = rreturn ds"
| "mi_digit_loop (Suc n) ds =
     rbind (readField 4) (\<lambda>nextDigit. rbind (readField 4) (\<lambda>currentDigit.
     mi_digit_loop n (if length ds + 2 < 20 then ds @ [digit_char currentDigit, digit_char nextDigit] else ds)))"

definition mi_parse :: "nat \<Rightarrow> L3MobileIdentity parser" where
  "mi_parse lengthBytes =
     rbind (readField 4) (\<lambda>firstDigit. rbind (readField 1) (\<lambda>odd. rbind (readField 3) (\<lambda>ty.
     if ty = 4
     then rbind (readField 32) (\<lambda>t. rreturn \<lparr>mi_type = MobID_TMSI, mi_digits = [], mi_tmsi = t\<rparr>)
     else if ty = 1 \<or> ty = 2 \<or> ty = 3
     then rbind (mi_digit_loop (size_sub lengthBytes 1) (if firstDigit < 10 then [digit_char firstDigit] else []))
       (\<lambda>ds. rreturn
          \<lparr>mi_type = (if ty = 1 then MobID_IMSI else if ty = 2 then MobID_IMEI else MobID_IMEISV),
           mi_digits = (if odd = 0 \<and> ds \<noteq> [] then butlast ds else ds), mi_tmsi = 0\<rparr>)
     else rreturn mi_none)))"

definition mi_has_digits :: "L3MobileIdentity \<Rightarrow> bool" where
  "mi_has_digits m \<longleftrightarrow> mi_type m = MobID_IMSI \<or> mi_type m = MobID_IMEI \<or> mi_type m = MobID_IMEISV"

definition mi_lengthV :: "L3MobileIdentity \<Rightarrow> nat" where
  "mi_lengthV m =
     (if mi_type m = MobID_TMSI then 5 else if mi_type m = MobID_NoID then 1 else 1 + length (mi_digits m) div 2)"

fun mi_pairs :: "string \<Rightarrow> (nat \<times> u32) list" where
  "mi_pairs [] = []"
| "mi_pairs [c] = [(4, 0x0F), (4, digit_value c)]"
| "mi_pairs (c # d # ds) = [(4, digit_value d), (4, digit_value c)] @ mi_pairs ds"

definition mi_write :: "L3MobileIdentity \<Rightarrow> writer" where
  "mi_write m =
     (let nDigits = (if mi_has_digits m then length (mi_digits m) else 0)
      in if mi_type m = MobID_TMSI
      then wdo [writeField 0x0F 4, writeField 0 1, writeField (mi_code (mi_type m)) 3, writeField (mi_tmsi m) 32]
      else if nDigits = 0
      then let ty = (if nDigits = 0 \<and> mi_type m \<noteq> MobID_NoID then mi_type m else MobID_NoID)
           in wdo [writeField 0x0F 4, writeField 0 1, writeField (mi_code ty) 3]
      else wdo ([writeField (digit_value (mi_digits m ! 0)) 4, writeField (of_nat nDigits AND 1) 1,
                 writeField (mi_code (mi_type m)) 3] @ map (\<lambda>(n, v). writeField v n) (mi_pairs (drop 1 (mi_digits m)))))"

text \<open>A digit identity holds up to nineteen decimal digits; the two other kinds hold none.\<close>

definition mi_wf :: "L3MobileIdentity \<Rightarrow> bool" where
  "mi_wf m \<longleftrightarrow>
     (if mi_has_digits m then list_all is_digit (mi_digits m) \<and> length (mi_digits m) \<le> 19 \<and> mi_tmsi m = 0
      else mi_digits m = [] \<and> (mi_type m = MobID_TMSI \<or> mi_tmsi m = 0))"

definition mi_fields :: "L3MobileIdentity \<Rightarrow> (nat \<times> u32) list" where
  "mi_fields m =
     (if mi_type m = MobID_TMSI then [(4, 0x0F), (1, 0), (3, 4), (32, mi_tmsi m)]
      else if mi_has_digits m \<and> mi_digits m \<noteq> []
      then [(4, digit_value (hd (mi_digits m))), (1, of_nat (length (mi_digits m)) AND 1), (3, mi_code (mi_type m))] @
        mi_pairs (tl (mi_digits m))
      else [(4, 0x0F), (1, 0), (3, mi_code (mi_type m))])"

definition mi_wire :: "L3MobileIdentity \<Rightarrow> bool list" where
  "mi_wire m = field_bits (mi_fields m)"

lemma emits_map_fields:
  "list_all (\<lambda>(n, v). n \<le> 32) fs \<Longrightarrow> emits (wdo (map (\<lambda>(n, v). writeField v n) fs)) (field_bits fs)"
  by (induction fs) (auto intro: field_rules)

lemma mi_pairs_widths: "list_all (\<lambda>(n, v). n \<le> 32) (mi_pairs ds)"
  by (induction ds rule: mi_pairs.induct) simp_all

lemma mi_write_eq: "mi_write m = wdo (map (\<lambda>(n, v). writeField v n) (mi_fields m))"
proof (cases "mi_has_digits m \<and> mi_digits m \<noteq> []")
  case True
  then obtain c ds where "mi_digits m = c # ds" by (cases "mi_digits m") auto
  then show ?thesis using True by (auto simp: mi_write_def mi_fields_def mi_has_digits_def Let_def)
next
  case False
  then show ?thesis by (auto simp: mi_write_def mi_fields_def mi_has_digits_def mi_code_def Let_def)
qed

lemma mi_emits: "emits (mi_write m) (mi_wire m)"
  unfolding mi_write_eq mi_wire_def
  by (rule emits_map_fields) (simp add: mi_fields_def mi_pairs_widths)

lemma length_mi_wire: "mi_wf m \<Longrightarrow> length (mi_wire m) = 8 * mi_lengthV m"
proof -
  have pairs: "sum_list (map fst (mi_pairs ds)) = 8 * ((length ds + 1) div 2)" for ds
    by (induction ds rule: mi_pairs.induct) simp_all
  show "mi_wf m \<Longrightarrow> ?thesis"
    by (cases "mi_digits m"; cases "mi_type m")
      (simp_all add: mi_wire_def length_field_bits mi_fields_def mi_lengthV_def mi_has_digits_def pairs mi_wf_def)
qed

lemma digit_value_char:
  assumes "is_digit c"
  shows "digit_value c < 10" "digit_char (digit_value c) = c" "fits 4 (digit_value c)"
  using assms by (auto simp: is_digit_def digit_value_def digit_char_def fits_def char_of_def bit_0)

lemma accepts_digit_loop:
  assumes "list_all is_digit ds" "length acc + length ds \<le> (if odd (length ds) then 18 else 19)"
  shows "accepts (mi_digit_loop ((length ds + 1) div 2) acc) (field_bits (mi_pairs ds))
    (acc @ ds @ (if odd (length ds) then [digit_char 15] else []))"
  using assms
proof (induction ds arbitrary: acc rule: mi_pairs.induct)
  case 1
  then show ?case by (simp add: field_bits_simps accepts_return)
next
  case (2 c)
  then have "fits 4 (digit_value c)" "fits 4 15" using digit_value_char by (simp_all add: fits_def)
  then show ?case
    using 2 by (simp, intro field_rules) (simp_all add: digit_value_char)
next
  case (3 c d ds)
  then have "fits 4 (digit_value c)" "fits 4 (digit_value d)" using digit_value_char by simp_all
  moreover have "accepts (mi_digit_loop ((length ds + 1) div 2) (acc @ [c, d])) (field_bits (mi_pairs ds))
      ((acc @ [c, d]) @ ds @ (if odd (length ds) then [digit_char 15] else []))"
    by (rule "3.IH") (use 3 in \<open>auto split: if_splits\<close>)
  moreover have "length acc + 2 < 20" using "3.prems"(2) by (simp split: if_splits)
  ultimately have "accepts (rbind (readField 4) (\<lambda>nextDigit. rbind (readField 4) (\<lambda>currentDigit.
      mi_digit_loop ((length ds + 1) div 2)
        (if length acc + 2 < 20 then acc @ [digit_char currentDigit, digit_char nextDigit] else acc))))
      (field_bits ((4, digit_value d) # (4, digit_value c) # mi_pairs ds))
      ((acc @ [c, d]) @ ds @ (if odd (length ds) then [digit_char 15] else []))"
    using "3.prems"(1) by (intro accepts_fields_Cons) (simp_all add: digit_value_char)
  then show ?case by simp
qed

lemma odd_flag: "(of_nat n AND 1 :: u32) = of_bool (odd n)"
  by (simp add: and_one_eq mod2_eq_if flip: of_nat_mod)

lemma mi_accepts:
  assumes "mi_wf m"
  shows "accepts (mi_parse (mi_lengthV m)) (mi_wire m) m"
proof (cases "mi_has_digits m \<and> mi_digits m \<noteq> []")
  case True
  then obtain c ds where d: "mi_digits m = c # ds" by (cases "mi_digits m") auto
  have wf: "is_digit c" "list_all is_digit ds" "length ds \<le> 18" "mi_tmsi m = 0" and ty: "mi_type m \<noteq> MobID_TMSI"
    using assms True d by (auto simp: mi_wf_def mi_has_digits_def)
  have "1 + length ds \<le> (if odd (length ds) then 18 else 19)" using wf(3) by (cases "length ds = 18") auto
  then have loop: "accepts (mi_digit_loop ((length ds + 1) div 2) [c]) (field_bits (mi_pairs ds))
      ([c] @ ds @ (if odd (length ds) then [digit_char 15] else []))"
    using accepts_digit_loop [of ds "[c]"] wf(2) by simp
  have len: "size_sub (mi_lengthV m) 1 = (length ds + 1) div 2"
    using True d wf(3) ty by (auto simp: mi_lengthV_def mi_has_digits_def size_sub_def)
  let ?r = "\<lambda>ty odd ds'. \<lparr>mi_type = (if ty = (1 :: u32) then MobID_IMSI else if ty = 2 then MobID_IMEI else MobID_IMEISV),
    mi_digits = (if odd = (0 :: u32) \<and> ds' \<noteq> [] then butlast ds' else ds'), mi_tmsi = 0\<rparr>"
  have "accepts (rbind (mi_digit_loop ((length ds + 1) div 2) [c]) (\<lambda>ds'. rreturn (?r (mi_code (mi_type m)) (of_bool (even (length ds))) ds')))
      (field_bits (mi_pairs ds)) m"
    by (rule accepts_last [OF loop])
      (use True d wf(4) in \<open>cases m; auto simp: mi_code_def mi_has_digits_def butlast_append\<close>)
  moreover have "(1 + of_nat (length ds) AND 1 :: u32) = of_bool (even (length ds))"
    using odd_flag [of "Suc (length ds)"] by simp
  ultimately show ?thesis
    using True d wf digit_value_char [OF wf(1)] ty len
    by (auto simp: mi_parse_def mi_wire_def mi_fields_def mi_has_digits_def mi_code_def fits_def
        intro!: accepts_fields_Cons)
next
  case False
  then have "mi_digits m = []" using assms by (auto simp: mi_wf_def split: if_splits)
  moreover have "unat (mi_tmsi m) < 4294967296" using fits_32 [of "mi_tmsi m"] by (simp add: fits_def)
  moreover have "size_sub 1 1 = 0" by (simp add: size_sub_def)
  moreover have "accepts (rbind (rreturn []) f) (field_bits []) x" if "f [] = rreturn x" for f :: "string \<Rightarrow> L3MobileIdentity parser" and x
    using that by (simp add: rbind_def rreturn_def accepts_def field_bits_simps fun_eq_iff)
  ultimately show ?thesis
    using assms
    by (cases "mi_type m"; cases m)
      (auto simp: mi_parse_def mi_wire_def mi_fields_def mi_has_digits_def mi_code_def mi_wf_def mi_lengthV_def fits_def
        mi_none_def intro!: field_rules)
qed

section \<open>Classmarks\<close>

definition cm1_parse :: "L3MobileStationClassmark1 parser" where
  "cm1_parse =
     rbind (readField 1) (\<lambda>_. rbind (readField 2) (\<lambda>rev. rbind (readField 1) (\<lambda>es. rbind (readField 1) (\<lambda>a51.
     rbind (readField 3) (\<lambda>pwr.
     rreturn \<lparr>cm1_revisionLevel = rev, cm1_esInd = es, cm1_a5_1 = a51, cm1_rfPowerCapability = pwr\<rparr>)))))"

definition cm1_write :: "L3MobileStationClassmark1 \<Rightarrow> writer" where
  "cm1_write c = wdo
     [writeField 0 1, writeField (cm1_revisionLevel c) 2, writeField (cm1_esInd c) 1, writeField (cm1_a5_1 c) 1,
      writeField (cm1_rfPowerCapability c) 3]"

definition cm1_wf :: "L3MobileStationClassmark1 \<Rightarrow> bool" where
  "cm1_wf c \<longleftrightarrow> fits 2 (cm1_revisionLevel c) \<and> fits 1 (cm1_esInd c) \<and> fits 1 (cm1_a5_1 c) \<and> fits 3 (cm1_rfPowerCapability c)"

definition cm1_wire :: "L3MobileStationClassmark1 \<Rightarrow> bool list" where
  "cm1_wire c = field_bits
     [(1, 0), (2, cm1_revisionLevel c), (1, cm1_esInd c), (1, cm1_a5_1 c), (3, cm1_rfPowerCapability c)]"

interpretation cm1: ie_codec cm1_parse cm1_write cm1_wire cm1_wf
proof
  show "emits (cm1_write c) (cm1_wire c)" for c
    unfolding cm1_write_def cm1_wire_def by (intro field_rules) simp_all
  show "accepts cm1_parse (cm1_wire c) c" if "cm1_wf c" for c
    unfolding cm1_parse_def cm1_wire_def using that by (intro field_rules) (simp_all add: cm1_wf_def)
qed

record L3MobileStationClassmark2 =
  cm2_revisionLevel :: u32
  cm2_esInd :: u32
  cm2_a5_1 :: u32
  cm2_a5_3 :: u32
  cm2_a5_2 :: u32
  cm2_rfPowerCapability :: u32
  cm2_psCapability :: u32
  cm2_ssScreenIndicator :: u32
  cm2_smCapability :: u32
  cm2_vbs :: u32
  cm2_vgcs :: u32
  cm2_fc :: u32
  cm2_cm3 :: u32
  cm2_lcsvaCapability :: u32
  cm2_ucs2 :: u32
  cm2_soLSA :: u32
  cm2_cmsf :: u32
  cm2_extended :: bytes

definition cm2_parse :: "nat \<Rightarrow> L3MobileStationClassmark2 parser" where
  "cm2_parse len =
     (if len < 3 \<or> len > 7 then rfail InvalidValue ''classmark 2 length out of range''
      else
        rbind (readField 1) (\<lambda>_. rbind (readField 2) (\<lambda>rev. rbind (readField 1) (\<lambda>es. rbind (readField 1) (\<lambda>a51.
        rbind (readField 3) (\<lambda>pwr. rbind (readField 1) (\<lambda>_. rbind (readField 1) (\<lambda>ps. rbind (readField 2) (\<lambda>ss.
        rbind (readField 1) (\<lambda>sm. rbind (readField 1) (\<lambda>vbs. rbind (readField 1) (\<lambda>vgcs. rbind (readField 1) (\<lambda>fc.
        rbind (readField 1) (\<lambda>cm3. rbind (readField 1) (\<lambda>_. rbind (readField 1) (\<lambda>lcs. rbind (readField 1) (\<lambda>ucs2.
        rbind (readField 1) (\<lambda>solsa. rbind (readField 1) (\<lambda>cmsf. rbind (readField 1) (\<lambda>a53. rbind (readField 1) (\<lambda>a52.
        rbind (readOctets (len - 3)) (\<lambda>ext. rreturn
          \<lparr>cm2_revisionLevel = rev, cm2_esInd = es, cm2_a5_1 = a51, cm2_a5_3 = a53, cm2_a5_2 = a52,
           cm2_rfPowerCapability = pwr, cm2_psCapability = ps, cm2_ssScreenIndicator = ss, cm2_smCapability = sm,
           cm2_vbs = vbs, cm2_vgcs = vgcs, cm2_fc = fc, cm2_cm3 = cm3, cm2_lcsvaCapability = lcs, cm2_ucs2 = ucs2,
           cm2_soLSA = solsa, cm2_cmsf = cmsf, cm2_extended = ext\<rparr>))))))))))))))))))))))"

definition cm2_fields :: "L3MobileStationClassmark2 \<Rightarrow> (nat \<times> u32) list" where
  "cm2_fields c =
     [(1, 0), (2, cm2_revisionLevel c), (1, cm2_esInd c), (1, cm2_a5_1 c), (3, cm2_rfPowerCapability c), (1, 0),
      (1, cm2_psCapability c), (2, cm2_ssScreenIndicator c), (1, cm2_smCapability c), (1, cm2_vbs c), (1, cm2_vgcs c),
      (1, cm2_fc c), (1, cm2_cm3 c), (1, 0), (1, cm2_lcsvaCapability c), (1, cm2_ucs2 c), (1, cm2_soLSA c),
      (1, cm2_cmsf c), (1, cm2_a5_3 c), (1, cm2_a5_2 c)]"

definition cm2_write :: "L3MobileStationClassmark2 \<Rightarrow> writer" where
  "cm2_write c = wdo (map (\<lambda>(n, v). writeField v n) (cm2_fields c) @ [writeOctets (cm2_extended c)])"

definition cm2_lengthV :: "L3MobileStationClassmark2 \<Rightarrow> nat" where
  "cm2_lengthV c = 3 + length (cm2_extended c)"

definition cm2_getA5Bits :: "L3MobileStationClassmark2 \<Rightarrow> int" where
  "cm2_getA5Bits c =
     (let r0 = 0; r1 = (if cm2_a5_1 c \<noteq> 0 then r0 OR 1 else r0); r2 = (if cm2_a5_2 c \<noteq> 0 then r1 OR 2 else r1)
      in if cm2_a5_3 c \<noteq> 0 then r2 OR 4 else r2)"

definition cm2_wf :: "L3MobileStationClassmark2 \<Rightarrow> bool" where
  "cm2_wf c \<longleftrightarrow> list_all (\<lambda>(n, v). fits n v) (cm2_fields c) \<and> length (cm2_extended c) \<le> 4"

definition cm2_wire :: "L3MobileStationClassmark2 \<Rightarrow> bool list" where
  "cm2_wire c = field_bits (cm2_fields c) @ bits_of (cm2_extended c)"

lemma cm2_emits: "emits (cm2_write c) (cm2_wire c)"
  unfolding cm2_write_def cm2_wire_def
  by (intro emits_fields_then emits_map_fields emits_last emits_writeOctets) (simp add: cm2_fields_def)

lemma accepts_fields_Cons_then:
  "fits n v \<Longrightarrow> accepts (f v) (field_bits fs @ bs) y \<Longrightarrow> accepts (rbind (readField n) f) (field_bits ((n, v) # fs) @ bs) y"
  by (simp add: field_bits_simps accepts_field)

lemma accepts_fields_Nil_then: "accepts p bs y \<Longrightarrow> accepts p (field_bits [] @ bs) y"
  by (simp add: field_bits_simps)

lemma cm2_accepts: "cm2_wf c \<Longrightarrow> accepts (cm2_parse (cm2_lengthV c)) (cm2_wire c) c"
proof -
  assume wf: "cm2_wf c"
  then have guard: "\<not> (cm2_lengthV c < 3 \<or> cm2_lengthV c > 7)" by (simp add: cm2_wf_def cm2_lengthV_def)
  have ext: "accepts (readOctets (cm2_lengthV c - 3)) (bits_of (cm2_extended c)) (cm2_extended c)"
    by (rule accepts_readOctets) (simp add: cm2_lengthV_def)
  show ?thesis
    unfolding cm2_parse_def cm2_wire_def cm2_fields_def if_not_P [OF guard]
    using wf by (intro accepts_fields_Cons_then accepts_fields_Nil_then accepts_map [OF ext])
      (simp_all add: cm2_wf_def cm2_fields_def)
qed

lemma length_cm2_wire: "length (cm2_wire c) = 8 * cm2_lengthV c"
  by (simp add: cm2_wire_def length_field_bits cm2_fields_def cm2_lengthV_def)

end
