(* ===== verification/Mm_Elements.thy ===== *)
theory Mm_Elements
  imports Identity_Codec
begin

text \<open>
  The information elements of \<^verbatim>\<open>mm/l3mmelements.cpp\<close> and the GSM default alphabet of \<^verbatim>\<open>gsm_common.cpp\<close>.
\<close>

unbundle bit_operations_syntax

section \<open>The default alphabet\<close>

text \<open>The string literal of \<^verbatim>\<open>gGSMAlphabet\<close>, octet by octet.\<close>

definition gGSMAlphabet :: bytes where
  "gGSMAlphabet =
     [0x40, 0xA3, 0x24, 0xA5, 0xE8, 0xE9, 0xF9, 0xEC, 0xF2, 0xE7, 0x0A, 0xD8, 0xF8, 0x0D, 0xC5, 0xE5,
      0x44, 0x5F, 0x46, 0x47, 0x4C, 0x4F, 0x50, 0x43, 0x53, 0x54, 0x5A, 0x20, 0xC6, 0xE6, 0xDF, 0xC9,
      0x21, 0x22, 0x23, 0xA4, 0x25, 0x26, 0x27, 0x28, 0x29, 0x2A, 0x2B, 0x2C, 0x2D, 0x2E, 0x2F,
      0x30, 0x31, 0x32, 0x33, 0x34, 0x35, 0x36, 0x37, 0x38, 0x39, 0x3A, 0x3B, 0x3C, 0x3D, 0x3E, 0x3F, 0xA1,
      0x41, 0x42, 0x43, 0x44, 0x45, 0x46, 0x47, 0x48, 0x49, 0x4A, 0x4B, 0x4C, 0x4D, 0x4E, 0x4F, 0x50, 0x51, 0x52, 0x53,
      0x54, 0x55, 0x56, 0x57, 0x58, 0x59, 0x5A, 0xC4, 0xD6, 0xD1, 0xDC, 0xA7, 0xBF,
      0x61, 0x62, 0x63, 0x64, 0x65, 0x66, 0x67, 0x68, 0x69, 0x6A, 0x6B, 0x6C, 0x6D, 0x6E, 0x6F, 0x70, 0x71, 0x72, 0x73,
      0x74, 0x75, 0x76, 0x77, 0x78, 0x79, 0x7A, 0xE4, 0xF6, 0xF1, 0xFC, 0xE1]"

definition kGsm7TableSize :: nat where
  "kGsm7TableSize = 127"

definition encodeGSMChar :: "u8 \<Rightarrow> u8" where
  "encodeGSMChar ascii =
     (case List.find (\<lambda>i. gGSMAlphabet ! i = ascii) [0..<kGsm7TableSize] of Some i \<Rightarrow> of_nat i | None \<Rightarrow> 0x20)"

definition decodeGSMChar :: "u8 \<Rightarrow> u8" where
  "decodeGSMChar c = (if unat c \<ge> kGsm7TableSize then 0x20 else gGSMAlphabet ! unat c)"

lemma alphabet_size: "length gGSMAlphabet = kGsm7TableSize"
  by (simp add: gGSMAlphabet_def kGsm7TableSize_def)

lemma encode_index:
  assumes "c \<in> set gGSMAlphabet"
  obtains i where "encodeGSMChar c = of_nat i" "i < 127" "gGSMAlphabet ! i = c" "unat (encodeGSMChar c) = i"
proof -
  obtain j where j: "j < kGsm7TableSize" "gGSMAlphabet ! j = c" using assms by (auto simp: in_set_conv_nth alphabet_size)
  then obtain i where i: "List.find (\<lambda>i. gGSMAlphabet ! i = c) [0..<kGsm7TableSize] = Some i"
    by (cases "List.find (\<lambda>i. gGSMAlphabet ! i = c) [0..<kGsm7TableSize]") (auto simp: find_upt_None)
  then have "i < 127" "gGSMAlphabet ! i = c" by (auto simp: find_upt_Some kGsm7TableSize_def)
  then show ?thesis using i that by (simp add: encodeGSMChar_def unat_of_nat)
qed

lemma decode_encode: "c \<in> set gGSMAlphabet \<Longrightarrow> decodeGSMChar (encodeGSMChar c) = c"
  by (erule encode_index) (simp add: decodeGSMChar_def kGsm7TableSize_def)

lemma encode_7bit: "c \<in> set gGSMAlphabet \<Longrightarrow> unat (encodeGSMChar c) < 128"
  by (erule encode_index) simp

section \<open>Bits in reverse\<close>

definition reverseBits8 :: "u8 \<Rightarrow> u8" where
  "reverseBits8 b0 = fst (fold (\<lambda>_ (r, b). (push_bit 1 r OR (b AND 1), drop_bit 1 b)) [0..<8] (0, b0))"

lemma reverseBits8_eq: "bit (reverseBits8 b) k = (k < 8 \<and> bit b (7 - k))"
proof (cases "k < 8")
  case True
  have "[0..<8] = [0, 1, 2, 3, 4, 5, 6, 7 :: nat]" by (simp add: upt_rec)
  then show ?thesis
    using True unfolding less_8_iff by (elim disjE) (simp_all add: reverseBits8_def octet_bits)
qed (auto dest: bit_imp_le_length)

section \<open>Small elements\<close>

type_synonym L3CMServiceType = CMServiceTypeCode

definition cst_parse :: "L3CMServiceType parser" where
  "cst_parse = rbind (readField 4) (\<lambda>v. rreturn (ucast v))"

definition cst_write :: "L3CMServiceType \<Rightarrow> writer" where
  "cst_write t = wdo [writeField (ucast t) 4]"

definition cst_wire :: "L3CMServiceType \<Rightarrow> bool list" where
  "cst_wire t = field_bits [(4, ucast t)]"

interpretation cst: ie_codec cst_parse cst_write cst_wire "\<lambda>t. unat t < 16"
proof
  show "emits (cst_write t) (cst_wire t)" for t
    unfolding cst_write_def cst_wire_def by (intro field_rules) simp
  show "accepts cst_parse (cst_wire t) t" if "unat t < 16" for t
    unfolding cst_parse_def cst_wire_def using that by (intro field_rules) (simp_all add: fits_narrow)
qed

text \<open>The reject cause is an enumeration over an octet.\<close>

definition cause_parse :: "MMRejectCause parser" where
  "cause_parse = rbind (readField 8) (\<lambda>v. rreturn (ucast v))"

definition cause_write :: "MMRejectCause \<Rightarrow> writer" where
  "cause_write c = wdo [writeField (ucast c) 8]"

definition cause_wire :: "MMRejectCause \<Rightarrow> bool list" where
  "cause_wire c = field_bits [(8, ucast c)]"

interpretation cause: ie_codec cause_parse cause_write cause_wire "\<lambda>_. True"
proof
  show "emits (cause_write c) (cause_wire c)" for c
    unfolding cause_write_def cause_wire_def by (intro field_rules) simp
  show "accepts cause_parse (cause_wire c) c" if True for c
    unfolding cause_parse_def cause_wire_def by (intro field_rules) simp_all
qed

definition rand_parse :: "bytes parser" where
  "rand_parse = readOctets 16"

definition rand_write :: "bytes \<Rightarrow> writer" where
  "rand_write r = writeOctets r"

interpretation rand: ie_codec rand_parse rand_write bits_of "\<lambda>r. length r = 16"
  by unfold_locales (simp_all add: rand_write_def rand_parse_def emits_writeOctets accepts_readOctets)

definition sres_parse :: "u32 parser" where
  "sres_parse = rbind (readField 32) (\<lambda>v. rreturn v)"

definition sres_write :: "u32 \<Rightarrow> writer" where
  "sres_write v = wdo [writeField v 32]"

interpretation sres: ie_codec sres_parse sres_write "\<lambda>v. field_bits [(32, v)]" "\<lambda>_. True"
proof
  show "emits (sres_write v) (field_bits [(32, v)])" for v
    unfolding sres_write_def by (intro field_rules) simp
  show "accepts sres_parse (field_bits [(32, v)]) v" if True for v
    unfolding sres_parse_def by (intro field_rules) simp_all
qed

section \<open>Time zone and time\<close>

datatype TimeType = LOCAL_TIME | UTC_TIME

record L3TimeZoneAndTime =
  tz_year :: u8
  tz_month :: u8
  tz_day :: u8
  tz_hour :: u8
  tz_minute :: u8
  tz_second :: u8
  tz_timezone :: u8
  tz_type :: TimeType

definition tz_default :: L3TimeZoneAndTime where
  "tz_default = \<lparr>tz_year = 0, tz_month = 1, tz_day = 1, tz_hour = 0, tz_minute = 0, tz_second = 0, tz_timezone = 0,
     tz_type = UTC_TIME\<rparr>"

definition bcd_octet :: "u8 parser" where
  "bcd_octet = rbind (readField 4) (\<lambda>lo. rbind (readField 4) (\<lambda>hi. rreturn (ucast (lo + hi * 10))))"

definition tz_parse :: "L3TimeZoneAndTime parser" where
  "tz_parse =
     rbind bcd_octet (\<lambda>year. rbind bcd_octet (\<lambda>month. rbind bcd_octet (\<lambda>day. rbind bcd_octet (\<lambda>hour.
     rbind bcd_octet (\<lambda>minute. rbind bcd_octet (\<lambda>second.
     rbind (readField 4) (\<lambda>lo. rbind (readField 1) (\<lambda>sign. rbind (readField 3) (\<lambda>hi.
     rreturn (let tz = lo + hi * 10; tz' = (if sign \<noteq> 0 then (tz OR 0x80) AND 0xFF else tz)
       in \<lparr>tz_year = year, tz_month = month, tz_day = day, tz_hour = hour, tz_minute = minute, tz_second = second,
           tz_timezone = ucast tz', tz_type = UTC_TIME\<rparr>))))))))))"

definition bcd_fields :: "u8 \<Rightarrow> (nat \<times> u32) list" where
  "bcd_fields b = [(4, ucast b mod 10), (4, ucast b div 10)]"

definition tz_fields :: "L3TimeZoneAndTime \<Rightarrow> (nat \<times> u32) list" where
  "tz_fields t =
     (let tz = ucast (tz_timezone t) :: u32; sign = (if tz \<ge> 0x80 then 1 else 0); tz' = (if tz \<ge> 0x80 then tz XOR 0x80 else tz)
      in bcd_fields (tz_year t) @ bcd_fields (tz_month t) @ bcd_fields (tz_day t) @ bcd_fields (tz_hour t) @
         bcd_fields (tz_minute t) @ bcd_fields (tz_second t) @ [(4, tz' mod 10), (1, sign), (3, tz' div 10)])"

definition tz_write :: "L3TimeZoneAndTime \<Rightarrow> writer" where
  "tz_write t = wdo (map (\<lambda>(n, v). writeField v n) (tz_fields t))"

definition tz_wire :: "L3TimeZoneAndTime \<Rightarrow> bool list" where
  "tz_wire t = field_bits (tz_fields t)"

definition tz_lengthV :: nat where
  "tz_lengthV = 7"

text \<open>
  Two decimal digits of four bits reach 159, the time zone with three bits for the high digit 79; the kind of time is not
  transmitted.
\<close>

definition tz_wf :: "L3TimeZoneAndTime \<Rightarrow> bool" where
  "tz_wf t \<longleftrightarrow> list_all (\<lambda>b. b < 160) [tz_year t, tz_month t, tz_day t, tz_hour t, tz_minute t, tz_second t] \<and>
     tz_timezone t AND 0x7F < 80 \<and> tz_type t = UTC_TIME"

lemma bcd_accepts:
  assumes "b < 160"
  shows "accepts bcd_octet (field_bits (bcd_fields b)) b"
proof -
  let ?w = "ucast b :: u32"
  have u: "unat ?w = unat b" by (simp add: unat_widen)
  have "unat (?w mod 10) < 10" "unat (?w div 10) < 16"
    using assms by (simp_all add: unat_mod unat_div u word_less_nat_alt)
  then have "fits 4 (?w mod 10)" "fits 4 (?w div 10)" by (simp_all add: fits_def)
  moreover have "?w mod 10 + ?w div 10 * 10 = ?w" by (rule mod_div_mult_eq)
  ultimately show ?thesis unfolding bcd_octet_def bcd_fields_def by (intro field_rules) simp_all
qed

lemma accepts_bcd_then:
  "b < 160 \<Longrightarrow> accepts (f b) (field_bits gs) y \<Longrightarrow> accepts (rbind bcd_octet f) (field_bits (bcd_fields b @ gs)) y"
  unfolding field_bits_append by (rule accepts_bind [OF bcd_accepts])

lemma sign_bit: "(0x80 :: u32) \<le> ucast (w :: u8) \<longleftrightarrow> bit w 7"
proof -
  have "unat w < 256" using unsigned_less [of w, where ?'a = nat] by simp
  moreover have "bit w 7 \<longleftrightarrow> odd (unat w div 128)"
    using bit_unsigned_iff [of w 7, where ?'a = nat] by (simp add: bit_iff_odd)
  moreover have "odd n \<longleftrightarrow> 0 < n" if "n < 2" for n :: nat using that by (auto simp: less_2_cases_iff)
  ultimately have "bit w 7 \<longleftrightarrow> 0 < unat w div 128" by (simp add: less_mult_imp_div_less)
  then show ?thesis by (simp add: word_le_nat_alt unat_widen div_greater_zero_iff)
qed

lemma seven_bits: "(0x7F :: u8) = mask 7" "(0xFF :: u32) = mask 8"
  by (simp_all add: mask_eq_exp_minus_1)

lemma bit_0x80: "bit (0x80 :: u32) n \<longleftrightarrow> n = 7" "bit (0x80 :: int) n \<longleftrightarrow> n = 7" "bit (0x80 :: nat) n \<longleftrightarrow> n = 7"
  using bit_exp_iff [of 7 n, where ?'a = "32 word"] bit_exp_iff [of 7 n, where ?'a = int] bit_exp_iff [of 7 n, where ?'a = nat]
  by auto

lemma bit_8_cases: "bit (w :: u8) n \<Longrightarrow> n < 7 \<or> n = 7"
  using bit_imp_le_length [of w n] by auto

lemma sign_split:
  "bit w 7 \<Longrightarrow> ucast w XOR 0x80 = (ucast (w AND 0x7F :: u8) :: u32)"
  "\<not> bit w 7 \<Longrightarrow> w AND 0x7F = w"
  "bit w 7 \<Longrightarrow> ucast ((ucast (w AND 0x7F) OR 0x80 :: u32) AND 0xFF) = w"
proof -
  show "ucast w XOR 0x80 = (ucast (w AND 0x7F :: u8) :: u32)" if "bit w 7"
    unfolding seven_bits using that by (intro bit_word_eqI) (auto simp: bit_simps bit_0x80 dest: bit_8_cases)
  show "w AND 0x7F = w" if "\<not> bit w 7"
    unfolding seven_bits using that by (intro bit_word_eqI) (auto simp: bit_simps bit_0x80 dest: bit_8_cases)
  show "ucast ((ucast (w AND 0x7F) OR 0x80 :: u32) AND 0xFF) = w" if "bit w 7"
    unfolding seven_bits using that by (intro bit_word_eqI) (auto simp: bit_simps bit_0x80 dest: bit_8_cases)
qed

lemma tz_accepts:
  assumes "tz_wf t"
  shows "accepts tz_parse (tz_wire t) t"
proof -
  define w where "w = tz_timezone t"
  define low where "low = (ucast (w AND 0x7F) :: u32)"
  define sign where "sign = (of_bool (bit w 7) :: u32)"
  have fields: "tz_fields t = bcd_fields (tz_year t) @ bcd_fields (tz_month t) @ bcd_fields (tz_day t) @ bcd_fields (tz_hour t) @
      bcd_fields (tz_minute t) @ bcd_fields (tz_second t) @ [(4, low mod 10), (1, sign), (3, low div 10)]"
    by (simp add: tz_fields_def Let_def sign_bit low_def sign_def w_def sign_split)
  have "unat low < 80" using assms by (simp add: tz_wf_def low_def unat_widen w_def word_less_nat_alt)
  then have "fits 4 (low mod 10)" "fits 3 (low div 10)" "fits 1 sign"
    by (simp_all add: fits_def unat_mod unat_div sign_def)
  moreover have "low mod 10 + low div 10 * 10 = low" by (rule mod_div_mult_eq)
  moreover have "ucast (if sign \<noteq> 0 then (low OR 0x80) AND 0xFF else low) = w"
    using sign_split [of w] by (simp add: low_def sign_def)
  ultimately show ?thesis
    unfolding tz_parse_def tz_wire_def fields
    using assms by (intro accepts_bcd_then field_rules) (simp_all add: tz_wf_def Let_def w_def)
qed

interpretation tz: ie_codec tz_parse tz_write tz_wire tz_wf
proof
  show "emits (tz_write t) (tz_wire t)" for t
    unfolding tz_write_def tz_wire_def by (rule emits_map_fields) (simp add: tz_fields_def bcd_fields_def Let_def)
qed (rule tz_accepts)

end
