(* ===== verification/Network_Name.thy ===== *)
theory Network_Name
  imports Mm_Elements
begin

text \<open>
  The network name of \<^verbatim>\<open>mm/l3mmelements.cpp\<close>: characters of the default alphabet packed seven bits each, least significant
  bit first, or two octets a character.
\<close>

unbundle bit_operations_syntax

section \<open>Name and packing\<close>

datatype GSMAlphabet = ALPHABET_7BIT | ALPHABET_8BIT | ALPHABET_UCS2

text \<open>The name is a zero-terminated array of at most 93 characters.\<close>

record L3NetworkName =
  nn_alphabet :: GSMAlphabet
  nn_name :: bytes
  nn_ci :: u32

definition nn_maxLen :: nat where
  "nn_maxLen = 93"

definition nn_default :: L3NetworkName where
  "nn_default = \<lparr>nn_alphabet = ALPHABET_7BIT, nn_name = [], nn_ci = 0\<rparr>"

definition nn_lengthV :: "L3NetworkName \<Rightarrow> nat" where
  "nn_lengthV n =
     (let nlen = length (nn_name n); ci = (if nn_ci n \<noteq> 0 then 2 else 0)
      in case nn_alphabet n of
           ALPHABET_7BIT \<Rightarrow> 1 + (nlen * 7 + 7) div 8 + ci
         | ALPHABET_UCS2 \<Rightarrow> 1 + nlen * 2 + ci
         | ALPHABET_8BIT \<Rightarrow> 1 + nlen + ci)"

text \<open>The two loops that pack seven bits a character, least significant bit first.\<close>

definition pack_bit :: "u8 \<Rightarrow> nat \<Rightarrow> bytes \<times> nat \<Rightarrow> bytes \<times> nat" where
  "pack_bit gsmChar i st =
     (let (buffer, bitPos) = st; b = drop_bit i gsmChar AND 1; byteIdx = bitPos div 8; bitIdx = bitPos mod 8
      in (if byteIdx < length buffer then buffer[byteIdx := buffer ! byteIdx OR push_bit bitIdx b] else buffer, bitPos + 1))"

definition pack_chars :: "bytes \<Rightarrow> nat \<Rightarrow> bytes" where
  "pack_chars name nameBytes =
     fst (fold (\<lambda>c st. fold (\<lambda>i. pack_bit (encodeGSMChar c) i) [0..<7] st) name (replicate nameBytes 0, 0))"

definition nn_write :: "L3NetworkName \<Rightarrow> writer" where
  "nn_write n =
     (let sz = length (nn_name n); ci = (if nn_ci n \<noteq> 0 then 1 else 0);
          tail = (if nn_ci n \<noteq> 0 then [writeField (nn_ci n) 16] else [])
      in if nn_alphabet n = ALPHABET_UCS2
      then wdo ([writeField 1 1, writeField 1 3, writeField ci 1, writeField 0 3] @
                map (\<lambda>c. writeField (scast c) 16) (nn_name n) @ tail)
      else let nameBits = sz * 7; nameBytes = (nameBits + 7) div 8; spareBits = nameBytes * 8 - nameBits;
               buffer = map reverseBits8 (pack_chars (nn_name n) nameBytes)
      in wdo ([writeField 1 1, writeField 0 3, writeField ci 1, writeField (of_nat spareBits) 3, writeOctets buffer] @ tail))"

definition unpack_char :: "bytes \<Rightarrow> nat \<Rightarrow> u8" where
  "unpack_char buffer bitPos =
     fold (\<lambda>i val. let p = bitPos + i
        in if p div 8 < length buffer then val OR push_bit i (drop_bit (p mod 8) (buffer ! (p div 8)) AND 1) else val)
       [0..<7] 0"

definition unpack_chars :: "bytes \<Rightarrow> nat \<Rightarrow> bytes" where
  "unpack_chars buffer numChars = map (\<lambda>i. decodeGSMChar (unpack_char buffer (7 * i))) [0..<min numChars nn_maxLen]"

lemma bit_and_one: "bit (drop_bit i c AND 1 :: u8) j \<longleftrightarrow> j = 0 \<and> bit c i"
  by (auto simp: bit_simps)

lemma bit_pushed: "bit (push_bit k (drop_bit i c AND 1 :: u8)) j \<longleftrightarrow> j < 8 \<and> j = k \<and> bit c i"
  by (auto simp: bit_push_bit_iff bit_and_one simp del: push_bit_and)

text \<open>The state of the packing loops: the bits before the position are those of the stream, all others are clear.\<close>

definition packed :: "(nat \<Rightarrow> bool) \<Rightarrow> bytes \<times> nat \<Rightarrow> bool" where
  "packed g st \<longleftrightarrow> (case st of (buf, pos) \<Rightarrow>
     (\<forall>p < 8 * length buf. bit (buf ! (p div 8)) (p mod 8) = (p < pos \<and> g p)))"

lemma same_index: "p div 8 = q div 8 \<Longrightarrow> p mod 8 = q mod 8 \<Longrightarrow> p = (q :: nat)"
  by (metis mult_div_mod_eq)

lemma pack_bit_packed:
  assumes "packed g (buf, pos)" "bit c i = g pos" "pos < 8 * length buf"
  shows "packed g (pack_bit c i (buf, pos))" "snd (pack_bit c i (buf, pos)) = pos + 1"
    "length (fst (pack_bit c i (buf, pos))) = length buf"
proof -
  have idx: "pos div 8 < length buf" using assms(3) by (simp add: less_mult_imp_div_less mult.commute)
  show "packed g (pack_bit c i (buf, pos))" unfolding packed_def
  proof (simp add: pack_bit_def Let_def idx del: push_bit_and, intro allI impI)
    fix p assume p: "p < 8 * length buf"
    have old: "bit (buf ! (p div 8)) (p mod 8) = (p < pos \<and> g p)" using assms(1) p by (simp add: packed_def)
    show "bit (buf[pos div 8 := buf ! (pos div 8) OR push_bit (pos mod 8) (drop_bit i c AND 1)] ! (p div 8)) (p mod 8) =
        (p < Suc pos \<and> g p)"
    proof (cases "p div 8 = pos div 8")
      case True
      then have "bit (buf ! (pos div 8)) (p mod 8) = (p < pos \<and> g p)" using old by simp
      moreover have "p mod 8 = pos mod 8 \<longleftrightarrow> p = pos" using same_index [OF True] by auto
      ultimately show ?thesis using True idx assms(2) by (auto simp: bit_or_iff bit_pushed less_Suc_eq simp del: push_bit_and)
    next
      case False
      then have "p \<noteq> pos" by auto
      then show ?thesis using False old by (auto simp: less_Suc_eq)
    qed
  qed
qed (simp_all add: pack_bit_def Let_def)

lemma pack_char_packed:
  assumes "packed g (buf, pos)" "\<And>i. i < n \<Longrightarrow> bit c i = g (pos + i)" "pos + n \<le> 8 * length buf"
  shows "\<exists>buf1. fold (\<lambda>i. pack_bit c i) [0..<n] (buf, pos) = (buf1, pos + n) \<and> packed g (buf1, pos + n) \<and>
    length buf1 = length buf"
  using assms(2,3)
proof (induction n)
  case (Suc n)
  then obtain buf1 where b: "fold (\<lambda>i. pack_bit c i) [0..<n] (buf, pos) = (buf1, pos + n)" "packed g (buf1, pos + n)"
    "length buf1 = length buf" by auto
  then show ?case
    using pack_bit_packed [OF b(2), of c n] Suc.prems by (cases "pack_bit c n (buf1, pos + n)") simp
qed (simp add: assms(1))

lemma pack_chars_bits:
  assumes "7 * length name \<le> 8 * nb" "p < 8 * nb"
  shows "length (pack_chars name nb) = nb"
    "bit (pack_chars name nb ! (p div 8)) (p mod 8) \<longleftrightarrow> p < 7 * length name \<and> bit (encodeGSMChar (name ! (p div 7))) (p mod 7)"
proof -
  let ?g = "\<lambda>p. bit (encodeGSMChar (name ! (p div 7))) (p mod 7)"
  let ?f = "\<lambda>c st. fold (\<lambda>i. pack_bit (encodeGSMChar c) i) [0..<7] st"
  have "\<exists>buf1. fold ?f (take k name) (replicate nb 0, 0) = (buf1, 7 * k) \<and> packed ?g (buf1, 7 * k) \<and> length buf1 = nb"
    if "k \<le> length name" for k
    using that
  proof (induction k)
    case 0
    then show ?case by (simp add: packed_def less_mult_imp_div_less mult.commute)
  next
    case (Suc k)
    then obtain buf1 where b: "fold ?f (take k name) (replicate nb 0, 0) = (buf1, 7 * k)" "packed ?g (buf1, 7 * k)"
      "length buf1 = nb" by auto
    obtain buf2 where "fold (\<lambda>i. pack_bit (encodeGSMChar (name ! k)) i) [0..<7] (buf1, 7 * k) = (buf2, 7 * k + 7)"
      "packed ?g (buf2, 7 * k + 7)" "length buf2 = nb"
      using pack_char_packed [OF b(2), of 7 "encodeGSMChar (name ! k)"] Suc.prems assms(1) b(3) by auto
    then show ?case using Suc.prems b(1) by (simp add: take_Suc_conv_app_nth add.commute)
  qed
  from this [of "length name"] obtain buf1 where "pack_chars name nb = buf1" "packed ?g (buf1, 7 * length name)" "length buf1 = nb"
    by (auto simp: pack_chars_def)
  then show "length (pack_chars name nb) = nb"
    "bit (pack_chars name nb ! (p div 8)) (p mod 8) \<longleftrightarrow> p < 7 * length name \<and> ?g p"
    using assms(2) by (simp_all add: packed_def)
qed

lemma length_pack_chars: "length (pack_chars name nb) = nb"
proof -
  have bits: "length (fst (fold (\<lambda>i. pack_bit c i) js st)) = length (fst st)" for c js st
    by (induction js arbitrary: st) (simp_all add: pack_bit_def Let_def split: prod.split)
  have "length (fst (fold (\<lambda>c st. fold (\<lambda>i. pack_bit (encodeGSMChar c) i) [0..<7] st) name st)) = length (fst st)" for st
    by (induction name arbitrary: st) (simp_all add: bits del: upt_rec_numeral)
  then show ?thesis by (simp add: pack_chars_def)
qed

lemma unpack_char_bits:
  assumes "pos + 7 \<le> 8 * length buf"
  shows "bit (unpack_char buf pos) j \<longleftrightarrow> j < 7 \<and> bit (buf ! ((pos + j) div 8)) ((pos + j) mod 8)"
proof -
  let ?f = "\<lambda>i val. let p = pos + i
    in if p div 8 < length buf then val OR push_bit i (drop_bit (p mod 8) (buf ! (p div 8)) AND 1) else val"
  have "bit (fold ?f [0..<n] 0) j \<longleftrightarrow> j < n \<and> bit (buf ! ((pos + j) div 8)) ((pos + j) mod 8)" if "n \<le> 7" for n
    using that
  proof (induction n)
    case (Suc n)
    have "(pos + n) div 8 < length buf" using Suc.prems assms by (simp add: less_mult_imp_div_less mult.commute)
    then show ?case using Suc by (auto simp: Let_def bit_or_iff bit_pushed less_Suc_eq simp del: push_bit_and)
  qed simp
  then show ?thesis unfolding unpack_char_def by simp
qed

lemma unpack_pack:
  assumes "set name \<subseteq> set gGSMAlphabet" "7 * length name \<le> 8 * nb" "length name \<le> nn_maxLen"
  shows "unpack_chars (pack_chars name nb) (length name) = name"
proof (rule nth_equalityI)
  fix i assume "i < length (unpack_chars (pack_chars name nb) (length name))"
  then have i: "i < length name" by (simp add: unpack_chars_def)
  let ?buf = "pack_chars name nb" and ?c = "encodeGSMChar (name ! i)"
  have len: "length ?buf = nb" using pack_chars_bits(1) [OF assms(2), of 0] i assms(2) by simp
  have c: "name ! i \<in> set gGSMAlphabet" using assms(1) i by auto
  have fit: "7 * i + 7 \<le> 8 * nb" using i assms(2) by linarith
  have "unpack_char ?buf (7 * i) = ?c"
  proof (rule bit_word_eqI)
    fix j
    have "take_bit 7 (unat ?c) = unat ?c" using encode_7bit [OF c] by (simp add: take_bit_nat_eq_self)
    then have "bit (unat ?c) j \<Longrightarrow> j < 7" by (metis bit_take_bit_iff)
    then have "bit ?c j \<Longrightarrow> j < 7" by (simp add: bit_unsigned_iff)
    moreover have "j < 7 \<Longrightarrow> (7 * i + j) div 7 = i \<and> (7 * i + j) mod 7 = j \<and> 7 * i + j < 7 * length name"
      using i by simp
    ultimately show "bit (unpack_char ?buf (7 * i)) j = bit ?c j"
      using unpack_char_bits [of "7 * i" ?buf j] pack_chars_bits(2) [OF assms(2), of "7 * i + j"] fit len assms(2) by auto
  qed
  then show "unpack_chars ?buf (length name) ! i = name ! i"
    using i assms(3) decode_encode [OF c] by (simp add: unpack_chars_def)
qed (use assms(3) in \<open>simp add: unpack_chars_def\<close>)


text \<open>
  The size of the buffer the seven-bit branch of the parser allocates. The two subtractions are unsigned: a length octet
  of 0, or of 1 or 2 with the country initials flag, makes the size wrap.
\<close>

definition nn_nameBytes :: "nat \<Rightarrow> u32 \<Rightarrow> nat" where
  "nn_nameBytes expectedLength ciFlag = size_sub (size_sub expectedLength 1) (if ciFlag \<noteq> 0 then 2 else 0)"

fun readUcs2 :: "nat \<Rightarrow> bytes parser" where
  "readUcs2 0 = rreturn []"
| "readUcs2 (Suc n) = rbind (readField 16) (\<lambda>v. rbind (readUcs2 n) (\<lambda>cs. rreturn (ucast v # cs)))"

definition nn_parse_ci :: "u32 \<Rightarrow> u32 parser" where
  "nn_parse_ci ciFlag = rbind (rget hasMore) (\<lambda>m. if ciFlag \<noteq> 0 \<and> m then readField 16 else rreturn ciFlag)"

definition nn_body :: "nat \<Rightarrow> u32 \<Rightarrow> u32 \<Rightarrow> u32 \<Rightarrow> L3NetworkName parser" where
  "nn_body expectedLength coding ciFlag spareBits =
     (if coding = 1
      then rbind (readUcs2 (min (nn_nameBytes expectedLength ciFlag div 2) nn_maxLen)) (\<lambda>cs. rbind (nn_parse_ci ciFlag) (\<lambda>ci.
        rreturn \<lparr>nn_alphabet = ALPHABET_UCS2, nn_name = takeWhile ((\<noteq>) 0) cs, nn_ci = ci\<rparr>))
      else let nameBytes = nn_nameBytes expectedLength ciFlag
      in if nameBytes = 0 then rreturn \<lparr>nn_alphabet = ALPHABET_7BIT, nn_name = [], nn_ci = ciFlag\<rparr>
      else rbind (readOctets nameBytes) (\<lambda>raw.
        let numChars = size_sub (nameBytes * 8) (unat spareBits) div 7;
            name = unpack_chars (map reverseBits8 raw) numChars
        in rbind (nn_parse_ci ciFlag) (\<lambda>ci.
           rreturn \<lparr>nn_alphabet = ALPHABET_7BIT, nn_name = name, nn_ci = ci\<rparr>)))"

definition nn_parse :: "nat \<Rightarrow> L3NetworkName parser" where
  "nn_parse expectedLength =
     rbind (readField 1) (\<lambda>ext. rbind (readField 3) (\<lambda>coding. rbind (readField 1) (\<lambda>ciFlag. rbind (readField 3) (\<lambda>spareBits.
     nn_body expectedLength coding ciFlag spareBits))))"

text \<open>
  The name is transmitted faithfully when its characters are in the alphabet and the country initials, if any, come with
  a name.
\<close>

definition nn_wf :: "L3NetworkName \<Rightarrow> bool" where
  "nn_wf n \<longleftrightarrow> length (nn_name n) \<le> nn_maxLen \<and> fits 16 (nn_ci n) \<and>
     (case nn_alphabet n of
        ALPHABET_7BIT \<Rightarrow> list_all (\<lambda>c. c \<in> set gGSMAlphabet) (nn_name n) \<and> (nn_name n = [] \<longrightarrow> nn_ci n = 0)
      | ALPHABET_UCS2 \<Rightarrow> list_all (\<lambda>c. c \<noteq> 0) (nn_name n)
      | ALPHABET_8BIT \<Rightarrow> False)"

definition nn_nameBytes_of :: "L3NetworkName \<Rightarrow> nat" where
  "nn_nameBytes_of n = (length (nn_name n) * 7 + 7) div 8"

definition nn_ci_bits :: "L3NetworkName \<Rightarrow> bool list" where
  "nn_ci_bits n = (if nn_ci n \<noteq> 0 then nbits 16 (nn_ci n) else [])"

definition nn_wire :: "L3NetworkName \<Rightarrow> bool list" where
  "nn_wire n =
     (let ci = (if nn_ci n \<noteq> 0 then 1 else 0)
      in if nn_alphabet n = ALPHABET_UCS2
      then field_bits [(1, 1), (3, 1), (1, ci), (3, 0)] @ field_bits (map (\<lambda>c. (16, scast c)) (nn_name n)) @ nn_ci_bits n
      else field_bits [(1, 1), (3, 0), (1, ci), (3, of_nat (nn_nameBytes_of n * 8 - length (nn_name n) * 7))] @
        bits_of (map reverseBits8 (pack_chars (nn_name n) (nn_nameBytes_of n))) @ nn_ci_bits n)"

lemma nn_emits: "emits (nn_write n) (nn_wire n)"
proof -
  have tail: "emits (wdo (if nn_ci n \<noteq> 0 then [writeField (nn_ci n) 16] else [])) (nn_ci_bits n)"
    by (simp add: nn_ci_bits_def emits_last emits_writeField emits_wdo_Nil)
  have chars: "emits (wdo (map (\<lambda>c. writeField (scast c) 16) (nn_name n))) (field_bits (map (\<lambda>c. (16, scast c)) (nn_name n)))"
    using emits_map_fields [of "map (\<lambda>c. (16, scast c)) (nn_name n)"] by (simp add: comp_def list_all_iff)
  have oct: "emits (wdo ([writeOctets buf] @ us)) (bits_of buf @ bs)" if "emits (wdo us) bs" for buf us bs
    using emits_wdo_Cons [OF emits_writeOctets that] by simp
  show ?thesis
  proof (cases "nn_alphabet n = ALPHABET_UCS2")
    case True
    then show ?thesis
      unfolding nn_write_def nn_wire_def Let_def if_P [OF True]
      by (intro emits_wdo_append chars tail field_rules) simp_all
  next
    case False
    have "emits (wdo ([writeField 1 1, writeField 0 3, writeField (if nn_ci n \<noteq> 0 then 1 else 0) 1,
        writeField (of_nat (nn_nameBytes_of n * 8 - length (nn_name n) * 7)) 3] @
        [writeOctets (map reverseBits8 (pack_chars (nn_name n) (nn_nameBytes_of n)))] @
        (if nn_ci n \<noteq> 0 then [writeField (nn_ci n) 16] else []))) (nn_wire n)"
      unfolding nn_wire_def Let_def if_not_P [OF False]
      by (intro emits_wdo_append [OF _ oct [OF tail]] field_rules) simp_all
    then show ?thesis using False by (simp add: nn_write_def Let_def nn_nameBytes_of_def)
  qed
qed

lemma length_nn_wire: "nn_wf n \<Longrightarrow> length (nn_wire n) = 8 * nn_lengthV n"
  by (cases "nn_alphabet n")
    (auto simp: nn_wf_def nn_wire_def nn_lengthV_def length_field_bits nn_ci_bits_def nn_nameBytes_of_def Let_def
      comp_def sum_list_triv length_pack_chars)

lemma nameBytes_bounds:
  "7 * length (nn_name n) \<le> 8 * nn_nameBytes_of n" "nn_nameBytes_of n * 8 - length (nn_name n) * 7 < 8"
  by (simp_all add: nn_nameBytes_of_def)

lemma accepts_parse_ci:
  assumes "fits 16 (nn_ci n)"
  shows "accepts (nn_parse_ci (if nn_ci n \<noteq> 0 then 1 else 0)) (nn_ci_bits n) (nn_ci n)"
  unfolding accepts_def
proof (intro allI impI)
  fix br rest assume br: "br_ok br" "upcoming br = nn_ci_bits n @ rest"
  show "\<exists>br1. nn_parse_ci (if nn_ci n \<noteq> 0 then 1 else 0) br = (Inr (nn_ci n), br1) \<and> br_ok br1 \<and> upcoming br1 = rest"
  proof (cases "nn_ci n = 0")
    case True
    then show ?thesis using br by (simp add: nn_parse_ci_def rbind_def rget_def rreturn_def nn_ci_bits_def)
  next
    case False
    then have up: "upcoming br = nbits 16 (nn_ci n) @ rest" using br(2) by (simp add: nn_ci_bits_def)
    then have "hasMore br" using br(1) by (auto simp: hasMore_upcoming nbits_def)
    moreover obtain br1 where "readField 16 br = (Inr (nn_ci n), br1)" "br_ok br1" "upcoming br1 = rest"
      by (rule acceptsD [OF accepts_readField [OF assms] br(1) up])
    ultimately show ?thesis using False by (simp add: nn_parse_ci_def rbind_def rget_def)
  qed
qed

lemma nbits_take_bit: "nbits n (take_bit n v) = nbits n v"
  by (auto simp: nbits_def bit_take_bit_iff)

lemma accepts_field_low:
  assumes "n \<le> 32" "accepts (f (take_bit n v)) bs y"
  shows "accepts (rbind (readField n) f) (nbits n v @ bs) y"
proof -
  have "unat (take_bit n v) < 2 ^ n" by (simp only: unsigned_take_bit_eq take_bit_nat_less_exp)
  then have "fits n (take_bit n v)" using assms(1) by (simp add: fits_def)
  from accepts_field [where f = f, OF this assms(2)] show ?thesis by (simp add: nbits_take_bit)
qed

lemma ucs2_char: "ucast (take_bit 16 (scast c :: u32)) = (c :: u8)"
  by (rule bit_word_eqI) (auto simp: bit_simps min_def dest: bit_8_cases le_antisym [of 7])

lemma accepts_readUcs2: "accepts (readUcs2 (length cs)) (field_bits (map (\<lambda>c. (16, scast c)) cs)) cs"
proof (induction cs)
  case Nil
  then show ?case by (simp add: field_bits_simps accepts_return)
next
  case (Cons c cs)
  show ?case
    by (simp add: field_bits_simps) (rule accepts_field_low, simp, rule accepts_map [OF Cons], simp add: ucs2_char)
qed

definition nn_flag :: "L3NetworkName \<Rightarrow> u32" where
  "nn_flag n = (if nn_ci n \<noteq> 0 then 1 else 0)"

lemma nn_nameBytes_eq:
  "nn_wf n \<Longrightarrow> nn_nameBytes (nn_lengthV n) (nn_flag n) =
     (if nn_alphabet n = ALPHABET_UCS2 then 2 * length (nn_name n) else nn_nameBytes_of n)"
  by (cases "nn_alphabet n")
    (auto simp: nn_wf_def nn_nameBytes_def nn_lengthV_def size_sub_def nn_nameBytes_of_def nn_maxLen_def nn_flag_def Let_def)

lemma nn_accepts_ucs2:
  assumes "nn_wf n" "nn_alphabet n = ALPHABET_UCS2"
  shows "accepts (nn_body (nn_lengthV n) 1 (nn_flag n) 0) (field_bits (map (\<lambda>c. (16, scast c)) (nn_name n)) @ nn_ci_bits n) n"
proof -
  have wf: "length (nn_name n) \<le> nn_maxLen" "fits 16 (nn_ci n)" "list_all (\<lambda>c. c \<noteq> 0) (nn_name n)"
    using assms by (simp_all add: nn_wf_def)
  have cnt: "min (nn_nameBytes (nn_lengthV n) (nn_flag n) div 2) nn_maxLen = length (nn_name n)"
    using wf(1) by (simp add: nn_nameBytes_eq [OF assms(1)] assms(2))
  have "takeWhile ((\<noteq>) 0) (nn_name n) = nn_name n" using wf(3) by (auto simp: takeWhile_eq_all_conv list_all_iff)
  then show ?thesis
    unfolding nn_body_def cnt if_P [OF refl]
    using assms(2) by (intro accepts_bind [OF accepts_readUcs2] accepts_map [OF accepts_parse_ci [OF wf(2), folded nn_flag_def]])
      simp
qed

lemma nn_accepts_7bit:
  assumes "nn_wf n" "nn_alphabet n = ALPHABET_7BIT"
  shows "accepts (nn_body (nn_lengthV n) 0 (nn_flag n) (of_nat (nn_nameBytes_of n * 8 - length (nn_name n) * 7)))
    (bits_of (map reverseBits8 (pack_chars (nn_name n) (nn_nameBytes_of n))) @ nn_ci_bits n) n"
proof -
  have wf: "length (nn_name n) \<le> nn_maxLen" "fits 16 (nn_ci n)" "set (nn_name n) \<subseteq> set gGSMAlphabet"
    "nn_name n = [] \<longrightarrow> nn_ci n = 0"
    using assms by (auto simp: nn_wf_def list_all_iff)
  let ?nb = "nn_nameBytes_of n" and ?spare = "nn_nameBytes_of n * 8 - length (nn_name n) * 7"
  have nb: "nn_nameBytes (nn_lengthV n) (nn_flag n) = ?nb" using nn_nameBytes_eq [OF assms(1)] assms(2) by simp
  have spare: "unat (of_nat ?spare :: u32) = ?spare" using nameBytes_bounds(2) [of n] by (simp add: unat_of_nat)
  have num: "size_sub (?nb * 8) (unat (of_nat ?spare :: u32)) div 7 = length (nn_name n)"
    using wf(1) nameBytes_bounds [of n] unfolding spare
    by (subst size_sub_le) (auto simp: nn_nameBytes_of_def nn_maxLen_def)
  let ?raw = "map reverseBits8 (pack_chars (nn_name n) ?nb)"
  have raw: "accepts (readOctets ?nb) (bits_of ?raw) ?raw" by (rule accepts_readOctets) (simp add: length_pack_chars)
  have "map reverseBits8 ?raw = pack_chars (nn_name n) ?nb"
    by (auto simp: comp_def reverseBits8_eq intro!: map_idI bit_word_eqI dest: bit_imp_le_length)
  then have name: "unpack_chars (map reverseBits8 ?raw) (length (nn_name n)) = nn_name n"
    using unpack_pack [OF wf(3) nameBytes_bounds(1) wf(1)] by simp
  show ?thesis
  proof (cases "nn_name n = []")
    case True
    then have z: "?nb = 0" "nn_ci n = 0" "nn_flag n = nn_ci n" using wf(4) by (simp_all add: nn_nameBytes_of_def nn_flag_def)
    then have "nn_body (nn_lengthV n) 0 (nn_flag n) v = rreturn n" for v
      unfolding nn_body_def Let_def nb using True assms(2) by (cases n) simp
    then show ?thesis using z by (simp add: nn_ci_bits_def pack_chars_def True accepts_return)
  next
    case False
    then have "?nb \<noteq> 0" by (cases "nn_name n") (simp_all add: nn_nameBytes_of_def)
    then show ?thesis
      unfolding nn_body_def Let_def nb if_not_P [OF zero_neq_one] num if_not_P
      using assms(2) name
      by (simp only: if_False) (intro accepts_bind [OF raw] accepts_map [OF accepts_parse_ci [OF wf(2), folded nn_flag_def]]; simp)
  qed
qed

lemma nn_accepts:
  assumes "nn_wf n"
  shows "accepts (nn_parse (nn_lengthV n)) (nn_wire n) n"
proof -
  have f: "fits 1 (nn_flag n)" "fits 3 (of_nat (nn_nameBytes_of n * 8 - length (nn_name n) * 7))"
    using nameBytes_bounds(2) [of n] by (simp_all add: nn_flag_def fits_def unat_of_nat)
  show ?thesis
  proof (cases "nn_alphabet n = ALPHABET_UCS2")
    case True
    then show ?thesis
      unfolding nn_parse_def nn_wire_def nn_flag_def [symmetric] Let_def if_P [OF True]
      using f by (intro accepts_fields_Cons_then accepts_fields_Nil_then nn_accepts_ucs2 [OF assms True]) simp_all
  next
    case False
    then have "nn_alphabet n = ALPHABET_7BIT" using assms by (cases "nn_alphabet n") (simp_all add: nn_wf_def)
    then show ?thesis
      unfolding nn_parse_def nn_wire_def nn_flag_def [symmetric] Let_def if_not_P [OF False]
      using f by (intro accepts_fields_Cons_then accepts_fields_Nil_then nn_accepts_7bit [OF assms]) simp_all
  qed
qed

end
