(* ===== verification/L3_Framing.thy ===== *)
theory L3_Framing
  imports Bit_Writer L3_Header
begin

text \<open>
  Frames of layer 3: the entry points of \<^verbatim>\<open>parser.cpp\<close> that take a message apart into header and body and put it together
  again. The parsers of the thirteen domains behind \<^verbatim>\<open>parseStandardBody\<close> and the two length-framed messages are arguments
  here; \<open>domain_codec\<close> is the contract of a domain, from which a frame round trip follows whatever the others do.
\<close>

unbundle bit_operations_syntax

section \<open>Header\<close>

definition pd_code :: "L3PD \<Rightarrow> u8" where
  "pd_code p = (case p of
      GroupCallControl \<Rightarrow> 0x00 | BroadcastCallControl \<Rightarrow> 0x01 | CallControl \<Rightarrow> 0x03 | MobilityManagement \<Rightarrow> 0x05
    | RadioResource \<Rightarrow> 0x06 | GPRSMobilityManagement \<Rightarrow> 0x08 | PD_SMS \<Rightarrow> 0x09 | GPRSSessionManagement \<Rightarrow> 0x0A
    | NonCallSS \<Rightarrow> 0x0B | PD_Location \<Rightarrow> 0x0C | PacketDomainSupplementaryServices1 \<Rightarrow> 0x0D
    | PacketDomainSupplementaryServices2 \<Rightarrow> 0x0E | TestProcedure \<Rightarrow> 0x0F | PD_Undefined \<Rightarrow> 0xFF | PD_unnamed n \<Rightarrow> of_nat n)"

definition encodeL3Header :: "L3PD \<Rightarrow> int \<Rightarrow> u32 \<Rightarrow> bool \<Rightarrow> bytes" where
  "encodeL3Header p mti ti tif =
     (let octet1 =
        (if mti \<ge> kRRTifShortBase \<and> mti < kRRTifShortBase + 16 \<and> p = RadioResource then word_of_int (mti AND 0x1F)
         else if p = MobilityManagement \<or> p = CallControl \<or> p = NonCallSS \<or> p = BroadcastCallControl \<or> p = GroupCallControl
         then word_of_int (mti AND 0x3F)
         else word_of_int (mti AND 0xFF))
      in [ucast (push_bit 5 (ti AND 0x07) OR (if tif then 0x10 else 0) OR ucast (pd_code p AND 0x0F)), octet1])"

section \<open>Writing\<close>

text \<open>The synthetic message types from 0x181 on carry no header.\<close>

definition isNoHeaderShort :: "int \<Rightarrow> bool" where
  "isNoHeaderShort mti \<longleftrightarrow> mti \<ge> 0x181"

definition writeL3Body :: "L3PD \<Rightarrow> int \<Rightarrow> u32 \<Rightarrow> nat \<Rightarrow> writer \<Rightarrow> bytes \<Rightarrow> nat Expected \<times> bytes" where
  "writeL3Body p mti ti bodyLen wr out =
     (let maxlen = length out
      in if isNoHeaderShort mti
      then if bodyLen > maxlen then (perr BufferTooSmall ''output buffer too small'', out)
           else (Inr bodyLen, bw_buf (wr (mkBitWriter (take bodyLen out) (bodyLen * 8))) @ drop bodyLen out)
      else let tif = (mti \<ge> kRRTifShortBase \<and> mti < kRRTifShortBase + 16); totalLen = 2 + bodyLen
           in if totalLen > maxlen then (perr BufferTooSmall ''output buffer too small'', out)
           else (Inr totalLen,
                 encodeL3Header p mti ti tif @ bw_buf (wr (mkBitWriter (take bodyLen (drop 2 out)) (bodyLen * 8))) @
                 drop totalLen out))"

definition wireLength :: "int \<Rightarrow> nat \<Rightarrow> nat" where
  "wireLength mti bodyLen = (if isNoHeaderShort mti then bodyLen else 2 + bodyLen)"

definition writeL3Bytes :: "L3PD \<Rightarrow> int \<Rightarrow> u32 \<Rightarrow> nat \<Rightarrow> writer \<Rightarrow> bytes Expected" where
  "writeL3Bytes p mti ti bodyLen wr =
     (case writeL3Body p mti ti bodyLen wr (replicate (wireLength mti bodyLen) 0) of
        (Inl e, _) \<Rightarrow> Inl e
      | (Inr n, buf) \<Rightarrow> Inr (take n buf))"

definition hexDigits :: string where
  "hexDigits = ''0123456789abcdef''"

definition bytes_to_hex :: "bytes \<Rightarrow> string" where
  "bytes_to_hex bs = concat (map (\<lambda>b. [hexDigits ! unat (drop_bit 4 b), hexDigits ! unat (b AND 0x0F)]) bs)"

definition writeL3Hex :: "L3PD \<Rightarrow> int \<Rightarrow> u32 \<Rightarrow> nat \<Rightarrow> writer \<Rightarrow> string Expected" where
  "writeL3Hex p mti ti bodyLen wr =
     (case writeL3Body p mti ti bodyLen wr (replicate (wireLength mti bodyLen) 0) of
        (Inl e, _) \<Rightarrow> Inl e
      | (Inr n, buf) \<Rightarrow> Inr (bytes_to_hex (take n buf)))"

section \<open>Parsing\<close>

definition parseL3_standard :: "(L3Header \<Rightarrow> 'p parser) \<Rightarrow> bool \<Rightarrow> bytes \<Rightarrow> 'p Expected" where
  "parseL3_standard parseBody requireFullConsumption data =
     (case parseL3Header data of
        Inl e \<Rightarrow> Inl e
      | Inr hdr \<Rightarrow>
          (case parseBody hdr (mkBitReader (Some (drop 2 data)) ((length data - 2) * 8)) of
             (Inl e, _) \<Rightarrow> Inl e
           | (Inr m, reader) \<Rightarrow>
               if requireFullConsumption \<and> remainingBits reader \<noteq> 0
               then perr LengthMismatch ''trailing data after L3 message'' else Inr m))"

text \<open>
  A frame of one octet is a Channel Request. In a frame of four octets a Handover Access is tried first for the two group
  call discriminators, and otherwise when the standard parse does not consume the frame exactly.
\<close>

definition parseL3 ::
  "(L3Header \<Rightarrow> 'p parser) \<Rightarrow> 'p parser \<Rightarrow> 'p parser \<Rightarrow> bool \<Rightarrow> bytes \<Rightarrow> 'p Expected" where
  "parseL3 parseBody channelRequest handoverAccess requireFullConsumption data =
     (if data = [] then perr TruncatedInput ''Empty input''
      else if length data = 1 then fst (channelRequest (mkBitReader (Some data) 8))
      else let std = parseL3_standard parseBody requireFullConsumption data;
               short = (case fst (handoverAccess (mkBitReader (Some data) 32)) of Inr m \<Rightarrow> Inr m | Inl _ \<Rightarrow> std)
      in if length data \<noteq> 4 then std
      else let pdNibble = data ! 0 AND 0x0F
      in if pdNibble = pd_code BroadcastCallControl \<or> pdNibble = pd_code GroupCallControl then short
      else (case parseL3Header data of
              Inl _ \<Rightarrow> short
            | Inr hdr \<Rightarrow>
                (case parseBody hdr (mkBitReader (Some (drop 2 data)) ((length data - 2) * 8)) of
                   (Inl _, _) \<Rightarrow> short
                 | (Inr m, reader) \<Rightarrow> if remainingBits reader = 0 then Inr m else short)))"

definition hex_val :: "char \<Rightarrow> nat" where
  "hex_val c =
     (let n = of_char c :: nat
      in if 48 \<le> n \<and> n \<le> 57 then n - 48 else if 97 \<le> n \<and> n \<le> 102 then n - 97 + 10
      else if 65 \<le> n \<and> n \<le> 70 then n - 65 + 10 else 255)"

definition decodeHexPair :: "char \<Rightarrow> char \<Rightarrow> u8 option" where
  "decodeHexPair c d =
     (let hi = hex_val c; lo = hex_val d in if hi > 15 \<or> lo > 15 then None else Some (of_nat (hi * 16 + lo)))"

fun decodeHex :: "string \<Rightarrow> bytes option" where
  "decodeHex (c # d # r) =
     (case decodeHexPair c d of None \<Rightarrow> None | Some b \<Rightarrow> (case decodeHex r of None \<Rightarrow> None | Some bs \<Rightarrow> Some (b # bs)))"
| "decodeHex _ = Some []"

definition is_blank :: "char \<Rightarrow> bool" where
  "is_blank c \<longleftrightarrow> of_char c \<in> {32, 9, 13, 10 :: nat}"

definition parseL3Hex ::
  "(L3Header \<Rightarrow> 'p parser) \<Rightarrow> 'p parser \<Rightarrow> 'p parser \<Rightarrow> bool \<Rightarrow> string \<Rightarrow> 'p Expected" where
  "parseL3Hex parseBody channelRequest handoverAccess requireFullConsumption hex =
     (let cleaned = filter (\<lambda>c. \<not> is_blank c) hex
      in if cleaned = [] then perr TruncatedInput ''Empty input''
      else if length cleaned mod 2 \<noteq> 0 then perr InvalidValue ''Odd-length hex string''
      else case decodeHex cleaned of
             None \<Rightarrow> perr InvalidValue ''Invalid hex character''
           | Some bs \<Rightarrow> parseL3 parseBody channelRequest handoverAccess requireFullConsumption bs)"

section \<open>Header round trip\<close>

definition header_ok :: "L3PD \<Rightarrow> int \<Rightarrow> u32 \<Rightarrow> bool \<Rightarrow> bool" where
  "header_ok p mti ti tif \<longleftrightarrow> fits 3 ti \<and> (\<forall>n. p \<noteq> PD_unnamed n) \<and> p \<noteq> PD_Undefined \<and>
     (if p = RadioResource \<and> tif then kRRTifShortBase \<le> mti \<and> mti < kRRTifShortBase + 16
      else 0 \<le> mti \<and> mti < (if p \<in> {MobilityManagement, CallControl, NonCallSS, BroadcastCallControl, GroupCallControl} then 64
        else if p = PD_SMS then 32 else 256))"

lemma L3PD_of_pd_code:
  "(\<forall>n. p \<noteq> PD_unnamed n) \<Longrightarrow> p \<noteq> PD_Undefined \<Longrightarrow>
     L3PD_of_nibble (pd_code p) = p \<and> pd_code p AND 0x0F = pd_code p \<and> pd_code p \<notin> {0x02, 0x04, 0x07}"
  by (cases p) (simp_all add: pd_code_def L3PD_of_nibble_def)

lemma octet0_parts:
  fixes ti :: u32 and x :: u8 and tif :: bool
  defines "w \<equiv> ucast (push_bit 5 (ti AND 0x07) OR (if tif then 0x10 else 0) OR ucast (x AND 0x0F)) :: u8"
  shows "w AND 0x0F = x AND 0x0F" "drop_bit 4 w AND 0x01 \<noteq> 0 \<longleftrightarrow> tif" "drop_bit 5 w AND 0x07 = ucast (ti AND 0x07)"
  unfolding w_def by (cases tif; simp add: octet_bits)+

lemma int_and_mask: "0 \<le> m \<Longrightarrow> m < 2 ^ n \<Longrightarrow> m AND mask n = (m :: int)"
  by (simp add: take_bit_eq_mask [symmetric] take_bit_int_eq_self)

lemma uint_masked:
  assumes "0 \<le> m" "m < 2 ^ n" "n \<le> 8"
  shows "uint (word_of_int m AND mask n :: u8) = m" "uint (word_of_int m :: u8) = m"
proof -
  have "m < 2 ^ 8" using assms power_increasing [of n 8 "2 :: int"] by simp
  then have u: "uint (word_of_int m :: u8) = m" using assms(1) by (simp add: uint_word_of_int_eq take_bit_int_eq_self)
  have "uint (take_bit n (word_of_int m :: u8)) = take_bit n (uint (word_of_int m :: u8))"
    by (rule unsigned_take_bit_eq)
  then show "uint (word_of_int m AND mask n :: u8) = m"
    using assms(1,2) u by (simp add: take_bit_eq_mask [symmetric] take_bit_int_eq_self)
  show "uint (word_of_int m :: u8) = m" by (rule u)
qed

lemma mask_values: "(0x3F :: int) = mask 6" "(0x1F :: int) = mask 5" "(0xFF :: int) = mask 8"
  "(0x3F :: u8) = mask 6" "(0x1F :: u8) = mask 5" "(0xFF :: u8) = mask 8"
  by (simp_all add: mask_eq_exp_minus_1)

lemma header_octet1:
  assumes "header_ok p mti ti tif"
  shows "header_mti p tif
    (if mti \<ge> kRRTifShortBase \<and> mti < kRRTifShortBase + 16 \<and> p = RadioResource then word_of_int (mti AND 0x1F)
     else if p = MobilityManagement \<or> p = CallControl \<or> p = NonCallSS \<or> p = BroadcastCallControl \<or> p = GroupCallControl
     then word_of_int (mti AND 0x3F)
     else word_of_int (mti AND 0xFF)) = mti"
proof (cases "p = RadioResource \<and> tif")
  case True
  define k where "k = mti - 0x100"
  have k: "0 \<le> k" "k < 16" "mti = 0x100 + k" using assms True by (simp_all add: header_ok_def kRRTifShortBase_def k_def)
  have "mti AND mask 5 = take_bit 5 (0x100 + k)" by (simp add: k(3) take_bit_eq_mask)
  also have "\<dots> = k" using k(1,2) mod_mult_self2 [of k 32 8] by (simp add: take_bit_eq_mod add.commute)
  finally have "mti AND mask 5 = k" .
  moreover have "uint (word_of_int k AND mask 5 :: u8) = k" using k by (intro uint_masked) simp_all
  ultimately show ?thesis
    using True k short_mti [of k] by (simp add: header_mti_def kRRTifShortBase_def mask_values)
next
  case False
  then have m: "0 \<le> mti" "mti < 256" using assms by (auto simp: header_ok_def split: if_splits)
  have short: "\<not> (mti \<ge> kRRTifShortBase \<and> mti < kRRTifShortBase + 16 \<and> p = RadioResource)"
    using m by (simp add: kRRTifShortBase_def)
  consider "p \<in> {MobilityManagement, CallControl, NonCallSS, BroadcastCallControl, GroupCallControl}" "mti < 64"
    | "p = PD_SMS" "mti < 32"
    | "p \<notin> {MobilityManagement, CallControl, NonCallSS, BroadcastCallControl, GroupCallControl, PD_SMS}"
    using assms False by (auto simp: header_ok_def split: if_splits)
  then show ?thesis
  proof cases
    case 1
    have "mti AND mask 6 = mti" using m 1(2) by (intro int_and_mask) simp_all
    then show ?thesis
      unfolding if_not_P [OF short] using 1 m uint_masked(1) [of mti 6] by (auto simp: header_mti_def mask_values)
  next
    case 2
    have "mti AND mask 8 = mti" using m by (intro int_and_mask) simp_all
    then show ?thesis
      unfolding if_not_P [OF short] using 2 m uint_masked(1) [of mti 5] by (auto simp: header_mti_def mask_values)
  next
    case 3
    have "mti AND mask 8 = mti" using m by (intro int_and_mask) simp_all
    then show ?thesis
      unfolding if_not_P [OF short] using 3 m False uint_masked(2) [of mti 8] by (auto simp: header_mti_def mask_values)
  qed
qed

lemma header_round_trip:
  assumes "header_ok p mti ti tif"
  shows "parseL3Header (encodeL3Header p mti ti tif @ xs) = Inr \<lparr>hd_pd = p, hd_mti = mti, hd_ti = unat ti, hd_tif = tif\<rparr>"
proof -
  let ?w = "ucast (push_bit 5 (ti AND 0x07) OR (if tif then 0x10 else 0) OR ucast (pd_code p AND 0x0F)) :: u8"
  have p: "L3PD_of_nibble (pd_code p) = p" "pd_code p AND 0x0F = pd_code p" "pd_code p \<notin> {0x02, 0x04, 0x07}"
    using L3PD_of_pd_code [of p] assms by (simp_all add: header_ok_def)
  have w: "?w AND 0x0F = pd_code p" "drop_bit 4 ?w AND 0x01 \<noteq> 0 \<longleftrightarrow> tif" "drop_bit 5 ?w AND 0x07 = ucast (ti AND 0x07)"
    using octet0_parts [of ti tif "pd_code p"] p(2) by simp_all
  have "fits 3 ti" using assms by (simp add: header_ok_def)
  then have ti: "ti AND 0x07 = ti" using fits_take_bit [of 3 ti] by (simp add: take_bit_eq_mask mask_eq_exp_minus_1)
  have tiv: "unat (ucast ti :: u8) = unat ti"
    using \<open>fits 3 ti\<close> by (simp add: fits_def unsigned_ucast_eq take_bit_nat_eq_self)
  obtain o1 where enc: "encodeL3Header p mti ti tif = [?w, o1]" and mti: "header_mti p tif o1 = mti"
    using that header_octet1 [OF assms] by (auto simp: encodeL3Header_def Let_def)
  show ?thesis
    using w p mti by (simp add: parseL3Header_def enc Let_def ti tiv)
qed

section \<open>Hexadecimal text\<close>

lemma hex_digit:
  assumes "n < 16"
  shows "hex_val (hexDigits ! n) = n" "\<not> is_blank (hexDigits ! n)"
proof -
  have "n \<in> {0, 1, 2, 3, 4, 5, 6, 7, 8, 9, 10, 11, 12, 13, 14, 15}" using assms by (auto simp: numeral_eq_Suc less_Suc_eq)
  then show "hex_val (hexDigits ! n) = n" "\<not> is_blank (hexDigits ! n)"
    by (auto simp: hexDigits_def hex_val_def is_blank_def)
qed

lemma nibble_bounds: "unat (drop_bit 4 b) < 16" "unat (b AND 0x0F :: u8) < 16" "unat (drop_bit 4 b) * 16 + unat (b AND 0x0F) = unat b"
proof -
  have "b AND 0x0F = take_bit 4 b" by (simp add: take_bit_eq_mask mask_eq_exp_minus_1)
  then have lo: "unat (b AND 0x0F) = unat b mod 16" by (simp only: unsigned_take_bit_eq) (simp add: take_bit_eq_mod)
  have "unat (drop_bit 4 b) = drop_bit 4 (take_bit 8 (unat b))" by (simp only: unsigned_drop_bit_eq) simp
  moreover have "unat b < 256" using unsigned_less [of b, where ?'a = nat] by simp
  ultimately have hi: "unat (drop_bit 4 b) = unat b div 16" by (simp add: drop_bit_eq_div take_bit_nat_eq_self)
  show "unat (drop_bit 4 b) < 16" "unat (b AND 0x0F) < 16" "unat (drop_bit 4 b) * 16 + unat (b AND 0x0F) = unat b"
    using \<open>unat b < 256\<close> unfolding hi lo by (simp_all add: less_mult_imp_div_less)
qed

lemma decodeHex_bytes: "decodeHex (bytes_to_hex bs) = Some bs"
proof (induction bs)
  case (Cons b bs)
  have "decodeHexPair (hexDigits ! unat (drop_bit 4 b)) (hexDigits ! unat (b AND 0x0F)) = Some b"
    using nibble_bounds [of b] by (simp add: decodeHexPair_def Let_def hex_digit flip: of_nat_mult of_nat_add)
  then show ?case using Cons by (simp add: bytes_to_hex_def)
qed (simp add: bytes_to_hex_def)

lemma hex_clean: "filter (\<lambda>c. \<not> is_blank c) (bytes_to_hex bs) = bytes_to_hex bs" "length (bytes_to_hex bs) = 2 * length bs"
  by (induction bs) (simp_all add: bytes_to_hex_def hex_digit nibble_bounds)

lemma parseL3Hex_bytes:
  assumes "bs \<noteq> []"
  shows "parseL3Hex parseBody channelRequest handoverAccess req (bytes_to_hex bs) =
    parseL3 parseBody channelRequest handoverAccess req bs"
proof -
  have "bytes_to_hex bs \<noteq> []" using assms by (metis hex_clean(2) length_0_conv mult_eq_0_iff zero_neq_numeral)
  then show ?thesis by (simp add: parseL3Hex_def Let_def hex_clean decodeHex_bytes)
qed

section \<open>The contract of a domain\<close>

locale domain_codec =
  fixes p :: L3PD
    and mti :: "'m \<Rightarrow> int" and ti :: "'m \<Rightarrow> u32" and bodyLength :: "'m \<Rightarrow> nat"
    and dec :: "int \<Rightarrow> u32 \<Rightarrow> 'm parser" and enc :: "'m \<Rightarrow> writer"
    and wire :: "'m \<Rightarrow> bool list" and wf :: "'m \<Rightarrow> bool"
  assumes body_emits: "emits (enc m) (wire m)"
    and body_decodes: "wf m \<Longrightarrow> decodes (dec (mti m) (ti m)) (wire m) m"
    and body_length: "wf m \<Longrightarrow> length (wire m) = 8 * bodyLength m"
    and body_small: "wf m \<Longrightarrow> bodyLength m < 2 ^ 31"
    and header_fits: "wf m \<Longrightarrow> mti m < kRRTifShortBase \<and> header_ok p (mti m) (ti m) False"
    and unambiguous: "wf m \<Longrightarrow> bodyLength m = 2 \<Longrightarrow> p \<noteq> BroadcastCallControl \<and> p \<noteq> GroupCallControl"
begin

lemma body_octets:
  assumes "wf m" "length buf = bodyLength m"
  shows "bits_of (bw_buf (enc m (mkBitWriter buf (bodyLength m * 8)))) = wire m"
    and "length (bw_buf (enc m (mkBitWriter buf (bodyLength m * 8)))) = bodyLength m"
proof -
  have "bw_ok (mkBitWriter buf (bodyLength m * 8))" using assms(2) by (simp add: bw_ok_def mkBitWriter_def)
  then have "emitted (wire m) (mkBitWriter buf (bodyLength m * 8)) (enc m (mkBitWriter buf (bodyLength m * 8)))"
    using body_emits by (simp add: emits_def)
  then show "bits_of (bw_buf (enc m (mkBitWriter buf (bodyLength m * 8)))) = wire m"
    and "length (bw_buf (enc m (mkBitWriter buf (bodyLength m * 8)))) = bodyLength m"
    using body_length [OF assms(1)] assms(2) by (simp_all add: emitted_def mkBitWriter_def Let_def)
qed

lemma frame_written:
  assumes "wf m"
  obtains body where "writeL3Bytes p (mti m) (ti m) (bodyLength m) (enc m) = Inr (encodeL3Header p (mti m) (ti m) False @ body)"
    "bits_of body = wire m" "length body = bodyLength m"
    "writeL3Hex p (mti m) (ti m) (bodyLength m) (enc m) = Inr (bytes_to_hex (encodeL3Header p (mti m) (ti m) False @ body))"
proof -
  have short: "\<not> isNoHeaderShort (mti m)" "\<not> (mti m \<ge> kRRTifShortBase)"
    using header_fits [OF assms] by (auto simp: isNoHeaderShort_def kRRTifShortBase_def)
  let ?body = "bw_buf (enc m (mkBitWriter (replicate (bodyLength m) 0) (bodyLength m * 8)))"
  have len: "length (encodeL3Header p (mti m) (ti m) False) = 2" by (simp add: encodeL3Header_def Let_def)
  have b: "bits_of ?body = wire m" "length ?body = bodyLength m" by (rule body_octets [OF assms]; simp)+
  show ?thesis
    by (rule that [of ?body]) (use short len b in \<open>simp_all add: writeL3Bytes_def writeL3Hex_def writeL3Body_def wireLength_def Let_def\<close>)
qed

lemma body_parsed:
  assumes "wf m" "bits_of body = wire m" "length body = bodyLength m"
  obtains br1 where "dec (mti m) (ti m) (mkBitReader (Some body) (length body * 8)) = (Inr m, br1)" "remainingBits br1 = 0"
proof -
  have "br_ok (mkBitReader (Some body) (length body * 8))"
    using body_small [OF assms(1)] assms(3) by (simp add: br_ok_def mkBitReader_def)
  moreover have "upcoming (mkBitReader (Some body) (length body * 8)) = wire m"
    using assms(2) length_bits_of [of body] by (simp add: upcoming_def mkBitReader_def)
  ultimately obtain br1 where 1: "dec (mti m) (ti m) (mkBitReader (Some body) (length body * 8)) = (Inr m, br1)"
    "br_ok br1" "upcoming br1 = []"
    by (rule decodesD [OF body_decodes [OF assms(1)]])
  then have "br_totalBits br1 - br_pos br1 = 0" "br_pos br1 \<le> br_totalBits br1" "br_totalBits br1 < 2 ^ 64"
    using length_upcoming [of br1] by (auto simp: br_ok_def)
  then have "remainingBits br1 = 0" by (simp add: remainingBits_def size_sub_le)
  then show ?thesis using 1(1) that by blast
qed

lemma frame_round_trip:
  assumes "wf m" and route: "\<And>hdr. hd_pd hdr = p \<Longrightarrow> parseBody hdr = rbind (dec (hd_mti hdr) (of_nat (hd_ti hdr))) (\<lambda>m. rreturn (mk m))"
  shows "\<exists>frame. writeL3Bytes p (mti m) (ti m) (bodyLength m) (enc m) = Inr frame \<and>
    length frame = wireLength (mti m) (bodyLength m) \<and> frame \<noteq> [] \<and>
    writeL3Hex p (mti m) (ti m) (bodyLength m) (enc m) = Inr (bytes_to_hex frame) \<and>
    parseL3 parseBody channelRequest handoverAccess req frame = Inr (mk m)"
proof -
  obtain body where body: "writeL3Bytes p (mti m) (ti m) (bodyLength m) (enc m) = Inr (encodeL3Header p (mti m) (ti m) False @ body)"
    "bits_of body = wire m" "length body = bodyLength m"
    "writeL3Hex p (mti m) (ti m) (bodyLength m) (enc m) = Inr (bytes_to_hex (encodeL3Header p (mti m) (ti m) False @ body))"
    by (rule frame_written [OF assms(1)])
  let ?frame = "encodeL3Header p (mti m) (ti m) False @ body"
  have ok: "header_ok p (mti m) (ti m) False" using header_fits [OF assms(1)] by simp
  have hdr: "parseL3Header ?frame = Inr \<lparr>hd_pd = p, hd_mti = mti m, hd_ti = unat (ti m), hd_tif = False\<rparr>"
    by (rule header_round_trip [OF ok])
  have len: "length (encodeL3Header p (mti m) (ti m) False) = 2" by (simp add: encodeL3Header_def Let_def)
  then have tail: "drop 2 ?frame = body" "length ?frame - 2 = length body" by simp_all
  obtain br1 where br1: "dec (mti m) (ti m) (mkBitReader (Some body) (length body * 8)) = (Inr m, br1)" "remainingBits br1 = 0"
    by (rule body_parsed [OF assms(1) body(2,3)])
  have nib: "?frame ! 0 AND 0x0F = pd_code p"
    using octet0_parts(1) [of "ti m" False "pd_code p"] L3PD_of_pd_code [of p] ok
    by (simp add: encodeL3Header_def Let_def header_ok_def)
  have nog: "pd_code p \<noteq> pd_code BroadcastCallControl \<and> pd_code p \<noteq> pd_code GroupCallControl" if "length body = 2"
    using L3PD_of_pd_code [of p] L3PD_of_pd_code [of BroadcastCallControl] L3PD_of_pd_code [of GroupCallControl] ok
      unambiguous [OF assms(1)] body(3) that
    by (auto simp: header_ok_def)
  have body_res: "parseBody \<lparr>hd_pd = p, hd_mti = mti m, hd_ti = unat (ti m), hd_tif = False\<rparr> (mkBitReader (Some body) (length body * 8)) =
      (Inr (mk m), br1)"
    using route br1(1) by (simp add: rbind_def rreturn_def)
  then have "parseL3 parseBody channelRequest handoverAccess req ?frame = Inr (mk m)"
    unfolding parseL3_def parseL3_standard_def Let_def hdr tail nib
    using br1(2) nog len by (auto simp: hdr tail)
  moreover have "length ?frame = wireLength (mti m) (bodyLength m)"
    using len body(3) header_fits [OF assms(1)] by (simp add: wireLength_def isNoHeaderShort_def kRRTifShortBase_def)
  moreover have "?frame \<noteq> []" using len by auto
  ultimately show ?thesis using body by blast
qed

end

end
