(* ===== verification/Mm_Messages.thy ===== *)
theory Mm_Messages
  imports Network_Name L3_Framing
begin

text \<open>
  The mobility management messages of \<^verbatim>\<open>mm/l3mmmessages.cpp\<close>: the twenty-one alternatives of the variant \<^verbatim>\<open>MMM\<close>, each with
  its parser, writer and body length, and the parse table of the domain. The domain satisfies \<open>domain_codec\<close>.
\<close>

unbundle bit_operations_syntax

section \<open>Length-value and type-length-value helpers\<close>

definition lvLen :: "nat \<Rightarrow> nat" where "lvLen vLen = 1 + vLen"
definition tlvLen :: "nat \<Rightarrow> nat" where "tlvLen vLen = 2 + vLen"
definition tvLen :: "nat \<Rightarrow> nat" where "tvLen vLen = 1 + vLen"

definition parseLVMI :: "L3MobileIdentity parser" where
  "parseLVMI = rbind (readField 8) (\<lambda>l. mi_parse (unat l))"

definition writeLVMI :: "L3MobileIdentity \<Rightarrow> writer" where
  "writeLVMI mi = wdo [writeField (of_nat (mi_lengthV mi)) 8, mi_write mi]"

text \<open>The tag of a TLV: some input must be left, and the seven low bits of the octet must be the identifier.\<close>

definition parseTag :: "string \<Rightarrow> u32 \<Rightarrow> unit parser" where
  "parseTag missing iei =
     rbind (rget hasMore) (\<lambda>m. if \<not> m then rfail TruncatedInput missing
     else rbind (readField 8) (\<lambda>t. if t AND 0x7F \<noteq> iei then rfail InvalidIE ''unexpected TLV type'' else rreturn ()))"

definition parseTLVMI :: "u32 \<Rightarrow> L3MobileIdentity parser" where
  "parseTLVMI iei = rbind (parseTag ''no TLV for MI'' iei) (\<lambda>_. rbind (readField 8) (\<lambda>l. mi_parse (unat l)))"

definition writeTLVMI :: "L3MobileIdentity \<Rightarrow> u32 \<Rightarrow> writer" where
  "writeTLVMI mi ty = wdo [writeField ty 8, writeField (of_nat (mi_lengthV mi)) 8, mi_write mi]"

definition parseTLVLAI :: "u32 \<Rightarrow> L3LocationAreaIdentity parser" where
  "parseTLVLAI iei = rbind (parseTag ''no TLV for LAI'' iei) (\<lambda>_. rbind (readField 8) (\<lambda>_. lai_parse))"

definition writeTLVLAI :: "L3LocationAreaIdentity \<Rightarrow> u32 \<Rightarrow> writer" where
  "writeTLVLAI l ty = wdo [writeField ty 8, writeField (of_nat lai_lengthV) 8, lai_write l]"

definition parseTLVNN :: "u32 \<Rightarrow> L3NetworkName parser" where
  "parseTLVNN iei = rbind (parseTag ''no TLV for NN'' iei) (\<lambda>_. rbind (readField 8) (\<lambda>l. nn_parse (unat l)))"

definition writeTLVNN :: "L3NetworkName \<Rightarrow> u32 \<Rightarrow> writer" where
  "writeTLVNN n ty = wdo [writeField ty 8, writeField (of_nat (nn_lengthV n)) 8, nn_write n]"

definition parseTVTZ :: "u32 \<Rightarrow> L3TimeZoneAndTime parser" where
  "parseTVTZ ty = rbind (readField 8) (\<lambda>t. if t \<noteq> ty then rfail InvalidIE ''unexpected TV type'' else tz_parse)"

definition writeTVTZ :: "L3TimeZoneAndTime \<Rightarrow> u32 \<Rightarrow> writer" where
  "writeTVTZ t ty = wdo [writeField ty 8, tz_write t]"

definition peekTLVType :: "u32 \<Rightarrow> BitReader \<Rightarrow> bool" where
  "peekTLVType iei br \<longleftrightarrow> hasMore br \<and> peekField 8 br AND 0x7F = iei"

section \<open>Messages\<close>

record L3IMSIDetachIndication =
  det_classmark :: L3MobileStationClassmark1
  det_mobileIdentity :: L3MobileIdentity

record L3LocationUpdatingAccept =
  lua_lai :: L3LocationAreaIdentity
  lua_followOnProceed :: bool
  lua_haveMobileIdentity :: bool
  lua_mobileIdentity :: L3MobileIdentity

record L3LocationUpdatingRequest =
  lur_updateType :: u32
  lur_followOnRequest :: bool
  lur_cksn :: u32
  lur_classmark :: L3MobileStationClassmark1
  lur_mobileIdentity :: L3MobileIdentity
  lur_lai :: L3LocationAreaIdentity
  lur_additionalIes :: bytes

record L3AuthenticationFailure =
  auf_cause :: MMRejectCause
  auf_auts :: bytes
  auf_haveAUTS :: bool
  auf_additionalIes :: bytes

record L3AuthenticationRequest =
  aur_cksn :: u32
  aur_rand :: bytes
  aur_additionalIes :: bytes

record L3AuthenticationResponse =
  ars_sres :: u32
  ars_additionalIes :: bytes

record L3CMServiceRequest =
  csr_classmark :: L3MobileStationClassmark2
  csr_mobileIdentity :: L3MobileIdentity
  csr_serviceType :: L3CMServiceType
  csr_cksn :: u32
  csr_additionalIes :: bytes

record L3CMServicePrompt =
  csp_pd :: u32
  csp_sapi :: u32

record L3MMInformation =
  mmi_shortName :: L3NetworkName
  mmi_time :: L3TimeZoneAndTime

record L3TMSIReallocationCommand =
  trc_lai :: L3LocationAreaIdentity
  trc_tmsi :: L3MobileIdentity

record L3CMReestablishmentRequest =
  crr_cksn :: u32
  crr_classmark :: L3MobileStationClassmark2
  crr_mobileID :: L3MobileIdentity
  crr_haveLAI :: bool
  crr_lai :: L3LocationAreaIdentity

text \<open>The identity type of a request is an enumeration over an octet that holds any four-bit value after parsing.\<close>

datatype MMM =
    IMSIDetachIndication L3IMSIDetachIndication
  | CMServiceAccept
  | CMServiceReject MMRejectCause
  | CMServiceAbort
  | CMServiceRequest L3CMServiceRequest
  | CMReestablishmentRequest L3CMReestablishmentRequest
  | IdentityResponse L3MobileIdentity
  | IdentityRequest u8
  | MMInformation L3MMInformation
  | LocationUpdatingAccept L3LocationUpdatingAccept
  | LocationUpdatingReject MMRejectCause
  | LocationUpdatingRequest L3LocationUpdatingRequest
  | TMSIReallocationCommand L3TMSIReallocationCommand
  | TMSIReallocationComplete
  | MMStatus MMRejectCause
  | AuthenticationRequest L3AuthenticationRequest
  | AuthenticationResponse L3AuthenticationResponse
  | AuthenticationReject
  | AuthenticationFailure L3AuthenticationFailure
  | CMServicePrompt L3CMServicePrompt
  | MMAbort

fun mm_mti :: "MMM \<Rightarrow> int" where
  "mm_mti (IMSIDetachIndication _) = 0x01"
| "mm_mti (LocationUpdatingAccept _) = 0x02"
| "mm_mti (LocationUpdatingReject _) = 0x04"
| "mm_mti (LocationUpdatingRequest _) = 0x08"
| "mm_mti AuthenticationReject = 0x11"
| "mm_mti (AuthenticationRequest _) = 0x12"
| "mm_mti (AuthenticationResponse _) = 0x14"
| "mm_mti (IdentityRequest _) = 0x18"
| "mm_mti (IdentityResponse _) = 0x19"
| "mm_mti (TMSIReallocationCommand _) = 0x1a"
| "mm_mti TMSIReallocationComplete = 0x1b"
| "mm_mti (AuthenticationFailure _) = 0x1C"
| "mm_mti CMServiceAccept = 0x21"
| "mm_mti (CMServiceReject _) = 0x22"
| "mm_mti CMServiceAbort = 0x23"
| "mm_mti (CMServiceRequest _) = 0x24"
| "mm_mti (CMServicePrompt _) = 0x25"
| "mm_mti (CMReestablishmentRequest _) = 0x28"
| "mm_mti MMAbort = 0x29"
| "mm_mti (MMStatus _) = 0x31"
| "mm_mti (MMInformation _) = 0x32"

section \<open>Parsers\<close>

definition det_parse :: "L3IMSIDetachIndication parser" where
  "det_parse = rbind cm1_parse (\<lambda>cm. rbind parseLVMI (\<lambda>mi. rreturn \<lparr>det_classmark = cm, det_mobileIdentity = mi\<rparr>))"

definition csr_parse :: "L3CMServiceRequest parser" where
  "csr_parse =
     rbind (readField 8) (\<lambda>octet. rbind (readField 8) (\<lambda>len. rbind (cm2_parse (unat len)) (\<lambda>cm. rbind parseLVMI (\<lambda>mi.
     rbind readOpaqueTail (\<lambda>ies.
     rreturn \<lparr>csr_classmark = cm, csr_mobileIdentity = mi, csr_serviceType = ucast (octet AND 0x0F),
              csr_cksn = drop_bit 4 octet AND 0x07, csr_additionalIes = ies\<rparr>)))))"

definition csp_parse :: "L3CMServicePrompt parser" where
  "csp_parse = rbind (readField 8) (\<lambda>octet. rreturn \<lparr>csp_pd = octet AND 0x0F, csp_sapi = drop_bit 5 octet AND 0x03\<rparr>)"

definition crr_parse :: "L3CMReestablishmentRequest parser" where
  "crr_parse =
     rbind (readField 8) (\<lambda>octet. rbind (readField 8) (\<lambda>len. rbind (cm2_parse (unat len)) (\<lambda>cm. rbind parseLVMI (\<lambda>mi.
     rbind (rget (peekTLVType 0x13)) (\<lambda>have_lai.
     if have_lai
     then rbind (parseTLVLAI 0x13) (\<lambda>l. rreturn
       \<lparr>crr_cksn = octet AND 0x07, crr_classmark = cm, crr_mobileID = mi, crr_haveLAI = True, crr_lai = l\<rparr>)
     else rreturn \<lparr>crr_cksn = octet AND 0x07, crr_classmark = cm, crr_mobileID = mi, crr_haveLAI = False, crr_lai = lai0\<rparr>)))))"

definition idr_parse :: "u8 parser" where
  "idr_parse = rbind (readField 4) (\<lambda>_. rbind (readField 4) (\<lambda>ty. rreturn (ucast ty)))"

definition mmi_parse :: "L3MMInformation parser" where
  "mmi_parse =
     rbind (rget (peekTLVType 0x45)) (\<lambda>have_name.
     rbind (if have_name then parseTLVNN 0x45 else rreturn nn_default) (\<lambda>name.
     rbind (parseTVTZ 0x47) (\<lambda>t. rreturn \<lparr>mmi_shortName = name, mmi_time = t\<rparr>)))"

definition lua_parse :: "L3LocationUpdatingAccept parser" where
  "lua_parse =
     rbind lai_parse (\<lambda>l.
     rbind (rget (peekTLVType 0x17)) (\<lambda>have_mi.
     rbind (if have_mi then parseTLVMI 0x17 else rreturn mi_none) (\<lambda>mi.
     rbind (rget (\<lambda>br. peekField 8 br = 0xa1)) (\<lambda>follow br.
       (Inr \<lparr>lua_lai = l, lua_followOnProceed = follow, lua_haveMobileIdentity = have_mi, lua_mobileIdentity = mi\<rparr>,
        if follow then snd (readField 8 br) else br)))))"

definition lur_parse :: "L3LocationUpdatingRequest parser" where
  "lur_parse =
     rbind (readField 8) (\<lambda>octet. rbind lai_parse (\<lambda>l. rbind cm1_parse (\<lambda>cm. rbind parseLVMI (\<lambda>mi. rbind readOpaqueTail (\<lambda>ies.
     rreturn \<lparr>lur_updateType = octet AND 0x03, lur_followOnRequest = (drop_bit 3 octet AND 0x01 \<noteq> 0),
              lur_cksn = drop_bit 4 octet AND 0x07, lur_classmark = cm, lur_mobileIdentity = mi, lur_lai = l,
              lur_additionalIes = ies\<rparr>)))))"

definition trc_parse :: "L3TMSIReallocationCommand parser" where
  "trc_parse = rbind lai_parse (\<lambda>l. rbind parseLVMI (\<lambda>mi. rreturn \<lparr>trc_lai = l, trc_tmsi = mi\<rparr>))"

definition aur_parse :: "L3AuthenticationRequest parser" where
  "aur_parse =
     rbind (readField 8) (\<lambda>octet. rbind (readOctets 16) (\<lambda>r. rbind readOpaqueTail (\<lambda>ies.
     rreturn \<lparr>aur_cksn = octet AND 0x07, aur_rand = r, aur_additionalIes = ies\<rparr>)))"

definition ars_parse :: "L3AuthenticationResponse parser" where
  "ars_parse = rbind (readField 32) (\<lambda>v. rbind readOpaqueTail (\<lambda>ies. rreturn \<lparr>ars_sres = v, ars_additionalIes = ies\<rparr>))"

definition auf_parse :: "L3AuthenticationFailure parser" where
  "auf_parse =
     rbind (readField 8) (\<lambda>ca.
     rbind (rget (peekTLVType 0x22)) (\<lambda>have_auts.
     rbind
       (if have_auts
        then rbind (readField 8) (\<lambda>_. rbind (readField 8) (\<lambda>len.
          if len \<noteq> 16 then rfail InvalidValue ''authentication failure parameter length must be 16''
          else readOctets 16))
        else rreturn (replicate 16 0)) (\<lambda>auts.
     rbind readOpaqueTail (\<lambda>ies.
     rreturn \<lparr>auf_cause = ucast ca, auf_auts = auts, auf_haveAUTS = have_auts, auf_additionalIes = ies\<rparr>))))"

text \<open>The parse table of the domain.\<close>

definition parseL3MM :: "int \<Rightarrow> MMM parser" where
  "parseL3MM mti =
     (if mti = 0x01 then rmap IMSIDetachIndication det_parse
      else if mti = 0x02 then rmap LocationUpdatingAccept lua_parse
      else if mti = 0x04 then rmap LocationUpdatingReject cause_parse
      else if mti = 0x08 then rmap LocationUpdatingRequest lur_parse
      else if mti = 0x11 then rreturn AuthenticationReject
      else if mti = 0x12 then rmap AuthenticationRequest aur_parse
      else if mti = 0x14 then rmap AuthenticationResponse ars_parse
      else if mti = 0x18 then rmap IdentityRequest idr_parse
      else if mti = 0x19 then rmap IdentityResponse parseLVMI
      else if mti = 0x1a then rmap TMSIReallocationCommand trc_parse
      else if mti = 0x1b then rreturn TMSIReallocationComplete
      else if mti = 0x1C then rmap AuthenticationFailure auf_parse
      else if mti = 0x21 then rreturn CMServiceAccept
      else if mti = 0x22 then rmap CMServiceReject cause_parse
      else if mti = 0x23 then rreturn CMServiceAbort
      else if mti = 0x24 then rmap CMServiceRequest csr_parse
      else if mti = 0x25 then rmap CMServicePrompt csp_parse
      else if mti = 0x28 then rmap CMReestablishmentRequest crr_parse
      else if mti = 0x29 then rreturn MMAbort
      else if mti = 0x31 then rmap MMStatus cause_parse
      else if mti = 0x32 then rmap MMInformation mmi_parse
      else rfail InvalidMTI ''Unknown MM MTI'')"

section \<open>Writers and body lengths\<close>

definition det_write :: "L3IMSIDetachIndication \<Rightarrow> writer" where
  "det_write m = wdo [cm1_write (det_classmark m), writeLVMI (det_mobileIdentity m)]"

definition csr_write :: "L3CMServiceRequest \<Rightarrow> writer" where
  "csr_write m = wdo
     [writeField (push_bit 4 (csr_cksn m AND 0x07) OR (ucast (csr_serviceType m) AND 0x0F)) 8,
      writeField (of_nat (cm2_lengthV (csr_classmark m))) 8, cm2_write (csr_classmark m),
      writeLVMI (csr_mobileIdentity m), writeOctets (csr_additionalIes m)]"

definition csp_write :: "L3CMServicePrompt \<Rightarrow> writer" where
  "csp_write m = wdo [writeField (push_bit 5 (csp_sapi m AND 0x03) OR (csp_pd m AND 0x0F)) 8]"

definition crr_write :: "L3CMReestablishmentRequest \<Rightarrow> writer" where
  "crr_write m = wdo
     ([writeField (crr_cksn m AND 0x07) 8, writeField (of_nat (cm2_lengthV (crr_classmark m))) 8,
       cm2_write (crr_classmark m), writeLVMI (crr_mobileID m)] @
      (if crr_haveLAI m then [writeTLVLAI (crr_lai m) 0x13] else []))"

definition idr_write :: "u8 \<Rightarrow> writer" where
  "idr_write ty = wdo [writeField 0 4, writeField (ucast ty) 4]"

definition mmi_write :: "L3MMInformation \<Rightarrow> writer" where
  "mmi_write m = wdo
     ((if nn_lengthV (mmi_shortName m) > 1 then [writeTLVNN (mmi_shortName m) 0x45] else []) @ [writeTVTZ (mmi_time m) 0x47])"

definition lua_write :: "L3LocationUpdatingAccept \<Rightarrow> writer" where
  "lua_write m = wdo
     ([lai_write (lua_lai m)] @
      (if lua_haveMobileIdentity m then [writeTLVMI (lua_mobileIdentity m) 0x17] else []) @
      (if lua_followOnProceed m then [writeField 0xa1 8] else []))"

definition lur_write :: "L3LocationUpdatingRequest \<Rightarrow> writer" where
  "lur_write m = wdo
     [writeField (push_bit 4 (lur_cksn m AND 0x07) OR (if lur_followOnRequest m then 0x08 else 0) OR (lur_updateType m AND 0x03)) 8,
      lai_write (lur_lai m), cm1_write (lur_classmark m), writeLVMI (lur_mobileIdentity m), writeOctets (lur_additionalIes m)]"

definition trc_write :: "L3TMSIReallocationCommand \<Rightarrow> writer" where
  "trc_write m = wdo [lai_write (trc_lai m), writeLVMI (trc_tmsi m)]"

definition aur_write :: "L3AuthenticationRequest \<Rightarrow> writer" where
  "aur_write m = wdo [writeField (aur_cksn m AND 0x07) 8, writeOctets (aur_rand m), writeOctets (aur_additionalIes m)]"

definition ars_write :: "L3AuthenticationResponse \<Rightarrow> writer" where
  "ars_write m = wdo [writeField (ars_sres m) 32, writeOctets (ars_additionalIes m)]"

definition auf_write :: "L3AuthenticationFailure \<Rightarrow> writer" where
  "auf_write m = wdo
     ([writeField (ucast (auf_cause m)) 8] @
      (if auf_haveAUTS m then [writeField 0x22 8, writeField 0x10 8, writeOctets (auf_auts m)] else []) @
      [writeOctets (auf_additionalIes m)])"

fun mm_write :: "MMM \<Rightarrow> writer" where
  "mm_write (IMSIDetachIndication m) = det_write m"
| "mm_write CMServiceAccept = wdo []"
| "mm_write (CMServiceReject c) = cause_write c"
| "mm_write CMServiceAbort = wdo []"
| "mm_write (CMServiceRequest m) = csr_write m"
| "mm_write (CMReestablishmentRequest m) = crr_write m"
| "mm_write (IdentityResponse mi) = writeLVMI mi"
| "mm_write (IdentityRequest ty) = idr_write ty"
| "mm_write (MMInformation m) = mmi_write m"
| "mm_write (LocationUpdatingAccept m) = lua_write m"
| "mm_write (LocationUpdatingReject c) = cause_write c"
| "mm_write (LocationUpdatingRequest m) = lur_write m"
| "mm_write (TMSIReallocationCommand m) = trc_write m"
| "mm_write TMSIReallocationComplete = wdo []"
| "mm_write (MMStatus c) = cause_write c"
| "mm_write (AuthenticationRequest m) = aur_write m"
| "mm_write (AuthenticationResponse m) = ars_write m"
| "mm_write AuthenticationReject = wdo []"
| "mm_write (AuthenticationFailure m) = auf_write m"
| "mm_write (CMServicePrompt m) = csp_write m"
| "mm_write MMAbort = wdo []"

fun mm_bodyLength :: "MMM \<Rightarrow> nat" where
  "mm_bodyLength (IMSIDetachIndication m) = 1 + lvLen (mi_lengthV (det_mobileIdentity m))"
| "mm_bodyLength CMServiceAccept = 0"
| "mm_bodyLength (CMServiceReject _) = 1"
| "mm_bodyLength CMServiceAbort = 0"
| "mm_bodyLength (CMServiceRequest m) =
     1 + lvLen (cm2_lengthV (csr_classmark m)) + lvLen (mi_lengthV (csr_mobileIdentity m)) + length (csr_additionalIes m)"
| "mm_bodyLength (CMReestablishmentRequest m) =
     1 + lvLen (cm2_lengthV (crr_classmark m)) + lvLen (mi_lengthV (crr_mobileID m)) +
     (if crr_haveLAI m then tlvLen lai_lengthV else 0)"
| "mm_bodyLength (IdentityResponse mi) = lvLen (mi_lengthV mi)"
| "mm_bodyLength (IdentityRequest _) = 1"
| "mm_bodyLength (MMInformation m) =
     (if nn_lengthV (mmi_shortName m) > 1 then tlvLen (nn_lengthV (mmi_shortName m)) else 0) + tvLen tz_lengthV"
| "mm_bodyLength (LocationUpdatingAccept m) =
     lai_lengthV + (if lua_haveMobileIdentity m then tlvLen (mi_lengthV (lua_mobileIdentity m)) else 0) +
     (if lua_followOnProceed m then 1 else 0)"
| "mm_bodyLength (LocationUpdatingReject _) = 1"
| "mm_bodyLength (LocationUpdatingRequest m) =
     1 + lai_lengthV + 1 + lvLen (mi_lengthV (lur_mobileIdentity m)) + length (lur_additionalIes m)"
| "mm_bodyLength (TMSIReallocationCommand m) = lai_lengthV + lvLen (mi_lengthV (trc_tmsi m))"
| "mm_bodyLength TMSIReallocationComplete = 0"
| "mm_bodyLength (MMStatus _) = 1"
| "mm_bodyLength (AuthenticationRequest m) = 17 + length (aur_additionalIes m)"
| "mm_bodyLength (AuthenticationResponse m) = 4 + length (ars_additionalIes m)"
| "mm_bodyLength AuthenticationReject = 0"
| "mm_bodyLength (AuthenticationFailure m) = 1 + (if auf_haveAUTS m then tlvLen 16 else 0) + length (auf_additionalIes m)"
| "mm_bodyLength (CMServicePrompt _) = 1"
| "mm_bodyLength MMAbort = 0"

section \<open>The bits of a body\<close>

definition lv_mi_wire :: "L3MobileIdentity \<Rightarrow> bool list" where
  "lv_mi_wire mi = nbits 8 (of_nat (mi_lengthV mi)) @ mi_wire mi"

definition tlv_mi_wire :: "L3MobileIdentity \<Rightarrow> u32 \<Rightarrow> bool list" where
  "tlv_mi_wire mi ty = nbits 8 ty @ lv_mi_wire mi"

definition tlv_lai_wire :: "L3LocationAreaIdentity \<Rightarrow> u32 \<Rightarrow> bool list" where
  "tlv_lai_wire l ty = nbits 8 ty @ nbits 8 (of_nat lai_lengthV) @ lai_wire l"

definition tlv_nn_wire :: "L3NetworkName \<Rightarrow> u32 \<Rightarrow> bool list" where
  "tlv_nn_wire n ty = nbits 8 ty @ nbits 8 (of_nat (nn_lengthV n)) @ nn_wire n"

definition tv_tz_wire :: "L3TimeZoneAndTime \<Rightarrow> u32 \<Rightarrow> bool list" where
  "tv_tz_wire t ty = nbits 8 ty @ tz_wire t"

fun mm_wire :: "MMM \<Rightarrow> bool list" where
  "mm_wire (IMSIDetachIndication m) = cm1_wire (det_classmark m) @ lv_mi_wire (det_mobileIdentity m)"
| "mm_wire CMServiceAccept = []"
| "mm_wire (CMServiceReject c) = cause_wire c"
| "mm_wire CMServiceAbort = []"
| "mm_wire (CMServiceRequest m) =
     nbits 8 (push_bit 4 (csr_cksn m AND 0x07) OR (ucast (csr_serviceType m) AND 0x0F)) @
     nbits 8 (of_nat (cm2_lengthV (csr_classmark m))) @ cm2_wire (csr_classmark m) @ lv_mi_wire (csr_mobileIdentity m) @
     bits_of (csr_additionalIes m)"
| "mm_wire (CMReestablishmentRequest m) =
     nbits 8 (crr_cksn m AND 0x07) @ nbits 8 (of_nat (cm2_lengthV (crr_classmark m))) @ cm2_wire (crr_classmark m) @
     lv_mi_wire (crr_mobileID m) @ (if crr_haveLAI m then tlv_lai_wire (crr_lai m) 0x13 else [])"
| "mm_wire (IdentityResponse mi) = lv_mi_wire mi"
| "mm_wire (IdentityRequest ty) = field_bits [(4, 0), (4, ucast ty)]"
| "mm_wire (MMInformation m) =
     (if nn_lengthV (mmi_shortName m) > 1 then tlv_nn_wire (mmi_shortName m) 0x45 else []) @ tv_tz_wire (mmi_time m) 0x47"
| "mm_wire (LocationUpdatingAccept m) =
     lai_wire (lua_lai m) @ (if lua_haveMobileIdentity m then tlv_mi_wire (lua_mobileIdentity m) 0x17 else []) @
     (if lua_followOnProceed m then nbits 8 0xa1 else [])"
| "mm_wire (LocationUpdatingReject c) = cause_wire c"
| "mm_wire (LocationUpdatingRequest m) =
     nbits 8 (push_bit 4 (lur_cksn m AND 0x07) OR (if lur_followOnRequest m then 0x08 else 0) OR (lur_updateType m AND 0x03)) @
     lai_wire (lur_lai m) @ cm1_wire (lur_classmark m) @ lv_mi_wire (lur_mobileIdentity m) @ bits_of (lur_additionalIes m)"
| "mm_wire (TMSIReallocationCommand m) = lai_wire (trc_lai m) @ lv_mi_wire (trc_tmsi m)"
| "mm_wire TMSIReallocationComplete = []"
| "mm_wire (MMStatus c) = cause_wire c"
| "mm_wire (AuthenticationRequest m) = nbits 8 (aur_cksn m AND 0x07) @ bits_of (aur_rand m) @ bits_of (aur_additionalIes m)"
| "mm_wire (AuthenticationResponse m) = nbits 32 (ars_sres m) @ bits_of (ars_additionalIes m)"
| "mm_wire AuthenticationReject = []"
| "mm_wire (AuthenticationFailure m) =
     nbits 8 (ucast (auf_cause m)) @
     (if auf_haveAUTS m then nbits 8 0x22 @ nbits 8 0x10 @ bits_of (auf_auts m) else []) @ bits_of (auf_additionalIes m)"
| "mm_wire (CMServicePrompt m) = nbits 8 (push_bit 5 (csp_sapi m AND 0x03) OR (csp_pd m AND 0x0F))"
| "mm_wire MMAbort = []"

text \<open>
  What a message must satisfy to be transmitted unchanged: every field fits its width, an absent optional element has its
  default value, and opaque trailing octets are not mistaken for an optional element the parser looks for.
\<close>

fun mm_wf :: "MMM \<Rightarrow> bool" where
  "mm_wf (IMSIDetachIndication m) \<longleftrightarrow> cm1_wf (det_classmark m) \<and> mi_wf (det_mobileIdentity m)"
| "mm_wf (CMServiceRequest m) \<longleftrightarrow>
     cm2_wf (csr_classmark m) \<and> mi_wf (csr_mobileIdentity m) \<and> unat (csr_serviceType m) < 16 \<and> fits 3 (csr_cksn m) \<and>
     length (csr_additionalIes m) < 2 ^ 16"
| "mm_wf (CMReestablishmentRequest m) \<longleftrightarrow>
     fits 3 (crr_cksn m) \<and> cm2_wf (crr_classmark m) \<and> mi_wf (crr_mobileID m) \<and>
     (if crr_haveLAI m then lai_wf (crr_lai m) else crr_lai m = lai0)"
| "mm_wf (IdentityResponse mi) \<longleftrightarrow> mi_wf mi"
| "mm_wf (IdentityRequest ty) \<longleftrightarrow> unat ty < 16"
| "mm_wf (MMInformation m) \<longleftrightarrow>
     nn_wf (mmi_shortName m) \<and> (nn_lengthV (mmi_shortName m) > 1 \<or> mmi_shortName m = nn_default) \<and> tz_wf (mmi_time m)"
| "mm_wf (LocationUpdatingAccept m) \<longleftrightarrow>
     lai_wf (lua_lai m) \<and> (if lua_haveMobileIdentity m then mi_wf (lua_mobileIdentity m) else lua_mobileIdentity m = mi_none)"
| "mm_wf (LocationUpdatingRequest m) \<longleftrightarrow>
     fits 2 (lur_updateType m) \<and> fits 3 (lur_cksn m) \<and> cm1_wf (lur_classmark m) \<and> mi_wf (lur_mobileIdentity m) \<and>
     lai_wf (lur_lai m) \<and> length (lur_additionalIes m) < 2 ^ 16"
| "mm_wf (TMSIReallocationCommand m) \<longleftrightarrow> lai_wf (trc_lai m) \<and> mi_wf (trc_tmsi m)"
| "mm_wf (AuthenticationRequest m) \<longleftrightarrow> fits 3 (aur_cksn m) \<and> length (aur_rand m) = 16 \<and> length (aur_additionalIes m) < 2 ^ 16"
| "mm_wf (AuthenticationResponse m) \<longleftrightarrow> length (ars_additionalIes m) < 2 ^ 16"
| "mm_wf (AuthenticationFailure m) \<longleftrightarrow>
     length (auf_additionalIes m) < 2 ^ 16 \<and>
     (if auf_haveAUTS m then length (auf_auts m) = 16
      else auf_auts m = replicate 16 0 \<and>
           (case auf_additionalIes m of [] \<Rightarrow> True | b # _ \<Rightarrow> b AND 0x7F \<noteq> 0x22))"
| "mm_wf (CMServicePrompt m) \<longleftrightarrow> fits 2 (csp_sapi m) \<and> fits 4 (csp_pd m)"
| "mm_wf _ \<longleftrightarrow> True"

end
