(* ===== verification/Mm_Round_Trip.thy ===== *)
theory Mm_Round_Trip
  imports Mm_Messages
begin

text \<open>
  The mobility management domain satisfies the codec contract: each writer emits the bits of its message, the parse table
  reads them back, and the announced body length is the number of octets. Frames and hexadecimal texts round-trip.
\<close>

unbundle bit_operations_syntax

section \<open>Emitting\<close>

lemma emits_lv_mi: "emits (writeLVMI mi) (lv_mi_wire mi)"
  unfolding writeLVMI_def lv_mi_wire_def by (intro emits_wdo_Cons emits_writeField emits_last mi_emits) simp

lemma emits_tlv:
  "emits (writeTLVMI mi ty) (tlv_mi_wire mi ty)"
  "emits (writeTLVLAI l ty) (tlv_lai_wire l ty)"
  "emits (writeTLVNN n ty) (tlv_nn_wire n ty)"
  "emits (writeTVTZ t ty) (tv_tz_wire t ty)"
  unfolding writeTLVMI_def tlv_mi_wire_def lv_mi_wire_def writeTLVLAI_def tlv_lai_wire_def writeTLVNN_def tlv_nn_wire_def
    writeTVTZ_def tv_tz_wire_def
  by (intro emits_wdo_Cons emits_writeField emits_last mi_emits lai.ie_writes nn_emits tz.ie_writes; simp)+

lemmas part_rules = emits_writeField emits_writeOctets emits_lv_mi emits_tlv cm1.ie_writes cm2_emits lai.ie_writes
  cause.ie_writes

lemma mm_emits: "emits (mm_write m) (mm_wire m)"
proof (cases m)
  case (IMSIDetachIndication x)
  then show ?thesis unfolding IMSIDetachIndication mm_write.simps mm_wire.simps det_write_def
    by (intro emits_wdo_Cons emits_last part_rules)
next
  case (CMServiceRequest x)
  then show ?thesis unfolding CMServiceRequest mm_write.simps mm_wire.simps csr_write_def
    by (intro emits_wdo_Cons emits_last part_rules) simp_all
next
  case (CMReestablishmentRequest x)
  have "emits (wdo [writeField (crr_cksn x AND 0x07) 8, writeField (of_nat (cm2_lengthV (crr_classmark x))) 8,
      cm2_write (crr_classmark x), writeLVMI (crr_mobileID x)])
      (nbits 8 (crr_cksn x AND 0x07) @ nbits 8 (of_nat (cm2_lengthV (crr_classmark x))) @ cm2_wire (crr_classmark x) @
       lv_mi_wire (crr_mobileID x))"
    by (intro emits_wdo_Cons emits_last part_rules) simp_all
  from emits_wdo_append [OF this emits_optional [OF emits_last [OF emits_tlv(2)]]] show ?thesis
    unfolding CMReestablishmentRequest mm_write.simps mm_wire.simps crr_write_def by simp
next
  case (MMInformation x)
  then show ?thesis unfolding MMInformation mm_write.simps mm_wire.simps mmi_write_def
    by (intro emits_wdo_append emits_optional emits_last emits_tlv)
next
  case (LocationUpdatingAccept x)
  then show ?thesis unfolding LocationUpdatingAccept mm_write.simps mm_wire.simps lua_write_def
    by (intro emits_wdo_append emits_optional emits_last part_rules) simp
next
  case (LocationUpdatingRequest x)
  then show ?thesis unfolding LocationUpdatingRequest mm_write.simps mm_wire.simps lur_write_def
    by (intro emits_wdo_Cons emits_last part_rules) simp_all
next
  case (TMSIReallocationCommand x)
  then show ?thesis unfolding TMSIReallocationCommand mm_write.simps mm_wire.simps trc_write_def
    by (intro emits_wdo_Cons emits_last part_rules)
next
  case (AuthenticationRequest x)
  then show ?thesis unfolding AuthenticationRequest mm_write.simps mm_wire.simps aur_write_def
    by (intro emits_wdo_Cons emits_last part_rules) simp
next
  case (AuthenticationResponse x)
  then show ?thesis unfolding AuthenticationResponse mm_write.simps mm_wire.simps ars_write_def
    by (intro emits_wdo_Cons emits_last part_rules) simp
next
  case (AuthenticationFailure x)
  have "emits (wdo [writeField 0x22 8, writeField 0x10 8, writeOctets (auf_auts x)])
      (nbits 8 0x22 @ nbits 8 0x10 @ bits_of (auf_auts x))"
    by (intro emits_wdo_Cons emits_last part_rules) simp_all
  then show ?thesis unfolding AuthenticationFailure mm_write.simps mm_wire.simps auf_write_def
    by (intro emits_wdo_append emits_optional emits_last part_rules) simp
next
  case (CMServicePrompt x)
  then show ?thesis unfolding CMServicePrompt mm_write.simps mm_wire.simps csp_write_def
    by (intro emits_last part_rules) simp
next
  case (IdentityRequest x)
  then show ?thesis unfolding IdentityRequest mm_write.simps mm_wire.simps idr_write_def
    by (intro field_rules) simp_all
qed (simp_all add: part_rules emits_wdo_Nil)

section \<open>Body lengths\<close>

lemma wire_lengths:
  "length (cm1_wire c) = 8" "length (lai_wire l) = 40" "length (tz_wire t) = 56" "length (cause_wire r) = 8"
  by (simp_all add: cm1_wire_def lai_wire_def tz_wire_def tz_fields_def bcd_fields_def cause_wire_def length_field_bits Let_def)

lemma length_mm_wire: "mm_wf m \<Longrightarrow> length (mm_wire m) = 8 * mm_bodyLength m"
  by (cases m)
    (simp_all add: wire_lengths lv_mi_wire_def tlv_mi_wire_def tlv_lai_wire_def tlv_nn_wire_def tv_tz_wire_def length_mi_wire
      length_cm2_wire length_nn_wire lvLen_def tlvLen_def tvLen_def lai_lengthV_def tz_lengthV_def length_field_bits)

lemma lengthV_bounds:
  "mi_wf mi \<Longrightarrow> mi_lengthV mi \<le> 10" "cm2_wf c \<Longrightarrow> cm2_lengthV c \<le> 7" "nn_wf n \<Longrightarrow> nn_lengthV n \<le> 189"
proof -
  show "mi_wf mi \<Longrightarrow> mi_lengthV mi \<le> 10" by (cases "mi_type mi") (auto simp: mi_wf_def mi_lengthV_def mi_has_digits_def)
  show "cm2_wf c \<Longrightarrow> cm2_lengthV c \<le> 7" by (simp add: cm2_wf_def cm2_lengthV_def)
  show "nn_wf n \<Longrightarrow> nn_lengthV n \<le> 189"
    by (cases "nn_alphabet n") (auto simp: nn_wf_def nn_lengthV_def nn_maxLen_def Let_def)
qed

lemma mm_bodyLength_small: "mm_wf m \<Longrightarrow> mm_bodyLength m < 2 ^ 31"
  using lengthV_bounds
  by (cases m) (fastforce simp: lvLen_def tlvLen_def tvLen_def lai_lengthV_def tz_lengthV_def intro: le_less_trans)+

section \<open>Parsing\<close>

lemma fits_8: "n < 256 \<Longrightarrow> fits 8 (of_nat n)" "n < 256 \<Longrightarrow> unat (of_nat n :: u32) = n"
  by (simp_all add: fits_def unat_of_nat)

lemma accepts_lv_mi: "mi_wf mi \<Longrightarrow> accepts parseLVMI (lv_mi_wire mi) mi"
  unfolding parseLVMI_def lv_mi_wire_def using lengthV_bounds(1) [of mi] mi_accepts [of mi]
  by (intro accepts_field) (simp_all add: fits_8)

lemma accepts_tag:
  assumes "fits 8 t" "t AND 0x7F = iei"
  shows "accepts (parseTag msg iei) (nbits 8 t) ()"
  unfolding accepts_def
proof (intro allI impI)
  fix br rest assume br: "br_ok br" "upcoming br = nbits 8 t @ rest"
  then have "hasMore br" by (auto simp: hasMore_upcoming nbits_def)
  moreover obtain br1 where "readField 8 br = (Inr t, br1)" "br_ok br1" "upcoming br1 = rest"
    by (rule acceptsD [OF accepts_readField [OF assms(1)] br])
  ultimately show "\<exists>br1. parseTag msg iei br = (Inr (), br1) \<and> br_ok br1 \<and> upcoming br1 = rest"
    using assms(2) by (simp add: parseTag_def rbind_def rget_def rreturn_def)
qed

lemma accepts_tlv_mi: "mi_wf mi \<Longrightarrow> accepts (parseTLVMI 0x17) (tlv_mi_wire mi 0x17) mi"
  unfolding parseTLVMI_def tlv_mi_wire_def lv_mi_wire_def using lengthV_bounds(1) [of mi] mi_accepts [of mi]
  by (intro accepts_bind [OF accepts_tag] accepts_field) (simp_all add: fits_8 fits_def)

lemma accepts_tlv_lai: "lai_wf l \<Longrightarrow> accepts (parseTLVLAI 0x13) (tlv_lai_wire l 0x13) l"
  unfolding parseTLVLAI_def tlv_lai_wire_def
  by (intro accepts_bind [OF accepts_tag] accepts_field lai.ie_accepts) (simp_all add: lai_lengthV_def fits_def)

lemma accepts_tlv_nn: "nn_wf n \<Longrightarrow> accepts (parseTLVNN 0x45) (tlv_nn_wire n 0x45) n"
  unfolding parseTLVNN_def tlv_nn_wire_def using lengthV_bounds(3) [of n] nn_accepts [of n]
  by (intro accepts_bind [OF accepts_tag] accepts_field) (simp_all add: fits_8 fits_def)

lemma accepts_tv_tz: "tz_wf t \<Longrightarrow> accepts (parseTVTZ 0x47) (tv_tz_wire t 0x47) t"
  unfolding parseTVTZ_def tv_tz_wire_def using tz_accepts [of t]
  by (intro accepts_field) (simp_all add: fits_def)

lemma peek_8:
  assumes "br_ok br" "upcoming br = nbits 8 t @ rest" "fits 8 t"
  shows "peekField 8 br = t" "hasMore br"
proof -
  have "unat (peekField 8 br) = unat t"
    using peekField_eq [OF assms(1), of 8] assms(2,3) by (simp add: bval_nbits fits_def take_bit_nat_eq_self)
  then show "peekField 8 br = t" by (rule unsigned_word_eqI)
  show "hasMore br" using assms by (auto simp: hasMore_upcoming nbits_def)
qed

lemma peek_end: "br_ok br \<Longrightarrow> upcoming br = [] \<Longrightarrow> peekField 8 br = 0 \<and> \<not> hasMore br"
  using peekField_eq [of br 8] by (simp add: hasMore_upcoming bval_def unsigned_eq_0_iff)

text \<open>What the parsers of optional elements see of the next octet.\<close>

lemma peek_tag:
  assumes "br_ok br" "upcoming br = nbits 8 t @ rest" "fits 8 t"
  shows "peekTLVType iei br \<longleftrightarrow> t AND 0x7F = iei"
  using peek_8 [OF assms] by (simp add: peekTLVType_def)

lemma peek_octets:
  assumes "br_ok br" "upcoming br = bits_of bs"
  shows "peekTLVType iei br \<longleftrightarrow> (case bs of [] \<Rightarrow> False | b # _ \<Rightarrow> ucast b AND 0x7F = iei)"
proof (cases bs)
  case Nil
  then show ?thesis using peek_end [of br] assms by (simp add: peekTLVType_def)
next
  case (Cons b r)
  then show ?thesis using peek_tag [OF assms(1), of "ucast b" "bits_of r"] assms(2) by (simp add: octet_list_nbits)
qed

lemma fitsI: "n \<le> 32 \<Longrightarrow> (\<And>i. bit v i \<Longrightarrow> i < n) \<Longrightarrow> fits n v"
proof -
  assume n: "n \<le> 32" and b: "\<And>i. bit v i \<Longrightarrow> i < n"
  have "take_bit n v = v" using b by (intro bit_word_eqI) (auto simp: bit_take_bit_iff)
  then have "unat v = take_bit n (unat v)" by (metis unsigned_take_bit_eq)
  then show ?thesis using n by (metis fits_def take_bit_nat_less_exp)
qed

lemma pack_fields:
  assumes "fits k a" "fits m b" "m \<le> n" "n + k \<le> 32"
  shows "fits (n + k) (push_bit n a OR b)" "take_bit k (drop_bit n (push_bit n a OR b)) = a"
    "take_bit m (push_bit n a OR b) = b"
proof -
  show "fits (n + k) (push_bit n a OR b)"
    using assms fits_bit [OF assms(1)] fits_bit [OF assms(2)] by (intro fitsI) (fastforce simp: bit_simps)+
  show "take_bit k (drop_bit n (push_bit n a OR b)) = a"
    using assms fits_bit [OF assms(1)] fits_bit [OF assms(2)] by (intro bit_word_eqI) (fastforce simp: bit_simps)
  show "take_bit m (push_bit n a OR b) = b"
    using assms fits_bit [OF assms(2)] by (intro bit_word_eqI) (fastforce simp: bit_simps)
qed

lemma and_masks: "(v :: u32) AND 0x01 = take_bit 1 v" "v AND 0x03 = take_bit 2 v" "v AND 0x07 = take_bit 3 v" "v AND 0x0F = take_bit 4 v"
  by (simp_all add: take_bit_eq_mask mask_eq_exp_minus_1)

lemma fits_weaken: "fits m v \<Longrightarrow> m \<le> n \<Longrightarrow> n \<le> 32 \<Longrightarrow> fits n v"
  unfolding fits_def by (auto elim: less_le_trans intro: power_increasing)

lemma csr_octet:
  assumes "fits 3 c" "fits 4 t"
  shows "fits 8 (push_bit 4 (c AND 0x07) OR (t AND 0x0F))"
    "drop_bit 4 (push_bit 4 (c AND 0x07) OR (t AND 0x0F)) AND 0x07 = c"
    "(push_bit 4 (c AND 0x07) OR (t AND 0x0F)) AND 0x0F = t"
  using pack_fields [OF assms, of 4] fits_take_bit [OF assms(1)] fits_take_bit [OF assms(2)]
    fits_weaken [of 7 "push_bit 4 c OR t" 8]
  by (simp_all only: and_masks) simp_all

lemma csp_octet:
  assumes "fits 2 c" "fits 4 t"
  shows "fits 8 (push_bit 5 (c AND 0x03) OR (t AND 0x0F))"
    "drop_bit 5 (push_bit 5 (c AND 0x03) OR (t AND 0x0F)) AND 0x03 = c"
    "(push_bit 5 (c AND 0x03) OR (t AND 0x0F)) AND 0x0F = t"
  using pack_fields [OF assms, of 5] fits_take_bit [OF assms(1)] fits_take_bit [OF assms(2)]
    fits_weaken [of 7 "push_bit 5 c OR t" 8]
  by (simp_all only: and_masks) simp_all

lemma lur_octet:
  fixes f :: bool
  assumes "fits 3 c" "fits 2 u"
  defines "w \<equiv> push_bit 4 (c AND 0x07) OR (if f then 0x08 else 0) OR (u AND 0x03)"
  shows "fits 8 w" "drop_bit 4 w AND 0x07 = c" "drop_bit 3 w AND 0x01 \<noteq> 0 \<longleftrightarrow> f" "w AND 0x03 = u"
proof -
  let ?low = "push_bit 3 (of_bool f) OR u :: u32"
  have c: "c AND 0x07 = c" and u: "u AND 0x03 = u"
    using fits_take_bit [OF assms(1)] fits_take_bit [OF assms(2)] by (simp_all add: and_masks)
  have b: "fits 1 (of_bool f)" by simp
  have w: "w = push_bit 4 c OR ?low" unfolding w_def c u by (cases f) (simp_all add: or.assoc)
  note low = pack_fields [OF b assms(2), of 3]
  have l4: "fits 4 ?low" using low(1) by simp
  note all = pack_fields [OF assms(1) l4, of 4]
  show "fits 8 w" using all(1) fits_weaken [of 7 w 8] by (simp add: w)
  show "drop_bit 4 w AND 0x07 = c" unfolding and_masks w using all(2) by simp
  have w4: "take_bit 4 w = ?low" unfolding w using all(3) by simp
  have "take_bit 1 (drop_bit 3 w) = drop_bit 3 (take_bit 4 w)" by (simp add: drop_bit_take_bit)
  also have "\<dots> = drop_bit 3 (take_bit 4 ?low)" unfolding w4 fits_take_bit [OF l4] ..
  also have "\<dots> = take_bit 1 (drop_bit 3 ?low)" by (simp only: drop_bit_take_bit) simp
  finally show "drop_bit 3 w AND 0x01 \<noteq> 0 \<longleftrightarrow> f" unfolding and_masks using low(2) by (simp only: of_bool_eq_0_iff not_not)
  have "take_bit 2 w = take_bit 2 (take_bit 4 w)" by simp
  then show "w AND 0x03 = u" unfolding and_masks w4 using low(3) by simp
qed

lemma low3: "fits 3 c \<Longrightarrow> c AND 0x07 = c \<and> fits 8 c"
  using fits_take_bit [of 3 c] fits_weaken [of 3 c 8] by (simp add: and_masks)

section \<open>The domain decodes its bodies\<close>

lemma det_decodes: "mm_wf (IMSIDetachIndication x) \<Longrightarrow> decodes det_parse (mm_wire (IMSIDetachIndication x)) x"
  unfolding det_parse_def mm_wire.simps
  by (intro decodes_bind [OF cm1.ie_accepts] decodes_end [OF accepts_lv_mi]) simp_all

lemma cm2_field:
  "cm2_wf c \<Longrightarrow> decodes (f c) bs y \<Longrightarrow>
     decodes (rbind (readField 8) (\<lambda>len. rbind (cm2_parse (unat len)) f)) (nbits 8 (of_nat (cm2_lengthV c)) @ cm2_wire c @ bs) y"
  using lengthV_bounds(2) [of c] cm2_accepts [of c]
  by (intro decodes_field) (simp_all add: fits_8 decodes_bind)

lemma csr_decodes:
  assumes "mm_wf (CMServiceRequest x)"
  shows "decodes csr_parse (mm_wire (CMServiceRequest x)) x"
proof -
  have t: "fits 4 (ucast (csr_serviceType x))" using assms by (simp add: fits_narrow)
  have c: "fits 3 (csr_cksn x)" using assms by simp
  show ?thesis
    unfolding csr_parse_def mm_wire.simps
    using assms by (intro decodes_field cm2_field decodes_bind [OF accepts_lv_mi] decodes_map [OF decodes_readOpaqueTail])
      (simp_all only: csr_octet [OF c t], simp_all)
qed

lemma csp_decodes:
  assumes "mm_wf (CMServicePrompt x)"
  shows "decodes csp_parse (mm_wire (CMServicePrompt x)) x"
proof -
  have f: "fits 2 (csp_sapi x)" "fits 4 (csp_pd x)" using assms by simp_all
  show ?thesis
    unfolding csp_parse_def mm_wire.simps by (rule decodes_end [OF accepts_readField]) (simp_all only: csp_octet [OF f], simp)
qed

lemma crr_decodes:
  assumes "mm_wf (CMReestablishmentRequest x)"
  shows "decodes crr_parse (mm_wire (CMReestablishmentRequest x)) x"
proof -
  have c: "crr_cksn x AND 0x07 = crr_cksn x" "fits 8 (crr_cksn x)" using low3 [of "crr_cksn x"] assms by simp_all
  show ?thesis
  proof (cases "crr_haveLAI x")
    case True
    have peek: "peekTLVType 0x13 br = True" if "br_ok br" "upcoming br = tlv_lai_wire (crr_lai x) 0x13" for br
      using that peek_tag [of br "0x13"] by (simp add: tlv_lai_wire_def fits_def)
    show ?thesis
      unfolding crr_parse_def mm_wire.simps c(1) if_P [OF True]
      using assms c True
      by (intro decodes_field cm2_field decodes_bind [OF accepts_lv_mi] decodes_get [OF peek])
        (simp_all add: decodes_end [OF accepts_tlv_lai])
  next
    case False
    have peek: "peekTLVType 0x13 br = False" if "br_ok br" "upcoming br = []" for br
      using that peek_octets [of br "[]"] by simp
    have "x = \<lparr>crr_cksn = crr_cksn x, crr_classmark = crr_classmark x, crr_mobileID = crr_mobileID x, crr_haveLAI = False, crr_lai = lai0\<rparr>"
      using assms False by simp
    then show ?thesis
      unfolding crr_parse_def mm_wire.simps c(1) if_not_P [OF False]
      using assms c decodes_return [of x]
      by (intro decodes_field cm2_field decodes_bind [OF accepts_lv_mi] decodes_get [OF peek]) (simp_all add: c(1))
  qed
qed

lemma idr_decodes: "mm_wf (IdentityRequest ty) \<Longrightarrow> decodes idr_parse (mm_wire (IdentityRequest ty)) ty"
  unfolding idr_parse_def mm_wire.simps by (intro accepts_decodes field_rules) (simp_all add: fits_narrow)

lemma mmi_decodes:
  assumes "mm_wf (MMInformation x)"
  shows "decodes mmi_parse (mm_wire (MMInformation x)) x"
proof -
  have t: "decodes (rbind (parseTVTZ 0x47) (\<lambda>t. rreturn \<lparr>mmi_shortName = mmi_shortName x, mmi_time = t\<rparr>))
      (tv_tz_wire (mmi_time x) 0x47) x"
    using assms by (intro decodes_end [OF accepts_tv_tz]) simp_all
  show ?thesis
  proof (cases "nn_lengthV (mmi_shortName x) > 1")
    case True
    have peek: "peekTLVType 0x45 br = True" if "br_ok br" "upcoming br = tlv_nn_wire (mmi_shortName x) 0x45 @ bs" for br bs
      using that peek_tag [of br "0x45"] by (simp add: tlv_nn_wire_def fits_def)
    show ?thesis
      unfolding mmi_parse_def mm_wire.simps if_P [OF True]
      using assms t by (intro decodes_get [OF peek]) (simp_all add: decodes_bind [OF accepts_tlv_nn])
  next
    case False
    have peek: "peekTLVType 0x45 br = False" if "br_ok br" "upcoming br = [] @ tv_tz_wire (mmi_time x) 0x47" for br
      using that peek_tag [of br "0x47"] by (simp add: tv_tz_wire_def fits_def)
    show ?thesis
      unfolding mmi_parse_def mm_wire.simps if_not_P [OF False]
      using assms False t by (intro decodes_get [OF peek]) (simp_all add: decodes_none)
  qed
qed

lemma follow_decodes:
  "decodes (rbind (rget (\<lambda>br. peekField 8 br = 0xa1)) (\<lambda>follow br. (Inr (g follow), if follow then snd (readField 8 br) else br)))
     (if f then nbits 8 0xa1 else []) (g f)"
proof (cases f)
  case True
  have a: "fits 8 0xa1" by (simp add: fits_def)
  show ?thesis
    unfolding decodes_def
  proof (intro allI impI)
    fix br assume br: "br_ok br" "upcoming br = (if f then nbits 8 0xa1 else [])"
    then have u: "upcoming br = nbits 8 0xa1 @ []" using True by simp
    obtain br1 where "readField 8 br = (Inr 0xa1, br1)" "br_ok br1" "upcoming br1 = []"
      by (rule acceptsD [OF accepts_readField [OF a] br(1) u])
    then show "\<exists>br1. rbind (rget (\<lambda>br. peekField 8 br = 0xa1))
        (\<lambda>follow br. (Inr (g follow), if follow then snd (readField 8 br) else br)) br = (Inr (g f), br1) \<and>
        br_ok br1 \<and> upcoming br1 = []"
      using peek_8(1) [OF br(1) u a] True by (simp add: rbind_def rget_def)
  qed
next
  case False
  then show ?thesis using peek_end by (simp add: decodes_def rbind_def rget_def)
qed

lemma lua_decodes:
  assumes "mm_wf (LocationUpdatingAccept x)"
  shows "decodes lua_parse (mm_wire (LocationUpdatingAccept x)) x"
proof -
  let ?tail = "\<lambda>have_mi mi. rbind (rget (\<lambda>br. peekField 8 br = 0xa1)) (\<lambda>follow br.
     (Inr \<lparr>lua_lai = lua_lai x, lua_followOnProceed = follow, lua_haveMobileIdentity = have_mi, lua_mobileIdentity = mi\<rparr>,
      if follow then snd (readField 8 br) else br))"
  let ?f = "if lua_followOnProceed x then nbits 8 0xa1 else []"
  have x: "\<lparr>lua_lai = lua_lai x, lua_followOnProceed = lua_followOnProceed x, lua_haveMobileIdentity = lua_haveMobileIdentity x,
      lua_mobileIdentity = lua_mobileIdentity x\<rparr> = x" by simp
  have e: "decodes (?tail (lua_haveMobileIdentity x) (lua_mobileIdentity x)) ?f x"
    using follow_decodes [of "\<lambda>f. \<lparr>lua_lai = lua_lai x, lua_followOnProceed = f, lua_haveMobileIdentity = lua_haveMobileIdentity x,
      lua_mobileIdentity = lua_mobileIdentity x\<rparr>" "lua_followOnProceed x"] unfolding x by simp
  show ?thesis
  proof (cases "lua_haveMobileIdentity x")
    case True
    have peek: "peekTLVType 0x17 br = True" if "br_ok br" "upcoming br = tlv_mi_wire (lua_mobileIdentity x) 0x17 @ bs" for br bs
      using that peek_tag [of br "0x17"] by (simp add: tlv_mi_wire_def fits_def)
    show ?thesis
      unfolding lua_parse_def mm_wire.simps if_P [OF True]
      using assms e True by (intro decodes_bind [OF lai.ie_accepts] decodes_get [OF peek]) (simp_all add: decodes_bind [OF accepts_tlv_mi])
  next
    case False
    have peek: "peekTLVType 0x17 br = False" if "br_ok br" "upcoming br = [] @ ?f" for br
      using that peek_tag [of br "0xa1" "[]"] peek_octets [of br "[]"] by (simp add: fits_def split: if_splits)
    show ?thesis
      unfolding lua_parse_def mm_wire.simps if_not_P [OF False]
      using assms e False by (intro decodes_bind [OF lai.ie_accepts] decodes_get [OF peek]) (simp_all add: decodes_none)
  qed
qed

lemma lur_decodes:
  assumes "mm_wf (LocationUpdatingRequest x)"
  shows "decodes lur_parse (mm_wire (LocationUpdatingRequest x)) x"
proof -
  have f: "fits 3 (lur_cksn x)" "fits 2 (lur_updateType x)" using assms by simp_all
  show ?thesis
    unfolding lur_parse_def mm_wire.simps
    using assms by (intro decodes_field decodes_bind [OF lai.ie_accepts] decodes_bind [OF cm1.ie_accepts]
        decodes_bind [OF accepts_lv_mi] decodes_map [OF decodes_readOpaqueTail]) (simp_all only: lur_octet [OF f], simp_all)
qed

lemma trc_decodes: "mm_wf (TMSIReallocationCommand x) \<Longrightarrow> decodes trc_parse (mm_wire (TMSIReallocationCommand x)) x"
  unfolding trc_parse_def mm_wire.simps
  by (intro decodes_bind [OF lai.ie_accepts] decodes_end [OF accepts_lv_mi]) simp_all

lemma aur_decodes: "mm_wf (AuthenticationRequest x) \<Longrightarrow> decodes aur_parse (mm_wire (AuthenticationRequest x)) x"
  unfolding aur_parse_def mm_wire.simps using low3 [of "aur_cksn x"]
  by (intro decodes_field decodes_bind [OF accepts_readOctets] decodes_map [OF decodes_readOpaqueTail]) simp_all

lemma ars_decodes: "decodes ars_parse (mm_wire (AuthenticationResponse x)) x"
  unfolding ars_parse_def mm_wire.simps by (intro decodes_field decodes_map [OF decodes_readOpaqueTail]) simp_all

lemma u32_seven: "(0x7F :: u32) = mask 7"
  by (simp add: mask_eq_exp_minus_1)

lemma masked_octet: "(ucast (b :: u8) AND 0x7F :: u32) = 0x22 \<longleftrightarrow> b AND 0x7F = 0x22"
proof -
  have "(ucast b AND 0x7F :: u32) = ucast (b AND 0x7F)" by (rule bit_word_eqI) (auto simp: bit_simps seven_bits u32_seven)
  moreover have "w = 0x22" if "ucast w = (0x22 :: u32)" for w :: u8
    using arg_cong [OF that, of "ucast :: u32 \<Rightarrow> u8"] by simp
  ultimately show ?thesis by auto
qed

lemma auf_decodes:
  assumes "mm_wf (AuthenticationFailure x)"
  shows "decodes auf_parse (mm_wire (AuthenticationFailure x)) x"
proof (cases "auf_haveAUTS x")
  case True
  let ?rest = "nbits 8 0x10 @ bits_of (auf_auts x)"
  have peek: "peekTLVType 0x22 br = True" if "br_ok br" "upcoming br = (nbits 8 0x22 @ ?rest) @ bs" for br bs
    using that peek_tag [of br "0x22"] by (simp add: fits_def)
  have auts: "accepts (rbind (readField 8) (\<lambda>_. rbind (readField 8) (\<lambda>len.
      if len \<noteq> 16 then rfail InvalidValue ''authentication failure parameter length must be 16'' else readOctets 16)))
      (nbits 8 0x22 @ ?rest) (auf_auts x)"
    using assms True by (intro accepts_field) (simp_all add: fits_def accepts_readOctets)
  show ?thesis
    unfolding auf_parse_def mm_wire.simps if_P [OF True]
    using True by (intro decodes_field decodes_get [OF peek])
      (simp_all add: decodes_bind [OF auts, simplified] decodes_map [OF decodes_readOpaqueTail])
next
  case False
  have peek: "peekTLVType 0x22 br = False" if "br_ok br" "upcoming br = [] @ bits_of (auf_additionalIes x)" for br
    using that assms False peek_octets [of br "auf_additionalIes x"] by (auto simp: masked_octet split: list.splits)
  show ?thesis
    unfolding auf_parse_def mm_wire.simps if_not_P [OF False]
    using assms False by (intro decodes_field decodes_get [OF peek])
      (simp_all add: decodes_none decodes_map [OF decodes_readOpaqueTail])
qed

lemma mm_decodes: "mm_wf m \<Longrightarrow> decodes (parseL3MM (mm_mti m)) (mm_wire m) m"
  by (cases m)
    (simp_all only: mm_mti.simps parseL3MM_def,
     simp_all add: decodes_rmap decodes_return det_decodes csr_decodes csp_decodes crr_decodes idr_decodes mmi_decodes lua_decodes
       lur_decodes trc_decodes aur_decodes ars_decodes auf_decodes accepts_decodes accepts_lv_mi cause.ie_accepts
       del: mm_wf.simps mm_wire.simps,
     simp_all add: decodes_rmap decodes_return accepts_decodes accepts_lv_mi cause.ie_accepts)

interpretation mm: domain_codec MobilityManagement mm_mti "\<lambda>_. 0" mm_bodyLength "\<lambda>mti _. parseL3MM mti" mm_write mm_wire mm_wf
proof (unfold_locales, goal_cases)
  case (1 m) show ?case by (rule mm_emits)
next
  case (2 m) then show ?case by (rule mm_decodes)
next
  case (3 m) then show ?case by (rule length_mm_wire)
next
  case (4 m) then show ?case by (rule mm_bodyLength_small)
next
  case (5 m) show ?case by (cases m) (simp_all add: kRRTifShortBase_def header_ok_def)
qed simp_all

end
