(* ===== verification/Opaque_Domains.thy ===== *)
theory Opaque_Domains
  imports Identity_Codec L3_Framing
begin

text \<open>
  The domains whose bodies the library carries verbatim: broadcast and group call control (\<^verbatim>\<open>bcc\<close>, \<^verbatim>\<open>gcc\<close>), location
  services (\<^verbatim>\<open>ls\<close>), and the three domains whose message type is taken from the header at run time (\<^verbatim>\<open>pdss1\<close>,
  \<^verbatim>\<open>extended\<close>, \<^verbatim>\<open>testproc\<close>). Each satisfies \<open>domain_codec\<close>.
\<close>

section \<open>Reading a body\<close>

text \<open>The helper of the two call control domains ends its loop at an error; the other domains return the error.\<close>

definition readBodyBytes :: "bytes parser" where
  "readBodyBytes = octet_loop (\<lambda>_. Inr [])"

definition readBodyOctets :: "bytes parser" where
  "readBodyOctets = octet_loop Inl"

definition writeBody :: "bytes \<Rightarrow> writer" where
  "writeBody body = (if body \<noteq> [] then writeBytes body else wdo [])"

lemma decodes_bodies: "decodes readBodyBytes (bits_of bs) bs" "decodes readBodyOctets (bits_of bs) bs"
  unfolding readBodyBytes_def readBodyOctets_def by (rule decodes_octet_loop)+

lemma emits_writeBody: "emits (writeBody bs) (bits_of bs)"
  by (simp add: writeBody_def emits_writeBytes emits_wdo_Nil)

section \<open>Broadcast call control\<close>

text \<open>Each message holds its transaction identifier and, where the class has one, its body.\<close>

datatype BCCM =
    BCCSetup u32 bytes
  | BCCProceeding u32 bytes
  | BCCConnect u32 bytes
  | BCCDisconnect u32 bytes
  | BCCRelease u32 bytes
  | BCCReleaseComplete u32 bytes
  | BCCCallConfirmed u32
  | BCCConnectAcknowledge u32

fun bcc_mti :: "BCCM \<Rightarrow> int" where
  "bcc_mti (BCCSetup _ _) = 0x00"
| "bcc_mti (BCCProceeding _ _) = 0x01"
| "bcc_mti (BCCCallConfirmed _) = 0x04"
| "bcc_mti (BCCConnect _ _) = 0x05"
| "bcc_mti (BCCDisconnect _ _) = 0x06"
| "bcc_mti (BCCRelease _ _) = 0x07"
| "bcc_mti (BCCConnectAcknowledge _) = 0x09"
| "bcc_mti (BCCReleaseComplete _ _) = 0x0a"

fun bcc_ti :: "BCCM \<Rightarrow> u32" where
  "bcc_ti (BCCSetup t _) = t"
| "bcc_ti (BCCProceeding t _) = t"
| "bcc_ti (BCCConnect t _) = t"
| "bcc_ti (BCCDisconnect t _) = t"
| "bcc_ti (BCCRelease t _) = t"
| "bcc_ti (BCCReleaseComplete t _) = t"
| "bcc_ti (BCCCallConfirmed t) = t"
| "bcc_ti (BCCConnectAcknowledge t) = t"

fun bcc_body :: "BCCM \<Rightarrow> bytes" where
  "bcc_body (BCCSetup _ b) = b"
| "bcc_body (BCCProceeding _ b) = b"
| "bcc_body (BCCConnect _ b) = b"
| "bcc_body (BCCDisconnect _ b) = b"
| "bcc_body (BCCRelease _ b) = b"
| "bcc_body (BCCReleaseComplete _ b) = b"
| "bcc_body (BCCCallConfirmed _) = []"
| "bcc_body (BCCConnectAcknowledge _) = []"

definition bcc_bodyLength :: "BCCM \<Rightarrow> nat" where
  "bcc_bodyLength m = length (bcc_body m)"

fun bcc_write :: "BCCM \<Rightarrow> writer" where
  "bcc_write (BCCSetup _ b) = writeBody b"
| "bcc_write (BCCProceeding _ b) = writeBody b"
| "bcc_write (BCCConnect _ b) = writeBody b"
| "bcc_write (BCCDisconnect _ b) = writeBody b"
| "bcc_write (BCCRelease _ b) = writeBody b"
| "bcc_write (BCCReleaseComplete _ b) = writeBody b"
| "bcc_write (BCCCallConfirmed _) = wdo []"
| "bcc_write (BCCConnectAcknowledge _) = wdo []"

definition parseL3BCC :: "int \<Rightarrow> u32 \<Rightarrow> BCCM parser" where
  "parseL3BCC mti ti =
     (if mti = 0x00 then rmap (BCCSetup ti) readBodyBytes
      else if mti = 0x01 then rmap (BCCProceeding ti) readBodyBytes
      else if mti = 0x04 then rreturn (BCCCallConfirmed ti)
      else if mti = 0x05 then rmap (BCCConnect ti) readBodyBytes
      else if mti = 0x06 then rmap (BCCDisconnect ti) readBodyBytes
      else if mti = 0x07 then rmap (BCCRelease ti) readBodyBytes
      else if mti = 0x09 then rreturn (BCCConnectAcknowledge ti)
      else if mti = 0x0a then rmap (BCCReleaseComplete ti) readBodyBytes
      else rfail InvalidMTI ''Unknown BCC MTI'')"

section \<open>Group call control\<close>

datatype GCCM =
    GCCSetup u32 bytes
  | GCCAcknowledge u32 bytes
  | GCCProceeding u32 bytes
  | GCCConnect u32 bytes
  | GCCDisconnect u32 bytes
  | GCCRelease u32 bytes
  | GCCReleaseComplete u32 bytes
  | GCCCallConfirmed u32

fun gcc_mti :: "GCCM \<Rightarrow> int" where
  "gcc_mti (GCCSetup _ _) = 0x00"
| "gcc_mti (GCCProceeding _ _) = 0x01"
| "gcc_mti (GCCAcknowledge _ _) = 0x02"
| "gcc_mti (GCCCallConfirmed _) = 0x03"
| "gcc_mti (GCCConnect _ _) = 0x05"
| "gcc_mti (GCCDisconnect _ _) = 0x06"
| "gcc_mti (GCCRelease _ _) = 0x07"
| "gcc_mti (GCCReleaseComplete _ _) = 0x0a"

fun gcc_ti :: "GCCM \<Rightarrow> u32" where
  "gcc_ti (GCCSetup t _) = t"
| "gcc_ti (GCCAcknowledge t _) = t"
| "gcc_ti (GCCProceeding t _) = t"
| "gcc_ti (GCCConnect t _) = t"
| "gcc_ti (GCCDisconnect t _) = t"
| "gcc_ti (GCCRelease t _) = t"
| "gcc_ti (GCCReleaseComplete t _) = t"
| "gcc_ti (GCCCallConfirmed t) = t"

fun gcc_body :: "GCCM \<Rightarrow> bytes" where
  "gcc_body (GCCSetup _ b) = b"
| "gcc_body (GCCAcknowledge _ b) = b"
| "gcc_body (GCCProceeding _ b) = b"
| "gcc_body (GCCConnect _ b) = b"
| "gcc_body (GCCDisconnect _ b) = b"
| "gcc_body (GCCRelease _ b) = b"
| "gcc_body (GCCReleaseComplete _ b) = b"
| "gcc_body (GCCCallConfirmed _) = []"

definition gcc_bodyLength :: "GCCM \<Rightarrow> nat" where
  "gcc_bodyLength m = length (gcc_body m)"

fun gcc_write :: "GCCM \<Rightarrow> writer" where
  "gcc_write (GCCSetup _ b) = writeBody b"
| "gcc_write (GCCAcknowledge _ b) = writeBody b"
| "gcc_write (GCCProceeding _ b) = writeBody b"
| "gcc_write (GCCConnect _ b) = writeBody b"
| "gcc_write (GCCDisconnect _ b) = writeBody b"
| "gcc_write (GCCRelease _ b) = writeBody b"
| "gcc_write (GCCReleaseComplete _ b) = writeBody b"
| "gcc_write (GCCCallConfirmed _) = wdo []"

definition parseL3GCC :: "int \<Rightarrow> u32 \<Rightarrow> GCCM parser" where
  "parseL3GCC mti ti =
     (if mti = 0x00 then rmap (GCCSetup ti) readBodyBytes
      else if mti = 0x01 then rmap (GCCProceeding ti) readBodyBytes
      else if mti = 0x02 then rmap (GCCAcknowledge ti) readBodyBytes
      else if mti = 0x03 then rreturn (GCCCallConfirmed ti)
      else if mti = 0x05 then rmap (GCCConnect ti) readBodyBytes
      else if mti = 0x06 then rmap (GCCDisconnect ti) readBodyBytes
      else if mti = 0x07 then rmap (GCCRelease ti) readBodyBytes
      else if mti = 0x0a then rmap (GCCReleaseComplete ti) readBodyBytes
      else rfail InvalidMTI ''Unknown GCC MTI'')"

section \<open>Location services\<close>

datatype LSM = LocationServiceRequest bytes | LocationServiceProviderMessage bytes

fun ls_mti :: "LSM \<Rightarrow> int" where
  "ls_mti (LocationServiceRequest _) = 0x01"
| "ls_mti (LocationServiceProviderMessage _) = 0x02"

fun ls_body :: "LSM \<Rightarrow> bytes" where
  "ls_body (LocationServiceRequest b) = b"
| "ls_body (LocationServiceProviderMessage b) = b"

fun ls_write :: "LSM \<Rightarrow> writer" where
  "ls_write (LocationServiceRequest b) = writeOctets b"
| "ls_write (LocationServiceProviderMessage b) = writeOctets b"

definition parseL3LS :: "int \<Rightarrow> LSM parser" where
  "parseL3LS mti =
     (if mti = 0x01 then rmap LocationServiceRequest readBodyOctets
      else if mti = 0x02 then rmap LocationServiceProviderMessage readBodyOctets
      else rfail InvalidMTI ''Unknown LS MTI'')"

section \<open>Message types given at run time\<close>

text \<open>
  \<^verbatim>\<open>L3PDSS1Message\<close>, \<^verbatim>\<open>L3ExtendedMessage\<close> and \<^verbatim>\<open>L3TestProcedureMessage\<close> have the same members and the same code.
\<close>

record RuntimeMessage =
  rtm_mti :: u8
  rtm_body :: bytes

definition rtm_parse :: "u8 \<Rightarrow> RuntimeMessage parser" where
  "rtm_parse parsedMti = rmap (\<lambda>b. \<lparr>rtm_mti = parsedMti, rtm_body = b\<rparr>) readBodyOctets"

definition rtm_write :: "RuntimeMessage \<Rightarrow> writer" where
  "rtm_write m = writeOctets (rtm_body m)"

definition rtm_bodyLength :: "RuntimeMessage \<Rightarrow> nat" where
  "rtm_bodyLength m = length (rtm_body m)"

text \<open>The dispatcher narrows the message type of the header to an octet.\<close>

definition parseL3PDSS1 :: "int \<Rightarrow> RuntimeMessage parser" where
  "parseL3PDSS1 mti = rtm_parse (word_of_int mti)"

definition parseL3Extended :: "int \<Rightarrow> RuntimeMessage parser" where
  "parseL3Extended mti = rtm_parse (word_of_int mti)"

definition parseL3TestProc :: "int \<Rightarrow> RuntimeMessage parser" where
  "parseL3TestProc mti = rtm_parse (word_of_int mti)"

section \<open>The domains satisfy the contract\<close>

text \<open>
  A body of two octets makes a frame of four, which for the two call control discriminators is tried as a Handover Access
  first; the other restrictions are the width of the transaction identifier and a bound on the length.
\<close>

definition group_call_wf :: "u32 \<Rightarrow> bytes \<Rightarrow> bool" where
  "group_call_wf ti body \<longleftrightarrow> fits 3 ti \<and> length body \<noteq> 2 \<and> length body < 2 ^ 16"

interpretation bcc: domain_codec BroadcastCallControl bcc_mti bcc_ti bcc_bodyLength parseL3BCC bcc_write
  "\<lambda>m. bits_of (bcc_body m)" "\<lambda>m. group_call_wf (bcc_ti m) (bcc_body m)"
proof (unfold_locales, goal_cases)
  case (1 m)
  show ?case by (cases m) (simp_all add: emits_writeBody emits_wdo_Nil)
next
  case (2 m)
  show ?case by (cases m) (simp_all add: parseL3BCC_def decodes_rmap decodes_bodies decodes_return)
next
  case (5 m)
  then show ?case by (cases m) (simp_all add: kRRTifShortBase_def header_ok_def group_call_wf_def)
qed (simp_all add: bcc_bodyLength_def group_call_wf_def)

interpretation gcc: domain_codec GroupCallControl gcc_mti gcc_ti gcc_bodyLength parseL3GCC gcc_write
  "\<lambda>m. bits_of (gcc_body m)" "\<lambda>m. group_call_wf (gcc_ti m) (gcc_body m)"
proof (unfold_locales, goal_cases)
  case (1 m)
  show ?case by (cases m) (simp_all add: emits_writeBody emits_wdo_Nil)
next
  case (2 m)
  show ?case by (cases m) (simp_all add: parseL3GCC_def decodes_rmap decodes_bodies decodes_return)
next
  case (5 m)
  then show ?case by (cases m) (simp_all add: kRRTifShortBase_def header_ok_def group_call_wf_def)
qed (simp_all add: gcc_bodyLength_def group_call_wf_def)

interpretation ls: domain_codec PD_Location ls_mti "\<lambda>_. 0" "\<lambda>m. length (ls_body m)" "\<lambda>mti _. parseL3LS mti" ls_write
  "\<lambda>m. bits_of (ls_body m)" "\<lambda>m. length (ls_body m) < 2 ^ 16"
proof (unfold_locales, goal_cases)
  case (1 m)
  show ?case by (cases m) (simp_all add: emits_writeOctets)
next
  case (2 m)
  show ?case by (cases m) (simp_all add: parseL3LS_def decodes_rmap decodes_bodies)
next
  case (5 m)
  show ?case by (cases m) (simp_all add: kRRTifShortBase_def header_ok_def)
qed simp_all

lemma rtm_codec:
  assumes "p \<in> {PacketDomainSupplementaryServices1, PacketDomainSupplementaryServices2, TestProcedure}"
  shows "domain_codec p (\<lambda>m. uint (rtm_mti m)) (\<lambda>_. 0) rtm_bodyLength (\<lambda>mti _. rtm_parse (word_of_int mti)) rtm_write
    (\<lambda>m. bits_of (rtm_body m)) (\<lambda>m. length (rtm_body m) < 2 ^ 16)"
proof (unfold_locales, goal_cases)
  case (1 m)
  show ?case by (simp add: rtm_write_def emits_writeOctets)
next
  case (2 m)
  have m: "\<lparr>rtm_mti = rtm_mti m, rtm_body = rtm_body m\<rparr> = m" by simp
  show ?case
    using decodes_rmap [OF decodes_bodies(2), of "\<lambda>b. \<lparr>rtm_mti = rtm_mti m, rtm_body = b\<rparr>" "rtm_body m"]
    unfolding m by (simp add: rtm_parse_def)
next
  case (5 m)
  then show ?case using assms unsigned_less [of "rtm_mti m", where ?'a = int] unsigned_greater_eq [of "rtm_mti m", where ?'a = int] by (auto simp: kRRTifShortBase_def header_ok_def)
qed (use assms in \<open>auto simp: rtm_bodyLength_def\<close>)

interpretation pdss1: domain_codec PacketDomainSupplementaryServices1 "\<lambda>m. uint (rtm_mti m)" "\<lambda>_. 0" rtm_bodyLength
  "\<lambda>mti _. parseL3PDSS1 mti" rtm_write "\<lambda>m. bits_of (rtm_body m)" "\<lambda>m. length (rtm_body m) < 2 ^ 16"
  unfolding parseL3PDSS1_def by (rule rtm_codec) simp

interpretation ext: domain_codec PacketDomainSupplementaryServices2 "\<lambda>m. uint (rtm_mti m)" "\<lambda>_. 0" rtm_bodyLength
  "\<lambda>mti _. parseL3Extended mti" rtm_write "\<lambda>m. bits_of (rtm_body m)" "\<lambda>m. length (rtm_body m) < 2 ^ 16"
  unfolding parseL3Extended_def by (rule rtm_codec) simp

interpretation testproc: domain_codec TestProcedure "\<lambda>m. uint (rtm_mti m)" "\<lambda>_. 0" rtm_bodyLength
  "\<lambda>mti _. parseL3TestProc mti" rtm_write "\<lambda>m. bits_of (rtm_body m)" "\<lambda>m. length (rtm_body m) < 2 ^ 16"
  unfolding parseL3TestProc_def by (rule rtm_codec) simp

end
