(* ===== verification/Ie_Loop.thy ===== *)
theory Ie_Loop
  imports Identity_Codec
begin

text \<open>
  Optional information elements: the loop \<^verbatim>\<open>while (br.hasMore())\<close> in which most message parsers read a tag and then the
  element it announces, and the writers that put a tag and a length before a value.
\<close>

unbundle bit_operations_syntax

section \<open>The loop\<close>

definition unread :: "BitReader \<Rightarrow> nat" where
  "unread br = br_totalBits br - br_pos br"

text \<open>
  One turn of the loop is a parser that updates the message read so far. The second test makes the recursion well-founded;
  it holds of every turn that reads a tag (\<open>ie_loop_unfold\<close>), so it is the loop of the source.
\<close>

function ie_loop :: "('m \<Rightarrow> 'm parser) \<Rightarrow> 'm \<Rightarrow> 'm parser" where
  "ie_loop turn m br =
     (if hasMore br
      then case turn m br of
             (Inl e, br1) \<Rightarrow> (Inl e, br1)
           | (Inr m1, br1) \<Rightarrow> if unread br1 < unread br then ie_loop turn m1 br1 else (Inr m1, br1)
      else (Inr m, br))"
  by pat_completeness auto

termination ie_loop
  by (relation "measure (\<lambda>(_, _, br). unread br)") auto

declare ie_loop.simps [simp del]

definition advances :: "('m \<Rightarrow> 'm parser) \<Rightarrow> bool" where
  "advances turn \<longleftrightarrow> (\<forall>m br m1 br1. hasMore br \<longrightarrow> turn m br = (Inr m1, br1) \<longrightarrow> unread br1 < unread br)"

lemma ie_loop_unfold:
  "advances turn \<Longrightarrow>
     ie_loop turn m br =
       (if hasMore br
        then case turn m br of (Inl e, br1) \<Rightarrow> (Inl e, br1) | (Inr m1, br1) \<Rightarrow> ie_loop turn m1 br1
        else (Inr m, br))"
  unfolding advances_def by (subst ie_loop.simps) (fastforce split: prod.splits sum.splits)

text \<open>Parsers that never move back.\<close>

definition steady :: "'a parser \<Rightarrow> bool" where
  "steady p \<longleftrightarrow> (\<forall>br. unread (snd (p br)) \<le> unread br)"

named_theorems steady_rules \<open>parsers that never move back\<close>

lemma steady_primitive [steady_rules]:
  "steady (readField n)" "steady (readBytes n)" "steady (rreturn x)" "steady (rfail c msg)" "steady (rget g)"
proof -
  show "steady (readField n)" "steady (readBytes n)"
    using readField_forward readBytes_forward by (simp_all add: steady_def unread_def forward_def diff_le_mono2)
qed (simp_all add: steady_def rreturn_def rfail_def rget_def)

lemma steady_bind [steady_rules]: "steady p \<Longrightarrow> (\<And>x. steady (f x)) \<Longrightarrow> steady (rbind p f)"
  unfolding steady_def
proof
  fix br assume p: "\<forall>br. unread (snd (p br)) \<le> unread br" and f: "\<And>x. \<forall>br. unread (snd (f x br)) \<le> unread br"
  obtain r br1 where 1: "p br = (r, br1)" by fastforce
  then have "unread br1 \<le> unread br" using p by (metis snd_conv)
  then show "unread (snd (rbind p f br)) \<le> unread br" using 1 f by (cases r) (auto simp: rbind_def intro: order_trans)
qed

lemma steady_if [steady_rules]: "steady p \<Longrightarrow> steady q \<Longrightarrow> steady (if c then p else q)"
  by simp

lemma steady_map [steady_rules]: "steady p \<Longrightarrow> steady (rmap f p)"
  unfolding rmap_def by (intro steady_rules)

lemma steady_octets [steady_rules]: "steady (readOctets n)"
  by (induction n) (auto intro!: steady_rules)

lemma steady_octet_loop [steady_rules]: "steady (octet_loop h)"
  unfolding steady_def
proof
  fix br
  show "unread (snd (octet_loop h br)) \<le> unread br"
  proof (induction h br rule: octet_loop.induct)
    case (1 h br)
    have "unread (snd (readField 8 br)) \<le> unread br" using steady_primitive(1) by (simp add: steady_def)
    then show ?case
      using 1 by (subst octet_loop.simps) (fastforce split: prod.splits sum.splits intro: order_trans)
  qed
qed

lemma steadyD: "steady p \<Longrightarrow> p br = (r, br1) \<Longrightarrow> unread br1 \<le> unread br"
  unfolding steady_def by (metis snd_conv)

text \<open>A turn that starts by reading a tag makes progress.\<close>

lemma tag_progress: "0 < n \<Longrightarrow> readField n br = (Inr v, br1) \<Longrightarrow> unread br1 < unread br"
  by (auto simp: readField_def unread_def split: if_splits option.splits)

lemma advances_tag:
  assumes "0 < n" "\<And>m v. steady (body m v)"
  shows "advances (\<lambda>m. rbind (readField n) (body m))"
  unfolding advances_def
proof (intro allI impI)
  fix m br m1 br1 assume "rbind (readField n) (body m) br = (Inr m1, br1)"
  then obtain v br2 where "readField n br = (Inr v, br2)" "body m v br2 = (Inr m1, br1)"
    by (auto simp: rbind_def split: prod.splits sum.splits)
  then show "unread br1 < unread br" using tag_progress [OF assms(1)] steadyD [OF assms(2)] by (meson le_less_trans)
qed

section \<open>What the loop decodes\<close>

lemma decodes_loop_end: "decodes (ie_loop turn m) [] m"
  by (auto simp: decodes_def ie_loop.simps [of turn m br for br] hasMore_upcoming)

lemma decodes_loop_turn:
  assumes "accepts (turn m) as m1" "as \<noteq> []" "decodes (ie_loop turn m1) bs m2"
  shows "decodes (ie_loop turn m) (as @ bs) m2"
  unfolding decodes_def
proof (intro allI impI)
  fix br assume br: "br_ok br" "upcoming br = as @ bs"
  obtain br1 where 1: "turn m br = (Inr m1, br1)" "br_ok br1" "upcoming br1 = bs" by (rule acceptsD [OF assms(1) br])
  have "length (upcoming br1) < length (upcoming br)" using 1(3) br(2) assms(2) by simp
  then have "unread br1 < unread br" by (simp only: length_upcoming [OF br(1)] length_upcoming [OF 1(2)] unread_def)
  moreover have "hasMore br" using br assms(2) by (simp add: hasMore_upcoming)
  ultimately have "ie_loop turn m br = ie_loop turn m1 br1" using 1(1) by (subst ie_loop.simps) simp
  then show "\<exists>br1. ie_loop turn m br = (Inr m2, br1) \<and> br_ok br1 \<and> upcoming br1 = []"
    using decodesD [OF assms(3) 1(2,3)] by metis
qed

text \<open>An element that may be absent, in a message whose fields come in the order of the loop.\<close>

lemma decodes_loop_optional:
  assumes "c \<Longrightarrow> accepts (turn m) as m1" "c \<Longrightarrow> as \<noteq> []" "\<not> c \<Longrightarrow> m1 = m" "decodes (ie_loop turn m1) bs m2"
  shows "decodes (ie_loop turn m) ((if c then as else []) @ bs) m2"
  using assms by (cases c) (simp_all add: decodes_loop_turn)

end
