(* ===== verification/Ss_Messages.thy ===== *)
theory Ss_Messages
  imports Ie_Loop L3_Framing
begin

text \<open>
  Supplementary service messages outside a call (\<^verbatim>\<open>ss/l3ssmessages.cpp\<close>): facility, register and release complete, with the
  elements they carry, the opaque facility octets and the call control cause. The domain satisfies \<open>domain_codec\<close>.
\<close>

unbundle bit_operations_syntax

section \<open>Elements\<close>

record L3OctetAlignedProtocolElement =
  oap_data :: bytes
  oap_extant :: bool

definition oap_none :: L3OctetAlignedProtocolElement where
  "oap_none = \<lparr>oap_data = [], oap_extant = False\<rparr>"

definition oap_lengthV :: "L3OctetAlignedProtocolElement \<Rightarrow> nat" where
  "oap_lengthV e = length (oap_data e)"

definition oap_parse :: "nat \<Rightarrow> L3OctetAlignedProtocolElement parser" where
  "oap_parse lengthBytes = rmap (\<lambda>d. \<lparr>oap_data = d, oap_extant = True\<rparr>) (readBytes lengthBytes)"

definition oap_write :: "L3OctetAlignedProtocolElement \<Rightarrow> writer" where
  "oap_write e = writeOctets (oap_data e)"

text \<open>Location and cause are enumerations over an octet that hold any value of their field after parsing.\<close>

record L3CauseElement =
  ce_location :: u8
  ce_cause :: u8

definition ce_default :: L3CauseElement where
  "ce_default = \<lparr>ce_location = 1, ce_cause = 16\<rparr>"

definition ce_lengthV :: nat where
  "ce_lengthV = 2"

definition ce_parse :: "L3CauseElement parser" where
  "ce_parse =
     rbind (readField 1) (\<lambda>ext. rbind (readField 2) (\<lambda>codingStandard. rbind (readField 1) (\<lambda>_. rbind (readField 4) (\<lambda>loc.
     rbind (readField 1) (\<lambda>extensionIndicator. rbind (readField 7) (\<lambda>ca.
     if ext \<noteq> 0 \<or> codingStandard \<noteq> 0x3 \<or> extensionIndicator \<noteq> 1
     then rfail InvalidValue ''Unsupported cause value octet layout''
     else rreturn \<lparr>ce_location = ucast loc, ce_cause = ucast ca\<rparr>))))))"

definition ce_fields :: "L3CauseElement \<Rightarrow> (nat \<times> u32) list" where
  "ce_fields e = [(1, 0), (2, 0x3), (1, 0), (4, ucast (ce_location e)), (1, 1), (7, ucast (ce_cause e))]"

definition ce_write :: "L3CauseElement \<Rightarrow> writer" where
  "ce_write e = wdo [writeField 0 1, writeField 0x3 2, writeField 0 1, writeField (ucast (ce_location e)) 4,
     writeField 1 1, writeField (ucast (ce_cause e)) 7]"

definition ce_wf :: "L3CauseElement \<Rightarrow> bool" where
  "ce_wf e \<longleftrightarrow> unat (ce_location e) < 16 \<and> unat (ce_cause e) < 128"

definition ce_wire :: "L3CauseElement \<Rightarrow> bool list" where
  "ce_wire e = field_bits (ce_fields e)"

interpretation ce: ie_codec ce_parse ce_write ce_wire ce_wf
proof (unfold_locales, goal_cases)
  case (1 x)
  show ?case unfolding ce_write_def ce_wire_def ce_fields_def by (intro field_rules) simp_all
next
  case (2 x)
  then show ?case
    unfolding ce_parse_def ce_wire_def ce_fields_def ce_wf_def
    by (intro field_rules) (simp_all add: fits_narrow fits_def [of 2 3] accepts_fields_Nil)
qed

section \<open>Tag, length, value\<close>

definition writeTLV :: "u32 \<Rightarrow> bytes \<Rightarrow> writer" where
  "writeTLV iei data = wdo [writeField (iei AND 0x7F) 8, writeField (of_nat (length data)) 8, writeBytes data]"

definition try_parseTLV :: "u32 \<Rightarrow> BitReader \<Rightarrow> bytes option \<times> BitReader" where
  "try_parseTLV iei br =
     (case rbind (readField 8) (\<lambda>tag. if tag AND 0x7F \<noteq> iei AND 0x7F then rfail InvalidIE []
             else rbind (readField 8) (\<lambda>len. readBytes (unat len))) br of
        (Inl _, br1) \<Rightarrow> (None, br1)
      | (Inr out, br1) \<Rightarrow> (Some out, br1))"

section \<open>Messages\<close>

record L3SupServRegisterMessage =
  sreg_facility :: L3OctetAlignedProtocolElement
  sreg_haveVersion :: bool
  sreg_versionIndicator :: u8

record L3SupServReleaseCompleteMessage =
  srel_facility :: L3OctetAlignedProtocolElement
  srel_haveCause :: bool
  srel_cause :: L3CauseElement

datatype SSM =
    SupServFacility u32 L3OctetAlignedProtocolElement
  | SupServRegister u32 L3SupServRegisterMessage
  | SupServReleaseComplete u32 L3SupServReleaseCompleteMessage

fun ss_mti :: "SSM \<Rightarrow> int" where
  "ss_mti (SupServReleaseComplete _ _) = 0x2a"
| "ss_mti (SupServFacility _ _) = 0x3a"
| "ss_mti (SupServRegister _ _) = 0x3b"

fun ss_ti :: "SSM \<Rightarrow> u32" where
  "ss_ti (SupServFacility t _) = t"
| "ss_ti (SupServRegister t _) = t"
| "ss_ti (SupServReleaseComplete t _) = t"

definition sfac_parse :: "L3OctetAlignedProtocolElement parser" where
  "sfac_parse =
     rbind (rget hasMore) (\<lambda>more_octets. if \<not> more_octets then rreturn oap_none
     else rbind (readField 8) (\<lambda>len. if unat len > 0 then oap_parse (unat len) else rreturn oap_none))"

definition sreg_parse :: "L3SupServRegisterMessage parser" where
  "sreg_parse br =
     (case try_parseTLV 0x1c br of
        (None, br1) \<Rightarrow> (perr InvalidIE ''Missing facility IEI 0x1c'', br1)
      | (Some facData, br1) \<Rightarrow>
          let fac = (if facData \<noteq> [] then \<lparr>oap_data = facData, oap_extant = True\<rparr> else oap_none)
          in if peekField 8 br1 = 0x7F
             then rbind (readField 8) (\<lambda>_. rbind (readField 8) (\<lambda>_. rbind (readField 8) (\<lambda>v.
                    rreturn \<lparr>sreg_facility = fac, sreg_haveVersion = True, sreg_versionIndicator = ucast v\<rparr>))) br1
             else (Inr \<lparr>sreg_facility = fac, sreg_haveVersion = False, sreg_versionIndicator = 0\<rparr>, br1))"

text \<open>One turn of the loop of the release complete parser: a cause, a facility, or an element that is skipped.\<close>

definition srel_turn :: "L3SupServReleaseCompleteMessage \<Rightarrow> L3SupServReleaseCompleteMessage parser" where
  "srel_turn m =
     rbind (readField 8) (\<lambda>tag.
     if tag AND 0x7F = 0x08
     then rbind (readField 8) (\<lambda>_. rbind ce_parse (\<lambda>c. rreturn (m\<lparr>srel_cause := c, srel_haveCause := True\<rparr>)))
     else if tag AND 0x7F = 0x1c
     then rbind (readField 8) (\<lambda>len.
       if unat len > 0 then rbind (oap_parse (unat len)) (\<lambda>f. rreturn (m\<lparr>srel_facility := f\<rparr>)) else rreturn m)
     else rbind (if tag AND 0x80 \<noteq> 0 then readField 8 else rreturn 0) (\<lambda>skip.
       if unat skip > 0 then rbind (readBytes (unat skip)) (\<lambda>_. rreturn m) else rreturn m))"

definition srel_default :: L3SupServReleaseCompleteMessage where
  "srel_default = \<lparr>srel_facility = oap_none, srel_haveCause = False, srel_cause = ce_default\<rparr>"

definition srel_parse :: "L3SupServReleaseCompleteMessage parser" where
  "srel_parse = ie_loop srel_turn srel_default"

definition parseL3SS :: "int \<Rightarrow> u32 \<Rightarrow> SSM parser" where
  "parseL3SS mti ti =
     (if mti = 0x3a then rmap (SupServFacility ti) sfac_parse
      else if mti = 0x3b then rmap (SupServRegister ti) sreg_parse
      else if mti = 0x2a then rmap (SupServReleaseComplete ti) srel_parse
      else rfail InvalidMTI ''Unknown SS MTI'')"

definition sfac_write :: "L3OctetAlignedProtocolElement \<Rightarrow> writer" where
  "sfac_write f = wdo (writeField (of_nat (oap_lengthV f)) 8 # (if oap_lengthV f > 0 then [writeBytes (oap_data f)] else []))"

definition sreg_write :: "L3SupServRegisterMessage \<Rightarrow> writer" where
  "sreg_write m = wdo (writeTLV 0x1c (oap_data (sreg_facility m)) #
     (if sreg_haveVersion m then [writeField 0x7F 8, writeField 1 8, writeField (ucast (sreg_versionIndicator m)) 8] else []))"

definition srel_write :: "L3SupServReleaseCompleteMessage \<Rightarrow> writer" where
  "srel_write m = wdo
     ((if oap_extant (srel_facility m) then [writeTLV 0x1c (oap_data (srel_facility m))] else []) @
      (if srel_haveCause m then [writeField 0x08 8, writeField (of_nat ce_lengthV) 8, ce_write (srel_cause m)] else []))"

fun ss_write :: "SSM \<Rightarrow> writer" where
  "ss_write (SupServFacility _ f) = sfac_write f"
| "ss_write (SupServRegister _ m) = sreg_write m"
| "ss_write (SupServReleaseComplete _ m) = srel_write m"

fun ss_bodyLength :: "SSM \<Rightarrow> nat" where
  "ss_bodyLength (SupServFacility _ f) = oap_lengthV f + 1"
| "ss_bodyLength (SupServRegister _ m) = 2 + oap_lengthV (sreg_facility m) + (if sreg_haveVersion m then 3 else 0)"
| "ss_bodyLength (SupServReleaseComplete _ m) =
     (if oap_extant (srel_facility m) then 2 + oap_lengthV (srel_facility m) else 0) +
     (if srel_haveCause m then 2 + ce_lengthV else 0)"

lemma srel_turn_advances: "advances srel_turn"
  unfolding srel_turn_def oap_parse_def ce_parse_def by (rule advances_tag) (auto intro!: steady_rules)

section \<open>The bits of a body\<close>

definition tlv_wire :: "u32 \<Rightarrow> bytes \<Rightarrow> bool list" where
  "tlv_wire iei data = nbits 8 (iei AND 0x7F) @ nbits 8 (of_nat (length data)) @ bits_of data"

fun ss_wire :: "SSM \<Rightarrow> bool list" where
  "ss_wire (SupServFacility _ f) = nbits 8 (of_nat (oap_lengthV f)) @ bits_of (oap_data f)"
| "ss_wire (SupServRegister _ m) = tlv_wire 0x1c (oap_data (sreg_facility m)) @
     (if sreg_haveVersion m then nbits 8 0x7F @ nbits 8 1 @ nbits 8 (ucast (sreg_versionIndicator m)) else [])"
| "ss_wire (SupServReleaseComplete _ m) =
     (if oap_extant (srel_facility m) then tlv_wire 0x1c (oap_data (srel_facility m)) else []) @
     (if srel_haveCause m then nbits 8 0x08 @ nbits 8 (of_nat ce_lengthV) @ ce_wire (srel_cause m) else [])"

text \<open>A facility is present exactly when it is not empty, and an absent element has its default value.\<close>

definition oap_wf :: "L3OctetAlignedProtocolElement \<Rightarrow> bool" where
  "oap_wf f \<longleftrightarrow> length (oap_data f) < 256 \<and> (oap_extant f \<longleftrightarrow> oap_data f \<noteq> [])"

definition ss_body_wf :: "SSM \<Rightarrow> bool" where
  "ss_body_wf m \<longleftrightarrow> (case m of
      SupServFacility _ f \<Rightarrow> oap_wf f
    | SupServRegister _ m \<Rightarrow> oap_wf (sreg_facility m) \<and> (\<not> sreg_haveVersion m \<longrightarrow> sreg_versionIndicator m = 0)
    | SupServReleaseComplete _ m \<Rightarrow>
        oap_wf (srel_facility m) \<and> (if srel_haveCause m then ce_wf (srel_cause m) else srel_cause m = ce_default))"

definition ss_wf :: "SSM \<Rightarrow> bool" where
  "ss_wf m \<longleftrightarrow> fits 3 (ss_ti m) \<and> ss_body_wf m"

section \<open>The domain satisfies the contract\<close>

lemma emits_tlv_bytes: "emits (writeTLV iei d) (tlv_wire iei d)"
  unfolding writeTLV_def tlv_wire_def by (intro emits_wdo_Cons emits_writeField emits_last emits_writeBytes) simp_all

lemma ss_emits: "emits (ss_write m) (ss_wire m)"
proof (cases m)
  case (SupServFacility t f)
  have "emits (wdo (if oap_lengthV f > 0 then [writeBytes (oap_data f)] else [])) (bits_of (oap_data f))"
    by (simp add: oap_lengthV_def emits_wdo_Nil emits_last emits_writeBytes)
  then show ?thesis unfolding SupServFacility ss_write.simps sfac_write_def ss_wire.simps
    by (intro emits_wdo_Cons emits_writeField) simp_all
next
  case (SupServRegister t r)
  then show ?thesis unfolding SupServRegister ss_write.simps sreg_write_def ss_wire.simps
    by (intro emits_wdo_Cons emits_tlv_bytes emits_optional emits_writeField emits_last) simp_all
next
  case (SupServReleaseComplete t r)
  then show ?thesis unfolding SupServReleaseComplete ss_write.simps srel_write_def ss_wire.simps
    by (intro emits_wdo_append emits_optional emits_wdo_Cons emits_last emits_tlv_bytes emits_writeField ce.ie_writes) simp_all
qed

lemma length_ss_wire: "length (ss_wire m) = 8 * ss_bodyLength m"
  by (cases m) (simp_all add: tlv_wire_def oap_lengthV_def ce_lengthV_def ce_wire_def ce_fields_def length_field_bits)

lemma octet_count: "n < 256 \<Longrightarrow> fits 8 (of_nat n) \<and> unat (of_nat n :: u32) = n"
  by (simp add: fits_def unat_of_nat)

lemma accepts_oap:
  assumes "oap_data f \<noteq> []" "oap_wf f"
  shows "accepts (oap_parse (length (oap_data f))) (bits_of (oap_data f)) f"
proof -
  have f: "\<lparr>oap_data = oap_data f, oap_extant = True\<rparr> = f" using assms by (simp add: oap_wf_def)
  show ?thesis unfolding oap_parse_def rmap_def by (rule accepts_map [OF accepts_readBytes [OF refl]]) (rule f)
qed

lemma oap_empty: "oap_wf f \<Longrightarrow> oap_data f = [] \<Longrightarrow> f = oap_none"
  by (simp add: oap_wf_def oap_none_def)

lemma sfac_decodes:
  assumes "oap_wf f"
  shows "decodes sfac_parse (ss_wire (SupServFacility t f)) f"
proof -
  have n: "fits 8 (of_nat (oap_lengthV f))" "unat (of_nat (oap_lengthV f) :: u32) = oap_lengthV f"
    using octet_count [of "oap_lengthV f"] assms by (simp_all add: oap_lengthV_def oap_wf_def)
  have m: "hasMore br = True" if "br_ok br" "upcoming br = nbits 8 (of_nat (oap_lengthV f)) @ bits_of (oap_data f)" for br
    using that by (auto simp: hasMore_upcoming nbits_def)
  show ?thesis
    unfolding sfac_parse_def ss_wire.simps
  proof (rule decodes_get [OF m], assumption, assumption, simp, rule decodes_field [OF n(1)])
    show "decodes (if 0 < unat (of_nat (oap_lengthV f) :: u32) then oap_parse (unat (of_nat (oap_lengthV f) :: u32))
        else rreturn oap_none) (bits_of (oap_data f)) f"
      unfolding n(2) using accepts_oap [OF _ assms] oap_empty [OF assms]
      by (cases "oap_data f = []") (auto simp: oap_lengthV_def decodes_return accepts_decodes)
  qed
qed

lemma accepts_tlv_read:
  assumes "length d < 256"
  shows "accepts (rbind (readField 8) (\<lambda>tag. if tag AND 0x7F \<noteq> 0x1c AND 0x7F then rfail InvalidIE []
    else rbind (readField 8) (\<lambda>len. readBytes (unat len)))) (tlv_wire 0x1c d) d"
  unfolding tlv_wire_def using octet_count [OF assms] accepts_readBytes [OF refl, of d]
  by (intro accepts_field) (simp_all add: fits_def accepts_field)

lemma sreg_decodes:
  assumes "ss_body_wf (SupServRegister t m)"
  shows "decodes sreg_parse (ss_wire (SupServRegister t m)) m"
  unfolding decodes_def
proof (intro allI impI)
  let ?f = "oap_data (sreg_facility m)"
  let ?ver = "if sreg_haveVersion m then nbits 8 0x7F @ nbits 8 1 @ nbits 8 (ucast (sreg_versionIndicator m)) else []"
  fix br assume br: "br_ok br" "upcoming br = ss_wire (SupServRegister t m)"
  have wf: "oap_wf (sreg_facility m)" "length ?f < 256" "\<not> sreg_haveVersion m \<longrightarrow> sreg_versionIndicator m = 0"
    using assms by (simp_all add: ss_body_wf_def oap_wf_def)
  obtain br1 where r: "rbind (readField 8) (\<lambda>tag. if tag AND 0x7F \<noteq> 0x1c AND 0x7F then rfail InvalidIE []
      else rbind (readField 8) (\<lambda>len. readBytes (unat len))) br = (Inr ?f, br1)" "br_ok br1" "upcoming br1 = ?ver"
    by (rule acceptsD [OF accepts_tlv_read [OF wf(2)] br [unfolded ss_wire.simps]])
  have 1: "try_parseTLV 0x1c br = (Some ?f, br1)" "br_ok br1" "upcoming br1 = ?ver"
    by (simp_all only: try_parseTLV_def r prod.case sum.case)
  have fac: "(if ?f \<noteq> [] then \<lparr>oap_data = ?f, oap_extant = True\<rparr> else oap_none) = sreg_facility m"
    using wf(1) oap_empty [OF wf(1)] by (auto simp: oap_wf_def)
  show "\<exists>br2. sreg_parse br = (Inr m, br2) \<and> br_ok br2 \<and> upcoming br2 = []"
  proof (cases "sreg_haveVersion m")
    case True
    have "unat (peekField 8 br1) = unat (0x7F :: u32)" using peekField_eq [OF 1(2), of 8] 1(3) True by (simp add: bval_nbits)
    then have "peekField 8 br1 = 0x7F" by (rule unsigned_word_eqI)
    moreover have dec: "decodes (rbind (readField 8) (\<lambda>_. rbind (readField 8) (\<lambda>_. rbind (readField 8) (\<lambda>v.
        rreturn \<lparr>sreg_facility = sreg_facility m, sreg_haveVersion = True, sreg_versionIndicator = ucast v\<rparr>))))
        ?ver m"
      unfolding if_P [OF True] using True by (intro decodes_field decodes_end [OF accepts_readField]) (simp_all add: fits_def [of 8 "0x7F"])
    obtain br2 where "rbind (readField 8) (\<lambda>_. rbind (readField 8) (\<lambda>_. rbind (readField 8) (\<lambda>v.
        rreturn \<lparr>sreg_facility = sreg_facility m, sreg_haveVersion = True, sreg_versionIndicator = ucast v\<rparr>))) br1 = (Inr m, br2)"
        "br_ok br2" "upcoming br2 = []"
      by (rule decodesD [OF dec 1(2,3)])
    ultimately show ?thesis using 1(1) by (simp add: sreg_parse_def fac)
  next
    case False
    then have "m = \<lparr>sreg_facility = sreg_facility m, sreg_haveVersion = False, sreg_versionIndicator = 0\<rparr>" using wf(3) by simp
    moreover have "peekField 8 br1 \<noteq> 0x7F" using peekField_eq [OF 1(2), of 8] 1(3) False by (auto simp: bval_def)
    ultimately show ?thesis using 1 False fac by (simp add: sreg_parse_def)
  qed
qed

lemma srel_decodes:
  assumes "ss_body_wf (SupServReleaseComplete t m)"
  shows "decodes srel_parse (ss_wire (SupServReleaseComplete t m)) m"
proof -
  let ?f = "srel_facility m" and ?c = "srel_cause m"
  have wf: "oap_wf ?f" "if srel_haveCause m then ce_wf ?c else ?c = ce_default"
    using assms by (simp_all add: ss_body_wf_def)
  define m1 where "m1 = srel_default\<lparr>srel_facility := ?f\<rparr>"
  have fac: "accepts (srel_turn srel_default) (tlv_wire 0x1c (oap_data ?f)) m1" if "oap_extant ?f"
  proof -
    have d: "oap_data ?f \<noteq> []" "length (oap_data ?f) < 256" using that wf(1) by (simp_all add: oap_wf_def)
    have "accepts (rbind (readField 8) (\<lambda>len. if 0 < unat len
        then rbind (oap_parse (unat len)) (\<lambda>f. rreturn (srel_default\<lparr>srel_facility := f\<rparr>)) else rreturn srel_default))
        (nbits 8 (of_nat (length (oap_data ?f))) @ bits_of (oap_data ?f)) m1"
      using octet_count [OF d(2)] d(1)
      by (intro accepts_field) (simp_all add: m1_def accepts_map [OF accepts_oap [OF d(1) wf(1)]])
    then show ?thesis unfolding srel_turn_def tlv_wire_def by (intro accepts_field) (simp_all add: fits_def)
  qed
  have none: "m1 = srel_default" if "\<not> oap_extant ?f"
    using that oap_empty [OF wf(1)] wf(1) by (simp add: m1_def srel_default_def oap_wf_def)
  have cause: "accepts (srel_turn m1) (nbits 8 0x08 @ nbits 8 (of_nat ce_lengthV) @ ce_wire ?c) m" if "srel_haveCause m"
  proof -
    have "accepts (rbind (readField 8) (\<lambda>_. rbind ce_parse (\<lambda>c. rreturn (m1\<lparr>srel_cause := c, srel_haveCause := True\<rparr>))))
        (nbits 8 (of_nat ce_lengthV) @ ce_wire ?c) m"
      using that wf(2) by (intro accepts_field accepts_map [OF ce.ie_accepts])
        (simp_all add: fits_def ce_lengthV_def m1_def srel_default_def)
    then show ?thesis unfolding srel_turn_def by (intro accepts_field) (simp_all add: fits_def)
  qed
  have end_: "m = m1" if "\<not> srel_haveCause m" using that wf(2) by (simp add: m1_def srel_default_def)
  have end_loop: "decodes (ie_loop srel_turn m1)
      ((if srel_haveCause m then nbits 8 0x08 @ nbits 8 (of_nat ce_lengthV) @ ce_wire ?c else []) @ []) m"
    by (rule decodes_loop_optional [where ?m1.0 = m]) (simp_all add: cause end_ decodes_loop_end)
  show ?thesis
    unfolding srel_parse_def ss_wire.simps
    by (rule decodes_loop_optional [where ?m1.0 = m1]) (use end_loop in \<open>simp_all add: fac none\<close>, simp add: tlv_wire_def)
qed

interpretation ss: domain_codec NonCallSS ss_mti ss_ti ss_bodyLength parseL3SS ss_write ss_wire ss_wf
proof (unfold_locales, goal_cases)
  case (1 m)
  show ?case by (rule ss_emits)
next
  case (2 m)
  then show ?case
    by (cases m) (simp_all add: ss_wf_def parseL3SS_def decodes_rmap sfac_decodes sreg_decodes srel_decodes del: ss_wire.simps,
      simp add: ss_body_wf_def sfac_decodes decodes_rmap del: ss_wire.simps)
next
  case (3 m)
  show ?case by (rule length_ss_wire)
next
  case (4 m)
  then show ?case by (cases m) (simp_all add: ss_wf_def ss_body_wf_def oap_wf_def oap_lengthV_def ce_lengthV_def)
next
  case (5 m)
  then show ?case by (cases m) (simp_all add: kRRTifShortBase_def header_ok_def ss_wf_def)
qed simp

end
