(* ===== verification/Sms_Elements.thy ===== *)
theory Sms_Elements
  imports Ie_Loop
begin

text \<open>
  The transport layer of short messages (\<^verbatim>\<open>sms/l3smselements.cpp\<close>): addresses, time stamps, the data coding scheme, and
  the deliver, submit, status report and command units. The enumerations over an octet (type of number, numbering plan,
  protocol identifier, coding scheme) are octets, since a parsed one holds any value.
\<close>

unbundle bit_operations_syntax

section \<open>Parsers that look at the input\<close>

lemma accepts_get:
  "(\<And>br rest. br_ok br \<Longrightarrow> upcoming br = bs @ rest \<Longrightarrow> g br = v) \<Longrightarrow> accepts (f v) bs y \<Longrightarrow> accepts (rbind (rget g) f) bs y"
  unfolding accepts_def by (simp add: rbind_def rget_def)

lemma remainingBits_upcoming: "br_ok br \<Longrightarrow> remainingBits br = length (upcoming br)"
  using length_upcoming [of br] by (auto simp: remainingBits_def br_ok_def size_sub_le)

lemma accepts_upto:
  assumes "n = length bs"
  shows "accepts (rbind (rget (\<lambda>br. min n (remainingBits br div 8))) readOctets) (bits_of bs) bs"
proof (rule accepts_get)
  show "accepts (readOctets (length bs)) (bits_of bs) bs" by (rule accepts_readOctets) simp
qed (simp add: remainingBits_upcoming assms)

section \<open>Address\<close>

record L3TPAddress =
  tpa_ton :: u8
  tpa_npi :: u8
  tpa_digits :: bytes
  tpa_length :: u8

definition tpa_default :: L3TPAddress where
  "tpa_default = \<lparr>tpa_ton = 1, tpa_npi = 1, tpa_digits = [], tpa_length = 0\<rparr>"

definition tpa_of_digits :: "u8 \<Rightarrow> u8 \<Rightarrow> bytes \<Rightarrow> L3TPAddress" where
  "tpa_of_digits ton npi ds = \<lparr>tpa_ton = ton, tpa_npi = npi, tpa_digits = ds, tpa_length = of_nat (length ds)\<rparr>"

definition tpa_totalLength :: "L3TPAddress \<Rightarrow> nat" where
  "tpa_totalLength a = (if tpa_length a = 0 then 1 else 2 + (unat (tpa_length a) + 1) div 2)"

text \<open>The digit loop, by the number of digits that are left.\<close>

fun tpa_digit_loop :: "nat \<Rightarrow> bytes parser" where
  "tpa_digit_loop 0 = rreturn []"
| "tpa_digit_loop (Suc 0) = rbind (readField 8) (\<lambda>d. rreturn [ucast d AND 0x0F])"
| "tpa_digit_loop (Suc (Suc n)) = rbind (readField 8) (\<lambda>d. rbind (tpa_digit_loop n) (\<lambda>ds.
     rreturn ((ucast d AND 0x0F) # (drop_bit 4 (ucast d) AND 0x0F) # ds)))"

definition tpa_parse :: "L3TPAddress parser" where
  "tpa_parse =
     rbind (readField 8) (\<lambda>len. if (ucast len :: u8) = 0 then rreturn (tpa_default\<lparr>tpa_length := ucast len\<rparr>)
     else rbind (readField 8) (\<lambda>tonNpi. rbind (tpa_digit_loop (unat (ucast len :: u8))) (\<lambda>ds.
     rreturn \<lparr>tpa_ton = drop_bit 4 (ucast tonNpi) AND 0x07, tpa_npi = ucast tonNpi AND 0x0F, tpa_digits = ds,
              tpa_length = ucast len\<rparr>)))"

fun tpa_octets :: "bytes \<Rightarrow> bytes" where
  "tpa_octets [] = []"
| "tpa_octets [d] = [push_bit 4 0x0F OR (d AND 0x0F)]"
| "tpa_octets (d # e # ds) = (push_bit 4 (e AND 0x0F) OR (d AND 0x0F)) # tpa_octets ds"

definition tpa_type_octet :: "L3TPAddress \<Rightarrow> u8" where
  "tpa_type_octet a = 0x80 OR push_bit 4 (tpa_ton a AND 0x07) OR (tpa_npi a AND 0x0F)"

definition tpa_write :: "L3TPAddress \<Rightarrow> writer" where
  "tpa_write a = wdo (writeField (ucast (tpa_length a)) 8 #
     (if tpa_length a > 0 then [writeField (ucast (tpa_type_octet a)) 8, writeOctets (tpa_octets (tpa_digits a))] else []))"

definition tpa_wire :: "L3TPAddress \<Rightarrow> bool list" where
  "tpa_wire a = nbits 8 (ucast (tpa_length a)) @
     (if tpa_length a > 0 then nbits 8 (ucast (tpa_type_octet a)) @ bits_of (tpa_octets (tpa_digits a)) else [])"

definition tpa_wf :: "L3TPAddress \<Rightarrow> bool" where
  "tpa_wf a \<longleftrightarrow> length (tpa_digits a) < 256 \<and> unat (tpa_length a) = length (tpa_digits a) \<and>
     unat (tpa_ton a) < 8 \<and> unat (tpa_npi a) < 16 \<and> list_all (\<lambda>d. unat d < 16) (tpa_digits a) \<and>
     (tpa_digits a = [] \<longrightarrow> tpa_ton a = 1 \<and> tpa_npi a = 1)"

lemma low_bits: "unat (d :: u8) < 2 ^ n \<Longrightarrow> bit d k \<Longrightarrow> k < n"
proof -
  assume d: "unat d < 2 ^ n" and b: "bit d k"
  have "take_bit n d = d" by (rule unsigned_word_eqI [where ?'a = nat]) (simp only: unsigned_take_bit_eq take_bit_nat_eq_self d)
  then show ?thesis using b by (metis bit_take_bit_iff)
qed

lemma nibbles:
  assumes "unat (d :: u8) < 16" "unat (e :: u8) < 16"
  shows "(push_bit 4 (e AND 0x0F) OR (d AND 0x0F)) AND 0x0F = d"
    "drop_bit 4 (push_bit 4 (e AND 0x0F) OR (d AND 0x0F)) AND 0x0F = e"
  using low_bits [of d 4 4] low_bits [of d 4 5] low_bits [of d 4 6] low_bits [of d 4 7]
    low_bits [of e 4 4] low_bits [of e 4 5] low_bits [of e 4 6] low_bits [of e 4 7] assms by (auto simp: octet_bits)

lemma type_octet:
  assumes "unat (tpa_ton a) < 8" "unat (tpa_npi a) < 16"
  shows "drop_bit 4 (tpa_type_octet a) AND 0x07 = tpa_ton a" "tpa_type_octet a AND 0x0F = tpa_npi a"
proof -
  note high = low_bits [of "tpa_ton a" 3 3] low_bits [of "tpa_ton a" 3 4] low_bits [of "tpa_ton a" 3 5]
    low_bits [of "tpa_ton a" 3 6] low_bits [of "tpa_ton a" 3 7] low_bits [of "tpa_npi a" 4 4] low_bits [of "tpa_npi a" 4 5]
    low_bits [of "tpa_npi a" 4 6] low_bits [of "tpa_npi a" 4 7]
  show "drop_bit 4 (tpa_type_octet a) AND 0x07 = tpa_ton a" "tpa_type_octet a AND 0x0F = tpa_npi a"
    unfolding tpa_type_octet_def using high assms by (auto simp: octet_bits)
qed

lemma accepts_digits:
  "list_all (\<lambda>d. unat d < 16) ds \<Longrightarrow> accepts (tpa_digit_loop (length ds)) (bits_of (tpa_octets ds)) ds"
proof (induction ds rule: tpa_octets.induct)
  case 1
  then show ?case by (simp add: accepts_return)
next
  case (2 d)
  have "push_bit 4 0x0F OR (d AND 0x0F) = push_bit 4 (0x0F AND 0x0F) OR (d AND 0x0F)" by simp
  then show ?case using 2 nibbles(1) [of d "0x0F"] by (simp add: octet_list_nbits accepts_map [OF accepts_readField])
next
  case (3 d e ds)
  let ?w = "push_bit 4 (e AND 0x0F) OR (d AND 0x0F)"
  have "accepts (rbind (tpa_digit_loop (length ds)) (\<lambda>r.
      rreturn ((ucast (ucast ?w :: u32) AND 0x0F) # (drop_bit 4 (ucast (ucast ?w :: u32)) AND 0x0F) # r)))
      (bits_of (tpa_octets ds)) (d # e # ds)"
    using 3 nibbles [of d e] by (intro accepts_map [OF 3(1)]) (simp_all del: drop_bit_or)
  then show ?case by (simp add: octet_list_nbits accepts_field del: drop_bit_or push_bit_and)
qed

interpretation tpa: ie_codec tpa_parse tpa_write tpa_wire tpa_wf
proof (unfold_locales, goal_cases)
  case (1 a)
  show ?case unfolding tpa_write_def tpa_wire_def
    by (intro emits_wdo_Cons emits_optional emits_writeField emits_last emits_writeOctets) simp_all
next
  case (2 a)
  then have wf: "unat (tpa_ton a) < 8" "unat (tpa_npi a) < 16" "list_all (\<lambda>d. unat d < 16) (tpa_digits a)"
    "unat (tpa_length a) = length (tpa_digits a)" "tpa_digits a = [] \<longrightarrow> tpa_ton a = 1 \<and> tpa_npi a = 1"
    by (simp_all add: tpa_wf_def)
  show ?case
  proof (cases "tpa_length a = 0")
    case True
    then have "tpa_digits a = []" using wf(4) by simp
    then have "tpa_default\<lparr>tpa_length := tpa_length a\<rparr> = a" using wf(5) by (simp add: tpa_default_def)
    then show ?thesis
      unfolding tpa_parse_def tpa_wire_def using True by (intro accepts_field) (simp_all add: accepts_return)
  next
    case False
    have a: "\<lparr>tpa_ton = tpa_ton a, tpa_npi = tpa_npi a, tpa_digits = tpa_digits a, tpa_length = tpa_length a\<rparr> = a" by simp
    have "accepts (rbind (readField 8) (\<lambda>tonNpi. rbind (tpa_digit_loop (unat (tpa_length a))) (\<lambda>ds.
        rreturn \<lparr>tpa_ton = drop_bit 4 (ucast tonNpi) AND 0x07, tpa_npi = ucast tonNpi AND 0x0F, tpa_digits = ds,
          tpa_length = tpa_length a\<rparr>))) (nbits 8 (ucast (tpa_type_octet a)) @ bits_of (tpa_octets (tpa_digits a))) a"
      unfolding wf(4)
      by (intro accepts_field accepts_map [OF accepts_digits [OF wf(3)]]) (simp_all add: type_octet [OF wf(1,2)] a del: drop_bit_or)
    then show ?thesis
      unfolding tpa_parse_def tpa_wire_def using False by (intro accepts_field) (simp_all add: word_gt_0)
  qed
qed

lemma length_tpa_octets: "length (tpa_octets ds) = (length ds + 1) div 2"
  by (induction ds rule: tpa_octets.induct) simp_all

lemma length_tpa_wire: "tpa_wf a \<Longrightarrow> length (tpa_wire a) = 8 * tpa_totalLength a"
  by (simp add: tpa_wire_def tpa_totalLength_def length_tpa_octets tpa_wf_def word_gt_0)


section \<open>Service centre time stamp\<close>

text \<open>The time zone is a signed octet; it is kept as the octet that represents it.\<close>

record TPSCTimeStamp =
  scts_year :: u8
  scts_month :: u8
  scts_day :: u8
  scts_hour :: u8
  scts_minute :: u8
  scts_second :: u8
  scts_timezone :: u8

definition scts_parse :: "TPSCTimeStamp parser" where
  "scts_parse =
     rbind (readField 8) (\<lambda>y. rbind (readField 8) (\<lambda>m. rbind (readField 8) (\<lambda>d. rbind (readField 8) (\<lambda>h.
     rbind (readField 8) (\<lambda>mi. rbind (readField 8) (\<lambda>s. rbind (readField 8) (\<lambda>tz.
     rreturn \<lparr>scts_year = ucast y, scts_month = ucast m, scts_day = ucast d, scts_hour = ucast h, scts_minute = ucast mi,
       scts_second = ucast s, scts_timezone = ucast tz\<rparr>)))))))"

definition scts_write :: "TPSCTimeStamp \<Rightarrow> writer" where
  "scts_write t = wdo [writeField (ucast (scts_year t)) 8, writeField (ucast (scts_month t)) 8, writeField (ucast (scts_day t)) 8,
     writeField (ucast (scts_hour t)) 8, writeField (ucast (scts_minute t)) 8, writeField (ucast (scts_second t)) 8,
     writeField (ucast (scts_timezone t)) 8]"

definition scts_wire :: "TPSCTimeStamp \<Rightarrow> bool list" where
  "scts_wire t = field_bits [(8, ucast (scts_year t)), (8, ucast (scts_month t)), (8, ucast (scts_day t)),
     (8, ucast (scts_hour t)), (8, ucast (scts_minute t)), (8, ucast (scts_second t)), (8, ucast (scts_timezone t))]"

interpretation scts: ie_codec scts_parse scts_write scts_wire "\<lambda>_. True"
proof (unfold_locales, goal_cases)
  case (1 t)
  show ?case unfolding scts_write_def scts_wire_def by (intro field_rules) simp_all
next
  case (2 t)
  show ?case unfolding scts_parse_def scts_wire_def by (intro field_rules) simp_all
qed

lemma length_scts_wire: "length (scts_wire t) = 56"
  by (simp add: scts_wire_def length_field_bits)

section \<open>Data coding scheme\<close>

datatype SmsDcsAlphabet = Gsm7Bit | Data8Bit | Ucs2 | Undefined

record SmsDcsDecoded =
  dcs_alphabet :: SmsDcsAlphabet
  dcs_compressed :: bool
  dcs_hasMessageClass :: bool
  dcs_messageClass :: u32

definition decodeSmsDcs :: "u8 \<Rightarrow> SmsDcsDecoded" where
  "decodeSmsDcs dcs =
     (let d = ucast dcs :: u32; cg = drop_bit 4 d in
      if cg AND 0x0C = 0
      then \<lparr>dcs_alphabet = (let s = drop_bit 2 d AND 0x03 in
                if s = 0 then Gsm7Bit else if s = 1 then Data8Bit else if s = 2 then Ucs2 else Undefined),
            dcs_compressed = (d AND 0x20 \<noteq> 0), dcs_hasMessageClass = (cg = 0 \<and> d AND 0x10 \<noteq> 0),
            dcs_messageClass = d AND 0x03\<rparr>
      else if cg = 0x0C \<or> cg = 0x0D
      then \<lparr>dcs_alphabet = Gsm7Bit, dcs_compressed = False, dcs_hasMessageClass = False, dcs_messageClass = d AND 0x03\<rparr>
      else if cg = 0x0E
      then \<lparr>dcs_alphabet = Ucs2, dcs_compressed = False, dcs_hasMessageClass = False, dcs_messageClass = d AND 0x03\<rparr>
      else \<lparr>dcs_alphabet = (if d AND 0x04 \<noteq> 0 then Data8Bit else Gsm7Bit), dcs_compressed = False,
            dcs_hasMessageClass = True, dcs_messageClass = d AND 0x03\<rparr>)"

definition tpudOctets :: "u8 \<Rightarrow> u8 \<Rightarrow> nat" where
  "tpudOctets udl dcs = (if dcs_alphabet (decodeSmsDcs dcs) = Gsm7Bit then (unat udl * 7 + 7) div 8 else unat udl)"

text \<open>User data is read up to the announced length or the end of the input, whichever comes first.\<close>

definition readUserData :: "u8 \<Rightarrow> u8 \<Rightarrow> bytes parser" where
  "readUserData udl dcs = rbind (rget (\<lambda>br. min (tpudOctets udl dcs) (remainingBits br div 8))) readOctets"

lemma accepts_readUserData: "length ud = tpudOctets udl dcs \<Longrightarrow> accepts (readUserData udl dcs) (bits_of ud) ud"
  unfolding readUserData_def by (rule accepts_upto) simp

text \<open>
  A message class is only ever reported for the coding groups that the last branch covers: the condition of the first branch
  asks for the bit 0x10 and for the four high bits to be zero.
\<close>

lemma dcs_class_never_general:
  "drop_bit 4 (ucast dcs :: u32) AND 0x0C = 0 \<Longrightarrow> \<not> dcs_hasMessageClass (decodeSmsDcs dcs)"
proof
  assume "drop_bit 4 (ucast dcs :: u32) AND 0x0C = 0" "dcs_hasMessageClass (decodeSmsDcs dcs)"
  then have "drop_bit 4 (ucast dcs :: u32) = 0" and n: "(ucast dcs :: u32) AND 0x10 \<noteq> 0"
    by (simp_all add: decodeSmsDcs_def Let_def)
  then have "bit (drop_bit 4 (ucast dcs :: u32)) 0 = False" by simp
  then have "\<not> bit (ucast dcs :: u32) 4" by (simp add: bit_drop_bit_eq)
  then have "(ucast dcs :: u32) AND 2 ^ 4 = 0" by (simp only: and_exp_eq_0_iff_not_bit not_False_eq_True)
  then show False using n by simp
qed

end
