(* ===== verification/Sms_Transport.thy ===== *)
theory Sms_Transport
  imports Sms_Elements
begin

text \<open>
  The transport protocol units of \<^verbatim>\<open>sms/l3smselements.cpp\<close>: deliver, submit, status report and command, and that each
  parser reads what its writer wrote. The command unit is the exception: its parser does not read the address.
\<close>

unbundle bit_operations_syntax

section \<open>First octet\<close>

definition tpduFirstOctet :: "u32 \<Rightarrow> u32 \<Rightarrow> u32 \<Rightarrow> u32 \<Rightarrow> u32 \<Rightarrow> u32 \<Rightarrow> u8" where
  "tpduFirstOctet mti bit2 vpf sri udhi rp =
     ucast (push_bit 7 rp OR push_bit 6 udhi OR push_bit 5 sri OR push_bit 3 (vpf AND 0x03) OR push_bit 2 (bit2 AND 0x01) OR
       (mti AND 0x03))"

definition tpduMti :: "u8 \<Rightarrow> u32" where
  "tpduMti octet = ucast octet AND 0x03"

definition tpduBit2 :: "u8 \<Rightarrow> u32" where
  "tpduBit2 octet = drop_bit 2 (ucast octet) AND 0x01"

definition tpduVpf :: "u8 \<Rightarrow> u32" where
  "tpduVpf octet = drop_bit 3 (ucast octet) AND 0x03"

definition tpduSri :: "u8 \<Rightarrow> u32" where
  "tpduSri octet = drop_bit 5 (ucast octet) AND 0x01"

definition tpduUdhi :: "u8 \<Rightarrow> u32" where
  "tpduUdhi octet = drop_bit 6 (ucast octet) AND 0x01"

definition tpduRp :: "u8 \<Rightarrow> u32" where
  "tpduRp octet = drop_bit 7 (ucast octet) AND 0x01"

lemma one_bit: "(drop_bit n v AND 1 = (0 :: u32)) \<longleftrightarrow> \<not> bit v n"
  by (simp add: and_one_eq even_drop_bit_iff_not_bit mod2_eq_if)

lemma low_two: "(v :: u32) AND 0x03 = take_bit 2 v"
  by (simp add: take_bit_eq_mask mask_eq_exp_minus_1)

lemma first_octet_flags:
  fixes mti vpf :: u32 and b s u r :: bool
  defines "octet \<equiv> tpduFirstOctet mti (of_bool b) vpf (of_bool s) (of_bool u) (of_bool r)"
  shows "tpduMti octet = take_bit 2 mti" "tpduVpf octet = take_bit 2 vpf" "tpduBit2 octet \<noteq> 0 \<longleftrightarrow> b" "tpduSri octet \<noteq> 0 \<longleftrightarrow> s"
    "tpduUdhi octet \<noteq> 0 \<longleftrightarrow> u" "tpduRp octet \<noteq> 0 \<longleftrightarrow> r"
proof -
  note defs = octet_def tpduFirstOctet_def tpduMti_def tpduVpf_def tpduBit2_def tpduSri_def tpduUdhi_def tpduRp_def
  show "tpduMti octet = take_bit 2 mti" "tpduVpf octet = take_bit 2 vpf"
    unfolding defs low_two by (rule bit_word_eqI; auto simp: bit_simps)+
  show "tpduBit2 octet \<noteq> 0 \<longleftrightarrow> b" "tpduSri octet \<noteq> 0 \<longleftrightarrow> s" "tpduUdhi octet \<noteq> 0 \<longleftrightarrow> u" "tpduRp octet \<noteq> 0 \<longleftrightarrow> r"
    unfolding defs one_bit low_two by (auto simp: bit_simps)
qed


section \<open>Deliver\<close>

record L3TPDeliver =
  tpd_mms :: bool
  tpd_sri :: bool
  tpd_udhi :: bool
  tpd_rp :: bool
  tpd_originatingAddress :: L3TPAddress
  tpd_pid :: u8
  tpd_dcs :: u8
  tpd_scts :: "TPSCTimeStamp option"
  tpd_udl :: u8
  tpd_userData :: bytes

definition tpd_parse :: "L3TPDeliver parser" where
  "tpd_parse =
     rbind (readField 8) (\<lambda>hdr. let rawHdr = ucast hdr in
     if tpduMti rawHdr \<noteq> 0x00 then rfail InvalidValue ''unexpected TP-MTI in SMS-Deliver header''
     else rbind tpa_parse (\<lambda>oa. rbind (readField 8) (\<lambda>pid. rbind (readField 8) (\<lambda>dcs. rbind scts_parse (\<lambda>ts.
     rbind (readField 8) (\<lambda>udl. rbind (readUserData (ucast udl) (ucast dcs)) (\<lambda>ud.
     rreturn \<lparr>tpd_mms = (tpduBit2 rawHdr \<noteq> 0), tpd_sri = (tpduSri rawHdr \<noteq> 0), tpd_udhi = (tpduUdhi rawHdr \<noteq> 0),
       tpd_rp = (tpduRp rawHdr \<noteq> 0), tpd_originatingAddress = oa, tpd_pid = ucast pid, tpd_dcs = ucast dcs,
       tpd_scts = Some ts, tpd_udl = ucast udl, tpd_userData = ud\<rparr>)))))))"

definition tpd_firstOctet :: "L3TPDeliver \<Rightarrow> u8" where
  "tpd_firstOctet m = tpduFirstOctet 0x00 (of_bool (tpd_mms m)) 0 (of_bool (tpd_sri m)) (of_bool (tpd_udhi m)) (of_bool (tpd_rp m))"

definition tpd_write :: "L3TPDeliver \<Rightarrow> writer" where
  "tpd_write m = wdo ([writeField (ucast (tpd_firstOctet m)) 8, tpa_write (tpd_originatingAddress m),
     writeField (ucast (tpd_pid m)) 8, writeField (ucast (tpd_dcs m)) 8] @
     (case tpd_scts m of Some ts \<Rightarrow> [scts_write ts] | None \<Rightarrow> []) @
     [writeField (ucast (tpd_udl m)) 8, writeOctets (tpd_userData m)])"

definition tpd_bodyLength :: "L3TPDeliver \<Rightarrow> nat" where
  "tpd_bodyLength m = 1 + tpa_totalLength (tpd_originatingAddress m) + 1 + 1 + (if tpd_scts m \<noteq> None then 7 else 0) + 1 +
     length (tpd_userData m)"

definition tpd_wire :: "L3TPDeliver \<Rightarrow> bool list" where
  "tpd_wire m = nbits 8 (ucast (tpd_firstOctet m)) @ tpa_wire (tpd_originatingAddress m) @ nbits 8 (ucast (tpd_pid m)) @
     nbits 8 (ucast (tpd_dcs m)) @ (case tpd_scts m of Some ts \<Rightarrow> scts_wire ts | None \<Rightarrow> []) @
     nbits 8 (ucast (tpd_udl m)) @ bits_of (tpd_userData m)"

definition tpd_wf :: "L3TPDeliver \<Rightarrow> bool" where
  "tpd_wf m \<longleftrightarrow> tpa_wf (tpd_originatingAddress m) \<and> tpd_scts m \<noteq> None \<and>
     length (tpd_userData m) = tpudOctets (tpd_udl m) (tpd_dcs m)"

lemma emits_writeOctets_last: "emits (wdo [writeOctets bs]) (bits_of bs)"
  by (rule emits_last [OF emits_writeOctets])

lemma emits_scts_then:
  "emits (wdo ws) bs \<Longrightarrow> emits (wdo ((case t of Some ts \<Rightarrow> [scts_write ts] | None \<Rightarrow> []) @ ws))
     ((case t of Some ts \<Rightarrow> scts_wire ts | None \<Rightarrow> []) @ bs)"
  by (cases t) (simp_all add: emits_wdo_Cons scts.ie_writes)

interpretation tpd: ie_codec tpd_parse tpd_write tpd_wire tpd_wf
proof (unfold_locales, goal_cases)
  case (1 m)
  show ?case unfolding tpd_write_def tpd_wire_def append_Cons append_Nil
    by (intro emits_wdo_Cons emits_writeField tpa.ie_writes emits_scts_then emits_writeOctets_last) simp_all
next
  case (2 m)
  then obtain ts where ts: "tpd_scts m = Some ts" by (auto simp: tpd_wf_def)
  note flags = first_octet_flags [of 0 "tpd_mms m" 0 "tpd_sri m" "tpd_udhi m" "tpd_rp m", folded tpd_firstOctet_def]
  have wf: "tpa_wf (tpd_originatingAddress m)" "length (tpd_userData m) = tpudOctets (tpd_udl m) (tpd_dcs m)"
    using 2 by (simp_all add: tpd_wf_def)
  show ?case
    unfolding tpd_parse_def tpd_wire_def ts option.case
    by (intro accepts_field) (simp_all add: flags Let_def,
      intro accepts_bind [OF tpa.ie_accepts] accepts_bind [OF scts.ie_accepts] accepts_field accepts_map [OF accepts_readUserData],
      simp_all add: wf ts [symmetric])
qed

lemma length_tpd_wire: "tpd_wf m \<Longrightarrow> length (tpd_wire m) = 8 * tpd_bodyLength m"
  by (auto simp: tpd_wf_def tpd_wire_def tpd_bodyLength_def length_tpa_wire length_scts_wire)

section \<open>Submit\<close>

record L3TPSubmit =
  tps_rd :: bool
  tps_vpf :: u8
  tps_srr :: bool
  tps_udhi :: bool
  tps_rp :: bool
  tps_mr :: u8
  tps_destinationAddress :: L3TPAddress
  tps_pid :: u8
  tps_dcs :: u8
  tps_validityPeriod :: bytes
  tps_udl :: u8
  tps_userData :: bytes

definition tps_vp_octets :: "u8 \<Rightarrow> nat" where
  "tps_vp_octets vpf = (if vpf = 0x01 then 1 else if vpf = 0x02 then 7 else if vpf = 0x03 then 10 else 0)"

definition tps_parse :: "L3TPSubmit parser" where
  "tps_parse =
     rbind (readField 8) (\<lambda>hdr. let rawHdr = ucast hdr in
     if tpduMti rawHdr \<noteq> 0x01 then rfail InvalidValue ''unexpected TP-MTI in SMS-Submit header''
     else rbind (readField 8) (\<lambda>mr. rbind tpa_parse (\<lambda>da. rbind (readField 8) (\<lambda>pid. rbind (readField 8) (\<lambda>dcs.
     rbind (readOctets (tps_vp_octets (ucast (tpduVpf rawHdr)))) (\<lambda>vp.
     rbind (readField 8) (\<lambda>udl. rbind (readUserData (ucast udl) (ucast dcs)) (\<lambda>ud.
     rreturn \<lparr>tps_rd = (tpduBit2 rawHdr \<noteq> 0), tps_vpf = ucast (tpduVpf rawHdr), tps_srr = (tpduSri rawHdr \<noteq> 0),
       tps_udhi = (tpduUdhi rawHdr \<noteq> 0), tps_rp = (tpduRp rawHdr \<noteq> 0), tps_mr = ucast mr, tps_destinationAddress = da,
       tps_pid = ucast pid, tps_dcs = ucast dcs, tps_validityPeriod = vp, tps_udl = ucast udl, tps_userData = ud\<rparr>))))))))"

definition tps_firstOctet :: "L3TPSubmit \<Rightarrow> u8" where
  "tps_firstOctet m = tpduFirstOctet 0x01 (of_bool (tps_rd m)) (ucast (tps_vpf m)) (of_bool (tps_srr m)) (of_bool (tps_udhi m))
     (of_bool (tps_rp m))"

definition tps_write :: "L3TPSubmit \<Rightarrow> writer" where
  "tps_write m = wdo [writeField (ucast (tps_firstOctet m)) 8, writeField (ucast (tps_mr m)) 8,
     tpa_write (tps_destinationAddress m), writeField (ucast (tps_pid m)) 8, writeField (ucast (tps_dcs m)) 8,
     writeOctets (tps_validityPeriod m), writeField (ucast (tps_udl m)) 8, writeOctets (tps_userData m)]"

definition tps_bodyLength :: "L3TPSubmit \<Rightarrow> nat" where
  "tps_bodyLength m = 1 + 1 + tpa_totalLength (tps_destinationAddress m) + 1 + 1 + length (tps_validityPeriod m) + 1 +
     length (tps_userData m)"

definition tps_wire :: "L3TPSubmit \<Rightarrow> bool list" where
  "tps_wire m = nbits 8 (ucast (tps_firstOctet m)) @ nbits 8 (ucast (tps_mr m)) @ tpa_wire (tps_destinationAddress m) @
     nbits 8 (ucast (tps_pid m)) @ nbits 8 (ucast (tps_dcs m)) @ bits_of (tps_validityPeriod m) @
     nbits 8 (ucast (tps_udl m)) @ bits_of (tps_userData m)"

definition tps_wf :: "L3TPSubmit \<Rightarrow> bool" where
  "tps_wf m \<longleftrightarrow> tpa_wf (tps_destinationAddress m) \<and> unat (tps_vpf m) < 4 \<and>
     length (tps_validityPeriod m) = tps_vp_octets (tps_vpf m) \<and>
     length (tps_userData m) = tpudOctets (tps_udl m) (tps_dcs m)"

lemma vpf_kept: "unat (v :: u8) < 4 \<Longrightarrow> ucast (take_bit 2 (ucast v :: u32)) = v"
  using fits_take_bit [of 2 "ucast v"] by (simp add: fits_narrow)

interpretation tps: ie_codec tps_parse tps_write tps_wire tps_wf
proof (unfold_locales, goal_cases)
  case (1 m)
  show ?case unfolding tps_write_def tps_wire_def
    by (intro emits_wdo_Cons emits_writeField tpa.ie_writes emits_writeOctets emits_writeOctets_last) simp_all
next
  case (2 m)
  note flags = first_octet_flags [of 1 "tps_rd m" "ucast (tps_vpf m)" "tps_srr m" "tps_udhi m" "tps_rp m",
      folded tps_firstOctet_def]
  have wf: "tpa_wf (tps_destinationAddress m)" "unat (tps_vpf m) < 4" "tps_vp_octets (tps_vpf m) = length (tps_validityPeriod m)"
    "length (tps_userData m) = tpudOctets (tps_udl m) (tps_dcs m)"
    using 2 by (simp_all add: tps_wf_def)
  show ?case
    unfolding tps_parse_def tps_wire_def
    by (intro accepts_field) (simp_all add: flags Let_def vpf_kept [OF wf(2)],
      intro accepts_bind [OF tpa.ie_accepts] accepts_bind [OF accepts_readOctets] accepts_field accepts_map [OF accepts_readUserData],
      simp_all add: wf)
qed

lemma length_tps_wire: "tps_wf m \<Longrightarrow> length (tps_wire m) = 8 * tps_bodyLength m"
  by (auto simp: tps_wf_def tps_wire_def tps_bodyLength_def length_tpa_wire)

section \<open>Status report\<close>

record L3TPStatusReport =
  tpr_mr :: u8
  tpr_destinationAddress :: L3TPAddress
  tpr_pid :: u8
  tpr_dcs :: u8
  tpr_scts :: "TPSCTimeStamp option"
  tpr_sts :: u8

definition tpr_parse :: "L3TPStatusReport parser" where
  "tpr_parse =
     rbind (readField 8) (\<lambda>hdr.
     if tpduMti (ucast hdr) \<noteq> 0x02 then rfail InvalidValue ''unexpected TP-MTI in SMS-Status Report header''
     else rbind (readField 8) (\<lambda>mr. rbind tpa_parse (\<lambda>da. rbind (readField 8) (\<lambda>pid. rbind (readField 8) (\<lambda>dcs.
     rbind scts_parse (\<lambda>ts. rbind (readField 8) (\<lambda>sts.
     rreturn \<lparr>tpr_mr = ucast mr, tpr_destinationAddress = da, tpr_pid = ucast pid, tpr_dcs = ucast dcs, tpr_scts = Some ts,
       tpr_sts = ucast sts\<rparr>)))))))"

definition tpr_write :: "L3TPStatusReport \<Rightarrow> writer" where
  "tpr_write m = wdo ([writeField (ucast (tpduFirstOctet 0x02 0 0 0 0 0)) 8, writeField (ucast (tpr_mr m)) 8,
     tpa_write (tpr_destinationAddress m), writeField (ucast (tpr_pid m)) 8, writeField (ucast (tpr_dcs m)) 8] @
     (case tpr_scts m of Some ts \<Rightarrow> [scts_write ts] | None \<Rightarrow> []) @ [writeField (ucast (tpr_sts m)) 8])"

definition tpr_bodyLength :: "L3TPStatusReport \<Rightarrow> nat" where
  "tpr_bodyLength m = 1 + 1 + tpa_totalLength (tpr_destinationAddress m) + 1 + 1 + (if tpr_scts m \<noteq> None then 7 else 0) + 1"

definition tpr_wire :: "L3TPStatusReport \<Rightarrow> bool list" where
  "tpr_wire m = nbits 8 (ucast (tpduFirstOctet 0x02 0 0 0 0 0)) @ nbits 8 (ucast (tpr_mr m)) @
     tpa_wire (tpr_destinationAddress m) @ nbits 8 (ucast (tpr_pid m)) @ nbits 8 (ucast (tpr_dcs m)) @
     (case tpr_scts m of Some ts \<Rightarrow> scts_wire ts | None \<Rightarrow> []) @ nbits 8 (ucast (tpr_sts m))"

definition tpr_wf :: "L3TPStatusReport \<Rightarrow> bool" where
  "tpr_wf m \<longleftrightarrow> tpa_wf (tpr_destinationAddress m) \<and> tpr_scts m \<noteq> None"

lemma plain_first_octet: "tpduMti (tpduFirstOctet 0x02 0 0 0 0 0) = 0x02"
  using first_octet_flags(1) [of 2 False 0 False False False] by simp

interpretation tpr: ie_codec tpr_parse tpr_write tpr_wire tpr_wf
proof (unfold_locales, goal_cases)
  case (1 m)
  show ?case unfolding tpr_write_def tpr_wire_def append_Cons append_Nil
    by (intro emits_wdo_Cons emits_writeField tpa.ie_writes emits_scts_then emits_last) simp_all
next
  case (2 m)
  then obtain ts where ts: "tpr_scts m = Some ts" "tpa_wf (tpr_destinationAddress m)" by (auto simp: tpr_wf_def)
  show ?case
    unfolding tpr_parse_def tpr_wire_def ts(1) option.case
    by (intro accepts_field) (simp_all add: plain_first_octet,
      intro accepts_bind [OF tpa.ie_accepts] accepts_bind [OF scts.ie_accepts] accepts_field accepts_map [OF accepts_readField],
      simp_all add: ts(2) ts(1) [symmetric])
qed

lemma length_tpr_wire: "tpr_wf m \<Longrightarrow> length (tpr_wire m) = 8 * tpr_bodyLength m"
  by (auto simp: tpr_wf_def tpr_wire_def tpr_bodyLength_def length_tpa_wire length_scts_wire)

section \<open>Command\<close>

record L3TPCommand =
  tpc_mr :: u8
  tpc_pid :: u8
  tpc_dcs :: u8
  tpc_cmd :: u8
  tpc_address :: "L3TPAddress option"

definition tpc_parse :: "L3TPCommand parser" where
  "tpc_parse =
     rbind (readField 8) (\<lambda>hdr.
     if tpduMti (ucast hdr) \<noteq> 0x02 then rfail InvalidValue ''unexpected TP-MTI in SMS-Command header''
     else rbind (readField 8) (\<lambda>mr. rbind (readField 8) (\<lambda>pid. rbind (readField 8) (\<lambda>dcs. rbind (readField 8) (\<lambda>cmd.
     rreturn \<lparr>tpc_mr = ucast mr, tpc_pid = ucast pid, tpc_dcs = ucast dcs, tpc_cmd = ucast cmd, tpc_address = None\<rparr>)))))"

definition tpc_write :: "L3TPCommand \<Rightarrow> writer" where
  "tpc_write m = wdo ([writeField (ucast (tpduFirstOctet 0x02 0 0 0 0 0)) 8, writeField (ucast (tpc_mr m)) 8,
     writeField (ucast (tpc_pid m)) 8, writeField (ucast (tpc_dcs m)) 8, writeField (ucast (tpc_cmd m)) 8] @
     (case tpc_address m of Some a \<Rightarrow> [tpa_write a] | None \<Rightarrow> []))"

definition tpc_bodyLength :: "L3TPCommand \<Rightarrow> nat" where
  "tpc_bodyLength m = 1 + 1 + 1 + 1 + 1 + (case tpc_address m of Some a \<Rightarrow> tpa_totalLength a | None \<Rightarrow> 0)"

definition tpc_fields :: "L3TPCommand \<Rightarrow> (nat \<times> u32) list" where
  "tpc_fields m = [(8, ucast (tpduFirstOctet 0x02 0 0 0 0 0)), (8, ucast (tpc_mr m)), (8, ucast (tpc_pid m)),
     (8, ucast (tpc_dcs m)), (8, ucast (tpc_cmd m))]"

definition tpc_wire :: "L3TPCommand \<Rightarrow> bool list" where
  "tpc_wire m = field_bits (tpc_fields m) @ (case tpc_address m of Some a \<Rightarrow> tpa_wire a | None \<Rightarrow> [])"

lemma tpc_accepts_head: "accepts tpc_parse (field_bits (tpc_fields m)) (m\<lparr>tpc_address := None\<rparr>)"
  unfolding tpc_parse_def tpc_fields_def
  by (intro field_rules) (simp_all add: plain_first_octet, intro field_rules, simp_all)

lemma tpc_emits: "emits (tpc_write m) (tpc_wire m)"
  unfolding tpc_write_def tpc_wire_def
proof (rule emits_fields_then)
  show "emits (wdo [writeField (ucast (tpduFirstOctet 2 0 0 0 0 0)) 8, writeField (ucast (tpc_mr m)) 8,
     writeField (ucast (tpc_pid m)) 8, writeField (ucast (tpc_dcs m)) 8, writeField (ucast (tpc_cmd m)) 8]) (field_bits (tpc_fields m))"
    unfolding tpc_fields_def by (intro field_rules) simp_all
  show "emits (wdo (case tpc_address m of None \<Rightarrow> [] | Some a \<Rightarrow> [tpa_write a]))
     (case tpc_address m of None \<Rightarrow> [] | Some a \<Rightarrow> tpa_wire a)"
    by (cases "tpc_address m") (simp_all add: emits_wdo_Nil emits_last tpa.ie_writes)
qed

text \<open>Without an address the command unit is a codec like the others.\<close>

interpretation tpc: ie_codec tpc_parse tpc_write tpc_wire "\<lambda>m. tpc_address m = None"
proof (unfold_locales, goal_cases)
  case (1 m)
  show ?case by (rule tpc_emits)
next
  case (2 m)
  then have m: "m\<lparr>tpc_address := None\<rparr> = m" by simp
  have "accepts tpc_parse (field_bits (tpc_fields m)) m" using tpc_accepts_head [of m] unfolding m .
  then show ?case using 2 by (simp add: tpc_wire_def)
qed

lemma length_tpc_wire: "(\<And>a. tpc_address m = Some a \<Longrightarrow> tpa_wf a) \<Longrightarrow> length (tpc_wire m) = 8 * tpc_bodyLength m"
  by (cases "tpc_address m") (simp_all add: tpc_wire_def tpc_bodyLength_def tpc_fields_def length_field_bits length_tpa_wire)

section \<open>Units as octets\<close>

text \<open>A unit is written into a buffer of its body length, and parsed from the octets of the layer above.\<close>

definition unit_octets :: "nat \<Rightarrow> writer \<Rightarrow> bytes" where
  "unit_octets n wr = bw_buf (wr (mkBitWriter (replicate n 0) (8 * n)))"

definition parse_unit :: "'a parser \<Rightarrow> bytes \<Rightarrow> 'a Expected \<times> BitReader" where
  "parse_unit p bs = p (mkBitReader (Some bs) (8 * length bs))"

lemma unit_bits:
  assumes "emits wr w" "length w = 8 * n"
  shows "bits_of (unit_octets n wr) = w" "length (unit_octets n wr) = n"
proof -
  have "bw_ok (mkBitWriter (replicate n 0) (8 * n))" by (simp add: bw_ok_def mkBitWriter_def)
  then have "emitted w (mkBitWriter (replicate n 0) (8 * n)) (wr (mkBitWriter (replicate n 0) (8 * n)))"
    using assms(1) by (simp add: emits_def)
  then show "bits_of (unit_octets n wr) = w" "length (unit_octets n wr) = n"
    using assms(2) by (simp_all add: emitted_def mkBitWriter_def Let_def unit_octets_def)
qed

lemma unit_parsed:
  assumes "emits wr (as @ bs)" "length (as @ bs) = 8 * n" "accepts p as x" "n < 2 ^ 32 - 4"
  obtains br where "parse_unit p (unit_octets n wr) = (Inr x, br)" "br_ok br" "upcoming br = bs"
proof -
  note u = unit_bits [OF assms(1,2)]
  have ok: "br_ok (mkBitReader (Some (unit_octets n wr)) (8 * n))" using assms(4) u(2) by (simp add: br_ok_def mkBitReader_def)
  have up: "upcoming (mkBitReader (Some (unit_octets n wr)) (8 * n)) = as @ bs"
    using u assms(2) by (simp add: upcoming_def mkBitReader_def)
  show ?thesis by (rule acceptsD [OF assms(3) ok up]) (use that u(2) in \<open>simp add: parse_unit_def\<close>)
qed

lemma tpa_small: "tpa_wf a \<Longrightarrow> tpa_totalLength a < 256"
  by (auto simp: tpa_totalLength_def tpa_wf_def)

text \<open>A command with an address is written with it and read back without it, and the octets of the address are left over.\<close>

lemma command_address_unread:
  assumes "tpc_address m = Some a" "tpa_wf a"
  shows "\<exists>br. parse_unit tpc_parse (unit_octets (tpc_bodyLength m) (tpc_write m)) = (Inr (m\<lparr>tpc_address := None\<rparr>), br) \<and>
    upcoming br = tpa_wire a"
proof (rule unit_parsed [OF _ _ tpc_accepts_head])
  show "emits (tpc_write m) (field_bits (tpc_fields m) @ tpa_wire a)" using tpc_emits [of m] assms(1) by (simp add: tpc_wire_def)
  show "length (field_bits (tpc_fields m) @ tpa_wire a) = 8 * tpc_bodyLength m"
    using length_tpc_wire [of m] assms by (simp add: tpc_wire_def)
  show "tpc_bodyLength m < 2 ^ 32 - 4" using tpa_small [OF assms(2)] assms(1) by (simp add: tpc_bodyLength_def)
qed blast

end
