(* ===== verification/Sms_Messages.thy ===== *)
theory Sms_Messages
  imports Sms_Transport L3_Framing
begin

text \<open>
  The relay and the control layer of short messages (\<^verbatim>\<open>sms/l3smsmessages.cpp\<close>). The relay messages are codecs of their own,
  carried as octets by the control messages, which are the domain of the discriminator \<open>SMS\<close> and satisfy \<open>domain_codec\<close>.
\<close>

unbundle bit_operations_syntax

section \<open>Data with a length octet\<close>

text \<open>The loop \<^verbatim>\<open>for (i = 0; i < n && br.hasMore(); ++i)\<close>.\<close>

fun readWhileMore :: "nat \<Rightarrow> bytes parser" where
  "readWhileMore 0 = rreturn []"
| "readWhileMore (Suc n) = rbind (rget hasMore) (\<lambda>more_octets. if \<not> more_octets then rreturn []
     else rbind (readField 8) (\<lambda>v. rbind (readWhileMore n) (\<lambda>bs. rreturn (ucast v # bs))))"

definition readLengthData :: "bytes parser" where
  "readLengthData = rbind (readField 8) (\<lambda>len. readWhileMore (unat len))"

definition writeLengthData :: "bytes \<Rightarrow> writer" where
  "writeLengthData d = wdo [writeField (of_nat (length d)) 8, writeOctets d]"

definition length_data_wire :: "bytes \<Rightarrow> bool list" where
  "length_data_wire d = nbits 8 (of_nat (length d)) @ bits_of d"

lemma accepts_readWhileMore: "accepts (readWhileMore (length bs)) (bits_of bs) bs"
proof (induction bs)
  case Nil
  then show ?case by (simp add: accepts_return)
next
  case (Cons b bs)
  have "accepts (rbind (readWhileMore (length bs)) (\<lambda>r. rreturn (ucast (ucast b :: u32) # r))) (bits_of bs) (b # bs)"
    by (rule accepts_last [OF Cons.IH]) simp
  then have "accepts (rbind (readField 8) (\<lambda>v. rbind (readWhileMore (length bs)) (\<lambda>bs. rreturn (ucast v # bs))))
      (bits_of (b # bs)) (b # bs)"
    by (simp add: octet_list_nbits accepts_field)
  then show ?case
    unfolding list.size(4) add_0_right add_Suc_right readWhileMore.simps
    by (intro accepts_get [where v = True]) (simp_all add: hasMore_upcoming octet_list_def)
qed

lemma octet_count_of: "n < 256 \<Longrightarrow> fits 8 (of_nat n)" "n < 256 \<Longrightarrow> unat (of_nat n :: u32) = n"
  by (simp_all add: fits_def unat_of_nat)

interpretation len_data: ie_codec readLengthData writeLengthData length_data_wire "\<lambda>d. length d < 256"
proof (unfold_locales, goal_cases)
  case (1 d)
  show ?case unfolding writeLengthData_def length_data_wire_def
    by (intro emits_wdo_Cons emits_writeField emits_writeOctets_last) simp
next
  case (2 d)
  then show ?case unfolding readLengthData_def length_data_wire_def
    by (intro accepts_field) (simp_all add: octet_count_of accepts_readWhileMore)
qed

section \<open>Relay layer\<close>

text \<open>The reserved bits of the header octet are checked, and the whole octet is kept as the message type.\<close>

definition readRpHeader :: "(u8 \<times> u8) parser" where
  "readRpHeader =
     rbind (readField 8) (\<lambda>hdr. if hdr AND 0xF8 \<noteq> 0 then rfail InvalidValue ''invalid RP header octet''
     else rbind (readField 8) (\<lambda>ref. rreturn (ucast hdr, ucast ref)))"

definition writeRpHeader :: "u8 \<times> u8 \<Rightarrow> writer" where
  "writeRpHeader h = wdo [writeField (ucast (fst h)) 8, writeField (ucast (snd h)) 8]"

definition rp_header_wire :: "u8 \<times> u8 \<Rightarrow> bool list" where
  "rp_header_wire h = field_bits [(8, ucast (fst h)), (8, ucast (snd h))]"

lemma reserved_bits:
  assumes "unat (v :: u8) < 8"
  shows "(ucast v :: u32) AND 0xF8 = 0"
proof (rule bit_word_eqI)
  fix n
  have "n \<in> {0, 1, 2}" if "bit v n" using low_bits [of v 3 n] assms that by auto
  then show "bit ((ucast v :: u32) AND 0xF8) n = bit (0 :: u32) n" by (auto simp: bit_simps)
qed

interpretation rph: ie_codec readRpHeader writeRpHeader rp_header_wire "\<lambda>h. unat (fst h) < 8"
proof (unfold_locales, goal_cases)
  case (1 h)
  show ?case unfolding writeRpHeader_def rp_header_wire_def by (intro field_rules) simp_all
next
  case (2 h)
  then show ?case unfolding readRpHeader_def rp_header_wire_def
    by (intro accepts_fields_Cons) (simp_all add: reserved_bits, intro field_rules, simp_all)
qed

lemma length_rp_header_wire: "length (rp_header_wire h) = 16"
  by (simp add: rp_header_wire_def length_field_bits)

text \<open>The acknowledgement and the memory available message are this header, as the pair of type and reference.\<close>

type_synonym L3RPAck = "u8 \<times> u8"

type_synonym L3RPSMMA = "u8 \<times> u8"

definition rpack_parse :: "L3RPAck parser" where
  "rpack_parse = readRpHeader"

definition rpack_write :: "L3RPAck \<Rightarrow> writer" where
  "rpack_write m = writeRpHeader m"

definition rpsmma_parse :: "L3RPSMMA parser" where
  "rpsmma_parse = readRpHeader"

definition rpsmma_write :: "L3RPSMMA \<Rightarrow> writer" where
  "rpsmma_write m = writeRpHeader m"

interpretation rpack: ie_codec rpack_parse rpack_write rp_header_wire "\<lambda>h. unat (fst h) < 8"
  unfolding rpack_parse_def rpack_write_def [abs_def] by unfold_locales

interpretation rpsmma: ie_codec rpsmma_parse rpsmma_write rp_header_wire "\<lambda>h. unat (fst h) < 8"
  unfolding rpsmma_parse_def rpsmma_write_def [abs_def] by unfold_locales

text \<open>An address that is absent is written as a zero length octet, which is also the empty address.\<close>

definition rp_address_parse :: "L3TPAddress option parser" where
  "rp_address_parse = rbind tpa_parse (\<lambda>a. rreturn (if tpa_length a > 0 then Some a else None))"

definition rp_address_write :: "L3TPAddress option \<Rightarrow> writer" where
  "rp_address_write oa = (case oa of Some a \<Rightarrow> tpa_write a | None \<Rightarrow> writeField 0 8)"

definition rpAddressWireLength :: "L3TPAddress option \<Rightarrow> nat" where
  "rpAddressWireLength oa = (case oa of Some a \<Rightarrow> tpa_totalLength a | None \<Rightarrow> 1)"

definition rp_address_wf :: "L3TPAddress option \<Rightarrow> bool" where
  "rp_address_wf oa \<longleftrightarrow> (case oa of Some a \<Rightarrow> tpa_wf a \<and> tpa_length a > 0 | None \<Rightarrow> True)"

definition rp_address_wire :: "L3TPAddress option \<Rightarrow> bool list" where
  "rp_address_wire oa = (case oa of Some a \<Rightarrow> tpa_wire a | None \<Rightarrow> nbits 8 0)"

lemma tpa_empty: "tpa_wf tpa_default" "tpa_wire tpa_default = nbits 8 0" "tpa_length tpa_default = 0"
  by (simp_all add: tpa_wf_def tpa_default_def tpa_wire_def)

interpretation rpa: ie_codec rp_address_parse rp_address_write rp_address_wire rp_address_wf
proof (unfold_locales, goal_cases)
  case (1 a)
  show ?case by (cases a) (simp_all add: rp_address_write_def rp_address_wire_def tpa.ie_writes emits_writeField)
next
  case (2 a)
  have none: "accepts rp_address_parse (nbits 8 0) None"
    unfolding rp_address_parse_def tpa_empty(2) [symmetric]
    by (rule accepts_map [OF tpa.ie_accepts [OF tpa_empty(1)]]) (simp add: tpa_empty(3))
  show ?case
  proof (cases a)
    case None
    then show ?thesis using none by (simp add: rp_address_wire_def)
  next
    case (Some x)
    then show ?thesis using 2 unfolding rp_address_parse_def
      by (simp add: rp_address_wire_def rp_address_wf_def) (rule accepts_map [OF tpa.ie_accepts], simp_all)
  qed
qed

lemma length_rp_address_wire: "rp_address_wf a \<Longrightarrow> length (rp_address_wire a) = 8 * rpAddressWireLength a"
  by (cases a) (simp_all add: rp_address_wf_def rp_address_wire_def rpAddressWireLength_def length_tpa_wire)

record L3RPData =
  rpd_rpMti :: u8
  rpd_messageRef :: u8
  rpd_originatorAddress :: "L3TPAddress option"
  rpd_destinationAddress :: "L3TPAddress option"
  rpd_userData :: bytes

definition rpd_parse :: "L3RPData parser" where
  "rpd_parse =
     rbind readRpHeader (\<lambda>h. rbind rp_address_parse (\<lambda>oa. rbind rp_address_parse (\<lambda>da. rbind readLengthData (\<lambda>ud.
     rreturn \<lparr>rpd_rpMti = fst h, rpd_messageRef = snd h, rpd_originatorAddress = oa, rpd_destinationAddress = da,
       rpd_userData = ud\<rparr>))))"

definition rpd_write :: "L3RPData \<Rightarrow> writer" where
  "rpd_write m = wdo [writeRpHeader (rpd_rpMti m, rpd_messageRef m), rp_address_write (rpd_originatorAddress m),
     rp_address_write (rpd_destinationAddress m), writeLengthData (rpd_userData m)]"

definition rpd_bodyLength :: "L3RPData \<Rightarrow> nat" where
  "rpd_bodyLength m = 2 + rpAddressWireLength (rpd_originatorAddress m) + rpAddressWireLength (rpd_destinationAddress m) +
     (1 + length (rpd_userData m))"

definition rpd_wire :: "L3RPData \<Rightarrow> bool list" where
  "rpd_wire m = rp_header_wire (rpd_rpMti m, rpd_messageRef m) @ rp_address_wire (rpd_originatorAddress m) @
     rp_address_wire (rpd_destinationAddress m) @ length_data_wire (rpd_userData m)"

definition rpd_wf :: "L3RPData \<Rightarrow> bool" where
  "rpd_wf m \<longleftrightarrow> unat (rpd_rpMti m) < 8 \<and> rp_address_wf (rpd_originatorAddress m) \<and> rp_address_wf (rpd_destinationAddress m) \<and>
     length (rpd_userData m) < 256"

interpretation rpd: ie_codec rpd_parse rpd_write rpd_wire rpd_wf
proof (unfold_locales, goal_cases)
  case (1 m)
  show ?case unfolding rpd_write_def rpd_wire_def
    by (intro emits_wdo_Cons rph.ie_writes rpa.ie_writes emits_last len_data.ie_writes)
next
  case (2 m)
  then show ?case unfolding rpd_parse_def rpd_wire_def rpd_wf_def
    by (intro accepts_bind [OF rph.ie_accepts] accepts_bind [OF rpa.ie_accepts] accepts_map [OF len_data.ie_accepts]) simp_all
qed

lemma length_rpd_wire: "rpd_wf m \<Longrightarrow> length (rpd_wire m) = 8 * rpd_bodyLength m"
  by (simp add: rpd_wire_def rpd_wf_def rpd_bodyLength_def length_rp_header_wire length_rp_address_wire length_data_wire_def)

text \<open>An error has a cause after the header.\<close>

record L3RPError =
  rpe_rpMti :: u8
  rpe_messageRef :: u8
  rpe_cause :: u8

definition rpe_parse :: "L3RPError parser" where
  "rpe_parse =
     rbind readRpHeader (\<lambda>h. rbind (readField 8) (\<lambda>causeLen.
     rbind (if unat causeLen \<ge> 1 then rbind (readField 8) (\<lambda>v. rreturn (ucast (v AND 0x7F))) else rreturn 0) (\<lambda>cause.
     rreturn \<lparr>rpe_rpMti = fst h, rpe_messageRef = snd h, rpe_cause = cause\<rparr>)))"

definition rpe_write :: "L3RPError \<Rightarrow> writer" where
  "rpe_write m = wdo [writeRpHeader (rpe_rpMti m, rpe_messageRef m), writeField 1 8, writeField (ucast (rpe_cause m)) 8]"

definition rpe_wire :: "L3RPError \<Rightarrow> bool list" where
  "rpe_wire m = rp_header_wire (rpe_rpMti m, rpe_messageRef m) @ nbits 8 1 @ nbits 8 (ucast (rpe_cause m))"

definition rpe_wf :: "L3RPError \<Rightarrow> bool" where
  "rpe_wf m \<longleftrightarrow> unat (rpe_rpMti m) < 8 \<and> unat (rpe_cause m) < 128"

lemma low_seven:
  assumes "unat (v :: u8) < 128"
  shows "ucast ((ucast v :: u32) AND 0x7F) = v"
proof -
  have "(ucast v :: u32) AND 0x7F = take_bit 7 (ucast v)" by (simp add: take_bit_eq_mask mask_eq_exp_minus_1)
  also have "\<dots> = ucast v" using fits_take_bit [of 7 "ucast v"] assms by (simp add: fits_narrow)
  finally show ?thesis by simp
qed

interpretation rpe: ie_codec rpe_parse rpe_write rpe_wire rpe_wf
proof (unfold_locales, goal_cases)
  case (1 m)
  show ?case unfolding rpe_write_def rpe_wire_def
    by (intro emits_wdo_Cons rph.ie_writes emits_last emits_writeField) simp_all
next
  case (2 m)
  have c: "accepts (rbind (readField 8) (\<lambda>v. rreturn (ucast (v AND 0x7F)))) (nbits 8 (ucast (rpe_cause m))) (rpe_cause m)"
    using 2 by (intro accepts_map [OF accepts_readField]) (simp_all add: low_seven rpe_wf_def)
  show ?case unfolding rpe_parse_def rpe_wire_def
    using 2 by (intro accepts_bind [OF rph.ie_accepts] accepts_field) (simp_all add: rpe_wf_def accepts_map [OF c])
qed


lemma length_rpe_wire: "length (rpe_wire m) = 8 * 4"
  by (simp add: rpe_wire_def length_rp_header_wire)

section \<open>Control layer\<close>

record L3CPStatus =
  cps_tpOi :: u8
  cps_mti :: u8
  cps_haveMessageRef :: bool
  cps_messageRef :: u8

datatype SMS =
    CPData bytes
  | CPAck
  | CPErr u8
  | CPStatus L3CPStatus
  | CPSMT bytes

fun sms_mti :: "SMS \<Rightarrow> int" where
  "sms_mti (CPData _) = 0x01"
| "sms_mti CPAck = 0x04"
| "sms_mti (CPErr _) = 0x10"
| "sms_mti (CPStatus _) = 0x12"
| "sms_mti (CPSMT _) = 0x13"

definition cperr_parse :: "u8 parser" where
  "cperr_parse = rbind (readField 8) (\<lambda>cause. rreturn (ucast (cause AND 0x7F)))"

definition cps_parse :: "L3CPStatus parser" where
  "cps_parse =
     rbind (readField 8) (\<lambda>tpOi. rbind (readField 8) (\<lambda>mti.
     if (ucast mti :: u8) AND 0x02 \<noteq> 0
     then rbind (readField 8) (\<lambda>ref.
       rreturn \<lparr>cps_tpOi = ucast tpOi, cps_mti = ucast mti, cps_haveMessageRef = True, cps_messageRef = ucast ref\<rparr>)
     else rreturn \<lparr>cps_tpOi = ucast tpOi, cps_mti = ucast mti, cps_haveMessageRef = False, cps_messageRef = 0\<rparr>))"

definition cps_write :: "L3CPStatus \<Rightarrow> writer" where
  "cps_write m = wdo ([writeField (ucast (cps_tpOi m)) 8, writeField (ucast (cps_mti m)) 8] @
     (if cps_haveMessageRef m then [writeField (ucast (cps_messageRef m)) 8] else []))"

definition parseL3SMS :: "int \<Rightarrow> SMS parser" where
  "parseL3SMS mti =
     (if mti = 0x01 then rmap CPData readLengthData
      else if mti = 0x04 then rreturn CPAck
      else if mti = 0x10 then rmap CPErr cperr_parse
      else if mti = 0x12 then rmap CPStatus cps_parse
      else if mti = 0x13 then rmap CPSMT readLengthData
      else rfail InvalidMTI ''Unknown SMS MTI'')"

fun sms_write :: "SMS \<Rightarrow> writer" where
  "sms_write (CPData d) = writeLengthData d"
| "sms_write CPAck = wdo []"
| "sms_write (CPErr c) = wdo [writeField (ucast c) 8]"
| "sms_write (CPStatus m) = cps_write m"
| "sms_write (CPSMT d) = writeLengthData d"

fun sms_bodyLength :: "SMS \<Rightarrow> nat" where
  "sms_bodyLength (CPData d) = 1 + length d"
| "sms_bodyLength CPAck = 0"
| "sms_bodyLength (CPErr _) = 1"
| "sms_bodyLength (CPStatus m) = 2 + (if cps_haveMessageRef m then 1 else 0)"
| "sms_bodyLength (CPSMT d) = 1 + length d"

text \<open>A status carries a reference exactly when the second bit of its message type field is set.\<close>

definition cps_wf :: "L3CPStatus \<Rightarrow> bool" where
  "cps_wf m \<longleftrightarrow> (cps_haveMessageRef m \<longleftrightarrow> cps_mti m AND 0x02 \<noteq> 0) \<and> (\<not> cps_haveMessageRef m \<longrightarrow> cps_messageRef m = 0)"

fun sms_wf :: "SMS \<Rightarrow> bool" where
  "sms_wf (CPData d) \<longleftrightarrow> length d < 256"
| "sms_wf CPAck \<longleftrightarrow> True"
| "sms_wf (CPErr c) \<longleftrightarrow> unat c < 128"
| "sms_wf (CPStatus m) \<longleftrightarrow> cps_wf m"
| "sms_wf (CPSMT d) \<longleftrightarrow> length d < 256"

definition cps_wire :: "L3CPStatus \<Rightarrow> bool list" where
  "cps_wire m = field_bits [(8, ucast (cps_tpOi m)), (8, ucast (cps_mti m))] @
     (if cps_haveMessageRef m then nbits 8 (ucast (cps_messageRef m)) else [])"

fun sms_wire :: "SMS \<Rightarrow> bool list" where
  "sms_wire (CPData d) = length_data_wire d"
| "sms_wire CPAck = []"
| "sms_wire (CPErr c) = nbits 8 (ucast c)"
| "sms_wire (CPStatus m) = cps_wire m"
| "sms_wire (CPSMT d) = length_data_wire d"

lemma cps_accepts:
  assumes "cps_wf m"
  shows "accepts cps_parse (cps_wire m) m"
proof (cases "cps_haveMessageRef m")
  case True
  then have "accepts (rbind (readField 8) (\<lambda>ref.
       rreturn \<lparr>cps_tpOi = cps_tpOi m, cps_mti = cps_mti m, cps_haveMessageRef = True, cps_messageRef = ucast ref\<rparr>))
     (nbits 8 (ucast (cps_messageRef m))) m"
    by (intro accepts_map [OF accepts_readField]) simp_all
  then show ?thesis using True assms unfolding cps_parse_def cps_wire_def
    by (intro accepts_fields_Cons_then) (simp_all add: cps_wf_def field_bits_simps)
next
  case False
  then have m: "\<lparr>cps_tpOi = cps_tpOi m, cps_mti = cps_mti m, cps_haveMessageRef = False, cps_messageRef = 0\<rparr> = m"
    using assms by (simp add: cps_wf_def)
  have "accepts (rreturn \<lparr>cps_tpOi = cps_tpOi m, cps_mti = cps_mti m, cps_haveMessageRef = False, cps_messageRef = 0\<rparr>) [] m"
    unfolding m by (rule accepts_return)
  then show ?thesis using False assms unfolding cps_parse_def cps_wire_def
    by (intro accepts_fields_Cons_then) (simp_all add: cps_wf_def field_bits_simps accepts_return)
qed

lemma sms_emits: "emits (sms_write m) (sms_wire m)"
proof (cases m)
  case (CPStatus x)
  show ?thesis unfolding CPStatus sms_write.simps sms_wire.simps cps_write_def cps_wire_def
    by (intro emits_fields_then field_rules emits_optional emits_last emits_writeField) simp_all
qed (simp_all add: len_data.ie_writes emits_wdo_Nil emits_last emits_writeField)

lemma cperr_accepts: "unat c < 128 \<Longrightarrow> accepts cperr_parse (nbits 8 (ucast c)) c"
  unfolding cperr_parse_def by (intro accepts_map [OF accepts_readField]) (simp_all add: low_seven)

lemma length_sms_wire: "length (sms_wire m) = 8 * sms_bodyLength m"
  by (cases m) (simp_all add: length_data_wire_def cps_wire_def length_field_bits)

interpretation sms: domain_codec PD_SMS sms_mti "\<lambda>_. 0" sms_bodyLength "\<lambda>mti ti. parseL3SMS mti" sms_write sms_wire sms_wf
proof (unfold_locales, goal_cases)
  case (1 m)
  show ?case by (rule sms_emits)
next
  case (2 m)
  then show ?case
    by (cases m) (simp_all add: parseL3SMS_def decodes_rmap decodes_return accepts_decodes len_data.ie_accepts cperr_accepts cps_accepts)
next
  case (3 m)
  show ?case by (rule length_sms_wire)
next
  case (4 m)
  then show ?case by (cases m) simp_all
next
  case (5 m)
  then show ?case by (cases m) (simp_all add: kRRTifShortBase_def header_ok_def)
qed simp

section \<open>One layer inside the other\<close>

lemma rpAddress_small: "rp_address_wf a \<Longrightarrow> rpAddressWireLength a < 256"
  using tpa_small by (cases a) (auto simp: rp_address_wf_def rpAddressWireLength_def)

lemma relay_unit_parsed:
  assumes "rpd_wf r"
  shows "fst (parse_unit rpd_parse (unit_octets (rpd_bodyLength r) (rpd_write r))) = Inr r"
proof -
  have "emits (rpd_write r) (rpd_wire r @ [])" using rpd.ie_writes [of r] by simp
  moreover have "length (rpd_wire r @ []) = 8 * rpd_bodyLength r" using length_rpd_wire [OF assms] by simp
  moreover have "rpd_bodyLength r < 2 ^ 32 - 4"
    using assms rpAddress_small [of "rpd_originatorAddress r"] rpAddress_small [of "rpd_destinationAddress r"]
    by (simp add: rpd_wf_def rpd_bodyLength_def)
  ultimately show ?thesis by (rule unit_parsed [OF _ _ rpd.ie_accepts [OF assms]]) simp
qed

lemma submit_unit_parsed:
  assumes "tps_wf s"
  shows "fst (parse_unit tps_parse (unit_octets (tps_bodyLength s) (tps_write s))) = Inr s"
proof -
  have l: "unat (tps_udl s) < 256" using unsigned_less [of "tps_udl s"] by simp
  have "emits (tps_write s) (tps_wire s @ [])" using tps.ie_writes [of s] by simp
  moreover have "length (tps_wire s @ []) = 8 * tps_bodyLength s" using length_tps_wire [OF assms] by simp
  moreover have "tps_bodyLength s < 2 ^ 32 - 4"
    using assms tpa_small [of "tps_destinationAddress s"] l
    by (auto simp: tps_wf_def tps_bodyLength_def tpudOctets_def tps_vp_octets_def)
  ultimately show ?thesis by (rule unit_parsed [OF _ _ tps.ie_accepts [OF assms]]) simp
qed

end
