(* ===== verification/L3_Parser.thy ===== *)
theory L3_Parser
  imports Mm_Round_Trip Opaque_Domains Ss_Messages Sms_Messages
begin

text \<open>
  The parsed message as a sum over the domains, the switch \<^verbatim>\<open>parseStandardBody\<close>, and the entry points of \<^verbatim>\<open>parser.cpp\<close> put
  together with the domains of this library. The parsers of the domains not translated here (radio resource with a header,
  call control, packet mobility and session management) are the argument \<open>rest\<close>.
\<close>

unbundle bit_operations_syntax

section \<open>Messages without a header\<close>

definition cr_parse :: "u8 parser" where
  "cr_parse = rbind (readField 8) (\<lambda>v. rreturn (ucast v))"

definition cr_write :: "u8 \<Rightarrow> writer" where
  "cr_write ra = wdo [writeField (ucast ra) 8]"

definition ha_parse :: "u32 parser" where
  "ha_parse =
     rbind (readField 27) (\<lambda>n. rbind (readField 5) (\<lambda>spare.
     if spare \<noteq> 0 then rfail InvalidValue ''HandoverAccess: reserved bits must be zero'' else rreturn n))"

definition ha_write :: "u32 \<Rightarrow> writer" where
  "ha_write n = wdo [writeField n 27, writeField 0 5]"

interpretation cr: ie_codec cr_parse cr_write "\<lambda>ra. nbits 8 (ucast ra)" "\<lambda>_. True"
proof (unfold_locales, goal_cases)
  case (1 x)
  show ?case unfolding cr_write_def by (intro emits_last emits_writeField) simp
next
  case (2 x)
  show ?case unfolding cr_parse_def by (rule accepts_map [OF accepts_readField]) simp_all
qed

interpretation ha: ie_codec ha_parse ha_write "\<lambda>n. field_bits [(27, n), (5, 0)]" "\<lambda>n. fits 27 n"
proof (unfold_locales, goal_cases)
  case (1 x)
  show ?case unfolding ha_write_def by (intro field_rules) simp_all
next
  case (2 x)
  then show ?case unfolding ha_parse_def by (intro field_rules) (simp_all add: accepts_fields_Nil)
qed

section \<open>Parsed messages\<close>

datatype 'r ParsedMessage =
    ChannelRequest u8
  | HandoverAccess u32
  | PM_MM MMM
  | PM_SS SSM
  | PM_SMS SMS
  | PM_BCC BCCM
  | PM_GCC GCCM
  | PM_LS LSM
  | PM_PDSS1 RuntimeMessage
  | PM_Extended RuntimeMessage
  | PM_TestProc RuntimeMessage
  | PM_Rest 'r

definition parseStandardBody :: "(L3Header \<Rightarrow> 'r parser) \<Rightarrow> L3Header \<Rightarrow> 'r ParsedMessage parser" where
  "parseStandardBody rest hdr = (case hd_pd hdr of
      MobilityManagement \<Rightarrow> rmap PM_MM (parseL3MM (hd_mti hdr))
    | NonCallSS \<Rightarrow> rmap PM_SS (parseL3SS (hd_mti hdr) (of_nat (hd_ti hdr)))
    | PD_SMS \<Rightarrow> rmap PM_SMS (parseL3SMS (hd_mti hdr))
    | BroadcastCallControl \<Rightarrow> rmap PM_BCC (parseL3BCC (hd_mti hdr) (of_nat (hd_ti hdr)))
    | GroupCallControl \<Rightarrow> rmap PM_GCC (parseL3GCC (hd_mti hdr) (of_nat (hd_ti hdr)))
    | PD_Location \<Rightarrow> rmap PM_LS (parseL3LS (hd_mti hdr))
    | PacketDomainSupplementaryServices1 \<Rightarrow> rmap PM_PDSS1 (parseL3PDSS1 (hd_mti hdr))
    | PacketDomainSupplementaryServices2 \<Rightarrow> rmap PM_Extended (parseL3Extended (hd_mti hdr))
    | TestProcedure \<Rightarrow> rmap PM_TestProc (parseL3TestProc (hd_mti hdr))
    | PD_Undefined \<Rightarrow> rfail InvalidPD ''Unsupported Protocol Discriminator''
    | PD_unnamed _ \<Rightarrow> rfail InvalidPD ''Unsupported Protocol Discriminator''
    | _ \<Rightarrow> rmap PM_Rest (rest hdr))"

definition parse_message :: "(L3Header \<Rightarrow> 'r parser) \<Rightarrow> bool \<Rightarrow> bytes \<Rightarrow> 'r ParsedMessage Expected" where
  "parse_message rest = parseL3 (parseStandardBody rest) (rmap ChannelRequest cr_parse) (rmap HandoverAccess ha_parse)"

definition parse_message_hex :: "(L3Header \<Rightarrow> 'r parser) \<Rightarrow> bool \<Rightarrow> string \<Rightarrow> 'r ParsedMessage Expected" where
  "parse_message_hex rest =
     parseL3Hex (parseStandardBody rest) (rmap ChannelRequest cr_parse) (rmap HandoverAccess ha_parse)"

section \<open>Writing\<close>

text \<open>
  What \<^verbatim>\<open>std::visit\<close> gives the writer for a message: discriminator, message type, transaction identifier (zero where the
  class has none), body length and encoder. The argument does it for the domains that are not translated.
\<close>

type_synonym wire_view = "L3PD \<times> int \<times> u32 \<times> nat \<times> writer"

fun wire_view_of :: "('r \<Rightarrow> wire_view) \<Rightarrow> 'r ParsedMessage \<Rightarrow> wire_view" where
  "wire_view_of rest (ChannelRequest ra) = (RadioResource, 0x181, 0, 1, cr_write ra)"
| "wire_view_of rest (HandoverAccess n) = (RadioResource, 0x182, 0, 4, ha_write n)"
| "wire_view_of rest (PM_MM m) = (MobilityManagement, mm_mti m, 0, mm_bodyLength m, mm_write m)"
| "wire_view_of rest (PM_SS m) = (NonCallSS, ss_mti m, ss_ti m, ss_bodyLength m, ss_write m)"
| "wire_view_of rest (PM_SMS m) = (PD_SMS, sms_mti m, 0, sms_bodyLength m, sms_write m)"
| "wire_view_of rest (PM_BCC m) = (BroadcastCallControl, bcc_mti m, bcc_ti m, bcc_bodyLength m, bcc_write m)"
| "wire_view_of rest (PM_GCC m) = (GroupCallControl, gcc_mti m, gcc_ti m, gcc_bodyLength m, gcc_write m)"
| "wire_view_of rest (PM_LS m) = (PD_Location, ls_mti m, 0, length (ls_body m), ls_write m)"
| "wire_view_of rest (PM_PDSS1 m) = (PacketDomainSupplementaryServices1, uint (rtm_mti m), 0, rtm_bodyLength m, rtm_write m)"
| "wire_view_of rest (PM_Extended m) = (PacketDomainSupplementaryServices2, uint (rtm_mti m), 0, rtm_bodyLength m, rtm_write m)"
| "wire_view_of rest (PM_TestProc m) = (TestProcedure, uint (rtm_mti m), 0, rtm_bodyLength m, rtm_write m)"
| "wire_view_of rest (PM_Rest m) = rest m"

definition writeL3 :: "('r \<Rightarrow> wire_view) \<Rightarrow> 'r ParsedMessage \<Rightarrow> bytes \<Rightarrow> nat Expected \<times> bytes" where
  "writeL3 rest m out = (case wire_view_of rest m of (p, mti, ti, n, wr) \<Rightarrow> writeL3Body p mti ti n wr out)"

definition messageWireLength :: "('r \<Rightarrow> wire_view) \<Rightarrow> 'r ParsedMessage \<Rightarrow> nat" where
  "messageWireLength rest m = (case wire_view_of rest m of (_, mti, _, n, _) \<Rightarrow> wireLength mti n)"

definition message_bytes :: "('r \<Rightarrow> wire_view) \<Rightarrow> 'r ParsedMessage \<Rightarrow> bytes Expected" where
  "message_bytes rest m = (case wire_view_of rest m of (p, mti, ti, n, wr) \<Rightarrow> writeL3Bytes p mti ti n wr)"

definition message_hex :: "('r \<Rightarrow> wire_view) \<Rightarrow> 'r ParsedMessage \<Rightarrow> string Expected" where
  "message_hex rest m = (case wire_view_of rest m of (p, mti, ti, n, wr) \<Rightarrow> writeL3Hex p mti ti n wr)"

text \<open>The messages that survive the wire: those of the translated domains with well-formed fields.\<close>

fun pm_wf :: "'r ParsedMessage \<Rightarrow> bool" where
  "pm_wf (ChannelRequest _) \<longleftrightarrow> True"
| "pm_wf (HandoverAccess n) \<longleftrightarrow> fits 27 n \<and> drop_bit 19 n AND 0x0F \<in> {0x00, 0x01, 0x02, 0x04, 0x07}"
| "pm_wf (PM_MM m) \<longleftrightarrow> mm_wf m"
| "pm_wf (PM_SS m) \<longleftrightarrow> ss_wf m"
| "pm_wf (PM_SMS m) \<longleftrightarrow> sms_wf m"
| "pm_wf (PM_BCC m) \<longleftrightarrow> group_call_wf (bcc_ti m) (bcc_body m)"
| "pm_wf (PM_GCC m) \<longleftrightarrow> group_call_wf (gcc_ti m) (gcc_body m)"
| "pm_wf (PM_LS m) \<longleftrightarrow> length (ls_body m) < 2 ^ 16"
| "pm_wf (PM_PDSS1 m) \<longleftrightarrow> length (rtm_body m) < 2 ^ 16"
| "pm_wf (PM_Extended m) \<longleftrightarrow> length (rtm_body m) < 2 ^ 16"
| "pm_wf (PM_TestProc m) \<longleftrightarrow> length (rtm_body m) < 2 ^ 16"
| "pm_wf (PM_Rest _) \<longleftrightarrow> False"

section \<open>Round trips\<close>

definition carried :: "(L3Header \<Rightarrow> 'r parser) \<Rightarrow> ('r \<Rightarrow> wire_view) \<Rightarrow> bool \<Rightarrow> 'r ParsedMessage \<Rightarrow> bytes \<Rightarrow> bool" where
  "carried rest view req m frame \<longleftrightarrow>
     message_bytes view m = Inr frame \<and> length frame = messageWireLength view m \<and> frame \<noteq> [] \<and>
     message_hex view m = Inr (bytes_to_hex frame) \<and> parse_message rest req frame = Inr m"

lemma route:
  "hd_pd hdr = MobilityManagement \<Longrightarrow> parseStandardBody rest hdr = rbind (parseL3MM (hd_mti hdr)) (\<lambda>m. rreturn (PM_MM m))"
  "hd_pd hdr = NonCallSS \<Longrightarrow>
     parseStandardBody rest hdr = rbind (parseL3SS (hd_mti hdr) (of_nat (hd_ti hdr))) (\<lambda>m. rreturn (PM_SS m))"
  "hd_pd hdr = PD_SMS \<Longrightarrow> parseStandardBody rest hdr = rbind (parseL3SMS (hd_mti hdr)) (\<lambda>m. rreturn (PM_SMS m))"
  "hd_pd hdr = BroadcastCallControl \<Longrightarrow>
     parseStandardBody rest hdr = rbind (parseL3BCC (hd_mti hdr) (of_nat (hd_ti hdr))) (\<lambda>m. rreturn (PM_BCC m))"
  "hd_pd hdr = GroupCallControl \<Longrightarrow>
     parseStandardBody rest hdr = rbind (parseL3GCC (hd_mti hdr) (of_nat (hd_ti hdr))) (\<lambda>m. rreturn (PM_GCC m))"
  "hd_pd hdr = PD_Location \<Longrightarrow> parseStandardBody rest hdr = rbind (parseL3LS (hd_mti hdr)) (\<lambda>m. rreturn (PM_LS m))"
  "hd_pd hdr = PacketDomainSupplementaryServices1 \<Longrightarrow>
     parseStandardBody rest hdr = rbind (parseL3PDSS1 (hd_mti hdr)) (\<lambda>m. rreturn (PM_PDSS1 m))"
  "hd_pd hdr = PacketDomainSupplementaryServices2 \<Longrightarrow>
     parseStandardBody rest hdr = rbind (parseL3Extended (hd_mti hdr)) (\<lambda>m. rreturn (PM_Extended m))"
  "hd_pd hdr = TestProcedure \<Longrightarrow>
     parseStandardBody rest hdr = rbind (parseL3TestProc (hd_mti hdr)) (\<lambda>m. rreturn (PM_TestProc m))"
  by (simp_all add: parseStandardBody_def rmap_def)

lemmas carried_defs = carried_def message_bytes_def message_hex_def messageWireLength_def parse_message_def

lemma domains_carried:
  "mm_wf a \<Longrightarrow> \<exists>frame. carried rest view req (PM_MM a) frame"
  "ss_wf b \<Longrightarrow> \<exists>frame. carried rest view req (PM_SS b) frame"
  "sms_wf s \<Longrightarrow> \<exists>frame. carried rest view req (PM_SMS s) frame"
  "group_call_wf (bcc_ti c) (bcc_body c) \<Longrightarrow> \<exists>frame. carried rest view req (PM_BCC c) frame"
  "group_call_wf (gcc_ti d) (gcc_body d) \<Longrightarrow> \<exists>frame. carried rest view req (PM_GCC d) frame"
  "length (ls_body e) < 2 ^ 16 \<Longrightarrow> \<exists>frame. carried rest view req (PM_LS e) frame"
  "length (rtm_body f) < 2 ^ 16 \<Longrightarrow> \<exists>frame. carried rest view req (PM_PDSS1 f) frame"
  "length (rtm_body f) < 2 ^ 16 \<Longrightarrow> \<exists>frame. carried rest view req (PM_Extended f) frame"
  "length (rtm_body f) < 2 ^ 16 \<Longrightarrow> \<exists>frame. carried rest view req (PM_TestProc f) frame"
  unfolding carried_defs wire_view_of.simps prod.case
  by (rule mm.frame_round_trip ss.frame_round_trip sms.frame_round_trip bcc.frame_round_trip gcc.frame_round_trip ls.frame_round_trip
      pdss1.frame_round_trip ext.frame_round_trip testproc.frame_round_trip; simp add: route)+

section \<open>Frames without a header\<close>

lemma short_frame:
  assumes "isNoHeaderShort mti" "bits_of (bw_buf (wr (mkBitWriter (replicate n 0) (n * 8)))) = w" "length w = 8 * n"
  obtains frame where "writeL3Bytes p mti ti n wr = Inr frame" "bits_of frame = w" "length frame = n"
    "writeL3Hex p mti ti n wr = Inr (bytes_to_hex frame)" "wireLength mti n = n"
proof -
  let ?f = "bw_buf (wr (mkBitWriter (replicate n 0) (n * 8)))"
  have "length ?f = n" using assms(2,3) length_bits_of [of ?f] by simp
  then show ?thesis
    using assms by (intro that [of ?f]) (simp_all add: writeL3Bytes_def writeL3Hex_def writeL3Body_def wireLength_def Let_def)
qed

lemma ha_frame:
  obtains frame where "message_bytes view (HandoverAccess n) = Inr frame" "bits_of frame = field_bits [(27, n), (5, 0)]"
    "length frame = 4" "message_hex view (HandoverAccess n) = Inr (bytes_to_hex frame)" "messageWireLength view (HandoverAccess n) = 4"
proof -
  have len: "length (field_bits [(27, n), (5, 0)]) = 8 * length (replicate 4 (0 :: u8))" by (simp add: length_field_bits)
  have "bits_of (bw_buf (ha_write n (mkBitWriter (replicate 4 0) (4 * 8)))) = field_bits [(27, n), (5, 0)]"
    using ha.written_bits(1) [OF len] by simp
  moreover have "isNoHeaderShort 0x182" by (simp add: isNoHeaderShort_def)
  ultimately show ?thesis
    using short_frame [of "0x182" "ha_write n" 4] len that
    by (auto simp: message_bytes_def message_hex_def messageWireLength_def)
qed

lemma take_nbits: "k \<le> n \<Longrightarrow> take k (nbits n v) = nbits k (drop_bit (n - k) v)"
  by (rule nth_equalityI) (auto simp: nbits_def bit_simps)

lemma octet_list_inject: "octet_list a = octet_list b \<Longrightarrow> a = b"
  by (metis bval_octet unsigned_word_eqI)

lemma first_octet:
  assumes "bits_of frame = field_bits [(27, n), (5, 0)]" "length frame = 4"
  shows "frame ! 0 = ucast (drop_bit 19 n)"
proof -
  obtain b fs where f: "frame = b # fs" using assms(2) by (cases frame) auto
  have "octet_list b = take 8 (bits_of frame)" by (simp add: f)
  also have "\<dots> = nbits 8 (drop_bit 19 n)" by (simp add: assms(1) field_bits_simps take_nbits)
  also have "\<dots> = octet_list (ucast (drop_bit 19 n))"
    unfolding octet_list_nbits by (rule nth_equalityI) (auto simp: nbits_def bit_simps)
  finally show ?thesis using octet_list_inject f by simp
qed

lemma ha_nibble:
  assumes "bits_of frame = field_bits [(27, n), (5, 0)]" "length frame = 4"
  shows "frame ! 0 AND 0x0F = ucast (drop_bit 19 n AND 0x0F)"
  unfolding first_octet [OF assms] by (rule bit_word_eqI) (auto simp: bit_simps)

lemma ha_parsed:
  assumes "fits 27 n" "bits_of frame = field_bits [(27, n), (5, 0)]" "length frame = 4"
  shows "fst (rmap HandoverAccess ha_parse (mkBitReader (Some frame) 32)) = Inr (HandoverAccess n :: 'r ParsedMessage)"
proof -
  have ok: "br_ok (mkBitReader (Some frame) 32)" using assms(3) by (simp add: br_ok_def mkBitReader_def)
  have up: "upcoming (mkBitReader (Some frame) 32) = field_bits [(27, n), (5, 0)]"
    using assms(2,3) length_bits_of [of frame] by (simp add: upcoming_def mkBitReader_def)
  show ?thesis by (rule decodesD [OF decodes_rmap [OF ha.decodes [OF assms(1)], of "HandoverAccess :: u32 \<Rightarrow> 'r ParsedMessage"] ok up]) simp
qed

lemma ha_carried:
  assumes "fits 27 n" "drop_bit 19 n AND 0x0F \<in> {0x00, 0x01, 0x02, 0x04, 0x07}"
  shows "\<exists>frame. carried rest view req (HandoverAccess n :: 'r ParsedMessage) frame"
proof -
  obtain frame where f: "message_bytes view (HandoverAccess n) = Inr frame" "bits_of frame = field_bits [(27, n), (5, 0)]"
    "length frame = 4" "message_hex view (HandoverAccess n) = Inr (bytes_to_hex frame)" "messageWireLength view (HandoverAccess n) = 4"
    by (rule ha_frame)
  have "frame ! 0 AND 0x0F \<in> {0x00, 0x01, 0x02, 0x04, 0x07}" using assms(2) by (auto simp: ha_nibble [OF f(2,3)])
  then have "parse_message rest req frame = Inr (HandoverAccess n)"
    using f(3) ha_parsed [OF assms(1) f(2,3), where ?'r = 'r]
    by (auto simp: parse_message_def parseL3_def Let_def parseL3Header_def pd_code_def perr_def)
  then show ?thesis using f by (auto simp: carried_def)
qed

lemma cr_carried: "\<exists>frame. carried rest view req (ChannelRequest ra :: 'r ParsedMessage) frame"
proof -
  have len: "length (nbits 8 (ucast ra)) = 8 * length (replicate 1 (0 :: u8))" by simp
  have w: "bits_of (bw_buf (cr_write ra (mkBitWriter (replicate 1 0) (1 * 8)))) = nbits 8 (ucast ra)"
    using cr.written_bits(1) [OF len] by simp
  have s: "isNoHeaderShort 0x181" by (simp add: isNoHeaderShort_def)
  obtain frame where f: "message_bytes view (ChannelRequest ra) = Inr frame"
    "bits_of frame = nbits 8 (ucast ra)" "length frame = 1" "message_hex view (ChannelRequest ra) = Inr (bytes_to_hex frame)"
    "messageWireLength view (ChannelRequest ra) = 1"
    using short_frame [of "0x181" "cr_write ra" 1 "nbits 8 (ucast ra)" RadioResource 0, OF s w] len
    by (auto simp: message_bytes_def message_hex_def messageWireLength_def)
  have ok: "br_ok (mkBitReader (Some frame) 8)" using f(3) by (simp add: br_ok_def mkBitReader_def)
  have up: "upcoming (mkBitReader (Some frame) 8) = nbits 8 (ucast ra)"
    using f(2) by (simp add: upcoming_def mkBitReader_def)
  have "fst (rmap ChannelRequest cr_parse (mkBitReader (Some frame) 8)) = Inr (ChannelRequest ra :: 'r ParsedMessage)"
    by (rule decodesD [OF decodes_rmap [OF cr.decodes [OF TrueI], of "ChannelRequest :: u8 \<Rightarrow> 'r ParsedMessage"] ok up]) simp
  then have "parse_message rest req frame = Inr (ChannelRequest ra)"
    using f(3) by (auto simp: parse_message_def parseL3_def)
  then show ?thesis using f by (auto simp: carried_def)
qed

lemma message_carried: "pm_wf m \<Longrightarrow> \<exists>frame. carried rest view req m frame"
  by (cases m) (simp_all add: cr_carried ha_carried domains_carried)

section \<open>Properties\<close>

text \<open>
  C32. Every well-formed message of the translated domains survives the wire: \<^verbatim>\<open>writeL3Bytes\<close> succeeds, the frame has
  exactly the announced length, \<^verbatim>\<open>writeL3Hex\<close> gives its hexadecimal text, and \<^verbatim>\<open>parseL3\<close> and \<^verbatim>\<open>parseL3Hex\<close> give the
  message back, in strict mode as well, whatever the parsers of the other domains do.
\<close>

theorem message_round_trip:
  assumes "pm_wf m"
  shows "\<exists>frame. message_bytes view m = Inr frame \<and> length frame = messageWireLength view m \<and>
    message_hex view m = Inr (bytes_to_hex frame) \<and>
    parse_message rest req frame = Inr m \<and> parse_message_hex rest req (bytes_to_hex frame) = Inr m"
proof -
  obtain frame where f: "carried rest view req m frame" using message_carried [OF assms] by blast
  then have "parse_message_hex rest req (bytes_to_hex frame) = Inr m"
    by (simp add: carried_def parse_message_hex_def parse_message_def parseL3Hex_bytes)
  then show ?thesis using f by (auto simp: carried_def)
qed

section \<open>Short messages\<close>

lemma relay_unit_length: "rpd_wf r \<Longrightarrow> length (unit_octets (rpd_bodyLength r) (rpd_write r)) = rpd_bodyLength r"
  by (rule unit_bits(2) [OF rpd.ie_writes length_rpd_wire])

lemma submit_unit_length: "tps_wf s \<Longrightarrow> length (unit_octets (tps_bodyLength s) (tps_write s)) = tps_bodyLength s"
  by (rule unit_bits(2) [OF tps.ie_writes length_tps_wire])

text \<open>
  C33. A submit unit inside a relay message inside a control message inside a frame is recovered layer by layer: the frame
  parses to a control message whose octets parse to the relay message, whose user data parse to the submit unit.
\<close>

theorem short_message_layers:
  fixes view :: "'r \<Rightarrow> wire_view" and rest :: "L3Header \<Rightarrow> 'r parser"
  assumes "tps_wf s" "rpd_wf r" "rpd_userData r = unit_octets (tps_bodyLength s) (tps_write s)" "rpd_bodyLength r < 256"
  shows "\<exists>frame rpdu. message_bytes view (PM_SMS (CPData (unit_octets (rpd_bodyLength r) (rpd_write r)))) = Inr frame \<and>
    parse_message rest req frame = Inr (PM_SMS (CPData rpdu)) \<and>
    fst (parse_unit rpd_parse rpdu) = Inr r \<and> fst (parse_unit tps_parse (rpd_userData r)) = Inr s"
proof -
  let ?rpdu = "unit_octets (rpd_bodyLength r) (rpd_write r)"
  have "pm_wf (PM_SMS (CPData ?rpdu) :: 'r ParsedMessage)" using relay_unit_length [OF assms(2)] assms(4) by simp
  then show ?thesis
    using message_carried [of "PM_SMS (CPData ?rpdu) :: 'r ParsedMessage" rest view req] relay_unit_parsed [OF assms(2)] submit_unit_parsed [OF assms(1)]
    unfolding assms(3) by (auto simp: carried_def)
qed

section \<open>Handover Access frames that are read as something else\<close>

lemma runtime_body:
  assumes "length frame = 4"
  obtains br1 where "rtm_parse (word_of_int (uint (frame ! 1))) (mkBitReader (Some (drop 2 frame)) ((length frame - 2) * 8)) =
    (Inr \<lparr>rtm_mti = frame ! 1, rtm_body = drop 2 frame\<rparr>, br1)" "remainingBits br1 = 0"
proof -
  let ?br = "mkBitReader (Some (drop 2 frame)) ((length frame - 2) * 8)"
  have "br_ok ?br" "upcoming ?br = bits_of (drop 2 frame)"
    using assms length_bits_of [of "drop 2 frame"] by (simp_all add: br_ok_def mkBitReader_def upcoming_def)
  then obtain br1 where 1: "rtm_parse (word_of_int (uint (frame ! 1))) ?br = (Inr \<lparr>rtm_mti = frame ! 1, rtm_body = drop 2 frame\<rparr>, br1)"
    "br_ok br1" "upcoming br1 = []"
    using decodesD [OF decodes_rmap [OF decodes_bodies(2), of "\<lambda>b. \<lparr>rtm_mti = frame ! 1, rtm_body = b\<rparr>" "drop 2 frame"]]
    by (simp add: rtm_parse_def) metis
  then have "br_totalBits br1 - br_pos br1 = 0" "br_pos br1 \<le> br_totalBits br1" "br_totalBits br1 < 2 ^ 64"
    using length_upcoming [of br1] by (auto simp: br_ok_def)
  then have "remainingBits br1 = 0" by (simp add: remainingBits_def size_sub_le)
  then show ?thesis using 1(1) that by blast
qed

text \<open>
  C40. A Handover Access whose first octet has 0xD, 0xE or 0xF in its low half is written as four octets that \<^verbatim>\<open>parseL3\<close>
  reads back as a message of one of the three domains with opaque bodies: the standard parse of such a frame always consumes
  it exactly, as it does for the two group call discriminators, but only for those is the Handover Access tried first.
\<close>

theorem handover_access_misread:
  assumes "fits 27 n" "drop_bit 19 n AND 0x0F \<in> {0x0D, 0x0E, 0x0F}"
  shows "\<exists>frame mk. message_bytes view (HandoverAccess n) = Inr frame \<and> mk \<in> {PM_PDSS1, PM_Extended, PM_TestProc} \<and>
    parse_message rest req frame = Inr (mk \<lparr>rtm_mti = frame ! 1, rtm_body = drop 2 frame\<rparr>)"
proof -
  obtain frame where f: "message_bytes view (HandoverAccess n) = Inr frame" "bits_of frame = field_bits [(27, n), (5, 0)]"
    "length frame = 4" by (rule ha_frame)
  let ?m = "\<lparr>rtm_mti = frame ! 1, rtm_body = drop 2 frame\<rparr>"
  obtain br1 where br1: "rtm_parse (word_of_int (uint (frame ! 1))) (mkBitReader (Some (drop 2 frame)) ((length frame - 2) * 8)) =
    (Inr ?m, br1)" "remainingBits br1 = 0"
    by (rule runtime_body [OF f(3)])
  define v where "v = frame ! 0 AND 0x0F"
  have v: "v = 0x0D \<or> v = 0x0E \<or> v = 0x0F" using assms(2) by (auto simp: v_def ha_nibble [OF f(2,3)])
  then have p: "v \<notin> {0x00, 0x01, 0x02, 0x04, 0x07}" by auto
  have pd: "v \<noteq> pd_code BroadcastCallControl" "v \<noteq> pd_code GroupCallControl" using p by (auto simp: pd_code_def)
  define h where "h = \<lparr>hd_pd = L3PD_of_nibble v, hd_mti = uint (frame ! 1), hd_ti = unat (drop_bit 5 (frame ! 0) AND 0x07),
      hd_tif = (drop_bit 4 (frame ! 0) AND 0x01 \<noteq> 0)\<rparr>"
  have "header_mti (L3PD_of_nibble v) tif b = uint b" for tif b using v by (auto simp: header_mti_def L3PD_of_nibble_def)
  then have hdr: "parseL3Header frame = Inr h" using f(3) p by (simp add: parseL3Header_def Let_def v_def [symmetric] h_def)
  let ?mk = "if v = 0x0D then PM_PDSS1 else if v = 0x0E then PM_Extended else PM_TestProc"
  have body: "parseStandardBody rest h = rmap ?mk (rtm_parse (word_of_int (uint (frame ! 1))))"
    using v by (elim disjE) (simp_all add: parseStandardBody_def h_def L3PD_of_nibble_def parseL3PDSS1_def parseL3Extended_def
      parseL3TestProc_def)
  have run: "parseStandardBody rest h (mkBitReader (Some (drop 2 frame)) ((length frame - 2) * 8)) = (Inr (?mk ?m), br1)"
    unfolding body rmap_def rbind_def br1(1) by (simp add: rreturn_def)
  have "frame \<noteq> []" "length frame \<noteq> 1" using f(3) by auto
  then have "parse_message rest req frame = Inr (?mk ?m)"
    unfolding parse_message_def parseL3_def Let_def hdr v_def [symmetric] sum.case run prod.case
    using f(3) pd br1(2) by simp
  moreover have "?mk \<in> {PM_PDSS1, PM_Extended, PM_TestProc}" by simp
  ultimately show ?thesis using f(1) by blast
qed

section \<open>Witnesses\<close>

definition example_message :: "unit ParsedMessage" where
  "example_message = PM_MM (LocationUpdatingRequest
     \<lparr>lur_updateType = 2, lur_followOnRequest = True, lur_cksn = 5,
      lur_classmark = \<lparr>cm1_revisionLevel = 1, cm1_esInd = 1, cm1_a5_1 = 0, cm1_rfPowerCapability = 3\<rparr>,
      lur_mobileIdentity = \<lparr>mi_type = MobID_IMSI, mi_digits = ''250011234567890'', mi_tmsi = 0\<rparr>,
      lur_lai = \<lparr>lai_mcc = [2, 5, 0], lai_mnc = [0, 1, 15], lai_lac = 0x1234\<rparr>, lur_additionalIes = [0x33, 0x03]\<rparr>)"

definition no_rest :: "L3Header \<Rightarrow> unit parser" where
  "no_rest hdr = rfail InvalidPD ''not supported''"

definition no_view :: "unit \<Rightarrow> wire_view" where
  "no_view m = (RadioResource, 0, 0, 0, wdo [])"

lemma example_message_wf: "pm_wf example_message"
  by (simp add: example_message_def fits_def cm1_wf_def mi_wf_def mi_has_digits_def is_digit_def lai_wf_def)

theorem message_round_trip_witness:
  "pm_wf example_message \<and>
   (\<exists>frame. message_bytes no_view example_message = Inr frame \<and> length frame = messageWireLength no_view example_message \<and>
      message_hex no_view example_message = Inr (bytes_to_hex frame) \<and>
      parse_message no_rest True frame = Inr example_message \<and> parse_message_hex no_rest True (bytes_to_hex frame) = Inr example_message)"
  using message_round_trip [OF example_message_wf] example_message_wf by blast

definition example_submit :: L3TPSubmit where
  "example_submit = \<lparr>tps_rd = True, tps_vpf = 1, tps_srr = False, tps_udhi = False, tps_rp = False, tps_mr = 7,
     tps_destinationAddress = tpa_of_digits 1 1 [4, 9, 1], tps_pid = 0, tps_dcs = 0, tps_validityPeriod = [0xA7], tps_udl = 5,
     tps_userData = [0xE8, 0x32, 0x9B, 0xFD, 0x06]\<rparr>"

definition example_relay :: L3RPData where
  "example_relay = \<lparr>rpd_rpMti = 0, rpd_messageRef = 3, rpd_originatorAddress = None,
     rpd_destinationAddress = Some (tpa_of_digits 1 1 [4, 9, 0, 1]),
     rpd_userData = unit_octets (tps_bodyLength example_submit) (tps_write example_submit)\<rparr>"

lemma example_submit_wf: "tps_wf example_submit" "tps_bodyLength example_submit = 15"
  by (simp_all add: example_submit_def tps_wf_def tpa_wf_def tpa_of_digits_def tps_vp_octets_def tpudOctets_def decodeSmsDcs_def
      tps_bodyLength_def tpa_totalLength_def)

lemma example_relay_wf: "rpd_wf example_relay" "rpd_bodyLength example_relay < 256"
  using submit_unit_length [OF example_submit_wf(1)]
  by (simp_all add: example_relay_def rpd_wf_def rp_address_wf_def tpa_wf_def tpa_of_digits_def rpd_bodyLength_def
      rpAddressWireLength_def tpa_totalLength_def example_submit_wf(2))

theorem short_message_layers_witness:
  "\<exists>frame rpdu. message_bytes no_view (PM_SMS (CPData (unit_octets (rpd_bodyLength example_relay) (rpd_write example_relay)))) = Inr frame \<and>
    parse_message no_rest True frame = Inr (PM_SMS (CPData rpdu)) \<and>
    fst (parse_unit rpd_parse rpdu) = Inr example_relay \<and>
    fst (parse_unit tps_parse (rpd_userData example_relay)) = Inr example_submit"
  by (rule short_message_layers [OF example_submit_wf(1) example_relay_wf(1) _ example_relay_wf(2)]) (simp add: example_relay_def)

theorem handover_access_misread_witness:
  "fits 27 0x680000 \<and> drop_bit 19 (0x680000 :: u32) AND 0x0F \<in> {0x0D, 0x0E, 0x0F} \<and>
   (\<exists>frame mk. message_bytes no_view (HandoverAccess 0x680000) = Inr frame \<and> mk \<in> {PM_PDSS1, PM_Extended, PM_TestProc} \<and>
      parse_message no_rest True frame = Inr (mk \<lparr>rtm_mti = frame ! 1, rtm_body = drop 2 frame\<rparr>))"
proof -
  have "fits 27 0x680000" by (simp add: fits_def)
  moreover have "drop_bit 19 (0x680000 :: u32) AND 0x0F \<in> {0x0D, 0x0E, 0x0F}" by code_simp
  ultimately show ?thesis using handover_access_misread [of "0x680000" no_view no_rest True] by blast
qed

end
