(* ===== verification/Stream_Processor.thy ===== *)
theory Stream_Processor
  imports Byte_Stream L3_Parser
begin

text \<open>
  From a stream of octets to messages: the stream processor of \<^verbatim>\<open>bitstream/stream_processor.cpp\<close> over a byte source and the
  one of \<^verbatim>\<open>bitstream/zero_copy_processor.h\<close> over a span. The calls of the handler are recorded in the order they are made.
  The parsers and writers of the domains that are not translated are the arguments \<open>rest\<close> and \<open>view\<close>, as in \<open>L3_Parser\<close>.
\<close>

section \<open>Statistics\<close>

record StreamStats =
  ss_totalBytes :: u64
  ss_totalFrames :: u64
  ss_parsedOk :: u64
  ss_parseErrors :: u64
  ss_idlePolls :: u64
  ss_sourceExhausted :: u64
  ss_unsupportedPD :: u64
  ss_rrMessages :: u64
  ss_mmMessages :: u64
  ss_ccMessages :: u64
  ss_ssMessages :: u64
  ss_gmmMessages :: u64
  ss_smMessages :: u64
  ss_smsMessages :: u64
  ss_bccMessages :: u64
  ss_gccMessages :: u64
  ss_lsMessages :: u64
  ss_pdss1Messages :: u64
  ss_extendedMessages :: u64
  ss_testprocMessages :: u64

definition ss_zero :: StreamStats where
  "ss_zero = \<lparr>ss_totalBytes = 0, ss_totalFrames = 0, ss_parsedOk = 0, ss_parseErrors = 0, ss_idlePolls = 0, ss_sourceExhausted = 0,
     ss_unsupportedPD = 0, ss_rrMessages = 0, ss_mmMessages = 0, ss_ccMessages = 0, ss_ssMessages = 0, ss_gmmMessages = 0,
     ss_smMessages = 0, ss_smsMessages = 0, ss_bccMessages = 0, ss_gccMessages = 0, ss_lsMessages = 0, ss_pdss1Messages = 0,
     ss_extendedMessages = 0, ss_testprocMessages = 0\<rparr>"

definition ss_count_pd :: "L3PD \<Rightarrow> StreamStats \<Rightarrow> StreamStats" where
  "ss_count_pd p st = (case p of
      RadioResource \<Rightarrow> st\<lparr>ss_rrMessages := ss_rrMessages st + 1\<rparr>
    | MobilityManagement \<Rightarrow> st\<lparr>ss_mmMessages := ss_mmMessages st + 1\<rparr>
    | CallControl \<Rightarrow> st\<lparr>ss_ccMessages := ss_ccMessages st + 1\<rparr>
    | NonCallSS \<Rightarrow> st\<lparr>ss_ssMessages := ss_ssMessages st + 1\<rparr>
    | GPRSMobilityManagement \<Rightarrow> st\<lparr>ss_gmmMessages := ss_gmmMessages st + 1\<rparr>
    | GPRSSessionManagement \<Rightarrow> st\<lparr>ss_smMessages := ss_smMessages st + 1\<rparr>
    | PD_SMS \<Rightarrow> st\<lparr>ss_smsMessages := ss_smsMessages st + 1\<rparr>
    | BroadcastCallControl \<Rightarrow> st\<lparr>ss_bccMessages := ss_bccMessages st + 1\<rparr>
    | GroupCallControl \<Rightarrow> st\<lparr>ss_gccMessages := ss_gccMessages st + 1\<rparr>
    | PD_Location \<Rightarrow> st\<lparr>ss_lsMessages := ss_lsMessages st + 1\<rparr>
    | PacketDomainSupplementaryServices1 \<Rightarrow> st\<lparr>ss_pdss1Messages := ss_pdss1Messages st + 1\<rparr>
    | PacketDomainSupplementaryServices2 \<Rightarrow> st\<lparr>ss_extendedMessages := ss_extendedMessages st + 1\<rparr>
    | TestProcedure \<Rightarrow> st\<lparr>ss_testprocMessages := ss_testprocMessages st + 1\<rparr>
    | _ \<Rightarrow> st\<lparr>ss_unsupportedPD := ss_unsupportedPD st + 1\<rparr>)"

definition ss_frame :: "bytes \<Rightarrow> StreamStats \<Rightarrow> StreamStats" where
  "ss_frame frame st = st\<lparr>ss_totalBytes := ss_totalBytes st + of_nat (length frame), ss_totalFrames := ss_totalFrames st + 1\<rparr>"

definition ss_ok :: "L3PD \<Rightarrow> StreamStats \<Rightarrow> StreamStats" where
  "ss_ok p st = ss_count_pd p (st\<lparr>ss_parsedOk := ss_parsedOk st + 1\<rparr>)"

definition ss_bad :: "StreamStats \<Rightarrow> StreamStats" where
  "ss_bad st = st\<lparr>ss_parseErrors := ss_parseErrors st + 1\<rparr>"

definition ss_stop :: "ErrorCode \<Rightarrow> StreamStats \<Rightarrow> StreamStats" where
  "ss_stop c st = (if c = SourceExhausted then st\<lparr>ss_sourceExhausted := ss_sourceExhausted st + 1\<rparr>
     else st\<lparr>ss_idlePolls := ss_idlePolls st + 1\<rparr>)"

definition messagePD :: "('r \<Rightarrow> wire_view) \<Rightarrow> 'r ParsedMessage \<Rightarrow> L3PD" where
  "messagePD view m = fst (wire_view_of view m)"

section \<open>Processing a byte source\<close>

datatype 'r stream_event =
    OnFrame "'r ParsedMessage" ExtractedFrame
  | OnError ParseError bytes
  | OnStats StreamStats

record 's L3StreamProcessor =
  pr_framer :: "'s L3Framer"
  pr_requireFullConsumption :: bool
  pr_stats :: StreamStats

definition mkL3StreamProcessor :: "'s \<Rightarrow> bool \<Rightarrow> FrameConfig \<Rightarrow> 's L3StreamProcessor" where
  "mkL3StreamProcessor s req fcfg = \<lparr>pr_framer = mkL3Framer s fcfg, pr_requireFullConsumption = req, pr_stats = ss_zero\<rparr>"

definition pr_resetStats :: "'s L3StreamProcessor \<Rightarrow> 's L3StreamProcessor" where
  "pr_resetStats pr = pr\<lparr>pr_stats := ss_zero\<rparr>"

partial_function (option) processUntilEOF ::
  "(L3Header \<Rightarrow> 'r parser) \<Rightarrow> ('r \<Rightarrow> wire_view) \<Rightarrow> 's reader \<Rightarrow> ('s \<Rightarrow> bool) \<Rightarrow> 's L3StreamProcessor \<Rightarrow> 'r stream_event list \<Rightarrow>
     ('s L3StreamProcessor \<times> 'r stream_event list) option" where
  "processUntilEOF rest view rd eof pr events =
     (case nextFrame rd eof (pr_framer pr) of
        None \<Rightarrow> None
      | Some (Inl e, fr1) \<Rightarrow>
          if code e = TruncatedInput \<or> code e = SourceExhausted
          then Some (pr\<lparr>pr_framer := fr1, pr_stats := ss_stop (code e) (pr_stats pr)\<rparr>, events)
          else processUntilEOF rest view rd eof (pr\<lparr>pr_framer := fr1, pr_stats := ss_bad (pr_stats pr)\<rparr>) (events @ [OnError e []])
      | Some (Inr frame, fr1) \<Rightarrow>
          (case parse_message rest (pr_requireFullConsumption pr) (ef_data frame) of
             Inl e \<Rightarrow> processUntilEOF rest view rd eof
                        (pr\<lparr>pr_framer := fr1, pr_stats := ss_bad (ss_frame (ef_data frame) (pr_stats pr))\<rparr>)
                        (events @ [OnError e (ef_data frame)])
           | Inr m \<Rightarrow> processUntilEOF rest view rd eof
                        (pr\<lparr>pr_framer := fr1, pr_stats := ss_ok (messagePD view m) (ss_frame (ef_data frame) (pr_stats pr))\<rparr>)
                        (events @ [OnFrame m frame, OnStats (ss_ok (messagePD view m) (ss_frame (ef_data frame) (pr_stats pr)))])))"

text \<open>\<^verbatim>\<open>processN\<close> stops after a number of frames and does not report statistics to the handler.\<close>

partial_function (option) processN ::
  "(L3Header \<Rightarrow> 'r parser) \<Rightarrow> ('r \<Rightarrow> wire_view) \<Rightarrow> 's reader \<Rightarrow> ('s \<Rightarrow> bool) \<Rightarrow> nat \<Rightarrow> 's L3StreamProcessor \<Rightarrow> 'r stream_event list \<Rightarrow>
     ('s L3StreamProcessor \<times> 'r stream_event list) option" where
  "processN rest view rd eof count pr events =
     (if count = 0 then Some (pr, events)
      else case nextFrame rd eof (pr_framer pr) of
        None \<Rightarrow> None
      | Some (Inl e, fr1) \<Rightarrow>
          if code e = TruncatedInput \<or> code e = SourceExhausted
          then Some (pr\<lparr>pr_framer := fr1, pr_stats := ss_stop (code e) (pr_stats pr)\<rparr>, events)
          else processN rest view rd eof count (pr\<lparr>pr_framer := fr1, pr_stats := ss_bad (pr_stats pr)\<rparr>) (events @ [OnError e []])
      | Some (Inr frame, fr1) \<Rightarrow>
          (case parse_message rest (pr_requireFullConsumption pr) (ef_data frame) of
             Inl e \<Rightarrow> processN rest view rd eof (count - 1)
                        (pr\<lparr>pr_framer := fr1, pr_stats := ss_bad (ss_frame (ef_data frame) (pr_stats pr))\<rparr>)
                        (events @ [OnError e (ef_data frame)])
           | Inr m \<Rightarrow> processN rest view rd eof (count - 1)
                        (pr\<lparr>pr_framer := fr1, pr_stats := ss_ok (messagePD view m) (ss_frame (ef_data frame) (pr_stats pr))\<rparr>)
                        (events @ [OnFrame m frame])))"

text \<open>\<^verbatim>\<open>processOne\<close> gives the message to the handler, if there is one, and returns whether it did.\<close>

definition processOne ::
  "(L3Header \<Rightarrow> 'r parser) \<Rightarrow> ('r \<Rightarrow> wire_view) \<Rightarrow> 's reader \<Rightarrow> ('s \<Rightarrow> bool) \<Rightarrow> 's L3StreamProcessor \<Rightarrow>
     ('r ParsedMessage option \<times> 's L3StreamProcessor) option" where
  "processOne rest view rd eof pr =
     (case nextFrame rd eof (pr_framer pr) of
        None \<Rightarrow> None
      | Some (Inl e, fr1) \<Rightarrow> Some (None, pr\<lparr>pr_framer := fr1, pr_stats := ss_stop (code e) (pr_stats pr)\<rparr>)
      | Some (Inr frame, fr1) \<Rightarrow>
          (case parse_message rest (pr_requireFullConsumption pr) (ef_data frame) of
             Inl e \<Rightarrow> Some (None, pr\<lparr>pr_framer := fr1, pr_stats := ss_bad (ss_frame (ef_data frame) (pr_stats pr))\<rparr>)
           | Inr m \<Rightarrow> Some (Some m, pr\<lparr>pr_framer := fr1,
                        pr_stats := ss_ok (messagePD view m) (ss_frame (ef_data frame) (pr_stats pr))\<rparr>)))"

section \<open>Processing a span\<close>

record ZeroCopyStreamProcessor =
  zc_framer :: InlineFramer
  zc_stats :: StreamStats

definition mkZeroCopyStreamProcessor :: "bytes \<Rightarrow> bool \<Rightarrow> ZeroCopyStreamProcessor" where
  "mkZeroCopyStreamProcessor data useL2 = \<lparr>zc_framer = mkInlineFramer data useL2, zc_stats = ss_zero\<rparr>"

definition zc_nextMessage ::
  "(L3Header \<Rightarrow> 'r parser) \<Rightarrow> ('r \<Rightarrow> wire_view) \<Rightarrow> ZeroCopyStreamProcessor \<Rightarrow> 'r ParsedMessage option \<times> ZeroCopyStreamProcessor" where
  "zc_nextMessage rest view zc =
     (case il_nextFrame (zc_framer zc) of
        (None, fr1) \<Rightarrow> (None, zc\<lparr>zc_framer := fr1\<rparr>)
      | (Some frame, fr1) \<Rightarrow>
          (case parse_message rest False frame of
             Inl e \<Rightarrow> (None, zc\<lparr>zc_framer := fr1, zc_stats := ss_bad (ss_frame frame (zc_stats zc))\<rparr>)
           | Inr m \<Rightarrow> (Some m, zc\<lparr>zc_framer := fr1, zc_stats := ss_ok (messagePD view m) (ss_frame frame (zc_stats zc))\<rparr>)))"

definition zc_resetStats :: "ZeroCopyStreamProcessor \<Rightarrow> ZeroCopyStreamProcessor" where
  "zc_resetStats zc = zc\<lparr>zc_stats := ss_zero\<rparr>"

definition zc_reset :: "ZeroCopyStreamProcessor \<Rightarrow> ZeroCopyStreamProcessor" where
  "zc_reset zc = zc\<lparr>zc_framer := il_reset (zc_framer zc)\<rparr>"

text \<open>The loop of \<^verbatim>\<open>forEach\<close>, with the messages given to the handler.\<close>

partial_function (option) zc_forEach ::
  "(L3Header \<Rightarrow> 'r parser) \<Rightarrow> ('r \<Rightarrow> wire_view) \<Rightarrow> ZeroCopyStreamProcessor \<Rightarrow> 'r ParsedMessage list \<Rightarrow>
     (ZeroCopyStreamProcessor \<times> 'r ParsedMessage list) option" where
  "zc_forEach rest view zc handled =
     (case il_nextFrame (zc_framer zc) of
        (None, fr1) \<Rightarrow> Some (zc\<lparr>zc_framer := fr1\<rparr>, handled)
      | (Some frame, fr1) \<Rightarrow>
          (case parse_message rest False frame of
             Inl e \<Rightarrow> zc_forEach rest view (zc\<lparr>zc_framer := fr1, zc_stats := ss_bad (ss_frame frame (zc_stats zc))\<rparr>) handled
           | Inr m \<Rightarrow> zc_forEach rest view (zc\<lparr>zc_framer := fr1, zc_stats := ss_ok (messagePD view m) (ss_frame frame (zc_stats zc))\<rparr>)
                        (handled @ [m])))"

section \<open>What the processors do with the frames\<close>

definition frame_stats :: "(L3Header \<Rightarrow> 'r parser) \<Rightarrow> ('r \<Rightarrow> wire_view) \<Rightarrow> bool \<Rightarrow> bytes \<Rightarrow> StreamStats \<Rightarrow> StreamStats" where
  "frame_stats rest view req f st = (case parse_message rest req f of
      Inl _ \<Rightarrow> ss_bad (ss_frame f st) | Inr m \<Rightarrow> ss_ok (messagePD view m) (ss_frame f st))"

definition parsed_messages :: "(L3Header \<Rightarrow> 'r parser) \<Rightarrow> bool \<Rightarrow> bytes list \<Rightarrow> 'r ParsedMessage list" where
  "parsed_messages rest req fs = concat (map (\<lambda>f. case parse_message rest req f of Inl _ \<Rightarrow> [] | Inr m \<Rightarrow> [m]) fs)"

definition rejected_frames :: "(L3Header \<Rightarrow> 'r parser) \<Rightarrow> bool \<Rightarrow> bytes list \<Rightarrow> bytes list" where
  "rejected_frames rest req fs = filter (\<lambda>f. isl (parse_message rest req f)) fs"

fun delivered :: "'r stream_event list \<Rightarrow> 'r ParsedMessage list" where
  "delivered [] = []"
| "delivered (OnFrame m _ # evs) = m # delivered evs"
| "delivered (_ # evs) = delivered evs"

fun reported :: "'r stream_event list \<Rightarrow> bytes list" where
  "reported [] = []"
| "reported (OnError _ f # evs) = f # reported evs"
| "reported (_ # evs) = reported evs"

lemma delivered_append [simp]: "delivered (xs @ ys) = delivered xs @ delivered ys"
  by (induction xs rule: delivered.induct) simp_all

lemma reported_append [simp]: "reported (xs @ ys) = reported xs @ reported ys"
  by (induction xs rule: reported.induct) simp_all

context byte_source
begin

lemma processUntilEOF_l2:
  assumes "fr_ready (pr_framer pr)" "M = fc_maxMessageLength (fr_config (pr_framer pr))"
    "req = pr_requireFullConsumption pr" "fs = l2_frames M (fr_rest (pr_framer pr))"
  shows "\<exists>pr1 ev. processUntilEOF rest view rd eof pr events = Some (pr1, events @ ev) \<and>
    delivered ev = parsed_messages rest req fs \<and> reported ev = rejected_frames rest req fs \<and>
    pending (fr_source (pr_framer pr1)) = [] \<and> src_ok (fr_source (pr_framer pr1)) \<and>
    pr_stats pr1 = ss_stop (if eof (fr_source (pr_framer pr1)) then SourceExhausted else TruncatedInput)
      (fold (frame_stats rest view req) fs (pr_stats pr))"
  using assms
proof (induction fs arbitrary: pr events)
  case Nil
  obtain r fr1 where n: "nextFrame rd eof (pr_framer pr) = Some (r, fr1)" "fr_ready fr1" "fr_outcome M (fr_rest (pr_framer pr)) r fr1"
    using nextFrame_l2 [OF Nil(1)] Nil(2) by blast
  then obtain e where e: "r = Inl e" "code e = (if eof (fr_source fr1) then SourceExhausted else TruncatedInput)" "pending (fr_source fr1) = []"
    using Nil(4) by (auto simp: fr_outcome_def)
  have "processUntilEOF rest view rd eof pr events = Some (pr\<lparr>pr_framer := fr1, pr_stats := ss_stop (code e) (pr_stats pr)\<rparr>, events)"
    by (subst processUntilEOF.simps) (simp add: n(1) e)
  then show ?case using e n(2) by (auto simp: parsed_messages_def rejected_frames_def fr_ready_def)
next
  case (Cons f fs)
  obtain r fr1 where n: "nextFrame rd eof (pr_framer pr) = Some (r, fr1)" "fr_ready fr1" "fr_config fr1 = fr_config (pr_framer pr)"
      "fr_outcome M (fr_rest (pr_framer pr)) r fr1"
    using nextFrame_l2 [OF Cons.prems(1)] Cons.prems(2) by blast
  then have r: "r = Inr \<lparr>ef_data = f, ef_l2Length = length f\<rparr>" "l2_frames M (fr_rest fr1) = fs"
    using Cons.prems(4) [symmetric] by (simp_all add: fr_outcome_def)
  let ?frame = "\<lparr>ef_data = f, ef_l2Length = length f\<rparr>" and ?st = "frame_stats rest view req f (pr_stats pr)"
  let ?ev = "case parse_message rest req f of Inl e \<Rightarrow> [OnError e f] | Inr m \<Rightarrow> [OnFrame m ?frame, OnStats ?st]"
  have step: "processUntilEOF rest view rd eof pr events =
      processUntilEOF rest view rd eof (pr\<lparr>pr_framer := fr1, pr_stats := ?st\<rparr>) (events @ ?ev)"
    by (subst processUntilEOF.simps) (simp add: n(1) r(1) Cons.prems(3) [symmetric] frame_stats_def split: sum.split)
  define pr2 where "pr2 = pr\<lparr>pr_framer := fr1, pr_stats := ?st\<rparr>"
  have pr2: "pr_framer pr2 = fr1" "pr_stats pr2 = ?st" "pr_requireFullConsumption pr2 = pr_requireFullConsumption pr" by (simp_all add: pr2_def)
  have "fr_ready (pr_framer pr2)" "M = fc_maxMessageLength (fr_config (pr_framer pr2))" "req = pr_requireFullConsumption pr2"
    "fs = l2_frames M (fr_rest (pr_framer pr2))"
    using n(2,3) r(2) Cons.prems(2,3) by (simp_all add: pr2)
  note IH = Cons.IH [OF this, of "events @ ?ev", unfolded pr2(2)]
  obtain pr1 ev where ih: "processUntilEOF rest view rd eof pr2 (events @ ?ev) = Some (pr1, (events @ ?ev) @ ev)"
      "delivered ev = parsed_messages rest req fs" "reported ev = rejected_frames rest req fs"
      "pending (fr_source (pr_framer pr1)) = []" "src_ok (fr_source (pr_framer pr1))"
      "pr_stats pr1 = ss_stop (if eof (fr_source (pr_framer pr1)) then SourceExhausted else TruncatedInput)
        (fold (frame_stats rest view req) fs ?st)"
    using IH by (elim exE conjE) (rule that)
  have d: "delivered (?ev @ ev) = parsed_messages rest req (f # fs)" "reported (?ev @ ev) = rejected_frames rest req (f # fs)"
    using ih(2,3) by (cases "parse_message rest req f"; simp add: parsed_messages_def rejected_frames_def)+
  have "processUntilEOF rest view rd eof pr events = Some (pr1, events @ (?ev @ ev))"
    unfolding step pr2_def [symmetric] ih(1) by simp
  then show ?case using d ih(4-6) by (intro exI [of _ pr1] exI [of _ "?ev @ ev"]) simp
qed

lemma fresh_ready: "src_ok s \<Longrightarrow> l2_config cfg \<Longrightarrow> fr_ready (mkL3Framer s cfg) \<and> fr_rest (mkL3Framer s cfg) = pending s"
  by (simp add: fr_ready_def fr_rest_def mkL3Framer_def fr_inv_def fr_bytes_def)

end

context finite_source
begin

lemma processUntilEOF_finite:
  assumes "src_ok s"
  shows "\<exists>pr1 ev. processUntilEOF rest view rd eof (mkL3StreamProcessor s req fc_default) [] = Some (pr1, ev) \<and>
    delivered ev = parsed_messages rest req (l2_frames 4096 (pending s)) \<and> reported ev = rejected_frames rest req (l2_frames 4096 (pending s)) \<and>
    pr_stats pr1 = ss_stop SourceExhausted (fold (frame_stats rest view req) (l2_frames 4096 (pending s)) ss_zero)"
proof -
  have cfg: "l2_config fc_default" by (simp add: l2_config_def fc_default_def)
  have "fr_ready (mkL3Framer s fc_default)" "fr_rest (mkL3Framer s fc_default) = pending s" using fresh_ready [OF assms cfg] by simp_all
  moreover have pr: "pr_framer (mkL3StreamProcessor s req fc_default) = mkL3Framer s fc_default"
    "pr_requireFullConsumption (mkL3StreamProcessor s req fc_default) = req" "pr_stats (mkL3StreamProcessor s req fc_default) = ss_zero"
    by (simp_all add: mkL3StreamProcessor_def)
  moreover have "fc_maxMessageLength (fr_config (mkL3Framer s fc_default)) = 4096" by (simp add: mkL3Framer_def fc_default_def)
  ultimately have "fr_ready (pr_framer (mkL3StreamProcessor s req fc_default))"
    "4096 = fc_maxMessageLength (fr_config (pr_framer (mkL3StreamProcessor s req fc_default)))"
    "req = pr_requireFullConsumption (mkL3StreamProcessor s req fc_default)"
    "l2_frames 4096 (pending s) = l2_frames 4096 (fr_rest (pr_framer (mkL3StreamProcessor s req fc_default)))"
    by simp_all
  note run = processUntilEOF_l2 [OF this, of rest view "[]", unfolded pr append_Nil]
  then obtain pr1 ev where 1: "processUntilEOF rest view rd eof (mkL3StreamProcessor s req fc_default) [] = Some (pr1, ev)"
    "delivered ev = parsed_messages rest req (l2_frames 4096 (pending s))" "reported ev = rejected_frames rest req (l2_frames 4096 (pending s))"
    "pending (fr_source (pr_framer pr1)) = []" "src_ok (fr_source (pr_framer pr1))"
    "pr_stats pr1 = ss_stop (if eof (fr_source (pr_framer pr1)) then SourceExhausted else TruncatedInput)
      (fold (frame_stats rest view req) (l2_frames 4096 (pending s)) ss_zero)"
    by (elim exE conjE) (rule that)
  have "eof (fr_source (pr_framer pr1))" using eof_iff [OF 1(5)] 1(4) by simp
  then show ?thesis using 1(1-3,6) by (intro exI [of _ pr1] exI [of _ ev]) simp
qed

end

lemma zc_forEach_l2:
  assumes "il_useL2Length (zc_framer zc)" "M = il_maxFrameLen (zc_framer zc)"
    "fs = l2_frames M (drop (il_pos (zc_framer zc)) (il_data (zc_framer zc)))"
  shows "\<exists>zc1. zc_forEach rest view zc handled = Some (zc1, handled @ parsed_messages rest False fs) \<and>
    zc_stats zc1 = fold (frame_stats rest view False) fs (zc_stats zc)"
  using assms
proof (induction fs arbitrary: zc handled)
  case Nil
  obtain fr1 where "il_nextFrame (zc_framer zc) = (None, fr1)" using il_nextFrame_l2 [OF Nil(1)] Nil(2,3) by (auto split: list.splits)
  then have "zc_forEach rest view zc handled = Some (zc\<lparr>zc_framer := fr1\<rparr>, handled)" by (subst zc_forEach.simps) simp
  then show ?case by (simp add: parsed_messages_def)
next
  case (Cons f fs)
  obtain fr1 where n: "il_nextFrame (zc_framer zc) = (Some f, fr1)" "il_useL2Length fr1" "il_maxFrameLen fr1 = M"
      "fs = l2_frames M (drop (il_pos fr1) (il_data fr1))"
    using il_nextFrame_l2 [OF Cons.prems(1)] Cons.prems(2) Cons.prems(3) [symmetric] by auto
  let ?st = "frame_stats rest view False f (zc_stats zc)"
  let ?ms = "case parse_message rest False f of Inl _ \<Rightarrow> [] | Inr m \<Rightarrow> [m]"
  have step: "zc_forEach rest view zc handled = zc_forEach rest view (zc\<lparr>zc_framer := fr1, zc_stats := ?st\<rparr>) (handled @ ?ms)"
    by (subst zc_forEach.simps) (simp add: n(1) frame_stats_def split: sum.split)
  show ?case
    unfolding step using Cons.IH [of "zc\<lparr>zc_framer := fr1, zc_stats := ?st\<rparr>" "handled @ ?ms"] n(2-4) by (simp add: parsed_messages_def)
qed

text \<open>The counters of the domains add up to the parsed frames, and those with the rejected ones to all frames.\<close>

definition ss_domains :: "StreamStats \<Rightarrow> u64" where
  "ss_domains st = ss_unsupportedPD st + ss_rrMessages st + ss_mmMessages st + ss_ccMessages st + ss_ssMessages st + ss_gmmMessages st +
     ss_smMessages st + ss_smsMessages st + ss_bccMessages st + ss_gccMessages st + ss_lsMessages st + ss_pdss1Messages st +
     ss_extendedMessages st + ss_testprocMessages st"

definition ss_consistent :: "StreamStats \<Rightarrow> bool" where
  "ss_consistent st \<longleftrightarrow> ss_parsedOk st + ss_parseErrors st = ss_totalFrames st \<and> ss_domains st = ss_parsedOk st"

lemma ss_count_pd_selectors:
  "ss_parsedOk (ss_count_pd p st) = ss_parsedOk st" "ss_parseErrors (ss_count_pd p st) = ss_parseErrors st"
  "ss_totalFrames (ss_count_pd p st) = ss_totalFrames st" "ss_domains (ss_count_pd p st) = ss_domains st + 1"
  by (simp_all add: ss_count_pd_def ss_domains_def split: L3PD.split)

lemma ss_bad_consistent: "ss_consistent st \<Longrightarrow> ss_consistent (ss_bad (ss_frame f st))"
  by (simp add: ss_consistent_def ss_domains_def ss_bad_def ss_frame_def flip: add.assoc)

lemma ss_ok_consistent:
  assumes "ss_consistent st"
  shows "ss_consistent (ss_ok p (ss_frame f st))"
proof -
  have "ss_domains (ss_frame f st\<lparr>ss_parsedOk := c\<rparr>) = ss_domains st" for c by (simp add: ss_domains_def ss_frame_def)
  then show ?thesis using assms by (simp add: ss_consistent_def ss_ok_def ss_count_pd_selectors) (simp add: ss_frame_def algebra_simps)
qed

lemma fold_stats_consistent: "ss_consistent st \<Longrightarrow> ss_consistent (fold (frame_stats rest view req) fs st)"
  by (induction fs arbitrary: st) (simp_all add: frame_stats_def ss_bad_consistent ss_ok_consistent split: sum.split)

lemma ss_stop_consistent: "ss_consistent st \<Longrightarrow> ss_consistent (ss_stop c st)"
  by (simp add: ss_consistent_def ss_domains_def ss_stop_def)

section \<open>Properties\<close>

text \<open>
  C35. With frames behind a length octet and \<^verbatim>\<open>requireFullConsumption\<close> off: over any source that ends, however it hands out its octets, the stream processor returns, and it gives its handler the
  same messages as the processor without copies does over the same octets. Their statistics are equal, except that the end of
  the source is counted, and the counters add up.
\<close>

theorem processors_agree:
  assumes "finite_source rd eof pending src_ok" "src_ok s"
  shows "\<exists>pr ev zc. processUntilEOF rest view rd eof (mkL3StreamProcessor s False fc_default) [] = Some (pr, ev) \<and>
    zc_forEach rest view (mkZeroCopyStreamProcessor (pending s) True) [] = Some (zc, delivered ev) \<and>
    pr_stats pr = ss_stop SourceExhausted (zc_stats zc) \<and> ss_consistent (pr_stats pr)"
proof -
  obtain pr ev where 1: "processUntilEOF rest view rd eof (mkL3StreamProcessor s False fc_default) [] = Some (pr, ev)"
    "delivered ev = parsed_messages rest False (l2_frames 4096 (pending s))"
    "pr_stats pr = ss_stop SourceExhausted (fold (frame_stats rest view False) (l2_frames 4096 (pending s)) ss_zero)"
    using finite_source.processUntilEOF_finite [OF assms, of rest view False] by blast
  define z where "z = mkZeroCopyStreamProcessor (pending s) True"
  have z: "il_useL2Length (zc_framer z)" "4096 = il_maxFrameLen (zc_framer z)"
    "l2_frames 4096 (pending s) = l2_frames 4096 (drop (il_pos (zc_framer z)) (il_data (zc_framer z)))" "zc_stats z = ss_zero"
    by (simp_all add: z_def mkZeroCopyStreamProcessor_def mkInlineFramer_def)
  obtain zc where 2: "zc_forEach rest view z [] = Some (zc, parsed_messages rest False (l2_frames 4096 (pending s)))"
    "zc_stats zc = fold (frame_stats rest view False) (l2_frames 4096 (pending s)) ss_zero"
    using zc_forEach_l2 [OF z(1-3), of rest view "[]", unfolded z(4) append_Nil] by (elim exE conjE) (rule that)
  have "ss_consistent ss_zero" by (simp add: ss_consistent_def ss_domains_def ss_zero_def)
  then have "ss_consistent (pr_stats pr)" unfolding 1(3) by (intro ss_stop_consistent fold_stats_consistent)
  then show ?thesis using 1 2 by (intro exI [of _ pr] exI [of _ ev] exI [of _ zc]) (simp add: z_def)
qed

text \<open>A stream of frames, each behind its length.\<close>

definition l2_stream :: "bytes list \<Rightarrow> bytes" where
  "l2_stream fs = concat (map (\<lambda>f. of_nat (length f) # f) fs)"

lemma l2_frames_stream:
  "list_all (\<lambda>f. f \<noteq> [] \<and> length f \<le> 255) fs \<Longrightarrow> l2_frames 4096 (l2_stream fs) = fs"
proof (induction fs)
  case (Cons f fs)
  then have "0 < length f" "length f \<le> 255" by auto
  then have "unat (of_nat (length f) :: u8) = length f" by (simp add: unat_of_nat)
  then show ?case using Cons by (simp add: l2_stream_def)
qed (simp add: l2_stream_def)

text \<open>
  C34. End to end: the frames of well-formed messages, each behind its length octet, come out of the stream processor as
  these messages, in their order and with no error, however the source hands out the octets and whatever the parsers of the
  untranslated domains do.
\<close>

theorem stream_round_trip:
  fixes view :: "'r \<Rightarrow> wire_view" and rest :: "L3Header \<Rightarrow> 'r parser"
  assumes "finite_source rd eof pending src_ok" "src_ok s"
    and "list_all (\<lambda>m. pm_wf m \<and> messageWireLength view m \<le> 255) ms"
    and "pending s = l2_stream (map (\<lambda>m. projr (message_bytes view m)) ms)"
  shows "\<exists>pr ev. processUntilEOF rest view rd eof (mkL3StreamProcessor s req fc_default) [] = Some (pr, ev) \<and>
    delivered ev = ms \<and> reported ev = []"
proof -
  let ?f = "\<lambda>m. projr (message_bytes view m)"
  have f: "?f m \<noteq> [] \<and> length (?f m) \<le> 255 \<and> parse_message rest req (?f m) = Inr m" if "m \<in> set ms" for m
  proof -
    have "pm_wf m" "messageWireLength view m \<le> 255" using assms(3) that by (auto simp: list_all_iff)
    then obtain frame where "carried rest view req m frame" "messageWireLength view m \<le> 255"
      using message_carried [of m rest view req] by blast
    then show ?thesis by (auto simp: carried_def)
  qed
  have "l2_frames 4096 (pending s) = map ?f ms"
    unfolding assms(4) by (rule l2_frames_stream) (use f in \<open>auto simp: list_all_iff\<close>)
  moreover have "parsed_messages rest req (map ?f ns) = ns" "rejected_frames rest req (map ?f ns) = []" if "set ns \<subseteq> set ms" for ns
    using that f by (induction ns) (auto simp: parsed_messages_def rejected_frames_def)
  ultimately show ?thesis
    using finite_source.processUntilEOF_finite [OF assms(1,2), of rest view req] by auto
qed

section \<open>Witnesses\<close>

definition example_messages :: "unit ParsedMessage list" where
  "example_messages = [example_message, PM_SMS CPAck]"

definition example_span :: SpanByteSource where
  "example_span = mkSpanByteSource (l2_stream (map (\<lambda>m. projr (message_bytes no_view m)) example_messages))"

theorem processors_agree_witness:
  "\<exists>pr ev zc. processUntilEOF no_rest no_view sp_read sp_atEof (mkL3StreamProcessor example_span False fc_default) [] = Some (pr, ev) \<and>
    zc_forEach no_rest no_view (mkZeroCopyStreamProcessor (sp_remaining example_span) True) [] = Some (zc, delivered ev) \<and>
    pr_stats pr = ss_stop SourceExhausted (zc_stats zc) \<and> ss_consistent (pr_stats pr)"
  by (rule processors_agree [OF span.finite_source_axioms TrueI])

theorem stream_round_trip_witness:
  "\<exists>pr ev. processUntilEOF no_rest no_view sp_read sp_atEof (mkL3StreamProcessor example_span True fc_default) [] = Some (pr, ev) \<and>
    delivered ev = example_messages \<and> reported ev = []"
proof (rule stream_round_trip [OF span.finite_source_axioms TrueI])
  have "messageWireLength no_view example_message \<le> 255" by code_simp
  moreover have "messageWireLength no_view (PM_SMS CPAck) \<le> 255" by code_simp
  ultimately show "list_all (\<lambda>m. pm_wf m \<and> messageWireLength no_view m \<le> 255) example_messages"
    using example_message_wf by (simp add: example_messages_def)
  show "sp_remaining example_span = l2_stream (map (\<lambda>m. projr (message_bytes no_view m)) example_messages)"
    by (simp add: sp_remaining_def example_span_def mkSpanByteSource_def)
qed

end
