(* ===== verification/Reader_Access.thy ===== *)
theory Reader_Access
  imports Bit_Reader
begin

text \<open>
  Which octets of its buffer the bit reader reads. The value of a field is a function of one or two loads; the octets of these
  loads, and those that the copies of \<open>readBytes\<close> read, are listed here for every operation, shown to lie inside the
  buffer, and shown to be all that an operation depends on.
\<close>

section \<open>The octets an operation reads\<close>

text \<open>The loads of a field: where each starts and how many octets it asks for.\<close>

definition field_loads :: "BitReader \<Rightarrow> nat \<Rightarrow> (nat \<times> nat) list" where
  "field_loads br nbits =
     (if br_bitOffset br = 0
      then let toLoad = fieldSpanBytes 0 nbits; toLoad' = (if toLoad > 4 then 4 else toLoad) in [(br_byteIndex br, toLoad')]
      else let needBytes = fieldSpanBytes (br_bitOffset br) nbits; availBytes = remainingBytes br
      in if availBytes \<ge> needBytes \<and> needBytes \<le> 4 then [(br_byteIndex br, needBytes)]
      else if br_bitOffset br + nbits \<le> 32
      then let toLoad = fieldSpanBytes (br_bitOffset br) nbits; toLoad' = (if toLoad > 4 then 4 else toLoad)
           in [(br_byteIndex br, toLoad')]
      else [(br_byteIndex br, 4), (br_byteIndex br + 4, 1)])"

definition field_octets :: "BitReader \<Rightarrow> nat \<Rightarrow> nat list" where
  "field_octets br nbits = concat (map (\<lambda>(start, n). loadN_octets start ((br_totalBits br + 7) div 8) n) (field_loads br nbits))"

text \<open>The value of a field is computed from exactly these loads.\<close>

lemma field_value_loads:
  "field_value buf br nbits =
     (case map (\<lambda>(start, n). loadN buf start ((br_totalBits br + 7) div 8) n) (field_loads br nbits) of
        [(loaded, actual)] \<Rightarrow> drop_bit (actual * 8 - br_bitOffset br - nbits) loaded AND drop_bit (32 - nbits) (- 1)
      | (lo, _) # (hi, _) # _ \<Rightarrow>
          ucast (drop_bit (40 - br_bitOffset br - nbits) (push_bit 8 (ucast lo :: u64) OR ucast hi) AND
                 ucast (drop_bit (32 - nbits) (- 1) :: u32))
      | [] \<Rightarrow> 0)"
  by (simp add: field_value_def field_loads_def window_value_def wide_value_def Let_def split: prod.split)

text \<open>A field is loaded when its read succeeds.\<close>

definition readField_octets :: "nat \<Rightarrow> BitReader \<Rightarrow> nat list" where
  "readField_octets nbits br =
     (case readField nbits br of (Inl _, _) \<Rightarrow> [] | (Inr _, _) \<Rightarrow> if nbits = 0 then [] else field_octets br nbits)"

definition peekField_octets :: "nat \<Rightarrow> BitReader \<Rightarrow> nat list" where
  "peekField_octets n0 br =
     (if n0 = 0 then []
      else let nbits = (if n0 > 32 then 32 else n0);
               limit = (if br_pos br + nbits > br_totalBits br then br_totalBits br else br_pos br + nbits);
               actualNbits = size_sub limit (br_pos br) mod 2 ^ 32
      in if actualNbits = 0 \<or> br_buf br = None then [] else field_octets br actualNbits)"

function readBytes_loop_octets :: "bytes \<Rightarrow> nat \<Rightarrow> BitReader \<Rightarrow> nat list" where
  "readBytes_loop_octets buf left br =
     (if left = 0 then []
      else let bitOff = br_pos br mod 8; takeBytes = min left 3; needBytes = fieldSpanBytes bitOff (takeBytes * 8);
               availBytes = remainingBytes br
      in if availBytes \<ge> needBytes \<and> needBytes \<le> 4
      then let pos = br_pos br + takeBytes * 8
           in loadN_octets (br_byteIndex br) ((br_totalBits br + 7) div 8) needBytes @
              readBytes_loop_octets buf (left - takeBytes) (br\<lparr>br_pos := pos, br_byteIndex := pos div 8\<rparr>)
      else readField_octets 8 br @
           (case readField 8 br of (Inl _, _) \<Rightarrow> [] | (Inr _, br1) \<Rightarrow> readBytes_loop_octets buf (left - 1) br1))"
  by pat_completeness auto

termination readBytes_loop_octets
  by (relation "measure (\<lambda>(_, left, _). left)") auto

declare readBytes_loop_octets.simps [simp del]

definition readBytes_octets :: "nat \<Rightarrow> BitReader \<Rightarrow> nat list" where
  "readBytes_octets count br =
     (if count = 0 then []
      else case br_buf br of
        None \<Rightarrow> []
      | Some buf \<Rightarrow>
          if br_pos br div 8 + count > (br_totalBits br + 7) div 8 then []
          else if br_bitOffset br = 0 then [br_byteIndex br..<br_byteIndex br + count]
          else readBytes_loop_octets buf count br)"

section \<open>Inside the buffer\<close>

text \<open>The octets of the buffer from the one with the current bit on.\<close>

definition ahead :: "BitReader \<Rightarrow> nat set" where
  "ahead br = {br_pos br div 8..<(br_totalBits br + 7) div 8}"

lemma loadN_octets_eq:
  assumes "s + k \<le> m" "m < 2 ^ 32"
  shows "loadN_octets s m k = [s..<s + k]"
proof -
  have "s mod 2 ^ 32 = s" "(s + k) mod 2 ^ 32 = s + k" "m mod 2 ^ 32 = m" using assms by simp_all
  then show ?thesis using assms(1) by (simp add: loadN_octets_def Let_def)
qed

lemma span_end:
  assumes "p = 8 * b + off" "off + n \<le> 8 * k" "8 * k < off + n + 8"
  shows "(p + n + 7) div 8 = b + (k :: nat)"
proof (rule div_nat_eqI)
  show "8 * (b + k) \<le> p + n + 7" "p + n + 7 < 8 * Suc (b + k)" using assms by simp_all
qed

text \<open>A field that fits reads exactly the octets that hold a bit of it.\<close>

lemma field_octets_eq:
  assumes ok: "br_ok br" and n: "0 < n" "n \<le> 32" and fits: "br_pos br + n \<le> br_totalBits br"
  shows "field_octets br n = [br_pos br div 8..<(br_pos br + n + 7) div 8]"
proof -
  from ok obtain buf where buf: "br_buf br = Some buf" "br_totalBits br \<le> 8 * length buf" "length buf < 2 ^ 32 - 4"
    and at: "br_byteIndex br = br_pos br div 8" "br_bitOffset br = br_pos br mod 8"
    by (rule br_okD)
  let ?b = "br_pos br div 8" and ?off = "br_pos br mod 8" and ?m = "(br_totalBits br + 7) div 8"
  let ?k = "fieldSpanBytes ?off n"
  have m: "?m < 2 ^ 32" using buf by simp
  have span: "?off + n \<le> 8 * ?k" "8 * ?k < ?off + n + 8" by (rule span_bounds [OF n(1)])+
  have fit: "?b + ?k \<le> ?m" using span_in_buffer [OF n(1) fits] .
  have last: "?b + ?k = (br_pos br + n + 7) div 8" using span_end [OF _ span, of "br_pos br" ?b] by simp
  show ?thesis
  proof (cases "?k \<le> 4")
    case True
    have "?off + n \<le> 32" using span(1) True by linarith
    then have "field_loads br n = [(?b, ?k)]" using True at by (cases "?off = 0") (simp_all add: field_loads_def Let_def)
    then show ?thesis by (simp add: field_octets_def loadN_octets_eq [OF fit m] last)
  next
    case False
    then have k5: "?k = 5" using span n(2) by linarith
    have "\<not> ?off + n \<le> 32" "?off \<noteq> 0" using False span n(2) by linarith+
    then have loads: "field_loads br n = [(?b, 4), (?b + 4, 1)]" using False at by (simp add: field_loads_def Let_def)
    have five: "?b + 5 \<le> ?m" using fit by (simp add: k5)
    have "loadN_octets ?b ?m 4 = [?b..<?b + 4]" "loadN_octets (?b + 4) ?m 1 = [?b + 4..<?b + 4 + 1]"
      using five by (intro loadN_octets_eq m; simp)+
    moreover have "[?b..<?b + 4] @ [?b + 4..<?b + 4 + 1] = [?b..<?b + 5]" using upt_add_eq_append [of ?b "?b + 4" 1] by (simp add: add.commute)
    ultimately show ?thesis using last by (simp add: field_octets_def loads k5)
  qed
qed

lemma fits_ahead: "br_pos br + n \<le> br_totalBits br \<Longrightarrow> set [br_pos br div 8..<(br_pos br + n + 7) div 8] \<subseteq> ahead br"
  using div_le_mono [of "br_pos br + n + 7" "br_totalBits br + 7" 8] by (auto simp: ahead_def)

lemma readField_ahead:
  assumes "br_ok br"
  shows "set (readField_octets n br) \<subseteq> ahead br"
proof (cases "n = 0 \<or> n > 32 \<or> br_pos br + n > br_totalBits br")
  case True
  then show ?thesis by (auto simp: readField_octets_def readField_def perr_def split: option.split)
next
  case False
  then have "field_octets br n = [br_pos br div 8..<(br_pos br + n + 7) div 8]" using field_octets_eq [OF assms] by simp
  then show ?thesis using fits_ahead [of br n] False by (auto simp: readField_octets_def split: prod.split sum.split)
qed

lemma peekField_ahead:
  assumes ok: "br_ok br"
  shows "set (peekField_octets n br) \<subseteq> ahead br"
proof -
  from ok obtain buf where buf: "br_buf br = Some buf" "br_totalBits br \<le> 8 * length buf" "length buf < 2 ^ 32 - 4" "br_pos br \<le> br_totalBits br"
    by (rule br_okD)
  define nbits where "nbits = (if n > 32 then 32 else n)"
  define limit where "limit = (if br_pos br + nbits > br_totalBits br then br_totalBits br else br_pos br + nbits)"
  define a where "a = size_sub limit (br_pos br) mod 2 ^ 32"
  have lim: "br_pos br \<le> limit" "limit \<le> br_totalBits br" "limit \<le> br_pos br + 32"
    using buf(4) by (auto simp: limit_def nbits_def)
  have "size_sub limit (br_pos br) = limit - br_pos br" using lim buf by (intro size_sub_le) simp_all
  then have a: "a \<le> 32" "br_pos br + a \<le> br_totalBits br" using lim by (simp_all add: a_def)
  have "peekField_octets n br = (if n = 0 \<or> a = 0 \<or> br_buf br = None then [] else field_octets br a)"
    by (simp add: peekField_octets_def Let_def a_def limit_def nbits_def)
  then show ?thesis using field_octets_eq [OF ok _ a] fits_ahead [OF a(2)] by (auto split: if_splits)
qed

lemma ahead_mono: "br_totalBits br1 = br_totalBits br \<Longrightarrow> br_pos br \<le> br_pos br1 \<Longrightarrow> ahead br1 \<subseteq> ahead br"
  using div_le_mono [of "br_pos br" "br_pos br1" 8] by (auto simp: ahead_def)

lemma loop_ahead:
  assumes "br_buf br = Some buf" "br_ok br" "br_pos br mod 8 \<noteq> 0"
  shows "set (readBytes_loop_octets buf left br) \<subseteq> ahead br"
  using assms
proof (induction left arbitrary: br rule: less_induct)
  case (less left)
  define n k where "n = min left 3" and "k = fieldSpanBytes (br_pos br mod 8) (n * 8)"
  consider "left = 0" | "left \<noteq> 0" "remainingBytes br \<ge> k \<and> k \<le> 4" | "left \<noteq> 0" "\<not> (remainingBytes br \<ge> k \<and> k \<le> 4)"
    by blast
  then show ?case
  proof cases
    case 1
    then show ?thesis by (simp add: readBytes_loop_octets.simps)
  next
    case 2
    define nxt where "nxt = br\<lparr>br_pos := br_pos br + n * 8, br_byteIndex := (br_pos br + n * 8) div 8\<rparr>"
    have n: "0 < n" "n \<le> left" using 2(1) by (simp_all add: n_def)
    have fits: "8 * n \<le> length (upcoming br)" using avail_fits [OF less.prems(2,3) _ n(1)] 2 by (simp add: k_def)
    then have total: "br_pos br + n * 8 \<le> br_totalBits br" using n(1) by (simp add: length_upcoming [OF less.prems(2)])
    from less.prems(2) obtain buf' where buf': "br_buf br = Some buf'" "br_totalBits br \<le> 8 * length buf'" "length buf' < 2 ^ 32 - 4" "br_byteIndex br = br_pos br div 8"
      by (rule br_okD)
    have "br_pos br div 8 + k \<le> (br_totalBits br + 7) div 8" using span_in_buffer [OF _ total] n(1) by (simp add: k_def)
    then have load: "loadN_octets (br_byteIndex br) ((br_totalBits br + 7) div 8) k = [br_pos br div 8..<br_pos br div 8 + k]"
      "set [br_pos br div 8..<br_pos br div 8 + k] \<subseteq> ahead br"
      using buf' loadN_octets_eq [of "br_pos br div 8" k "(br_totalBits br + 7) div 8"] by (auto simp: ahead_def)
    have nxt: "br_ok nxt" "br_buf nxt = Some buf" "br_pos nxt = br_pos br + n * 8" "br_totalBits nxt = br_totalBits br"
      unfolding nxt_def using skip_ok [OF less.prems(2) fits] less.prems(1) by simp_all
    have step: "readBytes_loop_octets buf left br =
        loadN_octets (br_byteIndex br) ((br_totalBits br + 7) div 8) k @ readBytes_loop_octets buf (left - n) nxt"
      using 2 by (subst readBytes_loop_octets.simps) (simp add: n_def [symmetric] k_def [symmetric] nxt_def Let_def)
    have "set (readBytes_loop_octets buf (left - n) nxt) \<subseteq> ahead nxt" using less.IH [of "left - n" nxt] nxt less.prems(3) n 2(1) by simp
    also have "ahead nxt \<subseteq> ahead br" using nxt by (intro ahead_mono) simp_all
    finally show ?thesis using load step by simp
  next
    case 3
    obtain r br1 where r: "readField 8 br = (r, br1)" by (meson surj_pair)
    have step: "readBytes_loop_octets buf left br = readField_octets 8 br @
        (case r of Inl _ \<Rightarrow> [] | Inr _ \<Rightarrow> readBytes_loop_octets buf (left - 1) br1)"
      using 3 r by (subst readBytes_loop_octets.simps) (auto simp: n_def [symmetric] k_def [symmetric] Let_def split: sum.split)
    show ?thesis
    proof (cases r)
      case (Inl e)
      then show ?thesis using step readField_ahead [OF less.prems(2)] by simp
    next
      case (Inr v)
      then have le: "8 \<le> length (upcoming br)" using readField_short [OF less.prems(2), of 8] r by (fastforce simp: perr_def)
      obtain br1' where "readField 8 br = (Inr v, br1')" "br_ok br1'" "br_pos br1' = br_pos br + 8"
        using readField_fits [OF less.prems(2) _ le] r Inr by auto
      then have ok: "br_ok br1" "br_pos br1 = br_pos br + 8" using r by simp_all
      have f: "br_buf br1 = Some buf" "br_totalBits br1 = br_totalBits br"
        using readField_forward [of br 8] r less.prems(1) by (simp_all add: forward_def)
      have "set (readBytes_loop_octets buf (left - 1) br1) \<subseteq> ahead br1" using less.IH [of "left - 1" br1] ok f less.prems(3) 3(1) by simp
      also have "ahead br1 \<subseteq> ahead br" using ok f by (intro ahead_mono) simp_all
      finally show ?thesis using step Inr readField_ahead [OF less.prems(2)] by simp
    qed
  qed
qed

lemma readBytes_ahead:
  assumes ok: "br_ok br"
  shows "set (readBytes_octets n br) \<subseteq> ahead br"
proof -
  from ok obtain buf where buf: "br_buf br = Some buf" "br_byteIndex br = br_pos br div 8" "br_bitOffset br = br_pos br mod 8"
    by (rule br_okD)
  show ?thesis
  proof (cases "n = 0 \<or> br_pos br div 8 + n > (br_totalBits br + 7) div 8")
    case True
    then show ?thesis using buf(1) by (auto simp: readBytes_octets_def)
  next
    case False
    then have "readBytes_octets n br =
        (if br_pos br mod 8 = 0 then [br_pos br div 8..<br_pos br div 8 + n] else readBytes_loop_octets buf n br)"
      using buf by (auto simp: readBytes_octets_def)
    then show ?thesis using False loop_ahead [OF buf(1) ok, of n] by (auto simp: ahead_def)
  qed
qed

section \<open>Nothing else is read\<close>

text \<open>
  The lists above are complete: on another buffer that is not shorter and has the same octets at these places, an operation has the same
  result and leaves the same reader, apart from the buffer.
\<close>

definition on_buffer :: "bytes \<Rightarrow> BitReader \<Rightarrow> BitReader" where
  "on_buffer buf br = br\<lparr>br_buf := Some buf\<rparr>"

definition agree :: "nat list \<Rightarrow> bytes \<Rightarrow> bytes \<Rightarrow> bool" where
  "agree is buf buf' \<longleftrightarrow> length buf \<le> length buf' \<and> (\<forall>i\<in>set is. buf' ! i = buf ! i)"

lemma on_buffer_fields [simp]:
  "br_buf (on_buffer buf br) = Some buf" "br_pos (on_buffer buf br) = br_pos br" "br_totalBits (on_buffer buf br) = br_totalBits br"
  "br_byteIndex (on_buffer buf br) = br_byteIndex br" "br_bitOffset (on_buffer buf br) = br_bitOffset br"
  "remainingBytes (on_buffer buf br) = remainingBytes br" "br_goto p (on_buffer buf br) = on_buffer buf (br_goto p br)"
  "(on_buffer buf br)\<lparr>br_pos := p, br_byteIndex := q\<rparr> = on_buffer buf (br\<lparr>br_pos := p, br_byteIndex := q\<rparr>)"
  "(on_buffer buf br)\<lparr>br_bitOffset := p\<rparr> = on_buffer buf (br\<lparr>br_bitOffset := p\<rparr>)"
  by (simp_all add: on_buffer_def remainingBytes_def br_goto_def)

lemma agree_append [simp]: "agree (is @ js) buf buf' \<longleftrightarrow> agree is buf buf' \<and> agree js buf buf'"
  by (auto simp: agree_def)

lemma loadN_agree: "agree (loadN_octets s m n) buf buf' \<Longrightarrow> loadN buf' s m n = loadN buf s m n"
  unfolding loadN_def by (intro foldl_cong) (auto simp: agree_def split: prod.split)

lemma field_value_agree:
  assumes "agree (field_octets br n) buf buf'"
  shows "field_value buf' (on_buffer buf' br) n = field_value buf br n"
proof -
  have loads: "field_loads (on_buffer buf' br) n = field_loads br n" by (simp only: field_loads_def on_buffer_fields)
  have "agree (loadN_octets s ((br_totalBits br + 7) div 8) k) buf buf'" if "(s, k) \<in> set (field_loads br n)" for s k
    using assms that by (auto simp: agree_def field_octets_def)
  then have "map (\<lambda>(s, k). loadN buf' s ((br_totalBits br + 7) div 8) k) (field_loads br n) =
      map (\<lambda>(s, k). loadN buf s ((br_totalBits br + 7) div 8) k) (field_loads br n)"
    by (auto intro: loadN_agree)
  then show ?thesis by (simp only: field_value_loads loads on_buffer_fields)
qed

lemma readField_agree:
  assumes "br_buf br = Some buf" "agree (readField_octets n br) buf buf'"
  shows "readField n (on_buffer buf' br) = apsnd (on_buffer buf') (readField n br)"
proof (cases "n = 0 \<or> n > 32 \<or> br_pos br + n > br_totalBits br")
  case True
  then show ?thesis using assms(1) by (auto simp: readField_def perr_def)
next
  case False
  then have "agree (field_octets br n) buf buf'" using assms by (simp add: readField_octets_def readField_def)
  then show ?thesis using False assms(1) field_value_agree by (simp add: readField_def)
qed

lemma peekField_agree:
  assumes "br_buf br = Some buf" "agree (peekField_octets n br) buf buf'"
  shows "peekField n (on_buffer buf' br) = peekField n br"
  using assms field_value_agree [of br _ buf buf'] by (auto simp: peekField_def peekField_octets_def Let_def split: if_splits)

lemma readBytes_loop_agree:
  assumes "br_buf br = Some buf" "agree (readBytes_loop_octets buf left br) buf buf'"
  shows "readBytes_loop buf' left out (on_buffer buf' br) = apsnd (on_buffer buf') (readBytes_loop buf left out br)"
  using assms
proof (induction left arbitrary: br out rule: less_induct)
  case (less left)
  define n k where "n = min left 3" and "k = fieldSpanBytes (br_pos br mod 8) (n * 8)"
  let ?total = "(br_totalBits br + 7) div 8"
  consider "left = 0" | "left \<noteq> 0" "remainingBytes br \<ge> k \<and> k \<le> 4" | "left \<noteq> 0" "\<not> (remainingBytes br \<ge> k \<and> k \<le> 4)"
    by blast
  then show ?case
  proof cases
    case 1
    then show ?thesis by (simp add: readBytes_loop.simps)
  next
    case 2
    define nxt where "nxt = br\<lparr>br_pos := br_pos br + n * 8, br_byteIndex := (br_pos br + n * 8) div 8\<rparr>"
    have n: "0 < n" "n \<le> left" using 2(1) by (simp_all add: n_def)
    have "readBytes_loop_octets buf left br = loadN_octets (br_byteIndex br) ?total k @ readBytes_loop_octets buf (left - n) nxt"
      using 2 by (subst readBytes_loop_octets.simps) (simp add: n_def [symmetric] k_def [symmetric] nxt_def Let_def)
    then have a: "agree (loadN_octets (br_byteIndex br) ?total k) buf buf'" "agree (readBytes_loop_octets buf (left - n) nxt) buf buf'"
      using less.prems(2) by simp_all
    define got where "got = (let (loaded, actual) = loadN buf (br_byteIndex br) ?total k
      in map (\<lambda>i. ucast (drop_bit (actual * 8 - br_pos br mod 8 - (i + 1) * 8) loaded) :: u8) [0..<n])"
    have "readBytes_loop buf left out br = readBytes_loop buf (left - n) (out @ got) nxt"
      using 2 by (subst readBytes_loop.simps) (simp add: n_def [symmetric] k_def [symmetric] nxt_def got_def Let_def split: prod.split)
    moreover have "readBytes_loop buf' left out (on_buffer buf' br) = readBytes_loop buf' (left - n) (out @ got) (on_buffer buf' nxt)"
      using 2 by (subst readBytes_loop.simps)
        (simp add: n_def [symmetric] k_def [symmetric] nxt_def got_def Let_def loadN_agree [OF a(1)] split: prod.split)
    moreover have "readBytes_loop buf' (left - n) (out @ got) (on_buffer buf' nxt) =
        apsnd (on_buffer buf') (readBytes_loop buf (left - n) (out @ got) nxt)"
      using n 2(1) a(2) less.prems(1) by (intro less.IH) (simp_all add: nxt_def)
    ultimately show ?thesis by (simp only:)
  next
    case 3
    obtain r br1 where r: "readField 8 br = (r, br1)" by (meson surj_pair)
    have "readBytes_loop_octets buf left br = readField_octets 8 br @
        (case r of Inl _ \<Rightarrow> [] | Inr _ \<Rightarrow> readBytes_loop_octets buf (left - 1) br1)"
      using 3 r by (subst readBytes_loop_octets.simps) (auto simp: n_def [symmetric] k_def [symmetric] Let_def split: sum.split)
    then have a: "agree (readField_octets 8 br) buf buf'" "\<And>v. r = Inr v \<Longrightarrow> agree (readBytes_loop_octets buf (left - 1) br1) buf buf'"
      using less.prems(2) by auto
    have r': "readField 8 (on_buffer buf' br) = (r, on_buffer buf' br1)" using readField_agree [OF less.prems(1) a(1)] r by simp
    have "br_buf br1 = Some buf" using r less.prems(1) readField_forward [of br 8] by (simp add: forward_def)
    then have ih: "readBytes_loop buf' (left - 1) out (on_buffer buf' br1) = apsnd (on_buffer buf') (readBytes_loop buf (left - 1) out br1)"
      if "r = Inr v" for v out using less.IH [of "left - 1" br1 out] a(2) [OF that] 3(1) by simp
    have "readBytes_loop buf left out br = (case r of Inl e \<Rightarrow> (Inl e, br1) | Inr v \<Rightarrow> readBytes_loop buf (left - 1) (out @ [ucast v]) br1)"
      using 3 r by (subst readBytes_loop.simps) (auto simp: n_def [symmetric] k_def [symmetric] Let_def split: sum.split)
    moreover have "readBytes_loop buf' left out (on_buffer buf' br) =
        (case r of Inl e \<Rightarrow> (Inl e, on_buffer buf' br1) | Inr v \<Rightarrow> readBytes_loop buf' (left - 1) (out @ [ucast v]) (on_buffer buf' br1))"
      using 3 r' by (subst readBytes_loop.simps) (auto simp: n_def [symmetric] k_def [symmetric] Let_def split: sum.split)
    ultimately show ?thesis using ih by (cases r) simp_all
  qed
qed

lemma copy_agree:
  assumes "agree [b..<b + n] buf buf'" "b + n \<le> length buf"
  shows "take n (drop b buf') = take n (drop b buf)"
  using assms by (intro nth_equalityI) (auto simp: agree_def)

lemma readBytes_agree:
  assumes ok: "br_ok br" and buf: "br_buf br = Some buf" and agree: "agree (readBytes_octets n br) buf buf'"
  shows "readBytes n (on_buffer buf' br) = apsnd (on_buffer buf') (readBytes n br)"
proof -
  have size: "br_totalBits br \<le> 8 * length buf" "br_byteIndex br = br_pos br div 8" using ok buf by (auto simp: br_ok_def)
  consider "n = 0 \<or> br_pos br div 8 + n > (br_totalBits br + 7) div 8"
    | "n \<noteq> 0" "br_pos br div 8 + n \<le> (br_totalBits br + 7) div 8" "br_bitOffset br = 0"
    | "n \<noteq> 0" "br_pos br div 8 + n \<le> (br_totalBits br + 7) div 8" "br_bitOffset br \<noteq> 0" by linarith
  then show ?thesis
  proof cases
    case 1
    then show ?thesis using buf by (auto simp: readBytes_def perr_def)
  next
    case 2
    have "agree [br_byteIndex br..<br_byteIndex br + n] buf buf'" using agree buf 2 by (simp add: readBytes_octets_def)
    moreover have "br_byteIndex br + n \<le> length buf" using 2(2) size by linarith
    ultimately have "take n (drop (br_byteIndex br) buf') = take n (drop (br_byteIndex br) buf)" by (rule copy_agree)
    then show ?thesis using 2 buf by (simp add: readBytes_def)
  next
    case 3
    then have "agree (readBytes_loop_octets buf n br) buf buf'" using agree buf by (simp add: readBytes_octets_def)
    note L = readBytes_loop_agree [OF buf this, of "[]"]
    show ?thesis using 3 buf L by (cases "readBytes_loop buf n [] br") (simp add: readBytes_def split: sum.split)
  qed
qed

section \<open>Any sequence of operations\<close>

definition op_octets :: "br_op \<Rightarrow> BitReader \<Rightarrow> nat list" where
  "op_octets opn br = (case opn of
      OpField n \<Rightarrow> readField_octets n br
    | OpPeek n \<Rightarrow> peekField_octets n br
    | OpBytes n \<Rightarrow> readBytes_octets n br
    | OpAlign \<Rightarrow> [])"

fun run_octets :: "br_op list \<Rightarrow> BitReader \<Rightarrow> nat list" where
  "run_octets [] br = []"
| "run_octets (opn # ops) br = op_octets opn br @ run_octets ops (br_step opn br)"

lemma op_ahead: "br_ok br \<Longrightarrow> set (op_octets opn br) \<subseteq> ahead br"
  by (cases opn) (simp_all add: op_octets_def readField_ahead peekField_ahead readBytes_ahead)

text \<open>What the operations of a sequence return.\<close>

datatype br_result = Got_field "u32 Expected" | Got_peek u32 | Got_octets "bytes Expected" | Got_nothing

definition op_result :: "br_op \<Rightarrow> BitReader \<Rightarrow> br_result" where
  "op_result opn br = (case opn of
      OpField n \<Rightarrow> Got_field (fst (readField n br))
    | OpPeek n \<Rightarrow> Got_peek (peekField n br)
    | OpBytes n \<Rightarrow> Got_octets (fst (readBytes n br))
    | OpAlign \<Rightarrow> Got_nothing)"

fun run_results :: "br_op list \<Rightarrow> BitReader \<Rightarrow> br_result list" where
  "run_results [] br = []"
| "run_results (opn # ops) br = op_result opn br # run_results ops (br_step opn br)"

lemma op_agree:
  assumes "br_ok br" "br_buf br = Some buf" "agree (op_octets opn br) buf buf'"
  shows "op_result opn (on_buffer buf' br) = op_result opn br" "br_step opn (on_buffer buf' br) = on_buffer buf' (br_step opn br)"
  using assms readField_agree [OF assms(2)] peekField_agree [OF assms(2)] readBytes_agree [OF assms(1,2)]
  by (cases opn; simp add: op_result_def br_step_def op_octets_def br_alignToOctet_def Let_def)+

lemma run_agree:
  assumes "br_ok br" "8 dvd br_totalBits br" "br_buf br = Some buf" "agree (run_octets ops br) buf buf'"
  shows "run_results ops (on_buffer buf' br) = run_results ops br"
  using assms
proof (induction ops arbitrary: br)
  case (Cons opn ops)
  note O = op_agree [OF Cons.prems(1,3), of opn buf']
  have w: "within br (br_step opn br)" by (rule step_within [OF Cons.prems(1,2)])
  then have "run_results ops (on_buffer buf' (br_step opn br)) = run_results ops (br_step opn br)"
    using Cons by (simp add: within_def)
  then show ?case using O Cons.prems(4) by simp
qed simp

text \<open>
  C39. Bounds of the reader: over a buffer of whole octets, any sequence of field reads of any width, peeks, octet reads of any
  count and alignments reads octets of the buffer only, none before the one with the current bit and none past the end of the input, and
  what it returns is a function of these octets alone: another buffer, whatever else is in it, gives the same results. It
  leaves the reader inside its buffer, its position never moves back, and the bits to come are always a suffix of the
  bits it started with - also after reads that failed half way.
\<close>

theorem reader_in_bounds:
  assumes "br_ok br" "8 dvd br_totalBits br"
  shows "within br (fold br_step ops br) \<and>
    (\<forall>i\<in>set (run_octets ops br). br_pos br div 8 \<le> i \<and> 8 * i < br_totalBits br \<and> i < length (the (br_buf br))) \<and>
    (\<forall>buf'. agree (run_octets ops br) (the (br_buf br)) buf' \<longrightarrow> run_results ops (br\<lparr>br_buf := Some buf'\<rparr>) = run_results ops br)"
proof -
  have run: "within br (fold br_step ops br) \<and> set (run_octets ops br) \<subseteq> ahead br"
    using assms
  proof (induction ops arbitrary: br)
    case Nil
    then show ?case by (simp add: withinI)
  next
    case (Cons opn ops)
    have step: "within br (br_step opn br)" by (rule step_within [OF Cons.prems])
    then have ih: "within (br_step opn br) (fold br_step ops (br_step opn br))" "set (run_octets ops (br_step opn br)) \<subseteq> ahead (br_step opn br)"
      using Cons by (simp_all add: within_def)
    have "ahead (br_step opn br) \<subseteq> ahead br" using step by (intro ahead_mono) (simp_all add: within_def)
    then show ?case using op_ahead [OF Cons.prems(1), of opn] ih step within_trans by auto
  qed
  from assms(1) obtain buf where buf: "br_buf br = Some buf" "br_totalBits br \<le> 8 * length buf" by (rule br_okD)
  obtain t where "br_totalBits br = 8 * t" using assms(2) by (rule dvdE)
  then have "8 * i < br_totalBits br \<and> i < length buf" if "i \<in> ahead br" for i using that buf(2) by (simp add: ahead_def)
  then show ?thesis using run buf(1) run_agree [OF assms buf(1), unfolded on_buffer_def] by (auto simp: ahead_def)
qed

theorem reader_in_bounds_witness:
  "let ops = [OpField 3, OpBytes 4, OpField 32, OpPeek 32, OpBytes 7, OpAlign]
   in set (run_octets ops example_reader) \<subseteq> {0..<6} \<and> br_pos (fold br_step ops example_reader) \<le> 48 \<and>
      run_octets [OpField 3] example_reader = [0]"
proof -
  let ?ops = "[OpField 3, OpBytes 4, OpField 32, OpPeek 32, OpBytes 7, OpAlign]"
  have size: "br_totalBits example_reader = 48" "br_pos example_reader = 0" by (simp_all add: example_reader_def mkBitReader_def)
  note R = reader_in_bounds [OF example_reader_ok, of ?ops]
  have "br_pos (fold br_step ?ops example_reader) \<le> 48" using R size by (auto simp: within_def br_ok_def)
  moreover have "set (run_octets ?ops example_reader) \<subseteq> {0..<6}" using R size by fastforce
  moreover have "field_octets example_reader 3 = [0]" using field_octets_eq [OF example_reader_ok(1), of 3] size by simp
  then have "run_octets [OpField 3] example_reader = [0]"
    using example_reader_ok(1) size by (auto simp: op_octets_def readField_octets_def readField_def br_ok_def)
  ultimately show ?thesis by (simp only: Let_def)
qed

end
