(* ===== verification/Spec2Isabelle.thy ===== *)
theory Spec2Isabelle
  imports Lapdm_Link Transaction State_Machine Procedure_Runner L3_Header Channel_Pool Sharded_Pool Sharded_Registry Stream_Processor Reader_Access
begin

text \<open>
  libgsml3parser parses and builds the signalling messages of layer 3 of GSM and runs the protocols of a base station on
  them. Octets arrive in one of two ways. On a signalling link the LAPDm entity (\<^verbatim>\<open>lapdm_entity\<close>) acknowledges, reorders and
  reassembles the frames that \<^verbatim>\<open>lapdm_frame\<close> decodes; on a capture or a live feed the framers of \<^verbatim>\<open>bitstream\<close> cut a stream into
  frames. A frame goes to the message parser (\<^verbatim>\<open>parser.cpp\<close>), which reads the header and gives the body to the parser of
  the domain its protocol discriminator names; the domain parsers read bit fields through a bit reader. A parsed
  message then drives the protocol stack of its subscriber (\<^verbatim>\<open>stack/\<close>): state machines, timers, transactions and the procedures that a runner
  keeps in slots. A channel pool hands out radio channels, and the registry owns the subscribers and finds them in hash maps.

  The theories follow these parts; each definition carries the name of the function, method or class it translates, with a
  short prefix where several classes share a method name.

  \<^bold>\<open>Foundations.\<close> \<open>Prelude\<close> has the machine integers, the errors of \<^verbatim>\<open>expected.h\<close> as a sum type, and the facts on words, lists and
  slots that all components use. \<open>Gsm_Types\<close> and \<open>L3_Elements\<close> are the enumerations and elements of \<^verbatim>\<open>types.h\<close>, \<^verbatim>\<open>enums.h\<close> and
  \<^verbatim>\<open>common/l3common.h\<close> the protocol stack uses.

  \<^bold>\<open>The data link.\<close> \<open>Lapdm_Frame\<close> is the frame codec; the locale \<open>frame_codec\<close> is what the link needs of it. \<open>Lapdm_Entity\<close> is the entity with every
  handler, timer and queue; its callbacks are an output list. \<open>Lapdm_Invariant\<close> shows an invariant of all operations, the budget of
  retransmissions, what a transmission does on each branch, and that what an entity emits can be decoded when its user keeps to
  the limits of unnumbered frames. \<open>Lapdm_Link\<close> composes
  two entities over a link that loses nothing: the octets delivered are those sent, in order, and a transfer completes.

  \<^bold>\<open>The protocol stack.\<close> \<open>L3_Timer\<close> (locale \<open>timer_service\<close>; which expiries a tick reports, in which order, and each call of the activity
  observer), \<open>Transaction\<close> (over all runs: the index against a search of the table, while no two dialogs share an identifier),
  \<open>State_Machine\<close> (locale \<open>protocol_machine\<close>, with the radio resource, mobility management and call control machines as its
  instances) and \<open>Ms_Context\<close> are the state of a subscriber. \<open>Procedure_Base\<close> states the contract of a procedure as the locales
  \<open>protocol_procedure\<close> and \<open>mixin_procedure\<close>; \<open>Procedures_MM\<close>, \<open>Procedures_CC\<close> and \<open>Procedures_RR\<close> translate the ten procedures and interpret
  the second locale on each; \<open>Procedures\<close> is their sum and interprets the first. \<open>Procedure_Runner\<close> routes messages,
  timers and external data to the slots and tells its observer when the last procedure ends. \<open>Channel_Pool\<close> refines a set of
  channels in use, and \<open>Sharded_Pool\<close> shows that the sharded pool refines the same set. \<open>Flat_Map\<close> is the open addressing hash map,
  and \<open>Flat_Map_Store\<close> shows that it refines a finite map (locale
  \<open>keyed_store\<close>), when a lookup returns, and the state in which it does not.

  \<^bold>\<open>The registry.\<close> \<open>Subscriber_Session\<close> is what the registry keeps of a subscriber; its locale \<open>observed\<close> states how the activity observers report,
  and is interpreted on timers and procedures. \<open>Subscriber_Registry\<close> has every operation of \<^verbatim>\<open>subscriber_registry\<close>, \<open>Registry_Invariant\<close> and
  \<open>Registry_Ticks\<close> show what each keeps, and \<open>Registry_Reachable\<close> concludes for every reachable registry: the indexes and activity sets
  fit the sessions, no expiry is lost, and an index entry can outlive its subscriber. \<open>Sharded_Registry\<close> is the registry in four
  shards: each session is in the shard its identity selects, a full buffer stops the clock of later shards, and a session created by
  subscriber identity under the lock of a shard can be out of reach.

  \<^bold>\<open>The message codecs.\<close> \<open>Bit_Reader\<close> and \<open>Bit_Writer\<close> are the bit streams: \<open>readField\<close> is equal to a sum over bits on all of its
  load windows. \<open>Reader_Access\<close> lists the octets that each operation loads, and shows that its result depends on
  no others and that no sequence of reads leaves the input. A codec is a parser and a writer with the bits between them (the locales \<open>bit_codec\<close> and
  \<open>ie_codec\<close>); a domain is a codec per message type with a length (\<open>domain_codec\<close> in \<open>L3_Framing\<close>), from which the
  round trip of frames and hexadecimal texts is derived once. \<open>Identity_Codec\<close>, \<open>Ie_Loop\<close>, \<open>Mm_Elements\<close> and \<open>Network_Name\<close> are the elements,
  \<open>Mm_Messages\<close> with \<open>Mm_Round_Trip\<close> is mobility management, \<open>Ss_Messages\<close> supplementary services, \<open>Sms_Elements\<close>, \<open>Sms_Transport\<close> and
  \<open>Sms_Messages\<close> the three layers of short messages, \<open>Opaque_Domains\<close> the six domains with verbatim bodies. Each interprets
  the locales on its own definitions. \<open>L3_Header\<close> is the header and \<open>L3_Parser\<close> the switch over the domains with the entry points of
  \<^verbatim>\<open>parser.cpp\<close>: every well-formed message is written with the announced length and parsed back unchanged.

  \<^bold>\<open>Streams.\<close> \<open>Ring_Buffer\<close> is the queue between a producer and a consumer, as operations and as an interleaving of single
  copies in which a side that runs alone does what its operation does. \<open>Byte_Stream\<close> has the sources (locales \<open>byte_source\<close> and \<open>finite_source\<close>, interpreted on the span and the ring buffer), the framer
  with a buffer and the one without. \<open>Stream_Processor\<close> composes source, framer and parser: both processors deliver the same
  messages with the same statistics, and messages written behind length octets come out as they went in.

  \<^bold>\<open>Arguments of the model.\<close> What is not written in the sources is an argument of the definitions: the hash function of the
  standard library, the order in which an unordered set is walked, the time that passes at a tick, the octets and frames that arrive. The parsers and writers of
  the domains that are not translated are the arguments \<open>rest\<close> and \<open>view\<close> of the message parser and writer, and the theorems hold for all of them.

  \<^bold>\<open>Integers, loops and errors.\<close> Fields, counters and identifiers are words of their width. A \<^verbatim>\<open>size_t\<close> is a natural number, and a subtraction
  that can go below zero is written with its wrap-around. Loops are structural or have a termination proof. The
  probing loops of the hash map, \<open>nextFrame\<close>, \<open>processUntilEOF\<close>, \<open>processN\<close> and \<open>zc_forEach\<close> need not end for arbitrary arguments: there not
  returning is the value \<open>None\<close>, and the theorems that use them state that they return. The loop over optional elements
  carries a test that each turn makes progress, which \<open>ie_loop_unfold\<close> shows to be redundant. There is no fuel. An error keeps its code and text; the bit position in it
  is not kept. Two threads at the ring buffer are interleaved steps: the release store of an index
  is the step that publishes the copies before it.

  \<^bold>\<open>Not modelled.\<close> The messages of radio resource (other than the bodies without a header), call control, GPRS mobility
  and session management and the radio signalling link of \<^verbatim>\<open>abis/\<close> have the shape of the domains above with other
  elements; they are large and are left as arguments. The response builder assembles messages of the untranslated
  domains, and the procedure orchestrator composes it with the registry and the pool.
  Dispatchers, visitors, formatters and \<^verbatim>\<open>text()\<close> select callbacks or print. The C interface, the arena, the
  benchmark header and the language bindings are marshalling and memory management; file sources are standard input and output.
\<close>

end
